(* ===== verification/Prelude.thy ===== *)
theory Prelude
  imports Main "HOL-Library.Word" "HOL-Library.Product_Lexorder"
begin

unbundle bit_operations_syntax

text \<open>
  Shared vocabulary of the development: the machine integers of the C sources, the model
  of fixed-size C arrays and of C strings, the linear searches and element shifts that the
  kernel's fixed tables use everywhere, and the interface of a bounded queue.

  A C array of a fixed size is a total function from indices (\<open>carray\<close>); its meaningful
  prefix is read off as a list by \<open>arr_list\<close>.  The loops of the sources never index
  outside the declared size: every theory states the bounds it relies on in its
  well-formedness predicate.  A C string is the list of its characters before the NUL.
\<close>

named_theorems carray_simps \<open>reading the prefix of an updated array\<close>

subsection \<open>Machine integers and arrays\<close>

type_synonym u8 = "8 word"
type_synonym u16 = "16 word"
type_synonym u32 = "32 word"
type_synonym u64 = "64 word"

type_synonym 'a carray = "nat \<Rightarrow> 'a"

abbreviation UINT32_MAX :: u32 where "UINT32_MAX \<equiv> 0xFFFFFFFF"

lemma unat_of_nat_small: "n < 2 ^ LENGTH('a) \<Longrightarrow> unat (of_nat n :: 'a::len word) = n"
  by (simp add: unsigned_of_nat take_bit_nat_eq_self)

definition arr_list :: "'a carray \<Rightarrow> nat \<Rightarrow> 'a list" where
  "arr_list a n = map a [0..<n]"

lemma length_arr_list [simp]: "length (arr_list a n) = n"
  by (simp add: arr_list_def)

lemma nth_arr_list [simp]: "i < n \<Longrightarrow> arr_list a n ! i = a i"
  by (simp add: arr_list_def)

lemma arr_list_0 [simp]: "arr_list a 0 = []"
  by (simp add: arr_list_def)

lemma arr_list_Suc [carray_simps]: "arr_list a (Suc n) = arr_list a n @ [a n]"
  by (simp add: arr_list_def)

lemma arr_list_cong: "(\<And>i. i < n \<Longrightarrow> a i = b i) \<Longrightarrow> arr_list a n = arr_list b n"
  by (simp add: arr_list_def)

lemma arr_list_upd_outside [simp]: "n \<le> i \<Longrightarrow> arr_list (a(i := x)) n = arr_list a n"
  by (rule arr_list_cong) auto

lemma arr_list_upd [carray_simps]: "arr_list (a(i := x)) n = (arr_list a n)[i := x]"
  by (rule nth_equalityI) (auto simp: nth_list_update)

lemma set_arr_list: "set (arr_list a n) = a ` {..<n}"
  by (auto simp: arr_list_def)

lemma arr_list_head: "0 < n \<Longrightarrow> arr_list a n = a 0 # arr_list (\<lambda>i. a (Suc i)) (n - 1)"
  by (rule nth_equalityI) (auto simp: nth_Cons split: nat.splits)

text \<open>The search loop \<open>for (i = 0; i < n; ++i) if (P(i)) return i;\<close>.\<close>

definition first_index :: "(nat \<Rightarrow> bool) \<Rightarrow> nat \<Rightarrow> nat option" where
  "first_index P n = find P [0..<n]"

lemma first_index_Some_iff:
  "first_index P n = Some i \<longleftrightarrow> i < n \<and> P i \<and> (\<forall>j<i. \<not> P j)"
  by (auto simp: first_index_def find_Some_iff)

lemma first_index_None_iff: "first_index P n = None \<longleftrightarrow> (\<forall>i<n. \<not> P i)"
  by (auto simp: first_index_def find_None_iff)

lemma first_index_SomeD:
  assumes "first_index P n = Some i"
  shows "i < n" and "P i"
  using assms by (auto simp: first_index_Some_iff)

lemma first_index_cong:
  "(\<And>i. i < n \<Longrightarrow> P i = Q i) \<Longrightarrow> first_index P n = first_index Q n"
  unfolding first_index_def by (rule find_cong) auto

lemma first_index_unique:
  assumes "i < n" "P i" "\<And>j. j < n \<Longrightarrow> P j \<Longrightarrow> j = i"
  shows "first_index P n = Some i"
  using assms unfolding first_index_Some_iff by (metis less_trans nat_neq_iff)

subsection \<open>Element shifts in a fixed array\<close>

text \<open>
  \<open>for (j = from; j < n; ++j) a[j - 1] = a[j];\<close> closes the gap at \<open>from - 1\<close>,
  \<open>for (i = n; i > pos; --i) a[i] = a[i - 1];\<close> opens one at \<open>pos\<close>.
\<close>

function shift_down :: "'a carray \<Rightarrow> nat \<Rightarrow> nat \<Rightarrow> 'a carray" where
  "shift_down a j n = (if j < n then shift_down (a(j - 1 := a j)) (Suc j) n else a)"
  by pat_completeness auto
termination by (relation "measure (\<lambda>(a, j, n). n - j)") auto

declare shift_down.simps [simp del]

lemma shift_down_eq:
  "shift_down a (Suc k) n = (\<lambda>i. if k \<le> i \<and> Suc i < n then a (Suc i) else a i)"
proof (induction "n - k" arbitrary: a k)
  case 0
  then show ?case by (subst shift_down.simps) (auto simp: fun_eq_iff)
next
  case (Suc d)
  show ?case
  proof (cases "Suc k < n")
    case True
    have "shift_down a (Suc k) n = shift_down (a(k := a (Suc k))) (Suc (Suc k)) n"
      using True by (subst shift_down.simps) simp
    also have "\<dots> = (\<lambda>i. if Suc k \<le> i \<and> Suc i < n then (a(k := a (Suc k))) (Suc i)
                            else (a(k := a (Suc k))) i)"
      by (rule Suc.hyps(1)) (use Suc.hyps(2) in simp)
    also have "\<dots> = (\<lambda>i. if k \<le> i \<and> Suc i < n then a (Suc i) else a i)"
      using True by (auto simp: fun_eq_iff)
    finally show ?thesis .
  next
    case False
    then show ?thesis by (subst shift_down.simps) (auto simp: fun_eq_iff)
  qed
qed

fun shift_up :: "'a carray \<Rightarrow> nat \<Rightarrow> nat \<Rightarrow> 'a carray" where
  "shift_up a pos 0 = a"
| "shift_up a pos (Suc i) = (if pos < Suc i then shift_up (a(Suc i := a i)) pos i else a)"

lemma shift_up_eq:
  "shift_up a pos n = (\<lambda>i. if pos < i \<and> i \<le> n then a (i - 1) else a i)"
proof (induction n arbitrary: a)
  case 0
  then show ?case by (auto simp: fun_eq_iff)
next
  case (Suc n)
  then show ?case by (cases "pos < Suc n") (auto simp: fun_eq_iff le_Suc_eq)
qed

lemma arr_list_pop_front:
  "0 < n \<Longrightarrow> arr_list (shift_down a 1 n) (n - 1) = tl (arr_list a n)"
  using shift_down_eq [of a 0 n]
  by (auto simp: arr_list_head intro!: arr_list_cong)

lemma arr_list_remove_at:
  assumes "k < n"
  shows "arr_list (shift_down a (Suc k) n) (n - 1) = take k (arr_list a n) @ drop (Suc k) (arr_list a n)"
  using assms by (intro nth_equalityI) (auto simp: shift_down_eq nth_append)

lemma arr_list_insert_at:
  assumes "pos \<le> n"
  shows "arr_list ((shift_up a pos n)(pos := x)) (Suc n) =
           take pos (arr_list a n) @ x # drop pos (arr_list a n)"
  using assms
proof (intro nth_equalityI)
  fix i assume "i < length (arr_list ((shift_up a pos n)(pos := x)) (Suc n))"
  then have "i < Suc n" by simp
  then show "arr_list ((shift_up a pos n)(pos := x)) (Suc n) ! i =
               (take pos (arr_list a n) @ x # drop pos (arr_list a n)) ! i"
    using assms by (cases "i < pos"; cases "i = pos")
      (auto simp: shift_up_eq nth_append nth_Cons' Suc_diff_Suc)
qed (use assms in simp)

subsection \<open>Byte ranges: memcpy and little-endian words\<close>

definition arr_write :: "'a carray \<Rightarrow> nat \<Rightarrow> 'a list \<Rightarrow> 'a carray" where
  "arr_write a off xs = (\<lambda>i. if off \<le> i \<and> i < off + length xs then xs ! (i - off) else a i)"

definition arr_read :: "'a carray \<Rightarrow> nat \<Rightarrow> nat \<Rightarrow> 'a list" where
  "arr_read a off n = map (\<lambda>i. a (off + i)) [0..<n]"

lemma length_arr_read [simp]: "length (arr_read a off n) = n"
  by (simp add: arr_read_def)

lemma nth_arr_read [simp]: "i < n \<Longrightarrow> arr_read a off n ! i = a (off + i)"
  by (simp add: arr_read_def)

lemma arr_read_write_same [simp]: "n = length xs \<Longrightarrow> arr_read (arr_write a off xs) off n = xs"
  by (rule nth_equalityI) (auto simp: arr_write_def)

lemma arr_read_write_disjoint:
  "off' + n \<le> off \<or> off + length xs \<le> off' \<Longrightarrow>
     arr_read (arr_write a off xs) off' n = arr_read a off' n"
  by (rule nth_equalityI) (auto simp: arr_write_def)

fun from_le :: "u8 list \<Rightarrow> 'a::len word" where
  "from_le [] = 0"
| "from_le (b # bs) = ucast b OR push_bit 8 (from_le bs)"

definition to_le :: "nat \<Rightarrow> 'a::len word \<Rightarrow> u8 list" where
  "to_le n v = map (\<lambda>i. ucast (drop_bit (8 * i) v)) [0..<n]"

lemma length_to_le [simp]: "length (to_le n v) = n"
  by (simp add: to_le_def)

lemma to_le_Suc: "to_le (Suc n) v = ucast v # to_le n (drop_bit 8 v)"
proof -
  have "[0..<Suc n] = 0 # map Suc [0..<n]"
    by (simp add: upt_conv_Cons map_Suc_upt del: upt_Suc)
  then show ?thesis
    by (simp add: to_le_def o_def drop_bit_drop_bit ac_simps)
qed

lemma from_le_to_le: "from_le (to_le n v) = take_bit (8 * n) v"
proof (induction n arbitrary: v)
  case 0
  then show ?case by (simp add: to_le_def)
next
  case (Suc n)
  have "ucast (ucast v :: u8) OR push_bit 8 (take_bit (8 * n) (drop_bit 8 v)) = take_bit (8 * Suc n) v"
    by (rule bit_word_eqI)
       (auto simp: bit_or_iff bit_push_bit_iff bit_take_bit_iff bit_drop_bit_eq bit_ucast_iff)
  then show ?case
    using Suc.IH [of "drop_bit 8 v"] by (simp add: to_le_Suc)
qed

lemma bit_from_le:
  "bit (from_le bs :: 'a::len word) j \<longleftrightarrow>
     j < LENGTH('a) \<and> j div 8 < length bs \<and> bit (bs ! (j div 8)) (j mod 8)"
proof (induction bs arbitrary: j)
  case Nil
  then show ?case by simp
next
  case (Cons b bs)
  show ?case
  proof (cases "j < 8")
    case True
    then show ?thesis by (auto simp: bit_simps)
  next
    case False
    then obtain k where "j = k + 8" by (metis add.commute le_Suc_ex not_less)
    moreover have "(k + 8) div 8 = Suc (k div 8)" by simp
    ultimately show ?thesis
      using Cons.IH [of k] by (auto simp: bit_simps dest: bit_imp_le_length simp del: div_add_self2)
  qed
qed

subsection \<open>C strings\<close>

type_synonym cstr = string

text \<open>
  Every module of the kernel has its own copy of the same bounded string copy: at most
  \<open>out_size - 1\<close> characters and a terminating NUL; a NULL source gives the empty string.
\<close>

fun copy_str_loop :: "nat \<Rightarrow> cstr \<Rightarrow> cstr" where
  "copy_str_loop out_size [] = []"
| "copy_str_loop out_size (c # cs) = (if 1 < out_size then c # copy_str_loop (out_size - 1) cs else [])"

definition copy_str :: "nat \<Rightarrow> cstr option \<Rightarrow> cstr" where
  "copy_str out_size value = (case value of None \<Rightarrow> [] | Some v \<Rightarrow> copy_str_loop out_size v)"

lemma copy_str_loop_take: "copy_str_loop n s = take (n - 1) s"
  by (induction n s rule: copy_str_loop.induct) (auto simp: take_Cons')

lemma copy_str_Some: "copy_str n (Some s) = take (n - 1) s"
  by (simp add: copy_str_def copy_str_loop_take)

lemma copy_str_bound: "0 < n \<Longrightarrow> length (copy_str n v) < n"
  by (cases v) (auto simp: copy_str_def copy_str_loop_take)

lemma copy_str_short [simp]: "length s < n \<Longrightarrow> copy_str n (Some s) = s"
  by (simp add: copy_str_Some)

fun str_eq_loop :: "cstr \<Rightarrow> cstr \<Rightarrow> bool" where
  "str_eq_loop (a # as) (b # bs) = (if a \<noteq> b then False else str_eq_loop as bs)"
| "str_eq_loop as bs = (as = [] \<and> bs = [])"

definition str_eq :: "cstr option \<Rightarrow> cstr option \<Rightarrow> bool" where
  "str_eq a b = (case (a, b) of (Some x, Some y) \<Rightarrow> str_eq_loop x y | _ \<Rightarrow> False)"

lemma str_eq_loop_iff [simp]: "str_eq_loop a b \<longleftrightarrow> a = b"
  by (induction a b rule: str_eq_loop.induct) auto

lemma str_eq_iff [simp]: "str_eq a b \<longleftrightarrow> (\<exists>x. a = Some x \<and> b = Some x)"
  by (auto simp: str_eq_def split: option.splits)

subsection \<open>Loops\<close>

text \<open>
  \<open>while\<close> loops of the sources whose termination is a theorem rather than obvious from
  their shape: the body returns the next loop state (\<open>Inl\<close>) or leaves the loop with a result
  (\<open>Inr\<close>); a run that never leaves the loop is \<open>None\<close>.  The rule is the one of total
  correctness: an invariant, a measure that every iteration decreases, and the result on exit.
\<close>

partial_function (option) loop_until :: "('c \<Rightarrow> 'c + 'r) \<Rightarrow> 'c \<Rightarrow> 'r option" where
  "loop_until body c = (case body c of Inl c' \<Rightarrow> loop_until body c' | Inr r \<Rightarrow> Some r)"

declare loop_until.simps [code]

lemma loop_until_total:
  fixes m :: "'c \<Rightarrow> nat"
  assumes "I c"
    and "\<And>c c'. I c \<Longrightarrow> body c = Inl c' \<Longrightarrow> I c' \<and> m c' < m c"
    and "\<And>c r. I c \<Longrightarrow> body c = Inr r \<Longrightarrow> Q r"
  shows "\<exists>r. loop_until body c = Some r \<and> Q r"
  using assms(1)
proof (induction "m c" arbitrary: c rule: less_induct)
  case less
  show ?case
  proof (cases "body c")
    case (Inl c')
    then have "\<exists>r. loop_until body c' = Some r \<and> Q r"
      using less assms(2) by blast
    then show ?thesis using Inl by (subst loop_until.simps) simp
  next
    case (Inr r)
    then show ?thesis using assms(3) less.prems by (subst loop_until.simps) simp
  qed
qed

text \<open>The loop states that are seen at the head of such a loop.\<close>

inductive loop_reaches :: "('c \<Rightarrow> 'c + 'r) \<Rightarrow> 'c \<Rightarrow> 'c \<Rightarrow> bool" for body c0 where
  start: "loop_reaches body c0 c0"
| step: "loop_reaches body c0 c \<Longrightarrow> body c = Inl c' \<Longrightarrow> loop_reaches body c0 c'"

lemma loop_reaches_inv:
  assumes "loop_reaches body c0 c" "I c0" "\<And>c c'. I c \<Longrightarrow> body c = Inl c' \<Longrightarrow> I c'"
  shows "I c"
  using assms(1) by induction (use assms(2,3) in auto)

lemma loop_until_exit:
  fixes body :: "'c \<Rightarrow> 'c + 'r"
  assumes "loop_until body c = Some r"
  shows "\<exists>c'. loop_reaches body c c' \<and> body c' = Inr r"
proof -
  have "loop_reaches body c c'' \<longrightarrow> (\<exists>c'. loop_reaches body c c' \<and> body c' = Inr r)"
    if "loop_until body c'' = Some r" for c''
  proof (rule loop_until.raw_induct [OF _ that, of "\<lambda>b c'' r. b = body \<longrightarrow> loop_reaches body c c'' \<longrightarrow>
      (\<exists>c'. loop_reaches body c c' \<and> body c' = Inr r)", simplified])
    fix lu b x y
    assume IH: "\<And>b x y. lu b x = Some y \<Longrightarrow> b = body \<longrightarrow> loop_reaches body c x \<longrightarrow>
        (\<exists>c'. loop_reaches body c c' \<and> body c' = Inr y)"
      and run: "(case b x of Inl c' \<Rightarrow> lu b c' | Inr r \<Rightarrow> Some r) = Some y"
    show "b = body \<longrightarrow> loop_reaches body c x \<longrightarrow> (\<exists>c'. loop_reaches body c c' \<and> body c' = Inr y)"
    proof (cases "b x")
      case (Inl a)
      then have lu: "lu b a = Some y" using run by simp
      show ?thesis
      proof (intro impI)
        assume b: "b = body" and x: "loop_reaches body c x"
        have "loop_reaches body c a" by (rule loop_reaches.step [OF x]) (use b Inl in simp)
        then show "\<exists>c'. loop_reaches body c c' \<and> body c' = Inr y" using IH [OF lu] b by blast
      qed
    next
      case (Inr r)
      then have "b x = Inr y" using run by simp
      then show ?thesis by blast
    qed
  qed
  from this [OF assms] loop_reaches.start show ?thesis by (rule mp)
qed

subsection \<open>Selecting a smallest candidate\<close>

text \<open>
  \<open>best = none; for (i = 0; i < n; ++i) if (cand(i) && (best == none || better(i, best))) best = i;\<close>
\<close>

definition scan_best :: "(nat \<Rightarrow> bool) \<Rightarrow> (nat \<Rightarrow> nat \<Rightarrow> bool) \<Rightarrow> nat \<Rightarrow> nat \<Rightarrow> nat" where
  "scan_best cand better n none =
     fold (\<lambda>i best. if cand i \<and> (best = none \<or> better i best) then i else best) [0..<n] none"

lemma scan_best_0 [simp]: "scan_best cand better 0 none = none"
  by (simp add: scan_best_def)

lemma scan_best_Suc:
  "scan_best cand better (Suc k) none =
     (if cand k \<and> (scan_best cand better k none = none \<or> better k (scan_best cand better k none))
      then k else scan_best cand better k none)"
  unfolding scan_best_def by (simp split del: if_split)

lemma scan_best_none_iff:
  "n \<le> none \<Longrightarrow> scan_best cand better n none = none \<longleftrightarrow> (\<forall>i<n. \<not> cand i)"
  by (induction n) (auto simp: scan_best_Suc less_Suc_eq)

lemma scan_best_cand:
  "scan_best cand better n none \<noteq> none \<Longrightarrow>
     scan_best cand better n none < n \<and> cand (scan_best cand better n none)"
  by (induction n) (auto simp: scan_best_Suc split: if_splits)

lemma scan_best_least:
  fixes key :: "nat \<Rightarrow> 'k::linorder"
  assumes "n \<le> none" and "\<And>i j. i < n \<Longrightarrow> j < n \<Longrightarrow> better i j \<longleftrightarrow> key i < key j"
    and "j < n" "cand j"
  shows "key (scan_best cand better n none) \<le> key j"
    and "j < scan_best cand better n none \<Longrightarrow> key (scan_best cand better n none) < key j"
proof -
  let ?b = "\<lambda>k. scan_best cand better k none"
  have "\<forall>j<k. cand j \<longrightarrow> key (?b k) \<le> key j \<and> (j < ?b k \<longrightarrow> key (?b k) < key j)" if "k \<le> n" for k
    using that
  proof (induction k)
    case 0
    then show ?case by simp
  next
    case (Suc k)
    show ?case
    proof (cases "?b k = none")
      case True
      then have "\<forall>i<k. \<not> cand i" using scan_best_none_iff [of k none] Suc.prems assms(1) by simp
      then show ?thesis using True by (auto simp: scan_best_Suc less_Suc_eq)
    next
      case False
      then have "?b k < k" using scan_best_cand by blast
      then have step: "?b (Suc k) = (if cand k \<and> key k < key (?b k) then k else ?b k)"
        using False Suc.prems assms(2) [of k "?b k"] by (simp add: scan_best_Suc)
      have IH: "\<forall>j<k. cand j \<longrightarrow> key (?b k) \<le> key j \<and> (j < ?b k \<longrightarrow> key (?b k) < key j)"
        using Suc by simp
      show ?thesis
      proof (intro allI impI)
        fix j assume j: "j < Suc k" "cand j"
        show "key (?b (Suc k)) \<le> key j \<and> (j < ?b (Suc k) \<longrightarrow> key (?b (Suc k)) < key j)"
        proof (cases "j = k")
          case True
          then show ?thesis unfolding step using j \<open>?b k < k\<close> by (auto simp: not_less)
        next
          case False
          then have "j < k" using j by simp
          then show ?thesis unfolding step using IH j by (auto intro: order.strict_trans2 less_imp_le)
        qed
      qed
    qed
  qed
  then show "key (?b n) \<le> key j" "j < ?b n \<Longrightarrow> key (?b n) < key j" using assms(3,4) by blast+
qed

subsection \<open>Bounded queues\<close>

text \<open>
  The interface that the kernel's fixed-size queues (the waiter arrays of the semaphores
  and mutexes, the ring buffer of the console) provide to their clients.  \<open>ok\<close> singles out the
  elements a client may store: a waiter queue cannot hold the pid 0, its mark for ``empty''.
\<close>

locale bounded_fifo =
  fixes wf :: "'q \<Rightarrow> bool"
    and items :: "'q \<Rightarrow> 'a list"
    and cap :: nat
    and ok :: "'a \<Rightarrow> bool"
    and push :: "'a \<Rightarrow> 'q \<Rightarrow> 'q option"
    and pop :: "'q \<Rightarrow> ('a \<times> 'q) option"
  assumes items_cap: "wf q \<Longrightarrow> length (items q) \<le> cap"
    and push_room: "wf q \<Longrightarrow> ok x \<Longrightarrow> length (items q) < cap \<Longrightarrow>
          \<exists>q'. push x q = Some q' \<and> wf q' \<and> items q' = items q @ [x]"
    and push_full: "wf q \<Longrightarrow> length (items q) = cap \<Longrightarrow> push x q = None"
    and pop_empty: "wf q \<Longrightarrow> items q = [] \<Longrightarrow> pop q = None"
    and pop_head: "wf q \<Longrightarrow> items q = x # xs \<Longrightarrow>
          \<exists>q'. pop q = Some (x, q') \<and> wf q' \<and> items q' = xs"
begin

fun push_all :: "'a list \<Rightarrow> 'q \<Rightarrow> 'q option" where
  "push_all [] q = Some q"
| "push_all (x # xs) q = (case push x q of None \<Rightarrow> None | Some q' \<Rightarrow> push_all xs q')"

fun pop_n :: "nat \<Rightarrow> 'q \<Rightarrow> ('a list \<times> 'q) option" where
  "pop_n 0 q = Some ([], q)"
| "pop_n (Suc n) q = (case pop q of None \<Rightarrow> None | Some (x, q') \<Rightarrow>
     (case pop_n n q' of None \<Rightarrow> None | Some (xs, q'') \<Rightarrow> Some (x # xs, q'')))"

lemma push_all_items:
  assumes "wf q" "list_all ok xs" "length (items q) + length xs \<le> cap"
  shows "\<exists>q'. push_all xs q = Some q' \<and> wf q' \<and> items q' = items q @ xs"
  using assms
proof (induction xs arbitrary: q)
  case Nil
  then show ?case by simp
next
  case (Cons x xs)
  obtain q1 where q1: "push x q = Some q1" "wf q1" "items q1 = items q @ [x]"
    using push_room [of q x] Cons.prems by auto
  obtain q2 where "push_all xs q1 = Some q2" "wf q2" "items q2 = items q1 @ xs"
    using Cons.IH [of q1] q1 Cons.prems by auto
  with q1 show ?case by simp
qed

lemma pop_n_items:
  assumes "wf q" "items q = xs @ ys"
  shows "\<exists>q'. pop_n (length xs) q = Some (xs, q') \<and> wf q' \<and> items q' = ys"
  using assms
proof (induction xs arbitrary: q)
  case Nil
  then show ?case by simp
next
  case (Cons x xs)
  obtain q1 where q1: "pop q = Some (x, q1)" "wf q1" "items q1 = xs @ ys"
    using pop_head [of q x "xs @ ys"] Cons.prems by auto
  obtain q2 where "pop_n (length xs) q1 = Some (xs, q2)" "wf q2" "items q2 = ys"
    using Cons.IH [of q1] q1 by auto
  with q1 show ?case by simp
qed

lemma fifo_order:
  assumes "wf q" "items q = []" "list_all ok xs" "length xs \<le> cap"
  shows "\<exists>q1 q2. push_all xs q = Some q1 \<and> pop_n (length xs) q1 = Some (xs, q2) \<and> items q2 = []"
proof -
  obtain q1 where q1: "push_all xs q = Some q1" "wf q1" "items q1 = xs"
    using push_all_items [of q xs] assms by auto
  then show ?thesis
    using pop_n_items [of q1 xs "[]"] by auto
qed

lemma pop_none_iff: "wf q \<Longrightarrow> pop q = None \<longleftrightarrow> items q = []"
  using pop_empty pop_head by (cases "items q") force+

lemma push_none_iff: "wf q \<Longrightarrow> ok x \<Longrightarrow> push x q = None \<longleftrightarrow> length (items q) = cap"
  using push_full push_room items_cap
  by (metis le_neq_implies_less option.distinct(1))

end

end
