(* ===== verification/Decode.thy ===== *)
theory Decode
  imports Prelude
begin

text \<open>
  The instruction decoder (\<open>src/myCPU/src/decode.c\<close>): 32-bit RV64 encodings and the compressed
  16-bit ones.  An \<open>Insn\<close> is the record \<open>insn\<close>, its signed immediate a 64-bit word read as two's
  complement.  The setters of the source overwrite every field of the target (each begins with
  \<open>clear_insn\<close>), so they are functions that return the record.  An encoding the decoder does not
  know leaves the cleared record, whose opcode is 0.
\<close>

record insn =
  insn_raw :: u32
  insn_size :: u8
  opcode :: u8
  rd :: u8
  funct3 :: u8
  rs1 :: u8
  rs2 :: u8
  rs3 :: u8
  funct7 :: u8
  funct5 :: u8
  aq :: u8
  rl :: u8
  imm :: u64

definition sign_extend :: "u64 \<Rightarrow> nat \<Rightarrow> u64" where
  "sign_extend v bits = signed_drop_bit (64 - bits) (push_bit (64 - bits) v)"

definition compressed_reg :: "u16 \<Rightarrow> nat \<Rightarrow> u8" where
  "compressed_reg raw shift = ucast (8 + (drop_bit shift raw AND 0x7))"

definition clear_insn :: "u32 \<Rightarrow> u8 \<Rightarrow> insn" where
  "clear_insn raw sz = \<lparr>insn_raw = raw, insn_size = sz, opcode = 0, rd = 0, funct3 = 0, rs1 = 0,
     rs2 = 0, rs3 = 0, funct7 = 0, funct5 = 0, aq = 0, rl = 0, imm = 0\<rparr>"

definition set_i_insn :: "u32 \<Rightarrow> u8 \<Rightarrow> u8 \<Rightarrow> u8 \<Rightarrow> u64 \<Rightarrow> u8 \<Rightarrow> insn" where
  "set_i_insn raw rd' f3 r1 im opc = (clear_insn raw 2)
     \<lparr>opcode := opc, rd := rd', funct3 := f3, rs1 := r1, imm := im\<rparr>"

definition set_shift_i_insn :: "u32 \<Rightarrow> u8 \<Rightarrow> u8 \<Rightarrow> u8 \<Rightarrow> u8 \<Rightarrow> u8 \<Rightarrow> insn" where
  "set_shift_i_insn raw rd' f3 r1 shamt f7 =
     (set_i_insn raw rd' f3 r1 0 0x13)\<lparr>rs2 := shamt AND 0x1F, funct7 := f7\<rparr>"

definition set_r_insn :: "u32 \<Rightarrow> u8 \<Rightarrow> u8 \<Rightarrow> u8 \<Rightarrow> u8 \<Rightarrow> u8 \<Rightarrow> u8 \<Rightarrow> insn" where
  "set_r_insn raw rd' f3 r1 r2 f7 opc = (clear_insn raw 2)
     \<lparr>opcode := opc, rd := rd', funct3 := f3, rs1 := r1, rs2 := r2, funct7 := f7\<rparr>"

definition set_s_insn :: "u32 \<Rightarrow> u8 \<Rightarrow> u8 \<Rightarrow> u8 \<Rightarrow> u64 \<Rightarrow> u8 \<Rightarrow> insn" where
  "set_s_insn raw f3 r1 r2 im opc = (clear_insn raw 2)
     \<lparr>opcode := opc, funct3 := f3, rs1 := r1, rs2 := r2, imm := im\<rparr>"

definition set_b_insn :: "u32 \<Rightarrow> u8 \<Rightarrow> u8 \<Rightarrow> u8 \<Rightarrow> u64 \<Rightarrow> insn" where
  "set_b_insn raw f3 r1 r2 im = (clear_insn raw 2)
     \<lparr>opcode := 0x63, funct3 := f3, rs1 := r1, rs2 := r2, imm := im\<rparr>"

definition set_u_insn :: "u32 \<Rightarrow> u8 \<Rightarrow> u64 \<Rightarrow> u8 \<Rightarrow> insn" where
  "set_u_insn raw rd' im opc = (clear_insn raw 2)\<lparr>opcode := opc, rd := rd', imm := im\<rparr>"

definition set_j_insn :: "u32 \<Rightarrow> u8 \<Rightarrow> u64 \<Rightarrow> insn" where
  "set_j_insn raw rd' im = (clear_insn raw 2)\<lparr>opcode := 0x6F, rd := rd', imm := im\<rparr>"

definition set_system_insn :: "u32 \<Rightarrow> u64 \<Rightarrow> insn" where
  "set_system_insn raw im = (clear_insn raw 2)\<lparr>opcode := 0x73, imm := im\<rparr>"

definition ci_immediate :: "u16 \<Rightarrow> u64" where
  "ci_immediate raw = sign_extend
     (ucast (drop_bit 2 raw AND 0x1F) OR push_bit 5 (drop_bit 12 (ucast raw) AND 0x1)) 6"

definition ci_shamt :: "u16 \<Rightarrow> u8" where
  "ci_shamt raw = ucast ((drop_bit 2 raw AND 0x1F) OR push_bit 5 (drop_bit 12 raw AND 0x1))"

definition imm_standard :: "u8 \<Rightarrow> u32 \<Rightarrow> u64" where
  "imm_standard opc raw =
     (if opc \<in> {0x03, 0x07, 0x13, 0x1B, 0x67, 0x73} then
        signed_drop_bit 20 (scast (raw AND 0xFFF00000))
      else if opc \<in> {0x23, 0x27} then
        signed_drop_bit 20 (scast ((raw AND 0xFE000000) OR push_bit 13 (raw AND 0xF80)))
      else if opc = 0x63 then
        signed_drop_bit 19 (scast
          ((((raw AND 0x80000000) OR push_bit 23 (raw AND 0x80)) OR
             drop_bit 1 (raw AND 0x7E000000)) OR push_bit 12 (raw AND 0xF00)))
      else if opc \<in> {0x37, 0x17} then scast (raw AND 0xFFFFF000)
      else if opc = 0x6F then
        (((signed_drop_bit 11 (scast (raw AND 0x80000000)) OR ucast (raw AND 0x000FF000)) OR
            signed_drop_bit 9 (ucast (raw AND 0x00100000))) OR
            signed_drop_bit 20 (ucast (raw AND 0x7FE00000)))
      else 0)"

definition decode_standard :: "u32 \<Rightarrow> insn" where
  "decode_standard raw =
     (let opc = ucast (raw AND 0x7F) in
      (clear_insn raw 4)
       \<lparr>opcode := opc,
        rd := ucast (drop_bit 7 raw AND 0x1F),
        funct3 := ucast (drop_bit 12 raw AND 0x07),
        rs1 := ucast (drop_bit 15 raw AND 0x1F),
        rs2 := ucast (drop_bit 20 raw AND 0x1F),
        rs3 := ucast (drop_bit 27 raw AND 0x1F),
        funct7 := ucast (drop_bit 25 raw AND 0x7F),
        funct5 := ucast (drop_bit 27 raw AND 0x1F),
        aq := ucast (drop_bit 26 raw AND 0x01),
        rl := ucast (drop_bit 25 raw AND 0x01),
        imm := imm_standard opc raw\<rparr>)"

text \<open>A field of a compressed encoding: \<open>((uint64_t)(raw >> s) & m) << k\<close>.\<close>

definition cfield :: "u16 \<Rightarrow> nat \<Rightarrow> u64 \<Rightarrow> nat \<Rightarrow> u64" where
  "cfield raw s m k = push_bit k (ucast (drop_bit s raw) AND m)"

definition decode_quadrant0 :: "u16 \<Rightarrow> u8 \<Rightarrow> insn" where
  "decode_quadrant0 raw f3 =
     (let c = clear_insn (ucast raw) 2; r = ucast raw :: u32 in
      if f3 = 0 then
        (let im = ((cfield raw 7 0xF 6 OR cfield raw 11 0x3 4) OR cfield raw 5 0x1 3) OR cfield raw 6 0x1 2
         in if im \<noteq> 0 then set_i_insn r (compressed_reg raw 2) 0 2 im 0x13 else c)
      else if f3 = 1 then
        set_i_insn r (compressed_reg raw 2) 3 (compressed_reg raw 7)
          (cfield raw 10 0x7 3 OR cfield raw 5 0x3 6) 0x07
      else if f3 = 2 then
        set_i_insn r (compressed_reg raw 2) 2 (compressed_reg raw 7)
          ((cfield raw 10 0x7 3 OR cfield raw 6 0x1 2) OR cfield raw 5 0x1 6) 0x03
      else if f3 = 3 then
        set_i_insn r (compressed_reg raw 2) 3 (compressed_reg raw 7)
          (cfield raw 10 0x7 3 OR cfield raw 5 0x3 6) 0x03
      else if f3 = 5 then
        set_s_insn r 3 (compressed_reg raw 7) (compressed_reg raw 2)
          (cfield raw 10 0x7 3 OR cfield raw 5 0x3 6) 0x27
      else if f3 = 6 then
        set_s_insn r 2 (compressed_reg raw 7) (compressed_reg raw 2)
          ((cfield raw 10 0x7 3 OR cfield raw 6 0x1 2) OR cfield raw 5 0x1 6) 0x23
      else if f3 = 7 then
        set_s_insn r 3 (compressed_reg raw 7) (compressed_reg raw 2)
          (cfield raw 10 0x7 3 OR cfield raw 5 0x3 6) 0x23
      else c)"

definition decode_quadrant1_alu :: "u16 \<Rightarrow> insn" where
  "decode_quadrant1_alu raw =
     (let c = clear_insn (ucast raw) 2; r = ucast raw :: u32; rdc = compressed_reg raw 7;
          rs2c = compressed_reg raw 2; subop = drop_bit 10 raw AND 0x3; b12 = drop_bit 12 raw AND 0x1;
          alu = drop_bit 5 raw AND 0x3
      in if subop \<noteq> 3 then
           (if subop = 0 then set_shift_i_insn r rdc 5 rdc (ci_shamt raw) (drop_bit 5 (ci_shamt raw))
            else if subop = 1 then
              set_shift_i_insn r rdc 5 rdc (ci_shamt raw) (0x20 OR drop_bit 5 (ci_shamt raw))
            else set_i_insn r rdc 7 rdc (ci_immediate raw) 0x13)
         else if alu = 0 then
           (if b12 = 0 then set_r_insn r rdc 0 rdc rs2c 0x20 0x33 else set_r_insn r rdc 0 rdc rs2c 0x20 0x3B)
         else if alu = 1 then
           (if b12 = 0 then set_r_insn r rdc 4 rdc rs2c 0x00 0x33 else set_r_insn r rdc 0 rdc rs2c 0x00 0x3B)
         else if alu = 2 then
           (if b12 = 0 then set_r_insn r rdc 6 rdc rs2c 0x00 0x33 else c)
         else
           (if b12 = 0 then set_r_insn r rdc 7 rdc rs2c 0x00 0x33 else c))"

definition cb_offset :: "u16 \<Rightarrow> u64" where
  "cb_offset raw = (((cfield raw 3 0x3 1 OR cfield raw 10 0x3 3) OR cfield raw 2 0x1 5) OR
                      cfield raw 5 0x3 6) OR cfield raw 12 0x1 8"

definition decode_quadrant1 :: "u16 \<Rightarrow> u8 \<Rightarrow> u8 \<Rightarrow> insn" where
  "decode_quadrant1 raw f3 rd_rs1 =
     (let c = clear_insn (ucast raw) 2; r = ucast raw :: u32 in
      if f3 = 0 then set_i_insn r rd_rs1 0 rd_rs1 (ci_immediate raw) 0x13
      else if f3 = 1 then
        (if rd_rs1 \<noteq> 0 then set_i_insn r rd_rs1 0 rd_rs1 (ci_immediate raw) 0x1B else c)
      else if f3 = 2 then set_i_insn r rd_rs1 0 0 (ci_immediate raw) 0x13
      else if f3 = 3 then
        (if rd_rs1 = 2 then
           (let im = (((cfield raw 6 0x1 4 OR cfield raw 2 0x1 5) OR cfield raw 5 0x1 6) OR
                        cfield raw 3 0x3 7) OR cfield raw 12 0x1 9
            in if im \<noteq> 0 then set_i_insn r 2 0 2 (sign_extend im 10) 0x13 else c)
         else if rd_rs1 \<noteq> 0 then
           (let im = push_bit 12 (sign_extend (cfield raw 2 0x1F 0 OR
                        push_bit 5 (drop_bit 12 (ucast raw) AND 0x1)) 6)
            in if im \<noteq> 0 then set_u_insn r rd_rs1 im 0x37 else c)
         else c)
      else if f3 = 4 then decode_quadrant1_alu raw
      else if f3 = 5 then
        (let im = ((((((cfield raw 3 0x7 1 OR cfield raw 11 0x1 4) OR cfield raw 2 0x1 5) OR
                       cfield raw 7 0x1 6) OR cfield raw 6 0x1 7) OR cfield raw 9 0x3 8) OR
                       cfield raw 8 0x1 10) OR cfield raw 12 0x1 11
         in set_j_insn r 0 (sign_extend im 12))
      else if f3 = 6 then set_b_insn r 0 (compressed_reg raw 7) 0 (sign_extend (cb_offset raw) 9)
      else if f3 = 7 then set_b_insn r 1 (compressed_reg raw 7) 0 (sign_extend (cb_offset raw) 9)
      else c)"

definition decode_quadrant2 :: "u16 \<Rightarrow> u8 \<Rightarrow> u8 \<Rightarrow> u8 \<Rightarrow> insn" where
  "decode_quadrant2 raw f3 rd_rs1 r2 =
     (let c = clear_insn (ucast raw) 2; r = ucast raw :: u32 in
      if f3 = 0 then set_shift_i_insn r rd_rs1 1 rd_rs1 (ci_shamt raw) (drop_bit 5 (ci_shamt raw))
      else if f3 = 1 then
        (if rd_rs1 = 0 then c
         else set_i_insn r rd_rs1 3 2 ((cfield raw 5 0x3 3 OR cfield raw 12 0x1 5) OR cfield raw 2 0x7 6) 0x07)
      else if f3 = 2 then
        (if rd_rs1 = 0 then c
         else set_i_insn r rd_rs1 2 2 ((cfield raw 4 0x7 2 OR cfield raw 12 0x1 5) OR cfield raw 2 0x3 6) 0x03)
      else if f3 = 3 then
        (if rd_rs1 = 0 then c
         else set_i_insn r rd_rs1 3 2 ((cfield raw 5 0x3 3 OR cfield raw 12 0x1 5) OR cfield raw 2 0x7 6) 0x03)
      else if f3 = 4 then
        (if drop_bit 12 raw AND 0x1 = 0 then
           (if r2 = 0 then
              (if rd_rs1 \<noteq> 0 then set_i_insn r 0 0 rd_rs1 0 0x67 else c)
            else set_r_insn r rd_rs1 0 0 r2 0x00 0x33)
         else if r2 = 0 then
           (if rd_rs1 = 0 then set_system_insn r 1 else set_i_insn r 1 0 rd_rs1 0 0x67)
         else set_r_insn r rd_rs1 0 rd_rs1 r2 0x00 0x33)
      else if f3 = 5 then
        set_s_insn r 3 2 r2 (cfield raw 10 0x7 3 OR cfield raw 7 0x7 6) 0x27
      else if f3 = 6 then
        set_s_insn r 2 2 r2 (cfield raw 9 0xF 2 OR cfield raw 7 0x3 6) 0x23
      else if f3 = 7 then
        set_s_insn r 3 2 r2 (cfield raw 10 0x7 3 OR cfield raw 7 0x7 6) 0x23
      else c)"

definition decode_compressed :: "u16 \<Rightarrow> insn" where
  "decode_compressed raw =
     (let quadrant = ucast (raw AND 0x3) :: u8;
          f3 = ucast (drop_bit 13 raw AND 0x7) :: u8;
          rd_rs1 = ucast (drop_bit 7 raw AND 0x1F) :: u8;
          r2 = ucast (drop_bit 2 raw AND 0x1F) :: u8
      in if quadrant = 0 then decode_quadrant0 raw f3
         else if quadrant = 1 then decode_quadrant1 raw f3 rd_rs1
         else if quadrant = 2 then decode_quadrant2 raw f3 rd_rs1 r2
         else clear_insn (ucast raw) 2)"

definition decode :: "u32 \<Rightarrow> insn" where
  "decode raw = (if raw AND 0x3 \<noteq> 0x3 then decode_compressed (ucast raw) else decode_standard raw)"

end
