(* ===== verification/CsrFile.thy ===== *)
theory CsrFile
  imports Prelude
begin

text \<open>
  The architectural state of a hart (\<open>src/arch/core_state.cpp\<close>) and its control and status registers
  (\<open>src/arch/csr_file.cpp\<close>).  The bound CLINT is represented by its current \<open>mtime\<close>; the bound address
  space by its TLB, which a write to \<open>satp\<close> flushes.  The vector registers are not modelled.
\<close>

subsection \<open>Core state\<close>

datatype privilege_mode = User | Supervisor | Machine

record core_state =
  cs_gpr :: "u64 carray"
  cs_fpr :: "u64 carray"
  cs_pc :: u64
  cs_cycle :: u64
  cs_instret :: u64
  cs_halted :: bool
  cs_privilege_mode :: privilege_mode

definition core_reset :: "u64 \<Rightarrow> core_state" where
  "core_reset entry = \<lparr>cs_gpr = (\<lambda>_. 0), cs_fpr = (\<lambda>_. 0), cs_pc = entry, cs_cycle = 0, cs_instret = 0,
     cs_halted = False, cs_privilege_mode = Machine\<rparr>"

definition read_gpr :: "core_state \<Rightarrow> u32 \<Rightarrow> u64" where
  "read_gpr c idx = cs_gpr c (unat (idx AND 0x1F))"

definition write_gpr :: "core_state \<Rightarrow> u32 \<Rightarrow> u64 \<Rightarrow> core_state" where
  "write_gpr c idx v =
     (if idx AND 0x1F \<noteq> 0 then c\<lparr>cs_gpr := (cs_gpr c)(unat (idx AND 0x1F) := v)\<rparr> else c)"

subsection \<open>Register numbers and fields\<close>

definition CSR_FFLAGS :: u32 where "CSR_FFLAGS = 0x001"
definition CSR_FRM :: u32 where "CSR_FRM = 0x002"
definition CSR_FCSR :: u32 where "CSR_FCSR = 0x003"
definition CSR_SSTATUS :: u32 where "CSR_SSTATUS = 0x100"
definition CSR_SIE :: u32 where "CSR_SIE = 0x104"
definition CSR_STVEC :: u32 where "CSR_STVEC = 0x105"
definition CSR_SEPC :: u32 where "CSR_SEPC = 0x141"
definition CSR_SCAUSE :: u32 where "CSR_SCAUSE = 0x142"
definition CSR_STVAL :: u32 where "CSR_STVAL = 0x143"
definition CSR_SIP :: u32 where "CSR_SIP = 0x144"
definition CSR_STIMECMP :: u32 where "CSR_STIMECMP = 0x14D"
definition CSR_SATP :: u32 where "CSR_SATP = 0x180"
definition CSR_MSTATUS :: u32 where "CSR_MSTATUS = 0x300"
definition CSR_MISA :: u32 where "CSR_MISA = 0x301"
definition CSR_MEDELEG :: u32 where "CSR_MEDELEG = 0x302"
definition CSR_MIDELEG :: u32 where "CSR_MIDELEG = 0x303"
definition CSR_MIE :: u32 where "CSR_MIE = 0x304"
definition CSR_MTVEC :: u32 where "CSR_MTVEC = 0x305"
definition CSR_MENVCFG :: u32 where "CSR_MENVCFG = 0x30A"
definition CSR_MCOUNTINHIBIT :: u32 where "CSR_MCOUNTINHIBIT = 0x320"
definition CSR_MHPMEVENT3 :: u32 where "CSR_MHPMEVENT3 = 0x323"
definition CSR_MHPMEVENT31 :: u32 where "CSR_MHPMEVENT31 = 0x33F"
definition CSR_MEPC :: u32 where "CSR_MEPC = 0x341"
definition CSR_MCAUSE :: u32 where "CSR_MCAUSE = 0x342"
definition CSR_MTVAL :: u32 where "CSR_MTVAL = 0x343"
definition CSR_MIP :: u32 where "CSR_MIP = 0x344"
definition CSR_MCYCLE :: u32 where "CSR_MCYCLE = 0xB00"
definition CSR_MINSTRET :: u32 where "CSR_MINSTRET = 0xB02"
definition CSR_MHPMCOUNTER3 :: u32 where "CSR_MHPMCOUNTER3 = 0xB03"
definition CSR_MHPMCOUNTER31 :: u32 where "CSR_MHPMCOUNTER31 = 0xB1F"
definition CSR_CYCLE :: u32 where "CSR_CYCLE = 0xC00"
definition CSR_TIME :: u32 where "CSR_TIME = 0xC01"
definition CSR_INSTRET :: u32 where "CSR_INSTRET = 0xC02"
definition CSR_HPMCOUNTER3 :: u32 where "CSR_HPMCOUNTER3 = 0xC03"
definition CSR_HPMCOUNTER31 :: u32 where "CSR_HPMCOUNTER31 = 0xC1F"
definition CSR_MHARTID :: u32 where "CSR_MHARTID = 0xF14"

lemmas csr_addrs = CSR_FFLAGS_def CSR_FRM_def CSR_FCSR_def CSR_SSTATUS_def CSR_SIE_def CSR_STVEC_def
  CSR_SEPC_def CSR_SCAUSE_def CSR_STVAL_def CSR_SIP_def CSR_STIMECMP_def CSR_SATP_def CSR_MSTATUS_def
  CSR_MISA_def CSR_MEDELEG_def CSR_MIDELEG_def CSR_MIE_def CSR_MTVEC_def CSR_MENVCFG_def
  CSR_MCOUNTINHIBIT_def CSR_MHPMEVENT3_def CSR_MHPMEVENT31_def CSR_MEPC_def CSR_MCAUSE_def CSR_MTVAL_def
  CSR_MIP_def CSR_MCYCLE_def CSR_MINSTRET_def CSR_MHPMCOUNTER3_def CSR_MHPMCOUNTER31_def CSR_CYCLE_def
  CSR_TIME_def CSR_INSTRET_def CSR_HPMCOUNTER3_def CSR_HPMCOUNTER31_def CSR_MHARTID_def

definition MSTATUS_SIE :: u64 where "MSTATUS_SIE = push_bit 1 1"
definition MSTATUS_MIE :: u64 where "MSTATUS_MIE = push_bit 3 1"
definition MSTATUS_SPIE :: u64 where "MSTATUS_SPIE = push_bit 5 1"
definition MSTATUS_MPIE :: u64 where "MSTATUS_MPIE = push_bit 7 1"
definition MSTATUS_SPP :: u64 where "MSTATUS_SPP = push_bit 8 1"
definition MSTATUS_VS_MASK :: u64 where "MSTATUS_VS_MASK = push_bit 9 3"
definition MSTATUS_VS_DIRTY :: u64 where "MSTATUS_VS_DIRTY = push_bit 9 3"
definition MSTATUS_MPP_MASK :: u64 where "MSTATUS_MPP_MASK = push_bit 11 3"
definition MSTATUS_FS_MASK :: u64 where "MSTATUS_FS_MASK = push_bit 13 3"
definition MSTATUS_FS_DIRTY :: u64 where "MSTATUS_FS_DIRTY = push_bit 13 3"
definition MSTATUS_MPRV :: u64 where "MSTATUS_MPRV = push_bit 17 1"
definition MSTATUS_SUM :: u64 where "MSTATUS_SUM = push_bit 18 1"
definition MSTATUS_MXR :: u64 where "MSTATUS_MXR = push_bit 19 1"
definition MSTATUS_SD :: u64 where "MSTATUS_SD = push_bit 63 1"

definition MIE_SSIE :: u64 where "MIE_SSIE = push_bit 1 1"
definition MIE_MSIE :: u64 where "MIE_MSIE = push_bit 3 1"
definition MIE_STIE :: u64 where "MIE_STIE = push_bit 5 1"
definition MIE_MTIE :: u64 where "MIE_MTIE = push_bit 7 1"
definition MIE_SEIE :: u64 where "MIE_SEIE = push_bit 9 1"
definition MIE_MEIE :: u64 where "MIE_MEIE = push_bit 11 1"

definition SSTATUS_MASK :: u64 where
  "SSTATUS_MASK = MSTATUS_SIE OR MSTATUS_SPIE OR MSTATUS_SPP OR MSTATUS_SUM OR MSTATUS_MXR"
definition SSTATUS_STATUS_MASK :: u64 where
  "SSTATUS_STATUS_MASK = SSTATUS_MASK OR MSTATUS_FS_MASK OR MSTATUS_VS_MASK"
definition SIE_MASK :: u64 where "SIE_MASK = MIE_SSIE OR MIE_STIE OR MIE_SEIE"
definition MIP_MIE_MASK :: u64 where
  "MIP_MIE_MASK = MIE_SSIE OR MIE_MSIE OR MIE_STIE OR MIE_MTIE OR MIE_SEIE OR MIE_MEIE"
definition MENVCFG_STCE :: u64 where "MENVCFG_STCE = push_bit 63 1"
definition FCSR_FFLAGS_MASK :: u64 where "FCSR_FFLAGS_MASK = 0x1F"
definition FCSR_FRM_MASK :: u64 where "FCSR_FRM_MASK = push_bit 5 7"
definition FCSR_MASK :: u64 where "FCSR_MASK = FCSR_FFLAGS_MASK OR FCSR_FRM_MASK"
definition SATP_MODE_MASK :: u64 where "SATP_MODE_MASK = push_bit 60 0xF"
definition SATP_PPN_MASK :: u64 where "SATP_PPN_MASK = push_bit 44 1 - 1"
definition SATP_MODE_SV39 :: u64 where "SATP_MODE_SV39 = 8"
definition MISA_IMPLEMENTED_VALUE :: u64 where
  "MISA_IMPLEMENTED_VALUE = push_bit 62 2 OR push_bit 20 1 OR push_bit 18 1 OR push_bit 12 1 OR
     push_bit 8 1 OR push_bit 2 1 OR push_bit 0 1"
definition MEDELEG_MASK :: u64 where
  "MEDELEG_MASK = push_bit 1 1 OR push_bit 2 1 OR push_bit 3 1 OR push_bit 5 1 OR push_bit 7 1 OR
     push_bit 8 1 OR push_bit 9 1 OR push_bit 12 1 OR push_bit 13 1 OR push_bit 15 1"
definition MIDELEG_MASK :: u64 where "MIDELEG_MASK = SIE_MASK"

definition with_sd_summary :: "u64 \<Rightarrow> u64" where
  "with_sd_summary mstatus =
     (if mstatus AND MSTATUS_FS_MASK = MSTATUS_FS_DIRTY \<or> mstatus AND MSTATUS_VS_MASK = MSTATUS_VS_DIRTY
      then mstatus OR MSTATUS_SD else mstatus AND NOT MSTATUS_SD)"

definition sanitize_mstatus :: "u64 \<Rightarrow> u64" where
  "sanitize_mstatus v0 =
     (let v = v0 AND NOT MSTATUS_SD;
          mpp = drop_bit 11 (v AND MSTATUS_MPP_MASK);
          v = (if mpp = 2 then v AND NOT MSTATUS_MPP_MASK else v)
      in with_sd_summary v)"

definition is_hpmcounter_shadow :: "u32 \<Rightarrow> bool" where
  "is_hpmcounter_shadow addr \<longleftrightarrow> addr \<ge> CSR_HPMCOUNTER3 \<and> addr \<le> CSR_HPMCOUNTER31"

definition is_mhpmcounter :: "u32 \<Rightarrow> bool" where
  "is_mhpmcounter addr \<longleftrightarrow> addr \<ge> CSR_MHPMCOUNTER3 \<and> addr \<le> CSR_MHPMCOUNTER31"

definition is_mhpmevent :: "u32 \<Rightarrow> bool" where
  "is_mhpmevent addr \<longleftrightarrow> addr \<ge> CSR_MHPMEVENT3 \<and> addr \<le> CSR_MHPMEVENT31"

definition hpm_shadow_to_machine :: "u32 \<Rightarrow> u32" where
  "hpm_shadow_to_machine addr = CSR_MHPMCOUNTER3 + (addr - CSR_HPMCOUNTER3)"

subsection \<open>The register file\<close>

record csr_file =
  csr_regs :: "u32 \<Rightarrow> u64"
  csr_clint :: "u64 option"

definition csr_reset :: "csr_file \<Rightarrow> csr_file" where
  "csr_reset f = f\<lparr>csr_regs := (\<lambda>_. 0)(CSR_MISA := MISA_IMPLEMENTED_VALUE, CSR_STIMECMP := - 1)\<rparr>"

definition current_time :: "u64 option \<Rightarrow> core_state \<Rightarrow> u64" where
  "current_time clint core = (case clint of Some mtime \<Rightarrow> mtime | None \<Rightarrow> cs_cycle core)"

definition stimecmp_pending :: "csr_file \<Rightarrow> core_state \<Rightarrow> bool" where
  "stimecmp_pending f core \<longleftrightarrow>
     csr_regs f CSR_MENVCFG AND MENVCFG_STCE \<noteq> 0 \<and>
     current_time (csr_clint f) core \<ge> csr_regs f CSR_STIMECMP"

definition csr_read :: "csr_file \<Rightarrow> core_state \<Rightarrow> u32 \<Rightarrow> u64" where
  "csr_read f core addr0 =
     (let addr = addr0 AND 0xFFF; regs = csr_regs f in
      if addr = CSR_CYCLE \<or> addr = CSR_MCYCLE then cs_cycle core
      else if addr = CSR_TIME then current_time (csr_clint f) core
      else if addr = CSR_INSTRET \<or> addr = CSR_MINSTRET then cs_instret core
      else if is_hpmcounter_shadow addr then regs (hpm_shadow_to_machine addr)
      else if is_mhpmcounter addr then regs addr
      else if addr = CSR_SSTATUS then
        with_sd_summary (regs CSR_MSTATUS) AND (SSTATUS_STATUS_MASK OR MSTATUS_SD)
      else if addr = CSR_FFLAGS then regs CSR_FCSR AND FCSR_FFLAGS_MASK
      else if addr = CSR_FRM then drop_bit 5 (regs CSR_FCSR AND FCSR_FRM_MASK)
      else if addr = CSR_FCSR then regs CSR_FCSR AND FCSR_MASK
      else if addr = CSR_MHARTID then 0
      else if addr = CSR_MEDELEG then regs CSR_MEDELEG AND MEDELEG_MASK
      else if addr = CSR_MIDELEG then regs CSR_MIDELEG AND MIDELEG_MASK
      else if addr = CSR_MIE then regs CSR_MIE AND MIP_MIE_MASK
      else if addr = CSR_MIP then
        (let v = regs CSR_MIP AND MIP_MIE_MASK in
         if stimecmp_pending f core then v OR MIE_STIE else v)
      else if addr = CSR_SIE then regs CSR_MIE AND regs CSR_MIDELEG AND SIE_MASK
      else if addr = CSR_SIP then
        (let v = regs CSR_MIP AND regs CSR_MIDELEG AND SIE_MASK in
         if stimecmp_pending f core \<and> regs CSR_MIDELEG AND MIE_STIE \<noteq> 0 then v OR MIE_STIE else v)
      else if addr = CSR_MENVCFG then regs CSR_MENVCFG AND MENVCFG_STCE
      else if addr = CSR_MSTATUS then with_sd_summary (regs CSR_MSTATUS)
      else regs addr)"

subsection \<open>The hart\<close>

record tlb_entry =
  te_valid :: bool
  te_satp :: u64
  te_vpage_base :: u64
  te_ppage_base :: u64
  te_pte :: u64
  te_pte_addr :: u64
  te_page_shift :: nat

record tlb =
  tlb_entries :: "tlb_entry carray"
  next_tlb_victim :: nat

record hart =
  h_core :: core_state
  h_csr :: csr_file
  h_as_bound :: bool
  h_tlb :: tlb

definition flush_tlb :: "tlb \<Rightarrow> tlb" where
  "flush_tlb t = t\<lparr>tlb_entries := (\<lambda>i. if i < 32 then (tlb_entries t i)\<lparr>te_valid := False\<rparr> else tlb_entries t i),
     next_tlb_victim := 0\<rparr>"

definition set_reg :: "hart \<Rightarrow> u32 \<Rightarrow> u64 \<Rightarrow> hart" where
  "set_reg h addr v = h\<lparr>h_csr := (h_csr h)\<lparr>csr_regs := (csr_regs (h_csr h))(addr := v)\<rparr>\<rparr>"

text \<open>The two-argument overload of \<open>CsrFile::write\<close>.\<close>

definition csr_write_reg :: "hart \<Rightarrow> u32 \<Rightarrow> u64 \<Rightarrow> hart" where
  "csr_write_reg h addr0 v =
     (let addr = addr0 AND 0xFFF; regs = csr_regs (h_csr h) in
      if addr = CSR_CYCLE \<or> addr = CSR_TIME \<or> addr = CSR_INSTRET \<or> addr = CSR_MCYCLE \<or> addr = CSR_MINSTRET then h
      else if addr = CSR_MISA \<or> addr = CSR_MHARTID then h
      else if addr = CSR_SSTATUS then
        set_reg h CSR_MSTATUS (sanitize_mstatus ((regs CSR_MSTATUS AND NOT SSTATUS_STATUS_MASK) OR
                                                 (v AND SSTATUS_STATUS_MASK)))
      else if addr = CSR_FFLAGS then
        set_reg h CSR_FCSR ((regs CSR_FCSR AND NOT FCSR_FFLAGS_MASK) OR (v AND FCSR_FFLAGS_MASK))
      else if addr = CSR_FRM then
        set_reg h CSR_FCSR ((regs CSR_FCSR AND NOT FCSR_FRM_MASK) OR push_bit 5 (v AND 7))
      else if addr = CSR_FCSR then set_reg h CSR_FCSR (v AND FCSR_MASK)
      else if addr = CSR_MSTATUS then set_reg h CSR_MSTATUS (sanitize_mstatus v)
      else if addr = CSR_SATP then
        (let mode = drop_bit 60 (v AND SATP_MODE_MASK);
             h1 = set_reg h CSR_SATP (if mode = SATP_MODE_SV39
                                      then push_bit 60 SATP_MODE_SV39 OR (v AND SATP_PPN_MASK) else 0)
         in if h_as_bound h1 then h1\<lparr>h_tlb := flush_tlb (h_tlb h1)\<rparr> else h1)
      else if addr = CSR_MEDELEG then set_reg h CSR_MEDELEG (v AND MEDELEG_MASK)
      else if addr = CSR_MIDELEG then set_reg h CSR_MIDELEG (v AND MIDELEG_MASK)
      else if addr = CSR_MIE then set_reg h CSR_MIE (v AND MIP_MIE_MASK)
      else if addr = CSR_MCOUNTINHIBIT then set_reg h CSR_MCOUNTINHIBIT v
      else if addr = CSR_MIP then set_reg h CSR_MIP (v AND MIP_MIE_MASK)
      else if addr = CSR_MENVCFG then set_reg h CSR_MENVCFG (v AND MENVCFG_STCE)
      else if is_hpmcounter_shadow addr then set_reg h (hpm_shadow_to_machine addr) v
      else if is_mhpmcounter addr \<or> is_mhpmevent addr then set_reg h addr v
      else if addr = CSR_SIE then
        (let msk = regs CSR_MIDELEG AND SIE_MASK in
         set_reg h CSR_MIE ((regs CSR_MIE AND NOT msk) OR (v AND msk)))
      else if addr = CSR_SIP then
        (let msk = regs CSR_MIDELEG AND SIE_MASK in
         set_reg h CSR_MIP ((regs CSR_MIP AND NOT msk) OR (v AND msk)))
      else set_reg h addr v)"

definition csr_write :: "hart \<Rightarrow> u32 \<Rightarrow> u64 \<Rightarrow> hart" where
  "csr_write h addr0 v =
     (let addr = addr0 AND 0xFFF in
      if addr = CSR_MCYCLE then h\<lparr>h_core := (h_core h)\<lparr>cs_cycle := v\<rparr>\<rparr>
      else if addr = CSR_MINSTRET then h\<lparr>h_core := (h_core h)\<lparr>cs_instret := v\<rparr>\<rparr>
      else if is_mhpmcounter addr then set_reg h addr v
      else csr_write_reg h addr v)"

abbreviation csr :: "hart \<Rightarrow> u32 \<Rightarrow> u64" where
  "csr h addr \<equiv> csr_read (h_csr h) (h_core h) addr"

text \<open>Reads and writes of the registers that traps use.\<close>

lemma csr_read_simps:
  "csr_read f c CSR_MSTATUS = with_sd_summary (csr_regs f CSR_MSTATUS)"
  "csr_read f c CSR_SATP = csr_regs f CSR_SATP"
  "csr_read f c CSR_MEPC = csr_regs f CSR_MEPC"
  "csr_read f c CSR_SEPC = csr_regs f CSR_SEPC"
  "csr_read f c CSR_MTVEC = csr_regs f CSR_MTVEC"
  "csr_read f c CSR_STVEC = csr_regs f CSR_STVEC"
  "csr_read f c CSR_MCAUSE = csr_regs f CSR_MCAUSE"
  "csr_read f c CSR_SCAUSE = csr_regs f CSR_SCAUSE"
  "csr_read f c CSR_MTVAL = csr_regs f CSR_MTVAL"
  "csr_read f c CSR_STVAL = csr_regs f CSR_STVAL"
  "csr_read f c CSR_MEDELEG = csr_regs f CSR_MEDELEG AND MEDELEG_MASK"
  "csr_read f c CSR_MIDELEG = csr_regs f CSR_MIDELEG AND MIDELEG_MASK"
  "csr_read f c CSR_MIE = csr_regs f CSR_MIE AND MIP_MIE_MASK"
  "csr_read f c CSR_MIP = (if stimecmp_pending f c then (csr_regs f CSR_MIP AND MIP_MIE_MASK) OR MIE_STIE
                           else csr_regs f CSR_MIP AND MIP_MIE_MASK)"
  by (simp_all add: csr_read_def csr_addrs is_hpmcounter_shadow_def is_mhpmcounter_def)

lemma csr_write_simps:
  "csr_write h CSR_MSTATUS v = set_reg h CSR_MSTATUS (sanitize_mstatus v)"
  "csr_write h CSR_MEPC v = set_reg h CSR_MEPC v"
  "csr_write h CSR_SEPC v = set_reg h CSR_SEPC v"
  "csr_write h CSR_MCAUSE v = set_reg h CSR_MCAUSE v"
  "csr_write h CSR_SCAUSE v = set_reg h CSR_SCAUSE v"
  "csr_write h CSR_MTVAL v = set_reg h CSR_MTVAL v"
  "csr_write h CSR_STVAL v = set_reg h CSR_STVAL v"
  "csr_write h CSR_MIP v = set_reg h CSR_MIP (v AND MIP_MIE_MASK)"
  by (simp_all add: csr_write_def csr_write_reg_def csr_addrs is_hpmcounter_shadow_def is_mhpmcounter_def
      is_mhpmevent_def)

end
