(* ===== verification/TrapUnit.thy ===== *)
theory TrapUnit
  imports CsrFile
begin

text \<open>
  Trap entry, trap return and interrupt selection (\<open>src/trap.cpp\<close>).  A \<open>cpu\<close> is the hart together with
  the state of its trap controller.  Exception causes are below 64, as every caller passes them.
\<close>

definition CAUSE_INT_BIT :: u64 where "CAUSE_INT_BIT = push_bit 63 1"
definition CAUSE_SUPERVISOR_EXTERNAL_INT :: u64 where "CAUSE_SUPERVISOR_EXTERNAL_INT = CAUSE_INT_BIT OR 9"
definition CAUSE_SUPERVISOR_TIMER_INT :: u64 where "CAUSE_SUPERVISOR_TIMER_INT = CAUSE_INT_BIT OR 5"
definition CAUSE_MACHINE_EXTERNAL_INT :: u64 where "CAUSE_MACHINE_EXTERNAL_INT = CAUSE_INT_BIT OR 11"
definition CAUSE_MACHINE_TIMER_INT :: u64 where "CAUSE_MACHINE_TIMER_INT = CAUSE_INT_BIT OR 7"

record platform_events =
  timer_interrupt_pending :: bool
  machine_external_interrupt_pending :: bool
  supervisor_external_interrupt_pending :: bool

record trap_unit =
  timer_pending_mask :: u64
  reservation_valid :: bool
  reservation_paddr :: u64
  reservation_size :: int

record cpu =
  cpu_hart :: hart
  cpu_trap :: trap_unit

definition interrupt_cause_code :: "u64 \<Rightarrow> u64" where
  "interrupt_cause_code cause = cause AND NOT CAUSE_INT_BIT"

definition is_interrupt_cause :: "u64 \<Rightarrow> bool" where
  "is_interrupt_cause cause \<longleftrightarrow> cause AND CAUSE_INT_BIT \<noteq> 0"

definition trap_ranges_overlap :: "u64 \<Rightarrow> int \<Rightarrow> u64 \<Rightarrow> int \<Rightarrow> bool" where
  "trap_ranges_overlap la ls ra rs \<longleftrightarrow> la < ra + word_of_int rs \<and> ra < la + word_of_int ls"

fun encode_privilege_mode :: "privilege_mode \<Rightarrow> u64" where
  "encode_privilege_mode User = 0"
| "encode_privilege_mode Supervisor = 1"
| "encode_privilege_mode Machine = 3"

definition decode_privilege_mode :: "u64 \<Rightarrow> privilege_mode" where
  "decode_privilege_mode encoded =
     (let e = encoded AND 3 in
      if e = 0 then User else if e = 1 then Supervisor else if e = 3 then Machine else User)"

definition trap_vector_base :: "u64 \<Rightarrow> u64 \<Rightarrow> u64" where
  "trap_vector_base tvec cause =
     (if tvec AND 3 = 1 \<and> cause AND CAUSE_INT_BIT \<noteq> 0
      then (tvec AND NOT 3) + 4 * (cause AND NOT CAUSE_INT_BIT)
      else tvec AND NOT 3)"

definition machine_interrupts_enabled :: "core_state \<Rightarrow> u64 \<Rightarrow> bool" where
  "machine_interrupts_enabled c mstatus =
     (case cs_privilege_mode c of Machine \<Rightarrow> mstatus AND MSTATUS_MIE \<noteq> 0 | Supervisor \<Rightarrow> True | User \<Rightarrow> True)"

definition supervisor_interrupts_enabled :: "core_state \<Rightarrow> u64 \<Rightarrow> bool" where
  "supervisor_interrupts_enabled c mstatus =
     (case cs_privilege_mode c of Machine \<Rightarrow> False | Supervisor \<Rightarrow> mstatus AND MSTATUS_SIE \<noteq> 0 | User \<Rightarrow> True)"

text \<open>The cause and the \<open>mip\<close> bit of the interrupt to take.\<close>

definition select_serviceable_interrupt :: "hart \<Rightarrow> (u64 \<times> u64) option" where
  "select_serviceable_interrupt h =
     (let c = h_core h; mstatus = csr h CSR_MSTATUS; mie = csr h CSR_MIE; mip = csr h CSR_MIP;
          mideleg = csr h CSR_MIDELEG in
      if mie AND MIE_MEIE \<noteq> 0 \<and> mip AND MIE_MEIE \<noteq> 0 \<and> machine_interrupts_enabled c mstatus
      then Some (CAUSE_MACHINE_EXTERNAL_INT, MIE_MEIE)
      else if mie AND MIE_MTIE \<noteq> 0 \<and> mip AND MIE_MTIE \<noteq> 0 \<and> machine_interrupts_enabled c mstatus
      then Some (CAUSE_MACHINE_TIMER_INT, MIE_MTIE)
      else if mideleg AND MIE_SEIE \<noteq> 0 \<and> mie AND MIE_SEIE \<noteq> 0 \<and> mip AND MIE_SEIE \<noteq> 0 \<and>
              supervisor_interrupts_enabled c mstatus
      then Some (CAUSE_SUPERVISOR_EXTERNAL_INT, MIE_SEIE)
      else if mideleg AND MIE_STIE \<noteq> 0 \<and> mie AND MIE_STIE \<noteq> 0 \<and> mip AND MIE_STIE \<noteq> 0 \<and>
              supervisor_interrupts_enabled c mstatus
      then Some (CAUSE_SUPERVISOR_TIMER_INT, MIE_STIE)
      else None)"

definition set_mode_pc :: "hart \<Rightarrow> privilege_mode \<Rightarrow> u64 \<Rightarrow> hart" where
  "set_mode_pc h mode pc = h\<lparr>h_core := (h_core h)\<lparr>cs_privilege_mode := mode, cs_pc := pc\<rparr>\<rparr>"

definition clear_reservation :: "cpu \<Rightarrow> cpu" where
  "clear_reservation p = p\<lparr>cpu_trap := (cpu_trap p)\<lparr>reservation_valid := False, reservation_paddr := 0,
     reservation_size := 0\<rparr>\<rparr>"

definition set_reservation :: "cpu \<Rightarrow> u64 \<Rightarrow> int \<Rightarrow> cpu" where
  "set_reservation p paddr n = p\<lparr>cpu_trap := (cpu_trap p)\<lparr>reservation_valid := True,
     reservation_paddr := paddr, reservation_size := n\<rparr>\<rparr>"

definition reservation_matches :: "cpu \<Rightarrow> u64 \<Rightarrow> int \<Rightarrow> bool" where
  "reservation_matches p paddr n \<longleftrightarrow>
     reservation_valid (cpu_trap p) \<and> reservation_paddr (cpu_trap p) = paddr \<and> reservation_size (cpu_trap p) = n"

definition invalidate_reservation :: "cpu \<Rightarrow> u64 \<Rightarrow> int \<Rightarrow> cpu" where
  "invalidate_reservation p paddr n =
     (let t = cpu_trap p in
      if \<not> reservation_valid t then p
      else if \<not> trap_ranges_overlap (reservation_paddr t) (reservation_size t) paddr n then p
      else clear_reservation p)"

definition delegated_to_supervisor :: "hart \<Rightarrow> u64 \<Rightarrow> bool" where
  "delegated_to_supervisor h cause \<longleftrightarrow>
     cs_privilege_mode (h_core h) \<noteq> Machine \<and>
     (is_interrupt_cause cause \<and> csr h CSR_MIDELEG AND push_bit (unat (interrupt_cause_code cause)) 1 \<noteq> 0 \<or>
      \<not> is_interrupt_cause cause \<and> csr h CSR_MEDELEG AND push_bit (unat cause) 1 \<noteq> 0)"

definition enter_trap :: "cpu \<Rightarrow> u64 \<Rightarrow> u64 \<Rightarrow> cpu" where
  "enter_trap p0 cause tval =
     (let p = clear_reservation p0; h = cpu_hart p; mode = cs_privilege_mode (h_core h);
          mstatus = csr h CSR_MSTATUS in
      if delegated_to_supervisor h cause then
        let sie = (if mstatus AND MSTATUS_SIE \<noteq> 0 then 1 else 0);
            mstatus = (mstatus AND NOT MSTATUS_SPIE) OR push_bit 5 sie;
            mstatus = mstatus AND NOT MSTATUS_SIE;
            mstatus = (if mode = Supervisor then mstatus OR MSTATUS_SPP else mstatus AND NOT MSTATUS_SPP);
            h = csr_write h CSR_MSTATUS mstatus;
            h = csr_write h CSR_SEPC (cs_pc (h_core h));
            h = csr_write h CSR_SCAUSE cause;
            h = csr_write h CSR_STVAL tval
        in p\<lparr>cpu_hart := set_mode_pc h Supervisor (trap_vector_base (csr h CSR_STVEC) cause)\<rparr>
      else
        let mie = drop_bit 3 mstatus AND 1;
            mstatus = (mstatus AND NOT MSTATUS_MPIE) OR push_bit 7 mie;
            mstatus = mstatus AND NOT MSTATUS_MIE;
            mstatus = (mstatus AND NOT MSTATUS_MPP_MASK) OR push_bit 11 (encode_privilege_mode mode);
            h = csr_write h CSR_MSTATUS mstatus;
            h = csr_write h CSR_MEPC (cs_pc (h_core h));
            h = csr_write h CSR_MCAUSE cause;
            h = csr_write h CSR_MTVAL tval
        in p\<lparr>cpu_hart := set_mode_pc h Machine (trap_vector_base (csr h CSR_MTVEC) cause)\<rparr>)"

definition enter_exception :: "cpu \<Rightarrow> u64 \<Rightarrow> u64 \<Rightarrow> cpu" where
  "enter_exception p cause tval = enter_trap p cause tval"

definition enter_interrupt :: "cpu \<Rightarrow> u64 \<Rightarrow> cpu" where
  "enter_interrupt p cause = enter_trap p cause 0"

definition return_from_mret :: "cpu \<Rightarrow> cpu" where
  "return_from_mret p =
     (let h = cpu_hart p; mstatus = csr h CSR_MSTATUS;
          mpie = drop_bit 7 mstatus AND 1;
          next_mode = decode_privilege_mode (drop_bit 11 (mstatus AND MSTATUS_MPP_MASK));
          mstatus = (mstatus AND NOT MSTATUS_MIE) OR push_bit 3 mpie;
          mstatus = mstatus OR MSTATUS_MPIE;
          mstatus = mstatus AND NOT MSTATUS_MPP_MASK;
          mstatus = (if next_mode \<noteq> Machine then mstatus AND NOT MSTATUS_MPRV else mstatus);
          h = csr_write h CSR_MSTATUS mstatus
      in p\<lparr>cpu_hart := set_mode_pc h next_mode (csr h CSR_MEPC)\<rparr>)"

definition return_from_sret :: "cpu \<Rightarrow> cpu" where
  "return_from_sret p =
     (let h = cpu_hart p; mstatus = csr h CSR_MSTATUS;
          spie = (if mstatus AND MSTATUS_SPIE \<noteq> 0 then 1 else 0);
          next_mode = (if mstatus AND MSTATUS_SPP \<noteq> 0 then Supervisor else User);
          mstatus = (mstatus AND NOT MSTATUS_SIE) OR push_bit 1 spie;
          mstatus = mstatus OR MSTATUS_SPIE;
          mstatus = mstatus AND NOT MSTATUS_SPP;
          mstatus = mstatus AND NOT MSTATUS_MPRV;
          h = csr_write h CSR_MSTATUS mstatus
      in p\<lparr>cpu_hart := set_mode_pc h next_mode (csr h CSR_SEPC)\<rparr>)"

definition write_mip :: "cpu \<Rightarrow> u64 \<Rightarrow> cpu" where
  "write_mip p v = p\<lparr>cpu_hart := csr_write (cpu_hart p) CSR_MIP v\<rparr>"

definition raise_timer_interrupt :: "cpu \<Rightarrow> cpu" where
  "raise_timer_interrupt p =
     (let h = cpu_hart p; mideleg = csr h CSR_MIDELEG; mip = csr h CSR_MIP in
      if mideleg AND MIE_STIE \<noteq> 0
      then (write_mip p ((mip OR MIE_STIE) AND NOT MIE_MTIE))
             \<lparr>cpu_trap := (cpu_trap p)\<lparr>timer_pending_mask := MIE_STIE\<rparr>\<rparr>
      else (write_mip p ((mip OR MIE_MTIE) AND NOT MIE_STIE))
             \<lparr>cpu_trap := (cpu_trap p)\<lparr>timer_pending_mask := MIE_MTIE\<rparr>\<rparr>)"

definition sync_external_interrupts :: "cpu \<Rightarrow> platform_events \<Rightarrow> cpu" where
  "sync_external_interrupts p ev =
     (let mip = csr (cpu_hart p) CSR_MIP;
          mip = (if machine_external_interrupt_pending ev then mip OR MIE_MEIE else mip AND NOT MIE_MEIE);
          mip = (if supervisor_external_interrupt_pending ev then mip OR MIE_SEIE else mip AND NOT MIE_SEIE)
      in write_mip p mip)"

definition sync_platform_events :: "cpu \<Rightarrow> platform_events \<Rightarrow> cpu" where
  "sync_platform_events p ev =
     (let p1 = (if timer_interrupt_pending ev then raise_timer_interrupt p
                else if timer_pending_mask (cpu_trap p) \<noteq> 0 then
                  (write_mip p (csr (cpu_hart p) CSR_MIP AND NOT (timer_pending_mask (cpu_trap p))))
                    \<lparr>cpu_trap := (cpu_trap p)\<lparr>timer_pending_mask := 0\<rparr>\<rparr>
                else p)
      in sync_external_interrupts p1 ev)"

definition has_serviceable_interrupt :: "cpu \<Rightarrow> bool" where
  "has_serviceable_interrupt p \<longleftrightarrow> select_serviceable_interrupt (cpu_hart p) \<noteq> None"

definition service_pending_interrupts :: "cpu \<Rightarrow> bool \<times> cpu" where
  "service_pending_interrupts p =
     (case select_serviceable_interrupt (cpu_hart p) of
        None \<Rightarrow> (False, p)
      | Some (cause, mip_mask) \<Rightarrow>
          (True, enter_interrupt (write_mip p (csr (cpu_hart p) CSR_MIP AND NOT mip_mask)) cause))"

definition handle_platform_events :: "cpu \<Rightarrow> platform_events \<Rightarrow> cpu" where
  "handle_platform_events p ev = snd (service_pending_interrupts (sync_platform_events p ev))"

subsection \<open>The bits of mstatus\<close>

lemma u64_and_one_bit: "k < 64 \<Longrightarrow> (w :: u64) AND push_bit k 1 = 0 \<longleftrightarrow> \<not> bit w k"
  by (simp add: and_exp_eq_0_iff_not_bit)

lemma bit_one_bit: "bit (push_bit k 1 :: u64) n \<longleftrightarrow> n = k \<and> k < 64"
  by (auto simp: bit_exp_iff)

lemma bit_two_bits: "k < 63 \<Longrightarrow> bit (push_bit k 3 :: u64) n \<longleftrightarrow> n = k \<or> n = Suc k"
proof -
  assume k: "k < 63"
  have "(3 :: u64) = mask 2" by (simp add: mask_eq_exp_minus_1)
  then show ?thesis using k by (simp only: bit_push_bit_iff bit_mask_iff) auto
qed

lemmas mstatus_fields = MSTATUS_SIE_def MSTATUS_MIE_def MSTATUS_SPIE_def MSTATUS_MPIE_def MSTATUS_SPP_def
  MSTATUS_MPRV_def MSTATUS_SUM_def MSTATUS_MXR_def MSTATUS_SD_def
lemmas mie_fields = MIE_SSIE_def MIE_MSIE_def MIE_STIE_def MIE_MTIE_def MIE_SEIE_def MIE_MEIE_def

lemma mstatus_bit_tests:
  "w AND MSTATUS_SIE = 0 \<longleftrightarrow> \<not> bit w 1" "w AND MSTATUS_MIE = 0 \<longleftrightarrow> \<not> bit w 3"
  "w AND MSTATUS_SPIE = 0 \<longleftrightarrow> \<not> bit w 5" "w AND MSTATUS_MPIE = 0 \<longleftrightarrow> \<not> bit w 7"
  "w AND MSTATUS_SPP = 0 \<longleftrightarrow> \<not> bit w 8" "w AND MSTATUS_MPRV = 0 \<longleftrightarrow> \<not> bit w 17"
  "w AND MSTATUS_SUM = 0 \<longleftrightarrow> \<not> bit w 18" "w AND MSTATUS_MXR = 0 \<longleftrightarrow> \<not> bit w 19"
  unfolding mstatus_fields by (rule u64_and_one_bit, simp)+

lemma mie_bit_tests:
  "w AND MIE_SSIE = 0 \<longleftrightarrow> \<not> bit w 1" "w AND MIE_MSIE = 0 \<longleftrightarrow> \<not> bit w 3"
  "w AND MIE_STIE = 0 \<longleftrightarrow> \<not> bit w 5" "w AND MIE_MTIE = 0 \<longleftrightarrow> \<not> bit w 7"
  "w AND MIE_SEIE = 0 \<longleftrightarrow> \<not> bit w 9" "w AND MIE_MEIE = 0 \<longleftrightarrow> \<not> bit w 11"
  unfolding mie_fields by (rule u64_and_one_bit, simp)+

lemma bit_mstatus_fields:
  "bit MSTATUS_SIE n \<longleftrightarrow> n = 1" "bit MSTATUS_MIE n \<longleftrightarrow> n = 3" "bit MSTATUS_SPIE n \<longleftrightarrow> n = 5"
  "bit MSTATUS_MPIE n \<longleftrightarrow> n = 7" "bit MSTATUS_SPP n \<longleftrightarrow> n = 8" "bit MSTATUS_MPRV n \<longleftrightarrow> n = 17"
  "bit MSTATUS_SUM n \<longleftrightarrow> n = 18" "bit MSTATUS_MXR n \<longleftrightarrow> n = 19" "bit MSTATUS_SD n \<longleftrightarrow> n = 63"
  "bit MSTATUS_MPP_MASK n \<longleftrightarrow> n = 11 \<or> n = 12" "bit MSTATUS_FS_MASK n \<longleftrightarrow> n = 13 \<or> n = 14"
  "bit MSTATUS_VS_MASK n \<longleftrightarrow> n = 9 \<or> n = 10"
  unfolding mstatus_fields MSTATUS_MPP_MASK_def MSTATUS_FS_MASK_def MSTATUS_VS_MASK_def
  by (simp_all only: bit_one_bit bit_two_bits) auto

lemma bit_mie_fields:
  "bit MIE_SSIE n \<longleftrightarrow> n = 1" "bit MIE_MSIE n \<longleftrightarrow> n = 3" "bit MIE_STIE n \<longleftrightarrow> n = 5"
  "bit MIE_MTIE n \<longleftrightarrow> n = 7" "bit MIE_SEIE n \<longleftrightarrow> n = 9" "bit MIE_MEIE n \<longleftrightarrow> n = 11"
  unfolding mie_fields by (simp_all only: bit_one_bit) auto

lemma bit_MIP_MIE_MASK: "bit MIP_MIE_MASK n \<longleftrightarrow> n \<in> {1, 3, 5, 7, 9, 11}"
  by (auto simp: MIP_MIE_MASK_def bit_or_iff bit_mie_fields)

definition fs_dirty :: "u64 \<Rightarrow> bool" where
  "fs_dirty w \<longleftrightarrow> bit w 13 \<and> bit w 14 \<or> bit w 9 \<and> bit w 10"

lemma both_bits:
  assumes "k < 63"
  shows "(w :: u64) AND push_bit k 3 = push_bit k 3 \<longleftrightarrow> bit w k \<and> bit w (Suc k)"
proof
  assume "w AND push_bit k 3 = push_bit k 3"
  then have "bit (w AND push_bit k 3) n = bit (push_bit k 3 :: u64) n" for n by simp
  from this [of k] this [of "Suc k"] assms show "bit w k \<and> bit w (Suc k)"
    by (simp add: bit_and_iff bit_two_bits)
next
  assume "bit w k \<and> bit w (Suc k)"
  then show "w AND push_bit k 3 = push_bit k 3"
    using assms by (intro bit_word_eqI) (auto simp: bit_and_iff bit_two_bits)
qed

lemma bit_with_sd: "bit (with_sd_summary w) n \<longleftrightarrow> (if n = 63 then fs_dirty w else bit w n)"
proof -
  have "w AND MSTATUS_FS_MASK = MSTATUS_FS_DIRTY \<longleftrightarrow> bit w 13 \<and> bit w 14"
    "w AND MSTATUS_VS_MASK = MSTATUS_VS_DIRTY \<longleftrightarrow> bit w 9 \<and> bit w 10"
    unfolding MSTATUS_FS_MASK_def MSTATUS_FS_DIRTY_def MSTATUS_VS_MASK_def MSTATUS_VS_DIRTY_def
    by (subst both_bits; simp)+
  then show ?thesis
    by (auto simp: with_sd_summary_def fs_dirty_def bit_or_iff bit_and_iff bit_not_iff bit_mstatus_fields
        dest: bit_imp_le_length)
qed

lemma mpp_field:
  fixes w :: u64
  shows "drop_bit 11 (w AND MSTATUS_MPP_MASK) = (if bit w 11 then 1 else 0) OR (if bit w 12 then 2 else 0)"
proof (rule bit_word_eqI)
  fix n
  have two: "bit (2 :: u64) n \<longleftrightarrow> n = 1" using bit_one_bit [of 1 n] by simp
  have l: "bit (drop_bit 11 (w AND MSTATUS_MPP_MASK)) n \<longleftrightarrow> bit w (11 + n) \<and> (n = 0 \<or> n = 1)"
    by (simp only: bit_drop_bit_eq comp_def bit_and_iff bit_mstatus_fields) auto
  have r: "bit ((if bit w 11 then 1 else 0) OR (if bit w 12 then 2 else 0) :: u64) n \<longleftrightarrow>
      bit w 11 \<and> n = 0 \<or> bit w 12 \<and> n = 1"
    by (cases "bit w 11"; cases "bit w 12")
      (simp_all only: if_True if_False bit_or_iff bit_1_iff two bit_0_eq bot_apply bot_bool_def simp_thms)
  show "bit (drop_bit 11 (w AND MSTATUS_MPP_MASK)) n =
    bit ((if bit w 11 then 1 else 0) OR (if bit w 12 then 2 else 0) :: u64) n"
    unfolding l r by auto
qed

definition mpp_reserved :: "u64 \<Rightarrow> bool" where
  "mpp_reserved w \<longleftrightarrow> bit w 12 \<and> \<not> bit w 11"

lemma bit_sanitize:
  "bit (sanitize_mstatus w) n \<longleftrightarrow>
     (if n = 63 then fs_dirty w else if n = 11 \<or> n = 12 then bit w n \<and> \<not> mpp_reserved w else bit w n)"
proof -
  have "drop_bit 11 ((w AND NOT MSTATUS_SD) AND MSTATUS_MPP_MASK) = 2 \<longleftrightarrow> mpp_reserved w"
    by (subst mpp_field) (auto simp: mpp_reserved_def bit_and_iff bit_not_iff bit_mstatus_fields)
  then show ?thesis
    by (auto simp: sanitize_mstatus_def Let_def bit_with_sd fs_dirty_def bit_and_iff bit_not_iff
        bit_mstatus_fields mpp_reserved_def dest: bit_imp_le_length)
qed

end
