(* ===== verification/InsnEffects.thy ===== *)
theory InsnEffects
  imports Decode TrapUnit
begin

text \<open>
  What one instruction asks the hart to do (\<open>src/isa/effects.h\<close>): the records an execution unit
  fills in and the commit boundary applies.  \<open>no_effects\<close> is the default-constructed \<open>InsnEffects\<close>.
\<close>

record trap_request =
  tr_valid :: bool
  tr_cause :: u64
  tr_tval :: u64

record reg_write =
  rw_enable :: bool
  rw_rd :: u8
  rw_value :: u64

record csr_write_request =
  cw_enable :: bool
  cw_addr :: u32
  cw_value :: u64

datatype mem_kind = Mem_None | Mem_Load | Mem_Store
datatype mem_target = Target_Integer | Target_Float

record memory_request =
  mq_kind :: mem_kind
  mq_target :: mem_target
  mq_addr :: u64
  mq_store_value :: u64
  mq_rd :: u8
  mq_size :: int
  mq_sign_extend :: bool
  mq_commit_at_boundary :: bool
  mq_non_speculative :: bool

datatype atomic_kind = Atomic_None | Load_Reserved | Store_Conditional | Amo_Swap | Amo_Add | Amo_Xor | Amo_And |
  Amo_Or | Amo_Min | Amo_Max | Amo_MinUnsigned | Amo_MaxUnsigned

record atomic_request =
  aq_kind :: atomic_kind
  aq_addr :: u64
  aq_store_value :: u64
  aq_rd :: u8
  aq_size :: int
  aq_aq :: bool
  aq_rl :: bool
  aq_commit_at_boundary :: bool
  aq_non_speculative :: bool

datatype vector_kind = Vector_None | Vector_SetConfig | Vector_Load | Vector_Store | Vector_Add | Vector_Mul |
  Vector_Max | Vector_Dot

type_synonym vector_reg = "u8 carray"

record vector_request =
  vq_kind :: vector_kind
  vq_vd :: u8
  vq_vs1 :: u8
  vq_vs2 :: u8
  vq_addr :: u64
  vq_sew_bytes :: u8
  vq_vl :: u8
  vq_result_valid :: bool
  vq_result :: vector_reg

datatype trap_return_kind = Return_None | Return_Mret | Return_Sret

record control_effect =
  ce_redirect_pc :: bool
  ce_target_pc :: u64
  ce_halt :: bool
  ce_flush_tlb :: bool
  ce_trap_return :: trap_return_kind

record insn_effects =
  eff_rd :: reg_write
  eff_fp :: reg_write
  eff_csr :: csr_write_request
  eff_mem :: memory_request
  eff_atomic :: atomic_request
  eff_vector :: vector_request
  eff_trap :: trap_request
  eff_control :: control_effect
  eff_floating_touched :: bool
  eff_retired :: bool

definition no_trap :: trap_request where
  "no_trap = \<lparr>tr_valid = False, tr_cause = 0, tr_tval = 0\<rparr>"
definition no_reg_write :: reg_write where
  "no_reg_write = \<lparr>rw_enable = False, rw_rd = 0, rw_value = 0\<rparr>"
definition no_csr_write :: csr_write_request where
  "no_csr_write = \<lparr>cw_enable = False, cw_addr = 0, cw_value = 0\<rparr>"
definition no_memory :: memory_request where
  "no_memory = \<lparr>mq_kind = Mem_None, mq_target = Target_Integer, mq_addr = 0, mq_store_value = 0, mq_rd = 0,
     mq_size = 0, mq_sign_extend = False, mq_commit_at_boundary = False, mq_non_speculative = False\<rparr>"
definition no_atomic :: atomic_request where
  "no_atomic = \<lparr>aq_kind = Atomic_None, aq_addr = 0, aq_store_value = 0, aq_rd = 0, aq_size = 0,
     aq_aq = False, aq_rl = False, aq_commit_at_boundary = True, aq_non_speculative = True\<rparr>"
definition no_vector :: vector_request where
  "no_vector = \<lparr>vq_kind = Vector_None, vq_vd = 0, vq_vs1 = 0, vq_vs2 = 0, vq_addr = 0, vq_sew_bytes = 0,
     vq_vl = 0, vq_result_valid = False, vq_result = (\<lambda>_. 0)\<rparr>"
definition no_control :: control_effect where
  "no_control = \<lparr>ce_redirect_pc = False, ce_target_pc = 0, ce_halt = False, ce_flush_tlb = False,
     ce_trap_return = Return_None\<rparr>"

definition no_effects :: insn_effects where
  "no_effects = \<lparr>eff_rd = no_reg_write, eff_fp = no_reg_write, eff_csr = no_csr_write, eff_mem = no_memory,
     eff_atomic = no_atomic, eff_vector = no_vector, eff_trap = no_trap, eff_control = no_control,
     eff_floating_touched = False, eff_retired = True\<rparr>"

lemmas default_effects = no_trap_def no_reg_write_def no_csr_write_def no_memory_def no_atomic_def no_vector_def
  no_control_def

lemma no_effects_simps [simp]:
  "eff_rd no_effects = no_reg_write" "eff_fp no_effects = no_reg_write" "eff_csr no_effects = no_csr_write"
  "eff_mem no_effects = no_memory" "eff_atomic no_effects = no_atomic" "eff_vector no_effects = no_vector"
  "eff_trap no_effects = no_trap" "eff_control no_effects = no_control"
  "eff_floating_touched no_effects = False" "eff_retired no_effects = True"
  by (simp_all add: no_effects_def)

lemma default_effects_simps [simp]:
  "\<not> tr_valid no_trap" "\<not> rw_enable no_reg_write" "\<not> cw_enable no_csr_write" "mq_kind no_memory = Mem_None"
  "aq_kind no_atomic = Atomic_None" "vq_kind no_vector = Vector_None" "\<not> ce_redirect_pc no_control"
  "\<not> ce_halt no_control" "\<not> ce_flush_tlb no_control" "ce_trap_return no_control = Return_None"
  by (simp_all add: default_effects)

subsection \<open>Helpers the execution units repeat\<close>

definition CAUSE_INSN_ADDR_MISALIGNED :: u64 where "CAUSE_INSN_ADDR_MISALIGNED = 0"
definition CAUSE_ILLEGAL_INSN :: u64 where "CAUSE_ILLEGAL_INSN = 2"
definition CAUSE_BREAKPOINT :: u64 where "CAUSE_BREAKPOINT = 3"
definition CAUSE_ECALL_U :: u64 where "CAUSE_ECALL_U = 8"
definition CAUSE_ECALL_S :: u64 where "CAUSE_ECALL_S = 9"
definition CAUSE_ECALL_M :: u64 where "CAUSE_ECALL_M = 11"

definition make_trap_request :: "u64 \<Rightarrow> u64 \<Rightarrow> trap_request" where
  "make_trap_request cause tval = \<lparr>tr_valid = True, tr_cause = cause, tr_tval = tval\<rparr>"

definition illegal_instruction_trap :: "u32 \<Rightarrow> trap_request" where
  "illegal_instruction_trap raw = make_trap_request CAUSE_ILLEGAL_INSN (ucast raw)"

definition trap_effect :: "trap_request \<Rightarrow> insn_effects" where
  "trap_effect trap = no_effects\<lparr>eff_trap := trap, eff_retired := False\<rparr>"

definition illegal_instruction_effect :: "u32 \<Rightarrow> insn_effects" where
  "illegal_instruction_effect raw = trap_effect (illegal_instruction_trap raw)"

definition set_rd :: "insn_effects \<Rightarrow> u8 \<Rightarrow> u64 \<Rightarrow> insn_effects" where
  "set_rd e r v = e\<lparr>eff_rd := \<lparr>rw_enable = True, rw_rd = r, rw_value = v\<rparr>\<rparr>"

definition instruction_size :: "insn \<Rightarrow> u8" where
  "instruction_size i = (if insn_size i \<noteq> 0 then insn_size i else 4)"

lemma make_trap_request_simps [simp]:
  "tr_valid (make_trap_request c t)" "tr_cause (make_trap_request c t) = c" "tr_tval (make_trap_request c t) = t"
  by (simp_all add: make_trap_request_def)

lemma trap_effect_simps [simp]:
  "eff_trap (trap_effect t) = t" "eff_retired (trap_effect t) = False" "eff_rd (trap_effect t) = no_reg_write"
  "eff_fp (trap_effect t) = no_reg_write" "eff_csr (trap_effect t) = no_csr_write" "eff_mem (trap_effect t) = no_memory"
  "eff_atomic (trap_effect t) = no_atomic" "eff_vector (trap_effect t) = no_vector"
  "eff_control (trap_effect t) = no_control"
  by (simp_all add: trap_effect_def)

lemma set_rd_simps [simp]:
  "eff_rd (set_rd e r v) = \<lparr>rw_enable = True, rw_rd = r, rw_value = v\<rparr>"
  "eff_fp (set_rd e r v) = eff_fp e" "eff_csr (set_rd e r v) = eff_csr e" "eff_mem (set_rd e r v) = eff_mem e"
  "eff_atomic (set_rd e r v) = eff_atomic e" "eff_vector (set_rd e r v) = eff_vector e"
  "eff_trap (set_rd e r v) = eff_trap e" "eff_control (set_rd e r v) = eff_control e"
  "eff_retired (set_rd e r v) = eff_retired e" "eff_floating_touched (set_rd e r v) = eff_floating_touched e"
  by (simp_all add: set_rd_def)

end
