(* ===== verification/IntegerOps.thy ===== *)
theory IntegerOps
  imports InsnEffects "HOL-Library.Signed_Division"
begin

text \<open>
  The integer execution unit (\<open>src/exec/integer_ops.cpp\<close>): RV64I and RV64M register arithmetic.
  The result is an option: \<open>None\<close> is the host's own division by zero, which C++ leaves undefined (the
  process dies on the machines the simulator runs on); every other path returns effects.
\<close>

definition is_valid_shift_immediate_encoding :: "insn \<Rightarrow> bool" where
  "is_valid_shift_immediate_encoding i =
     (let upper = funct7 i AND 0x7E in
      if funct3 i = 1 then upper = 0x00
      else if funct3 i = 5 then upper = 0x00 \<or> upper = 0x20
      else True)"

definition is_valid_shift_word_immediate_encoding :: "insn \<Rightarrow> bool" where
  "is_valid_shift_word_immediate_encoding i =
     (if funct3 i = 1 then funct7 i = 0x00
      else if funct3 i = 5 then funct7 i = 0x00 \<or> funct7 i = 0x20
      else True)"

definition is_valid_integer_reg_encoding :: "u8 \<Rightarrow> u8 \<Rightarrow> bool" where
  "is_valid_integer_reg_encoding f3 f7 =
     (if f3 = 0 then f7 = 0x00 \<or> f7 = 0x20
      else if f3 \<in> {1, 2, 3, 4, 6, 7} then f7 = 0x00
      else if f3 = 5 then f7 = 0x00 \<or> f7 = 0x20
      else False)"

definition is_valid_integer_word_reg_encoding :: "u8 \<Rightarrow> u8 \<Rightarrow> bool" where
  "is_valid_integer_word_reg_encoding f3 f7 =
     (if f3 = 0 then f7 = 0x00 \<or> f7 = 0x20
      else if f3 = 1 then f7 = 0x00
      else if f3 = 5 then f7 = 0x00 \<or> f7 = 0x20
      else False)"

text \<open>\<open>static_cast<uint64_t>(static_cast<int64_t>(int32_t))\<close>; a comparison stored in a register.\<close>

definition sign_extend_word :: "u32 \<Rightarrow> u64" where
  "sign_extend_word v = scast v"

definition flag :: "bool \<Rightarrow> u64" where
  "flag b = (if b then 1 else 0)"

definition low32 :: "u64 \<Rightarrow> u32" where
  "low32 v = ucast v"

definition INT64_MIN :: int where "INT64_MIN = - (2 ^ 63)"
definition INT32_MIN :: int where "INT32_MIN = - (2 ^ 31)"

definition div_signed :: "u64 \<Rightarrow> u64 \<Rightarrow> u64" where
  "div_signed lhs rhs =
     (if rhs = 0 then - 1
      else if sint lhs = INT64_MIN \<and> sint rhs = - 1 then lhs
      else word_of_int (sint lhs sdiv sint rhs))"

definition rem_signed :: "u64 \<Rightarrow> u64 \<Rightarrow> u64" where
  "rem_signed lhs rhs =
     (if rhs = 0 then lhs
      else if sint lhs = INT64_MIN \<and> sint rhs = - 1 then 0
      else word_of_int (sint lhs smod sint rhs))"

definition div_signed_word :: "u64 \<Rightarrow> u64 \<Rightarrow> u64" where
  "div_signed_word lhs rhs =
     (let dividend = sint (low32 lhs); divisor = sint (low32 rhs) in
      if divisor = 0 then - 1
      else if dividend = INT32_MIN \<and> divisor = - 1 then sign_extend_word (low32 lhs)
      else sign_extend_word (word_of_int (dividend sdiv divisor)))"

definition rem_signed_word :: "u64 \<Rightarrow> u64 \<Rightarrow> u64" where
  "rem_signed_word lhs rhs =
     (let dividend = sint (low32 lhs); divisor = sint (low32 rhs) in
      if divisor = 0 then sign_extend_word (low32 lhs)
      else if dividend = INT32_MIN \<and> divisor = - 1 then 0
      else sign_extend_word (word_of_int (dividend smod divisor)))"

text \<open>\<open>__int128\<close> products, high half.\<close>

definition mul_high :: "128 word \<Rightarrow> 128 word \<Rightarrow> u64" where
  "mul_high a b = ucast (drop_bit 64 (a * b))"

text \<open>The 32-bit unsigned division of the host; a zero divisor is undefined.\<close>

definition host_div32 :: "u32 \<Rightarrow> u32 \<Rightarrow> u32 option" where
  "host_div32 a b = (if b = 0 then None else Some (a div b))"

definition host_rem32 :: "u32 \<Rightarrow> u32 \<Rightarrow> u32 option" where
  "host_rem32 a b = (if b = 0 then None else Some (a mod b))"

text \<open>Opcode 0x13, 0x1B, 0x33 and 0x3B: \<open>Inl\<close> an illegal encoding, \<open>Inr\<close> the value for \<open>rd\<close>.\<close>

datatype alu_result = Alu_Illegal | Alu_Host_Fault | Alu_Value u64

text \<open>The shift amount of \<open>SLLI\<close>, \<open>SRLI\<close> and \<open>SRAI\<close>: bit 25 of the encoding is its sixth bit.\<close>

definition imm_shamt :: "insn \<Rightarrow> u8" where
  "imm_shamt i = rs2 i OR push_bit 5 (funct7 i AND 1)"

definition op_imm :: "insn \<Rightarrow> u64 \<Rightarrow> u64 \<Rightarrow> alu_result" where
  "op_imm i rs1v im =
     (let shamt = unat (imm_shamt i); f3 = funct3 i in
      if f3 = 0 then Alu_Value (rs1v + im)
      else if f3 = 1 then
        (if \<not> is_valid_shift_immediate_encoding i then Alu_Illegal else Alu_Value (push_bit shamt rs1v))
      else if f3 = 2 then Alu_Value (flag (sint rs1v < sint im))
      else if f3 = 3 then Alu_Value (flag (rs1v < im))
      else if f3 = 4 then Alu_Value (rs1v XOR im)
      else if f3 = 5 then
        (if \<not> is_valid_shift_immediate_encoding i then Alu_Illegal
         else Alu_Value (if funct7 i AND 0x20 \<noteq> 0 then signed_drop_bit shamt rs1v else drop_bit shamt rs1v))
      else if f3 = 6 then Alu_Value (rs1v OR im)
      else if f3 = 7 then Alu_Value (rs1v AND im)
      else Alu_Illegal)"

definition op_imm_32 :: "insn \<Rightarrow> u64 \<Rightarrow> u64 \<Rightarrow> alu_result" where
  "op_imm_32 i rs1v im =
     (let shamt = unat (rs2 i); f3 = funct3 i in
      if f3 = 0 then Alu_Value (sign_extend_word (low32 (rs1v + im)))
      else if f3 = 1 then
        (if \<not> is_valid_shift_word_immediate_encoding i then Alu_Illegal
         else Alu_Value (sign_extend_word (push_bit shamt (low32 rs1v))))
      else if f3 = 5 then
        (if \<not> is_valid_shift_word_immediate_encoding i then Alu_Illegal
         else Alu_Value (sign_extend_word
                (if funct7 i AND 0x20 \<noteq> 0 then signed_drop_bit shamt (low32 rs1v)
                 else drop_bit shamt (low32 rs1v))))
      else Alu_Illegal)"

definition op_reg :: "insn \<Rightarrow> u64 \<Rightarrow> u64 \<Rightarrow> alu_result" where
  "op_reg i rs1v rs2v =
     (let shamt = unat (rs2v AND 63); f3 = funct3 i in
      if funct7 i = 1 then
        (if f3 = 0 then Alu_Value (rs1v * rs2v)
         else if f3 = 1 then Alu_Value (mul_high (scast rs1v) (scast rs2v))
         else if f3 = 2 then Alu_Value (mul_high (scast rs1v) (ucast rs2v))
         else if f3 = 3 then Alu_Value (mul_high (ucast rs1v) (ucast rs2v))
         else if f3 = 4 then Alu_Value (div_signed rs1v rs2v)
         else if f3 = 5 then Alu_Value (if rs2v \<noteq> 0 then rs1v div rs2v else - 1)
         else if f3 = 6 then Alu_Value (rem_signed rs1v rs2v)
         else if f3 = 7 then Alu_Value (if rs2v \<noteq> 0 then rs1v mod rs2v else rs1v)
         else Alu_Illegal)
      else if \<not> is_valid_integer_reg_encoding f3 (funct7 i) then Alu_Illegal
      else if f3 = 0 then Alu_Value (if funct7 i = 0x20 then rs1v - rs2v else rs1v + rs2v)
      else if f3 = 1 then Alu_Value (push_bit shamt rs1v)
      else if f3 = 2 then Alu_Value (flag (sint rs1v < sint rs2v))
      else if f3 = 3 then Alu_Value (flag (rs1v < rs2v))
      else if f3 = 4 then Alu_Value (rs1v XOR rs2v)
      else if f3 = 5 then
        Alu_Value (if funct7 i = 0x20 then signed_drop_bit shamt rs1v else drop_bit shamt rs1v)
      else if f3 = 6 then Alu_Value (rs1v OR rs2v)
      else if f3 = 7 then Alu_Value (rs1v AND rs2v)
      else Alu_Illegal)"

definition op_reg_32 :: "insn \<Rightarrow> u64 \<Rightarrow> u64 \<Rightarrow> alu_result" where
  "op_reg_32 i rs1v rs2v =
     (let shamt = unat (rs2v AND 31); f3 = funct3 i in
      if funct7 i = 1 then
        (if f3 = 0 then Alu_Value (sign_extend_word (low32 (rs1v * rs2v)))
         else if f3 = 4 then Alu_Value (div_signed_word rs1v rs2v)
         else if f3 = 5 then
           (if rs2v \<noteq> 0 then
              (case host_div32 (low32 rs1v) (low32 rs2v) of
                 None \<Rightarrow> Alu_Host_Fault | Some q \<Rightarrow> Alu_Value (sign_extend_word q))
            else Alu_Value (- 1))
         else if f3 = 6 then Alu_Value (rem_signed_word rs1v rs2v)
         else if f3 = 7 then
           (if rs2v \<noteq> 0 then
              (case host_rem32 (low32 rs1v) (low32 rs2v) of
                 None \<Rightarrow> Alu_Host_Fault | Some r \<Rightarrow> Alu_Value (sign_extend_word r))
            else Alu_Value (sign_extend_word (low32 rs1v)))
         else Alu_Illegal)
      else if \<not> is_valid_integer_word_reg_encoding f3 (funct7 i) then Alu_Illegal
      else if f3 = 0 then
        Alu_Value (sign_extend_word (low32 (if funct7 i = 0x20 then rs1v - rs2v else rs1v + rs2v)))
      else if f3 = 1 then Alu_Value (sign_extend_word (push_bit shamt (low32 rs1v)))
      else if f3 = 5 then
        Alu_Value (sign_extend_word (if funct7 i = 0x20 then signed_drop_bit shamt (low32 rs1v)
                                     else drop_bit shamt (low32 rs1v)))
      else Alu_Illegal)"

definition alu_effects :: "insn \<Rightarrow> alu_result \<Rightarrow> insn_effects option" where
  "alu_effects i r =
     (case r of Alu_Illegal \<Rightarrow> Some (illegal_instruction_effect (insn_raw i))
      | Alu_Host_Fault \<Rightarrow> None
      | Alu_Value v \<Rightarrow> Some (set_rd no_effects (rd i) v))"

definition build_integer_effects :: "insn \<Rightarrow> u64 \<Rightarrow> u64 \<Rightarrow> u64 \<Rightarrow> u64 \<Rightarrow> insn_effects option" where
  "build_integer_effects i rs1v rs2v im pc =
     (if opcode i = 0x37 then Some (set_rd no_effects (rd i) im)
      else if opcode i = 0x17 then Some (set_rd no_effects (rd i) (pc + im))
      else if opcode i = 0x13 then alu_effects i (op_imm i rs1v im)
      else if opcode i = 0x1B then alu_effects i (op_imm_32 i rs1v im)
      else if opcode i = 0x33 then alu_effects i (op_reg i rs1v rs2v)
      else if opcode i = 0x3B then alu_effects i (op_reg_32 i rs1v rs2v)
      else if opcode i = 0x0F then Some no_effects
      else Some (illegal_instruction_effect (insn_raw i)))"

end
