(* ===== verification/ControlFlowOps.thy ===== *)
theory ControlFlowOps
  imports InsnEffects
begin

text \<open>
  Jumps and branches (\<open>src/exec/control_flow_ops.cpp\<close>).
\<close>

definition instruction_address_misaligned_trap :: "u64 \<Rightarrow> trap_request" where
  "instruction_address_misaligned_trap target = make_trap_request CAUSE_INSN_ADDR_MISALIGNED target"

definition is_instruction_aligned :: "u64 \<Rightarrow> bool" where
  "is_instruction_aligned pc \<longleftrightarrow> pc AND 1 = 0"

definition redirect :: "insn_effects \<Rightarrow> u64 \<Rightarrow> insn_effects" where
  "redirect e target = e\<lparr>eff_control := (eff_control e)\<lparr>ce_redirect_pc := True, ce_target_pc := target\<rparr>\<rparr>"

definition branch_taken :: "u8 \<Rightarrow> u64 \<Rightarrow> u64 \<Rightarrow> bool option" where
  "branch_taken f3 a b =
     (if f3 = 0 then Some (a = b)
      else if f3 = 1 then Some (a \<noteq> b)
      else if f3 = 4 then Some (sint a < sint b)
      else if f3 = 5 then Some (sint a \<ge> sint b)
      else if f3 = 6 then Some (a < b)
      else if f3 = 7 then Some (a \<ge> b)
      else None)"

definition build_control_flow_effects :: "insn \<Rightarrow> u64 \<Rightarrow> u64 \<Rightarrow> u64 \<Rightarrow> u64 \<Rightarrow> insn_effects" where
  "build_control_flow_effects i rs1v rs2v im pc =
     (let next_pc = pc + ucast (instruction_size i) in
      if opcode i = 0x6F then
        (let target = pc + im in
         if \<not> is_instruction_aligned target then trap_effect (instruction_address_misaligned_trap target)
         else redirect (set_rd no_effects (rd i) next_pc) target)
      else if opcode i = 0x67 then
        (let target = (rs1v + im) AND NOT 1 in
         if \<not> is_instruction_aligned target then trap_effect (instruction_address_misaligned_trap target)
         else redirect (set_rd no_effects (rd i) next_pc) target)
      else if opcode i = 0x63 then
        (case branch_taken (funct3 i) rs1v rs2v of
           None \<Rightarrow> illegal_instruction_effect (insn_raw i)
         | Some False \<Rightarrow> no_effects
         | Some True \<Rightarrow>
             (let target = pc + im in
              if \<not> is_instruction_aligned target then trap_effect (instruction_address_misaligned_trap target)
              else redirect no_effects target))
      else illegal_instruction_effect (insn_raw i))"

lemma redirect_simps [simp]:
  "eff_rd (redirect e t) = eff_rd e" "eff_fp (redirect e t) = eff_fp e" "eff_csr (redirect e t) = eff_csr e"
  "eff_mem (redirect e t) = eff_mem e" "eff_atomic (redirect e t) = eff_atomic e"
  "eff_vector (redirect e t) = eff_vector e" "eff_trap (redirect e t) = eff_trap e"
  "eff_retired (redirect e t) = eff_retired e" "eff_floating_touched (redirect e t) = eff_floating_touched e"
  "ce_redirect_pc (eff_control (redirect e t))" "ce_target_pc (eff_control (redirect e t)) = t"
  "ce_halt (eff_control (redirect e t)) = ce_halt (eff_control e)"
  "ce_flush_tlb (eff_control (redirect e t)) = ce_flush_tlb (eff_control e)"
  "ce_trap_return (eff_control (redirect e t)) = ce_trap_return (eff_control e)"
  by (simp_all add: redirect_def)

text \<open>Every target of a jump or taken branch is even: a 16-bit boundary, which is what the compressed
  extension asks for.\<close>

lemma redirect_target_aligned:
  assumes "ce_redirect_pc (eff_control (build_control_flow_effects i a b im pc))"
  shows "is_instruction_aligned (ce_target_pc (eff_control (build_control_flow_effects i a b im pc)))"
  using assms
  by (auto simp: build_control_flow_effects_def Let_def illegal_instruction_effect_def split: if_splits option.splits bool.splits)

end
