(* ===== verification/FloatingOps.thy ===== *)
theory FloatingOps
  imports InsnEffects
begin

text \<open>
  The recognisers of the floating-point encodings (\<open>src/exec/floating_ops.cpp\<close>, and the two of
  \<open>src/exec/memory_ops.cpp\<close> for the floating-point loads and stores).
\<close>

definition OPCODE_FP :: u8 where "OPCODE_FP = 0x53"
definition OPCODE_FMADD :: u8 where "OPCODE_FMADD = 0x43"
definition OPCODE_FMSUB :: u8 where "OPCODE_FMSUB = 0x47"
definition OPCODE_FNMSUB :: u8 where "OPCODE_FNMSUB = 0x4B"
definition OPCODE_FNMADD :: u8 where "OPCODE_FNMADD = 0x4F"

definition is_standard_fp_load :: "insn \<Rightarrow> bool" where
  "is_standard_fp_load i \<longleftrightarrow> opcode i = 0x07 \<and> (funct3 i = 2 \<or> funct3 i = 3)"

definition is_standard_fp_store :: "insn \<Rightarrow> bool" where
  "is_standard_fp_store i \<longleftrightarrow> opcode i = 0x27 \<and> (funct3 i = 2 \<or> funct3 i = 3)"

subsection \<open>Recognisers\<close>

abbreviation fp7 :: "insn \<Rightarrow> u8 \<Rightarrow> bool" where
  "fp7 i f7 \<equiv> opcode i = OPCODE_FP \<and> funct7 i = f7"

definition is_fmv_d_x :: "insn \<Rightarrow> bool" where "is_fmv_d_x i \<longleftrightarrow> fp7 i 0x79 \<and> funct3 i = 0 \<and> rs2 i = 0"
definition is_fmv_x_d :: "insn \<Rightarrow> bool" where "is_fmv_x_d i \<longleftrightarrow> fp7 i 0x71 \<and> funct3 i = 0 \<and> rs2 i = 0"
definition is_fmv_w_x :: "insn \<Rightarrow> bool" where "is_fmv_w_x i \<longleftrightarrow> fp7 i 0x78 \<and> funct3 i = 0 \<and> rs2 i = 0"
definition is_fmv_x_w :: "insn \<Rightarrow> bool" where "is_fmv_x_w i \<longleftrightarrow> fp7 i 0x70 \<and> funct3 i = 0 \<and> rs2 i = 0"
definition is_fmv_d :: "insn \<Rightarrow> bool" where "is_fmv_d i \<longleftrightarrow> fp7 i 0x11 \<and> funct3 i = 0 \<and> rs1 i = rs2 i"
definition is_fneg_d :: "insn \<Rightarrow> bool" where "is_fneg_d i \<longleftrightarrow> fp7 i 0x11 \<and> funct3 i = 1 \<and> rs1 i = rs2 i"
definition is_fsgnj_d :: "insn \<Rightarrow> bool" where "is_fsgnj_d i \<longleftrightarrow> fp7 i 0x11 \<and> funct3 i = 0"
definition is_fsgnjn_d :: "insn \<Rightarrow> bool" where "is_fsgnjn_d i \<longleftrightarrow> fp7 i 0x11 \<and> funct3 i = 1"
definition is_fsgnjx_d :: "insn \<Rightarrow> bool" where "is_fsgnjx_d i \<longleftrightarrow> fp7 i 0x11 \<and> funct3 i = 2"
definition is_fsgnj_s :: "insn \<Rightarrow> bool" where "is_fsgnj_s i \<longleftrightarrow> fp7 i 0x10 \<and> funct3 i = 0"
definition is_fsgnjn_s :: "insn \<Rightarrow> bool" where "is_fsgnjn_s i \<longleftrightarrow> fp7 i 0x10 \<and> funct3 i = 1"
definition is_fsgnjx_s :: "insn \<Rightarrow> bool" where "is_fsgnjx_s i \<longleftrightarrow> fp7 i 0x10 \<and> funct3 i = 2"
definition is_fadd_s :: "insn \<Rightarrow> bool" where "is_fadd_s i \<longleftrightarrow> fp7 i 0x00"
definition is_fsub_s :: "insn \<Rightarrow> bool" where "is_fsub_s i \<longleftrightarrow> fp7 i 0x04"
definition is_fmul_s :: "insn \<Rightarrow> bool" where "is_fmul_s i \<longleftrightarrow> fp7 i 0x08"
definition is_fdiv_s :: "insn \<Rightarrow> bool" where "is_fdiv_s i \<longleftrightarrow> fp7 i 0x0C"
definition is_fadd_d :: "insn \<Rightarrow> bool" where "is_fadd_d i \<longleftrightarrow> fp7 i 0x01"
definition is_fsub_d :: "insn \<Rightarrow> bool" where "is_fsub_d i \<longleftrightarrow> fp7 i 0x05"
definition is_fmul_d :: "insn \<Rightarrow> bool" where "is_fmul_d i \<longleftrightarrow> fp7 i 0x09"
definition is_fdiv_d :: "insn \<Rightarrow> bool" where "is_fdiv_d i \<longleftrightarrow> fp7 i 0x0D"
definition is_fmax_d :: "insn \<Rightarrow> bool" where "is_fmax_d i \<longleftrightarrow> fp7 i 0x15 \<and> funct3 i = 1"
definition is_fmin_d :: "insn \<Rightarrow> bool" where "is_fmin_d i \<longleftrightarrow> fp7 i 0x15 \<and> funct3 i = 0"
definition is_fmax_s :: "insn \<Rightarrow> bool" where "is_fmax_s i \<longleftrightarrow> fp7 i 0x14 \<and> funct3 i = 1"
definition is_fmin_s :: "insn \<Rightarrow> bool" where "is_fmin_s i \<longleftrightarrow> fp7 i 0x14 \<and> funct3 i = 0"
definition is_fmadd_s :: "insn \<Rightarrow> bool" where "is_fmadd_s i \<longleftrightarrow> opcode i = OPCODE_FMADD \<and> funct7 i AND 0x3 = 0"
definition is_fmsub_s :: "insn \<Rightarrow> bool" where "is_fmsub_s i \<longleftrightarrow> opcode i = OPCODE_FMSUB \<and> funct7 i AND 0x3 = 0"
definition is_fnmsub_s :: "insn \<Rightarrow> bool" where "is_fnmsub_s i \<longleftrightarrow> opcode i = OPCODE_FNMSUB \<and> funct7 i AND 0x3 = 0"
definition is_fnmadd_s :: "insn \<Rightarrow> bool" where "is_fnmadd_s i \<longleftrightarrow> opcode i = OPCODE_FNMADD \<and> funct7 i AND 0x3 = 0"
definition is_fmadd_d :: "insn \<Rightarrow> bool" where "is_fmadd_d i \<longleftrightarrow> opcode i = OPCODE_FMADD \<and> funct7 i AND 0x3 = 1"
definition is_fmsub_d :: "insn \<Rightarrow> bool" where "is_fmsub_d i \<longleftrightarrow> opcode i = OPCODE_FMSUB \<and> funct7 i AND 0x3 = 1"
definition is_fnmsub_d :: "insn \<Rightarrow> bool" where "is_fnmsub_d i \<longleftrightarrow> opcode i = OPCODE_FNMSUB \<and> funct7 i AND 0x3 = 1"
definition is_fnmadd_d :: "insn \<Rightarrow> bool" where "is_fnmadd_d i \<longleftrightarrow> opcode i = OPCODE_FNMADD \<and> funct7 i AND 0x3 = 1"
definition is_fsqrt_s :: "insn \<Rightarrow> bool" where "is_fsqrt_s i \<longleftrightarrow> fp7 i 0x2C \<and> rs2 i = 0"
definition is_fsqrt_d :: "insn \<Rightarrow> bool" where "is_fsqrt_d i \<longleftrightarrow> fp7 i 0x2D \<and> rs2 i = 0"
definition is_fcvt_w_d :: "insn \<Rightarrow> bool" where "is_fcvt_w_d i \<longleftrightarrow> fp7 i 0x61 \<and> rs2 i = 0"
definition is_fcvt_wu_d :: "insn \<Rightarrow> bool" where "is_fcvt_wu_d i \<longleftrightarrow> fp7 i 0x61 \<and> rs2 i = 1"
definition is_fcvt_l_d :: "insn \<Rightarrow> bool" where "is_fcvt_l_d i \<longleftrightarrow> fp7 i 0x61 \<and> rs2 i = 2"
definition is_fcvt_lu_d :: "insn \<Rightarrow> bool" where "is_fcvt_lu_d i \<longleftrightarrow> fp7 i 0x61 \<and> rs2 i = 3"
definition is_fcvt_w_s :: "insn \<Rightarrow> bool" where "is_fcvt_w_s i \<longleftrightarrow> fp7 i 0x60 \<and> rs2 i = 0"
definition is_fcvt_wu_s :: "insn \<Rightarrow> bool" where "is_fcvt_wu_s i \<longleftrightarrow> fp7 i 0x60 \<and> rs2 i = 1"
definition is_fcvt_l_s :: "insn \<Rightarrow> bool" where "is_fcvt_l_s i \<longleftrightarrow> fp7 i 0x60 \<and> rs2 i = 2"
definition is_fcvt_lu_s :: "insn \<Rightarrow> bool" where "is_fcvt_lu_s i \<longleftrightarrow> fp7 i 0x60 \<and> rs2 i = 3"
definition is_fcvt_d_w :: "insn \<Rightarrow> bool" where "is_fcvt_d_w i \<longleftrightarrow> fp7 i 0x69 \<and> rs2 i = 0"
definition is_fcvt_d_wu :: "insn \<Rightarrow> bool" where "is_fcvt_d_wu i \<longleftrightarrow> fp7 i 0x69 \<and> rs2 i = 1"
definition is_fcvt_d_l :: "insn \<Rightarrow> bool" where "is_fcvt_d_l i \<longleftrightarrow> fp7 i 0x69 \<and> rs2 i = 2"
definition is_fcvt_d_lu :: "insn \<Rightarrow> bool" where "is_fcvt_d_lu i \<longleftrightarrow> fp7 i 0x69 \<and> rs2 i = 3"
definition is_fcvt_s_w :: "insn \<Rightarrow> bool" where "is_fcvt_s_w i \<longleftrightarrow> fp7 i 0x68 \<and> rs2 i = 0"
definition is_fcvt_s_wu :: "insn \<Rightarrow> bool" where "is_fcvt_s_wu i \<longleftrightarrow> fp7 i 0x68 \<and> rs2 i = 1"
definition is_fcvt_s_l :: "insn \<Rightarrow> bool" where "is_fcvt_s_l i \<longleftrightarrow> fp7 i 0x68 \<and> rs2 i = 2"
definition is_fcvt_s_lu :: "insn \<Rightarrow> bool" where "is_fcvt_s_lu i \<longleftrightarrow> fp7 i 0x68 \<and> rs2 i = 3"
definition is_fcvt_d_s :: "insn \<Rightarrow> bool" where "is_fcvt_d_s i \<longleftrightarrow> fp7 i 0x21 \<and> rs2 i = 1"
definition is_fcvt_s_d :: "insn \<Rightarrow> bool" where "is_fcvt_s_d i \<longleftrightarrow> fp7 i 0x20 \<and> rs2 i = 1"
definition is_fclass_s :: "insn \<Rightarrow> bool" where "is_fclass_s i \<longleftrightarrow> fp7 i 0x70 \<and> funct3 i = 1 \<and> rs2 i = 0"
definition is_fclass_d :: "insn \<Rightarrow> bool" where "is_fclass_d i \<longleftrightarrow> fp7 i 0x71 \<and> funct3 i = 1 \<and> rs2 i = 0"
definition is_feq_s :: "insn \<Rightarrow> bool" where "is_feq_s i \<longleftrightarrow> fp7 i 0x50 \<and> funct3 i = 2"
definition is_flt_s :: "insn \<Rightarrow> bool" where "is_flt_s i \<longleftrightarrow> fp7 i 0x50 \<and> funct3 i = 1"
definition is_fle_s :: "insn \<Rightarrow> bool" where "is_fle_s i \<longleftrightarrow> fp7 i 0x50 \<and> funct3 i = 0"
definition is_feq_d :: "insn \<Rightarrow> bool" where "is_feq_d i \<longleftrightarrow> fp7 i 0x51 \<and> funct3 i = 2"
definition is_flt_d :: "insn \<Rightarrow> bool" where "is_flt_d i \<longleftrightarrow> fp7 i 0x51 \<and> funct3 i = 1"
definition is_fle_d :: "insn \<Rightarrow> bool" where "is_fle_d i \<longleftrightarrow> fp7 i 0x51 \<and> funct3 i = 0"

definition floating_rs1_from_fpr :: "insn \<Rightarrow> bool" where
  "floating_rs1_from_fpr i \<longleftrightarrow>
     is_fmv_x_d i \<or> is_fmv_x_w i \<or> is_fmv_d i \<or> is_fneg_d i \<or> is_fsgnj_d i \<or> is_fsgnjn_d i
     \<or> is_fsgnjx_d i \<or> is_fsgnj_s i \<or> is_fsgnjn_s i \<or> is_fsgnjx_s i \<or> is_fadd_s i \<or>
     is_fsub_s i \<or> is_fmul_s i \<or> is_fdiv_s i \<or> is_fadd_d i \<or> is_fsub_d i \<or> is_fmul_d i
     \<or> is_fmax_d i \<or> is_fmin_d i \<or> is_fmax_s i \<or> is_fmin_s i \<or> is_fsqrt_s i \<or>
     is_fmadd_s i \<or> is_fmsub_s i \<or> is_fnmsub_s i \<or> is_fnmadd_s i \<or> is_fdiv_d i \<or>
     is_fmadd_d i \<or> is_fmsub_d i \<or> is_fnmsub_d i \<or> is_fnmadd_d i \<or> is_fsqrt_d i \<or>
     is_fcvt_w_d i \<or> is_fcvt_wu_d i \<or> is_fcvt_l_d i \<or> is_fcvt_w_s i \<or> is_fcvt_wu_s i \<or>
     is_fcvt_l_s i \<or> is_fcvt_lu_s i \<or> is_fcvt_lu_d i \<or> is_fcvt_d_s i \<or> is_fcvt_s_d i \<or>
     is_fclass_s i \<or> is_fclass_d i \<or> is_feq_s i \<or> is_flt_s i \<or> is_fle_s i \<or> is_feq_d i
     \<or> is_flt_d i \<or> is_fle_d i"

definition floating_rs2_from_fpr :: "insn \<Rightarrow> bool" where
  "floating_rs2_from_fpr i \<longleftrightarrow>
     is_standard_fp_store i \<or> is_fmv_d i \<or> is_fneg_d i \<or> is_fsgnj_d i \<or> is_fsgnjn_d i \<or>
     is_fsgnjx_d i \<or> is_fsgnj_s i \<or> is_fsgnjn_s i \<or> is_fsgnjx_s i \<or> is_fadd_s i \<or>
     is_fsub_s i \<or> is_fmul_s i \<or> is_fdiv_s i \<or> is_fadd_d i \<or> is_fsub_d i \<or> is_fmax_d i
     \<or> is_fmin_d i \<or> is_fmax_s i \<or> is_fmin_s i \<or> is_fmadd_s i \<or> is_fmsub_s i \<or>
     is_fnmsub_s i \<or> is_fnmadd_s i \<or> is_fmul_d i \<or> is_fdiv_d i \<or> is_fmadd_d i \<or> is_fmsub_d
     i \<or> is_fnmsub_d i \<or> is_fnmadd_d i \<or> is_feq_s i \<or> is_flt_s i \<or> is_fle_s i \<or>
     is_feq_d i \<or> is_flt_d i \<or> is_fle_d i"

definition floating_rs3_from_fpr :: "insn \<Rightarrow> bool" where
  "floating_rs3_from_fpr i \<longleftrightarrow>
     is_fmadd_s i \<or> is_fmsub_s i \<or> is_fnmsub_s i \<or> is_fnmadd_s i \<or> is_fmadd_d i \<or>
     is_fmsub_d i \<or> is_fnmsub_d i \<or> is_fnmadd_d i"

lemmas fp_recognisers =
  is_fmv_d_x_def is_fmv_x_d_def is_fmv_w_x_def is_fmv_x_w_def is_fmv_d_def is_fneg_d_def is_fsgnj_d_def
  is_fsgnjn_d_def is_fsgnjx_d_def is_fsgnj_s_def is_fsgnjn_s_def is_fsgnjx_s_def is_fadd_s_def
  is_fsub_s_def is_fmul_s_def is_fdiv_s_def is_fadd_d_def is_fsub_d_def is_fmul_d_def is_fdiv_d_def
  is_fmax_d_def is_fmin_d_def is_fmax_s_def is_fmin_s_def is_fmadd_s_def is_fmsub_s_def is_fnmsub_s_def
  is_fnmadd_s_def is_fmadd_d_def is_fmsub_d_def is_fnmsub_d_def is_fnmadd_d_def is_fsqrt_s_def
  is_fsqrt_d_def is_fcvt_w_d_def is_fcvt_wu_d_def is_fcvt_l_d_def is_fcvt_lu_d_def is_fcvt_w_s_def
  is_fcvt_wu_s_def is_fcvt_l_s_def is_fcvt_lu_s_def is_fcvt_d_w_def is_fcvt_d_wu_def is_fcvt_d_l_def
  is_fcvt_d_lu_def is_fcvt_s_w_def is_fcvt_s_wu_def is_fcvt_s_l_def is_fcvt_s_lu_def is_fcvt_d_s_def
  is_fcvt_s_d_def is_fclass_s_def is_fclass_d_def is_feq_s_def is_flt_s_def is_fle_s_def is_feq_d_def
  is_flt_d_def is_fle_d_def

end
