(* ===== verification/MemoryOps.thy ===== *)
theory MemoryOps
  imports FloatingOps
begin

text \<open>
  Scalar loads and stores (\<open>src/exec/memory_ops.cpp\<close>) and the descriptions of memory and atomic
  instructions (\<open>describe_memory\<close> and \<open>describe_atomic\<close> of \<open>src/isa/instruction_semantics.cpp\<close>).
\<close>

definition extend_loaded_value :: "u64 \<Rightarrow> int \<Rightarrow> bool \<Rightarrow> u64" where
  "extend_loaded_value v n sign =
     (if \<not> sign then
        (if n = 1 then ucast (ucast v :: u8) else if n = 2 then ucast (ucast v :: u16)
         else if n = 4 then ucast (ucast v :: u32) else v)
      else if n = 1 then scast (ucast v :: u8) else if n = 2 then scast (ucast v :: u16)
      else if n = 4 then scast (ucast v :: u32) else v)"

subsection \<open>Descriptions\<close>

record memory_descriptor =
  md_valid :: bool
  md_kind :: mem_kind
  md_target :: mem_target
  md_size :: int
  md_sign_extend :: bool
  md_commit_at_boundary :: bool
  md_non_speculative :: bool

definition no_memory_descriptor :: memory_descriptor where
  "no_memory_descriptor = \<lparr>md_valid = False, md_kind = Mem_None, md_target = Target_Integer, md_size = 0,
     md_sign_extend = False, md_commit_at_boundary = False, md_non_speculative = False\<rparr>"

definition set_load :: "mem_target \<Rightarrow> int \<Rightarrow> bool \<Rightarrow> memory_descriptor" where
  "set_load target n sign = no_memory_descriptor\<lparr>md_valid := True, md_kind := Mem_Load, md_target := target,
     md_size := n, md_sign_extend := sign\<rparr>"

definition set_store :: "mem_target \<Rightarrow> int \<Rightarrow> memory_descriptor" where
  "set_store target n = no_memory_descriptor\<lparr>md_valid := True, md_kind := Mem_Store, md_target := target,
     md_size := n, md_commit_at_boundary := True, md_non_speculative := True\<rparr>"

definition describe_memory :: "insn \<Rightarrow> memory_descriptor" where
  "describe_memory i =
     (let f3 = funct3 i in
      if opcode i = 0x03 then
        (if f3 = 0 then set_load Target_Integer 1 True
         else if f3 = 1 then set_load Target_Integer 2 True
         else if f3 = 2 then set_load Target_Integer 4 True
         else if f3 = 3 then set_load Target_Integer 8 False
         else if f3 = 4 then set_load Target_Integer 1 False
         else if f3 = 5 then set_load Target_Integer 2 False
         else if f3 = 6 then set_load Target_Integer 4 False
         else no_memory_descriptor)
      else if opcode i = 0x07 then
        (if is_standard_fp_load i then set_load Target_Float (if f3 = 3 then 8 else 4) False else no_memory_descriptor)
      else if opcode i = 0x23 then
        (if f3 = 0 then set_store Target_Integer 1
         else if f3 = 1 then set_store Target_Integer 2
         else if f3 = 2 then set_store Target_Integer 4
         else if f3 = 3 then set_store Target_Integer 8
         else no_memory_descriptor)
      else if opcode i = 0x27 then
        (if is_standard_fp_store i then set_store Target_Float (if f3 = 3 then 8 else 4) else no_memory_descriptor)
      else no_memory_descriptor)"

subsection \<open>Effects\<close>

definition build_memory_effects :: "insn \<Rightarrow> u64 \<Rightarrow> u64 \<Rightarrow> u64 \<Rightarrow> insn_effects" where
  "build_memory_effects i rs1v rs2v im =
     (let d = describe_memory i in
      if \<not> md_valid d then illegal_instruction_effect (insn_raw i)
      else no_effects
        \<lparr>eff_mem := no_memory
           \<lparr>mq_addr := rs1v + im, mq_kind := md_kind d, mq_target := md_target d, mq_size := md_size d,
            mq_sign_extend := md_sign_extend d, mq_commit_at_boundary := md_commit_at_boundary d,
            mq_non_speculative := md_non_speculative d,
            mq_rd := (if md_kind d = Mem_Load then rd i else 0),
            mq_store_value := (if md_kind d = Mem_Store then rs2v else 0)\<rparr>,
         eff_floating_touched := (md_target d = Target_Float)\<rparr>)"

text \<open>A scalar access is of 1, 2, 4 or 8 bytes.\<close>

lemma describe_memory_size: "md_valid (describe_memory i) \<Longrightarrow> md_size (describe_memory i) \<in> {1, 2, 4, 8}"
  by (auto simp: describe_memory_def Let_def set_load_def set_store_def no_memory_descriptor_def split: if_splits)

lemma memory_effects_simps:
  "md_valid (describe_memory i) \<Longrightarrow> mq_size (eff_mem (build_memory_effects i a b im)) = md_size (describe_memory i)"
  "eff_atomic (build_memory_effects i a b im) = no_atomic" "eff_vector (build_memory_effects i a b im) = no_vector"
  "eff_control (build_memory_effects i a b im) = no_control" "eff_csr (build_memory_effects i a b im) = no_csr_write"
  "tr_valid (eff_trap (build_memory_effects i a b im)) \<Longrightarrow>
     build_memory_effects i a b im = illegal_instruction_effect (insn_raw i)"
  by (auto simp: build_memory_effects_def Let_def illegal_instruction_effect_def split: if_splits)

end
