(* ===== verification/FloatingEffects.thy ===== *)
theory FloatingEffects
  imports FloatingOps
begin

text \<open>
  The effects of the floating-point instructions (\<open>src/exec/floating_ops.cpp\<close>): encodings, choice of the
  rounding mode, boxing, NaN rules, comparison, classification, sign operations and the accrued flags.
  The rounded arithmetic, which the code does in the host's \<open>float\<close>, \<open>double\<close> and \<open>long double\<close> under the
  host's rounding modes (the bodies of \<open>compute_*_result\<close>), is the parameter \<open>host_fp\<close>: an operation, a
  rounding mode 0 to 4 and operand bits to result bits and flags.  Theorems hold for every such function.
  Setting the host's rounding mode does not fail.
\<close>

datatype fp_binary = Fp_Add | Fp_Sub | Fp_Mul | Fp_Div
datatype fp_ternary = Fp_Madd | Fp_Msub | Fp_Nmsub | Fp_Nmadd
datatype fp_compare = Fp_Eq | Fp_Lt | Fp_Le
datatype fp_integer = Fp_W | Fp_Wu | Fp_L | Fp_Lu

record host_fp =
  hf_binary_s :: "fp_binary \<Rightarrow> u64 \<Rightarrow> u32 \<Rightarrow> u32 \<Rightarrow> u32 \<times> u64"
  hf_binary_d :: "fp_binary \<Rightarrow> u64 \<Rightarrow> u64 \<Rightarrow> u64 \<Rightarrow> u64 \<times> u64"
  hf_sqrt_s :: "u64 \<Rightarrow> u32 \<Rightarrow> u32 \<times> u64"
  hf_sqrt_d :: "u64 \<Rightarrow> u64 \<Rightarrow> u64 \<times> u64"
  hf_ternary_s :: "fp_ternary \<Rightarrow> u64 \<Rightarrow> u32 \<Rightarrow> u32 \<Rightarrow> u32 \<Rightarrow> u32 \<times> u64"
  hf_ternary_d :: "fp_ternary \<Rightarrow> u64 \<Rightarrow> u64 \<Rightarrow> u64 \<Rightarrow> u64 \<Rightarrow> u64 \<times> u64"
  hf_from_integer_s :: "fp_integer \<Rightarrow> u64 \<Rightarrow> u64 \<Rightarrow> u32 \<times> u64"
  hf_from_integer_d :: "fp_integer \<Rightarrow> u64 \<Rightarrow> u64 \<Rightarrow> u64 \<times> u64"
  hf_to_integer_s :: "fp_integer \<Rightarrow> u64 \<Rightarrow> u32 \<Rightarrow> u64 \<times> u64"
  hf_to_integer_d :: "fp_integer \<Rightarrow> u64 \<Rightarrow> u64 \<Rightarrow> u64 \<times> u64"
  hf_narrow :: "u64 \<Rightarrow> u64 \<Rightarrow> u32 \<times> u64"
  hf_widen :: "u32 \<Rightarrow> u64"
  hf_compare_s :: "fp_compare \<Rightarrow> u32 \<Rightarrow> u32 \<Rightarrow> bool"
  hf_compare_d :: "fp_compare \<Rightarrow> u64 \<Rightarrow> u64 \<Rightarrow> bool"
  hf_max_s :: "u32 \<Rightarrow> u32 \<Rightarrow> u32"
  hf_min_s :: "u32 \<Rightarrow> u32 \<Rightarrow> u32"
  hf_max_d :: "u64 \<Rightarrow> u64 \<Rightarrow> u64"
  hf_min_d :: "u64 \<Rightarrow> u64 \<Rightarrow> u64"

definition FCSR_FLAG_NV :: u64 where "FCSR_FLAG_NV = push_bit 4 1"

subsection \<open>Bit patterns\<close>

definition box_single_result :: "u32 \<Rightarrow> u64" where
  "box_single_result v = 0xFFFFFFFF00000000 OR ucast v"

definition is_single_nan_bits :: "u64 \<Rightarrow> bool" where
  "is_single_nan_bits bits \<longleftrightarrow>
     (let raw = ucast bits :: u32 in raw AND 0x7F800000 = 0x7F800000 \<and> raw AND 0x007FFFFF \<noteq> 0)"

definition is_double_nan_bits :: "u64 \<Rightarrow> bool" where
  "is_double_nan_bits bits \<longleftrightarrow>
     bits AND 0x7FF0000000000000 = 0x7FF0000000000000 \<and> bits AND 0x000FFFFFFFFFFFFF \<noteq> 0"

definition is_single_signaling_nan_bits :: "u64 \<Rightarrow> bool" where
  "is_single_signaling_nan_bits bits \<longleftrightarrow> is_single_nan_bits bits \<and> (ucast bits :: u32) AND 0x00400000 = 0"

definition is_double_signaling_nan_bits :: "u64 \<Rightarrow> bool" where
  "is_double_signaling_nan_bits bits \<longleftrightarrow> is_double_nan_bits bits \<and> bits AND 0x0008000000000000 = 0"

definition canonical_single_nan_bits :: u64 where "canonical_single_nan_bits = 0xFFFFFFFF7FC00000"
definition canonical_double_nan_bits :: u64 where "canonical_double_nan_bits = 0x7FF8000000000000"

text \<open>\<open>std::isnan\<close>, \<open>std::isinf\<close>, \<open>std::signbit\<close> and \<open>std::fpclassify\<close> on the IEEE formats.\<close>

definition classify_single :: "u32 \<Rightarrow> u64" where
  "classify_single v =
     (let e = v AND 0x7F800000; m = v AND 0x007FFFFF; negative = (v AND 0x80000000 \<noteq> 0) in
      if e = 0x7F800000 \<and> m \<noteq> 0 then (if v AND push_bit 22 1 \<noteq> 0 then push_bit 9 1 else push_bit 8 1)
      else if e = 0x7F800000 then (if negative then push_bit 0 1 else push_bit 7 1)
      else if e = 0 \<and> m = 0 then (if negative then push_bit 3 1 else push_bit 4 1)
      else if e = 0 then (if negative then push_bit 2 1 else push_bit 5 1)
      else if negative then push_bit 1 1 else push_bit 6 1)"

definition classify_double :: "u64 \<Rightarrow> u64" where
  "classify_double v =
     (let e = v AND 0x7FF0000000000000; m = v AND 0x000FFFFFFFFFFFFF; negative = (v AND 0x8000000000000000 \<noteq> 0) in
      if e = 0x7FF0000000000000 \<and> m \<noteq> 0 then (if v AND push_bit 51 1 \<noteq> 0 then push_bit 9 1 else push_bit 8 1)
      else if e = 0x7FF0000000000000 then (if negative then push_bit 0 1 else push_bit 7 1)
      else if e = 0 \<and> m = 0 then (if negative then push_bit 3 1 else push_bit 4 1)
      else if e = 0 then (if negative then push_bit 2 1 else push_bit 5 1)
      else if negative then push_bit 1 1 else push_bit 6 1)"

definition resolve_rounding_mode :: "insn \<Rightarrow> u64 \<Rightarrow> u64 option" where
  "resolve_rounding_mode i frm =
     (let encoded_rm = ucast (funct3 i) :: u64 in
      if encoded_rm = 7 then (if frm > 4 then None else Some frm)
      else if encoded_rm > 4 then None
      else Some encoded_rm)"

definition update_fcsr_flags :: "u64 \<Rightarrow> u64 \<Rightarrow> u64" where
  "update_fcsr_flags current_fcsr exception_flags =
     (current_fcsr AND NOT FCSR_FFLAGS_MASK) OR ((current_fcsr OR exception_flags) AND FCSR_FFLAGS_MASK)"

subsection \<open>Comparisons, minimum and maximum\<close>

definition compare_single_result_bits :: "host_fp \<Rightarrow> insn \<Rightarrow> u64 \<Rightarrow> u64 \<Rightarrow> u64 \<times> u64" where
  "compare_single_result_bits hf i a b =
     (if is_single_nan_bits a \<or> is_single_nan_bits b then
        (0, if is_feq_s i then
              (if is_single_signaling_nan_bits a \<or> is_single_signaling_nan_bits b then FCSR_FLAG_NV else 0)
            else FCSR_FLAG_NV)
      else
        (let op = (if is_feq_s i then Fp_Eq else if is_flt_s i then Fp_Lt else Fp_Le) in
         (if hf_compare_s hf op (ucast a) (ucast b) then 1 else 0, 0)))"

definition compare_double_result_bits :: "host_fp \<Rightarrow> insn \<Rightarrow> u64 \<Rightarrow> u64 \<Rightarrow> u64 \<times> u64" where
  "compare_double_result_bits hf i a b =
     (if is_double_nan_bits a \<or> is_double_nan_bits b then
        (0, if is_feq_d i then
              (if is_double_signaling_nan_bits a \<or> is_double_signaling_nan_bits b then FCSR_FLAG_NV else 0)
            else FCSR_FLAG_NV)
      else
        (let op = (if is_feq_d i then Fp_Eq else if is_flt_d i then Fp_Lt else Fp_Le) in
         (if hf_compare_d hf op a b then 1 else 0, 0)))"

definition minmax_single_result_bits :: "host_fp \<Rightarrow> insn \<Rightarrow> u64 \<Rightarrow> u64 \<Rightarrow> u64 \<times> u64" where
  "minmax_single_result_bits hf i a b =
     (let flags = (if is_single_signaling_nan_bits a \<or> is_single_signaling_nan_bits b then FCSR_FLAG_NV else 0) in
      if is_single_nan_bits a \<and> is_single_nan_bits b then (canonical_single_nan_bits, flags)
      else if is_single_nan_bits a then (b, flags)
      else if is_single_nan_bits b then (a, flags)
      else (box_single_result (if is_fmax_s i then hf_max_s hf (ucast a) (ucast b) else hf_min_s hf (ucast a) (ucast b)),
            flags))"

definition minmax_double_result_bits :: "host_fp \<Rightarrow> insn \<Rightarrow> u64 \<Rightarrow> u64 \<Rightarrow> u64 \<times> u64" where
  "minmax_double_result_bits hf i a b =
     (let flags = (if is_double_signaling_nan_bits a \<or> is_double_signaling_nan_bits b then FCSR_FLAG_NV else 0) in
      if is_double_nan_bits a \<and> is_double_nan_bits b then (canonical_double_nan_bits, flags)
      else if is_double_nan_bits a then (b, flags)
      else if is_double_nan_bits b then (a, flags)
      else (if is_fmax_d i then hf_max_d hf a b else hf_min_d hf a b, flags))"

subsection \<open>Effects\<close>

definition boxed :: "u32 \<times> u64 \<Rightarrow> u64 \<times> u64" where
  "boxed r = (box_single_result (fst r), snd r)"

definition rounded :: "insn \<Rightarrow> u64 \<Rightarrow> (u64 \<Rightarrow> u64 \<times> u64) \<Rightarrow> (u64 \<times> u64) option" where
  "rounded i fcsr op = map_option op (resolve_rounding_mode i (drop_bit 5 (fcsr AND FCSR_FRM_MASK)))"

definition fp_flags :: "u64 \<Rightarrow> u64 \<Rightarrow> insn_effects \<Rightarrow> insn_effects" where
  "fp_flags fcsr flags e =
     (if flags \<noteq> 0
      then e\<lparr>eff_csr := \<lparr>cw_enable = True, cw_addr = CSR_FCSR, cw_value = update_fcsr_flags fcsr flags\<rparr>\<rparr>
      else e)"

definition fp_touched :: insn_effects where
  "fp_touched = no_effects\<lparr>eff_floating_touched := True\<rparr>"

definition fp_to_fpr :: "insn \<Rightarrow> u64 \<Rightarrow> u64 \<times> u64 \<Rightarrow> insn_effects" where
  "fp_to_fpr i fcsr r =
     fp_flags fcsr (snd r) (fp_touched\<lparr>eff_fp := \<lparr>rw_enable = True, rw_rd = rd i, rw_value = fst r\<rparr>\<rparr>)"

definition fp_to_gpr :: "insn \<Rightarrow> u64 \<Rightarrow> u64 \<times> u64 \<Rightarrow> insn_effects" where
  "fp_to_gpr i fcsr r = fp_flags fcsr (snd r) (set_rd fp_touched (rd i) (fst r))"

definition or_illegal :: "insn \<Rightarrow> ('r \<Rightarrow> insn_effects) \<Rightarrow> 'r option \<Rightarrow> insn_effects" where
  "or_illegal i k r = (case r of None \<Rightarrow> illegal_instruction_effect (insn_raw i) | Some x \<Rightarrow> k x)"

definition fp_integer_of :: "insn \<Rightarrow> fp_integer option" where
  "fp_integer_of i =
     (if rs2 i = 0 then Some Fp_W else if rs2 i = 1 then Some Fp_Wu
      else if rs2 i = 2 then Some Fp_L else if rs2 i = 3 then Some Fp_Lu else None)"

definition sign_d :: u64 where "sign_d = push_bit 63 1"
definition sign_s :: u64 where "sign_s = push_bit 31 1"

definition fma_effects :: "host_fp \<Rightarrow> insn \<Rightarrow> u64 \<Rightarrow> u64 \<Rightarrow> u64 \<Rightarrow> u64 \<Rightarrow> insn_effects option" where
  "fma_effects hf i a b c fcsr =
     (let single = (\<lambda>op. or_illegal i (fp_to_fpr i fcsr)
            (rounded i fcsr (\<lambda>rm. boxed (hf_ternary_s hf op rm (ucast a) (ucast b) (ucast c)))));
          double = (\<lambda>op. or_illegal i (fp_to_fpr i fcsr) (rounded i fcsr (\<lambda>rm. hf_ternary_d hf op rm a b c))) in
      if is_fmadd_s i then Some (single Fp_Madd)
      else if is_fmsub_s i then Some (single Fp_Msub)
      else if is_fnmsub_s i then Some (single Fp_Nmsub)
      else if is_fnmadd_s i then Some (single Fp_Nmadd)
      else if is_fmadd_d i then Some (double Fp_Madd)
      else if is_fmsub_d i then Some (double Fp_Msub)
      else if is_fnmsub_d i then Some (double Fp_Nmsub)
      else if is_fnmadd_d i then Some (double Fp_Nmadd)
      else None)"

text \<open>The \<open>switch\<close> on \<open>funct7\<close>.\<close>

definition fp_dispatch :: "host_fp \<Rightarrow> insn \<Rightarrow> u64 \<Rightarrow> u64 \<Rightarrow> u64 \<Rightarrow> insn_effects" where
  "fp_dispatch hf i a b fcsr =
     (let illegal = illegal_instruction_effect (insn_raw i); f7 = funct7 i;
          single = (\<lambda>op. or_illegal i (fp_to_fpr i fcsr) (rounded i fcsr (\<lambda>rm. boxed (op rm))));
          double = (\<lambda>op. or_illegal i (fp_to_fpr i fcsr) (rounded i fcsr op));
          integer = (\<lambda>op. or_illegal i (fp_to_gpr i fcsr) (rounded i fcsr op));
          move = (\<lambda>v. fp_to_fpr i fcsr (v, 0)); move_x = (\<lambda>v. fp_to_gpr i fcsr (v, 0)) in
      if f7 = 0x50 then
        (if is_feq_s i \<or> is_flt_s i \<or> is_fle_s i then fp_to_gpr i fcsr (compare_single_result_bits hf i a b) else illegal)
      else if f7 = 0x51 then
        (if is_feq_d i \<or> is_flt_d i \<or> is_fle_d i then fp_to_gpr i fcsr (compare_double_result_bits hf i a b) else illegal)
      else if f7 = 0x00 then single (\<lambda>rm. hf_binary_s hf Fp_Add rm (ucast a) (ucast b))
      else if f7 = 0x01 then double (\<lambda>rm. hf_binary_d hf Fp_Add rm a b)
      else if f7 = 0x04 then single (\<lambda>rm. hf_binary_s hf Fp_Sub rm (ucast a) (ucast b))
      else if f7 = 0x05 then double (\<lambda>rm. hf_binary_d hf Fp_Sub rm a b)
      else if f7 = 0x08 then single (\<lambda>rm. hf_binary_s hf Fp_Mul rm (ucast a) (ucast b))
      else if f7 = 0x09 then double (\<lambda>rm. hf_binary_d hf Fp_Mul rm a b)
      else if f7 = 0x0C then single (\<lambda>rm. hf_binary_s hf Fp_Div rm (ucast a) (ucast b))
      else if f7 = 0x0D then double (\<lambda>rm. hf_binary_d hf Fp_Div rm a b)
      else if f7 = 0x15 then
        (if is_fmax_d i \<or> is_fmin_d i then fp_to_fpr i fcsr (minmax_double_result_bits hf i a b) else illegal)
      else if f7 = 0x14 then
        (if is_fmax_s i \<or> is_fmin_s i then fp_to_fpr i fcsr (minmax_single_result_bits hf i a b) else illegal)
      else if f7 = 0x2C then (if is_fsqrt_s i then single (\<lambda>rm. hf_sqrt_s hf rm (ucast a)) else illegal)
      else if f7 = 0x2D then (if is_fsqrt_d i then double (\<lambda>rm. hf_sqrt_d hf rm a) else illegal)
      else if f7 = 0x68 then
        (case fp_integer_of i of None \<Rightarrow> illegal | Some k \<Rightarrow> single (\<lambda>rm. hf_from_integer_s hf k rm a))
      else if f7 = 0x20 then (if is_fcvt_s_d i then single (\<lambda>rm. hf_narrow hf rm a) else illegal)
      else if f7 = 0x70 then
        (if is_fmv_x_w i then move_x (scast (ucast a :: u32))
         else if is_fclass_s i then move_x (classify_single (ucast a)) else illegal)
      else if f7 = 0x21 then (if is_fcvt_d_s i then move (hf_widen hf (ucast a)) else illegal)
      else if f7 = 0x60 then
        (case fp_integer_of i of None \<Rightarrow> illegal | Some k \<Rightarrow> integer (\<lambda>rm. hf_to_integer_s hf k rm (ucast a)))
      else if f7 = 0x61 then
        (case fp_integer_of i of None \<Rightarrow> illegal | Some k \<Rightarrow> integer (\<lambda>rm. hf_to_integer_d hf k rm a))
      else if f7 = 0x11 then
        (if funct3 i \<noteq> 0 \<and> funct3 i \<noteq> 1 \<and> funct3 i \<noteq> 2 then illegal
         else if is_fmv_d i then move a
         else if is_fneg_d i \<or> is_fsgnjn_d i then move ((a AND NOT sign_d) OR ((b XOR sign_d) AND sign_d))
         else if is_fsgnjx_d i then move (a XOR (b AND sign_d))
         else move ((a AND NOT sign_d) OR (b AND sign_d)))
      else if f7 = 0x10 then
        (if \<not> is_fsgnj_s i \<and> \<not> is_fsgnjn_s i \<and> \<not> is_fsgnjx_s i then illegal
         else if is_fsgnjn_s i then move ((a AND NOT sign_s) OR ((b XOR sign_s) AND sign_s))
         else if is_fsgnjx_s i then move (a XOR (b AND sign_s))
         else move ((a AND NOT sign_s) OR (b AND sign_s)))
      else if f7 = 0x69 then
        (case fp_integer_of i of None \<Rightarrow> illegal | Some k \<Rightarrow> double (\<lambda>rm. hf_from_integer_d hf k rm a))
      else if f7 = 0x78 then (if is_fmv_w_x i then move (0xFFFFFFFF00000000 OR (a AND 0xFFFFFFFF)) else illegal)
      else if f7 = 0x79 then (if funct3 i \<noteq> 0 \<or> rs2 i \<noteq> 0 then illegal else move a)
      else if f7 = 0x71 then
        (if is_fclass_d i then move_x (classify_double a)
         else if funct3 i \<noteq> 0 \<or> rs2 i \<noteq> 0 then illegal else move_x a)
      else illegal)"

definition build_floating_effects :: "host_fp \<Rightarrow> insn \<Rightarrow> u64 \<Rightarrow> u64 \<Rightarrow> u64 \<Rightarrow> u64 \<Rightarrow> insn_effects" where
  "build_floating_effects hf i a b c fcsr =
     (if opcode i \<noteq> OPCODE_FP \<and> opcode i \<noteq> OPCODE_FMADD \<and> opcode i \<noteq> OPCODE_FMSUB \<and>
         opcode i \<noteq> OPCODE_FNMSUB \<and> opcode i \<noteq> OPCODE_FNMADD
      then illegal_instruction_effect (insn_raw i)
      else case fma_effects hf i a b c fcsr of Some e \<Rightarrow> e | None \<Rightarrow> fp_dispatch hf i a b fcsr)"

subsection \<open>What a floating-point instruction can ask for\<close>

text \<open>An illegal-instruction trap; or a result in one register, and at most the sticky flags of \<open>fcsr\<close>.\<close>

definition fp_contained :: "insn_effects \<Rightarrow> bool" where
  "fp_contained e \<longleftrightarrow> eff_mem e = no_memory \<and> eff_atomic e = no_atomic \<and> eff_vector e = no_vector \<and>
     eff_control e = no_control \<and> (cw_enable (eff_csr e) \<longrightarrow> cw_addr (eff_csr e) = CSR_FCSR) \<and>
     (tr_valid (eff_trap e) \<longrightarrow> tr_cause (eff_trap e) = CAUSE_ILLEGAL_INSN)"

lemma contained_illegal: "fp_contained (illegal_instruction_effect raw)"
  by (simp add: fp_contained_def illegal_instruction_effect_def illegal_instruction_trap_def)

lemma contained_fpr: "fp_contained (fp_to_fpr i fcsr r)"
  by (simp add: fp_contained_def fp_to_fpr_def fp_flags_def fp_touched_def)

lemma contained_gpr: "fp_contained (fp_to_gpr i fcsr r)"
  by (simp add: fp_contained_def fp_to_gpr_def fp_flags_def fp_touched_def)

lemma contained_or: "(\<And>x. fp_contained (k x)) \<Longrightarrow> fp_contained (or_illegal i k r)"
  by (simp add: or_illegal_def contained_illegal split: option.split)

lemma contained_if: "fp_contained x \<Longrightarrow> fp_contained y \<Longrightarrow> fp_contained (if c then x else y)"
  by simp

lemma contained_case:
  "fp_contained x \<Longrightarrow> (\<And>k. fp_contained (f k)) \<Longrightarrow> fp_contained (case z of None \<Rightarrow> x | Some k \<Rightarrow> f k)"
  by (simp split: option.split)

lemmas containeds = contained_illegal contained_fpr contained_gpr contained_or

lemma fma_contained: "fma_effects hf i a b c fcsr = Some e \<Longrightarrow> fp_contained e"
  by (auto simp: fma_effects_def Let_def containeds split: if_splits)

lemma dispatch_contained: "fp_contained (fp_dispatch hf i a b fcsr)"
  unfolding fp_dispatch_def Let_def by (intro contained_if contained_case containeds)

lemma floating_contained: "fp_contained (build_floating_effects hf i a b c fcsr)"
  unfolding build_floating_effects_def
  by (simp add: contained_illegal dispatch_contained fma_contained split: option.split)

end
