(* ===== verification/HostMemory.thy ===== *)
theory HostMemory
  imports Prelude
begin

text \<open>
  The simulator's flat guest RAM (\<open>src/myCPU/src/memory.c\<close>): a block of \<open>MEM_SIZE\<close> bytes that
  appears at the guest physical address \<open>MEM_BASE\<close>.  Scalar reads and writes outside it are
  reported on stderr (not modelled) and have no effect; bulk writes outside it end the
  simulator, which is the result \<open>None\<close> here.  The host is little-endian.
\<close>

definition MEM_BASE :: u64 where "MEM_BASE = 0x80000000"
definition MEM_SIZE :: u64 where "MEM_SIZE = 128 * 1024 * 1024"

lemma unat_MEM [simp]: "unat MEM_BASE = 0x80000000" "unat MEM_SIZE = 0x8000000"
  by (simp_all add: MEM_BASE_def MEM_SIZE_def)

record memory =
  mem_data :: "u8 carray"

definition mem_range_valid :: "u64 \<Rightarrow> u64 \<Rightarrow> bool" where
  "mem_range_valid addr len =
     (if addr < MEM_BASE then False
      else let offset = addr - MEM_BASE in
        if offset > MEM_SIZE then False else len \<le> MEM_SIZE - offset)"

definition mem_init :: "memory \<Rightarrow> memory" where
  "mem_init mem = mem\<lparr>mem_data := (\<lambda>_. 0)\<rparr>"

definition mem_read :: "memory \<Rightarrow> u64 \<Rightarrow> int \<Rightarrow> u64" where
  "mem_read mem addr len =
     (if \<not> mem_range_valid addr (word_of_int len) then 0
      else let off = addr - MEM_BASE in
        from_le (arr_read (mem_data mem) (unat off) (nat len)))"

definition mem_write :: "memory \<Rightarrow> u64 \<Rightarrow> u64 \<Rightarrow> int \<Rightarrow> memory" where
  "mem_write mem addr val len =
     (if \<not> mem_range_valid addr (word_of_int len) then mem
      else let off = addr - MEM_BASE in
        mem\<lparr>mem_data := arr_write (mem_data mem) (unat off) (to_le (nat len) val)\<rparr>)"

definition mem_write_range :: "memory \<Rightarrow> u64 \<Rightarrow> u8 list \<Rightarrow> memory option" where
  "mem_write_range mem addr data =
     (if \<not> mem_range_valid addr (of_nat (length data)) then None
      else Some (mem\<lparr>mem_data := arr_write (mem_data mem) (unat (addr - MEM_BASE)) data\<rparr>))"

definition mem_fill_range :: "memory \<Rightarrow> u64 \<Rightarrow> u8 \<Rightarrow> u64 \<Rightarrow> memory option" where
  "mem_fill_range mem addr value len =
     (if \<not> mem_range_valid addr len then None
      else Some (mem\<lparr>mem_data := arr_write (mem_data mem) (unat (addr - MEM_BASE))
                                     (replicate (unat len) value)\<rparr>))"

subsection \<open>The range check\<close>

lemma mem_range_valid_nat:
  "mem_range_valid addr len \<longleftrightarrow>
     unat MEM_BASE \<le> unat addr \<and> unat addr + unat len \<le> unat MEM_BASE + unat MEM_SIZE"
proof (cases "addr < MEM_BASE")
  case True
  then show ?thesis by (simp add: mem_range_valid_def word_less_nat_alt)
next
  case False
  then have ge: "MEM_BASE \<le> addr" by simp
  then have off: "unat (addr - MEM_BASE) = unat addr - unat MEM_BASE"
    by (simp add: unat_sub)
  show ?thesis
  proof (cases "addr - MEM_BASE > MEM_SIZE")
    case True
    then show ?thesis
      using False off by (simp add: mem_range_valid_def word_less_nat_alt)
  next
    case le: False
    then have "unat (MEM_SIZE - (addr - MEM_BASE)) = unat MEM_SIZE - unat (addr - MEM_BASE)"
      by (simp add: unat_sub)
    then show ?thesis
      using False le off ge
      by (auto simp: mem_range_valid_def word_le_nat_alt word_less_nat_alt Let_def)
  qed
qed

definition mem_in_ram :: "u64 \<Rightarrow> nat \<Rightarrow> bool" where
  "mem_in_ram addr n \<longleftrightarrow> unat MEM_BASE \<le> unat addr \<and> unat addr + n \<le> unat MEM_BASE + unat MEM_SIZE"

text \<open>C28: the range check of every host access is exact: the subtraction form of the test
  accepts precisely the ranges that lie inside guest RAM, also where the end would wrap around
  the 64-bit address space.  A bulk write outside RAM ends the simulator, a scalar read outside
  it gives 0 and a scalar write outside it changes nothing.\<close>

theorem mem_bounds:
  assumes "length data < 2 ^ 64"
  shows "(mem_write_range m addr data \<noteq> None \<longleftrightarrow> mem_in_ram addr (length data)) \<and>
         (mem_fill_range m addr c n \<noteq> None \<longleftrightarrow> mem_in_ram addr (unat n)) \<and>
         (\<not> mem_in_ram addr (unat (word_of_int k :: u64)) \<longrightarrow>
            mem_read m addr k = 0 \<and> mem_write m addr v k = m)"
  using assms
  by (simp add: mem_write_range_def mem_fill_range_def mem_read_def mem_write_def
      mem_range_valid_nat mem_in_ram_def unat_of_nat_small)

theorem mem_bounds_witness:
  "mem_write_range \<lparr>mem_data = \<lambda>_. 7\<rparr> 0x87FFFFFE [1, 2] \<noteq> None \<and>
   mem_write_range \<lparr>mem_data = \<lambda>_. 7\<rparr> 0x87FFFFFF [1, 2] = None \<and>
   mem_read \<lparr>mem_data = \<lambda>_. 7\<rparr> 0xFFFFFFFFFFFFFFFF 8 = 0"
  using mem_bounds [of "[1, 2]" "\<lparr>mem_data = \<lambda>_. 7\<rparr>" "0x87FFFFFE" 0 0 8 0]
    mem_bounds [of "[1, 2]" "\<lparr>mem_data = \<lambda>_. 7\<rparr>" "0x87FFFFFF" 0 0 8 0]
    mem_bounds [of "[]" "\<lparr>mem_data = \<lambda>_. 7\<rparr>" "0xFFFFFFFFFFFFFFFF" 0 0 8 0]
  by (simp add: mem_in_ram_def)

text \<open>A scalar access of at most eight bytes behaves as little-endian memory: reading back
  what was written gives the value cut to its size, and a read of any disjoint range is not
  affected by the write.\<close>

theorem mem_read_write:
  assumes "mem_range_valid a (word_of_int n)" "mem_range_valid b (word_of_int k)"
    and "unat b + nat k \<le> unat a \<or> unat a + nat n \<le> unat b"
  shows "mem_read (mem_write m a v n) a n = take_bit (8 * nat n) v \<and>
         mem_read (mem_write m a v n) b k = mem_read m b k"
proof
  show "mem_read (mem_write m a v n) a n = take_bit (8 * nat n) v"
    using assms(1) by (simp add: mem_read_def mem_write_def from_le_to_le)
  have "unat (a - MEM_BASE) = unat a - unat MEM_BASE" "unat MEM_BASE \<le> unat a"
       "unat (b - MEM_BASE) = unat b - unat MEM_BASE" "unat MEM_BASE \<le> unat b"
    using assms(1,2) by (auto simp: mem_range_valid_nat unat_sub word_le_nat_alt)
  with assms(3) have "unat (b - MEM_BASE) + nat k \<le> unat (a - MEM_BASE) \<or>
      unat (a - MEM_BASE) + length (to_le (nat n) v) \<le> unat (b - MEM_BASE)"
    by auto
  then show "mem_read (mem_write m a v n) b k = mem_read m b k"
    using assms(1,2) by (simp add: mem_read_def mem_write_def Let_def arr_read_write_disjoint)
qed

theorem mem_read_write_witness:
  "mem_read (mem_write (mem_init \<lparr>mem_data = \<lambda>_. 7\<rparr>) 0x80000010 0x1122334455667788 4) 0x80000010 4
     = 0x55667788 \<and>
   mem_read (mem_write (mem_init \<lparr>mem_data = \<lambda>_. 7\<rparr>) 0x80000010 0x1122334455667788 4) 0x80000014 8
     = mem_read (mem_init \<lparr>mem_data = \<lambda>_. 7\<rparr>) 0x80000014 8"
  using mem_read_write [of "0x80000010" 4 "0x80000014" 8
      "mem_init \<lparr>mem_data = \<lambda>_. 7\<rparr>" "0x1122334455667788"]
  by (simp add: mem_range_valid_def MEM_BASE_def MEM_SIZE_def)

end
