(* ===== verification/EarlyHeap.thy ===== *)
theory EarlyHeap
  imports Prelude HostMemory
begin

text \<open>
  The kernel's early bump allocator (\<open>guest/kernel/memory.c\<close>): four module variables and a
  cursor that only moves up, until \<open>memory_finalize_early_allocator\<close> hands the rest of RAM to
  the page allocator.  Addresses are 64-bit words; the address 0 is the NULL pointer.  The
  linker's symbols are a parameter (\<open>linker_symbols\<close>).
\<close>

definition MEMORY_PAGE_SIZE :: u64 where "MEMORY_PAGE_SIZE = 4096"

lemma unat_PAGE_SIZE [simp]: "unat MEMORY_PAGE_SIZE = 4096"
  by (simp add: MEMORY_PAGE_SIZE_def)

record linker_symbols =
  ld_kernel_start :: u64
  ld_kernel_end :: u64
  ld_text_start :: u64
  ld_text_end :: u64
  ld_rodata_start :: u64
  ld_rodata_end :: u64
  ld_data_start :: u64
  ld_data_end :: u64
  ld_bss_start :: u64
  ld_bss_end :: u64
  ld_heap_start :: u64

record early_heap =
  heap_start_ptr :: u64
  heap_cursor :: u64
  heap_limit_ptr :: u64
  heap_alloc_limit_ptr :: u64

definition align_up :: "u64 \<Rightarrow> u64 \<Rightarrow> u64" where
  "align_up v alignment = (let msk = alignment - 1 in (v + msk) AND NOT msk)"

fun memset_loop :: "u8 carray \<Rightarrow> u8 \<Rightarrow> nat \<Rightarrow> nat \<Rightarrow> u8 carray" where
  "memset_loop bytes v i 0 = bytes"
| "memset_loop bytes v i (Suc n) = memset_loop (bytes(i := v)) v (Suc i) n"

definition memset :: "u8 carray option \<Rightarrow> u32 \<Rightarrow> nat \<Rightarrow> u8 carray option" where
  "memset ptr v n = (case ptr of None \<Rightarrow> None | Some bytes \<Rightarrow> Some (memset_loop bytes (ucast v) 0 n))"

definition memory_init :: "linker_symbols \<Rightarrow> early_heap" where
  "memory_init ld = \<lparr>heap_start_ptr = ld_heap_start ld, heap_cursor = ld_heap_start ld,
     heap_limit_ptr = MEM_BASE + MEM_SIZE, heap_alloc_limit_ptr = MEM_BASE + MEM_SIZE\<rparr>"

definition memory_alloc :: "early_heap \<Rightarrow> u64 \<Rightarrow> u64 \<Rightarrow> u64 \<times> early_heap" where
  "memory_alloc h n alignment =
     (if alignment = 0 \<or> alignment AND (alignment - 1) \<noteq> 0 then (0, h)
      else let aligned = align_up (heap_cursor h) alignment in
        if aligned > heap_alloc_limit_ptr h \<or> n > heap_alloc_limit_ptr h - aligned then (0, h)
        else (aligned, h\<lparr>heap_cursor := aligned + n\<rparr>))"

definition memory_alloc_pages :: "early_heap \<Rightarrow> u64 \<Rightarrow> u64 \<times> early_heap" where
  "memory_alloc_pages h page_count =
     (if page_count = 0 \<or> page_count > (- 1) div MEMORY_PAGE_SIZE then (0, h)
      else memory_alloc h (page_count * MEMORY_PAGE_SIZE) MEMORY_PAGE_SIZE)"

definition memory_finalize_early_allocator :: "early_heap \<Rightarrow> u64 \<times> early_heap" where
  "memory_finalize_early_allocator h =
     (let aligned = align_up (heap_cursor h) MEMORY_PAGE_SIZE in
        if aligned > heap_alloc_limit_ptr h then (0, h)
        else (aligned, h\<lparr>heap_cursor := aligned, heap_alloc_limit_ptr := aligned\<rparr>))"

definition memory_kernel_start :: "linker_symbols \<Rightarrow> u64" where "memory_kernel_start ld = ld_kernel_start ld"
definition memory_kernel_end :: "linker_symbols \<Rightarrow> u64" where "memory_kernel_end ld = ld_kernel_end ld"
definition memory_text_start :: "linker_symbols \<Rightarrow> u64" where "memory_text_start ld = ld_text_start ld"
definition memory_text_end :: "linker_symbols \<Rightarrow> u64" where "memory_text_end ld = ld_text_end ld"
definition memory_rodata_start :: "linker_symbols \<Rightarrow> u64" where "memory_rodata_start ld = ld_rodata_start ld"
definition memory_rodata_end :: "linker_symbols \<Rightarrow> u64" where "memory_rodata_end ld = ld_rodata_end ld"
definition memory_data_start :: "linker_symbols \<Rightarrow> u64" where "memory_data_start ld = ld_data_start ld"
definition memory_data_end :: "linker_symbols \<Rightarrow> u64" where "memory_data_end ld = ld_data_end ld"
definition memory_bss_start :: "linker_symbols \<Rightarrow> u64" where "memory_bss_start ld = ld_bss_start ld"
definition memory_bss_end :: "linker_symbols \<Rightarrow> u64" where "memory_bss_end ld = ld_bss_end ld"

definition memory_heap_start :: "early_heap \<Rightarrow> u64" where
  "memory_heap_start h = heap_start_ptr h"

definition memory_heap_current :: "early_heap \<Rightarrow> u64" where
  "memory_heap_current h = heap_cursor h"

definition memory_heap_limit :: "early_heap \<Rightarrow> u64" where
  "memory_heap_limit h = heap_limit_ptr h"

subsection \<open>Alignment\<close>

lemma word_and_not_diff: "x AND NOT m = x - (x AND m)" for x :: "'a::len word"
proof -
  have "(x AND m) + (x AND NOT m) = (x AND m) OR (x AND NOT m)"
    by (rule disjunctive_add) (auto simp: bit_and_iff bit_not_iff)
  also have "\<dots> = x"
    by (rule bit_word_eqI) (auto simp: bit_and_iff bit_or_iff bit_not_iff)
  finally show ?thesis by (metis add_diff_cancel_left')
qed

lemma align_up_masked: "align_up v al AND (al - 1) = 0"
  by (simp add: align_up_def Let_def) (rule bit_word_eqI, auto simp: bit_and_iff bit_not_iff)

lemma align_up_bounds:
  assumes "unat v + unat al \<le> 2 ^ 64" "al \<noteq> 0"
  shows "v \<le> align_up v al" "unat (align_up v al) < unat v + unat al"
proof -
  let ?m = "al - 1"
  have m: "unat ?m = unat al - 1" "0 < unat al"
    using assms(2) by (auto simp: unat_minus_one unat_gt_0)
  have sum: "unat (v + ?m) = unat v + unat ?m"
    using assms m by (intro unat_add_lem [THEN iffD1]) simp
  have le: "(v + ?m) AND ?m \<le> ?m" by (rule word_and_le1)
  then have "unat ((v + ?m) AND ?m) \<le> unat ?m" by (simp add: word_le_nat_alt)
  moreover have "(v + ?m) AND ?m \<le> v + ?m"
    by (rule word_and_le2)
  ultimately have eq: "unat (align_up v al) = unat v + unat ?m - unat ((v + ?m) AND ?m)"
    and bnd: "unat ((v + ?m) AND ?m) \<le> unat ?m"
    by (simp_all add: align_up_def Let_def word_and_not_diff unat_sub sum)
  show "v \<le> align_up v al"
    using eq bnd by (simp add: word_le_nat_alt)
  show "unat (align_up v al) < unat v + unat al"
    using eq m by simp
qed

subsection \<open>The bump allocator's contract\<close>

definition heap_wf :: "early_heap \<Rightarrow> bool" where
  "heap_wf h \<longleftrightarrow> 0 < heap_start_ptr h \<and> heap_start_ptr h \<le> heap_cursor h \<and>
     heap_cursor h \<le> heap_alloc_limit_ptr h \<and> heap_alloc_limit_ptr h \<le> heap_limit_ptr h \<and>
     heap_limit_ptr h \<le> MEM_BASE + MEM_SIZE"

lemma unat_RAM_end [simp]: "unat (MEM_BASE + MEM_SIZE) = 0x88000000"
  by (simp add: MEM_BASE_def MEM_SIZE_def)

lemma heap_wf_init:
  "0 < ld_heap_start ld \<Longrightarrow> ld_heap_start ld \<le> MEM_BASE + MEM_SIZE \<Longrightarrow> heap_wf (memory_init ld)"
  by (simp add: heap_wf_def memory_init_def)

lemma power_of_two_le:
  assumes "al AND (al - 1) = 0" "al \<noteq> (0::u64)"
  shows "unat al \<le> 2 ^ 63"
proof (rule ccontr)
  assume "\<not> unat al \<le> 2 ^ 63"
  then have big: "2 ^ 63 < unat al" by simp
  have "bit al 63" "bit (al - 1) 63"
  proof -
    have *: "bit w 63" if "2 ^ 63 \<le> unat w" for w :: u64
    proof -
      have "unat w < 2 ^ 64" using unsigned_less [of w] by simp
      then have "unat w div 2 ^ 63 = 1" using that by (intro div_nat_eqI) auto
      then have "bit (unat w) 63" by (simp add: bit_iff_odd)
      then show ?thesis by (simp add: bit_unsigned_iff)
    qed
    show "bit al 63" using big by (intro *) simp
    show "bit (al - 1) 63" using big assms(2) by (intro *) (simp add: unat_minus_one)
  qed
  then have "bit (al AND (al - 1)) 63" by (simp add: bit_and_iff)
  then show False using assms(1) by simp
qed

lemma memory_alloc_cases:
  assumes "memory_alloc h n al = (p, h')"
  shows "(p = 0 \<and> h' = h) \<or>
     (al \<noteq> 0 \<and> al AND (al - 1) = 0 \<and> p = align_up (heap_cursor h) al \<and>
      p \<le> heap_alloc_limit_ptr h \<and> n \<le> heap_alloc_limit_ptr h - p \<and> h' = h\<lparr>heap_cursor := p + n\<rparr>)"
proof (cases "al = 0 \<or> al AND (al - 1) \<noteq> 0")
  case True
  then show ?thesis using assms by (simp add: memory_alloc_def del: de_Morgan_disj)
next
  case al: False
  define q where "q = align_up (heap_cursor h) al"
  have *: "memory_alloc h n al =
      (if q > heap_alloc_limit_ptr h \<or> n > heap_alloc_limit_ptr h - q then (0, h)
       else (q, h\<lparr>heap_cursor := q + n\<rparr>))"
    using al by (simp only: memory_alloc_def q_def Let_def if_False)
  show ?thesis
    using al assms unfolding * q_def [symmetric] not_less [symmetric] by (auto split: if_splits)
qed

lemma memory_alloc_ok:
  assumes "heap_wf h" "memory_alloc h n al = (p, h')" "p \<noteq> 0"
  shows "p AND (al - 1) = 0" "heap_cursor h \<le> p" "unat p < unat (heap_cursor h) + unat al"
    "unat (heap_cursor h') = unat p + unat n" "heap_wf h'"
proof -
  have al: "al \<noteq> 0" "al AND (al - 1) = 0" and p: "p = align_up (heap_cursor h) al"
    and bnd: "p \<le> heap_alloc_limit_ptr h" "n \<le> heap_alloc_limit_ptr h - p"
    and h': "h' = h\<lparr>heap_cursor := p + n\<rparr>"
    using memory_alloc_cases [OF assms(2)] assms(3) by blast+
  have cur: "unat (heap_cursor h) \<le> 0x88000000"
    using assms(1) unfolding heap_wf_def word_le_nat_alt unat_RAM_end by linarith
  have al63: "unat al \<le> 2 ^ 63" using power_of_two_le al by blast
  have sum: "unat (heap_cursor h) + unat al \<le> 2 ^ 64" using cur al63 by simp
  show "p AND (al - 1) = 0" by (simp add: p align_up_masked)
  show le: "heap_cursor h \<le> p" and "unat p < unat (heap_cursor h) + unat al"
    using align_up_bounds [OF sum al(1)] by (simp_all add: p)
  have lim: "unat (heap_alloc_limit_ptr h) \<le> 0x88000000"
    using assms(1) unfolding heap_wf_def word_le_nat_alt unat_RAM_end by linarith
  have room: "unat p + unat n \<le> unat (heap_alloc_limit_ptr h)"
    using bnd by (simp add: word_le_nat_alt unat_sub)
  have "unat (p + n) = unat p + unat n"
    using room lim by (intro unat_add_lem [THEN iffD1]) simp
  then show cur': "unat (heap_cursor h') = unat p + unat n" by (simp add: h')
  show "heap_wf h'"
    using assms(1) le cur' room by (auto simp: heap_wf_def h' word_le_nat_alt)
qed

lemma memory_alloc_null:
  assumes "heap_wf h" "memory_alloc h n al = (0, h')"
  shows "h' = h"
proof (rule ccontr)
  assume ne: "h' \<noteq> h"
  then have ok: "al \<noteq> 0" "al AND (al - 1) = 0" "0 = align_up (heap_cursor h) al"
    using memory_alloc_cases [OF assms(2)] by auto
  have "unat (heap_cursor h) \<le> 0x88000000"
    using assms(1) unfolding heap_wf_def word_le_nat_alt unat_RAM_end by linarith
  moreover have "unat al \<le> 2 ^ 63" using power_of_two_le ok by blast
  ultimately have "heap_cursor h \<le> 0"
    using align_up_bounds(1) [of "heap_cursor h" al] ok by simp
  then show False using assms(1) by (auto simp: heap_wf_def)
qed

lemma memory_alloc_wf:
  assumes "heap_wf h" "memory_alloc h n al = (p, h')"
  shows "heap_wf h'"
proof (cases "p = 0")
  case True
  then show ?thesis using memory_alloc_null assms by blast
next
  case False
  then show ?thesis using memory_alloc_ok(5) assms by blast
qed

lemma memory_finalize_ok:
  assumes "heap_wf h" "memory_finalize_early_allocator h = (p, h')" "p \<noteq> 0"
  shows "p AND (MEMORY_PAGE_SIZE - 1) = 0" "heap_cursor h \<le> p" "heap_cursor h' = p"
    "heap_alloc_limit_ptr h' = p" "p \<le> heap_limit_ptr h" "heap_limit_ptr h' = heap_limit_ptr h" "heap_wf h'"
proof -
  have p: "p = align_up (heap_cursor h) MEMORY_PAGE_SIZE" and le: "p \<le> heap_alloc_limit_ptr h"
    and h': "h' = h\<lparr>heap_cursor := p, heap_alloc_limit_ptr := p\<rparr>"
    using assms(2,3) by (auto simp: memory_finalize_early_allocator_def Let_def split: if_splits)
  have "unat (heap_cursor h) \<le> 0x88000000"
    using assms(1) unfolding heap_wf_def word_le_nat_alt unat_RAM_end by linarith
  then have cur: "heap_cursor h \<le> p"
    using align_up_bounds(1) [of "heap_cursor h" MEMORY_PAGE_SIZE] by (simp add: p MEMORY_PAGE_SIZE_def)
  show "p AND (MEMORY_PAGE_SIZE - 1) = 0" by (simp add: p align_up_masked)
  show "heap_cursor h \<le> p" "heap_cursor h' = p" "heap_alloc_limit_ptr h' = p"
    "heap_limit_ptr h' = heap_limit_ptr h" using cur by (simp_all add: h')
  show "p \<le> heap_limit_ptr h" "heap_wf h'"
    using assms(1) le cur by (auto simp: heap_wf_def h')
qed

text \<open>Early allocation never overlaps and never leaves RAM: a successful
  \<open>memory_alloc\<close> returns an address aligned as asked, at most one alignment step above the
  cursor, so above every block handed out before; the block ends exactly at the new cursor,
  within the allocator's limit; a failed call changes nothing.  In particular the rounding
  cannot wrap, whatever power of two is asked for.\<close>

theorem memory_alloc_contract:
  assumes "heap_wf h" "memory_alloc h n al = (p, h')"
  shows "if p = 0 then h' = h
         else p AND (al - 1) = 0 \<and> heap_cursor h \<le> p \<and> unat p < unat (heap_cursor h) + unat al \<and>
              unat (heap_cursor h') = unat p + unat n \<and>
              heap_cursor h' \<le> heap_alloc_limit_ptr h \<and> heap_wf h'"
proof (cases "p = 0")
  case True
  then show ?thesis using memory_alloc_null assms by simp
next
  case False
  have "heap_cursor h' \<le> heap_alloc_limit_ptr h"
    using memory_alloc_ok(5) [OF assms False] memory_alloc_cases [OF assms(2)] False
    by (auto simp: heap_wf_def)
  then show ?thesis
    using False memory_alloc_ok [OF assms False] by simp
qed

definition sample_symbols :: linker_symbols where
  "sample_symbols = \<lparr>ld_kernel_start = 0x80200000, ld_kernel_end = 0x80210000,
     ld_text_start = 0x80200000, ld_text_end = 0x80204000, ld_rodata_start = 0x80204000,
     ld_rodata_end = 0x80206000, ld_data_start = 0x80206000, ld_data_end = 0x80207000,
     ld_bss_start = 0x80207000, ld_bss_end = 0x80210000, ld_heap_start = 0x80210008\<rparr>"

theorem memory_alloc_contract_witness:
  "memory_alloc (memory_init sample_symbols) 24 16 =
     (0x80210010, (memory_init sample_symbols)\<lparr>heap_cursor := 0x80210028\<rparr>) \<and>
   (0x80210010 :: u64) AND (16 - 1) = 0"
proof -
  have wf: "heap_wf (memory_init sample_symbols)"
    by (rule heap_wf_init) (simp_all add: sample_symbols_def MEM_BASE_def MEM_SIZE_def)
  have run: "memory_alloc (memory_init sample_symbols) 24 16 =
     (0x80210010, (memory_init sample_symbols)\<lparr>heap_cursor := 0x80210028\<rparr>)"
    by (simp add: memory_alloc_def align_up_def memory_init_def sample_symbols_def MEM_BASE_def MEM_SIZE_def)
  show ?thesis using memory_alloc_contract [OF wf run] run by simp
qed

end
