(* ===== verification/PhysWords.thy ===== *)
theory PhysWords
  imports HostMemory EarlyHeap
begin

text \<open>
  The machine's RAM as the kernel's page-table code and the simulator's page walker see it: aligned
  64-bit words.  A kernel pointer to a table is its physical address, so \<open>table[i]\<close> is the word at
  \<open>word_slot table i\<close>; loads and stores are those of the simulated RAM (\<open>mem_read\<close>, \<open>mem_write\<close>).
\<close>

definition load64 :: "memory \<Rightarrow> u64 \<Rightarrow> u64" where
  "load64 m a = mem_read m a 8"

definition store64 :: "memory \<Rightarrow> u64 \<Rightarrow> u64 \<Rightarrow> memory" where
  "store64 m a v = mem_write m a v 8"

definition word_slot :: "u64 \<Rightarrow> nat \<Rightarrow> u64" where
  "word_slot table i = table + 8 * of_nat i"

text \<open>\<open>zero_page\<close>: the loop over the 512 words of a page.\<close>

definition zero_page :: "memory \<Rightarrow> u64 \<Rightarrow> memory" where
  "zero_page m page = fold (\<lambda>i m. store64 m (word_slot page i) 0) [0..<unat (MEMORY_PAGE_SIZE div 8)] m"

subsection \<open>Aligned words of RAM\<close>

definition ram_word :: "u64 \<Rightarrow> bool" where
  "ram_word a \<longleftrightarrow> unat a mod 8 = 0 \<and> mem_in_ram a 8"

definition ram_page :: "u64 \<Rightarrow> bool" where
  "ram_page p \<longleftrightarrow> unat p mod 4096 = 0 \<and> mem_in_ram p 4096"

lemma ram_word_valid: "ram_word a \<Longrightarrow> mem_range_valid a 8"
  by (simp add: ram_word_def mem_range_valid_nat mem_in_ram_def)

lemma ram_word_offset:
  "ram_word a \<Longrightarrow> unat (a - MEM_BASE) = unat a - unat MEM_BASE \<and> unat MEM_BASE \<le> unat a"
  by (simp add: ram_word_def mem_in_ram_def unat_sub word_le_nat_alt)

lemma aligned_apart:
  fixes a b :: nat
  assumes "a mod 8 = 0" "b mod 8 = 0" "a \<noteq> b"
  shows "a + 8 \<le> b \<or> b + 8 \<le> a"
  using assms by presburger

lemma load64_store64:
  assumes "ram_word a" "ram_word b"
  shows "load64 (store64 m a v) b = (if a = b then v else load64 m b)"
proof (cases "a = b")
  case True
  then show ?thesis using ram_word_valid [OF assms(1)]
    by (simp add: load64_def store64_def mem_read_def mem_write_def from_le_to_le
        take_bit_word_eq_self)
next
  case False
  then have "unat a \<noteq> unat b" by (simp add: word_unat_eq_iff)
  then have "unat a + 8 \<le> unat b \<or> unat b + 8 \<le> unat a"
    using assms by (intro aligned_apart) (simp_all add: ram_word_def)
  then have "unat (b - MEM_BASE) + 8 \<le> unat (a - MEM_BASE) \<or> unat (a - MEM_BASE) + 8 \<le> unat (b - MEM_BASE)"
    using ram_word_offset [OF assms(1)] ram_word_offset [OF assms(2)] by auto
  then show ?thesis using False ram_word_valid [OF assms(1)] ram_word_valid [OF assms(2)]
    by (auto simp: load64_def store64_def mem_read_def mem_write_def arr_read_write_disjoint)
qed

subsection \<open>The words of a page\<close>

lemma word_slot_unat:
  assumes "ram_page p" "i < 512"
  shows "unat (word_slot p i) = unat p + 8 * i"
proof -
  have b: "unat p + 4096 \<le> 0x88000000" using assms by (simp add: ram_page_def mem_in_ram_def)
  have "unat (of_nat (8 * i) :: u64) = 8 * i" using assms(2) by (intro unat_of_nat_small) simp
  then have "unat (8 * of_nat i :: u64) = 8 * i" by simp
  then show ?thesis using b assms(2) by (simp add: word_slot_def unat_word_ariths)
qed

lemma ram_word_slot: "ram_page p \<Longrightarrow> i < 512 \<Longrightarrow> ram_word (word_slot p i)"
proof -
  assume a: "ram_page p" "i < 512"
  have "unat p mod 4096 mod 8 = unat p mod 8" by (rule mod_mod_cancel) simp
  then have "unat p mod 8 = 0" using a by (simp add: ram_page_def)
  then have "(unat p + 8 * i) mod 8 = 0" by simp
  then show ?thesis using a by (simp add: ram_word_def ram_page_def mem_in_ram_def word_slot_unat)
qed

lemma page_of_slot: "ram_page p \<Longrightarrow> i < 512 \<Longrightarrow> unat (word_slot p i) div 4096 * 4096 = unat p"
  by (simp add: word_slot_unat) (auto simp: ram_page_def mod_eq_0_iff_dvd elim!: dvdE)

lemma word_slot_inj:
  assumes "ram_page p" "ram_page q" "i < 512" "j < 512"
  shows "word_slot p i = word_slot q j \<longleftrightarrow> p = q \<and> i = j"
proof
  assume e: "word_slot p i = word_slot q j"
  have "unat p = unat q" using page_of_slot [OF assms(1,3)] page_of_slot [OF assms(2,4)] e by simp
  then have "p = q" by (simp add: word_unat_eq_iff)
  moreover have "unat p + 8 * i = unat q + 8 * j"
    using e assms by (metis word_slot_unat)
  ultimately show "p = q \<and> i = j" by simp
qed simp

lemma load64_store64_slot:
  assumes "ram_page p" "ram_page q" "i < 512" "j < 512"
  shows "load64 (store64 m (word_slot p i) v) (word_slot q j) =
           (if p = q \<and> i = j then v else load64 m (word_slot q j))"
  using assms by (simp add: load64_store64 ram_word_slot word_slot_inj)

lemma zero_words:
  assumes "ram_page p" "n \<le> 512" "ram_word a"
  shows "load64 (fold (\<lambda>i m. store64 m (word_slot p i) 0) [0..<n] m) a =
           (if \<exists>i<n. a = word_slot p i then 0 else load64 m a)"
  using assms(2)
proof (induction n)
  case (Suc n)
  then show ?case using assms(1,3)
    by (auto simp: load64_store64 ram_word_slot less_Suc_eq)
qed simp

lemma load64_zero_page:
  assumes "ram_page p" "ram_page q" "j < 512"
  shows "load64 (zero_page m p) (word_slot q j) = (if p = q then 0 else load64 m (word_slot q j))"
proof -
  have "unat (MEMORY_PAGE_SIZE div 8) = 512" by (simp add: MEMORY_PAGE_SIZE_def)
  then show ?thesis using assms
    by (auto simp: zero_page_def zero_words ram_word_slot word_slot_inj)
qed

end
