(* ===== verification/Bus.thy ===== *)
theory Bus
  imports PhysWords TrapUnit
begin

text \<open>
  The physical bus of the simulated machine (\<open>src/mem/bus.cpp\<close>, \<open>src/mem/ram.cpp\<close>,
  \<open>src/devices/device.h\<close>).  \<open>Device\<close> is an abstract class: an MMIO device is the record of its range and its
  virtual methods.  A method may reach any object of the machine: a virtio queue notification and the
  doorbell of the AI accelerator read and write RAM by DMA before they return, and both raise lines of the
  interrupt controller.  So the bus keeps pointers to the devices and one state of all device objects, the
  heap, and every method maps the heap and RAM to the heap and RAM.  Loads and stores may throw (\<open>None\<close>,
  \<open>False\<close>).  RAM is attached first, by the constructor.  The record of the last access, kept for the
  debugger, is not modelled.
\<close>

datatype region_kind = Region_Ram | Region_Mmio | Region_Unmapped

record region_info =
  ri_kind :: region_kind
  ri_cacheable :: bool
  ri_dma_visible :: bool
  ri_has_side_effect :: bool
  ri_supports_burst :: bool

record 'd device =
  dev_base :: u64
  dev_size :: u64
  dev_load :: "'d \<times> memory \<Rightarrow> u64 \<Rightarrow> int \<Rightarrow> u64 option \<times> 'd \<times> memory"
  dev_store :: "'d \<times> memory \<Rightarrow> u64 \<Rightarrow> u64 \<Rightarrow> int \<Rightarrow> bool \<times> 'd \<times> memory"
  dev_region :: region_info
  dev_peek_events :: "'d \<Rightarrow> platform_events"
  dev_tick :: "'d \<times> memory \<Rightarrow> platform_events \<times> 'd \<times> memory"

record 'd bus =
  bus_ram :: memory
  bus_heap :: 'd
  bus_devices :: "'d device list"

definition range_contains :: "u64 \<Rightarrow> u64 \<Rightarrow> u64 \<Rightarrow> u64 \<Rightarrow> bool" where
  "range_contains base len addr n =
     (if n = 0 then False
      else if addr < base then False
      else let offset = addr - base in
        if offset \<ge> len then False else n \<le> len - offset)"

definition device_contains :: "'d device \<Rightarrow> u64 \<Rightarrow> u64 \<Rightarrow> bool" where
  "device_contains d addr n = range_contains (dev_base d) (dev_size d) addr n"

definition ram_contains :: "u64 \<Rightarrow> u64 \<Rightarrow> bool" where
  "ram_contains addr n = range_contains MEM_BASE MEM_SIZE addr n"

definition bus_ranges_overlap :: "u64 \<times> u64 \<Rightarrow> u64 \<times> u64 \<Rightarrow> bool" where
  "bus_ranges_overlap l r \<longleftrightarrow> fst l < fst r + snd r \<and> fst r < fst l + snd l"

definition bus_create :: "memory \<Rightarrow> 'd \<Rightarrow> 'd bus" where
  "bus_create ram heap = \<lparr>bus_ram = ram, bus_heap = heap, bus_devices = []\<rparr>"

text \<open>\<open>None\<close> is the exception \<open>device address range overlap\<close>.\<close>

definition bus_attach :: "'d bus \<Rightarrow> 'd device \<Rightarrow> 'd bus option" where
  "bus_attach b d =
     (if bus_ranges_overlap (MEM_BASE, MEM_SIZE) (dev_base d, dev_size d) \<or>
         (\<exists>e \<in> set (bus_devices b). bus_ranges_overlap (dev_base e, dev_size e) (dev_base d, dev_size d))
      then None else Some (b\<lparr>bus_devices := bus_devices b @ [d]\<rparr>))"

datatype bus_target = To_Ram | To_Device nat

definition find_device :: "'d bus \<Rightarrow> u64 \<Rightarrow> int \<Rightarrow> bus_target option" where
  "find_device b addr len =
     (if len \<le> 0 then None
      else if ram_contains addr (word_of_int len) then Some To_Ram
      else map_option To_Device (first_index (\<lambda>i. device_contains (bus_devices b ! i) addr (word_of_int len))
             (length (bus_devices b))))"

text \<open>What a device method sees of the bus, and the bus after it.\<close>

definition bus_world :: "'d bus \<Rightarrow> 'd \<times> memory" where
  "bus_world b = (bus_heap b, bus_ram b)"

definition set_world :: "'d bus \<Rightarrow> 'd \<times> memory \<Rightarrow> 'd bus" where
  "set_world b w = b\<lparr>bus_ram := snd w, bus_heap := fst w\<rparr>"

definition bus_load :: "'d bus \<Rightarrow> u64 \<Rightarrow> int \<Rightarrow> u64 option \<times> 'd bus" where
  "bus_load b addr len =
     (case find_device b addr len of
        Some To_Ram \<Rightarrow> (Some (mem_read (bus_ram b) addr len), b)
      | Some (To_Device i) \<Rightarrow>
          (case dev_load (bus_devices b ! i) (bus_world b) addr len of (v, w) \<Rightarrow> (v, set_world b w))
      | None \<Rightarrow> (None, b))"

definition bus_store :: "'d bus \<Rightarrow> u64 \<Rightarrow> u64 \<Rightarrow> int \<Rightarrow> bool \<times> 'd bus" where
  "bus_store b addr v len =
     (case find_device b addr len of
        Some To_Ram \<Rightarrow> (True, b\<lparr>bus_ram := mem_write (bus_ram b) addr v len\<rparr>)
      | Some (To_Device i) \<Rightarrow>
          (case dev_store (bus_devices b ! i) (bus_world b) addr v len of (ok, w) \<Rightarrow> (ok, set_world b w))
      | None \<Rightarrow> (False, b))"

lemma ram_contains_word: "ram_word a \<Longrightarrow> ram_contains a 8"
proof -
  assume r: "ram_word a"
  then have u: "unat MEM_BASE \<le> unat a" "unat a + 8 \<le> unat MEM_BASE + unat MEM_SIZE"
    by (simp_all add: ram_word_def mem_in_ram_def)
  then have off: "unat (a - MEM_BASE) = unat a - unat MEM_BASE" by (simp add: unat_sub word_le_nat_alt)
  have "unat (MEM_SIZE - (a - MEM_BASE)) = unat MEM_SIZE - unat (a - MEM_BASE)"
    using u off by (intro unat_sub) (simp add: word_le_nat_alt)
  then show ?thesis using u off
    by (auto simp: ram_contains_def range_contains_def Let_def word_le_nat_alt word_less_nat_alt)
qed

lemma bus_load_word: "ram_word a \<Longrightarrow> bus_load b a 8 = (Some (load64 (bus_ram b) a), b)"
  by (simp add: bus_load_def find_device_def ram_contains_word load64_def)

lemma bus_store_word: "ram_word a \<Longrightarrow> bus_store b a v 8 = (True, b\<lparr>bus_ram := store64 (bus_ram b) a v\<rparr>)"
  by (simp add: bus_store_def find_device_def ram_contains_word store64_def)

subsection \<open>Bytes of RAM\<close>

definition ram_byte :: "memory \<Rightarrow> u64 \<Rightarrow> u8" where
  "ram_byte m a = mem_data m (unat (a - MEM_BASE))"

lemma ram_byte_write:
  assumes "mem_in_ram x 1" "ram_byte (mem_write m a v n) x \<noteq> ram_byte m x"
  shows "unat a \<le> unat x \<and> unat x < unat a + nat n"
proof -
  have valid: "mem_range_valid a (word_of_int n)"
    using assms(2) by (auto simp: mem_write_def split: if_splits)
  then have "unat MEM_BASE \<le> unat a" by (simp add: mem_range_valid_nat)
  then have off: "unat (a - MEM_BASE) = unat a - unat MEM_BASE" "unat (x - MEM_BASE) = unat x - unat MEM_BASE"
    using assms(1) by (simp_all add: mem_in_ram_def unat_sub word_le_nat_alt)
  then show ?thesis
    using assms valid \<open>unat MEM_BASE \<le> unat a\<close>
    by (auto simp: mem_write_def ram_byte_def arr_write_def mem_in_ram_def split: if_splits)
qed

lemma ram_contains_iff: "ram_contains a n \<longleftrightarrow> n \<noteq> 0 \<and> mem_in_ram a (unat n)"
proof (cases "unat MEM_BASE \<le> unat a \<and> unat a < unat MEM_BASE + unat MEM_SIZE")
  case True
  then have off: "unat (a - MEM_BASE) = unat a - unat MEM_BASE" by (simp add: unat_sub word_le_nat_alt)
  then have "unat (MEM_SIZE - (a - MEM_BASE)) = unat MEM_SIZE - (unat a - unat MEM_BASE)"
    using True by (subst unat_sub) (auto simp: word_le_nat_alt)
  then show ?thesis using True off
    by (auto simp: ram_contains_def range_contains_def mem_in_ram_def Let_def word_le_nat_alt word_less_nat_alt)
next
  case False
  then have "a < MEM_BASE \<or> MEM_SIZE \<le> a - MEM_BASE"
    by (auto simp: word_less_nat_alt word_le_nat_alt unat_sub not_less)
  moreover have "\<not> mem_in_ram a (unat n)" if "n \<noteq> 0"
  proof -
    have "0 < unat n" using that by (simp add: unat_gt_0)
    then show ?thesis using False by (auto simp: mem_in_ram_def)
  qed
  ultimately show ?thesis by (auto simp: ram_contains_def range_contains_def Let_def)
qed

lemma unat_of_size: "0 \<le> n \<Longrightarrow> n < 2 ^ 31 \<Longrightarrow> unat (word_of_int n :: u64) = nat n"
proof -
  assume n: "0 \<le> n" "n < 2 ^ 31"
  have "uint (word_of_int n :: u64) = n" using n by (simp add: unsigned_of_int take_bit_int_eq_self)
  then show ?thesis by (metis nat_int uint_nat of_nat_unat)
qed

lemma bus_load_in_ram:
  assumes "0 < n" "n < 2 ^ 31" "mem_in_ram a (nat n)"
  shows "bus_load b a n = (Some (mem_read (bus_ram b) a n), b)"
proof -
  have u: "unat (word_of_int n :: u64) = nat n" using assms(1,2) by (simp add: unat_of_size)
  then have "(word_of_int n :: u64) \<noteq> 0" using assms(1) by (metis nat_0_iff not_le unsigned_0)
  then show ?thesis using assms(1,3) u by (simp add: bus_load_def find_device_def ram_contains_iff)
qed

lemma bus_store_in_ram:
  assumes "0 < n" "n < 2 ^ 31" "mem_in_ram a (nat n)"
  shows "bus_store b a v n = (True, b\<lparr>bus_ram := mem_write (bus_ram b) a v n\<rparr>)"
proof -
  have u: "unat (word_of_int n :: u64) = nat n" using assms(1,2) by (simp add: unat_of_size)
  then have "(word_of_int n :: u64) \<noteq> 0" using assms(1) by (metis nat_0_iff not_le unsigned_0)
  then show ?thesis using assms(1,3) u by (simp add: bus_store_def find_device_def ram_contains_iff)
qed

lemma ram_byte_mem_write:
  assumes "0 \<le> n" "n < 2 ^ 31" "mem_in_ram a (nat n)" "mem_in_ram x 1"
  shows "ram_byte (mem_write m a v n) x =
    (if unat a \<le> unat x \<and> unat x < unat a + nat n then ucast (drop_bit (8 * (unat x - unat a)) v) else ram_byte m x)"
proof -
  have "mem_range_valid a (word_of_int n)"
    using assms by (simp add: mem_range_valid_nat mem_in_ram_def unat_of_size)
  moreover have "unat (a - MEM_BASE) = unat a - unat MEM_BASE" "unat (x - MEM_BASE) = unat x - unat MEM_BASE"
      "unat MEM_BASE \<le> unat a" "unat MEM_BASE \<le> unat x"
    using assms(3,4) by (simp_all add: mem_in_ram_def unat_sub word_le_nat_alt)
  moreover have "unat x - unat a < nat n" if "unat a \<le> unat x" "unat x < unat a + nat n" using that by simp
  ultimately show ?thesis
    by (auto simp: mem_write_def ram_byte_def arr_write_def to_le_def)
qed

text \<open>The address of byte \<open>i\<close> of a range in RAM.\<close>

lemma byte_address:
  assumes "mem_in_ram a n" "i < n"
  shows "unat (a + of_nat i) = unat a + i" "mem_in_ram (a + of_nat i) 1"
proof -
  have "unat a + i < 2 ^ 64" "i < 2 ^ 64" using assms by (simp_all add: mem_in_ram_def)
  then show u: "unat (a + of_nat i) = unat a + i" by (simp add: unat_word_ariths unat_of_nat)
  show "mem_in_ram (a + of_nat i) 1" using assms u by (simp add: mem_in_ram_def)
qed

lemma mem_read_bytes:
  assumes "0 \<le> n" "n < 2 ^ 31" "mem_in_ram a (nat n)"
  shows "mem_read m a n = from_le (map (\<lambda>i. ram_byte m (a + of_nat i)) [0..<nat n])"
proof -
  have "mem_range_valid a (word_of_int n)"
    using assms by (simp add: mem_range_valid_nat mem_in_ram_def unat_of_size)
  moreover have "unat (a + of_nat i - MEM_BASE) = unat (a - MEM_BASE) + i" if "i < nat n" for i
    using byte_address [OF assms(3) that] assms(3) by (simp add: mem_in_ram_def unat_sub word_le_nat_alt)
  then have "arr_read (mem_data m) (unat (a - MEM_BASE)) (nat n) = map (\<lambda>i. ram_byte m (a + of_nat i)) [0..<nat n]"
    by (simp add: arr_read_def ram_byte_def)
  ultimately show ?thesis by (simp add: mem_read_def Let_def)
qed

subsection \<open>Registers that do no DMA\<close>

text \<open>Accesses at this address of this device leave RAM alone, whatever the state of the machine.  This holds of
  the UART, the CLINT, the PLIC and the storage device, and of all virtio registers but \<open>QUEUE_NOTIFY\<close>.\<close>

definition keeps_ram :: "'d device \<Rightarrow> u64 \<Rightarrow> bool" where
  "keeps_ram d a \<longleftrightarrow> (\<forall>w n. snd (snd (dev_load d w a n)) = snd w) \<and> (\<forall>w v n. snd (snd (dev_store d w a v n)) = snd w)"

definition quiet_at :: "'d bus \<Rightarrow> u64 \<Rightarrow> bool" where
  "quiet_at b a \<longleftrightarrow> (\<forall>d \<in> set (bus_devices b). device_contains d a 1 \<longrightarrow> keeps_ram d a)"

lemma set_world_simps [simp]:
  "bus_devices (set_world b w) = bus_devices b" "bus_ram (set_world b w) = snd w" "bus_heap (set_world b w) = fst w"
  by (simp_all add: set_world_def)

lemma bus_ops_devices:
  "bus_load b a n = (r, b') \<Longrightarrow> bus_devices b' = bus_devices b"
  "bus_store b a v n = (ok, b') \<Longrightarrow> bus_devices b' = bus_devices b"
  by (auto simp: bus_load_def bus_store_def split: option.splits bus_target.splits prod.splits)

lemma quiet_device:
  assumes "quiet_at b a" "find_device b a n = Some (To_Device i)"
  shows "keeps_ram (bus_devices b ! i) a"
proof -
  have i: "i < length (bus_devices b)" "device_contains (bus_devices b ! i) a (word_of_int n)"
    using assms(2) by (auto simp: find_device_def dest: first_index_SomeD split: if_splits)
  have "1 \<le> (w :: u64)" if "0 < w" for w using that by (simp add: word_le_nat_alt word_less_nat_alt)
  then have "device_contains (bus_devices b ! i) a 1"
    using i(2) by (auto simp: device_contains_def range_contains_def Let_def word_gt_0 split: if_splits)
  then show ?thesis using assms(1) i(1) by (auto simp: quiet_at_def)
qed

lemma quiet_load: "quiet_at b a \<Longrightarrow> bus_load b a n = (r, b') \<Longrightarrow> bus_ram b' = bus_ram b"
proof -
  assume q: "quiet_at b a" and l: "bus_load b a n = (r, b')"
  have "snd (snd (dev_load (bus_devices b ! i) (bus_world b) a n)) = bus_ram b"
    if "find_device b a n = Some (To_Device i)" for i
    using quiet_device [OF q that] by (simp add: keeps_ram_def bus_world_def)
  then show ?thesis using l by (auto simp: bus_load_def split: option.splits bus_target.splits prod.splits)
qed

lemma quiet_store:
  assumes q: "quiet_at b a" and s: "bus_store b a v n = (ok, b')"
  shows "bus_ram b' = bus_ram b \<or> ok \<and> find_device b a n = Some To_Ram \<and> bus_ram b' = mem_write (bus_ram b) a v n"
proof -
  have "snd (snd (dev_store (bus_devices b ! i) (bus_world b) a v n)) = bus_ram b"
    if "find_device b a n = Some (To_Device i)" for i
    using quiet_device [OF q that] by (simp add: keeps_ram_def bus_world_def)
  then show ?thesis using s by (auto simp: bus_store_def split: option.splits bus_target.splits prod.splits)
qed

lemma quiet_at_ram [simp]: "quiet_at (b\<lparr>bus_ram := m\<rparr>) a = quiet_at b a"
  by (simp add: quiet_at_def)

lemma quiet_at_devices: "bus_devices b' = bus_devices b \<Longrightarrow> quiet_at b' a = quiet_at b a"
  by (simp add: quiet_at_def)

end
