(* ===== verification/Mmu.thy ===== *)
theory Mmu
  imports Bus TrapUnit
begin

text \<open>
  The simulator's memory management unit (\<open>src/mem/address_space.cpp\<close>): Sv39 translation with a
  32-entry TLB, permission checks, updates of the accessed and dirty bits, and loads and stores that
  may cross a page.  A fault is its cause and the faulting address; data accesses go to the bus, as
  without a bound L1 cache.  The hart's TLB and the bus are threaded through every operation.
\<close>

datatype access_type = Access_Instruction | Access_Load | Access_Store

type_synonym fault = "u64 \<times> u64"
type_synonym 'd mmu = "hart \<times> 'd bus"

definition PTE_V :: u64 where "PTE_V = push_bit 0 1"
definition PTE_R :: u64 where "PTE_R = push_bit 1 1"
definition PTE_W :: u64 where "PTE_W = push_bit 2 1"
definition PTE_X :: u64 where "PTE_X = push_bit 3 1"
definition PTE_U :: u64 where "PTE_U = push_bit 4 1"
definition PTE_A :: u64 where "PTE_A = push_bit 6 1"
definition PTE_D :: u64 where "PTE_D = push_bit 7 1"
definition PTE_SV39_RESERVED_MASK :: u64 where "PTE_SV39_RESERVED_MASK = 0xFFC0000000000000"
definition PTE_PPN_MASK :: u64 where "PTE_PPN_MASK = push_bit 44 1 - 1"
definition SV39_VPN_MASK :: u64 where "SV39_VPN_MASK = 0x1FF"
definition SV39_PAGE_SIZE :: u64 where "SV39_PAGE_SIZE = 4096"
definition SV39_PAGE_SHIFT :: nat where "SV39_PAGE_SHIFT = 12"

fun access_fault_cause :: "access_type \<Rightarrow> u64" where
  "access_fault_cause Access_Instruction = 1"
| "access_fault_cause Access_Load = 5"
| "access_fault_cause Access_Store = 7"

fun page_fault_cause :: "access_type \<Rightarrow> u64" where
  "page_fault_cause Access_Instruction = 12"
| "page_fault_cause Access_Load = 13"
| "page_fault_cause Access_Store = 15"

definition is_sv39_canonical :: "u64 \<Rightarrow> bool" where
  "is_sv39_canonical vaddr \<longleftrightarrow>
     (let sign = drop_bit 38 vaddr AND 1;
          upper = drop_bit 39 vaddr;
          expected_upper = (if sign \<noteq> 0 then push_bit 25 1 - 1 else 0)
      in upper = expected_upper)"

definition size_mask :: "int \<Rightarrow> u64" where
  "size_mask n = (if n \<ge> 8 then NOT 0 else push_bit (nat (n * 8)) 1 - 1)"

definition page_chunk_size :: "u64 \<Rightarrow> int \<Rightarrow> int" where
  "page_chunk_size addr remaining =
     (let until_boundary = uint (SV39_PAGE_SIZE - (addr AND (SV39_PAGE_SIZE - 1)))
      in if remaining < until_boundary then remaining else until_boundary)"

definition can_access_user_page :: "access_type \<Rightarrow> privilege_mode \<Rightarrow> u64 \<Rightarrow> bool" where
  "can_access_user_page ty mode mstatus =
     (if mode = User then True
      else if ty = Access_Instruction then False
      else mstatus AND MSTATUS_SUM \<noteq> 0)"

definition mmu_decode_mpp :: "u64 \<Rightarrow> privilege_mode" where
  "mmu_decode_mpp mstatus =
     (let e = drop_bit 11 (mstatus AND MSTATUS_MPP_MASK) in
      if e = 0 then User else if e = 1 then Supervisor else if e = 3 then Machine else User)"

definition effective_privilege_mode :: "access_type \<Rightarrow> core_state \<Rightarrow> u64 \<Rightarrow> privilege_mode" where
  "effective_privilege_mode ty core mstatus =
     (if ty = Access_Instruction then cs_privilege_mode core
      else if cs_privilege_mode core = Machine \<and> mstatus AND MSTATUS_MPRV \<noteq> 0 then mmu_decode_mpp mstatus
      else cs_privilege_mode core)"

definition lookup_tlb :: "tlb \<Rightarrow> u64 \<Rightarrow> u64 \<Rightarrow> nat option" where
  "lookup_tlb t satp vaddr = first_index (\<lambda>i. let entry = tlb_entries t i in
      te_valid entry \<and> te_satp entry = satp \<and>
      vaddr AND NOT (push_bit (te_page_shift entry) 1 - 1) = te_vpage_base entry) 32"

definition fill_tlb :: "tlb \<Rightarrow> u64 \<Rightarrow> u64 \<Rightarrow> u64 \<Rightarrow> u64 \<Rightarrow> u64 \<Rightarrow> nat \<Rightarrow> tlb" where
  "fill_tlb t satp vaddr paddr pte pte_addr page_shift =
     (let page_mask = push_bit page_shift 1 - 1 in
      t\<lparr>tlb_entries := (tlb_entries t)(next_tlb_victim t :=
          \<lparr>te_valid = True, te_satp = satp, te_vpage_base = vaddr AND NOT page_mask,
           te_ppage_base = paddr AND NOT page_mask, te_pte = pte, te_pte_addr = pte_addr,
           te_page_shift = page_shift\<rparr>),
        next_tlb_victim := (next_tlb_victim t + 1) mod 32\<rparr>)"

text \<open>\<open>None\<close> is the return value \<open>true\<close>.\<close>

definition check_leaf_permissions :: "hart \<Rightarrow> u64 \<Rightarrow> access_type \<Rightarrow> privilege_mode \<Rightarrow> u64 \<Rightarrow> fault option" where
  "check_leaf_permissions h pte ty effective_mode vaddr =
     (let readable = pte AND PTE_R \<noteq> 0; writable = pte AND PTE_W \<noteq> 0; executable = pte AND PTE_X \<noteq> 0;
          user_accessible = pte AND PTE_U \<noteq> 0; mstatus = csr h CSR_MSTATUS;
          fault = Some (page_fault_cause ty, vaddr); is_user_mode = (effective_mode = User) in
      if writable \<and> \<not> readable then fault
      else if is_user_mode \<and> \<not> user_accessible then fault
      else if \<not> is_user_mode \<and> user_accessible \<and> \<not> can_access_user_page ty effective_mode mstatus then fault
      else case ty of
        Access_Instruction \<Rightarrow> if \<not> executable then fault else None
      | Access_Load \<Rightarrow> if \<not> readable \<and> \<not> (mstatus AND MSTATUS_MXR \<noteq> 0 \<and> executable) then fault else None
      | Access_Store \<Rightarrow> if \<not> writable then fault else None)"

text \<open>The new entry, the fault if the update fails, and the bus.\<close>

definition update_pte_access_bits ::
    "'d bus \<Rightarrow> u64 \<Rightarrow> u64 \<Rightarrow> access_type \<Rightarrow> u64 \<Rightarrow> u64 \<times> fault option \<times> 'd bus" where
  "update_pte_access_bits b pte_addr pte ty vaddr =
     (let updated_pte = pte OR PTE_A;
          updated_pte = (if ty = Access_Store then updated_pte OR PTE_D else updated_pte) in
      if updated_pte = pte then (pte, None, b)
      else case bus_store b pte_addr updated_pte 8 of
        (False, b1) \<Rightarrow> (pte, Some (access_fault_cause ty, vaddr), b1)
      | (True, b1) \<Rightarrow> (updated_pte, None, b1))"

definition mmu_vpn :: "u64 \<Rightarrow> nat \<Rightarrow> u64" where
  "mmu_vpn vaddr level = drop_bit (12 + 9 * level) vaddr AND SV39_VPN_MASK"

text \<open>The body of the branch for a leaf entry.\<close>

definition walk_leaf ::
    "'d mmu \<Rightarrow> u64 \<Rightarrow> access_type \<Rightarrow> bool \<Rightarrow> nat \<Rightarrow> u64 \<Rightarrow> u64 \<Rightarrow> (fault + u64) \<times> 'd mmu" where
  "walk_leaf x vaddr ty upd level pte_addr pte =
     (case x of (h, b) \<Rightarrow>
      let satp = csr h CSR_SATP;
          effective_mode = effective_privilege_mode ty (h_core h) (csr h CSR_MSTATUS) in
      case check_leaf_permissions h pte ty effective_mode vaddr of
        Some fault \<Rightarrow> (Inl fault, (h, b))
      | None \<Rightarrow>
          let pte_ppn = drop_bit 10 pte AND PTE_PPN_MASK;
              page_offset = vaddr AND (push_bit (12 + level * 9) 1 - 1) in
          if level = 1 \<and> pte_ppn AND SV39_VPN_MASK \<noteq> 0 then (Inl (page_fault_cause ty, vaddr), (h, b))
          else if level = 2 \<and> pte_ppn AND (push_bit 18 1 - 1) \<noteq> 0 then (Inl (page_fault_cause ty, vaddr), (h, b))
          else case (if upd then update_pte_access_bits b pte_addr pte ty vaddr else (pte, None, b)) of
            (_, Some fault, b1) \<Rightarrow> (Inl fault, (h, b1))
          | (updated_pte, None, b1) \<Rightarrow>
              let paddr = push_bit 12 pte_ppn OR page_offset in
              (Inr paddr, (h\<lparr>h_tlb := fill_tlb (h_tlb h) satp vaddr paddr updated_pte pte_addr
                                        (SV39_PAGE_SHIFT + level * 9)\<rparr>, b1)))"

fun walk_levels ::
    "'d mmu \<Rightarrow> u64 \<Rightarrow> access_type \<Rightarrow> bool \<Rightarrow> nat \<Rightarrow> u64 \<Rightarrow> (fault + u64) \<times> 'd mmu" where
  "walk_levels (h, b) vaddr ty upd level ppn =
     (let pte_addr = push_bit 12 ppn OR push_bit 3 (mmu_vpn vaddr level) in
      case bus_load b pte_addr 8 of
        (None, b1) \<Rightarrow> (Inl (access_fault_cause ty, vaddr), (h, b1))
      | (Some pte, b1) \<Rightarrow>
          if pte AND PTE_V = 0 then (Inl (page_fault_cause ty, vaddr), (h, b1))
          else if pte AND PTE_SV39_RESERVED_MASK \<noteq> 0 then (Inl (page_fault_cause ty, vaddr), (h, b1))
          else if pte AND (PTE_R OR PTE_W OR PTE_X) \<noteq> 0 then walk_leaf (h, b1) vaddr ty upd level pte_addr pte
          else if pte AND (PTE_U OR PTE_A OR PTE_D) \<noteq> 0 then (Inl (page_fault_cause ty, vaddr), (h, b1))
          else case level of
            0 \<Rightarrow> (Inl (page_fault_cause ty, vaddr), (h, b1))
          | Suc l \<Rightarrow> walk_levels (h, b1) vaddr ty upd l (drop_bit 10 pte AND PTE_PPN_MASK))"

declare walk_levels.simps [simp del]

definition walk_page_table :: "'d mmu \<Rightarrow> u64 \<Rightarrow> access_type \<Rightarrow> bool \<Rightarrow> (fault + u64) \<times> 'd mmu" where
  "walk_page_table x vaddr ty upd = walk_levels x vaddr ty upd 2 (csr (fst x) CSR_SATP AND SATP_PPN_MASK)"

definition set_te_pte :: "tlb \<Rightarrow> nat \<Rightarrow> u64 \<Rightarrow> tlb" where
  "set_te_pte t i pte = t\<lparr>tlb_entries := (tlb_entries t)(i := (tlb_entries t i)\<lparr>te_pte := pte\<rparr>)\<rparr>"

definition mmu_translate :: "'d mmu \<Rightarrow> u64 \<Rightarrow> access_type \<Rightarrow> bool \<Rightarrow> (fault + u64) \<times> 'd mmu" where
  "mmu_translate x vaddr ty upd =
     (case x of (h, b) \<Rightarrow>
      let satp = csr h CSR_SATP; mode = drop_bit 60 (satp AND SATP_MODE_MASK);
          effective_mode = effective_privilege_mode ty (h_core h) (csr h CSR_MSTATUS) in
      if mode = 0 \<or> effective_mode = Machine then (Inr vaddr, (h, b))
      else if mode \<noteq> SATP_MODE_SV39 then (Inl (page_fault_cause ty, vaddr), (h, b))
      else if \<not> is_sv39_canonical vaddr then (Inl (page_fault_cause ty, vaddr), (h, b))
      else case lookup_tlb (h_tlb h) satp vaddr of
        Some i \<Rightarrow>
          let entry = tlb_entries (h_tlb h) i; page_mask = push_bit (te_page_shift entry) 1 - 1;
              paddr = te_ppage_base entry OR (vaddr AND page_mask) in
          (case check_leaf_permissions h (te_pte entry) ty effective_mode vaddr of
             Some fault \<Rightarrow> (Inl fault, (h, b))
           | None \<Rightarrow>
               if \<not> upd then (Inr paddr, (h, b))
               else case update_pte_access_bits b (te_pte_addr entry) (te_pte entry) ty vaddr of
                 (_, Some fault, b1) \<Rightarrow> (Inl fault, (h, b1))
               | (pte, None, b1) \<Rightarrow> (Inr paddr, (h\<lparr>h_tlb := set_te_pte (h_tlb h) i pte\<rparr>, b1)))
      | None \<Rightarrow> walk_page_table (h, b) vaddr ty upd)"

lemma chunk_pos: "0 < r \<Longrightarrow> 0 < page_chunk_size a r \<and> page_chunk_size a r \<le> r"
proof -
  have m: "SV39_PAGE_SIZE - 1 = mask 12" by (simp add: SV39_PAGE_SIZE_def mask_eq_exp_minus_1)
  have "unat (a AND (SV39_PAGE_SIZE - 1)) = unat (take_bit 12 a)" by (simp only: m take_bit_eq_mask)
  also have "\<dots> < 2 ^ 12" by (simp only: unsigned_take_bit_eq take_bit_nat_less_exp)
  finally have lt: "unat (a AND (SV39_PAGE_SIZE - 1)) < 4096" by simp
  define w where "w = SV39_PAGE_SIZE - (a AND (SV39_PAGE_SIZE - 1))"
  have "a AND (SV39_PAGE_SIZE - 1) \<noteq> SV39_PAGE_SIZE"
  proof
    assume "a AND (SV39_PAGE_SIZE - 1) = SV39_PAGE_SIZE"
    then have "unat SV39_PAGE_SIZE < 4096" using lt by (simp only:)
    then show False by (simp add: SV39_PAGE_SIZE_def)
  qed
  then have "w \<noteq> 0" unfolding w_def by (metis right_minus_eq)
  then have "uint w \<noteq> 0" by (simp add: unsigned_eq_0_iff)
  then have "0 < uint w" using uint_ge_0 [of w] by linarith
  then show "0 < r \<Longrightarrow> 0 < page_chunk_size a r \<and> page_chunk_size a r \<le> r"
    unfolding page_chunk_size_def Let_def w_def [symmetric] by simp
qed

lemma chunk_less: "0 < r \<Longrightarrow> nat (r - page_chunk_size a r) < nat r"
  using chunk_pos [of r a] by simp

text \<open>Loads and fetches, chunk by chunk; \<open>value\<close> accumulates the chunks already read.\<close>

function access_loop :: "'d mmu \<Rightarrow> u64 \<Rightarrow> int \<Rightarrow> nat \<Rightarrow> u64 \<Rightarrow> access_type \<Rightarrow> (fault + u64) \<times> 'd mmu" where
  "access_loop x current_addr remaining shift v ty =
     (if remaining > 0 then
        let chunk = page_chunk_size current_addr remaining in
        case mmu_translate x current_addr ty True of
          (Inl fault, x1) \<Rightarrow> (Inl fault, x1)
        | (Inr paddr, (h1, b1)) \<Rightarrow>
            (case bus_load b1 paddr chunk of
               (None, b2) \<Rightarrow> (Inl (access_fault_cause ty, current_addr), (h1, b2))
             | (Some chunk_value, b2) \<Rightarrow>
                 access_loop (h1, b2) (current_addr + word_of_int chunk) (remaining - chunk)
                   (shift + nat (chunk * 8)) (v OR push_bit shift (chunk_value AND size_mask chunk)) ty)
      else (Inr v, x))"
  by pat_completeness auto

termination
  by (relation "measure (\<lambda>(x, a, r, sh, v, ty). nat r)") (simp_all add: chunk_pos)

declare access_loop.simps [simp del]

definition access_result :: "'d mmu \<Rightarrow> u64 \<Rightarrow> int \<Rightarrow> access_type \<Rightarrow> (fault + u64) \<times> 'd mmu" where
  "access_result x vaddr len ty = access_loop x vaddr len 0 0 ty"

definition fetch16_result :: "'d mmu \<Rightarrow> u64 \<Rightarrow> (fault + u64) \<times> 'd mmu" where
  "fetch16_result x pc = access_result x pc 2 Access_Instruction"

definition fetch32_result :: "'d mmu \<Rightarrow> u64 \<Rightarrow> (fault + u64) \<times> 'd mmu" where
  "fetch32_result x pc = access_result x pc 4 Access_Instruction"

definition load_result :: "'d mmu \<Rightarrow> u64 \<Rightarrow> int \<Rightarrow> (fault + u64) \<times> 'd mmu" where
  "load_result x addr len = access_result x addr len Access_Load"

function store_loop :: "'d mmu \<Rightarrow> u64 \<Rightarrow> int \<Rightarrow> u64 \<Rightarrow> fault option \<times> 'd mmu" where
  "store_loop x current_addr remaining v =
     (if remaining > 0 then
        let chunk = page_chunk_size current_addr remaining in
        case mmu_translate x current_addr Access_Store True of
          (Inl fault, x1) \<Rightarrow> (Some fault, x1)
        | (Inr paddr, (h1, b1)) \<Rightarrow>
            (case bus_store b1 paddr (v AND size_mask chunk) chunk of
               (False, b2) \<Rightarrow> (Some (access_fault_cause Access_Store, current_addr), (h1, b2))
             | (True, b2) \<Rightarrow>
                 store_loop (h1, b2) (current_addr + word_of_int chunk) (remaining - chunk)
                   (drop_bit (nat (chunk * 8)) v))
      else (None, x))"
  by pat_completeness auto
termination
  by (relation "measure (\<lambda>(x, a, r, v). nat r)") (simp_all add: chunk_pos)

declare store_loop.simps [simp del]

definition store_result :: "'d mmu \<Rightarrow> u64 \<Rightarrow> u64 \<Rightarrow> int \<Rightarrow> fault option \<times> 'd mmu" where
  "store_result x addr v len = store_loop x addr len v"

text \<open>\<open>load\<close> and \<open>store\<close>: a fault enters the trap.\<close>

definition apply_fault :: "cpu \<Rightarrow> fault \<Rightarrow> cpu" where
  "apply_fault p fault = enter_exception p (fst fault) (snd fault)"

definition mmu_load :: "cpu \<Rightarrow> 'd bus \<Rightarrow> u64 \<Rightarrow> int \<Rightarrow> u64 option \<times> cpu \<times> 'd bus" where
  "mmu_load p b addr len =
     (case load_result (cpu_hart p, b) addr len of
        (Inl fault, (h, b1)) \<Rightarrow> (None, apply_fault (p\<lparr>cpu_hart := h\<rparr>) fault, b1)
      | (Inr v, (h, b1)) \<Rightarrow> (Some v, p\<lparr>cpu_hart := h\<rparr>, b1))"

definition mmu_store :: "cpu \<Rightarrow> 'd bus \<Rightarrow> u64 \<Rightarrow> u64 \<Rightarrow> int \<Rightarrow> bool \<times> cpu \<times> 'd bus" where
  "mmu_store p b addr v len =
     (case store_result (cpu_hart p, b) addr v len of
        (Some fault, (h, b1)) \<Rightarrow> (False, apply_fault (p\<lparr>cpu_hart := h\<rparr>) fault, b1)
      | (None, (h, b1)) \<Rightarrow> (True, p\<lparr>cpu_hart := h\<rparr>, b1))"

end
