(* ===== verification/AtomicOps.thy ===== *)
theory AtomicOps
  imports InsnEffects Mmu
begin

text \<open>
  Atomic instructions (\<open>src/isa/atomic_contract.cpp\<close>): load-reserved, store-conditional and the
  read-modify-write operations, with the reservation of the trap controller.  The MMIO flag taken from the
  bus's access record is not modelled.
\<close>

definition aligned_word_value :: "u64 \<Rightarrow> u64" where
  "aligned_word_value v = scast (ucast v :: u32)"

definition load_result_value :: "u64 \<Rightarrow> int \<Rightarrow> u64" where
  "load_result_value v n = (if n = 4 then aligned_word_value v else v)"

definition store_masked_value :: "u64 \<Rightarrow> int \<Rightarrow> u64" where
  "store_masked_value v n = (if n = 4 then ucast (ucast v :: u32) else v)"

fun amo32 :: "atomic_kind \<Rightarrow> u32 \<Rightarrow> u32 \<Rightarrow> u32" where
  "amo32 Amo_Swap lhs rhs = rhs"
| "amo32 Amo_Add lhs rhs = lhs + rhs"
| "amo32 Amo_Xor lhs rhs = lhs XOR rhs"
| "amo32 Amo_And lhs rhs = lhs AND rhs"
| "amo32 Amo_Or lhs rhs = lhs OR rhs"
| "amo32 Amo_Min lhs rhs = (if sint lhs < sint rhs then lhs else rhs)"
| "amo32 Amo_Max lhs rhs = (if sint lhs > sint rhs then lhs else rhs)"
| "amo32 Amo_MinUnsigned lhs rhs = (if lhs < rhs then lhs else rhs)"
| "amo32 Amo_MaxUnsigned lhs rhs = (if lhs > rhs then lhs else rhs)"
| "amo32 _ lhs rhs = lhs"

fun amo64 :: "atomic_kind \<Rightarrow> u64 \<Rightarrow> u64 \<Rightarrow> u64" where
  "amo64 Amo_Swap loaded operand = operand"
| "amo64 Amo_Add loaded operand = loaded + operand"
| "amo64 Amo_Xor loaded operand = loaded XOR operand"
| "amo64 Amo_And loaded operand = loaded AND operand"
| "amo64 Amo_Or loaded operand = loaded OR operand"
| "amo64 Amo_Min loaded operand = (if sint loaded < sint operand then loaded else operand)"
| "amo64 Amo_Max loaded operand = (if sint loaded > sint operand then loaded else operand)"
| "amo64 Amo_MinUnsigned loaded operand = (if loaded < operand then loaded else operand)"
| "amo64 Amo_MaxUnsigned loaded operand = (if loaded > operand then loaded else operand)"
| "amo64 _ loaded operand = loaded"

definition compute_amo_result :: "atomic_kind \<Rightarrow> u64 \<Rightarrow> u64 \<Rightarrow> int \<Rightarrow> u64" where
  "compute_amo_result kind loaded operand n =
     (if n = 4 then ucast (amo32 kind (ucast loaded) (ucast operand)) else amo64 kind loaded operand)"

definition is_misaligned :: "u64 \<Rightarrow> int \<Rightarrow> bool" where
  "is_misaligned addr n \<longleftrightarrow> (if n = 4 then addr AND 0x3 \<noteq> 0 else addr AND 0x7 \<noteq> 0)"

definition access_crosses_page :: "u64 \<Rightarrow> int \<Rightarrow> bool" where
  "access_crosses_page addr n =
     (if n \<le> 0 then False
      else let page_offset = addr AND (4096 - 1) in page_offset + word_of_int n > 4096)"

definition decode_atomic_kind :: "insn \<Rightarrow> atomic_kind" where
  "decode_atomic_kind i =
     (let f5 = funct5 i in
      if f5 = 0x02 then Load_Reserved
      else if f5 = 0x03 then Store_Conditional
      else if f5 = 0x01 then Amo_Swap
      else if f5 = 0x00 then Amo_Add
      else if f5 = 0x04 then Amo_Xor
      else if f5 = 0x0C then Amo_And
      else if f5 = 0x08 then Amo_Or
      else if f5 = 0x10 then Amo_Min
      else if f5 = 0x14 then Amo_Max
      else if f5 = 0x18 then Amo_MinUnsigned
      else if f5 = 0x1C then Amo_MaxUnsigned
      else Atomic_None)"

definition invalidate_reservation_for_store :: "cpu \<Rightarrow> 'd bus \<Rightarrow> u64 \<Rightarrow> int \<Rightarrow> cpu \<times> 'd bus" where
  "invalidate_reservation_for_store p b addr n =
     (if n \<le> 0 \<or> access_crosses_page addr n then (clear_reservation p, b)
      else case mmu_translate (cpu_hart p, b) addr Access_Store False of
        (Inr paddr, (h1, b1)) \<Rightarrow> (invalidate_reservation (p\<lparr>cpu_hart := h1\<rparr>) paddr n, b1)
      | (Inl _, (h1, b1)) \<Rightarrow> (clear_reservation (p\<lparr>cpu_hart := h1\<rparr>), b1))"

definition build_atomic_effects :: "insn \<Rightarrow> u64 \<Rightarrow> u64 \<Rightarrow> insn_effects" where
  "build_atomic_effects i rs1v rs2v =
     (let kind = decode_atomic_kind i; illegal = illegal_instruction_effect (insn_raw i);
          effects = (\<lambda>n. no_effects\<lparr>eff_atomic := no_atomic\<lparr>aq_kind := kind, aq_addr := rs1v,
            aq_store_value := rs2v, aq_rd := rd i, aq_size := n, aq_aq := aq i \<noteq> 0, aq_rl := rl i \<noteq> 0\<rparr>\<rparr>) in
      if kind = Atomic_None then illegal
      else if funct3 i \<noteq> 0x2 \<and> funct3 i \<noteq> 0x3 then illegal
      else if kind = Load_Reserved \<and> rs2 i \<noteq> 0 then illegal
      else effects (if funct3 i = 0x2 then 4 else 8))"

record atomic_result =
  ar_ok :: bool
  ar_trap :: trap_request
  ar_rd_write :: reg_write
  ar_memory_observed :: bool
  ar_write_observed :: bool
  ar_paddr_valid :: bool
  ar_paddr :: u64
  ar_bytes :: u64

definition rd_write :: "u8 \<Rightarrow> u64 \<Rightarrow> reg_write" where
  "rd_write r v = \<lparr>rw_enable = True, rw_rd = r, rw_value = v\<rparr>"

definition fault_trap :: "fault \<Rightarrow> trap_request" where
  "fault_trap f = make_trap_request (fst f) (snd f)"

text \<open>The part of \<open>apply_atomic_request\<close> after the translation, one function per branch of its
  \<open>switch\<close>; \<open>r\<close> is the result so far.\<close>

definition apply_load_reserved ::
    "cpu \<Rightarrow> 'd bus \<Rightarrow> atomic_request \<Rightarrow> u64 \<Rightarrow> atomic_result \<Rightarrow> atomic_result \<times> cpu \<times> 'd bus" where
  "apply_load_reserved p b q paddr r =
     (case bus_load b paddr (aq_size q) of
        (None, b1) \<Rightarrow> (r\<lparr>ar_trap := make_trap_request (access_fault_cause Access_Load) (aq_addr q)\<rparr>, p, b1)
      | (Some loaded, b1) \<Rightarrow>
          (r\<lparr>ar_memory_observed := True, ar_write_observed := False,
             ar_rd_write := rd_write (aq_rd q) (load_result_value loaded (aq_size q)), ar_ok := True\<rparr>,
           set_reservation p paddr (aq_size q), b1))"

definition apply_store_conditional ::
    "cpu \<Rightarrow> 'd bus \<Rightarrow> atomic_request \<Rightarrow> u64 \<Rightarrow> atomic_result \<Rightarrow> atomic_result \<times> cpu \<times> 'd bus" where
  "apply_store_conditional p b q paddr r =
     (let matched = reservation_matches p paddr (aq_size q); p1 = clear_reservation p in
      if \<not> matched then (r\<lparr>ar_rd_write := rd_write (aq_rd q) 1, ar_ok := True\<rparr>, p1, b)
      else case bus_store b paddr (store_masked_value (aq_store_value q) (aq_size q)) (aq_size q) of
        (False, b1) \<Rightarrow> (r\<lparr>ar_trap := make_trap_request (access_fault_cause Access_Store) (aq_addr q)\<rparr>, p1, b1)
      | (True, b1) \<Rightarrow>
          (r\<lparr>ar_memory_observed := True, ar_write_observed := True, ar_rd_write := rd_write (aq_rd q) 0,
             ar_ok := True\<rparr>, p1, b1))"

definition apply_amo ::
    "cpu \<Rightarrow> 'd bus \<Rightarrow> atomic_request \<Rightarrow> u64 \<Rightarrow> atomic_result \<Rightarrow> atomic_result \<times> cpu \<times> 'd bus" where
  "apply_amo p b q paddr r =
     (let fault = make_trap_request (access_fault_cause Access_Store) (aq_addr q) in
      case bus_load b paddr (aq_size q) of
        (None, b1) \<Rightarrow> (r\<lparr>ar_trap := fault\<rparr>, p, b1)
      | (Some loaded, b1) \<Rightarrow>
          (let stored = compute_amo_result (aq_kind q) loaded (aq_store_value q) (aq_size q) in
           case bus_store b1 paddr (store_masked_value stored (aq_size q)) (aq_size q) of
             (False, b2) \<Rightarrow> (r\<lparr>ar_trap := fault\<rparr>, p, b2)
           | (True, b2) \<Rightarrow>
               (r\<lparr>ar_memory_observed := True, ar_write_observed := True,
                  ar_rd_write := rd_write (aq_rd q) (load_result_value loaded (aq_size q)), ar_ok := True\<rparr>,
                invalidate_reservation p paddr (aq_size q), b2)))"

definition apply_atomic_request ::
    "cpu \<Rightarrow> 'd bus \<Rightarrow> atomic_request \<Rightarrow> atomic_result \<times> cpu \<times> 'd bus" where
  "apply_atomic_request p b q =
     (let r = \<lparr>ar_ok = False, ar_trap = no_trap, ar_rd_write = no_reg_write, ar_memory_observed = False,
                ar_write_observed = False, ar_paddr_valid = False, ar_paddr = 0, ar_bytes = word_of_int (aq_size q)\<rparr>;
          ty = (if aq_kind q = Load_Reserved then Access_Load else Access_Store) in
      if aq_kind q = Atomic_None then (r\<lparr>ar_ok := True\<rparr>, p, b)
      else if (aq_size q \<noteq> 4 \<and> aq_size q \<noteq> 8) \<or> is_misaligned (aq_addr q) (aq_size q) then
        (r\<lparr>ar_trap := make_trap_request (access_fault_cause ty) (aq_addr q)\<rparr>, p, b)
      else case mmu_translate (cpu_hart p, b) (aq_addr q) ty True of
        (Inl fault, (h1, b1)) \<Rightarrow> (r\<lparr>ar_trap := fault_trap fault\<rparr>, p\<lparr>cpu_hart := h1\<rparr>, b1)
      | (Inr paddr, (h1, b1)) \<Rightarrow>
          (let p1 = p\<lparr>cpu_hart := h1\<rparr>; r1 = r\<lparr>ar_paddr_valid := True, ar_paddr := paddr\<rparr> in
           if aq_kind q = Load_Reserved then apply_load_reserved p1 b1 q paddr r1
           else if aq_kind q = Store_Conditional then apply_store_conditional p1 b1 q paddr r1
           else apply_amo p1 b1 q paddr r1))"

end
