(* ===== verification/BusDma.thy ===== *)
theory BusDma
  imports Bus
begin

text \<open>
  Regions, DMA transfers and clock ticks on the bus (\<open>src/mem/bus.cpp\<close>, \<open>src/mem/memory_region.h\<close>,
  \<open>src/mem/dma_transaction.h\<close>).  The label and detail strings of the results, which only feed messages, are
  omitted.
\<close>

subsection \<open>Regions\<close>

definition make_unmapped_region_info :: region_info where
  "make_unmapped_region_info = \<lparr>ri_kind = Region_Unmapped, ri_cacheable = False, ri_dma_visible = False,
     ri_has_side_effect = False, ri_supports_burst = False\<rparr>"

text \<open>The default of \<open>Device::region_info\<close>, which every MMIO device of the machine keeps.\<close>

definition mmio_region :: region_info where
  "mmio_region = \<lparr>ri_kind = Region_Mmio, ri_cacheable = False, ri_dma_visible = False,
     ri_has_side_effect = True, ri_supports_burst = False\<rparr>"

definition ram_region :: region_info where
  "ram_region = \<lparr>ri_kind = Region_Ram, ri_cacheable = True, ri_dma_visible = True,
     ri_has_side_effect = False, ri_supports_burst = True\<rparr>"

definition target_region :: "'d bus \<Rightarrow> bus_target \<Rightarrow> region_info" where
  "target_region b t = (case t of To_Ram \<Rightarrow> ram_region | To_Device i \<Rightarrow> dev_region (bus_devices b ! i))"

definition describe_region :: "'d bus \<Rightarrow> u64 \<Rightarrow> int \<Rightarrow> region_info" where
  "describe_region b addr len =
     (case find_device b addr len of Some t \<Rightarrow> target_region b t | None \<Rightarrow> make_unmapped_region_info)"

record span_info =
  si_ok :: bool
  si_region :: region_info

definition describe_span :: "'d bus \<Rightarrow> u64 \<Rightarrow> u64 \<Rightarrow> span_info" where
  "describe_span b addr bytes =
     (if bytes = 0 then \<lparr>si_ok = False, si_region = make_unmapped_region_info\<rparr>
      else let region = describe_region b addr 1 in
        if ri_kind region = Region_Unmapped then \<lparr>si_ok = False, si_region = region\<rparr>
        else if ram_contains addr bytes then \<lparr>si_ok = True, si_region = ram_region\<rparr>
        else case first_index (\<lambda>i. device_contains (bus_devices b ! i) addr bytes) (length (bus_devices b)) of
          Some i \<Rightarrow> \<lparr>si_ok = True, si_region = dev_region (bus_devices b ! i)\<rparr>
        | None \<Rightarrow> \<lparr>si_ok = False, si_region = region\<rparr>)"

subsection \<open>DMA\<close>

datatype dma_fault = Dma_None | Dma_InvalidArguments | Dma_Unmapped | Dma_SpanCrossesRegionBoundary
  | Dma_RegionNotDmaVisible | Dma_SideEffectRegion | Dma_BurstNotSupported | Dma_DeviceFault

record dma_transaction =
  tx_initiator :: "string option"
  tx_addr :: u64
  tx_size :: u64
  tx_burst :: bool

record dma_result =
  dr_ok :: bool
  dr_fault :: dma_fault
  dr_transferred :: nat
  dr_region :: region_info

definition make_dma_result :: dma_result where
  "make_dma_result = \<lparr>dr_ok = False, dr_fault = Dma_InvalidArguments, dr_transferred = 0,
     dr_region = make_unmapped_region_info\<rparr>"

definition fail_dma_result :: "dma_result \<Rightarrow> dma_fault \<Rightarrow> region_info \<Rightarrow> dma_result" where
  "fail_dma_result r fault region = r\<lparr>dr_ok := False, dr_fault := fault, dr_region := region\<rparr>"

text \<open>\<open>Inl\<close> is the return value \<open>false\<close>, with the result so far.\<close>

definition validate_dma_request :: "dma_transaction \<Rightarrow> bool \<Rightarrow> dma_result \<Rightarrow> dma_result + dma_result" where
  "validate_dma_request tx data_null r =
     (if tx_initiator tx = None \<or> tx_initiator tx = Some [] then
        Inl (fail_dma_result r Dma_InvalidArguments make_unmapped_region_info)
      else if tx_size tx = 0 then Inl (r\<lparr>dr_ok := True, dr_fault := Dma_None\<rparr>)
      else if data_null then Inl (fail_dma_result r Dma_InvalidArguments make_unmapped_region_info)
      else Inr r)"

text \<open>The checks that \<open>dma_read\<close> and \<open>dma_write\<close> share, up to the transfer loop: the result of an early
  return, or the region and the device.\<close>

definition dma_prepare :: "'d bus \<Rightarrow> dma_transaction \<Rightarrow> bool \<Rightarrow> dma_result + dma_result \<times> region_info \<times> bus_target" where
  "dma_prepare b tx data_null =
     (case validate_dma_request tx data_null make_dma_result of
        Inl r \<Rightarrow> Inl r
      | Inr r \<Rightarrow>
          let span = describe_span b (tx_addr tx) (tx_size tx); region = si_region span in
          if \<not> si_ok span then
            Inl (fail_dma_result r (if ri_kind region = Region_Unmapped then Dma_Unmapped
                                    else Dma_SpanCrossesRegionBoundary) region)
          else if ri_has_side_effect region then Inl (fail_dma_result r Dma_SideEffectRegion region)
          else if \<not> ri_dma_visible region then Inl (fail_dma_result r Dma_RegionNotDmaVisible region)
          else if tx_burst tx \<and> \<not> ri_supports_burst region then Inl (fail_dma_result r Dma_BurstNotSupported region)
          else case find_device b (tx_addr tx) 1 of
            None \<Rightarrow> Inl (fail_dma_result r Dma_Unmapped region)
          | Some t \<Rightarrow> Inr (r, region, t))"

definition target_load :: "'d bus \<Rightarrow> bus_target \<Rightarrow> u64 \<Rightarrow> int \<Rightarrow> u64 option \<times> 'd bus" where
  "target_load b t addr len =
     (case t of
        To_Ram \<Rightarrow> (Some (mem_read (bus_ram b) addr len), b)
      | To_Device i \<Rightarrow>
          (case dev_load (bus_devices b ! i) (bus_world b) addr len of (v, w) \<Rightarrow> (v, set_world b w)))"

definition target_store :: "'d bus \<Rightarrow> bus_target \<Rightarrow> u64 \<Rightarrow> u64 \<Rightarrow> int \<Rightarrow> bool \<times> 'd bus" where
  "target_store b t addr v len =
     (case t of
        To_Ram \<Rightarrow> (True, b\<lparr>bus_ram := mem_write (bus_ram b) addr v len\<rparr>)
      | To_Device i \<Rightarrow>
          (case dev_store (bus_devices b ! i) (bus_world b) addr v len of (ok, w) \<Rightarrow> (ok, set_world b w)))"

text \<open>The transfer loops, from byte \<open>i\<close> on with \<open>k\<close> bytes to go: whether all went through, the bytes read or
  the number written, and the bus.\<close>

fun dma_read_loop :: "'d bus \<Rightarrow> bus_target \<Rightarrow> u64 \<Rightarrow> nat \<Rightarrow> nat \<Rightarrow> u8 list \<Rightarrow> bool \<times> u8 list \<times> 'd bus" where
  "dma_read_loop b t addr i 0 bytes = (True, bytes, b)"
| "dma_read_loop b t addr i (Suc k) bytes =
     (case target_load b t (addr + of_nat i) 1 of
        (None, b1) \<Rightarrow> (False, bytes, b1)
      | (Some v, b1) \<Rightarrow> dma_read_loop b1 t addr (Suc i) k (bytes @ [ucast (v AND 0xFF)]))"

fun dma_write_loop :: "'d bus \<Rightarrow> bus_target \<Rightarrow> u64 \<Rightarrow> u8 list \<Rightarrow> nat \<Rightarrow> nat \<Rightarrow> bool \<times> nat \<times> 'd bus" where
  "dma_write_loop b t addr data i 0 = (True, i, b)"
| "dma_write_loop b t addr data i (Suc k) =
     (case target_store b t (addr + of_nat i) (ucast (data ! i)) 1 of
        (False, b1) \<Rightarrow> (False, i, b1)
      | (True, b1) \<Rightarrow> dma_write_loop b1 t addr data (Suc i) k)"

text \<open>The bytes that \<open>dma_read\<close> stored into the buffer come with the result.\<close>

definition dma_read :: "'d bus \<Rightarrow> dma_transaction \<Rightarrow> bool \<Rightarrow> dma_result \<times> u8 list \<times> 'd bus" where
  "dma_read b tx data_null =
     (case dma_prepare b tx data_null of
        Inl r \<Rightarrow> (r, [], b)
      | Inr (r, region, t) \<Rightarrow>
          (case dma_read_loop b t (tx_addr tx) 0 (unat (tx_size tx)) [] of
             (False, bytes, b1) \<Rightarrow>
               (fail_dma_result (r\<lparr>dr_transferred := length bytes\<rparr>) Dma_DeviceFault region, bytes, b1)
           | (True, bytes, b1) \<Rightarrow>
               (r\<lparr>dr_ok := True, dr_fault := Dma_None, dr_transferred := length bytes, dr_region := region\<rparr>, bytes, b1)))"

text \<open>\<open>data\<close> is the buffer of \<open>tx_size\<close> bytes, or NULL.\<close>

definition dma_write :: "'d bus \<Rightarrow> dma_transaction \<Rightarrow> u8 list option \<Rightarrow> dma_result \<times> 'd bus" where
  "dma_write b tx data =
     (case dma_prepare b tx (data = None) of
        Inl r \<Rightarrow> (r, b)
      | Inr (r, region, t) \<Rightarrow>
          (case dma_write_loop b t (tx_addr tx) (the data) 0 (unat (tx_size tx)) of
             (False, n, b1) \<Rightarrow> (fail_dma_result (r\<lparr>dr_transferred := n\<rparr>) Dma_DeviceFault region, b1)
           | (True, n, b1) \<Rightarrow> (r\<lparr>dr_ok := True, dr_fault := Dma_None, dr_transferred := n, dr_region := region\<rparr>, b1)))"

definition dma_load_bytes :: "'d bus \<Rightarrow> u64 \<Rightarrow> bool \<Rightarrow> u64 \<Rightarrow> string option \<Rightarrow> bool \<times> u8 list \<times> 'd bus" where
  "dma_load_bytes b addr data_null n initiator =
     (case dma_read b \<lparr>tx_initiator = initiator, tx_addr = addr, tx_size = n, tx_burst = n > 1\<rparr> data_null of
        (r, bytes, b1) \<Rightarrow> (dr_ok r, bytes, b1))"

definition dma_store_bytes :: "'d bus \<Rightarrow> u64 \<Rightarrow> u8 list option \<Rightarrow> u64 \<Rightarrow> string option \<Rightarrow> bool \<times> 'd bus" where
  "dma_store_bytes b addr data n initiator =
     (case dma_write b \<lparr>tx_initiator = initiator, tx_addr = addr, tx_size = n, tx_burst = n > 1\<rparr> data of
        (r, b1) \<Rightarrow> (dr_ok r, b1))"

definition dma_complete :: "dma_transaction \<Rightarrow> dma_result \<Rightarrow> bool" where
  "dma_complete tx r \<longleftrightarrow> dr_ok r \<and> dr_transferred r = unat (tx_size tx)"

definition dma_partial :: "dma_transaction \<Rightarrow> dma_result \<Rightarrow> bool" where
  "dma_partial tx r \<longleftrightarrow> dr_transferred r \<noteq> 0 \<and> dr_transferred r < unat (tx_size tx)"

subsection \<open>Ticks\<close>

definition no_events :: platform_events where
  "no_events = \<lparr>timer_interrupt_pending = False, machine_external_interrupt_pending = False,
     supervisor_external_interrupt_pending = False\<rparr>"

definition merge_events :: "platform_events \<Rightarrow> platform_events \<Rightarrow> platform_events" where
  "merge_events e f =
     \<lparr>timer_interrupt_pending = timer_interrupt_pending e \<or> timer_interrupt_pending f,
      machine_external_interrupt_pending = machine_external_interrupt_pending e \<or> machine_external_interrupt_pending f,
      supervisor_external_interrupt_pending =
        supervisor_external_interrupt_pending e \<or> supervisor_external_interrupt_pending f\<rparr>"

text \<open>RAM keeps the default of \<open>Device\<close>: no events.\<close>

definition bus_peek_events :: "'d bus \<Rightarrow> platform_events" where
  "bus_peek_events b =
     foldl (\<lambda>e d. merge_events e (dev_peek_events d (bus_heap b))) (merge_events no_events no_events) (bus_devices b)"

fun tick_devices :: "platform_events \<Rightarrow> 'd device list \<Rightarrow> 'd \<times> memory \<Rightarrow> platform_events \<times> 'd \<times> memory" where
  "tick_devices e [] w = (e, w)"
| "tick_devices e (d # ds) w = (case dev_tick d w of (f, w1) \<Rightarrow> tick_devices (merge_events e f) ds w1)"

definition bus_tick :: "'d bus \<Rightarrow> platform_events \<times> 'd bus" where
  "bus_tick b =
     (case tick_devices (merge_events no_events no_events) (bus_devices b) (bus_world b) of
        (e, w) \<Rightarrow> (e, set_world b w))"

end
