(* ===== verification/VectorOps.thy ===== *)
theory VectorOps
  imports InsnEffects Mmu BusDma
begin

text \<open>
  The vector unit (\<open>src/exec/vector_ops.cpp\<close>, \<open>src/arch/vector_state.h\<close>): 32 registers of 16 bytes,
  an element width of 1, 2, 4 or 8 bytes and a length.
\<close>

record vector_state =
  vs_regs :: "vector_reg carray"
  vs_sew_bytes :: u8
  vs_vl :: u8

definition vector_reset :: vector_state where
  "vector_reset = \<lparr>vs_regs = (\<lambda>_ _. 0), vs_sew_bytes = 1, vs_vl = 0\<rparr>"

definition vector_read_reg :: "vector_state \<Rightarrow> u8 \<Rightarrow> vector_reg" where
  "vector_read_reg v idx = vs_regs v (unat (idx AND 0x1F))"

definition vector_write_reg :: "vector_state \<Rightarrow> u8 \<Rightarrow> vector_reg \<Rightarrow> vector_state" where
  "vector_write_reg v idx reg = v\<lparr>vs_regs := (vs_regs v)(unat (idx AND 0x1F) := reg)\<rparr>"

definition is_valid_sew_bytes :: "u8 \<Rightarrow> bool" where
  "is_valid_sew_bytes sew \<longleftrightarrow> sew = 1 \<or> sew = 2 \<or> sew = 4 \<or> sew = 8"

definition max_vl_for_sew :: "u8 \<Rightarrow> u8" where
  "max_vl_for_sew sew = (if \<not> is_valid_sew_bytes sew then 0 else 16 div sew)"

definition is_valid_config :: "u8 \<Rightarrow> u8 \<Rightarrow> bool \<Rightarrow> bool" where
  "is_valid_config sew vl allow_zero_vl =
     (let max_vl = max_vl_for_sew sew in
      if max_vl = 0 then False
      else if allow_zero_vl \<and> vl = 0 then True
      else vl \<ge> 1 \<and> vl \<le> max_vl)"

definition set_config :: "vector_state \<Rightarrow> u8 \<Rightarrow> u8 \<Rightarrow> vector_state option" where
  "set_config v sew vl =
     (if \<not> is_valid_config sew vl False then None else Some (v\<lparr>vs_sew_bytes := sew, vs_vl := vl\<rparr>))"

definition read_runtime_config :: "vector_state \<Rightarrow> (u8 \<times> u8) option" where
  "read_runtime_config v =
     (if is_valid_config (vs_sew_bytes v) (vs_vl v) True then Some (vs_sew_bytes v, vs_vl v) else None)"

subsection \<open>Elements\<close>

definition decode_sew_bytes :: "u8 \<Rightarrow> u8" where
  "decode_sew_bytes sew_code = sew_code + 1"

definition element_mask :: "nat \<Rightarrow> u64" where
  "element_mask sew = (if sew \<ge> 8 then NOT 0 else push_bit (sew * 8) 1 - 1)"

definition load_element :: "vector_reg \<Rightarrow> nat \<Rightarrow> nat \<Rightarrow> u64" where
  "load_element reg offset sew = from_le (arr_read reg offset sew)"

definition store_element :: "vector_reg \<Rightarrow> nat \<Rightarrow> nat \<Rightarrow> u64 \<Rightarrow> vector_reg" where
  "store_element reg offset sew v = arr_write reg offset (to_le sew v)"

definition sign_extend_element :: "u64 \<Rightarrow> nat \<Rightarrow> int" where
  "sign_extend_element v sew =
     (if sew \<ge> 8 then sint v else let shift = 64 - sew * 8 in sint (signed_drop_bit shift (push_bit shift v)))"

definition lane_value :: "vector_kind \<Rightarrow> nat \<Rightarrow> u64 \<Rightarrow> u64 \<Rightarrow> u64" where
  "lane_value kind sew a b =
     (if kind = Vector_Add then (a + b) AND element_mask sew
      else if kind = Vector_Mul then (a * b) AND element_mask sew
      else (if sign_extend_element a sew \<ge> sign_extend_element b sew then a else b) AND element_mask sew)"

fun alu_lanes :: "vector_kind \<Rightarrow> vector_reg \<Rightarrow> vector_reg \<Rightarrow> nat \<Rightarrow> nat \<Rightarrow> vector_reg" where
  "alu_lanes kind lhs rhs sew 0 = (\<lambda>_. 0)"
| "alu_lanes kind lhs rhs sew (Suc lane) =
     (let offset = lane * sew in
      store_element (alu_lanes kind lhs rhs sew lane) offset sew
        (lane_value kind sew (load_element lhs offset sew) (load_element rhs offset sew)))"

definition dot_sum :: "vector_reg \<Rightarrow> vector_reg \<Rightarrow> nat \<Rightarrow> nat \<Rightarrow> 128 word" where
  "dot_sum lhs rhs sew vl =
     sum_list (map (\<lambda>lane. word_of_int (sign_extend_element (load_element lhs (lane * sew) sew) sew) *
                            word_of_int (sign_extend_element (load_element rhs (lane * sew) sew) sew)) [0..<vl])"

definition is_non_memory_vector_alu :: "vector_kind \<Rightarrow> bool" where
  "is_non_memory_vector_alu kind \<longleftrightarrow> kind \<in> {Vector_Add, Vector_Mul, Vector_Max, Vector_Dot}"

text \<open>\<open>None\<close> is a result that is not ok; its trap is \<open>illegal_trap(0)\<close>.\<close>

definition compute_vector_alu_result :: "vector_state \<Rightarrow> vector_request \<Rightarrow> vector_reg option" where
  "compute_vector_alu_result v q =
     (if \<not> is_non_memory_vector_alu (vq_kind q) then None
      else case read_runtime_config v of
        None \<Rightarrow> None
      | Some (sew, vl) \<Rightarrow>
          let lhs = vector_read_reg v (vq_vs1 q); rhs = vector_read_reg v (vq_vs2 q) in
          Some (if vq_kind q = Vector_Dot
                then store_element (\<lambda>_. 0) 0 8 (ucast (dot_sum lhs rhs (unat sew) (unat vl)))
                else alu_lanes (vq_kind q) lhs rhs (unat sew) (unat vl)))"

subsection \<open>Effects of an instruction\<close>

definition is_vector_opcode :: "u8 \<Rightarrow> bool" where
  "is_vector_opcode opc \<longleftrightarrow> opc = 0x57 \<or> opc = 0x07 \<or> opc = 0x27"

definition vector_effect :: "vector_request \<Rightarrow> insn_effects" where
  "vector_effect q = no_effects\<lparr>eff_vector := q\<rparr>"

definition build_vector_effects :: "insn \<Rightarrow> u64 \<Rightarrow> insn_effects" where
  "build_vector_effects i rs1v =
     (let illegal = illegal_instruction_effect (insn_raw i);
          alu = no_vector\<lparr>vq_vd := rd i, vq_vs1 := rs1 i, vq_vs2 := rs2 i\<rparr> in
      if \<not> is_vector_opcode (opcode i) then illegal
      else if opcode i = 0x57 then
        (if funct3 i = 7 then
           (if drop_bit 3 (funct7 i) \<noteq> 0x8 then illegal
            else let sew = decode_sew_bytes (funct7 i AND 0x7); vl = rs2 i + 1 in
              if \<not> is_valid_config sew vl False then illegal
              else vector_effect (no_vector\<lparr>vq_kind := Vector_SetConfig, vq_sew_bytes := sew, vq_vl := vl\<rparr>))
         else if funct3 i \<noteq> 0 then illegal
         else if funct7 i = 0x00 then vector_effect (alu\<lparr>vq_kind := Vector_Add\<rparr>)
         else if funct7 i = 0x20 then vector_effect (alu\<lparr>vq_kind := Vector_Mul\<rparr>)
         else if funct7 i = 0x21 then vector_effect (alu\<lparr>vq_kind := Vector_Max\<rparr>)
         else if funct7 i = 0x22 then vector_effect (alu\<lparr>vq_kind := Vector_Dot\<rparr>)
         else illegal)
      else if funct3 i \<noteq> 0 then illegal
      else if opcode i = 0x07 then
        vector_effect (no_vector\<lparr>vq_kind := Vector_Load, vq_vd := rd i, vq_addr := rs1v + imm i\<rparr>)
      else vector_effect (no_vector\<lparr>vq_kind := Vector_Store, vq_vs2 := rs2 i, vq_addr := rs1v + imm i\<rparr>))"

subsection \<open>Applying a request\<close>

definition is_ram_span :: "'d bus \<Rightarrow> u64 \<Rightarrow> u64 \<Rightarrow> bool" where
  "is_ram_span b addr bytes \<longleftrightarrow>
     si_ok (describe_span b addr bytes) \<and> ri_kind (si_region (describe_span b addr bytes)) = Region_Ram"

text \<open>The loop of \<open>validate_vector_memory_span\<close> over the bytes left; the span that grows is its first
  address, its length and its last address, \<open>None\<close> before the first byte.\<close>

fun validate_span_loop ::
    "'d mmu \<Rightarrow> u64 \<Rightarrow> nat \<Rightarrow> access_type \<Rightarrow> (u64 \<times> u64 \<times> u64) option \<Rightarrow> fault option \<times> 'd mmu" where
  "validate_span_loop x addr 0 ty span = (None, x)"
| "validate_span_loop x addr (Suc n) ty span =
     (case mmu_translate x addr ty False of
        (Inl fault, x1) \<Rightarrow> (Some fault, x1)
      | (Inr paddr, (h1, b1)) \<Rightarrow>
          (let fresh = (if is_ram_span b1 paddr 1 then Inr (Some (paddr, 1, paddr))
                        else Inl (access_fault_cause (if ty = Access_Store then Access_Store else Access_Load), addr));
               next = (case span of
                   Some (span_paddr, span_bytes, previous) \<Rightarrow>
                     (if paddr = previous + 1 \<and> is_ram_span b1 span_paddr (span_bytes + 1)
                      then Inr (Some (span_paddr, span_bytes + 1, paddr)) else fresh)
                 | None \<Rightarrow> fresh) in
           case next of
             Inl fault \<Rightarrow> (Some fault, (h1, b1))
           | Inr span' \<Rightarrow> validate_span_loop (h1, b1) (addr + 1) n ty span'))"

definition validate_vector_memory_span :: "'d mmu \<Rightarrow> u64 \<Rightarrow> nat \<Rightarrow> access_type \<Rightarrow> fault option \<times> 'd mmu" where
  "validate_vector_memory_span x addr bytes ty = validate_span_loop x addr bytes ty None"

text \<open>The byte loops of the load and the store.\<close>

fun vector_load_loop :: "'d mmu \<Rightarrow> u64 \<Rightarrow> nat \<Rightarrow> nat \<Rightarrow> vector_reg \<Rightarrow> (fault + vector_reg) \<times> 'd mmu" where
  "vector_load_loop x addr i 0 reg = (Inr reg, x)"
| "vector_load_loop x addr i (Suc n) reg =
     (case load_result x (addr + of_nat i) 1 of
        (Inl fault, x1) \<Rightarrow> (Inl fault, x1)
      | (Inr v, x1) \<Rightarrow> vector_load_loop x1 addr (Suc i) n (reg(i := ucast (v AND 0xFF))))"

fun vector_store_loop :: "'d mmu \<Rightarrow> u64 \<Rightarrow> nat \<Rightarrow> nat \<Rightarrow> vector_reg \<Rightarrow> fault option \<times> 'd mmu" where
  "vector_store_loop x addr i 0 reg = (None, x)"
| "vector_store_loop x addr i (Suc n) reg =
     (case store_result x (addr + of_nat i) (ucast (reg i)) 1 of
        (Some fault, x1) \<Rightarrow> (Some fault, x1)
      | (None, x1) \<Rightarrow> vector_store_loop x1 addr (Suc i) n reg)"

definition illegal_trap0 :: trap_request where
  "illegal_trap0 = make_trap_request CAUSE_ILLEGAL_INSN 0"

definition vector_load :: "'d mmu \<Rightarrow> vector_state \<Rightarrow> vector_request \<Rightarrow> trap_request option \<times> vector_state \<times> 'd mmu" where
  "vector_load x v q =
     (case read_runtime_config v of
        None \<Rightarrow> (Some illegal_trap0, v, x)
      | Some (sew, vl) \<Rightarrow>
          if vl = 0 then (None, v, x)
          else let bytes = unat vl * unat sew in
            case validate_vector_memory_span x (vq_addr q) bytes Access_Load of
              (Some fault, x1) \<Rightarrow> (Some (make_trap_request (fst fault) (snd fault)), v, x1)
            | (None, x1) \<Rightarrow>
                (case vector_load_loop x1 (vq_addr q) 0 bytes (\<lambda>_. 0) of
                   (Inl fault, x2) \<Rightarrow> (Some (make_trap_request (fst fault) (snd fault)), v, x2)
                 | (Inr reg, x2) \<Rightarrow> (None, vector_write_reg v (vq_vd q) reg, x2)))"

definition vector_store :: "'d mmu \<Rightarrow> vector_state \<Rightarrow> vector_request \<Rightarrow> trap_request option \<times> vector_state \<times> 'd mmu" where
  "vector_store x v q =
     (case read_runtime_config v of
        None \<Rightarrow> (Some illegal_trap0, v, x)
      | Some (sew, vl) \<Rightarrow>
          if vl = 0 then (None, v, x)
          else let bytes = unat vl * unat sew in
            case validate_vector_memory_span x (vq_addr q) bytes Access_Store of
              (Some fault, x1) \<Rightarrow> (Some (make_trap_request (fst fault) (snd fault)), v, x1)
            | (None, x1) \<Rightarrow>
                (case vector_store_loop x1 (vq_addr q) 0 bytes (vector_read_reg v (vq_vs2 q)) of
                   (Some fault, x2) \<Rightarrow> (Some (make_trap_request (fst fault) (snd fault)), v, x2)
                 | (None, x2) \<Rightarrow> (None, v, x2)))"

text \<open>\<open>None\<close> in the first component is a result that is ok.\<close>

definition apply_vector_request ::
    "'d mmu \<Rightarrow> vector_state \<Rightarrow> vector_request \<Rightarrow> trap_request option \<times> vector_state \<times> 'd mmu" where
  "apply_vector_request x v q =
     (case vq_kind q of
        Vector_None \<Rightarrow> (None, v, x)
      | Vector_SetConfig \<Rightarrow>
          (case set_config v (vq_sew_bytes q) (vq_vl q) of
             None \<Rightarrow> (Some illegal_trap0, v, x) | Some v1 \<Rightarrow> (None, v1, x))
      | Vector_Load \<Rightarrow> vector_load x v q
      | Vector_Store \<Rightarrow> vector_store x v q
      | _ \<Rightarrow>
          if vq_result_valid q then (None, vector_write_reg v (vq_vd q) (vq_result q), x)
          else case compute_vector_alu_result v q of
            None \<Rightarrow> (Some illegal_trap0, v, x)
          | Some reg \<Rightarrow> (None, vector_write_reg v (vq_vd q) reg, x))"

end
