(* ===== verification/SystemOps.thy ===== *)
theory SystemOps
  imports InsnEffects
begin

text \<open>
  System instructions (\<open>src/exec/system_ops.cpp\<close>): environment calls, trap returns, \<open>SFENCE.VMA\<close>,
  \<open>WFI\<close> and the CSR instructions with their access checks.
\<close>

definition CSR_SCOUNTEREN :: u32 where "CSR_SCOUNTEREN = 0x106"
definition CSR_SSCRATCH :: u32 where "CSR_SSCRATCH = 0x140"
definition CSR_MCOUNTEREN :: u32 where "CSR_MCOUNTEREN = 0x306"
definition CSR_MSCRATCH :: u32 where "CSR_MSCRATCH = 0x340"
definition CSR_PMPCFG0 :: u32 where "CSR_PMPCFG0 = 0x3A0"
definition CSR_PMPADDR0 :: u32 where "CSR_PMPADDR0 = 0x3B0"

text \<open>\<open>CsrFile::is_implemented\<close>.\<close>

definition is_supported_csr :: "u32 \<Rightarrow> bool" where
  "is_supported_csr addr \<longleftrightarrow>
     is_hpmcounter_shadow addr \<or> is_mhpmcounter addr \<or> is_mhpmevent addr \<or>
     addr AND 0xFFF \<in> {CSR_SSTATUS, CSR_SIE, CSR_STVEC, CSR_SCOUNTEREN, CSR_SSCRATCH, CSR_SEPC, CSR_SCAUSE,
       CSR_STVAL, CSR_SIP, CSR_SATP, CSR_FFLAGS, CSR_FRM, CSR_FCSR, CSR_MSTATUS, CSR_MISA, CSR_MEDELEG,
       CSR_MIDELEG, CSR_MIE, CSR_MTVEC, CSR_MCOUNTEREN, CSR_MCOUNTINHIBIT, CSR_MENVCFG, CSR_PMPCFG0,
       CSR_PMPADDR0, CSR_MCYCLE, CSR_MINSTRET, CSR_MSCRATCH, CSR_MEPC, CSR_MCAUSE, CSR_MTVAL, CSR_MIP,
       CSR_MHARTID, CSR_CYCLE, CSR_TIME, CSR_INSTRET, CSR_STIMECMP}"

subsection \<open>Recognisers and access checks\<close>

definition is_sfence_vma :: "insn \<Rightarrow> bool" where
  "is_sfence_vma i \<longleftrightarrow> insn_raw i AND 0xFE007FFF = 0x12000073"

definition is_ecall :: "insn \<Rightarrow> bool" where
  "is_ecall i \<longleftrightarrow> opcode i = 0x73 \<and> funct3 i = 0 \<and> rd i = 0 \<and> rs1 i = 0 \<and> imm i = 0"

definition is_ebreak :: "insn \<Rightarrow> bool" where
  "is_ebreak i \<longleftrightarrow> opcode i = 0x73 \<and> funct3 i = 0 \<and> rd i = 0 \<and> rs1 i = 0 \<and> imm i = 1"

definition is_wfi :: "insn \<Rightarrow> bool" where
  "is_wfi i \<longleftrightarrow> insn_raw i = 0x10500073"

definition csr_instruction_writes :: "insn \<Rightarrow> bool" where
  "csr_instruction_writes i =
     (if funct3 i = 1 \<or> funct3 i = 5 then True
      else if funct3 i \<in> {2, 3, 6, 7} then rs1 i \<noteq> 0
      else False)"

definition is_floating_csr :: "u32 \<Rightarrow> bool" where
  "is_floating_csr addr \<longleftrightarrow> addr AND 0xFFF \<in> {CSR_FFLAGS, CSR_FRM, CSR_FCSR}"

definition counter_access_mask :: "u32 \<Rightarrow> u64" where
  "counter_access_mask addr =
     (let c = addr AND 0xFFF in
      if is_hpmcounter_shadow c \<or> is_mhpmcounter c then
        push_bit (unat (c - (if is_mhpmcounter c then CSR_MHPMCOUNTER3 else CSR_HPMCOUNTER3) + 3)) 1
      else if c = CSR_CYCLE then push_bit 0 1
      else if c = CSR_TIME then push_bit 1 1
      else if c = CSR_INSTRET then push_bit 2 1
      else 0)"

definition counter_read_allowed :: "hart \<Rightarrow> u32 \<Rightarrow> bool" where
  "counter_read_allowed h addr =
     (let msk = counter_access_mask addr in
      if msk = 0 then True
      else case cs_privilege_mode (h_core h) of
        Machine \<Rightarrow> True
      | Supervisor \<Rightarrow> csr h CSR_MCOUNTEREN AND msk \<noteq> 0
      | User \<Rightarrow> csr h CSR_MCOUNTEREN AND msk \<noteq> 0 \<and> csr h CSR_SCOUNTEREN AND msk \<noteq> 0)"

definition privilege_number :: "privilege_mode \<Rightarrow> u32" where
  "privilege_number m = (case m of User \<Rightarrow> 0 | Supervisor \<Rightarrow> 1 | Machine \<Rightarrow> 3)"

definition csr_access_allowed :: "hart \<Rightarrow> u32 \<Rightarrow> bool \<Rightarrow> bool" where
  "csr_access_allowed h addr write_access =
     (if \<not> is_supported_csr addr then False
      else let required_privilege = drop_bit 8 addr AND 0x3;
               current_privilege = privilege_number (cs_privilege_mode (h_core h)) in
        if required_privilege = 2 \<or> current_privilege < required_privilege then False
        else if \<not> write_access \<and> \<not> counter_read_allowed h addr then False
        else if write_access \<and> addr = CSR_MISA then False
        else let read_only = (drop_bit 10 addr AND 0x3 = 0x3) in \<not> write_access \<or> \<not> read_only)"

subsection \<open>Effects\<close>

record semantic_inputs =
  in_pc :: u64
  in_rs1v :: u64
  in_rs2v :: u64
  in_rs3v :: u64
  in_csrv :: "u64 option"
  in_ecall_a7 :: "u64 option"

definition csr_effects :: "insn \<Rightarrow> u32 \<Rightarrow> u64 \<Rightarrow> bool \<Rightarrow> u64 \<Rightarrow> insn_effects" where
  "csr_effects i csr_addr old write_access v =
     (let e = set_rd no_effects (rd i) old in
      if \<not> write_access then e
      else e\<lparr>eff_csr := \<lparr>cw_enable = True, cw_addr = csr_addr, cw_value = v\<rparr>,
             eff_floating_touched := is_floating_csr csr_addr\<rparr>)"

definition ecall_effects :: "hart \<Rightarrow> semantic_inputs \<Rightarrow> insn_effects" where
  "ecall_effects h inputs =
     (let mode = cs_privilege_mode (h_core h);
          a7 = (case in_ecall_a7 inputs of Some v \<Rightarrow> v | None \<Rightarrow> read_gpr (h_core h) 17) in
      if mode = Machine \<and> a7 = 93 then no_effects\<lparr>eff_control := no_control\<lparr>ce_halt := True\<rparr>\<rparr>
      else trap_effect (make_trap_request (case mode of User \<Rightarrow> CAUSE_ECALL_U | Supervisor \<Rightarrow> CAUSE_ECALL_S
                                      | Machine \<Rightarrow> CAUSE_ECALL_M) 0))"

definition build_system_effects :: "insn \<Rightarrow> hart \<Rightarrow> semantic_inputs \<Rightarrow> insn_effects" where
  "build_system_effects i h inputs =
     (let csr_addr = drop_bit 20 (insn_raw i); mode = cs_privilege_mode (h_core h); f3 = funct3 i;
          illegal = illegal_instruction_effect (insn_raw i) in
      if f3 = 0 then
        (if is_ecall i then ecall_effects h inputs
         else if is_ebreak i then trap_effect (make_trap_request CAUSE_BREAKPOINT (in_pc inputs))
         else if insn_raw i = 0x30200073 then
           (if mode \<noteq> Machine then illegal
            else no_effects\<lparr>eff_control := no_control\<lparr>ce_trap_return := Return_Mret\<rparr>\<rparr>)
         else if insn_raw i = 0x10200073 then
           (if mode = User then illegal
            else no_effects\<lparr>eff_control := no_control\<lparr>ce_trap_return := Return_Sret\<rparr>\<rparr>)
         else if is_sfence_vma i then
           (if mode = User then illegal else no_effects\<lparr>eff_control := no_control\<lparr>ce_flush_tlb := True\<rparr>\<rparr>)
         else if is_wfi i then (if mode = User then illegal else no_effects)
         else illegal)
      else if f3 \<notin> {1, 2, 3, 5, 6, 7} then illegal
      else let w = csr_instruction_writes i in
        if \<not> csr_access_allowed h csr_addr w then illegal
        else
          let old = (case in_csrv inputs of Some v \<Rightarrow> v | None \<Rightarrow> csr h csr_addr);
              uimm = ucast (rs1 i) :: u64;
              v = (if f3 = 1 then in_rs1v inputs
                   else if f3 = 2 then old OR in_rs1v inputs
                   else if f3 = 3 then old AND NOT (in_rs1v inputs)
                   else if f3 = 5 then uimm
                   else if f3 = 6 then old OR uimm
                   else old AND NOT uimm)
          in csr_effects i csr_addr old w v)"

subsection \<open>What user mode may write\<close>

lemma drop_bit_range:
  fixes addr :: u32
  assumes "c * 2 ^ n \<le> unat addr" "unat addr < Suc c * 2 ^ n"
  shows "drop_bit n addr = of_nat c"
proof -
  have "unat addr div 2 ^ n = c"
    using assms by (intro Euclidean_Rings.div_nat_eqI) (simp_all add: ac_simps)
  then have "unat (drop_bit n addr) = c" by (simp only: unat_drop_bit_eq) (simp add: drop_bit_eq_div)
  then show ?thesis by (metis of_nat_unat ucast_id)
qed

lemma counter_ranges:
  "is_hpmcounter_shadow addr \<Longrightarrow> drop_bit 10 addr = 3"
  "is_mhpmcounter addr \<Longrightarrow> drop_bit 8 addr = 11"
  "is_mhpmevent addr \<Longrightarrow> drop_bit 8 addr = 3"
  using drop_bit_range [of 3 10 addr] drop_bit_range [of 11 8 addr] drop_bit_range [of 3 8 addr]
  by (simp_all add: is_hpmcounter_shadow_def is_mhpmcounter_def is_mhpmevent_def csr_addrs word_le_nat_alt)

lemma user_writable_csrs:
  assumes "is_supported_csr addr" "addr AND 0xFFF = addr" "drop_bit 8 addr AND 3 = 0" "drop_bit 10 addr AND 3 \<noteq> 3"
  shows "addr \<in> {CSR_FFLAGS, CSR_FRM, CSR_FCSR}"
proof -
  from assms(1) consider "is_hpmcounter_shadow addr" | "is_mhpmcounter addr" | "is_mhpmevent addr"
    | "addr AND 0xFFF \<in> {CSR_SSTATUS, CSR_SIE, CSR_STVEC, CSR_SCOUNTEREN, CSR_SSCRATCH, CSR_SEPC, CSR_SCAUSE,
       CSR_STVAL, CSR_SIP, CSR_SATP, CSR_FFLAGS, CSR_FRM, CSR_FCSR, CSR_MSTATUS, CSR_MISA, CSR_MEDELEG,
       CSR_MIDELEG, CSR_MIE, CSR_MTVEC, CSR_MCOUNTEREN, CSR_MCOUNTINHIBIT, CSR_MENVCFG, CSR_PMPCFG0,
       CSR_PMPADDR0, CSR_MCYCLE, CSR_MINSTRET, CSR_MSCRATCH, CSR_MEPC, CSR_MCAUSE, CSR_MTVAL, CSR_MIP,
       CSR_MHARTID, CSR_CYCLE, CSR_TIME, CSR_INSTRET, CSR_STIMECMP}"
    unfolding is_supported_csr_def by blast
  then show ?thesis
  proof cases
    case 4
    then show ?thesis
      using assms(3,4) unfolding assms(2) csr_addrs CSR_SCOUNTEREN_def CSR_SSCRATCH_def CSR_MCOUNTEREN_def
        CSR_MSCRATCH_def CSR_PMPCFG0_def CSR_PMPADDR0_def
      by (elim insertE emptyE) simp_all
  qed (use assms(3,4) counter_ranges [of addr] in simp_all)
qed

text \<open>The address of a CSR instruction has twelve bits.\<close>

lemma csr_addr_12: "drop_bit 20 raw AND 0xFFF = (drop_bit 20 raw :: u32)"
proof (rule bit_word_eqI)
  fix n :: nat
  have m: "(0xFFF :: u32) = mask 12" by (simp add: mask_eq_exp_minus_1)
  show "bit (drop_bit 20 raw AND 0xFFF) n = bit (drop_bit 20 raw) n"
    unfolding m using bit_imp_le_length [of raw "20 + n"] by (auto simp: bit_and_iff bit_mask_iff bit_drop_bit_eq)
qed

text \<open>In user mode a system instruction never returns from a trap, halts or flushes the TLB, and writes no
  CSR but the floating-point ones.\<close>

lemma user_system_effects:
  assumes u: "cs_privilege_mode (h_core h) = User" and e: "e = build_system_effects i h inputs"
  shows "eff_control e = no_control" "eff_mem e = no_memory" "eff_atomic e = no_atomic" "eff_vector e = no_vector"
    "cw_enable (eff_csr e) \<Longrightarrow> cw_addr (eff_csr e) \<in> {CSR_FFLAGS, CSR_FRM, CSR_FCSR}"
proof -
  show "eff_control e = no_control" "eff_mem e = no_memory" "eff_atomic e = no_atomic" "eff_vector e = no_vector"
    unfolding e by (auto simp: build_system_effects_def Let_def u illegal_instruction_effect_def ecall_effects_def csr_effects_def
        split: if_splits)
  assume w: "cw_enable (eff_csr e)"
  then have a: "csr_access_allowed h (drop_bit 20 (insn_raw i)) True" "cw_addr (eff_csr e) = drop_bit 20 (insn_raw i)"
    unfolding e by (auto simp: build_system_effects_def Let_def u illegal_instruction_effect_def ecall_effects_def csr_effects_def
        split: if_splits)
  from a(1) have "is_supported_csr (drop_bit 20 (insn_raw i))" "drop_bit 8 (drop_bit 20 (insn_raw i)) AND 3 = 0"
      "drop_bit 10 (drop_bit 20 (insn_raw i)) AND 3 \<noteq> 3"
    by (auto simp: csr_access_allowed_def Let_def u privilege_number_def word_gt_0 simp del: drop_bit_drop_bit split: if_splits)
  from user_writable_csrs [OF this(1) csr_addr_12 this(2,3)] show "cw_addr (eff_csr e) \<in> {CSR_FFLAGS, CSR_FRM, CSR_FCSR}"
    by (simp add: a(2))
qed

end
