(* ===== verification/InstructionSemantics.thy ===== *)
theory InstructionSemantics
  imports IntegerOps ControlFlowOps MemoryOps FloatingEffects AtomicOps VectorOps SystemOps
begin

text \<open>
  The interpreter's entry point (\<open>src/isa/instruction_semantics.cpp\<close>): which registers an instruction
  reads and writes, and the choice of its execution unit.  \<open>None\<close> is the host division by zero of the
  integer unit.
\<close>

definition MSTATUS_FS_OFF :: u64 where "MSTATUS_FS_OFF = push_bit 13 0"

definition is_floating_csr_access :: "insn \<Rightarrow> bool" where
  "is_floating_csr_access i \<longleftrightarrow>
     opcode i = 0x73 \<and> funct3 i \<noteq> 0 \<and> drop_bit 20 (insn_raw i) AND 0xFFF \<in> {CSR_FFLAGS, CSR_FRM, CSR_FCSR}"

definition requires_enabled_floating_state :: "insn \<Rightarrow> bool" where
  "requires_enabled_floating_state i \<longleftrightarrow>
     opcode i \<in> {0x53, 0x43, 0x47, 0x4B, 0x4F} \<or> is_standard_fp_load i \<or> is_standard_fp_store i \<or>
     is_floating_csr_access i"

definition semantics_supports :: "insn \<Rightarrow> bool" where
  "semantics_supports i \<longleftrightarrow>
     opcode i \<in> {0x37, 0x17, 0x13, 0x1B, 0x33, 0x3B, 0x0F, 0x6F, 0x67, 0x63, 0x03, 0x23, 0x2F, 0x73, 0x07, 0x27,
       0x53, 0x43, 0x47, 0x4B, 0x4F, 0x57}"

subsection \<open>Registers\<close>

datatype operand_kind = Operand_None | Operand_Gpr | Operand_Fpr

definition fp_moves_from_gpr :: "insn \<Rightarrow> bool" where
  "fp_moves_from_gpr i \<longleftrightarrow>
     is_fmv_d_x i \<or> is_fmv_w_x i \<or> is_fcvt_d_w i \<or> is_fcvt_d_wu i \<or> is_fcvt_d_l i \<or>
     is_fcvt_d_lu i \<or> is_fcvt_s_w i \<or> is_fcvt_s_wu i \<or> is_fcvt_s_l i \<or> is_fcvt_s_lu i"

definition fp_writes_fpr :: "insn \<Rightarrow> bool" where
  "fp_writes_fpr i \<longleftrightarrow>
     is_fmv_d_x i \<or> is_fmv_w_x i \<or> is_fmv_d i \<or> is_fneg_d i \<or> is_fsgnj_d i \<or> is_fsgnjn_d i
     \<or> is_fsgnjx_d i \<or> is_fsgnj_s i \<or> is_fsgnjn_s i \<or> is_fsgnjx_s i \<or> is_fadd_s i \<or>
     is_fsub_s i \<or> is_fmul_s i \<or> is_fdiv_s i \<or> is_fadd_d i \<or> is_fsub_d i \<or> is_fmul_d i
     \<or> is_fdiv_d i \<or> is_fmax_s i \<or> is_fmin_s i \<or> is_fmax_d i \<or> is_fmin_d i \<or>
     is_fsqrt_s i \<or> is_fsqrt_d i \<or> is_fmadd_s i \<or> is_fmsub_s i \<or> is_fnmsub_s i \<or>
     is_fnmadd_s i \<or> is_fmadd_d i \<or> is_fmsub_d i \<or> is_fnmsub_d i \<or> is_fnmadd_d i \<or>
     is_fcvt_d_w i \<or> is_fcvt_d_wu i \<or> is_fcvt_d_l i \<or> is_fcvt_d_lu i \<or> is_fcvt_s_w i \<or>
     is_fcvt_s_wu i \<or> is_fcvt_s_l i \<or> is_fcvt_s_lu i \<or> is_fcvt_d_s i \<or> is_fcvt_s_d i"

definition fp_writes_gpr :: "insn \<Rightarrow> bool" where
  "fp_writes_gpr i \<longleftrightarrow>
     is_fmv_x_d i \<or> is_fmv_x_w i \<or> is_fcvt_w_d i \<or> is_fcvt_wu_d i \<or> is_fcvt_l_d i \<or>
     is_fcvt_lu_d i \<or> is_fcvt_w_s i \<or> is_fcvt_wu_s i \<or> is_fcvt_l_s i \<or> is_fcvt_lu_s i \<or>
     is_feq_s i \<or> is_flt_s i \<or> is_fle_s i \<or> is_feq_d i \<or> is_flt_d i \<or> is_fle_d i \<or>
     is_fclass_s i \<or> is_fclass_d i"

definition describe_rs1 :: "insn \<Rightarrow> operand_kind" where
  "describe_rs1 i =
     (if floating_rs1_from_fpr i then Operand_Fpr
      else if fp_moves_from_gpr i then Operand_Gpr
      else if opcode i \<in> {0x13, 0x1B, 0x33, 0x3B, 0x67, 0x63, 0x03, 0x07, 0x23, 0x27, 0x2F} then Operand_Gpr
      else if opcode i = 0x73 \<and> (funct3 i = 1 \<or> funct3 i = 2 \<or> funct3 i = 3) then Operand_Gpr
      else Operand_None)"

definition describe_rs2 :: "insn \<Rightarrow> operand_kind" where
  "describe_rs2 i =
     (if floating_rs2_from_fpr i then Operand_Fpr
      else if is_standard_fp_store i then Operand_Fpr
      else if opcode i \<in> {0x33, 0x3B, 0x63, 0x23} then Operand_Gpr
      else if opcode i = 0x2F \<and> funct5 i \<noteq> 0x02 then Operand_Gpr
      else Operand_None)"

definition describe_rs3 :: "insn \<Rightarrow> operand_kind" where
  "describe_rs3 i = (if floating_rs3_from_fpr i then Operand_Fpr else Operand_None)"

definition describe_rd :: "insn \<Rightarrow> operand_kind" where
  "describe_rd i =
     (if is_standard_fp_load i then Operand_Fpr
      else if fp_writes_fpr i then Operand_Fpr
      else if rd i \<noteq> 0 \<and> fp_writes_gpr i then Operand_Gpr
      else if opcode i \<in> {0x03, 0x13, 0x17, 0x1B, 0x33, 0x37, 0x3B, 0x67, 0x6F, 0x2F} then
        (if rd i \<noteq> 0 then Operand_Gpr else Operand_None)
      else if opcode i = 0x73 then (if funct3 i \<noteq> 0 \<and> rd i \<noteq> 0 then Operand_Gpr else Operand_None)
      else Operand_None)"

definition describe_atomic_kind :: "insn \<Rightarrow> atomic_kind option" where
  "describe_atomic_kind i =
     (if opcode i \<noteq> 0x2F \<or> (funct3 i \<noteq> 2 \<and> funct3 i \<noteq> 3) then None
      else if decode_atomic_kind i = Atomic_None then None
      else Some (decode_atomic_kind i))"

subsection \<open>Execution\<close>

definition read_fpr :: "core_state \<Rightarrow> u32 \<Rightarrow> u64" where
  "read_fpr c idx = cs_fpr c (unat (idx AND 0x1F))"

definition write_fpr :: "core_state \<Rightarrow> u32 \<Rightarrow> u64 \<Rightarrow> core_state" where
  "write_fpr c idx v = c\<lparr>cs_fpr := (cs_fpr c)(unat (idx AND 0x1F) := v)\<rparr>"

definition read_operand :: "core_state \<Rightarrow> operand_kind \<Rightarrow> u8 \<Rightarrow> u64" where
  "read_operand c k idx = (if k = Operand_Fpr then read_fpr c (ucast idx) else read_gpr c (ucast idx))"

definition semantic_inputs_of :: "core_state \<Rightarrow> insn \<Rightarrow> semantic_inputs" where
  "semantic_inputs_of c i =
     \<lparr>in_pc = cs_pc c, in_rs1v = read_operand c (describe_rs1 i) (rs1 i),
      in_rs2v = read_operand c (describe_rs2 i) (rs2 i),
      in_rs3v = (if describe_rs3 i = Operand_Fpr then read_fpr c (ucast (rs3 i)) else 0),
      in_csrv = None, in_ecall_a7 = None\<rparr>"

definition execute_with_inputs :: "host_fp \<Rightarrow> insn \<Rightarrow> hart \<Rightarrow> semantic_inputs \<Rightarrow> insn_effects option" where
  "execute_with_inputs hf i h inputs =
     (if requires_enabled_floating_state i \<and> csr h CSR_MSTATUS AND MSTATUS_FS_MASK = MSTATUS_FS_OFF
      then Some (illegal_instruction_effect (insn_raw i))
      else if opcode i \<in> {0x37, 0x17, 0x13, 0x1B, 0x33, 0x3B, 0x0F} then
        build_integer_effects i (in_rs1v inputs) (in_rs2v inputs) (imm i) (in_pc inputs)
      else if opcode i \<in> {0x6F, 0x67, 0x63} then
        Some (build_control_flow_effects i (in_rs1v inputs) (in_rs2v inputs) (imm i) (in_pc inputs))
      else if opcode i \<in> {0x03, 0x23} then
        Some (build_memory_effects i (in_rs1v inputs) (in_rs2v inputs) (imm i))
      else if opcode i = 0x2F then Some (build_atomic_effects i (in_rs1v inputs) (in_rs2v inputs))
      else if opcode i \<in> {0x07, 0x27} then
        (if is_standard_fp_load i \<or> is_standard_fp_store i
         then Some (build_memory_effects i (in_rs1v inputs) (in_rs2v inputs) (imm i))
         else Some (build_vector_effects i (in_rs1v inputs)))
      else if opcode i \<in> {0x53, 0x43, 0x47, 0x4B, 0x4F} then
        Some (build_floating_effects hf i (in_rs1v inputs) (in_rs2v inputs) (in_rs3v inputs) (csr h CSR_FCSR))
      else if opcode i = 0x57 then Some (build_vector_effects i (in_rs1v inputs))
      else if opcode i = 0x73 then Some (build_system_effects i h inputs)
      else Some (illegal_instruction_effect (insn_raw i)))"

definition semantics_execute :: "host_fp \<Rightarrow> insn \<Rightarrow> hart \<Rightarrow> insn_effects option" where
  "semantics_execute hf i h = execute_with_inputs hf i h (semantic_inputs_of (h_core h) i)"

end
