(* ===== verification/CpuStep.thy ===== *)
theory CpuStep
  imports InstructionSemantics
begin

text \<open>
  One step of the simulated hart: the commit boundary that applies the effects of an instruction
  (\<open>src/exec/pipeline_commit_boundary.cpp\<close>) and the step that serves interrupts, fetches, decodes,
  executes and commits (\<open>cpu_step\<close> of \<open>src/cpu.cpp\<close>; \<open>FunctionalBackend::step\<close> is the same sequence with
  profiling).  The machine is the hart with its trap controller, the bus and the vector registers.  The L1
  data cache, which is off by default, is bypassed here: \<open>L1Cache\<close> models it.  The flag that an access
  reached a device, kept for the profiler, is not modelled.
\<close>

record 'd machine =
  mc_cpu :: cpu
  mc_bus :: "'d bus"
  mc_vector :: vector_state

abbreviation mc_hart :: "'d machine \<Rightarrow> hart" where
  "mc_hart m \<equiv> cpu_hart (mc_cpu m)"

abbreviation mc_core :: "'d machine \<Rightarrow> core_state" where
  "mc_core m \<equiv> h_core (cpu_hart (mc_cpu m))"

definition set_hart :: "'d machine \<Rightarrow> hart \<Rightarrow> 'd machine" where
  "set_hart m h = m\<lparr>mc_cpu := (mc_cpu m)\<lparr>cpu_hart := h\<rparr>\<rparr>"

definition set_core :: "'d machine \<Rightarrow> core_state \<Rightarrow> 'd machine" where
  "set_core m c = set_hart m ((mc_hart m)\<lparr>h_core := c\<rparr>)"

definition set_mmu :: "'d machine \<Rightarrow> 'd mmu \<Rightarrow> 'd machine" where
  "set_mmu m x = (set_hart m (fst x))\<lparr>mc_bus := snd x\<rparr>"

subsection \<open>The commit boundary\<close>

record commit_result =
  cb_retired :: bool
  cb_trap_taken :: bool
  cb_trap_flush :: bool
  cb_redirect :: bool
  cb_atomic_memory_observed :: bool
  cb_atomic_write_observed :: bool
  cb_atomic_paddr_valid :: bool
  cb_atomic_paddr :: u64
  cb_atomic_bytes :: u64
  cb_next_pc :: u64

definition empty_result :: "u64 \<Rightarrow> commit_result" where
  "empty_result next_pc = \<lparr>cb_retired = False, cb_trap_taken = False, cb_trap_flush = False, cb_redirect = False,
     cb_atomic_memory_observed = False, cb_atomic_write_observed = False, cb_atomic_paddr_valid = False,
     cb_atomic_paddr = 0, cb_atomic_bytes = 0, cb_next_pc = next_pc\<rparr>"

definition trap_result :: "'d machine \<Rightarrow> commit_result" where
  "trap_result m = (empty_result (cs_pc (mc_core m)))
     \<lparr>cb_trap_taken := True, cb_trap_flush := True, cb_redirect := True\<rparr>"

definition enter_precise_trap :: "'d machine \<Rightarrow> u64 \<Rightarrow> u64 \<times> u64 \<Rightarrow> commit_result \<times> 'd machine" where
  "enter_precise_trap m pc fault =
     (let m1 = set_core m ((mc_core m)\<lparr>cs_pc := pc\<rparr>);
          m2 = m1\<lparr>mc_cpu := enter_exception (mc_cpu m1) (fst fault) (snd fault)\<rparr>
      in (trap_result m2, m2))"

definition mark_floating_state_dirty :: "hart \<Rightarrow> hart" where
  "mark_floating_state_dirty h =
     csr_write h CSR_MSTATUS ((csr h CSR_MSTATUS AND NOT MSTATUS_FS_MASK) OR MSTATUS_FS_DIRTY)"

definition trap_fault :: "trap_request \<Rightarrow> fault" where
  "trap_fault t = (tr_cause t, tr_tval t)"

definition store_observation :: "atomic_result \<Rightarrow> commit_result \<Rightarrow> commit_result" where
  "store_observation a r = r\<lparr>cb_atomic_memory_observed := ar_memory_observed a,
     cb_atomic_write_observed := ar_write_observed a, cb_atomic_paddr_valid := ar_paddr_valid a,
     cb_atomic_paddr := ar_paddr a, cb_atomic_bytes := ar_bytes a\<rparr>"

text \<open>The scalar memory access: the effects with the loaded value, or the fault.\<close>

definition commit_memory :: "'d machine \<Rightarrow> insn_effects \<Rightarrow> (fault + insn_effects) \<times> 'd machine" where
  "commit_memory m e =
     (let q = eff_mem e in
      if mq_kind q = Mem_Load \<and> \<not> rw_enable (eff_rd e) \<and> \<not> rw_enable (eff_fp e) then
        (case load_result (mc_hart m, mc_bus m) (mq_addr q) (mq_size q) of
           (Inl fault, x) \<Rightarrow> (Inl fault, set_mmu m x)
         | (Inr v, x) \<Rightarrow>
             (Inr (if mq_target q = Target_Float
                   then e\<lparr>eff_fp := \<lparr>rw_enable = True, rw_rd = mq_rd q, rw_value = v\<rparr>\<rparr>
                   else e\<lparr>eff_rd := \<lparr>rw_enable = True, rw_rd = mq_rd q,
                            rw_value = extend_loaded_value v (mq_size q) (mq_sign_extend q)\<rparr>\<rparr>), set_mmu m x))
      else if mq_kind q = Mem_Store then
        (case store_result (mc_hart m, mc_bus m) (mq_addr q) (mq_store_value q) (mq_size q) of
           (Some fault, x) \<Rightarrow> (Inl fault, set_mmu m x)
         | (None, x) \<Rightarrow>
             (let m1 = set_mmu m x in
              case invalidate_reservation_for_store (mc_cpu m1) (mc_bus m1) (mq_addr q) (mq_size q) of
                (p, b) \<Rightarrow> (Inr e, m1\<lparr>mc_cpu := p, mc_bus := b\<rparr>)))
      else (Inr e, m))"

text \<open>The atomic access; on failure the fault with what was observed.\<close>

definition commit_atomic ::
    "'d machine \<Rightarrow> insn_effects \<Rightarrow> commit_result \<Rightarrow> (fault + insn_effects) \<times> commit_result \<times> 'd machine" where
  "commit_atomic m e r =
     (if aq_kind (eff_atomic e) = Atomic_None then (Inr e, r, m)
      else case apply_atomic_request (mc_cpu m) (mc_bus m) (eff_atomic e) of
        (a, p, b) \<Rightarrow>
          (let m1 = m\<lparr>mc_cpu := p, mc_bus := b\<rparr>; r1 = store_observation a r in
           if \<not> ar_ok a then (Inl (trap_fault (ar_trap a)), r1, m1)
           else (Inr (e\<lparr>eff_rd := ar_rd_write a\<rparr>), r1, m1)))"

definition commit_vector :: "'d machine \<Rightarrow> insn_effects \<Rightarrow> fault option \<times> 'd machine" where
  "commit_vector m e =
     (if vq_kind (eff_vector e) = Vector_None then (None, m)
      else case apply_vector_request (mc_hart m, mc_bus m) (mc_vector m) (eff_vector e) of
        (t, v, x) \<Rightarrow> (map_option trap_fault t, (set_mmu m x)\<lparr>mc_vector := v\<rparr>))"

text \<open>The register writes and the control transfer of an instruction that has not trapped.\<close>

definition commit_registers :: "'d machine \<Rightarrow> insn_effects \<Rightarrow> 'd machine" where
  "commit_registers m e =
     (let h = mc_hart m;
          h = (if cw_enable (eff_csr e) then csr_write h (cw_addr (eff_csr e)) (cw_value (eff_csr e)) else h);
          h = (if rw_enable (eff_rd e)
               then h\<lparr>h_core := write_gpr (h_core h) (ucast (rw_rd (eff_rd e))) (rw_value (eff_rd e))\<rparr> else h);
          h = (if rw_enable (eff_fp e)
               then h\<lparr>h_core := write_fpr (h_core h) (ucast (rw_rd (eff_fp e))) (rw_value (eff_fp e))\<rparr> else h);
          h = (if eff_floating_touched e then mark_floating_state_dirty h else h);
          h = (if ce_flush_tlb (eff_control e) then h\<lparr>h_tlb := flush_tlb (h_tlb h)\<rparr> else h);
          h = (if ce_halt (eff_control e) then h\<lparr>h_core := (h_core h)\<lparr>cs_halted := True\<rparr>\<rparr> else h)
      in set_hart m h)"

definition commit_control :: "'d machine \<Rightarrow> insn_effects \<Rightarrow> u64 \<Rightarrow> commit_result \<Rightarrow> commit_result \<times> 'd machine" where
  "commit_control m e next_pc r =
     (let c = eff_control e;
          (r1, m1) = (case ce_trap_return c of
              Return_Mret \<Rightarrow> (r\<lparr>cb_redirect := True, cb_trap_flush := True\<rparr>, m\<lparr>mc_cpu := return_from_mret (mc_cpu m)\<rparr>)
            | Return_Sret \<Rightarrow> (r\<lparr>cb_redirect := True, cb_trap_flush := True\<rparr>, m\<lparr>mc_cpu := return_from_sret (mc_cpu m)\<rparr>)
            | Return_None \<Rightarrow>
                (r\<lparr>cb_redirect := ce_redirect_pc c\<rparr>,
                 set_core m ((mc_core m)\<lparr>cs_pc := (if ce_redirect_pc c then ce_target_pc c else next_pc)\<rparr>)));
          (r2, m2) = (if eff_retired e
              then (r1\<lparr>cb_retired := True\<rparr>, set_core m1 ((mc_core m1)\<lparr>cs_instret := cs_instret (mc_core m1) + 1\<rparr>))
              else (r1, m1));
          r3 = (if ce_halt c then r2\<lparr>cb_trap_flush := True\<rparr> else r2)
      in (r3\<lparr>cb_next_pc := cs_pc (mc_core m2)\<rparr>, m2))"

definition apply_commit_boundary ::
    "'d machine \<Rightarrow> u64 \<Rightarrow> u64 \<Rightarrow> insn_effects \<Rightarrow> commit_result \<times> 'd machine" where
  "apply_commit_boundary m pc next_pc e =
     (if tr_valid (eff_trap e) then enter_precise_trap m pc (trap_fault (eff_trap e))
      else case commit_memory m e of
        (Inl fault, m1) \<Rightarrow> enter_precise_trap m1 pc fault
      | (Inr e1, m1) \<Rightarrow>
          (case commit_atomic m1 e1 (empty_result next_pc) of
             (Inl fault, r, m2) \<Rightarrow>
               (case enter_precise_trap m2 pc fault of
                  (t, m3) \<Rightarrow>
                    (t\<lparr>cb_atomic_memory_observed := cb_atomic_memory_observed r,
                       cb_atomic_write_observed := cb_atomic_write_observed r,
                       cb_atomic_paddr_valid := cb_atomic_paddr_valid r, cb_atomic_paddr := cb_atomic_paddr r,
                       cb_atomic_bytes := cb_atomic_bytes r\<rparr>, m3))
           | (Inr e2, r, m2) \<Rightarrow>
               (case commit_vector m2 e2 of
                  (Some fault, m3) \<Rightarrow> enter_precise_trap m3 pc fault
                | (None, m3) \<Rightarrow> commit_control (commit_registers m3 e2) e2 next_pc r)))"

subsection \<open>The step\<close>

definition execute_insn :: "host_fp \<Rightarrow> 'd machine \<Rightarrow> insn \<Rightarrow> 'd machine option" where
  "execute_insn hf m i =
     (let next_pc = cs_pc (mc_core m) + ucast (instruction_size i) in
      if semantics_supports i then
        map_option (\<lambda>e. snd (apply_commit_boundary m (cs_pc (mc_core m)) next_pc e)) (semantics_execute hf i (mc_hart m))
      else Some (m\<lparr>mc_cpu := enter_exception (mc_cpu m) CAUSE_ILLEGAL_INSN (ucast (insn_raw i))\<rparr>))"

definition advance_cycle :: "'d machine \<Rightarrow> 'd machine" where
  "advance_cycle m = set_core m ((mc_core m)\<lparr>cs_cycle := cs_cycle (mc_core m) + 1\<rparr>)"

text \<open>\<open>fetch16\<close> and \<open>fetch32\<close> enter the trap of a failed fetch themselves.\<close>

definition fetch_insn :: "'d machine \<Rightarrow> u32 option \<times> 'd machine" where
  "fetch_insn m =
     (let pc = cs_pc (mc_core m) in
      case fetch16_result (mc_hart m, mc_bus m) pc of
        (Inl fault, x) \<Rightarrow> (let m1 = set_mmu m x in (None, m1\<lparr>mc_cpu := apply_fault (mc_cpu m1) fault\<rparr>))
      | (Inr first_half, x) \<Rightarrow>
          (let m1 = set_mmu m x; raw = ucast (ucast first_half :: u16) :: u32 in
           if (ucast first_half :: u16) AND 0x3 \<noteq> 0x3 then (Some raw, m1)
           else case fetch32_result (mc_hart m1, mc_bus m1) pc of
             (Inl fault, y) \<Rightarrow> (let m2 = set_mmu m1 y in (None, m2\<lparr>mc_cpu := apply_fault (mc_cpu m2) fault\<rparr>))
           | (Inr full_word, y) \<Rightarrow> (Some (ucast full_word), set_mmu m1 y)))"

definition step_body :: "host_fp \<Rightarrow> 'd machine \<Rightarrow> 'd machine option" where
  "step_body hf m =
     (case fetch_insn m of
        (None, m1) \<Rightarrow> Some (advance_cycle m1)
      | (Some raw, m1) \<Rightarrow> map_option advance_cycle (execute_insn hf m1 (decode raw)))"

definition serve_events :: "'d machine \<Rightarrow> 'd machine" where
  "serve_events m =
     (case bus_tick (mc_bus m) of
        (ev, b) \<Rightarrow> m\<lparr>mc_cpu := handle_platform_events (mc_cpu m) ev, mc_bus := b\<rparr>)"

definition cpu_step :: "host_fp \<Rightarrow> 'd machine \<Rightarrow> 'd machine option" where
  "cpu_step hf m = step_body hf (serve_events m)"

end
