(* ===== verification/TrapProperties.thy ===== *)
theory TrapProperties
  imports TrapUnit
begin

text \<open>
  Correctness of trap entry and return: the values that registers may hold (an invariant of every
  register write, trap and return), the round trip of a trap and its return instruction, and the
  choice of interrupts.
\<close>

subsection \<open>Reading and writing registers\<close>

definition mstatus_of :: "hart \<Rightarrow> u64" where
  "mstatus_of h = csr_regs (h_csr h) CSR_MSTATUS"

lemma csr_distinct [simp]:
  "CSR_MSTATUS \<noteq> CSR_SEPC" "CSR_MSTATUS \<noteq> CSR_SCAUSE" "CSR_MSTATUS \<noteq> CSR_STVAL" "CSR_MSTATUS \<noteq> CSR_MEPC"
  "CSR_MSTATUS \<noteq> CSR_MCAUSE" "CSR_MSTATUS \<noteq> CSR_MTVAL" "CSR_MSTATUS \<noteq> CSR_STVEC" "CSR_MSTATUS \<noteq> CSR_MTVEC"
  "CSR_MSTATUS \<noteq> CSR_SATP" "CSR_MSTATUS \<noteq> CSR_MEDELEG" "CSR_MSTATUS \<noteq> CSR_MIDELEG" "CSR_MSTATUS \<noteq> CSR_MIE"
  "CSR_MSTATUS \<noteq> CSR_MIP" "CSR_MIDELEG \<noteq> CSR_MIP" "CSR_MEDELEG \<noteq> CSR_MIP" "CSR_MIE \<noteq> CSR_MIP"
  "CSR_SEPC \<noteq> CSR_SCAUSE" "CSR_SEPC \<noteq> CSR_STVAL" "CSR_SCAUSE \<noteq> CSR_STVAL" "CSR_MEPC \<noteq> CSR_MCAUSE"
  "CSR_MEPC \<noteq> CSR_MTVAL" "CSR_MCAUSE \<noteq> CSR_MTVAL" "CSR_STVEC \<noteq> CSR_SEPC" "CSR_STVEC \<noteq> CSR_SCAUSE"
  "CSR_STVEC \<noteq> CSR_STVAL" "CSR_MTVEC \<noteq> CSR_MEPC" "CSR_MTVEC \<noteq> CSR_MCAUSE" "CSR_MTVEC \<noteq> CSR_MTVAL"
  by (simp_all add: csr_addrs)

lemma set_reg_simps [simp]:
  "csr_regs (h_csr (set_reg h a v)) b = (if b = a then v else csr_regs (h_csr h) b)"
  "h_core (set_reg h a v) = h_core h" "h_tlb (set_reg h a v) = h_tlb h" "h_as_bound (set_reg h a v) = h_as_bound h"
  by (auto simp: set_reg_def)

lemma set_mode_pc_simps [simp]:
  "h_csr (set_mode_pc h m v) = h_csr h" "cs_privilege_mode (h_core (set_mode_pc h m v)) = m"
  "cs_pc (h_core (set_mode_pc h m v)) = v" "h_tlb (set_mode_pc h m v) = h_tlb h"
  by (simp_all add: set_mode_pc_def)

lemma fs_dirty_sd [simp]: "fs_dirty (with_sd_summary w) = fs_dirty w"
  by (simp add: fs_dirty_def bit_with_sd)

lemma fs_dirty_sanitize [simp]: "fs_dirty (sanitize_mstatus w) = fs_dirty w"
  by (simp add: fs_dirty_def bit_sanitize)

lemma mpp_reserved_sd [simp]: "mpp_reserved (with_sd_summary w) = mpp_reserved w"
  by (simp add: mpp_reserved_def bit_with_sd)

lemma mpp_reserved_sanitize [simp]: "\<not> mpp_reserved (sanitize_mstatus w)"
  by (auto simp: mpp_reserved_def bit_sanitize)

text \<open>The effect of a trap on the bits of \<open>mstatus\<close>.\<close>

definition entry_bit :: "bool \<Rightarrow> privilege_mode \<Rightarrow> u64 \<Rightarrow> nat \<Rightarrow> bool" where
  "entry_bit deleg mode w n =
     (if deleg then if n = 5 then bit w 1 else if n = 1 then False else if n = 8 then mode = Supervisor else bit w n
      else if n = 7 then bit w 3 else if n = 3 then False else if n = 11 then mode \<noteq> User
      else if n = 12 then mode = Machine else bit w n)"

lemma bit_flag: "bit (push_bit k (if b then 1 else 0) :: u64) n \<longleftrightarrow> b \<and> n = k \<and> k < 64"
  by (auto simp: bit_exp_iff)

lemma bit_low_one: "bit (push_bit k (drop_bit j w AND 1) :: u64) n \<longleftrightarrow> bit w j \<and> n = k \<and> k < 64"
proof -
  have "drop_bit j w AND 1 = (if bit w j then 1 else 0)"
  proof (rule bit_word_eqI)
    show "bit (drop_bit j w AND 1) n = bit (if bit w j then 1 else 0 :: u64) n" for n
      by (cases "n = 0") (auto simp: bit_and_iff bit_drop_bit_eq bit_1_iff)
  qed
  then show ?thesis by (simp only: bit_flag)
qed

lemma bit_encode: "bit (push_bit 11 (encode_privilege_mode m) :: u64) n \<longleftrightarrow>
    n = 11 \<and> m \<noteq> User \<or> n = 12 \<and> m = Machine"
proof (cases m)
  case User
  then show ?thesis by simp
next
  case Supervisor
  then show ?thesis by (simp only: encode_privilege_mode.simps bit_one_bit) auto
next
  case Machine
  then show ?thesis using bit_two_bits [of 11 n] by (simp only: encode_privilege_mode.simps) auto
qed

lemma entry_mstatus_s:
  assumes "\<not> mpp_reserved w"
  shows "bit (sanitize_mstatus (if m = Supervisor
            then (w AND NOT MSTATUS_SPIE OR push_bit 5 (if w AND MSTATUS_SIE \<noteq> 0 then 1 else 0)) AND
                 NOT MSTATUS_SIE OR MSTATUS_SPP
            else ((w AND NOT MSTATUS_SPIE OR push_bit 5 (if w AND MSTATUS_SIE \<noteq> 0 then 1 else 0)) AND
                 NOT MSTATUS_SIE) AND NOT MSTATUS_SPP)) n =
         (if n = 63 then fs_dirty w else entry_bit True m w n)"
  using assms
  by (auto simp: bit_sanitize entry_bit_def fs_dirty_def mpp_reserved_def bit_and_iff bit_or_iff
      bit_not_iff bit_mstatus_fields bit_flag mstatus_bit_tests dest: bit_imp_le_length)

lemma entry_mstatus_m:
  "bit (sanitize_mstatus (((w AND NOT MSTATUS_MPIE OR push_bit 7 (drop_bit 3 w AND 1)) AND
            NOT MSTATUS_MIE) AND NOT MSTATUS_MPP_MASK OR push_bit 11 (encode_privilege_mode m))) n =
         (if n = 63 then fs_dirty w else entry_bit False m w n)"
proof -
  define x where "x = (push_bit 7 (drop_bit 3 w AND 1) :: u64)"
  define y where "y = (push_bit 11 (encode_privilege_mode m) :: u64)"
  have "bit x k \<longleftrightarrow> bit w 3 \<and> k = 7" "bit y k \<longleftrightarrow> k = 11 \<and> m \<noteq> User \<or> k = 12 \<and> m = Machine" for k
    unfolding x_def y_def by (simp_all only: bit_low_one bit_encode) auto
  then have "bit (sanitize_mstatus (((w AND NOT MSTATUS_MPIE OR x) AND
            NOT MSTATUS_MIE) AND NOT MSTATUS_MPP_MASK OR y)) n =
         (if n = 63 then fs_dirty w else entry_bit False m w n)"
    by (auto simp: bit_sanitize entry_bit_def fs_dirty_def mpp_reserved_def bit_and_iff bit_or_iff
        bit_not_iff bit_mstatus_fields dest: bit_imp_le_length)
  then show ?thesis by (simp only: x_def y_def)
qed

subsection \<open>Entry and return\<close>

lemma entry_bit_sd: "n \<noteq> 63 \<Longrightarrow> entry_bit d m (with_sd_summary w) n = entry_bit d m w n"
  by (simp add: entry_bit_def bit_with_sd)

lemma clear_reservation_simps [simp]:
  "cpu_hart (clear_reservation p) = cpu_hart p"
  "\<not> reservation_valid (cpu_trap (clear_reservation p))"
  by (simp_all add: clear_reservation_def)

definition epc_csr :: "bool \<Rightarrow> u32" where "epc_csr d = (if d then CSR_SEPC else CSR_MEPC)"
definition cause_csr :: "bool \<Rightarrow> u32" where "cause_csr d = (if d then CSR_SCAUSE else CSR_MCAUSE)"
definition tval_csr :: "bool \<Rightarrow> u32" where "tval_csr d = (if d then CSR_STVAL else CSR_MTVAL)"
definition tvec_csr :: "bool \<Rightarrow> u32" where "tvec_csr d = (if d then CSR_STVEC else CSR_MTVEC)"

lemma enter_trap_spec:
  fixes cause tval :: u64
  assumes "\<not> mpp_reserved (mstatus_of (cpu_hart p))"
  defines "h \<equiv> cpu_hart p" and "d \<equiv> delegated_to_supervisor (cpu_hart p) cause"
    and "h' \<equiv> cpu_hart (enter_trap p cause tval)"
  shows "cs_privilege_mode (h_core h') = (if d then Supervisor else Machine)"
    "cs_pc (h_core h') = trap_vector_base (csr_regs (h_csr h) (tvec_csr d)) cause"
    "csr_regs (h_csr h') (epc_csr d) = cs_pc (h_core h)" "csr_regs (h_csr h') (cause_csr d) = cause"
    "csr_regs (h_csr h') (tval_csr d) = tval"
    "bit (mstatus_of h') n = (if n = 63 then fs_dirty (mstatus_of h)
                              else entry_bit d (cs_privilege_mode (h_core h)) (mstatus_of h) n)"
    "a \<notin> {CSR_MSTATUS, epc_csr d, cause_csr d, tval_csr d} \<Longrightarrow> csr_regs (h_csr h') a = csr_regs (h_csr h) a"
    "\<not> reservation_valid (cpu_trap (enter_trap p cause tval))" "h_tlb h' = h_tlb h"
proof -
  let ?w = "with_sd_summary (mstatus_of h)" and ?m = "cs_privilege_mode (h_core h)"
  define ms where "ms = (if d then sanitize_mstatus (if ?m = Supervisor
            then (?w AND NOT MSTATUS_SPIE OR push_bit 5 (if ?w AND MSTATUS_SIE \<noteq> 0 then 1 else 0)) AND
                 NOT MSTATUS_SIE OR MSTATUS_SPP
            else ((?w AND NOT MSTATUS_SPIE OR push_bit 5 (if ?w AND MSTATUS_SIE \<noteq> 0 then 1 else 0)) AND
                 NOT MSTATUS_SIE) AND NOT MSTATUS_SPP)
          else sanitize_mstatus (((?w AND NOT MSTATUS_MPIE OR push_bit 7 (drop_bit 3 ?w AND 1)) AND
            NOT MSTATUS_MIE) AND NOT MSTATUS_MPP_MASK OR push_bit 11 (encode_privilege_mode ?m)))"
  have h': "h' = set_mode_pc (set_reg (set_reg (set_reg (set_reg h CSR_MSTATUS ms) (epc_csr d) (cs_pc (h_core h)))
        (cause_csr d) cause) (tval_csr d) tval) (if d then Supervisor else Machine)
        (trap_vector_base (csr_regs (h_csr h) (tvec_csr d)) cause)"
    unfolding h'_def d_def h_def ms_def mstatus_of_def enter_trap_def Let_def
    by (cases "delegated_to_supervisor (cpu_hart p) cause")
      (simp_all add: csr_read_simps csr_write_simps csr_distinct [symmetric] epc_csr_def cause_csr_def
        tval_csr_def tvec_csr_def if_distrib [of sanitize_mstatus])
  have dis: "epc_csr d \<noteq> cause_csr d" "epc_csr d \<noteq> tval_csr d" "cause_csr d \<noteq> tval_csr d"
    "CSR_MSTATUS \<noteq> epc_csr d" "CSR_MSTATUS \<noteq> cause_csr d" "CSR_MSTATUS \<noteq> tval_csr d"
    by (simp_all add: epc_csr_def cause_csr_def tval_csr_def)
  show "cs_privilege_mode (h_core h') = (if d then Supervisor else Machine)"
    "cs_pc (h_core h') = trap_vector_base (csr_regs (h_csr h) (tvec_csr d)) cause" "h_tlb h' = h_tlb h"
    by (simp_all add: h')
  show "csr_regs (h_csr h') (epc_csr d) = cs_pc (h_core h)" "csr_regs (h_csr h') (cause_csr d) = cause"
    "csr_regs (h_csr h') (tval_csr d) = tval"
    by (simp_all add: h' dis)
  show "a \<notin> {CSR_MSTATUS, epc_csr d, cause_csr d, tval_csr d} \<Longrightarrow> csr_regs (h_csr h') a = csr_regs (h_csr h) a"
    by (simp add: h')
  show "\<not> reservation_valid (cpu_trap (enter_trap p cause tval))"
    by (simp add: enter_trap_def Let_def)
  have w: "\<not> mpp_reserved ?w" using assms(1) by (simp add: h_def)
  have "mstatus_of h' = ms" by (simp add: h' mstatus_of_def dis)
  then have "bit (mstatus_of h') n = (if n = 63 then fs_dirty ?w else entry_bit d ?m ?w n)"
    unfolding ms_def by (cases d) (simp_all only: if_True if_False entry_mstatus_s [OF w] entry_mstatus_m)
  then show "bit (mstatus_of h') n = (if n = 63 then fs_dirty (mstatus_of h) else entry_bit d ?m (mstatus_of h) n)"
    by (simp add: entry_bit_sd)
qed

text \<open>What the return instructions make of \<open>mstatus\<close>.\<close>

definition mpp_mode :: "u64 \<Rightarrow> privilege_mode" where
  "mpp_mode w = (if bit w 11 then if bit w 12 then Machine else Supervisor else User)"

lemma decode_mpp: "decode_privilege_mode (drop_bit 11 (w AND MSTATUS_MPP_MASK)) = mpp_mode w"
proof -
  have "(3 :: u64) AND 3 = 3" "(1 OR 2 :: u64) = 3" by simp_all
  then show ?thesis by (subst mpp_field) (simp add: decode_privilege_mode_def mpp_mode_def)
qed

lemma return_from_sret_spec:
  fixes p :: cpu
  defines "w \<equiv> mstatus_of (cpu_hart p)"
  defines "h' \<equiv> cpu_hart (return_from_sret p)"
  assumes "\<not> mpp_reserved w"
  shows "cs_privilege_mode (h_core h') = (if bit w 8 then Supervisor else User)"
    "cs_pc (h_core h') = csr_regs (h_csr (cpu_hart p)) CSR_SEPC"
    "bit (mstatus_of h') n = (if n = 63 then fs_dirty w else if n = 1 then bit w 5 else if n = 5 then True
        else if n = 8 \<or> n = 17 then False else bit w n)"
    "a \<noteq> CSR_MSTATUS \<Longrightarrow> csr_regs (h_csr h') a = csr_regs (h_csr (cpu_hart p)) a" "h_tlb h' = h_tlb (cpu_hart p)"
proof -
  let ?w = "with_sd_summary w"
  define x where "x = (push_bit 1 (if ?w AND MSTATUS_SPIE \<noteq> 0 then 1 else 0) :: u64)"
  have x: "bit x k \<longleftrightarrow> bit w 5 \<and> k = 1" for k
    unfolding x_def by (simp only: bit_flag mstatus_bit_tests) (auto simp: bit_with_sd)
  define ms where "ms = sanitize_mstatus (((?w AND NOT MSTATUS_SIE OR x OR MSTATUS_SPIE) AND NOT MSTATUS_SPP) AND
      NOT MSTATUS_MPRV)"
  have h': "h' = set_mode_pc (set_reg (cpu_hart p) CSR_MSTATUS ms) (if bit w 8 then Supervisor else User)
      (csr_regs (h_csr (cpu_hart p)) CSR_SEPC)"
    by (simp add: h'_def return_from_sret_def Let_def csr_read_simps csr_write_simps ms_def x_def w_def mstatus_of_def
        mstatus_bit_tests bit_with_sd csr_distinct [symmetric] or.assoc)
  show "cs_privilege_mode (h_core h') = (if bit w 8 then Supervisor else User)"
    "cs_pc (h_core h') = csr_regs (h_csr (cpu_hart p)) CSR_SEPC" "h_tlb h' = h_tlb (cpu_hart p)"
    "a \<noteq> CSR_MSTATUS \<Longrightarrow> csr_regs (h_csr h') a = csr_regs (h_csr (cpu_hart p)) a"
    by (simp_all add: h')
  have "bit ms n = (if n = 63 then fs_dirty w else if n = 1 then bit w 5 else if n = 5 then True
        else if n = 8 \<or> n = 17 then False else bit w n)"
    using assms(3)
    by (auto simp: ms_def bit_sanitize fs_dirty_def mpp_reserved_def bit_and_iff bit_or_iff bit_not_iff
        bit_mstatus_fields x bit_with_sd dest: bit_imp_le_length)
  then show "bit (mstatus_of h') n = (if n = 63 then fs_dirty w else if n = 1 then bit w 5 else if n = 5 then True
        else if n = 8 \<or> n = 17 then False else bit w n)"
    by (simp add: h' mstatus_of_def)
qed

lemma return_from_mret_spec:
  fixes p :: cpu
  defines "w \<equiv> mstatus_of (cpu_hart p)"
  defines "h' \<equiv> cpu_hart (return_from_mret p)"
  shows "cs_privilege_mode (h_core h') = mpp_mode w"
    "cs_pc (h_core h') = csr_regs (h_csr (cpu_hart p)) CSR_MEPC"
    "bit (mstatus_of h') n = (if n = 63 then fs_dirty w else if n = 3 then bit w 7 else if n = 7 then True
        else if n = 11 \<or> n = 12 then False else if n = 17 then bit w 17 \<and> mpp_mode w = Machine else bit w n)"
    "a \<noteq> CSR_MSTATUS \<Longrightarrow> csr_regs (h_csr h') a = csr_regs (h_csr (cpu_hart p)) a" "h_tlb h' = h_tlb (cpu_hart p)"
proof -
  let ?w = "with_sd_summary w"
  define x where "x = (push_bit 3 (drop_bit 7 ?w AND 1) :: u64)"
  define m0 where "m0 = (?w AND NOT MSTATUS_MIE OR x OR MSTATUS_MPIE) AND NOT MSTATUS_MPP_MASK"
  define ms where "ms = sanitize_mstatus (if mpp_mode w \<noteq> Machine then m0 AND NOT MSTATUS_MPRV else m0)"
  have mode: "mpp_mode ?w = mpp_mode w" by (simp add: mpp_mode_def bit_with_sd)
  have h': "h' = set_mode_pc (set_reg (cpu_hart p) CSR_MSTATUS ms) (mpp_mode w)
      (csr_regs (h_csr (cpu_hart p)) CSR_MEPC)"
    unfolding h'_def return_from_mret_def Let_def ms_def m0_def x_def
    by (simp only: csr_read_simps csr_write_simps decode_mpp mode w_def mstatus_of_def [symmetric]
        set_reg_simps csr_distinct [symmetric] if_False cpu.simps or.assoc) (simp add: mode [unfolded w_def])
  show "cs_privilege_mode (h_core h') = mpp_mode w"
    "cs_pc (h_core h') = csr_regs (h_csr (cpu_hart p)) CSR_MEPC" "h_tlb h' = h_tlb (cpu_hart p)"
    "a \<noteq> CSR_MSTATUS \<Longrightarrow> csr_regs (h_csr h') a = csr_regs (h_csr (cpu_hart p)) a"
    by (simp_all add: h')
  have x: "bit x k \<longleftrightarrow> bit w 7 \<and> k = 3" for k unfolding x_def by (simp only: bit_low_one) (auto simp: bit_with_sd)
  have m0: "bit m0 k = (if k = 63 then fs_dirty w else if k = 3 then bit w 7 else if k = 7 then True
        else if k = 11 \<or> k = 12 then False else bit w k)" for k
    by (auto simp: m0_def bit_and_iff bit_or_iff bit_not_iff bit_mstatus_fields x bit_with_sd dest: bit_imp_le_length)
  have "bit ms n = (if n = 63 then fs_dirty w else if n = 3 then bit w 7 else if n = 7 then True
        else if n = 11 \<or> n = 12 then False else if n = 17 then bit w 17 \<and> mpp_mode w = Machine else bit w n)"
    by (auto simp: ms_def bit_sanitize fs_dirty_def mpp_reserved_def bit_and_iff bit_not_iff m0
        bit_mstatus_fields dest: bit_imp_le_length)
  then show "bit (mstatus_of h') n = (if n = 63 then fs_dirty w else if n = 3 then bit w 7 else if n = 7 then True
        else if n = 11 \<or> n = 12 then False else if n = 17 then bit w 17 \<and> mpp_mode w = Machine else bit w n)"
    by (simp add: h' mstatus_of_def)
qed

text \<open>C13: a trap and the matching return instruction (\<open>sret\<close> when the cause was delegated to the
  supervisor, \<open>mret\<close> otherwise) bring the hart back: same privilege mode, same pc, same interrupt
  enables and same other bits of \<open>mstatus\<close>, except the previous-state fields and MPRV, which is kept
  only on a return to machine mode; no register but the trap's own has changed.\<close>

theorem trap_return_roundtrip:
  fixes p :: cpu and cause tval :: u64
  defines "h \<equiv> cpu_hart p" and "d \<equiv> delegated_to_supervisor (cpu_hart p) cause"
  defines "p' \<equiv> enter_trap p cause tval"
  defines "h'' \<equiv> cpu_hart (if d then return_from_sret p' else return_from_mret p')"
  assumes "\<not> mpp_reserved (mstatus_of h)"
  shows "cs_privilege_mode (h_core h'') = cs_privilege_mode (h_core h) \<and>
         cs_pc (h_core h'') = cs_pc (h_core h) \<and>
         (\<forall>n < 63. n \<notin> (if d then {5, 8, 17} else {7, 11, 12, 17}) \<longrightarrow>
            bit (mstatus_of h'') n = bit (mstatus_of h) n) \<and>
         bit (mstatus_of h'') 17 = (bit (mstatus_of h) 17 \<and> cs_privilege_mode (h_core h) = Machine) \<and>
         (\<forall>a. a \<notin> {CSR_MSTATUS, epc_csr d, cause_csr d, tval_csr d} \<longrightarrow>
            csr_regs (h_csr h'') a = csr_regs (h_csr h) a)"
proof -
  note en = enter_trap_spec [OF assms(5) [unfolded h_def], where cause = cause and tval = tval, folded d_def h_def p'_def]
  let ?w = "mstatus_of (cpu_hart p')" and ?m = "cs_privilege_mode (h_core h)"
  have w: "bit ?w n = entry_bit d ?m (mstatus_of h) n" if "n < 63" for n using en(6) [of n] that by simp
  show ?thesis
  proof (cases d)
    case True
    then have m: "?m \<noteq> Machine" by (simp add: d_def h_def delegated_to_supervisor_def)
    have "\<not> mpp_reserved ?w" using assms(5) True w [of 11] w [of 12] by (simp add: mpp_reserved_def entry_bit_def)
    note r = return_from_sret_spec [OF this]
    show ?thesis using True m r w en(3,7)
      by (cases ?m) (auto simp: h''_def entry_bit_def epc_csr_def)
  next
    case False
    note r = return_from_mret_spec [where p = p']
    have "mpp_mode ?w = ?m"
      using False w [of 11] w [of 12] by (cases ?m) (simp_all add: mpp_mode_def entry_bit_def)
    then show ?thesis using False r w en(3,7) by (auto simp: h''_def entry_bit_def epc_csr_def)
  qed
qed

subsection \<open>Interrupts\<close>

text \<open>Reference: interrupt \<open>i\<close> can be taken; the candidates in order of priority are machine external
  and timer (11, 7), supervisor external and timer (9, 5).\<close>

definition serviceable :: "hart \<Rightarrow> nat \<Rightarrow> bool" where
  "serviceable h i \<longleftrightarrow>
     (let mode = cs_privilege_mode (h_core h) in
      bit (csr h CSR_MIE) i \<and> bit (csr h CSR_MIP) i \<and>
      (if i \<in> {11, 7} then mode = Machine \<longrightarrow> bit (mstatus_of h) 3
       else bit (csr h CSR_MIDELEG) i \<and> mode \<noteq> Machine \<and> (mode = Supervisor \<longrightarrow> bit (mstatus_of h) 1)))"

definition interrupt_order :: "nat list" where "interrupt_order = [11, 7, 9, 5]"

lemma select_is_find:
  "select_serviceable_interrupt h =
     map_option (\<lambda>i. (CAUSE_INT_BIT OR of_nat i, push_bit i 1)) (find (serviceable h) interrupt_order)"
proof -
  have "machine_interrupts_enabled (h_core h) (csr h CSR_MSTATUS) \<longleftrightarrow>
      (cs_privilege_mode (h_core h) = Machine \<longrightarrow> bit (mstatus_of h) 3)"
    "supervisor_interrupts_enabled (h_core h) (csr h CSR_MSTATUS) \<longleftrightarrow>
      cs_privilege_mode (h_core h) \<noteq> Machine \<and> (cs_privilege_mode (h_core h) = Supervisor \<longrightarrow> bit (mstatus_of h) 1)"
    by (simp_all add: machine_interrupts_enabled_def supervisor_interrupts_enabled_def mstatus_bit_tests
        csr_read_simps(1) bit_with_sd mstatus_of_def split: privilege_mode.split)
  then show ?thesis
    unfolding select_serviceable_interrupt_def Let_def mie_bit_tests
    by (auto simp: serviceable_def interrupt_order_def Let_def CAUSE_MACHINE_EXTERNAL_INT_def
        CAUSE_MACHINE_TIMER_INT_def CAUSE_SUPERVISOR_EXTERNAL_INT_def CAUSE_SUPERVISOR_TIMER_INT_def
        mie_fields)
qed

lemma low_bit63: "i < 63 \<Longrightarrow> \<not> bit (of_nat i :: u64) 63"
proof -
  assume "i < 63"
  then have "take_bit 6 i = i" by (intro take_bit_nat_eq_self) simp
  then have "\<not> bit i 63" using bit_take_bit_iff [of 6 i 63] by simp
  then show ?thesis by (simp add: bit_of_nat_iff)
qed

lemma bit_int_cause:
  "i < 63 \<Longrightarrow> is_interrupt_cause (CAUSE_INT_BIT OR of_nat i)"
  "i < 63 \<Longrightarrow> unat (interrupt_cause_code (CAUSE_INT_BIT OR of_nat i)) = i"
proof -
  have b: "bit CAUSE_INT_BIT n \<longleftrightarrow> n = 63" for n
    unfolding CAUSE_INT_BIT_def by (simp only: bit_one_bit) auto
  show "is_interrupt_cause (CAUSE_INT_BIT OR of_nat i)"
    unfolding is_interrupt_cause_def CAUSE_INT_BIT_def
    using u64_and_one_bit [of 63 "CAUSE_INT_BIT OR of_nat i"] b [of 63]
    by (simp add: bit_or_iff CAUSE_INT_BIT_def)
  assume i: "i < 63"
  have "\<not> bit (of_nat i :: u64) 63"
    using i by (rule low_bit63)
  then have "interrupt_cause_code (CAUSE_INT_BIT OR of_nat i) = of_nat i"
    by (intro bit_word_eqI) (auto simp: interrupt_cause_code_def bit_and_iff bit_or_iff bit_not_iff b)
  then show "unat (interrupt_cause_code (CAUSE_INT_BIT OR of_nat i)) = i"
    using i by (simp add: unat_of_nat_small)
qed

lemma delegated_interrupt:
  assumes "i \<in> set interrupt_order" "serviceable h i"
  shows "delegated_to_supervisor h (CAUSE_INT_BIT OR of_nat i) \<longleftrightarrow> i \<in> {9, 5}"
proof -
  have i: "i \<in> {11, 7, 9, 5}" using assms(1) by (auto simp: interrupt_order_def)
  then have "i < 63" by auto
  have m: "bit MIDELEG_MASK n \<longleftrightarrow> n \<in> {1, 5, 9}" for n
    by (auto simp: MIDELEG_MASK_def SIE_MASK_def bit_or_iff bit_mie_fields)
  have "delegated_to_supervisor h (CAUSE_INT_BIT OR of_nat i) \<longleftrightarrow>
      cs_privilege_mode (h_core h) \<noteq> Machine \<and> bit (csr h CSR_MIDELEG) i"
    using \<open>i < 63\<close> u64_and_one_bit [of i "csr h CSR_MIDELEG"] bit_int_cause [OF \<open>i < 63\<close>]
    by (simp add: delegated_to_supervisor_def)
  then show ?thesis
    using i assms(2) by (auto simp: serviceable_def csr_read_simps bit_and_iff m Let_def)
qed

text \<open>C17: interrupts are taken in the architectural order machine external, machine timer,
  supervisor external, supervisor timer, and only when pending, enabled and, for the supervisor's,
  delegated.  The taken interrupt is entered in its own mode with cause and pc saved, and after the
  entry no interrupt is serviceable until the handler changes the state, so interrupts do not nest
  by themselves.\<close>

theorem interrupt_taken:
  fixes p p' :: cpu
  defines "h \<equiv> cpu_hart p" and "h' \<equiv> cpu_hart p'"
  assumes legal: "\<not> mpp_reserved (mstatus_of h)" and r: "service_pending_interrupts p = (ok, p')"
  shows "case find (serviceable h) interrupt_order of
           None \<Rightarrow> \<not> ok \<and> p' = p
         | Some i \<Rightarrow> ok \<and> cs_privilege_mode (h_core h') = (if i \<in> {11, 7} then Machine else Supervisor) \<and>
             csr_regs (h_csr h') (epc_csr (i \<in> {9, 5})) = cs_pc (h_core h) \<and>
             csr_regs (h_csr h') (cause_csr (i \<in> {9, 5})) = CAUSE_INT_BIT OR of_nat i \<and>
             \<not> has_serviceable_interrupt p'"
proof (cases "find (serviceable h) interrupt_order")
  case None
  then show ?thesis using r by (simp add: service_pending_interrupts_def select_is_find h_def)
next
  case (Some i)
  let ?m = "cs_privilege_mode (h_core h)"
  define c where "c = CAUSE_INT_BIT OR of_nat i"
  define q where "q = write_mip p (csr h CSR_MIP AND NOT (push_bit i 1))"
  have i: "serviceable h i" "i \<in> set interrupt_order" "i \<in> {11, 7, 9, 5}"
    and first: "i \<in> {9, 5} \<Longrightarrow> \<not> serviceable h 11 \<and> \<not> serviceable h 7"
    using Some by (auto simp: interrupt_order_def split: if_splits)
  have ok: "ok" and p': "p' = enter_trap q c 0"
    using r Some by (simp_all add: service_pending_interrupts_def select_is_find enter_interrupt_def h_def q_def c_def)
  have q: "cpu_hart q = set_reg h CSR_MIP ((csr h CSR_MIP AND NOT (push_bit i 1)) AND MIP_MIE_MASK)"
    by (simp add: q_def write_mip_def csr_write_simps h_def)
  have qs: "mstatus_of (cpu_hart q) = mstatus_of h" "h_core (cpu_hart q) = h_core h"
    by (simp_all add: q mstatus_of_def)
  have del: "delegated_to_supervisor (cpu_hart q) c \<longleftrightarrow> i \<in> {9, 5}"
    using delegated_interrupt [OF i(2,1)]
    by (simp add: delegated_to_supervisor_def q c_def csr_read_simps)
  have "\<not> mpp_reserved (mstatus_of (cpu_hart q))" using legal qs by simp
  note en = enter_trap_spec [OF this, where cause = c and tval = 0, folded p' h'_def, unfolded del qs]
  have none: "\<not> serviceable h' j" if j: "j \<in> set interrupt_order" for j
  proof (cases "i \<in> {9, 5}")
    case True
    have mode: "cs_privilege_mode (h_core h') = Supervisor" "\<not> bit (mstatus_of h') 1" and m: "?m \<noteq> Machine"
      using True en(1) en(6) [of 1] i(1) by (auto simp: entry_bit_def serviceable_def Let_def)
    have "bit (csr h' CSR_MIE) k = bit (csr h CSR_MIE) k \<and> (bit (csr h' CSR_MIP) k \<longrightarrow> bit (csr h CSR_MIP) k)"
      if "k \<in> {11, 7}" for k
    proof -
      have "csr_regs (h_csr h') CSR_MIE = csr_regs (h_csr h) CSR_MIE"
        "csr_regs (h_csr h') CSR_MIP = (csr h CSR_MIP AND NOT (push_bit i 1)) AND MIP_MIE_MASK"
        using en(7) [of CSR_MIE] en(7) [of CSR_MIP] True
        by (simp_all add: epc_csr_def cause_csr_def tval_csr_def q csr_addrs)
      then show ?thesis using that
        by (auto simp: csr_read_simps bit_and_iff bit_or_iff bit_mie_fields split: if_splits)
    qed
    then show ?thesis using j mode m first [OF True] by (auto simp: serviceable_def Let_def interrupt_order_def)
  next
    case False
    then have "cs_privilege_mode (h_core h') = Machine" "\<not> bit (mstatus_of h') 3"
      using en(1) en(6) [of 3] by (simp_all add: entry_bit_def)
    then show ?thesis by (simp add: serviceable_def Let_def)
  qed
  then have "\<not> has_serviceable_interrupt p'"
    by (auto simp: has_serviceable_interrupt_def select_is_find h'_def find_None_iff)
  then show ?thesis using Some ok en(1,3,4) i(3) by (auto simp: c_def)
qed

subsection \<open>The values a register may hold\<close>

definition tlb_empty :: tlb where
  "tlb_empty = \<lparr>tlb_entries = (\<lambda>_. \<lparr>te_valid = False, te_satp = 0, te_vpage_base = 0, te_ppage_base = 0,
     te_pte = 0, te_pte_addr = 0, te_page_shift = 0\<rparr>), next_tlb_victim = 0\<rparr>"

definition cpu_boot :: "u64 \<Rightarrow> u64 option \<Rightarrow> cpu" where
  "cpu_boot entry clint =
     \<lparr>cpu_hart = \<lparr>h_core = core_reset entry, h_csr = csr_reset \<lparr>csr_regs = (\<lambda>_. 0), csr_clint = clint\<rparr>,
                 h_as_bound = True, h_tlb = tlb_empty\<rparr>,
      cpu_trap = \<lparr>timer_pending_mask = 0, reservation_valid = False, reservation_paddr = 0, reservation_size = 0\<rparr>\<rparr>"

text \<open>Everything that changes registers: CSR instructions, traps and returns, platform events, and any
  change of the rest of the core (executing an instruction, the CLINT's clock).\<close>

inductive register_event :: "cpu \<Rightarrow> cpu \<Rightarrow> bool" where
  csr_write: "register_event p (p\<lparr>cpu_hart := csr_write (cpu_hart p) a v\<rparr>)"
| trap: "register_event p (enter_trap p cause tval)"
| mret: "register_event p (return_from_mret p)"
| sret: "register_event p (return_from_sret p)"
| events: "register_event p (handle_platform_events p ev)"
| core: "cs_privilege_mode c = cs_privilege_mode (h_core (cpu_hart p)) \<Longrightarrow>
    register_event p (p\<lparr>cpu_hart := (cpu_hart p)\<lparr>h_core := c\<rparr>\<rparr>)"
| clock: "register_event p (p\<lparr>cpu_hart := (cpu_hart p)\<lparr>h_csr := (h_csr (cpu_hart p))\<lparr>csr_clint := t\<rparr>\<rparr>\<rparr>)"

inductive cpu_reachable :: "cpu \<Rightarrow> bool" where
  boot: "cpu_reachable (cpu_boot entry clint)"
| step: "cpu_reachable p \<Longrightarrow> register_event p p' \<Longrightarrow> cpu_reachable p'"

inductive_cases register_eventE: "register_event p p'"

definition satp_legal :: "u64 \<Rightarrow> bool" where
  "satp_legal w \<longleftrightarrow> w = 0 \<or> (\<forall>n. bit w n \<longrightarrow> n < 44 \<or> n = 63) \<and> bit w 63"

definition warl_ok :: "u32 \<Rightarrow> u64 \<Rightarrow> bool" where
  "warl_ok a v \<longleftrightarrow>
     (a = CSR_MSTATUS \<longrightarrow> \<not> mpp_reserved v \<and> bit v 63 = fs_dirty v) \<and>
     (a = CSR_SATP \<longrightarrow> satp_legal v) \<and>
     (a = CSR_MEDELEG \<longrightarrow> (\<forall>n. bit v n \<longrightarrow> n \<in> {1, 2, 3, 5, 7, 8, 9, 12, 13, 15})) \<and>
     (a = CSR_MIDELEG \<longrightarrow> (\<forall>n. bit v n \<longrightarrow> n \<in> {1, 5, 9})) \<and>
     (a = CSR_MIE \<or> a = CSR_MIP \<longrightarrow> (\<forall>n. bit v n \<longrightarrow> n \<in> {1, 3, 5, 7, 9, 11}))"

definition regs_legal :: "(u32 \<Rightarrow> u64) \<Rightarrow> bool" where
  "regs_legal r \<longleftrightarrow> (\<forall>a. warl_ok a (r a))"

lemma bit_MEDELEG: "bit MEDELEG_MASK n \<longleftrightarrow> n \<in> {1, 2, 3, 5, 7, 8, 9, 12, 13, 15}"
  unfolding MEDELEG_MASK_def by (simp only: bit_or_iff bit_one_bit) auto

lemma bit_SIE_MASK: "bit SIE_MASK n \<longleftrightarrow> n \<in> {1, 5, 9}"
  by (auto simp: SIE_MASK_def bit_or_iff bit_mie_fields)

lemma regs_legal_upd: "regs_legal r \<Longrightarrow> warl_ok a v \<Longrightarrow> regs_legal (r(a := v))"
  by (simp add: regs_legal_def)

lemma set_reg_regs: "csr_regs (h_csr (set_reg h a v)) = (csr_regs (h_csr h))(a := v)"
  by (simp add: set_reg_def)

definition legal :: "cpu \<Rightarrow> bool" where
  "legal p \<longleftrightarrow> regs_legal (csr_regs (h_csr (cpu_hart p)))"

lemma satp_value_legal:
  "satp_legal (push_bit 60 SATP_MODE_SV39 OR (v AND SATP_PPN_MASK))"
proof -
  have a: "push_bit 60 SATP_MODE_SV39 = push_bit 63 (1 :: u64)" by (simp add: SATP_MODE_SV39_def)
  have m: "SATP_PPN_MASK = mask 44" by (simp add: SATP_PPN_MASK_def mask_eq_exp_minus_1)
  show ?thesis unfolding satp_legal_def a m
    by (simp only: bit_or_iff bit_and_iff bit_mask_iff bit_one_bit) auto
qed

lemma warl_ok_mstatus: "warl_ok CSR_MSTATUS (sanitize_mstatus v)"
  by (simp add: warl_ok_def bit_sanitize csr_addrs)

lemma warl_ok_other:
  "a \<notin> {CSR_MSTATUS, CSR_SATP, CSR_MEDELEG, CSR_MIDELEG, CSR_MIE, CSR_MIP} \<Longrightarrow> warl_ok a v"
  by (simp add: warl_ok_def)

lemma warl_ok_masks:
  "warl_ok CSR_SATP (push_bit 60 SATP_MODE_SV39 OR (v AND SATP_PPN_MASK))" "warl_ok CSR_SATP 0"
  "warl_ok CSR_MEDELEG (v AND MEDELEG_MASK)" "warl_ok CSR_MIDELEG (v AND MIDELEG_MASK)"
  "warl_ok CSR_MIE (v AND MIP_MIE_MASK)" "warl_ok CSR_MIP (v AND MIP_MIE_MASK)"
proof -
  show "warl_ok CSR_SATP (push_bit 60 SATP_MODE_SV39 OR (v AND SATP_PPN_MASK))"
    using satp_value_legal [of v] by (simp only: warl_ok_def) (simp add: csr_addrs)
  show "warl_ok CSR_SATP 0" by (simp add: warl_ok_def satp_legal_def csr_addrs)
  show "warl_ok CSR_MEDELEG (v AND MEDELEG_MASK)" "warl_ok CSR_MIDELEG (v AND MIDELEG_MASK)"
    "warl_ok CSR_MIE (v AND MIP_MIE_MASK)" "warl_ok CSR_MIP (v AND MIP_MIE_MASK)"
    by (auto simp: warl_ok_def csr_addrs bit_and_iff bit_MEDELEG bit_MIP_MIE_MASK bit_SIE_MASK MIDELEG_MASK_def)
qed

lemma warl_ok_merge:
  assumes "regs_legal r" "a = CSR_MIE \<or> a = CSR_MIP"
  shows "warl_ok a ((r a AND NOT (r CSR_MIDELEG AND SIE_MASK)) OR (v AND (r CSR_MIDELEG AND SIE_MASK)))"
proof -
  have "bit (r a) n \<Longrightarrow> n \<in> {1, 3, 5, 7, 9, 11}" for n
    using assms unfolding regs_legal_def warl_ok_def by blast
  then show ?thesis using assms(2)
    by (auto simp: warl_ok_def csr_addrs bit_and_iff bit_or_iff bit_SIE_MASK)
qed

lemma hpm_distinct:
  assumes "is_hpmcounter_shadow a"
  shows "warl_ok (hpm_shadow_to_machine a) v"
proof (rule warl_ok_other)
  have "unat a \<ge> 0xC03" "unat a \<le> 0xC1F"
    using assms by (simp_all add: is_hpmcounter_shadow_def csr_addrs word_le_nat_alt)
  moreover have "hpm_shadow_to_machine a = a - 256" by (simp add: hpm_shadow_to_machine_def csr_addrs)
  ultimately have "unat (hpm_shadow_to_machine a) = unat a - 256" "unat a \<ge> 0xC03"
    by (simp_all add: unat_sub word_le_nat_alt)
  then have "unat (hpm_shadow_to_machine a) \<ge> 0xB03" by simp
  then have "hpm_shadow_to_machine a \<ge> 0xB03" by (simp add: word_le_nat_alt)
  then show "hpm_shadow_to_machine a \<notin> {CSR_MSTATUS, CSR_SATP, CSR_MEDELEG, CSR_MIDELEG, CSR_MIE, CSR_MIP}"
    by (auto simp: csr_addrs)
qed

lemma mhpm_distinct: "is_mhpmcounter a \<or> is_mhpmevent a \<Longrightarrow> warl_ok a v"
  by (rule warl_ok_other) (auto simp: is_mhpmcounter_def is_mhpmevent_def csr_addrs)

lemma csr_write_reg_legal:
  assumes "regs_legal (csr_regs (h_csr h))"
  shows "regs_legal (csr_regs (h_csr (csr_write_reg h a v)))"
proof -
  let ?r = "csr_regs (h_csr h)"
  have set: "regs_legal (csr_regs (h_csr (set_reg h b x)))" if "warl_ok b x" for b x
    using regs_legal_upd [OF assms that] by (simp add: set_reg_regs)
  have ifI: "regs_legal (csr_regs (h_csr (if c then x else y)))"
    if "c \<Longrightarrow> regs_legal (csr_regs (h_csr x))" "\<not> c \<Longrightarrow> regs_legal (csr_regs (h_csr y))" for c x y
    using that by simp
  have satp: "warl_ok CSR_SATP (if c then push_bit 60 SATP_MODE_SV39 OR (v AND SATP_PPN_MASK) else 0)" for c
    using warl_ok_masks(1,2) by (cases c) (simp_all only: if_True if_False)
  have tlb: "regs_legal (csr_regs (h_csr (x\<lparr>h_tlb := t\<rparr>)))" if "regs_legal (csr_regs (h_csr x))" for x t
    using that by simp
  have m: "warl_ok CSR_MIE (?r CSR_MIE AND NOT (?r CSR_MIDELEG AND SIE_MASK) OR (v AND (?r CSR_MIDELEG AND SIE_MASK)))"
    "warl_ok CSR_MIP (?r CSR_MIP AND NOT (?r CSR_MIDELEG AND SIE_MASK) OR (v AND (?r CSR_MIDELEG AND SIE_MASK)))"
    by (rule warl_ok_merge [OF assms], simp)+
  have fcsr: "warl_ok CSR_FCSR x" "warl_ok CSR_MCOUNTINHIBIT x" "warl_ok CSR_MENVCFG x" for x
    by (rule warl_ok_other, simp add: csr_addrs)+
  show ?thesis
    unfolding csr_write_reg_def Let_def
    by (intro ifI; (rule assms | rule tlb set [OF satp] set [OF warl_ok_mstatus] set [OF warl_ok_masks(3)]
          set [OF warl_ok_masks(4)] set [OF warl_ok_masks(5)] set [OF warl_ok_masks(6)] set [OF m(1)] set [OF m(2)]
          set [OF fcsr(1)] set [OF fcsr(2)] set [OF fcsr(3)]
        | (rule set, erule hpm_distinct) | (rule set, erule mhpm_distinct) | (rule set, rule warl_ok_other, simp))+)
qed

lemma csr_write_legal:
  assumes "regs_legal (csr_regs (h_csr h))"
  shows "regs_legal (csr_regs (h_csr (csr_write h a v)))"
proof (cases "is_mhpmcounter (a AND 0xFFF) \<and> a AND 0xFFF \<noteq> CSR_MCYCLE \<and> a AND 0xFFF \<noteq> CSR_MINSTRET")
  case True
  then have "warl_ok (a AND 0xFFF) v" by (intro mhpm_distinct) simp
  then show ?thesis using True regs_legal_upd [OF assms] by (simp add: csr_write_def Let_def set_reg_regs)
next
  case False
  then show ?thesis using assms csr_write_reg_legal [OF assms, of "a AND 0xFFF" v]
    by (auto simp: csr_write_def Let_def)
qed

lemma legal_enter_trap: "legal p \<Longrightarrow> legal (enter_trap p cause tval)"
  by (auto simp: legal_def enter_trap_def Let_def intro!: csr_write_legal)

lemma legal_returns: "legal p \<Longrightarrow> legal (return_from_mret p)" "legal p \<Longrightarrow> legal (return_from_sret p)"
  by (auto simp: legal_def return_from_mret_def return_from_sret_def Let_def intro!: csr_write_legal)

lemma legal_write_mip: "legal p \<Longrightarrow> legal (write_mip p v)"
  by (simp add: legal_def write_mip_def csr_write_legal)

lemma legal_trap_part: "legal (p\<lparr>cpu_trap := t\<rparr>) \<longleftrightarrow> legal p"
  by (simp add: legal_def)

lemma legal_timer: "legal p \<Longrightarrow> legal (raise_timer_interrupt p)"
  unfolding raise_timer_interrupt_def Let_def by (simp add: legal_trap_part legal_write_mip)

lemma legal_sync: "legal p \<Longrightarrow> legal (sync_platform_events p ev)"
  unfolding sync_platform_events_def sync_external_interrupts_def Let_def
  by (rule legal_write_mip) (simp add: legal_timer legal_trap_part legal_write_mip)

lemma legal_service: "legal p \<Longrightarrow> legal (snd (service_pending_interrupts p))"
  unfolding service_pending_interrupts_def enter_interrupt_def
  by (cases "select_serviceable_interrupt (cpu_hart p)")
    (simp_all add: case_prod_beta legal_enter_trap legal_write_mip)

lemma legal_events: "legal p \<Longrightarrow> legal (handle_platform_events p ev)"
  unfolding handle_platform_events_def by (intro legal_service legal_sync)

lemma legal_boot: "legal (cpu_boot entry clint)"
  by (simp add: legal_def cpu_boot_def csr_reset_def regs_legal_def warl_ok_def mpp_reserved_def fs_dirty_def
      satp_legal_def csr_addrs)

lemma reachable_legal: "cpu_reachable p \<Longrightarrow> legal p"
proof (induction rule: cpu_reachable.induct)
  case (step p p')
  from step.hyps(2) step.IH show ?case
    by cases (simp_all add: legal_enter_trap legal_returns legal_events, simp_all add: legal_def csr_write_legal)
qed (rule legal_boot)

text \<open>C16: in every state that CSR writes, traps, returns, interrupts and instruction execution can
  reach, the WARL registers hold legal values: MPP is never the reserved mode, SD summarises the FS and
  VS fields, satp is bare or Sv39 with a 44-bit page number, only delegable causes are delegated and
  only implemented interrupts are enabled or pending.  A trap return therefore always lands in an
  existing privilege mode, and a supervisor return never in machine mode.\<close>

theorem registers_stay_legal:
  assumes "cpu_reachable p"
  shows "(\<forall>a. warl_ok a (csr_regs (h_csr (cpu_hart p)) a)) \<and>
         cs_privilege_mode (h_core (cpu_hart (return_from_sret p))) \<noteq> Machine \<and>
         encode_privilege_mode (cs_privilege_mode (h_core (cpu_hart (return_from_mret p)))) =
           drop_bit 11 (csr (cpu_hart p) CSR_MSTATUS AND MSTATUS_MPP_MASK)"
proof -
  let ?w = "mstatus_of (cpu_hart p)"
  have l: "\<forall>a. warl_ok a (csr_regs (h_csr (cpu_hart p)) a)"
    using reachable_legal [OF assms] by (simp add: legal_def regs_legal_def)
  then have w: "\<not> mpp_reserved ?w" by (simp add: warl_ok_def mstatus_of_def)
  have "drop_bit 11 (csr (cpu_hart p) CSR_MSTATUS AND MSTATUS_MPP_MASK) =
      (if bit ?w 11 then 1 else 0) OR (if bit ?w 12 then 2 else 0)"
    by (subst mpp_field) (simp add: csr_read_simps(1) bit_with_sd mstatus_of_def)
  moreover have "(1 OR 2 :: u64) = 3" by simp
  ultimately show ?thesis
    using l w return_from_sret_spec(1) [OF w] return_from_mret_spec(1) [where p = p]
    by (auto simp: mpp_mode_def mpp_reserved_def)
qed

subsection \<open>Witnesses\<close>

lemma boot_mstatus [simp]: "mstatus_of (cpu_hart (cpu_boot entry clint)) = 0"
  by (simp add: cpu_boot_def csr_reset_def mstatus_of_def csr_addrs)

lemma boot_core [simp]: "h_core (cpu_hart (cpu_boot entry clint)) = core_reset entry"
  by (simp add: cpu_boot_def)

theorem registers_stay_legal_witness:
  "cs_privilege_mode (h_core (cpu_hart (return_from_sret
     (enter_trap (cpu_boot 0x80000000 None) 2 0)))) \<noteq> Machine"
  using registers_stay_legal [OF cpu_reachable.step [OF cpu_reachable.boot register_event.trap]] by blast

theorem trap_return_roundtrip_witness:
  "let p = cpu_boot 0x80000000 None;
       h'' = cpu_hart (return_from_mret (enter_trap p 2 0x13))
   in cs_privilege_mode (h_core h'') = Machine \<and> cs_pc (h_core h'') = 0x80000000"
proof -
  let ?p = "cpu_boot 0x80000000 None"
  have "\<not> delegated_to_supervisor (cpu_hart ?p) 2"
    by (simp add: delegated_to_supervisor_def core_reset_def)
  moreover have "\<not> mpp_reserved (mstatus_of (cpu_hart ?p))" by (simp add: mpp_reserved_def)
  ultimately show ?thesis
    using trap_return_roundtrip [of ?p 2 "0x13"] by (simp add: Let_def core_reset_def)
qed

theorem interrupt_taken_witness:
  "let p = cpu_boot 0x80000000 None;
       q = p\<lparr>cpu_hart := set_reg (set_reg (set_reg (cpu_hart p) CSR_MSTATUS 8) CSR_MIE 0x800) CSR_MIP 0x800\<rparr>
   in fst (service_pending_interrupts q) \<and>
      \<not> has_serviceable_interrupt (snd (service_pending_interrupts q))"
proof -
  let ?p = "cpu_boot 0x80000000 None"
  define q where "q = ?p\<lparr>cpu_hart := set_reg (set_reg (set_reg (cpu_hart ?p) CSR_MSTATUS 8) CSR_MIE 0x800) CSR_MIP 0x800\<rparr>"
  obtain ok p' where r: "service_pending_interrupts q = (ok, p')" by fastforce
  have c: "csr_regs (h_csr (cpu_hart q)) CSR_MIE = 0x800" "csr_regs (h_csr (cpu_hart q)) CSR_MIP = 0x800"
    "mstatus_of (cpu_hart q) = 8"
    by (simp_all add: q_def mstatus_of_def csr_addrs)
  have b: "(0x800 :: u64) = push_bit 11 1" "(8 :: u64) = push_bit 3 1" by simp_all
  have "bit (csr (cpu_hart q) CSR_MIE) 11" "bit (csr (cpu_hart q) CSR_MIP) 11" "bit (mstatus_of (cpu_hart q)) 3"
    "\<not> mpp_reserved (mstatus_of (cpu_hart q))"
    unfolding csr_read_simps c mpp_reserved_def b
    by (simp_all only: if_distrib [of "\<lambda>x. bit x 11"] bit_and_iff bit_or_iff bit_MIP_MIE_MASK bit_one_bit) auto
  moreover from this have "find (serviceable (cpu_hart q)) interrupt_order = Some 11"
    by (simp add: interrupt_order_def serviceable_def Let_def)
  ultimately show ?thesis
    unfolding Let_def q_def [symmetric] using interrupt_taken [OF _ r] by (simp add: r)
qed

end
