(* ===== verification/HartFrame.thy ===== *)
theory HartFrame
  imports CpuStep TrapProperties
begin

text \<open>
  The memory accesses of an instruction leave the hart as it is, but for its TLB: registers, program
  counter, mode and CSRs change only in the register phase of the commit boundary or in a trap.
\<close>

definition same_hart :: "hart \<Rightarrow> hart \<Rightarrow> bool" where
  "same_hart h h' \<longleftrightarrow> h' = h\<lparr>h_tlb := h_tlb h'\<rparr>"

lemma same_hart_refl [simp]: "same_hart h h"
  by (simp add: same_hart_def)

lemma same_hart_tlb [simp]: "same_hart h (h\<lparr>h_tlb := t\<rparr>)"
  by (simp add: same_hart_def)

lemma same_hartD:
  assumes "same_hart h h'"
  shows "h_core h' = h_core h" "h_csr h' = h_csr h" "h_as_bound h' = h_as_bound h"
proof -
  have "h_core h' = h_core (h\<lparr>h_tlb := h_tlb h'\<rparr>)" "h_csr h' = h_csr (h\<lparr>h_tlb := h_tlb h'\<rparr>)"
    "h_as_bound h' = h_as_bound (h\<lparr>h_tlb := h_tlb h'\<rparr>)"
    using assms unfolding same_hart_def by metis+
  then show "h_core h' = h_core h" "h_csr h' = h_csr h" "h_as_bound h' = h_as_bound h" by simp_all
qed

lemma same_hartI: "h_core h' = h_core h \<Longrightarrow> h_csr h' = h_csr h \<Longrightarrow> h_as_bound h' = h_as_bound h \<Longrightarrow> same_hart h h'"
  by (simp add: same_hart_def)

lemma same_hart_trans: "same_hart h h1 \<Longrightarrow> same_hart h1 h2 \<Longrightarrow> same_hart h h2"
  by (rule same_hartI) (simp_all add: same_hartD)

subsection \<open>Translation\<close>

lemma walk_leaf_hart: "walk_leaf (h, b) v ty upd level pte_addr pte = (r, (h', b')) \<Longrightarrow> same_hart h h'"
  by (auto simp: walk_leaf_def Let_def split: option.splits if_splits prod.splits)

lemma walk_levels_hart: "walk_levels (h, b) v ty upd level ppn = (r, (h', b')) \<Longrightarrow> same_hart h h'"
proof (induction level arbitrary: h b ppn)
  case 0
  then show ?case
    by (auto simp: walk_levels.simps [of h b] Let_def split: prod.splits option.splits if_splits dest!: walk_leaf_hart)
next
  case (Suc level)
  show ?case using Suc.prems
    by (auto simp: walk_levels.simps [of h b] Let_def split: prod.splits option.splits if_splits
        dest!: walk_leaf_hart Suc.IH)
qed

lemma mmu_translate_hart: "mmu_translate x v ty upd = (r, y) \<Longrightarrow> same_hart (fst x) (fst y)"
  by (cases x; cases y)
    (auto simp: mmu_translate_def Let_def walk_page_table_def split: if_splits option.splits prod.splits
      dest!: walk_levels_hart)

subsection \<open>Loads and stores\<close>

lemma access_loop_hart: "access_loop x a n sh v ty = (r, y) \<Longrightarrow> same_hart (fst x) (fst y)"
proof (induction x a n sh v ty arbitrary: r y rule: access_loop.induct)
  case (1 x a n sh v ty)
  show ?case
  proof (cases "n > 0")
    case True
    obtain t h1 b1 where t: "mmu_translate x a ty True = (t, (h1, b1))" by (metis prod.exhaust)
    note s1 = mmu_translate_hart [OF t]
    show ?thesis
    proof (cases t)
      case (Inl f)
      then show ?thesis using 1(2) True t s1 by (auto simp: access_loop.simps [of x])
    next
      case (Inr paddr)
      obtain k b2 where l: "bus_load b1 paddr (page_chunk_size a n) = (k, b2)" by (metis prod.exhaust)
      show ?thesis
      proof (cases k)
        case None
        then show ?thesis using 1(2) True t s1 Inr l by (auto simp: access_loop.simps [of x] Let_def)
      next
        case (Some c)
        have "same_hart h1 (fst y)"
          using 1(1) [OF True refl t [symmetric] _ refl l [symmetric]] 1(2) True t Inr l Some
          by (simp add: access_loop.simps [of x] Let_def)
        then show ?thesis using same_hart_trans s1 by auto
      qed
    qed
  qed (use 1(2) in \<open>auto simp: access_loop.simps [of x]\<close>)
qed

lemma store_loop_hart: "store_loop x a n v = (r, y) \<Longrightarrow> same_hart (fst x) (fst y)"
proof (induction x a n v arbitrary: r y rule: store_loop.induct)
  case (1 x a n v)
  show ?case
  proof (cases "n > 0")
    case True
    obtain t h1 b1 where t: "mmu_translate x a Access_Store True = (t, (h1, b1))" by (metis prod.exhaust)
    note s1 = mmu_translate_hart [OF t]
    show ?thesis
    proof (cases t)
      case (Inl f)
      then show ?thesis using 1(2) True t s1 by (auto simp: store_loop.simps [of x])
    next
      case (Inr paddr)
      let ?c = "page_chunk_size a n"
      obtain k b2 where l: "bus_store b1 paddr (v AND size_mask ?c) ?c = (k, b2)" by (metis prod.exhaust)
      show ?thesis
      proof (cases k)
        case False
        then show ?thesis using 1(2) True t s1 Inr l by (auto simp: store_loop.simps [of x] Let_def)
      next
        case k: True
        have "same_hart h1 (fst y)"
          using 1(1) [OF True refl t [symmetric] _ refl l [symmetric]] 1(2) True t Inr l k
          by (simp add: store_loop.simps [of x] Let_def)
        then show ?thesis using same_hart_trans s1 by auto
      qed
    qed
  qed (use 1(2) in \<open>auto simp: store_loop.simps [of x]\<close>)
qed

lemma load_result_hart: "load_result x a n = (r, y) \<Longrightarrow> same_hart (fst x) (fst y)"
  by (simp add: load_result_def access_result_def access_loop_hart)

lemma store_result_hart: "store_result x a v n = (r, y) \<Longrightarrow> same_hart (fst x) (fst y)"
  by (simp add: store_result_def store_loop_hart)

lemma fetch_result_hart:
  "fetch16_result x pc = (r, y) \<Longrightarrow> same_hart (fst x) (fst y)"
  "fetch32_result x pc = (r, y) \<Longrightarrow> same_hart (fst x) (fst y)"
  by (auto simp: fetch16_result_def fetch32_result_def access_result_def dest: access_loop_hart)

end
