(* ===== verification/PreciseTraps.thy ===== *)
theory PreciseTraps
  imports HartFrame
begin

text \<open>
  Precise traps: an instruction that traps at the commit boundary leaves no trace in the registers.
\<close>

subsection \<open>The memory phase\<close>

text \<open>What the memory phase may change besides memory: the TLB and the reservation.\<close>

definition same_registers :: "'d machine \<Rightarrow> 'd machine \<Rightarrow> bool" where
  "same_registers m m' \<longleftrightarrow> same_hart (mc_hart m) (mc_hart m') \<and>
     timer_pending_mask (cpu_trap (mc_cpu m')) = timer_pending_mask (cpu_trap (mc_cpu m))"

lemma same_registers_refl [simp]: "same_registers m m"
  by (simp add: same_registers_def)

lemma same_registers_trans: "same_registers m m1 \<Longrightarrow> same_registers m1 m2 \<Longrightarrow> same_registers m m2"
  by (auto simp: same_registers_def intro: same_hart_trans)

lemma set_mmu_simps [simp]:
  "mc_hart (set_mmu m x) = fst x" "mc_bus (set_mmu m x) = snd x" "mc_vector (set_mmu m x) = mc_vector m"
  "cpu_trap (mc_cpu (set_mmu m x)) = cpu_trap (mc_cpu m)"
  by (simp_all add: set_mmu_def set_hart_def)

lemma set_mmu_registers: "same_hart (mc_hart m) (fst x) \<Longrightarrow> same_registers m (set_mmu m x)"
  by (simp add: same_registers_def)

lemma reservation_simps [simp]:
  "cpu_hart (clear_reservation p) = cpu_hart p" "cpu_hart (set_reservation p a n) = cpu_hart p"
  "cpu_hart (invalidate_reservation p a n) = cpu_hart p"
  "timer_pending_mask (cpu_trap (clear_reservation p)) = timer_pending_mask (cpu_trap p)"
  "timer_pending_mask (cpu_trap (set_reservation p a n)) = timer_pending_mask (cpu_trap p)"
  "timer_pending_mask (cpu_trap (invalidate_reservation p a n)) = timer_pending_mask (cpu_trap p)"
  by (simp_all add: clear_reservation_def set_reservation_def invalidate_reservation_def Let_def)

definition same_cpu :: "cpu \<Rightarrow> cpu \<Rightarrow> bool" where
  "same_cpu p p' \<longleftrightarrow> same_hart (cpu_hart p) (cpu_hart p') \<and>
     timer_pending_mask (cpu_trap p') = timer_pending_mask (cpu_trap p)"

lemma invalidate_for_store_cpu: "invalidate_reservation_for_store p b a n = (p', b') \<Longrightarrow> same_cpu p p'"
  by (auto simp: invalidate_reservation_for_store_def same_cpu_def split: if_splits prod.splits sum.splits
      dest!: mmu_translate_hart)

lemma atomic_cpu: "apply_atomic_request p b q = (r, p', b') \<Longrightarrow> same_cpu p p'"
proof -
  assume a: "apply_atomic_request p b q = (r, p', b')"
  define ty where "ty = (if aq_kind q = Load_Reserved then Access_Load else Access_Store)"
  obtain t h1 b1 where t: "mmu_translate (cpu_hart p, b) (aq_addr q) ty True = (t, (h1, b1))" by (metis prod.exhaust)
  have h: "same_hart (cpu_hart p) h1" using mmu_translate_hart [OF t] by simp
  have "same_cpu (p\<lparr>cpu_hart := h1\<rparr>) p' \<Longrightarrow> same_cpu p p'"
    using h by (auto simp: same_cpu_def intro: same_hart_trans)
  then show ?thesis
    using a t h unfolding apply_atomic_request_def Let_def ty_def [symmetric]
    by (auto simp: same_cpu_def apply_load_reserved_def apply_store_conditional_def apply_amo_def Let_def
        split: if_splits sum.splits option.splits prod.splits bool.splits)
qed

lemma commit_memory_registers:
  assumes "commit_memory m e = (r, m1)"
  shows "same_registers m m1" "mc_vector m1 = mc_vector m"
proof -
  have "same_registers m m1 \<and> mc_vector m1 = mc_vector m"
  proof (cases "mq_kind (eff_mem e) = Mem_Load \<and> \<not> rw_enable (eff_rd e) \<and> \<not> rw_enable (eff_fp e)")
    case True
    obtain v x where l: "load_result (mc_hart m, mc_bus m) (mq_addr (eff_mem e)) (mq_size (eff_mem e)) = (v, x)"
      by (metis prod.exhaust)
    have "m1 = set_mmu m x" using assms True l by (auto simp: commit_memory_def Let_def split: sum.splits)
    moreover have "same_registers m (set_mmu m x)" using load_result_hart [OF l] by (simp add: set_mmu_registers)
    ultimately show ?thesis by simp
  next
    case nl: False
    show ?thesis
    proof (cases "mq_kind (eff_mem e) = Mem_Store")
      case True
      obtain f x where s: "store_result (mc_hart m, mc_bus m) (mq_addr (eff_mem e)) (mq_store_value (eff_mem e))
          (mq_size (eff_mem e)) = (f, x)" by (metis prod.exhaust)
      obtain p b where i: "invalidate_reservation_for_store (mc_cpu (set_mmu m x)) (mc_bus (set_mmu m x))
          (mq_addr (eff_mem e)) (mq_size (eff_mem e)) = (p, b)" by (metis prod.exhaust)
      have "m1 = set_mmu m x \<or> m1 = (set_mmu m x)\<lparr>mc_cpu := p, mc_bus := b\<rparr>"
        using assms nl True s i by (auto simp: commit_memory_def Let_def split: option.splits)
      moreover have "same_registers m (set_mmu m x)" using store_result_hart [OF s] by (simp add: set_mmu_registers)
      ultimately show ?thesis
        using invalidate_for_store_cpu [OF i] same_hart_trans
        by (auto simp: same_registers_def same_cpu_def)
    next
      case False
      then show ?thesis using assms nl by (auto simp: commit_memory_def Let_def)
    qed
  qed
  then show "same_registers m m1" "mc_vector m1 = mc_vector m" by simp_all
qed

lemma commit_atomic_registers:
  assumes "commit_atomic m e r0 = (f, r, m1)"
  shows "same_registers m m1" "mc_vector m1 = mc_vector m"
proof -
  obtain a p b where q: "apply_atomic_request (mc_cpu m) (mc_bus m) (eff_atomic e) = (a, p, b)" by (metis prod.exhaust)
  have "same_cpu (mc_cpu m) p" by (rule atomic_cpu [OF q])
  then show "same_registers m m1" "mc_vector m1 = mc_vector m"
    using assms q by (auto simp: commit_atomic_def Let_def same_registers_def same_cpu_def split: if_splits)
qed

subsection \<open>The vector unit\<close>

lemma validate_span_hart: "validate_span_loop x a n ty s = (r, y) \<Longrightarrow> same_hart (fst x) (fst y)"
proof (induction n arbitrary: x a s)
  case (Suc n)
  obtain t h1 b1 where t: "mmu_translate x a ty False = (t, (h1, b1))" by (metis prod.exhaust)
  have h: "same_hart (fst x) h1" using mmu_translate_hart [OF t] by simp
  have "validate_span_loop (h1, b1) (a + 1) n ty s' = (r, y) \<Longrightarrow> same_hart (fst x) (fst y)" for s'
    using same_hart_trans [OF h] Suc.IH [of "(h1, b1)" "a + 1" s'] by simp
  then show ?case using Suc.prems t h
    by (auto simp: Let_def split: sum.splits option.splits if_splits)
qed simp

lemma vector_load_loop_hart: "vector_load_loop x a i n reg = (r, y) \<Longrightarrow> same_hart (fst x) (fst y)"
proof (induction n arbitrary: x i reg)
  case (Suc n)
  obtain t x1 where t: "load_result x (a + of_nat i) 1 = (t, x1)" by (metis prod.exhaust)
  show ?case using Suc.prems t load_result_hart [OF t]
    by (auto split: sum.splits dest!: Suc.IH intro: same_hart_trans)
qed simp

lemma vector_store_loop_hart: "vector_store_loop x a i n reg = (r, y) \<Longrightarrow> same_hart (fst x) (fst y)"
proof (induction n arbitrary: x i)
  case (Suc n)
  obtain t x1 where t: "store_result x (a + of_nat i) (ucast (reg i)) 1 = (t, x1)" by (metis prod.exhaust)
  show ?case using Suc.prems t store_result_hart [OF t]
    by (auto split: option.splits dest!: Suc.IH intro: same_hart_trans)
qed simp

lemma vector_load_frame:
  assumes "vector_load x v q = (t, v', y)"
  shows "same_hart (fst x) (fst y)" "t \<noteq> None \<Longrightarrow> v' = v"
proof -
  have "same_hart (fst x) (fst y) \<and> (t \<noteq> None \<longrightarrow> v' = v)"
    using assms unfolding vector_load_def validate_vector_memory_span_def Let_def
    by (auto split: option.splits if_splits prod.splits sum.splits
        dest!: validate_span_hart vector_load_loop_hart intro: same_hart_trans)
  then show "same_hart (fst x) (fst y)" "t \<noteq> None \<Longrightarrow> v' = v" by auto
qed

lemma vector_store_frame:
  assumes "vector_store x v q = (t, v', y)"
  shows "same_hart (fst x) (fst y)" "v' = v"
proof -
  have "same_hart (fst x) (fst y) \<and> v' = v"
    using assms unfolding vector_store_def validate_vector_memory_span_def Let_def
    by (auto split: option.splits if_splits prod.splits sum.splits
        dest!: validate_span_hart vector_store_loop_hart intro: same_hart_trans)
  then show "same_hart (fst x) (fst y)" "v' = v" by auto
qed

lemma vector_frame:
  assumes "apply_vector_request x v q = (t, v', y)"
  shows "same_hart (fst x) (fst y)" "t \<noteq> None \<Longrightarrow> v' = v"
  using assms vector_load_frame [of x v q t v' y] vector_store_frame [of x v q t v' y]
  by (auto simp: apply_vector_request_def split: vector_kind.splits option.splits if_splits)

lemma commit_vector_registers:
  assumes "commit_vector m e = (t, m1)"
  shows "same_registers m m1" "t \<noteq> None \<Longrightarrow> mc_vector m1 = mc_vector m"
proof -
  obtain f v x where q: "apply_vector_request (mc_hart m, mc_bus m) (mc_vector m) (eff_vector e) = (f, v, x)"
    by (metis prod.exhaust)
  note fr = vector_frame [OF q]
  show "same_registers m m1" "t \<noteq> None \<Longrightarrow> mc_vector m1 = mc_vector m"
    using assms q fr by (auto simp: commit_vector_def same_registers_def split: if_splits)
qed

subsection \<open>The trap\<close>

lemma enter_trap_core:
  "h_core (cpu_hart (enter_trap p cause tval)) =
     (h_core (cpu_hart p))\<lparr>cs_pc := cs_pc (h_core (cpu_hart (enter_trap p cause tval))),
       cs_privilege_mode := cs_privilege_mode (h_core (cpu_hart (enter_trap p cause tval)))\<rparr>"
  by (simp add: enter_trap_def Let_def csr_write_simps set_mode_pc_def)

lemma enter_trap_mask: "timer_pending_mask (cpu_trap (enter_trap p cause tval)) = timer_pending_mask (cpu_trap p)"
  by (simp add: enter_trap_def Let_def)

lemma delegated_same:
  "h_csr h' = h_csr h \<Longrightarrow> cs_privilege_mode (h_core h') = cs_privilege_mode (h_core h) \<Longrightarrow>
     delegated_to_supervisor h' cause = delegated_to_supervisor h cause"
  by (simp add: delegated_to_supervisor_def csr_read_simps)

text \<open>The state after a precise trap of the instruction at \<open>pc\<close>, against the state before the
  instruction.\<close>

definition trapped_at :: "u64 \<Rightarrow> u64 \<Rightarrow> 'd machine \<Rightarrow> 'd machine \<Rightarrow> bool" where
  "trapped_at pc cause m m' \<longleftrightarrow>
     (let d = delegated_to_supervisor (mc_hart m) cause; regs = csr_regs (h_csr (mc_hart m));
          regs' = csr_regs (h_csr (mc_hart m')) in
      mc_core m' = (mc_core m)\<lparr>cs_pc := trap_vector_base (regs (tvec_csr d)) cause,
                               cs_privilege_mode := (if d then Supervisor else Machine)\<rparr> \<and>
      mc_vector m' = mc_vector m \<and> regs' (epc_csr d) = pc \<and> regs' (cause_csr d) = cause \<and>
      (\<forall>a. a \<notin> {CSR_MSTATUS, epc_csr d, cause_csr d, tval_csr d} \<longrightarrow> regs' a = regs a) \<and>
      \<not> reservation_valid (cpu_trap (mc_cpu m')))"

lemma enter_precise_trap_at:
  assumes sr: "same_registers m m1" "mc_vector m1 = mc_vector m"
    and legal: "\<not> mpp_reserved (mstatus_of (mc_hart m))" and t: "enter_precise_trap m1 pc f = (r, m')"
  shows "trapped_at pc (fst f) m m'" "\<not> cb_retired r" "cb_next_pc r = cs_pc (mc_core m')" "cb_trap_taken r"
proof -
  define p where "p = (mc_cpu m1)\<lparr>cpu_hart := (mc_hart m1)\<lparr>h_core := (mc_core m1)\<lparr>cs_pc := pc\<rparr>\<rparr>\<rparr>"
  have m': "m' = m1\<lparr>mc_cpu := enter_trap p (fst f) (snd f)\<rparr>" and rr: "r = trap_result m'"
    using t by (auto simp: enter_precise_trap_def Let_def set_core_def set_hart_def p_def enter_exception_def)
  have sh: "h_core (mc_hart m1) = mc_core m" "h_csr (mc_hart m1) = h_csr (mc_hart m)"
    using sr(1) by (simp_all add: same_registers_def same_hartD)
  have legal': "\<not> mpp_reserved (mstatus_of (cpu_hart p))" using legal sh by (simp add: mstatus_of_def p_def)
  have d: "delegated_to_supervisor (cpu_hart p) (fst f) = delegated_to_supervisor (mc_hart m) (fst f)"
    by (rule delegated_same) (simp_all add: p_def sh)
  note spec = enter_trap_spec [OF legal', where cause = "fst f" and tval = "snd f", unfolded d]
  have "mc_core m' = (mc_core m)\<lparr>cs_pc := cs_pc (mc_core m'), cs_privilege_mode := cs_privilege_mode (mc_core m')\<rparr>"
    using enter_trap_core [of p "fst f" "snd f"] by (simp add: m' p_def sh)
  then show "trapped_at pc (fst f) m m'"
    using spec sr(2) by (simp add: trapped_at_def Let_def m' p_def sh)
  show "\<not> cb_retired r" "cb_next_pc r = cs_pc (mc_core m')" "cb_trap_taken r"
    by (simp_all add: rr trap_result_def empty_result_def)
qed

lemma commit_control_no_trap: "commit_control m e n r = (r', m') \<Longrightarrow> cb_trap_taken r' = cb_trap_taken r"
  by (auto simp: commit_control_def Let_def split: trap_return_kind.splits if_splits)

lemma commit_atomic_no_trap: "commit_atomic m e r0 = (f, r, m') \<Longrightarrow> cb_trap_taken r = cb_trap_taken r0"
  by (auto simp: commit_atomic_def Let_def store_observation_def split: prod.splits if_splits)

text \<open>C14: traps are precise.  When the commit boundary reports a trap, of the instruction's own or of
  one of its memory accesses however far it got, the integer and floating-point registers, the vector
  unit, the cycle and retirement counters and the halt flag are those before the instruction; only the
  program counter, set to the trap vector, and the mode have changed.  The exception program counter of
  the mode that handles the trap holds the address of the instruction, no CSR changes but that, the cause,
  the value and \<open>mstatus\<close>, the reservation is gone, and the instruction is not reported as retired.\<close>

theorem traps_are_precise:
  assumes "apply_commit_boundary m pc next_pc e = (r, m')" "cb_trap_taken r"
    and "\<not> mpp_reserved (mstatus_of (mc_hart m))"
  shows "\<exists>cause. trapped_at pc cause m m' \<and> \<not> cb_retired r \<and> cb_next_pc r = cs_pc (mc_core m')"
proof (cases "tr_valid (eff_trap e)")
  case True
  then have "enter_precise_trap m pc (trap_fault (eff_trap e)) = (r, m')"
    using assms(1) by (simp add: apply_commit_boundary_def)
  from enter_precise_trap_at [OF same_registers_refl refl assms(3) this] show ?thesis by blast
next
  case False
  obtain f1 m1 where c1: "commit_memory m e = (f1, m1)" by (metis prod.exhaust)
  note s1 = commit_memory_registers [OF c1]
  show ?thesis
  proof (cases f1)
    case (Inl f)
    then have "enter_precise_trap m1 pc f = (r, m')" using assms(1) False c1 by (simp add: apply_commit_boundary_def)
    from enter_precise_trap_at [OF s1 assms(3) this] show ?thesis by blast
  next
    case f1: (Inr e1)
    obtain f2 r2 m2 where c2: "commit_atomic m1 e1 (empty_result next_pc) = (f2, r2, m2)" by (metis prod.exhaust)
    note s2 = commit_atomic_registers [OF c2]
    have s12: "same_registers m m2" "mc_vector m2 = mc_vector m"
      using same_registers_trans [OF s1(1) s2(1)] s1(2) s2(2) by simp_all
    show ?thesis
    proof (cases f2)
      case (Inl f)
      obtain t m3 where t: "enter_precise_trap m2 pc f = (t, m3)" by (metis prod.exhaust)
      note tr = enter_precise_trap_at [OF s12 assms(3) t]
      have "m' = m3" "cb_retired r = cb_retired t" "cb_next_pc r = cb_next_pc t"
        using assms(1) False c1 f1 c2 Inl t by (auto simp: apply_commit_boundary_def)
      then show ?thesis using tr by auto
    next
      case f2: (Inr e2)
      obtain f3 m3 where c3: "commit_vector m2 e2 = (f3, m3)" by (metis prod.exhaust)
      note s3 = commit_vector_registers [OF c3]
      show ?thesis
      proof (cases f3)
        case (Some f)
        have "same_registers m m3" "mc_vector m3 = mc_vector m"
          using same_registers_trans [OF s12(1) s3(1)] s3(2) s12(2) Some by simp_all
        moreover have "enter_precise_trap m3 pc f = (r, m')"
          using assms(1) False c1 f1 c2 f2 c3 Some by (simp add: apply_commit_boundary_def)
        ultimately show ?thesis using enter_precise_trap_at [OF _ _ assms(3)] by blast
      next
        case None
        then have "commit_control (commit_registers m3 e2) e2 next_pc r2 = (r, m')"
          using assms(1) False c1 f1 c2 f2 c3 by (auto simp: apply_commit_boundary_def)
        from commit_control_no_trap [OF this] commit_atomic_no_trap [OF c2]
        have "\<not> cb_trap_taken r" by (simp add: empty_result_def)
        then show ?thesis using assms(2) by simp
      qed
    qed
  qed
qed

text \<open>An illegal instruction at the reset address.\<close>

definition boot_machine :: "u64 \<Rightarrow> unit machine" where
  "boot_machine entry = \<lparr>mc_cpu = cpu_boot entry None, mc_bus = bus_create \<lparr>mem_data = (\<lambda>_. 0)\<rparr> (), mc_vector = vector_reset\<rparr>"

theorem traps_are_precise_witness:
  "\<exists>r m'. apply_commit_boundary (boot_machine 0x80000000) 0x80000000 0x80000004 (illegal_instruction_effect 0) = (r, m') \<and>
     cs_gpr (mc_core m') = (\<lambda>_. 0) \<and> cs_instret (mc_core m') = 0 \<and>
     csr_regs (h_csr (mc_hart m')) CSR_MEPC = 0x80000000"
proof -
  let ?m = "boot_machine 0x80000000"
  obtain r m' where r: "apply_commit_boundary ?m 0x80000000 0x80000004 (illegal_instruction_effect 0) = (r, m')"
    by (metis prod.exhaust)
  have core: "mc_core ?m = core_reset 0x80000000" "\<not> mpp_reserved (mstatus_of (mc_hart ?m))"
    by (simp_all add: boot_machine_def mpp_reserved_def)
  have "cb_trap_taken r"
    using r by (auto simp: apply_commit_boundary_def illegal_instruction_effect_def illegal_instruction_trap_def
        enter_precise_trap_def Let_def trap_result_def)
  from traps_are_precise [OF r this core(2)]
  obtain cause where t: "trapped_at 0x80000000 cause ?m m'" by blast
  have "\<not> delegated_to_supervisor (mc_hart ?m) cause" by (simp add: delegated_to_supervisor_def core core_reset_def)
  then show ?thesis using r t by (simp add: trapped_at_def Let_def core core_reset_def epc_csr_def)
qed

end
