(* ===== verification/Pmm.thy ===== *)
theory Pmm
  imports Prelude EarlyHeap
begin

text \<open>
  The physical page allocator (\<open>guest/kernel/pmm.c\<close>): a bitmap over the RAM pages above the
  early heap, with a rotating search hint.  \<open>pmm\<close> is the record of the module's static
  variables; \<open>page_bitmap\<close> is \<open>None\<close> while the pointer is NULL.  The page allocator's contract is
  stated as the locale \<open>page_allocator\<close>, with the set of pages handed out as its abstraction.
\<close>

record pmm =
  page_bitmap :: "u8 carray option"
  managed_start_ptr :: u64
  managed_end_ptr :: u64
  managed_page_count :: nat
  free_page_count :: nat
  next_search_index :: nat

definition pmm_boot :: pmm where
  "pmm_boot = \<lparr>page_bitmap = None, managed_start_ptr = 0, managed_end_ptr = 0,
     managed_page_count = 0, free_page_count = 0, next_search_index = 0\<rparr>"

definition bitmap_bytes_for_pages :: "nat \<Rightarrow> nat" where
  "bitmap_bytes_for_pages page_count = (page_count + 7) div 8"

definition page_bit_is_set :: "u8 carray \<Rightarrow> nat \<Rightarrow> bool" where
  "page_bit_is_set bm page_index = (bm (page_index div 8) AND push_bit (page_index mod 8) 1 \<noteq> 0)"

definition page_bit_set :: "u8 carray \<Rightarrow> nat \<Rightarrow> u8 carray" where
  "page_bit_set bm page_index =
     bm(page_index div 8 := bm (page_index div 8) OR push_bit (page_index mod 8) 1)"

definition page_bit_clear :: "u8 carray \<Rightarrow> nat \<Rightarrow> u8 carray" where
  "page_bit_clear bm page_index =
     bm(page_index div 8 := bm (page_index div 8) AND NOT (push_bit (page_index mod 8) 1))"

definition pmm_init :: "early_heap \<Rightarrow> u8 carray \<Rightarrow> pmm \<times> early_heap" where
  "pmm_init h garbage =
     (let physical_limit = memory_heap_limit h;
          aligned_cursor = align_up (memory_heap_current h) MEMORY_PAGE_SIZE;
          max_page_count = (if aligned_cursor \<ge> physical_limit then 0
                            else unat ((physical_limit - aligned_cursor) div MEMORY_PAGE_SIZE));
          bitmap_bytes = bitmap_bytes_for_pages max_page_count;
          (bitmap_ptr, h1) = (if bitmap_bytes \<noteq> 0 then memory_alloc h (of_nat bitmap_bytes) 8 else (0, h));
          (start, h2) = memory_finalize_early_allocator h1;
          s = pmm_boot\<lparr>page_bitmap := (if bitmap_ptr = 0 then None else Some garbage),
                managed_start_ptr := start, managed_end_ptr := physical_limit\<rparr>
      in if start = 0 \<or> start \<ge> physical_limit then (s\<lparr>managed_start_ptr := physical_limit\<rparr>, h2)
         else let page_count = unat ((physical_limit - start) div MEMORY_PAGE_SIZE)
           in if page_count = 0 \<or> page_bitmap s = None
              then (s\<lparr>managed_start_ptr := physical_limit, managed_page_count := 0\<rparr>, h2)
              else (s\<lparr>managed_page_count := page_count,
                      page_bitmap := Some (arr_write garbage 0 (replicate bitmap_bytes 0)),
                      free_page_count := page_count\<rparr>, h2))"

definition pmm_alloc_page :: "pmm \<Rightarrow> u64 \<times> pmm" where
  "pmm_alloc_page s =
     (if free_page_count s = 0 \<or> managed_page_count s = 0 then (0, s)
      else case page_bitmap s of
        None \<Rightarrow> (0, s)
      | Some bm \<Rightarrow>
          (case first_index (\<lambda>probe. \<not> page_bit_is_set bm
                   ((next_search_index s + probe) mod managed_page_count s)) (managed_page_count s) of
             None \<Rightarrow> (0, s)
           | Some probe \<Rightarrow>
               let page_index = (next_search_index s + probe) mod managed_page_count s in
                 (managed_start_ptr s + of_nat page_index * MEMORY_PAGE_SIZE,
                  s\<lparr>page_bitmap := Some (page_bit_set bm page_index),
                    free_page_count := free_page_count s - 1,
                    next_search_index := (page_index + 1) mod managed_page_count s\<rparr>)))"

definition pmm_free_page :: "pmm \<Rightarrow> u64 \<Rightarrow> bool \<times> pmm" where
  "pmm_free_page s page =
     (if page = 0 \<or> managed_page_count s = 0 \<or> page < managed_start_ptr s \<or>
         page \<ge> managed_end_ptr s \<or> page AND (MEMORY_PAGE_SIZE - 1) \<noteq> 0 then (False, s)
      else case page_bitmap s of
        None \<Rightarrow> (False, s)
      | Some bm \<Rightarrow>
          let page_index = unat ((page - managed_start_ptr s) div MEMORY_PAGE_SIZE) in
          if \<not> page_bit_is_set bm page_index then (False, s)
          else (True, s\<lparr>page_bitmap := Some (page_bit_clear bm page_index),
                        free_page_count := free_page_count s + 1,
                        next_search_index := (if page_index < next_search_index s then page_index
                                              else next_search_index s)\<rparr>))"

definition pmm_managed_start :: "pmm \<Rightarrow> u64" where "pmm_managed_start s = managed_start_ptr s"
definition pmm_managed_end :: "pmm \<Rightarrow> u64" where "pmm_managed_end s = managed_end_ptr s"
definition pmm_total_pages :: "pmm \<Rightarrow> nat" where "pmm_total_pages s = managed_page_count s"
definition pmm_free_pages :: "pmm \<Rightarrow> nat" where "pmm_free_pages s = free_page_count s"
definition pmm_used_pages :: "pmm \<Rightarrow> nat" where
  "pmm_used_pages s = managed_page_count s - free_page_count s"

subsection \<open>The bitmap\<close>

lemma page_bit_is_set_iff: "page_bit_is_set bm i \<longleftrightarrow> bit (bm (i div 8)) (i mod 8)"
proof -
  have "i mod 8 < 8" by simp
  then have "bm (i div 8) AND push_bit (i mod 8) 1 = (if bit (bm (i div 8)) (i mod 8) then push_bit (i mod 8) 1 else 0)"
    by (intro bit_word_eqI) (auto simp: bit_and_iff bit_exp_iff)
  moreover have "push_bit (i mod 8) 1 \<noteq> (0 :: u8)"
    by (auto dest: arg_cong [where f = "\<lambda>w. bit w (i mod 8)"] simp: bit_exp_iff)
  ultimately have "bm (i div 8) AND push_bit (i mod 8) 1 = 0 \<longleftrightarrow> \<not> bit (bm (i div 8)) (i mod 8)"
    by simp
  then show ?thesis by (simp add: page_bit_is_set_def)
qed

lemma page_bit_is_set_set [simp]: "page_bit_is_set (page_bit_set bm i) j \<longleftrightarrow> j = i \<or> page_bit_is_set bm j"
proof (cases "j div 8 = i div 8")
  case True
  then have "j mod 8 = i mod 8 \<longleftrightarrow> j = i" by (metis div_mult_mod_eq)
  then show ?thesis using True
    by (auto simp: page_bit_is_set_iff page_bit_set_def bit_or_iff bit_exp_iff possible_bit_word)
next
  case False
  then show ?thesis by (auto simp: page_bit_is_set_iff page_bit_set_def)
qed

lemma page_bit_is_set_clear [simp]: "page_bit_is_set (page_bit_clear bm i) j \<longleftrightarrow> j \<noteq> i \<and> page_bit_is_set bm j"
proof (cases "j div 8 = i div 8")
  case True
  then have "j mod 8 = i mod 8 \<longleftrightarrow> j = i" by (metis div_mult_mod_eq)
  then show ?thesis using True
    by (auto simp: page_bit_is_set_iff page_bit_clear_def bit_and_iff bit_not_iff bit_exp_iff possible_bit_word)
next
  case False
  then show ?thesis by (auto simp: page_bit_is_set_iff page_bit_clear_def)
qed

subsection \<open>Well-formedness and the set of pages handed out\<close>

definition page_at :: "pmm \<Rightarrow> nat \<Rightarrow> u64" where
  "page_at s i = managed_start_ptr s + of_nat i * MEMORY_PAGE_SIZE"

definition used_index :: "pmm \<Rightarrow> nat \<Rightarrow> bool" where
  "used_index s i = (case page_bitmap s of None \<Rightarrow> False | Some bm \<Rightarrow> page_bit_is_set bm i)"

definition allocated_pages :: "pmm \<Rightarrow> u64 set" where
  "allocated_pages s = page_at s ` {i. i < managed_page_count s \<and> used_index s i}"

definition pmm_wf :: "pmm \<Rightarrow> bool" where
  "pmm_wf s \<longleftrightarrow>
     free_page_count s = card {i. i < managed_page_count s \<and> \<not> used_index s i} \<and>
     (managed_page_count s \<noteq> 0 \<longrightarrow>
        page_bitmap s \<noteq> None \<and> managed_start_ptr s \<noteq> 0 \<and> unat (managed_start_ptr s) mod 4096 = 0 \<and>
        unat (managed_end_ptr s) = unat (managed_start_ptr s) + managed_page_count s * 4096 \<and>
        next_search_index s < managed_page_count s)"

lemma page_aligned_iff: "p AND (MEMORY_PAGE_SIZE - 1) = 0 \<longleftrightarrow> unat p mod 4096 = 0"
proof -
  have "MEMORY_PAGE_SIZE - 1 = mask 12" by (simp add: MEMORY_PAGE_SIZE_def mask_eq_exp_minus_1)
  then have *: "p AND (MEMORY_PAGE_SIZE - 1) = take_bit 12 p" by (simp add: take_bit_eq_mask)
  have "unat (take_bit 12 p) = unat p mod 4096"
    by (simp only: unsigned_take_bit_eq) (simp add: take_bit_eq_mod)
  then show ?thesis by (metis * unat_eq_zero)
qed

lemma page_at_unat:
  assumes "pmm_wf s" "i < managed_page_count s"
  shows "unat (page_at s i) = unat (managed_start_ptr s) + i * 4096"
proof -
  have e: "unat (managed_end_ptr s) = unat (managed_start_ptr s) + managed_page_count s * 4096"
    using assms by (auto simp: pmm_wf_def)
  have "unat (managed_end_ptr s) < 2 ^ 64" using unsigned_less [of "managed_end_ptr s"] by simp
  with e assms(2) have lt: "unat (managed_start_ptr s) + i * 4096 < 2 ^ 64"
    by (smt (verit, best) add_strict_left_mono less_trans mult_less_cancel2 zero_less_numeral)
  have "unat (of_nat i * MEMORY_PAGE_SIZE) = i * 4096"
  proof -
    have "of_nat i * MEMORY_PAGE_SIZE = of_nat (i * 4096)" by (simp add: MEMORY_PAGE_SIZE_def)
    then show ?thesis using lt by (simp only:) (rule unat_of_nat_small, simp)
  qed
  then show ?thesis
    using lt by (simp add: page_at_def unat_word_ariths)
qed

lemma page_at_inj:
  "pmm_wf s \<Longrightarrow> i < managed_page_count s \<Longrightarrow> j < managed_page_count s \<Longrightarrow> page_at s i = page_at s j \<longleftrightarrow> i = j"
  by (metis page_at_unat add_left_cancel mult_cancel2 zero_neq_numeral)

lemma page_at_index:
  assumes "pmm_wf s" "managed_page_count s \<noteq> 0" "managed_start_ptr s \<le> p" "p < managed_end_ptr s"
    and "p AND (MEMORY_PAGE_SIZE - 1) = 0"
    and i: "i = unat ((p - managed_start_ptr s) div MEMORY_PAGE_SIZE)"
  shows "i < managed_page_count s" "p = page_at s i"
proof -
  have i': "i = (unat p - unat (managed_start_ptr s)) div 4096"
    using assms(3) by (simp add: i unat_div_distrib unat_sub)
  have le: "unat (managed_start_ptr s) \<le> unat p" "unat p < unat (managed_start_ptr s) + managed_page_count s * 4096"
    using assms by (auto simp: pmm_wf_def word_le_nat_alt word_less_nat_alt)
  show lt: "i < managed_page_count s" using le i' by (auto simp: less_mult_imp_div_less)
  have "unat p mod 4096 = 0" "unat (managed_start_ptr s) mod 4096 = 0"
    using assms by (auto simp: pmm_wf_def page_aligned_iff)
  then have "(unat p - unat (managed_start_ptr s)) mod 4096 = 0"
    by (simp add: mod_eq_0_iff_dvd dvd_diff_nat)
  then have "unat p = unat (managed_start_ptr s) + i * 4096" using le i' by auto
  then show "p = page_at s i" using page_at_unat [OF assms(1) lt] by (metis unsigned_word_eqI)
qed

lemma page_at_fields [simp]:
  "page_at (s\<lparr>page_bitmap := b, free_page_count := f, next_search_index := n\<rparr>) = page_at s"
  by (simp add: page_at_def fun_eq_iff)

lemma free_index_exists:
  assumes "pmm_wf s" "free_page_count s \<noteq> 0"
  shows "\<exists>i < managed_page_count s. \<not> used_index s i"
  using assms by (auto simp: pmm_wf_def card_gt_0_iff)

text \<open>The rotating probe visits every index.\<close>

lemma rotate_hits:
  fixes n k i :: nat
  assumes "i < n" "k < n"
  shows "\<exists>p < n. (k + p) mod n = i"
proof -
  have "(k + (i + (n - k)) mod n) mod n = (k + (i + (n - k))) mod n"
    by (simp add: mod_add_right_eq)
  also have "\<dots> = (i + n) mod n" using assms by simp
  also have "\<dots> = i" using assms by simp
  finally show ?thesis using assms by (metis mod_less_divisor not_less_zero not_gr_zero)
qed

lemma pmm_alloc_cases:
  assumes "pmm_wf s" "pmm_alloc_page s = (p, s')"
  shows "(free_page_count s = 0 \<and> p = 0 \<and> s' = s) \<or>
         (\<exists>i bm. i < managed_page_count s \<and> page_bitmap s = Some bm \<and> \<not> page_bit_is_set bm i \<and>
            free_page_count s \<noteq> 0 \<and> p = page_at s i \<and>
            s' = s\<lparr>page_bitmap := Some (page_bit_set bm i), free_page_count := free_page_count s - 1,
                   next_search_index := (i + 1) mod managed_page_count s\<rparr>)"
proof (cases "free_page_count s = 0")
  case True
  then show ?thesis using assms(2) by (auto simp: pmm_alloc_page_def)
next
  case False
  then obtain i where i: "i < managed_page_count s" "\<not> used_index s i"
    using free_index_exists assms(1) by blast
  then obtain bm where bm: "page_bitmap s = Some bm" and next_lt: "next_search_index s < managed_page_count s"
    using assms(1) by (auto simp: pmm_wf_def)
  obtain q where "q < managed_page_count s" "(next_search_index s + q) mod managed_page_count s = i"
    using rotate_hits [OF i(1) next_lt] by blast
  then obtain probe where probe:
    "first_index (\<lambda>probe. \<not> page_bit_is_set bm ((next_search_index s + probe) mod managed_page_count s))
       (managed_page_count s) = Some probe"
    using i bm by (metis first_index_None_iff not_None_eq used_index_def option.simps(5))
  let ?j = "(next_search_index s + probe) mod managed_page_count s"
  have "?j < managed_page_count s" using i by simp
  moreover have "\<not> page_bit_is_set bm ?j" using first_index_SomeD(2) [OF probe] by simp
  moreover have "p = page_at s ?j \<and> s' = s\<lparr>page_bitmap := Some (page_bit_set bm ?j),
        free_page_count := free_page_count s - 1, next_search_index := (?j + 1) mod managed_page_count s\<rparr>"
    using assms(2) False i bm probe by (simp add: pmm_alloc_page_def page_at_def Let_def)
  ultimately show ?thesis using bm False by blast
qed

lemma used_index_alloc [simp]:
  "page_bitmap s = Some bm \<Longrightarrow>
     used_index (s\<lparr>page_bitmap := Some (page_bit_set bm i), free_page_count := f, next_search_index := n\<rparr>) j
       \<longleftrightarrow> j = i \<or> used_index s j"
  by (simp add: used_index_def)

lemma used_index_release [simp]:
  "page_bitmap s = Some bm \<Longrightarrow>
     used_index (s\<lparr>page_bitmap := Some (page_bit_clear bm i), free_page_count := f, next_search_index := n\<rparr>) j
       \<longleftrightarrow> j \<noteq> i \<and> used_index s j"
  by (simp add: used_index_def)

lemma pmm_alloc_wf:
  assumes "pmm_wf s" "pmm_alloc_page s = (p, s')"
  shows "pmm_wf s'"
  using pmm_alloc_cases [OF assms]
proof (elim disjE exE conjE)
  assume "s' = s" then show ?thesis using assms(1) by simp
next
  fix i bm
  assume i: "i < managed_page_count s" and bm: "page_bitmap s = Some bm" and ni: "\<not> page_bit_is_set bm i"
    and s': "s' = s\<lparr>page_bitmap := Some (page_bit_set bm i), free_page_count := free_page_count s - 1,
                   next_search_index := (i + 1) mod managed_page_count s\<rparr>"
  have "{j. j < managed_page_count s \<and> \<not> (j = i \<or> used_index s j)} =
          {j. j < managed_page_count s \<and> \<not> used_index s j} - {i}" by auto
  moreover have "i \<in> {j. j < managed_page_count s \<and> \<not> used_index s j}"
    using i bm ni by (simp add: used_index_def)
  ultimately show ?thesis
    using assms(1) i bm unfolding pmm_wf_def by (simp add: s' card_Diff_singleton)
qed

lemma pmm_alloc_some:
  assumes "pmm_wf s" "pmm_alloc_page s = (p, s')" "p \<noteq> 0"
  shows "p \<notin> allocated_pages s" "allocated_pages s' = insert p (allocated_pages s)"
    "p AND (MEMORY_PAGE_SIZE - 1) = 0" "managed_start_ptr s \<le> p" "p < managed_end_ptr s"
proof -
  obtain i bm where i: "i < managed_page_count s" and bm: "page_bitmap s = Some bm"
    and ni: "\<not> page_bit_is_set bm i" and p: "p = page_at s i"
    and s': "s' = s\<lparr>page_bitmap := Some (page_bit_set bm i), free_page_count := free_page_count s - 1,
                   next_search_index := (i + 1) mod managed_page_count s\<rparr>"
    using pmm_alloc_cases [OF assms(1,2)] assms(3) by blast
  show "p \<notin> allocated_pages s"
    using i bm ni p page_at_inj [OF assms(1)] by (auto simp: allocated_pages_def used_index_def)
  show "allocated_pages s' = insert p (allocated_pages s)"
    using i bm p by (auto simp: allocated_pages_def s')
  have u: "unat p = unat (managed_start_ptr s) + i * 4096" using p page_at_unat [OF assms(1) i] by simp
  have w: "unat (managed_start_ptr s) mod 4096 = 0"
      "unat (managed_end_ptr s) = unat (managed_start_ptr s) + managed_page_count s * 4096"
    using assms(1) i by (auto simp: pmm_wf_def)
  show "p AND (MEMORY_PAGE_SIZE - 1) = 0" using u w by (simp add: page_aligned_iff)
  show "managed_start_ptr s \<le> p" using u by (simp add: word_le_nat_alt)
  show "p < managed_end_ptr s" using u w i by (simp add: word_less_nat_alt)
qed

lemma page_at_nonzero: "pmm_wf s \<Longrightarrow> i < managed_page_count s \<Longrightarrow> page_at s i \<noteq> 0"
proof
  assume w: "pmm_wf s" "i < managed_page_count s" and z: "page_at s i = 0"
  have "unat (managed_start_ptr s) \<noteq> 0" using w by (auto simp: pmm_wf_def unat_eq_zero)
  then show False using page_at_unat [OF w] z by simp
qed

lemma pmm_alloc_null:
  assumes "pmm_wf s" "pmm_alloc_page s = (p, s')"
  shows "p = 0 \<longleftrightarrow> free_page_count s = 0" "p = 0 \<Longrightarrow> s' = s"
  using pmm_alloc_cases [OF assms] page_at_nonzero [OF assms(1)] by auto

lemma pmm_free_wf:
  assumes "pmm_wf s" "pmm_free_page s p = (r, s')"
  shows "pmm_wf s'" "r \<longleftrightarrow> p \<in> allocated_pages s" "allocated_pages s' = allocated_pages s - {p}" "\<not> r \<Longrightarrow> s' = s"
proof -
  let ?bad = "p = 0 \<or> managed_page_count s = 0 \<or> p < managed_start_ptr s \<or>
         p \<ge> managed_end_ptr s \<or> p AND (MEMORY_PAGE_SIZE - 1) \<noteq> 0"
  let ?i = "unat ((p - managed_start_ptr s) div MEMORY_PAGE_SIZE)"
  have notin: "p \<notin> allocated_pages s" if ?bad
  proof
    assume "p \<in> allocated_pages s"
    then obtain i where i: "i < managed_page_count s" "p = page_at s i" by (auto simp: allocated_pages_def)
    have u: "unat p = unat (managed_start_ptr s) + i * 4096" using i page_at_unat [OF assms(1)] by simp
    have w: "unat (managed_start_ptr s) mod 4096 = 0"
      "unat (managed_end_ptr s) = unat (managed_start_ptr s) + managed_page_count s * 4096"
      using assms(1) i by (auto simp: pmm_wf_def)
    have "p AND (MEMORY_PAGE_SIZE - 1) = 0" using u w by (simp add: page_aligned_iff)
    moreover have "managed_start_ptr s \<le> p" "p < managed_end_ptr s"
      using u w i by (simp_all add: word_le_nat_alt word_less_nat_alt)
    ultimately show False using that i page_at_nonzero [OF assms(1) i(1)] by auto
  qed
  have all: "pmm_wf s' \<and> (r \<longleftrightarrow> p \<in> allocated_pages s) \<and> allocated_pages s' = allocated_pages s - {p} \<and> (\<not> r \<longrightarrow> s' = s)"
  proof (cases ?bad)
    case True
    then have "r = False" "s' = s" using assms(2) by (auto simp: pmm_free_page_def)
    then show ?thesis using notin [OF True] assms(1) by auto
  next
    case False
    then obtain bm where bm: "page_bitmap s = Some bm" using assms(1) by (auto simp: pmm_wf_def)
    have i: "?i < managed_page_count s" and p: "p = page_at s ?i"
      using page_at_index [OF assms(1) _ _ _ _ refl] False by auto
    have mem: "p \<in> allocated_pages s \<longleftrightarrow> page_bit_is_set bm ?i"
      using i p bm page_at_inj [OF assms(1)] by (auto simp: allocated_pages_def used_index_def)
    show ?thesis
    proof (cases "page_bit_is_set bm ?i")
      case False
      then have "r = False" "s' = s" using assms(2) \<open>\<not> ?bad\<close> bm by (auto simp: pmm_free_page_def Let_def)
      then show ?thesis using mem False assms(1) by auto
    next
      case True
      define n where "n = (if ?i < next_search_index s then ?i else next_search_index s)"
      have r: "r = True" and s': "s' = s\<lparr>page_bitmap := Some (page_bit_clear bm ?i),
             free_page_count := free_page_count s + 1, next_search_index := n\<rparr>"
        using assms(2) \<open>\<not> ?bad\<close> bm True by (auto simp: pmm_free_page_def Let_def n_def)
      have used: "used_index s ?i" using True bm by (simp add: used_index_def)
      have "allocated_pages s' = allocated_pages s - {p}"
        using bm i page_at_inj [OF assms(1)] by (auto simp: allocated_pages_def s' p [symmetric]) (use p in auto)
      moreover have "{j. j < managed_page_count s \<and> \<not> (j \<noteq> ?i \<and> used_index s j)} =
          insert ?i {j. j < managed_page_count s \<and> \<not> used_index s j}" using i by auto
      then have "pmm_wf s'"
        using assms(1) bm used i unfolding pmm_wf_def by (simp add: s' n_def)
      ultimately show ?thesis using r mem True by simp
    qed
  qed
  then show "pmm_wf s'" "r \<longleftrightarrow> p \<in> allocated_pages s" "allocated_pages s' = allocated_pages s - {p}" "\<not> r \<Longrightarrow> s' = s"
    by simp_all
qed

subsection \<open>Initialisation\<close>

lemma aligned_le:
  fixes a b c :: nat
  assumes "a mod 4096 = 0" "b mod 4096 = 0" "a < c + 4096" "c \<le> b"
  shows "a \<le> b"
proof -
  obtain x y where "a = 4096 * x" "b = 4096 * y"
    using assms(1,2) by (auto simp: mod_eq_0_iff_dvd elim!: dvdE)
  moreover from this have "x < y + 1" using assms(3,4) by linarith
  ultimately show ?thesis by simp
qed

lemma round_up_8: "m \<le> (m + 7) div 8 * (8::nat)"
  by presburger

lemma pmm_init_wf:
  assumes "heap_wf h" "heap_limit_ptr h = MEM_BASE + MEM_SIZE" "pmm_init h g = (s, h')"
  shows "pmm_wf s" "allocated_pages s = {}"
proof -
  define bytes where "bytes = bitmap_bytes_for_pages
      (if align_up (heap_cursor h) MEMORY_PAGE_SIZE \<ge> heap_limit_ptr h then 0
       else unat ((heap_limit_ptr h - align_up (heap_cursor h) MEMORY_PAGE_SIZE) div MEMORY_PAGE_SIZE))"
  obtain b h1 where b: "(if bytes \<noteq> 0 then memory_alloc h (of_nat bytes) 8 else (0, h)) = (b, h1)"
    by fastforce
  obtain st h2 where st: "memory_finalize_early_allocator h1 = (st, h2)" by fastforce
  have h1: "heap_wf h1" using b memory_alloc_wf [OF assms(1)] assms(1) by (auto split: if_splits)
  define n where "n = unat ((heap_limit_ptr h - st) div MEMORY_PAGE_SIZE)"
  let ?s = "pmm_boot\<lparr>page_bitmap := (if b = 0 then None else Some g),
                managed_start_ptr := st, managed_end_ptr := heap_limit_ptr h\<rparr>"
  have s: "s = (if st = 0 \<or> st \<ge> heap_limit_ptr h then ?s\<lparr>managed_start_ptr := heap_limit_ptr h\<rparr>
      else if n = 0 \<or> b = 0 then ?s\<lparr>managed_start_ptr := heap_limit_ptr h, managed_page_count := 0\<rparr>
      else ?s\<lparr>managed_page_count := n, page_bitmap := Some (arr_write g 0 (replicate bytes 0)),
              free_page_count := n\<rparr>)"
    using assms(3) b st
    unfolding pmm_init_def memory_heap_limit_def memory_heap_current_def Let_def bytes_def [symmetric] n_def
    by (auto split: if_splits)
  have main: "pmm_wf s \<and> allocated_pages s = {}"
  proof (cases "st = 0 \<or> st \<ge> heap_limit_ptr h \<or> n = 0 \<or> b = 0")
    case True
    then have "managed_page_count s = 0" "free_page_count s = 0" by (auto simp: s pmm_boot_def)
    then show ?thesis by (simp add: pmm_wf_def allocated_pages_def)
  next
    case False
    have al: "unat st mod 4096 = 0"
      using memory_finalize_ok(1) [OF h1 st] False by (simp add: page_aligned_iff)
    have lim: "unat (heap_limit_ptr h) = 0x88000000" using assms(2) by simp
    have lt: "unat st < 0x88000000" using False lim by (simp add: word_less_nat_alt not_le)
    have "st \<le> heap_limit_ptr h" using False by (auto simp: not_le)
    then have n: "n = (0x88000000 - unat st) div 4096"
      using lim by (simp add: n_def unat_div_distrib unat_sub)
    have "4096 dvd 0x88000000 - unat st"
      using al by (intro dvd_diff_nat) (auto simp: mod_eq_0_iff_dvd)
    then have "n * 4096 = 0x88000000 - unat st" by (simp add: n)
    then have exact: "unat (heap_limit_ptr h) = unat st + n * 4096" using lt lim by simp
    have le_bytes: "n \<le> bytes * 8"
    proof -
      let ?a = "align_up (heap_cursor h) MEMORY_PAGE_SIZE"
      have "heap_cursor h \<le> heap_cursor h1"
      proof (cases "bytes = 0")
        case nz: False
        then show ?thesis using b False memory_alloc_ok(2,4) [OF assms(1), of "of_nat bytes" 8 b h1]
          by (auto simp: word_le_nat_alt)
      qed (use b in auto)
      then have c: "heap_cursor h \<le> st" using memory_finalize_ok(2) [OF h1 st] False by auto
      have "unat (heap_cursor h) \<le> 0x88000000"
        using assms(1) unfolding heap_wf_def word_le_nat_alt unat_RAM_end by linarith
      then have up: "unat ?a < unat (heap_cursor h) + 4096"
        using align_up_bounds(2) [of "heap_cursor h" MEMORY_PAGE_SIZE] by (simp add: MEMORY_PAGE_SIZE_def)
      have am: "unat ?a mod 4096 = 0"
        using align_up_masked [of "heap_cursor h" MEMORY_PAGE_SIZE] by (simp add: page_aligned_iff)
      have ast: "unat ?a \<le> unat st"
        by (rule aligned_le [OF am al up]) (use c in \<open>simp add: word_le_nat_alt\<close>)
      have "\<not> ?a \<ge> heap_limit_ptr h" using ast lt lim by (simp add: word_le_nat_alt)
      then have "bytes = ((0x88000000 - unat ?a) div 4096 + 7) div 8"
        using lim by (simp add: bytes_def bitmap_bytes_for_pages_def unat_div_distrib unat_sub not_le)
      then have "(0x88000000 - unat ?a) div 4096 \<le> bytes * 8" by (simp only: round_up_8)
      moreover have "n \<le> (0x88000000 - unat ?a) div 4096" using ast n by (simp add: div_le_mono)
      ultimately show ?thesis by (rule le_trans [rotated])
    qed
    have clear: "\<not> used_index s i" if "i < n" for i
    proof -
      have "i div 8 < bytes" using that le_bytes by (simp add: less_mult_imp_div_less)
      then show ?thesis using False by (simp add: s used_index_def page_bit_is_set_iff arr_write_def)
    qed
    have "{i. i < n \<and> \<not> used_index s i} = {..<n}" using clear by auto
    then have "free_page_count s = card {i. i < n \<and> \<not> used_index s i}" using False by (simp add: s)
    then have "pmm_wf s" using False al exact by (auto simp: pmm_wf_def s pmm_boot_def)
    moreover have "allocated_pages s = {}" using clear False by (auto simp: allocated_pages_def s)
    ultimately show ?thesis by simp
  qed
  then show "pmm_wf s" "allocated_pages s = {}" by simp_all
qed

subsection \<open>The page allocator's interface\<close>

locale page_allocator =
  fixes inv :: "'s \<Rightarrow> bool"
    and pages :: "'s \<Rightarrow> u64 set"
    and alloc :: "'s \<Rightarrow> u64 \<times> 's"
    and release :: "'s \<Rightarrow> u64 \<Rightarrow> bool \<times> 's"
  assumes alloc_inv: "inv s \<Longrightarrow> alloc s = (p, s') \<Longrightarrow> inv s'"
    and alloc_fresh: "inv s \<Longrightarrow> alloc s = (p, s') \<Longrightarrow> p \<noteq> 0 \<Longrightarrow>
          p \<notin> pages s \<and> pages s' = insert p (pages s)"
    and alloc_null: "inv s \<Longrightarrow> alloc s = (0, s') \<Longrightarrow> s' = s"
    and release_inv: "inv s \<Longrightarrow> release s p = (r, s') \<Longrightarrow> inv s'"
    and release_pages: "inv s \<Longrightarrow> release s p = (r, s') \<Longrightarrow>
          (r \<longleftrightarrow> p \<in> pages s) \<and> pages s' = pages s - {p}"
begin

fun take_pages :: "nat \<Rightarrow> 's \<Rightarrow> u64 list \<times> 's" where
  "take_pages 0 s = ([], s)"
| "take_pages (Suc n) s =
     (let (p, s1) = alloc s in
      if p = 0 then ([], s1) else let (ps, s2) = take_pages n s1 in (p # ps, s2))"

fun give_back :: "u64 list \<Rightarrow> 's \<Rightarrow> bool \<times> 's" where
  "give_back [] s = (True, s)"
| "give_back (p # ps) s =
     (let (ok, s1) = release s p; (oks, s2) = give_back ps s1 in (ok \<and> oks, s2))"

lemma take_pages_fresh:
  "inv s \<Longrightarrow> take_pages n s = (ps, s') \<Longrightarrow>
     inv s' \<and> distinct ps \<and> 0 \<notin> set ps \<and> set ps \<inter> pages s = {} \<and> pages s' = pages s \<union> set ps"
proof (induction n arbitrary: s ps s')
  case 0
  then show ?case by simp
next
  case (Suc n)
  obtain p s1 where p: "alloc s = (p, s1)" by fastforce
  show ?case
  proof (cases "p = 0")
    case True
    then show ?thesis using Suc.prems p alloc_null by auto
  next
    case False
    obtain qs s2 where qs: "take_pages n s1 = (qs, s2)" by fastforce
    have "ps = p # qs" "s' = s2" using Suc.prems p qs False by auto
    moreover have "p \<notin> pages s" "pages s1 = insert p (pages s)" "inv s1"
      using alloc_fresh alloc_inv Suc.prems(1) p False by blast+
    ultimately show ?thesis using Suc.IH [OF _ qs] False by auto
  qed
qed

lemma give_back_all:
  "inv s \<Longrightarrow> distinct ps \<Longrightarrow> set ps \<subseteq> pages s \<Longrightarrow> give_back ps s = (ok, s') \<Longrightarrow>
     ok \<and> inv s' \<and> pages s' = pages s - set ps"
proof (induction ps arbitrary: s ok s')
  case Nil
  then show ?case by simp
next
  case (Cons p ps)
  obtain r s1 where r: "release s p = (r, s1)" by fastforce
  obtain oks s2 where oks: "give_back ps s1 = (oks, s2)" by fastforce
  have r': "r" "inv s1" "pages s1 = pages s - {p}"
    using release_pages [OF Cons.prems(1) r] release_inv [OF Cons.prems(1) r] Cons.prems by auto
  moreover have "set ps \<subseteq> pages s1" "distinct ps" using Cons.prems r' by auto
  ultimately have "oks \<and> inv s2 \<and> pages s2 = pages s1 - set ps"
    using Cons.IH oks by blast
  moreover have "ok = (r \<and> oks)" "s' = s2" using Cons.prems(4) r oks by auto
  ultimately show ?case using r' by auto
qed

end

interpretation pa: page_allocator pmm_wf allocated_pages pmm_alloc_page pmm_free_page
proof
  show "pmm_wf s' " if "pmm_wf s" "pmm_alloc_page s = (p, s')" for s p s'
    using pmm_alloc_wf that .
  show "p \<notin> allocated_pages s \<and> allocated_pages s' = insert p (allocated_pages s)"
    if "pmm_wf s" "pmm_alloc_page s = (p, s')" "p \<noteq> 0" for s p s'
    using pmm_alloc_some(1,2) that by blast
  show "s' = s" if "pmm_wf s" "pmm_alloc_page s = (0, s')" for s s'
    using pmm_alloc_null(2) that by blast
  show "pmm_wf s'" if "pmm_wf s" "pmm_free_page s p = (r, s')" for s p r s'
    using pmm_free_wf(1) that .
  show "(r \<longleftrightarrow> p \<in> allocated_pages s) \<and> allocated_pages s' = allocated_pages s - {p}"
    if "pmm_wf s" "pmm_free_page s p = (r, s')" for s p r s'
    using pmm_free_wf(2,3) that by blast
qed

subsection \<open>Properties\<close>

text \<open>C24: the page allocator is correct and complete: from a well-formed state it returns NULL
  exactly when no page is free, and then changes nothing; otherwise it returns a page-aligned
  address inside the managed range that was not handed out before, and hands out only that
  page; the state stays well formed (the bitmap and the free counter agree).\<close>

theorem pmm_alloc_page_correct:
  assumes "pmm_wf s" "pmm_alloc_page s = (p, s')"
  shows "pmm_wf s' \<and> (p = 0 \<longleftrightarrow> pmm_free_pages s = 0) \<and>
         (if p = 0 then s' = s
          else p AND (MEMORY_PAGE_SIZE - 1) = 0 \<and> pmm_managed_start s \<le> p \<and> p < pmm_managed_end s \<and>
               p \<notin> allocated_pages s \<and> allocated_pages s' = insert p (allocated_pages s))"
  using pmm_alloc_wf [OF assms] pmm_alloc_null [OF assms] pmm_alloc_some [OF assms]
  by (simp add: pmm_free_pages_def pmm_managed_start_def pmm_managed_end_def)

definition sample_pmm :: pmm where
  "sample_pmm = \<lparr>page_bitmap = Some (\<lambda>_. 1), managed_start_ptr = 0x80400000,
     managed_end_ptr = 0x80402000, managed_page_count = 2, free_page_count = 1, next_search_index = 0\<rparr>"

lemma sample_pmm_wf: "pmm_wf sample_pmm"
proof -
  have "{i. i < managed_page_count sample_pmm \<and> \<not> used_index sample_pmm i} = {1}"
    by (auto simp: sample_pmm_def used_index_def page_bit_is_set_def less_2_cases_iff)
  then show ?thesis by (simp add: pmm_wf_def) (simp add: sample_pmm_def)
qed

lemma sample_pmm_alloc:
  "pmm_alloc_page sample_pmm = (0x80401000, sample_pmm\<lparr>page_bitmap := Some (page_bit_set (\<lambda>_. 1) 1),
      free_page_count := 0, next_search_index := 0\<rparr>)"
proof -
  have "first_index (\<lambda>probe. \<not> page_bit_is_set (\<lambda>_. 1) ((0 + probe) mod 2)) 2 = Some 1"
    by (simp add: first_index_def page_bit_is_set_def upt_rec)
  then show ?thesis
    by (simp add: pmm_alloc_page_def sample_pmm_def Let_def MEMORY_PAGE_SIZE_def)
qed

theorem pmm_alloc_page_correct_witness:
  "0x80401000 \<notin> allocated_pages sample_pmm \<and> pmm_free_pages sample_pmm \<noteq> 0"
  using pmm_alloc_page_correct [OF sample_pmm_wf sample_pmm_alloc] by simp

text \<open>Freeing is exact: \<open>pmm_free_page\<close> succeeds if and only if the address is a page that is
  handed out, and then takes back exactly that page; a double free, an unaligned or a foreign
  address is refused without any change.\<close>

theorem pmm_free_page_correct:
  assumes "pmm_wf s" "pmm_free_page s p = (r, s')"
  shows "pmm_wf s' \<and> (r \<longleftrightarrow> p \<in> allocated_pages s) \<and>
         allocated_pages s' = allocated_pages s - {p} \<and> (\<not> r \<longrightarrow> s' = s)"
  using pmm_free_wf [OF assms] by blast

theorem pmm_free_page_correct_witness:
  "\<exists>s'. pmm_free_page sample_pmm 0x80401000 = (False, s') \<and> 0x80401000 \<notin> allocated_pages sample_pmm \<and>
        s' = sample_pmm"
proof -
  have run: "pmm_free_page sample_pmm 0x80401000 = (False, sample_pmm)"
    by (simp add: pmm_free_page_def sample_pmm_def Let_def MEMORY_PAGE_SIZE_def page_bit_is_set_def)
  show ?thesis using pmm_free_page_correct [OF sample_pmm_wf run] run by simp
qed

text \<open>Booting the allocator on the early heap gives a well-formed allocator with every page
  free: the bitmap that \<open>pmm_init\<close> sizes before it takes the bitmap itself from the heap covers
  every page it then manages.\<close>

theorem pmm_init_correct:
  assumes "heap_wf h" "heap_limit_ptr h = MEM_BASE + MEM_SIZE" "pmm_init h g = (s, h')"
  shows "pmm_wf s \<and> allocated_pages s = {} \<and> pmm_free_pages s = pmm_total_pages s"
proof -
  have "pmm_wf s" "allocated_pages s = {}" using pmm_init_wf [OF assms] by auto
  moreover from this have "{i. i < managed_page_count s \<and> \<not> used_index s i} = {..<managed_page_count s}"
    by (auto simp: allocated_pages_def)
  ultimately show ?thesis
    by (simp add: pmm_wf_def pmm_free_pages_def pmm_total_pages_def)
qed

theorem pmm_init_correct_witness:
  "pmm_wf (fst (pmm_init (memory_init sample_symbols) (\<lambda>_. 0xFF))) \<and>
   allocated_pages (fst (pmm_init (memory_init sample_symbols) (\<lambda>_. 0xFF))) = {}"
proof -
  have wf: "heap_wf (memory_init sample_symbols)"
    by (rule heap_wf_init) (simp_all add: sample_symbols_def MEM_BASE_def MEM_SIZE_def)
  show ?thesis
    using pmm_init_correct [OF wf _ prod.collapse [symmetric]] by (simp add: memory_init_def)
qed

end
