(* ===== verification/PageTable.thy ===== *)
theory PageTable
  imports PhysWords Pmm
begin

text \<open>
  Sv39 page tables as the guest kernel builds them (\<open>guest/kernel/vm.c\<close> and the inline helpers of
  \<open>vm_private.h\<close>).  \<open>vm_mem\<close> is what these functions change: the RAM and the page allocator.  An
  address space is represented here by its \<open>root_table\<close> pointer (0 when it is NULL); a pointer into a
  table is the physical address of the entry.  The reference semantics is \<open>walk_from\<close>, the leaf entry
  that a virtual address reaches.
\<close>

definition VM_PAGE_READ :: u64 where "VM_PAGE_READ = push_bit 1 1"
definition VM_PAGE_WRITE :: u64 where "VM_PAGE_WRITE = push_bit 2 1"
definition VM_PAGE_EXEC :: u64 where "VM_PAGE_EXEC = push_bit 3 1"
definition VM_PAGE_USER :: u64 where "VM_PAGE_USER = push_bit 4 1"
definition SV39_PTE_VALID :: u64 where "SV39_PTE_VALID = push_bit 0 1"
definition SV39_PTE_LEAF_MASK :: u64 where
  "SV39_PTE_LEAF_MASK = VM_PAGE_READ OR VM_PAGE_WRITE OR VM_PAGE_EXEC"
definition SV39_PTE_FLAG_MASK :: u64 where
  "SV39_PTE_FLAG_MASK = VM_PAGE_READ OR VM_PAGE_WRITE OR VM_PAGE_EXEC OR VM_PAGE_USER"
definition SV39_PPN_MASK :: u64 where "SV39_PPN_MASK = push_bit 44 1 - 1"

definition vpn_index :: "u64 \<Rightarrow> nat \<Rightarrow> nat" where
  "vpn_index vaddr level = unat (drop_bit (12 + level * 9) vaddr AND (512 - 1))"

definition align_down_page :: "u64 \<Rightarrow> u64" where
  "align_down_page v = v AND NOT (MEMORY_PAGE_SIZE - 1)"

definition pte_from_pa :: "u64 \<Rightarrow> u64 \<Rightarrow> u64" where
  "pte_from_pa paddr flags = push_bit 10 (drop_bit 12 paddr AND SV39_PPN_MASK) OR flags"

definition table_from_pte :: "u64 \<Rightarrow> u64" where
  "table_from_pte pte = push_bit 12 (drop_bit 10 pte AND SV39_PPN_MASK)"

definition range_overflows :: "u64 \<Rightarrow> u64 \<Rightarrow> bool" where
  "range_overflows base len = (if len = 0 then False else base > - 1 - (len - 1))"

definition span_args_valid :: "u64 \<Rightarrow> u64 \<Rightarrow> bool" where
  "span_args_valid base len \<longleftrightarrow> len \<noteq> 0 \<and> \<not> range_overflows base len"

definition range_within_window :: "u64 \<Rightarrow> u64 \<Rightarrow> u64 \<Rightarrow> u64 \<Rightarrow> bool" where
  "range_within_window base len window_base window_limit =
     (if \<not> span_args_valid base len then False
      else base \<ge> window_base \<and> base + len \<le> window_limit)"

definition page_span_args_valid :: "u64 \<Rightarrow> u64 \<Rightarrow> bool" where
  "page_span_args_valid base len =
     (if len = 0 \<or> base AND (MEMORY_PAGE_SIZE - 1) \<noteq> 0 \<or> len AND (MEMORY_PAGE_SIZE - 1) \<noteq> 0 then False
      else \<not> range_overflows base len)"

definition mapped_range_args_valid :: "u64 \<Rightarrow> u64 \<Rightarrow> u64 \<Rightarrow> bool" where
  "mapped_range_args_valid vaddr paddr len =
     (if \<not> page_span_args_valid vaddr len \<or> paddr AND (MEMORY_PAGE_SIZE - 1) \<noteq> 0 then False
      else \<not> range_overflows paddr len)"

definition flags_valid :: "u64 \<Rightarrow> bool" where
  "flags_valid flags =
     (if flags AND NOT SV39_PTE_FLAG_MASK \<noteq> 0 then False
      else if flags AND SV39_PTE_LEAF_MASK = 0 then False
      else if flags AND VM_PAGE_WRITE \<noteq> 0 \<and> flags AND VM_PAGE_READ = 0 then False
      else True)"

definition user_flags_valid :: "u64 \<Rightarrow> bool" where
  "user_flags_valid flags \<longleftrightarrow> flags_valid flags \<and> flags AND VM_PAGE_USER \<noteq> 0"

definition kernel_flags_valid :: "u64 \<Rightarrow> bool" where
  "kernel_flags_valid flags \<longleftrightarrow> flags_valid flags \<and> flags AND VM_PAGE_USER = 0"

definition ranges_overlap :: "u64 \<Rightarrow> u64 \<Rightarrow> u64 \<Rightarrow> u64 \<Rightarrow> bool" where
  "ranges_overlap start_a size_a start_b size_b \<longleftrightarrow>
     start_a < start_b + size_b \<and> start_b < start_a + size_a"

definition vm_range_is_kernel :: "u64 \<Rightarrow> u64 \<Rightarrow> bool" where
  "vm_range_is_kernel vaddr len = range_within_window vaddr len MEM_BASE (MEM_BASE + MEM_SIZE)"

definition vm_range_is_user :: "u64 \<Rightarrow> u64 \<Rightarrow> bool" where
  "vm_range_is_user vaddr len = range_within_window vaddr len 0 MEM_BASE"

subsection \<open>Tables\<close>

record vm_mem =
  phys :: memory
  pool :: pmm

definition alloc_zeroed_page :: "vm_mem \<Rightarrow> u64 \<times> vm_mem" where
  "alloc_zeroed_page s =
     (let (page, pool') = pmm_alloc_page (pool s) in
      if page = 0 then (0, s\<lparr>pool := pool'\<rparr>)
      else (page, s\<lparr>phys := zero_page (phys s) page, pool := pool'\<rparr>))"

text \<open>One level of the descent: the block that \<open>lookup_level0_slot\<close> runs first on the root entry and
  then on the level-1 entry.  \<open>None\<close> is \<open>return NULL\<close>; the flag is \<open>*conflict\<close>.\<close>

definition next_level_table :: "vm_mem \<Rightarrow> u64 \<Rightarrow> bool \<Rightarrow> u64 option \<times> bool \<times> vm_mem" where
  "next_level_table s entry_ptr create =
     (let entry = load64 (phys s) entry_ptr in
      if entry AND SV39_PTE_VALID = 0 then
        if \<not> create then (None, False, s)
        else let (table, s1) = alloc_zeroed_page s in
          if table = 0 then (None, False, s1)
          else (Some table, False,
                s1\<lparr>phys := store64 (phys s1) entry_ptr (pte_from_pa table SV39_PTE_VALID)\<rparr>)
      else if entry AND SV39_PTE_LEAF_MASK \<noteq> 0 then (None, True, s)
      else (Some (table_from_pte entry), False, s))"

definition lookup_level0_slot :: "vm_mem \<Rightarrow> u64 \<Rightarrow> u64 \<Rightarrow> bool \<Rightarrow> u64 option \<times> bool \<times> vm_mem" where
  "lookup_level0_slot s root vaddr create =
     (if root = 0 then (None, False, s)
      else case next_level_table s (word_slot root (vpn_index vaddr 2)) create of
        (None, conflict, s1) \<Rightarrow> (None, conflict, s1)
      | (Some level1, _, s1) \<Rightarrow>
          (case next_level_table s1 (word_slot level1 (vpn_index vaddr 1)) create of
             (None, conflict, s2) \<Rightarrow> (None, conflict, s2)
           | (Some level0, _, s2) \<Rightarrow> (Some (word_slot level0 (vpn_index vaddr 0)), False, s2)))"

definition map_page_internal :: "vm_mem \<Rightarrow> u64 \<Rightarrow> u64 \<Rightarrow> u64 \<Rightarrow> u64 \<Rightarrow> bool \<times> vm_mem" where
  "map_page_internal s root vaddr paddr flags =
     (if \<not> mapped_range_args_valid vaddr paddr MEMORY_PAGE_SIZE \<or> \<not> flags_valid flags then (False, s)
      else case lookup_level0_slot s root vaddr True of
        (None, _, s1) \<Rightarrow> (False, s1)
      | (Some slot, conflict, s1) \<Rightarrow>
          if conflict \<or> load64 (phys s1) slot AND SV39_PTE_VALID \<noteq> 0 then (False, s1)
          else (True, s1\<lparr>phys := store64 (phys s1) slot (pte_from_pa paddr (SV39_PTE_VALID OR flags))\<rparr>))"

definition unmap_page_internal :: "vm_mem \<Rightarrow> u64 \<Rightarrow> u64 \<Rightarrow> bool \<times> vm_mem" where
  "unmap_page_internal s root vaddr =
     (if root = 0 \<or> vaddr AND (MEMORY_PAGE_SIZE - 1) \<noteq> 0 then (False, s)
      else case lookup_level0_slot s root vaddr False of
        (None, _, s1) \<Rightarrow> (False, s1)
      | (Some slot, conflict, s1) \<Rightarrow>
          if conflict \<or> load64 (phys s1) slot AND SV39_PTE_VALID = 0 then (False, s1)
          else (True, s1\<lparr>phys := store64 (phys s1) slot 0\<rparr>))"

definition can_map_page :: "vm_mem \<Rightarrow> u64 \<Rightarrow> u64 \<Rightarrow> bool" where
  "can_map_page s root vaddr =
     (case lookup_level0_slot s root vaddr False of
        (slot, conflict, s1) \<Rightarrow>
          if conflict then False
          else case slot of None \<Rightarrow> True
            | Some p \<Rightarrow> load64 (phys s1) p AND SV39_PTE_VALID = 0)"

subsection \<open>Bits of an entry\<close>

lemma u64_eq_iff: "(a :: u64) = b \<longleftrightarrow> (\<forall>n<64. bit a n = bit b n)"
  by (auto intro: bit_word_eqI)

lemma bit_pow2: "bit (2 ^ n :: u64) j \<longleftrightarrow> j = n \<and> n < 64"
  by (auto simp: bit_exp_iff)

lemma and_push1_iff: "n < 64 \<Longrightarrow> (w :: u64) AND push_bit n 1 = 0 \<longleftrightarrow> \<not> bit w n"
  by (simp add: and_exp_eq_0_iff_not_bit)

lemma pte_valid_iff: "e AND SV39_PTE_VALID = 0 \<longleftrightarrow> \<not> bit e 0"
  unfolding SV39_PTE_VALID_def by (rule and_push1_iff) simp

lemma pte_leaf_iff: "e AND SV39_PTE_LEAF_MASK = 0 \<longleftrightarrow> \<not> bit e 1 \<and> \<not> bit e 2 \<and> \<not> bit e 3"
  unfolding SV39_PTE_LEAF_MASK_def VM_PAGE_READ_def VM_PAGE_WRITE_def VM_PAGE_EXEC_def
  by (simp only: bit.conj_disj_distrib or_eq_0_iff) (simp only: and_push1_iff rel_simps de_Morgan_disj)

definition leaf_bits :: "u64 \<Rightarrow> bool" where
  "leaf_bits e \<longleftrightarrow> bit e 1 \<or> bit e 2 \<or> bit e 3"

lemma leaf_bits_iff: "e AND SV39_PTE_LEAF_MASK = 0 \<longleftrightarrow> \<not> leaf_bits e"
  by (simp add: pte_leaf_iff leaf_bits_def)

lemma ppn_mask: "SV39_PPN_MASK = mask 44"
  by (simp add: SV39_PPN_MASK_def mask_eq_exp_minus_1)

lemma bit_pte: "bit (pte_from_pa p f) n \<longleftrightarrow> bit f n \<or> (10 \<le> n \<and> n < 54 \<and> bit p (n + 2))"
  unfolding pte_from_pa_def ppn_mask
  by (auto simp: bit_or_iff bit_push_bit_iff bit_and_iff bit_mask_iff bit_drop_bit_eq add.commute
      intro: ccontr dest: bit_imp_le_length)

lemma bit_table: "bit (table_from_pte e) n \<longleftrightarrow> 12 \<le> n \<and> n < 56 \<and> bit e (n - 2)"
proof -
  have "10 + (n - 12) = n - 2" if "12 \<le> n" using that by simp
  then show ?thesis unfolding table_from_pte_def ppn_mask
    by (auto simp: bit_push_bit_iff bit_and_iff bit_mask_iff bit_drop_bit_eq)
qed

lemma bit_valid [simp]: "bit SV39_PTE_VALID n \<longleftrightarrow> n = 0"
  by (simp add: SV39_PTE_VALID_def bit_1_iff)

definition page_frame :: "u64 \<Rightarrow> bool" where
  "page_frame p \<longleftrightarrow> (\<forall>n. bit p n \<longrightarrow> 12 \<le> n \<and> n < 56)"

lemma aligned_bits:
  fixes p :: u64
  assumes "unat p mod 4096 = 0" "bit p n"
  shows "12 \<le> n"
proof (rule ccontr)
  assume "\<not> 12 \<le> n"
  moreover have "unat (take_bit 12 p) = 0"
    using assms(1) by (simp only: unsigned_take_bit_eq) (simp add: take_bit_eq_mod)
  then have "take_bit 12 p = 0" by (simp only: unat_eq_zero)
  ultimately have "\<not> bit p n" by (metis bit_take_bit_iff bit_0_eq bot_apply bot_bool_def not_le)
  then show False using assms(2) by simp
qed

lemma low_bits:
  fixes p :: u64
  assumes "unat p < 2 ^ k" "bit p n"
  shows "n < k"
proof (rule ccontr)
  assume "\<not> n < k"
  have "take_bit k (unat p) = unat p" using assms(1) by (simp add: take_bit_nat_eq_self_iff)
  then have "\<not> bit (unat p) n" using \<open>\<not> n < k\<close> by (metis bit_take_bit_iff)
  then show False using assms(2) by (simp add: bit_unsigned_iff)
qed

lemma ram_page_frame: "ram_page p \<Longrightarrow> page_frame p"
proof -
  assume r: "ram_page p"
  then have "unat p < 2 ^ 56" by (simp add: ram_page_def mem_in_ram_def)
  then have "bit p n \<Longrightarrow> 12 \<le> n \<and> n < 56" for n
    using r aligned_bits [of p n] low_bits [of p 56 n] by (simp add: ram_page_def)
  then show ?thesis by (simp add: page_frame_def)
qed

lemma page_frame_table [simp]: "page_frame (table_from_pte e)"
  by (simp add: page_frame_def bit_table)

lemma table_of_pte:
  assumes "page_frame p" "\<forall>n. bit f n \<longrightarrow> n < 10"
  shows "table_from_pte (pte_from_pa p f) = p"
proof (rule bit_word_eqI)
  fix n
  have "\<not> bit f (n - 2)" if "12 \<le> n" using assms(2) that by fastforce
  moreover have "n - 2 + 2 = n" if "12 \<le> n" using that by simp
  ultimately show "bit (table_from_pte (pte_from_pa p f)) n = bit p n"
    using assms(1) unfolding bit_table bit_pte page_frame_def by auto
qed

text \<open>The permission bits that the kernel accepts.\<close>

lemma bit_flag_mask: "bit SV39_PTE_FLAG_MASK n \<longleftrightarrow> n \<in> {1, 2, 3, 4}"
proof -
  have b: "bit (push_bit k 1 :: u64) n \<longleftrightarrow> n = k \<and> k < 64" for k by (simp add: bit_pow2)
  show ?thesis
    unfolding SV39_PTE_FLAG_MASK_def VM_PAGE_READ_def VM_PAGE_WRITE_def VM_PAGE_EXEC_def VM_PAGE_USER_def
    by (simp only: bit_or_iff b) auto
qed

lemma flags_valid_iff:
  "flags_valid f \<longleftrightarrow> (\<forall>n. bit f n \<longrightarrow> n \<in> {1, 2, 3, 4}) \<and> leaf_bits f \<and> (bit f 2 \<longrightarrow> bit f 1)"
proof -
  have "f AND NOT SV39_PTE_FLAG_MASK = 0 \<longleftrightarrow> (\<forall>n. bit f n \<longrightarrow> n \<in> {1, 2, 3, 4})"
    unfolding u64_eq_iff using bit_imp_le_length [of f]
    by (simp add: bit_and_iff bit_not_iff bit_flag_mask) blast
  moreover have "f AND VM_PAGE_WRITE = 0 \<longleftrightarrow> \<not> bit f 2" "f AND VM_PAGE_READ = 0 \<longleftrightarrow> \<not> bit f 1"
    unfolding VM_PAGE_WRITE_def VM_PAGE_READ_def by (rule and_push1_iff, simp)+
  ultimately show ?thesis by (auto simp: flags_valid_def leaf_bits_iff)
qed

text \<open>The window test compares the end of the range, which wraps to 0 for a range that ends at the top of
  the address space: the last page counts as user and as kernel range, and overlaps nothing, not even
  itself.\<close>

lemma last_page_in_every_window:
  "vm_range_is_user 0xFFFFFFFFFFFFF000 4096"
  "vm_range_is_kernel 0xFFFFFFFFFFFFF000 4096"
  "\<not> ranges_overlap 0xFFFFFFFFFFFFF000 4096 0xFFFFFFFFFFFFF000 4096"
  by (simp_all add: vm_range_is_user_def vm_range_is_kernel_def range_within_window_def span_args_valid_def
      range_overflows_def ranges_overlap_def MEM_BASE_def MEM_SIZE_def)

end
