(* ===== verification/PageTree.thy ===== *)
theory PageTree
  imports PageTable
begin

text \<open>
  The tree that a Sv39 root table spans, and the reference semantics of a page table: \<open>walk_from\<close>
  descends to the leaf entry of a virtual address.  \<open>table_at\<close> names the tables by the path of
  indices that leads to them; the tables of a well-formed tree are pairwise distinct pages of the
  allocator, so a store into one entry changes exactly the walks through that entry.
\<close>

fun walk_from :: "memory \<Rightarrow> u64 \<Rightarrow> nat \<Rightarrow> u64 \<Rightarrow> (nat \<times> u64) option" where
  "walk_from m table level vaddr =
     (let entry = load64 m (word_slot table (vpn_index vaddr level)) in
      if entry AND SV39_PTE_VALID = 0 then None
      else if entry AND SV39_PTE_LEAF_MASK \<noteq> 0 then Some (level, entry)
      else case level of 0 \<Rightarrow> None | Suc l \<Rightarrow> walk_from m (table_from_pte entry) l vaddr)"

declare walk_from.simps [simp del]

definition pt_walk :: "memory \<Rightarrow> u64 \<Rightarrow> u64 \<Rightarrow> (nat \<times> u64) option" where
  "pt_walk m root vaddr = walk_from m root 2 vaddr"

definition next_of :: "memory \<Rightarrow> u64 \<Rightarrow> nat \<Rightarrow> u64 option" where
  "next_of m table i =
     (let entry = load64 m (word_slot table i) in
      if bit entry 0 \<and> \<not> leaf_bits entry then Some (table_from_pte entry) else None)"

fun table_at :: "memory \<Rightarrow> u64 \<Rightarrow> nat list \<Rightarrow> u64 option" where
  "table_at m table [] = Some table"
| "table_at m table (i # is) = (case next_of m table i of None \<Rightarrow> None | Some t \<Rightarrow> table_at m t is)"

definition pt_path :: "nat list \<Rightarrow> bool" where
  "pt_path p \<longleftrightarrow> length p \<le> 2 \<and> (\<forall>i \<in> set p. i < 512)"

definition pt_tables :: "memory \<Rightarrow> u64 \<Rightarrow> u64 set" where
  "pt_tables m root = {t. \<exists>p. pt_path p \<and> table_at m root p = Some t}"

text \<open>What an entry of a table at a level may hold: nothing, a leaf (4 KB, or 1 GB in the root), or
  a pointer to the next table.\<close>

definition pte_ok :: "nat \<Rightarrow> u64 \<Rightarrow> bool" where
  "pte_ok level e \<longleftrightarrow> \<not> bit e 0 \<or>
     (if leaf_bits e
      then level \<noteq> 1 \<and> (\<forall>n. bit e n \<longrightarrow> n < 54) \<and> (bit e 2 \<longrightarrow> bit e 1) \<and>
           (level = 2 \<longrightarrow> (\<forall>n. 10 \<le> n \<and> n < 28 \<longrightarrow> \<not> bit e n))
      else level \<noteq> 0 \<and> e = pte_from_pa (table_from_pte e) SV39_PTE_VALID)"

definition tree_wf :: "memory \<Rightarrow> u64 \<Rightarrow> bool" where
  "tree_wf m root \<longleftrightarrow>
     (\<forall>p t. pt_path p \<longrightarrow> table_at m root p = Some t \<longrightarrow>
        ram_page t \<and> (\<forall>i<512. pte_ok (2 - length p) (load64 m (word_slot t i))) \<and>
        (\<forall>q. pt_path q \<longrightarrow> table_at m root q = Some t \<longrightarrow> q = p))"

subsection \<open>Paths\<close>

lemma vpn_less [simp]: "vpn_index v level < 512"
proof -
  have "drop_bit (12 + level * 9) v AND 511 = take_bit 9 (drop_bit (12 + level * 9) v)"
    by (simp add: take_bit_eq_mask mask_eq_exp_minus_1)
  then have "vpn_index v level = unat (take_bit 9 (drop_bit (12 + level * 9) v))"
    by (simp add: vpn_index_def)
  also have "\<dots> < 2 ^ 9"
    by (simp only: unsigned_take_bit_eq take_bit_nat_less_exp)
  finally show ?thesis by simp
qed

definition vpath :: "u64 \<Rightarrow> nat \<Rightarrow> nat list" where
  "vpath v k = map (vpn_index v) (take k [2, 1, 0])"

lemma length_vpath [simp]: "k \<le> 3 \<Longrightarrow> length (vpath v k) = k"
  by (simp add: vpath_def)

lemma vpath_0 [simp]: "vpath v 0 = []"
  by (simp add: vpath_def)

lemma vpath_Suc: "k \<le> 2 \<Longrightarrow> vpath v (Suc k) = vpath v k @ [vpn_index v (2 - k)]"
  by (cases k; cases "k - 1") (auto simp: vpath_def numeral_2_eq_2 le_Suc_eq)

lemma pt_path_vpath [simp]: "k \<le> 2 \<Longrightarrow> pt_path (vpath v k)"
  by (auto simp: pt_path_def vpath_def)

lemma pt_path_Nil [simp]: "pt_path []"
  by (simp add: pt_path_def)

lemma pt_path_append: "pt_path (p @ q) \<Longrightarrow> pt_path p"
  by (simp add: pt_path_def)

lemma pt_path_snoc: "pt_path (p @ [i]) \<longleftrightarrow> pt_path p \<and> length p \<le> 1 \<and> i < 512"
  by (auto simp: pt_path_def)

lemma table_at_append:
  "table_at m t (p @ q) = (case table_at m t p of None \<Rightarrow> None | Some t' \<Rightarrow> table_at m t' q)"
  by (induction p arbitrary: t) (auto split: option.split)

lemma table_at_snoc:
  "table_at m t (p @ [i]) = (case table_at m t p of None \<Rightarrow> None | Some t' \<Rightarrow> next_of m t' i)"
  by (simp add: table_at_append split: option.split)

lemma tree_wfD:
  assumes "tree_wf m root" "pt_path p" "table_at m root p = Some t"
  shows "ram_page t" "\<And>i. i < 512 \<Longrightarrow> pte_ok (2 - length p) (load64 m (word_slot t i))"
    "\<And>q. pt_path q \<Longrightarrow> table_at m root q = Some t \<Longrightarrow> q = p"
  using assms unfolding tree_wf_def by blast+

lemma tree_wf_root: "tree_wf m root \<Longrightarrow> ram_page root"
  using tree_wfD(1) [of m root "[]" root] by simp

lemma table_at_same_words:
  assumes "\<And>q t i. pt_path q \<Longrightarrow> table_at m root q = Some t \<Longrightarrow> i < 512 \<Longrightarrow>
             load64 m' (word_slot t i) = load64 m (word_slot t i)"
    and "pt_path p"
  shows "table_at m' root p = table_at m root p"
  using assms(2)
proof (induction p rule: rev_induct)
  case (snoc i p)
  then have p: "pt_path p" "i < 512" and ih: "table_at m' root p = table_at m root p"
    by (auto simp: pt_path_snoc)
  show ?case
  proof (cases "table_at m root p")
    case (Some t)
    then have "load64 m' (word_slot t i) = load64 m (word_slot t i)" by (rule assms(1) [OF p(1) _ p(2)])
    then show ?thesis using Some ih by (simp add: table_at_snoc next_of_def)
  qed (simp add: table_at_snoc ih)
qed simp

text \<open>A store into entry \<open>i\<close> of the table at path \<open>q\<close> moves no table outside the subtree of that
  entry.\<close>

lemma table_at_store_other:
  assumes wf: "tree_wf m root" and q: "pt_path q" "table_at m root q = Some t" "i < 512"
    and p: "pt_path p" "take (Suc (length q)) p \<noteq> q @ [i]"
  shows "table_at (store64 m (word_slot t i) e) root p = table_at m root p"
  using p
proof (induction p rule: rev_induct)
  case (snoc j p)
  then have p: "pt_path p" "j < 512" by (auto simp: pt_path_snoc)
  have "take (Suc (length q)) p \<noteq> q @ [i]" using snoc.prems(2) by auto
  then have ih: "table_at (store64 m (word_slot t i) e) root p = table_at m root p"
    by (rule snoc.IH [OF p(1)])
  show ?case
  proof (cases "table_at m root p")
    case (Some t')
    have "\<not> (t' = t \<and> j = i)"
      using tree_wfD(3) [OF wf q(1,2) p(1)] Some snoc.prems(2) by auto
    then have "load64 (store64 m (word_slot t i) e) (word_slot t' j) = load64 m (word_slot t' j)"
      using tree_wfD(1) [OF wf q(1,2)] tree_wfD(1) [OF wf p(1) Some] q(3) p(2)
      by (auto simp: load64_store64_slot)
    then show ?thesis using Some ih by (simp add: table_at_snoc next_of_def)
  qed (simp add: table_at_snoc ih)
qed simp

lemma table_at_store_self:
  assumes "tree_wf m root" "pt_path q" "table_at m root q = Some t" "i < 512"
  shows "table_at (store64 m (word_slot t i) e) root q = Some t"
  using table_at_store_other [OF assms assms(2), of e] assms(3) by simp

definition entry_next :: "u64 \<Rightarrow> u64 option" where
  "entry_next e = (if bit e 0 \<and> \<not> leaf_bits e then Some (table_from_pte e) else None)"

lemma next_of_entry: "next_of m t i = entry_next (load64 m (word_slot t i))"
  by (simp add: next_of_def entry_next_def Let_def)

lemma take_prefix_split: "take (Suc (length q)) p = q @ [i] \<Longrightarrow> p = q @ i # drop (Suc (length q)) p"
  by (metis append.assoc append_Cons append_Nil append_take_drop_id)

lemma table_at_store_hit:
  assumes "tree_wf m root" "pt_path q" "table_at m root q = Some t" "i < 512"
  shows "table_at (store64 m (word_slot t i) e) root (q @ i # r) =
           (case entry_next e of None \<Rightarrow> None | Some t' \<Rightarrow> table_at (store64 m (word_slot t i) e) t' r)"
proof -
  have "load64 (store64 m (word_slot t i) e) (word_slot t i) = e"
    using tree_wfD(1) [OF assms(1-3)] assms(4) by (simp add: load64_store64_slot)
  then show ?thesis by (simp add: table_at_append table_at_store_self [OF assms] next_of_entry)
qed

text \<open>Replacing an entry that is not a table pointer by another such entry: the tree of tables is
  unchanged.\<close>

lemma store_entry_tree:
  assumes wf: "tree_wf m root" and q: "pt_path q" "table_at m root q = Some t" "i < 512"
    and old: "entry_next (load64 m (word_slot t i)) = None" and new: "entry_next e = None"
  shows "pt_path p \<Longrightarrow> table_at (store64 m (word_slot t i) e) root p = table_at m root p"
    and "pte_ok (2 - length q) e \<Longrightarrow> tree_wf (store64 m (word_slot t i) e) root"
proof -
  let ?m = "store64 m (word_slot t i) e"
  have same: "table_at ?m root p = table_at m root p" if p: "pt_path p" for p
  proof (cases "take (Suc (length q)) p = q @ [i]")
    case True
    have "table_at ?m root p = None" by (subst take_prefix_split [OF True]) (simp add: table_at_store_hit [OF wf q] new)
    moreover have "table_at m root p = None"
      by (subst take_prefix_split [OF True]) (simp add: table_at_append q next_of_entry old)
    ultimately show ?thesis by simp
  next
    case False
    then show ?thesis by (rule table_at_store_other [OF wf q p])
  qed
  then show "pt_path p \<Longrightarrow> table_at ?m root p = table_at m root p" by blast
  assume ok: "pte_ok (2 - length q) e"
  show "tree_wf ?m root"
    unfolding tree_wf_def
  proof (intro allI impI conjI)
    fix p t' assume p: "pt_path p" and "table_at ?m root p = Some t'"
    then have t': "table_at m root p = Some t'" using same by simp
    show r': "ram_page t'" by (rule tree_wfD(1) [OF wf p t'])
    show "r = p" if "pt_path r" "table_at ?m root r = Some t'" for r
      using tree_wfD(3) [OF wf p t'] that same by simp
    fix j :: nat assume j: "j < 512"
    have "t = t' \<Longrightarrow> q = p" using tree_wfD(3) [OF wf p t' q(1)] q(2) by simp
    then show "pte_ok (2 - length p) (load64 ?m (word_slot t' j))"
      using ok tree_wfD(2) [OF wf p t' j] tree_wfD(1) [OF wf q(1,2)] r' q(3) j
      by (auto simp: load64_store64_slot)
  qed
qed

text \<open>Hanging a fresh zeroed page into an empty entry adds exactly that table.\<close>

lemma pte_ok_0 [simp]: "pte_ok l 0"
  by (simp add: pte_ok_def)

lemma entry_next_0 [simp]: "entry_next 0 = None"
  by (simp add: entry_next_def)

lemma leaf_bits_table: "\<not> leaf_bits (pte_from_pa n SV39_PTE_VALID)"
  by (simp add: leaf_bits_def bit_pte)

lemma entry_next_table [simp]: "ram_page n \<Longrightarrow> entry_next (pte_from_pa n SV39_PTE_VALID) = Some n"
  by (simp add: entry_next_def leaf_bits_table bit_pte table_of_pte ram_page_frame)

lemma install_table_tree:
  assumes wf: "tree_wf m root" and q: "pt_path (q @ [i])" "table_at m root q = Some t"
    and old: "entry_next (load64 m (word_slot t i)) = None"
    and n: "ram_page n" "n \<notin> pt_tables m root" "\<And>j. j < 512 \<Longrightarrow> load64 m (word_slot n j) = 0"
  defines "m' \<equiv> store64 m (word_slot t i) (pte_from_pa n SV39_PTE_VALID)"
  shows "pt_path p \<Longrightarrow> table_at m' root p = (if p = q @ [i] then Some n else table_at m root p)"
    and "tree_wf m' root"
proof -
  have q': "pt_path q" "i < 512" "length q \<le> 1" using q(1) by (simp_all add: pt_path_snoc)
  have tn: "t \<noteq> n" using n(2) q(2) q'(1) by (auto simp: pt_tables_def)
  have words: "load64 m' (word_slot t' j) =
      (if t' = t \<and> j = i then pte_from_pa n SV39_PTE_VALID else load64 m (word_slot t' j))"
    if "ram_page t'" "j < 512" for t' j
    using that tree_wfD(1) [OF wf q'(1) q(2)] q'(2) by (auto simp: m'_def load64_store64_slot)
  have same: "table_at m' root p = (if p = q @ [i] then Some n else table_at m root p)" if p: "pt_path p" for p
  proof (cases "take (Suc (length q)) p = q @ [i]")
    case True
    define r where "r = drop (Suc (length q)) p"
    have pr: "p = q @ i # r" unfolding r_def by (rule take_prefix_split [OF True])
    have "length r \<le> 1" "\<forall>j\<in>set r. j < 512" using p pr by (auto simp: pt_path_def)
    then consider "r = []" | j where "r = [j]" "j < 512" by (cases r) auto
    then have "table_at m' n r = (if r = [] then Some n else None)"
      by cases (simp_all add: next_of_entry words [OF n(1)] tn [symmetric] n(3))
    moreover have "table_at m root p = None" using pr by (simp add: table_at_append q next_of_entry old)
    ultimately show ?thesis
      using table_at_store_hit [OF wf q'(1) q(2) q'(2), of "pte_from_pa n SV39_PTE_VALID" r] n(1) pr
      by (simp add: m'_def)
  next
    case False
    then have "p \<noteq> q @ [i]" by auto
    then show ?thesis using table_at_store_other [OF wf q'(1) q(2) q'(2) p False] by (simp add: m'_def)
  qed
  then show "pt_path p \<Longrightarrow> table_at m' root p = (if p = q @ [i] then Some n else table_at m root p)" by blast
  have none: "table_at m root (q @ [i]) = None" by (simp add: table_at_snoc q next_of_entry old)
  have nn: "table_at m root p \<noteq> Some n" if "pt_path p" for p using n(2) that by (auto simp: pt_tables_def)
  show "tree_wf m' root"
    unfolding tree_wf_def
  proof (intro allI impI conjI)
    fix p t' assume p: "pt_path p" and at: "table_at m' root p = Some t'"
    then have at': "if p = q @ [i] then t' = n else table_at m root p = Some t'" using same [OF p] by auto
    show r': "ram_page t'" using at' n(1) tree_wfD(1) [OF wf p] by (auto split: if_splits)
    show "r = p" if "pt_path r" "table_at m' root r = Some t'" for r
    proof (cases "r = q @ [i]")
      case True
      then have "t' = n" using same [OF that(1)] that(2) by simp
      then show ?thesis using at' nn [OF p] True by (auto split: if_splits)
    next
      case False
      then have r: "table_at m root r = Some t'" using same [OF that(1)] that(2) by simp
      then have "t' \<noteq> n" using nn [OF that(1)] by auto
      then have "table_at m root p = Some t'" using at' by (auto split: if_splits)
      then show ?thesis using tree_wfD(3) [OF wf p _ that(1) r] by blast
    qed
    fix j :: nat assume j: "j < 512"
    have new: "pte_ok (2 - length q) (pte_from_pa n SV39_PTE_VALID)"
      using q'(3) n(1) by (simp add: pte_ok_def leaf_bits_table table_of_pte ram_page_frame)
    show "pte_ok (2 - length p) (load64 m' (word_slot t' j))"
    proof (cases "p = q @ [i]")
      case True
      then have "t' = n" using at' by simp
      then show ?thesis using tn n(3) [OF j] words [OF r' j] by simp
    next
      case False
      then have t': "table_at m root p = Some t'" using at' by simp
      have "p = q" if "t' = t"
        using tree_wfD(3) [OF wf q'(1) q(2) p] t' that by simp
      then show ?thesis using new tree_wfD(2) [OF wf p t' j] words [OF r' j] by simp
    qed
  qed
qed

subsection \<open>Walks\<close>

lemma walk_from_eq:
  "walk_from m t level v =
     (let e = load64 m (word_slot t (vpn_index v level)) in
      if \<not> bit e 0 then None else if leaf_bits e then Some (level, e)
      else case level of 0 \<Rightarrow> None | Suc l \<Rightarrow> walk_from m (table_from_pte e) l v)"
  by (subst walk_from.simps) (simp only: pte_valid_iff leaf_bits_iff not_not)

lemma pt_walk_reach:
  assumes "k \<le> 2" "table_at m root (vpath v k) = Some t"
  shows "pt_walk m root v = walk_from m t (2 - k) v"
  using assms
proof (induction k arbitrary: t)
  case (Suc k)
  then obtain t0 where t0: "table_at m root (vpath v k) = Some t0"
      "entry_next (load64 m (word_slot t0 (vpn_index v (2 - k)))) = Some t"
    by (auto simp: vpath_Suc table_at_snoc next_of_entry split: option.splits)
  have "2 - k = Suc (2 - Suc k)" using Suc.prems(1) by simp
  then have "walk_from m t0 (2 - k) v = walk_from m t (2 - Suc k) v"
    using t0(2) by (subst walk_from_eq) (auto simp: entry_next_def Let_def split: if_splits)
  then show ?case using Suc.IH [OF _ t0(1)] Suc.prems(1) by simp
qed (simp add: pt_walk_def)

lemma walk_same_reads:
  assumes "\<And>k t. k \<le> 2 \<Longrightarrow> table_at m root (vpath v k) = Some t \<Longrightarrow>
      load64 m' (word_slot t (vpn_index v (2 - k))) = load64 m (word_slot t (vpn_index v (2 - k)))"
    and "k \<le> 2" "table_at m root (vpath v k) = Some t"
  shows "walk_from m' t (2 - k) v = walk_from m t (2 - k) v"
  using assms(2,3)
proof (induction "2 - k" arbitrary: k t)
  case 0
  then have "k = 2" by simp
  then show ?case using assms(1) [OF 0(2,3)] by (simp add: walk_from_eq [of _ t 0] Let_def)
next
  case (Suc l)
  define e where "e = load64 m (word_slot t (vpn_index v (2 - k)))"
  have e': "load64 m' (word_slot t (vpn_index v (2 - k))) = e" using assms(1) [OF Suc.prems] by (simp add: e_def)
  have step: "walk_from m' t' l v = walk_from m t' l v" if "entry_next e = Some t'" for t'
  proof -
    have "table_at m root (vpath v (Suc k)) = Some t'"
      using Suc.prems that Suc.hyps(2) by (simp add: vpath_Suc table_at_snoc next_of_entry e_def)
    moreover have "l = 2 - Suc k" using Suc.hyps(2) by simp
    ultimately show ?thesis using Suc.hyps(1) [of "Suc k" t'] Suc.hyps(2) by simp
  qed
  show ?case
    using step e' Suc.hyps(2) unfolding walk_from_eq [of _ t "2 - k"]
    by (simp add: e_def [symmetric] Let_def entry_next_def split: nat.split)
      (use Suc.hyps(2) in \<open>auto simp: e_def\<close>)
qed

lemma pt_walk_same_words:
  assumes "\<And>q t i. pt_path q \<Longrightarrow> table_at m root q = Some t \<Longrightarrow> i < 512 \<Longrightarrow>
             load64 m' (word_slot t i) = load64 m (word_slot t i)"
  shows "pt_walk m' root v = pt_walk m root v"
  using walk_same_reads [of m root v m' 0 root] assms [OF pt_path_vpath _ vpn_less]
  by (simp add: pt_walk_def)

text \<open>A store into entry \<open>i\<close> of the table at path \<open>q\<close>: the addresses whose walk passes there see the
  new entry, all others walk as before.\<close>

definition through :: "u64 \<Rightarrow> nat list \<Rightarrow> bool" where
  "through v p \<longleftrightarrow> vpath v (length p) = p"

lemma pt_walk_store_other:
  assumes wf: "tree_wf m root" and q: "pt_path q" "table_at m root q = Some t" "i < 512"
    and v: "\<not> through v (q @ [i])"
  shows "pt_walk (store64 m (word_slot t i) e) root v = pt_walk m root v"
proof -
  have "load64 (store64 m (word_slot t i) e) (word_slot t' (vpn_index v (2 - k))) =
          load64 m (word_slot t' (vpn_index v (2 - k)))"
    if "k \<le> 2" "table_at m root (vpath v k) = Some t'" for k t'
  proof -
    have "\<not> (t' = t \<and> vpn_index v (2 - k) = i)"
    proof
      assume h: "t' = t \<and> vpn_index v (2 - k) = i"
      then have "vpath v k = q" using tree_wfD(3) [OF wf q(1,2) pt_path_vpath] that by simp
      then have "vpath v (length (q @ [i])) = q @ [i]" using h that(1) vpath_Suc [of k v] by auto
      then show False using v by (simp add: through_def)
    qed
    then show ?thesis
      using tree_wfD(1) [OF wf q(1,2)] tree_wfD(1) [OF wf pt_path_vpath that(2)] that(1) q(3)
      by (simp add: load64_store64_slot) blast
  qed
  from walk_same_reads [OF this, where k = 0 and t = root] show ?thesis by (simp add: pt_walk_def)
qed

lemma pt_walk_store_hit:
  fixes e :: u64
  assumes wf: "tree_wf m root" and q: "pt_path q" "table_at m root q = Some t" "i < 512"
    and v: "through v (q @ [i])"
  defines "m' \<equiv> store64 m (word_slot t i) e"
  shows "pt_walk m' root v =
    (if \<not> bit e 0 then None else if leaf_bits e then Some (2 - length q, e)
     else case 2 - length q of 0 \<Rightarrow> None | Suc l \<Rightarrow> walk_from m' (table_from_pte e) l v)"
proof -
  have k: "length q \<le> 2" using q(1) by (simp add: pt_path_def)
  have "vpath v (Suc (length q)) = q @ [i]" using v by (simp add: through_def)
  then have vq: "vpath v (length q) = q" "vpn_index v (2 - length q) = i"
    using vpath_Suc [OF k] by auto
  have "table_at m' root q = Some t" unfolding m'_def by (rule table_at_store_self [OF wf q])
  then have "pt_walk m' root v = walk_from m' t (2 - length q) v"
    using pt_walk_reach [OF k, of m' root v t] vq by simp
  moreover have "load64 m' (word_slot t i) = e"
    using tree_wfD(1) [OF wf q(1,2)] q(3) by (simp add: m'_def load64_store64_slot)
  ultimately show ?thesis using vq(2) by (simp add: walk_from_eq [of m' t] Let_def)
qed

lemma install_table_walk:
  assumes wf: "tree_wf m root" and q: "pt_path (q @ [i])" "table_at m root q = Some t"
    and old: "\<not> bit (load64 m (word_slot t i)) 0"
    and n: "ram_page n" "n \<notin> pt_tables m root" "\<And>j. j < 512 \<Longrightarrow> load64 m (word_slot n j) = 0"
  shows "pt_walk (store64 m (word_slot t i) (pte_from_pa n SV39_PTE_VALID)) root v = pt_walk m root v"
proof (cases "through v (q @ [i])")
  case True
  let ?e = "pte_from_pa n SV39_PTE_VALID" let ?m = "store64 m (word_slot t i) ?e"
  have q': "pt_path q" "i < 512" "length q \<le> 1" using q(1) by (simp_all add: pt_path_snoc)
  have "vpath v (length q) = q" "vpn_index v (2 - length q) = i"
    using True q'(3) vpath_Suc [of "length q" v] by (auto simp: through_def)
  then have none: "pt_walk m root v = None"
    using pt_walk_reach [of "length q" m root v t] q(2) q'(3) old by (simp add: walk_from_eq [of _ t])
  obtain l where l: "2 - length q = Suc l" using q'(3) by (cases "2 - length q") auto
  have walk: "pt_walk ?m root v = walk_from ?m (table_from_pte ?e) l v"
    using pt_walk_store_hit [OF wf q'(1) q(2) q'(2) True, of ?e] l by (simp add: leaf_bits_table bit_pte)
  have "t \<noteq> n" using n(2) q(2) q'(1) by (auto simp: pt_tables_def)
  then have "load64 ?m (word_slot n (vpn_index v l)) = 0"
    using n(3) [of "vpn_index v l"] tree_wfD(1) [OF wf q'(1) q(2)] n(1) q'(2) by (simp add: load64_store64_slot)
  then show ?thesis using walk none n(1) by (simp add: table_of_pte ram_page_frame walk_from_eq [of _ n])
next
  case False
  have "pt_path q" "i < 512" using q(1) by (simp_all add: pt_path_snoc)
  then show ?thesis using pt_walk_store_other [OF wf _ q(2) _ False] by simp
qed

end
