(* ===== verification/MmuWalk.thy ===== *)
theory MmuWalk
  imports Mmu PageTree TrapProperties
begin

text \<open>
  The simulator's translation computes the reference walk: on a well-formed tree of tables, with a
  TLB that agrees with it, \<open>mmu_translate\<close> gives the leaf that \<open>pt_walk\<close> finds or the page fault, and keeps
  tree and TLB in agreement.
\<close>

subsection \<open>Virtual pages\<close>

lemma canonical_bits: "is_sv39_canonical v \<longleftrightarrow> (\<forall>n. 39 \<le> n \<and> n < 64 \<longrightarrow> bit v n = bit v 38)"
proof -
  have m: "push_bit 25 1 - 1 = (mask 25 :: u64)" by (simp add: mask_eq_exp_minus_1)
  have one: "drop_bit 38 v AND 1 = (if bit v 38 then 1 else 0)"
  proof (rule bit_word_eqI)
    show "bit (drop_bit 38 v AND 1) n = bit (if bit v 38 then 1 else 0 :: u64) n" for n
      by (cases "n = 0") (auto simp: bit_and_iff bit_drop_bit_eq bit_1_iff)
  qed
  have "is_sv39_canonical v \<longleftrightarrow> drop_bit 39 v = (if bit v 38 then mask 25 else 0)"
    unfolding is_sv39_canonical_def Let_def one m by simp
  also have "\<dots> \<longleftrightarrow> (\<forall>k<64. bit v (39 + k) = (bit v 38 \<and> k < 25))"
    unfolding u64_eq_iff by (auto simp: bit_drop_bit_eq bit_mask_iff)
  also have "\<dots> \<longleftrightarrow> (\<forall>n. 39 \<le> n \<and> n < 64 \<longrightarrow> bit v n = bit v 38)"
  proof (rule iffI; intro allI impI)
    fix n :: nat assume a: "\<forall>k<64. bit v (39 + k) = (bit v 38 \<and> k < 25)" "39 \<le> n \<and> n < 64"
    then show "bit v n = bit v 38" using spec [OF a(1), of "n - 39"] by auto
  next
    fix k :: nat assume a: "\<forall>n. 39 \<le> n \<and> n < 64 \<longrightarrow> bit v n = bit v 38" "k < 64"
    then show "bit v (39 + k) = (bit v 38 \<and> k < 25)"
      using spec [OF a(1), of "39 + k"] bit_imp_le_length [of v "39 + k"] by auto
  qed
  finally show ?thesis .
qed

lemma vpn_index_take: "vpn_index v level = unat (take_bit 9 (drop_bit (12 + level * 9) v))"
  by (simp add: vpn_index_def take_bit_eq_mask mask_eq_exp_minus_1)

lemma num9_less_64: "(9 :: nat) < 64"
  by simp

lemma vpn_index_eq_iff:
  "vpn_index v l = vpn_index w l \<longleftrightarrow> (\<forall>n<9. bit v (12 + l * 9 + n) = bit w (12 + l * 9 + n))"
proof -
  have "vpn_index v l = vpn_index w l \<longleftrightarrow>
      take_bit 9 (drop_bit (12 + l * 9) v) = take_bit 9 (drop_bit (12 + l * 9) w)"
    unfolding vpn_index_take by (rule word_unat_eq_iff [symmetric])
  also have "\<dots> \<longleftrightarrow> (\<forall>n<9. bit v (12 + l * 9 + n) = bit w (12 + l * 9 + n))"
    unfolding u64_eq_iff bit_take_bit_iff bit_drop_bit_eq comp_def by (meson less_trans num9_less_64)
  finally show ?thesis .
qed

lemma page_base_eq_iff:
  fixes v w :: u64
  shows "v AND NOT (mask k) = w AND NOT (mask k) \<longleftrightarrow> (\<forall>n. k \<le> n \<and> n < 64 \<longrightarrow> bit v n = bit w n)"
  unfolding u64_eq_iff by (auto simp: bit_and_iff bit_not_iff bit_mask_iff not_less)

text \<open>Two canonical addresses take the same path down to level \<open>l\<close> exactly when they lie in the same
  page of that level.\<close>

lemma vpath_eq_bits:
  assumes "l \<le> 2"
  shows "vpath v (3 - l) = vpath w (3 - l) \<longleftrightarrow> (\<forall>n. 12 + l * 9 \<le> n \<and> n < 39 \<longrightarrow> bit v n = bit w n)"
proof -
  have "vpath v (3 - l) = vpath w (3 - l) \<longleftrightarrow> (\<forall>j. l \<le> j \<and> j \<le> 2 \<longrightarrow> vpn_index v j = vpn_index w j)"
    using assms by (auto simp: vpath_def le_Suc_eq numeral_2_eq_2 numeral_3_eq_3 dest: le_antisym)
  also have "\<dots> \<longleftrightarrow> (\<forall>n. 12 + l * 9 \<le> n \<and> n < 39 \<longrightarrow> bit v n = bit w n)"
  proof (rule iffI; intro allI impI)
    fix n assume a: "\<forall>j. l \<le> j \<and> j \<le> 2 \<longrightarrow> vpn_index v j = vpn_index w j" "12 + l * 9 \<le> n \<and> n < 39"
    define j where "j = (n - 12) div 9"
    have "l \<le> j" "j \<le> 2" using a(2) by (auto simp: j_def)
    moreover have "n = 12 + j * 9 + (n - 12) mod 9" using a(2) by (simp add: j_def)
    moreover have "(n - 12) mod 9 < 9" by simp
    ultimately show "bit v n = bit w n" using a(1) unfolding vpn_index_eq_iff by metis
  next
    fix j assume "\<forall>n. 12 + l * 9 \<le> n \<and> n < 39 \<longrightarrow> bit v n = bit w n" "l \<le> j \<and> j \<le> 2"
    then show "vpn_index v j = vpn_index w j" unfolding vpn_index_eq_iff by auto
  qed
  finally show ?thesis .
qed

lemma same_vpage:
  assumes "is_sv39_canonical v" "is_sv39_canonical w" "l \<le> 2"
  shows "vpath v (3 - l) = vpath w (3 - l) \<longleftrightarrow>
           v AND NOT (mask (12 + l * 9)) = w AND NOT (mask (12 + l * 9))"
proof -
  have "12 + l * 9 \<le> 38" using assms(3) by simp
  then show ?thesis
    unfolding vpath_eq_bits [OF assms(3)] page_base_eq_iff
    using assms(1,2) unfolding canonical_bits
    by (auto; metis le_eq_less_or_eq less_or_eq_imp_le linorder_not_less nat_le_linear numeral_less_iff
        semiring_norm(76,78,80,81) Suc_leI)
qed

subsection \<open>Permissions and accessed bits\<close>

definition leaf_allows :: "u64 \<Rightarrow> u64 \<Rightarrow> access_type \<Rightarrow> privilege_mode \<Rightarrow> bool" where
  "leaf_allows mstatus e ty mode \<longleftrightarrow>
     (bit e 2 \<longrightarrow> bit e 1) \<and>
     (if mode = User then bit e 4 else bit e 4 \<longrightarrow> ty \<noteq> Access_Instruction \<and> bit mstatus 18) \<and>
     (case ty of Access_Instruction \<Rightarrow> bit e 3 | Access_Load \<Rightarrow> bit e 1 \<or> bit mstatus 19 \<and> bit e 3
      | Access_Store \<Rightarrow> bit e 2)"

definition set_ad :: "access_type \<Rightarrow> u64 \<Rightarrow> u64" where
  "set_ad ty e = (if ty = Access_Store then e OR PTE_A OR PTE_D else e OR PTE_A)"

lemma pte_bit_tests:
  "w AND PTE_V = 0 \<longleftrightarrow> \<not> bit w 0" "w AND PTE_R = 0 \<longleftrightarrow> \<not> bit w 1" "w AND PTE_W = 0 \<longleftrightarrow> \<not> bit w 2"
  "w AND PTE_X = 0 \<longleftrightarrow> \<not> bit w 3" "w AND PTE_U = 0 \<longleftrightarrow> \<not> bit w 4" "w AND PTE_A = 0 \<longleftrightarrow> \<not> bit w 6"
  "w AND PTE_D = 0 \<longleftrightarrow> \<not> bit w 7"
  unfolding PTE_V_def PTE_R_def PTE_W_def PTE_X_def PTE_U_def PTE_A_def PTE_D_def
  by (rule u64_and_one_bit, simp)+

lemma pte_mask_tests:
  "w AND (PTE_R OR PTE_W OR PTE_X) = 0 \<longleftrightarrow> \<not> leaf_bits w"
  "w AND (PTE_U OR PTE_A OR PTE_D) = 0 \<longleftrightarrow> \<not> bit w 4 \<and> \<not> bit w 6 \<and> \<not> bit w 7"
  by (simp_all only: bit.conj_disj_distrib or_eq_0_iff pte_bit_tests leaf_bits_def de_Morgan_disj)

lemma pte_reserved_test: "(\<forall>n. bit w n \<longrightarrow> n < 54) \<Longrightarrow> w AND PTE_SV39_RESERVED_MASK = 0"
proof -
  assume a: "\<forall>n. bit w n \<longrightarrow> n < 54"
  have m: "PTE_SV39_RESERVED_MASK = NOT (mask 54)" by (simp add: PTE_SV39_RESERVED_MASK_def mask_eq_exp_minus_1)
  show ?thesis unfolding m
    by (rule bit_word_eqI) (use a in \<open>auto simp: bit_and_iff bit_not_iff bit_mask_iff\<close>)
qed

lemma bit_set_ad: "bit (set_ad ty e) n \<longleftrightarrow> bit e n \<or> n = 6 \<or> n = 7 \<and> ty = Access_Store"
proof -
  have "bit PTE_A n \<longleftrightarrow> n = 6" "bit PTE_D n \<longleftrightarrow> n = 7"
    unfolding PTE_A_def PTE_D_def by (simp_all only: bit_one_bit) auto
  then show ?thesis by (auto simp: set_ad_def bit_or_iff)
qed

lemma leaf_allows_set_ad [simp]: "leaf_allows ms (set_ad ty' e) ty mode = leaf_allows ms e ty mode"
  by (simp add: leaf_allows_def bit_set_ad split: access_type.split)

lemma leaf_bits_set_ad [simp]: "leaf_bits (set_ad ty e) = leaf_bits e"
  by (simp add: leaf_bits_def bit_set_ad)

lemma pte_ok_set_ad: "pte_ok l e \<Longrightarrow> bit e 0 \<Longrightarrow> leaf_bits e \<Longrightarrow> pte_ok l (set_ad ty e)"
  by (auto simp: pte_ok_def bit_set_ad)

lemma check_leaf:
  "check_leaf_permissions h e ty mode v =
     (if leaf_allows (mstatus_of h) e ty mode then None else Some (page_fault_cause ty, v))"
  unfolding check_leaf_permissions_def Let_def pte_bit_tests can_access_user_page_def mstatus_bit_tests not_not
  by (cases ty; cases mode) (auto simp: leaf_allows_def csr_read_simps(1) bit_with_sd mstatus_of_def)

text \<open>The address that a leaf entry of a level gives.\<close>

definition leaf_base :: "u64 \<Rightarrow> u64" where
  "leaf_base e = push_bit 12 (drop_bit 10 e AND PTE_PPN_MASK)"

definition leaf_paddr :: "nat \<Rightarrow> u64 \<Rightarrow> u64 \<Rightarrow> u64" where
  "leaf_paddr l e v = leaf_base e OR (v AND mask (12 + l * 9))"

lemma leaf_base_table: "leaf_base e = table_from_pte e"
  by (simp add: leaf_base_def table_from_pte_def PTE_PPN_MASK_def SV39_PPN_MASK_def)

lemma leaf_base_set_ad [simp]: "leaf_base (set_ad ty e) = leaf_base e"
  unfolding leaf_base_table by (rule bit_word_eqI) (auto simp: bit_table bit_set_ad)

lemma leaf_paddr_base:
  assumes "pte_ok l e" "bit e 0" "leaf_bits e" "l \<le> 2"
  shows "leaf_paddr l e v AND NOT (mask (12 + l * 9)) = leaf_base e"
proof -
  have l: "l = 0 \<or> l = 2 \<and> (\<forall>n. 10 \<le> n \<and> n < 28 \<longrightarrow> \<not> bit e n)"
    using assms by (auto simp: pte_ok_def le_Suc_eq numeral_2_eq_2)
  show ?thesis
  proof (rule bit_word_eqI)
    fix n
    have "bit (leaf_base e) n \<Longrightarrow> 12 + l * 9 \<le> n"
    proof -
      assume "bit (leaf_base e) n"
      then have n: "12 \<le> n" "bit e (n - 2)" by (simp_all add: leaf_base_table bit_table)
      show "12 + l * 9 \<le> n"
      proof (rule ccontr)
        assume "\<not> 12 + l * 9 \<le> n"
        then have "l = 2" "10 \<le> n - 2 \<and> n - 2 < 28" using l n(1) by auto
        then show False using l n(2) by auto
      qed
    qed
    then show "bit (leaf_paddr l e v AND NOT (mask (12 + l * 9))) n = bit (leaf_base e) n"
      by (auto simp: leaf_paddr_def bit_and_iff bit_or_iff bit_not_iff bit_mask_iff dest: bit_imp_le_length)
  qed
qed

subsection \<open>The walk\<close>

definition leaf_slot :: "memory \<Rightarrow> u64 \<Rightarrow> u64 \<Rightarrow> nat \<Rightarrow> u64" where
  "leaf_slot m root v l = word_slot (the (table_at m root (vpath v (2 - l)))) (vpn_index v l)"

lemma table_next:
  assumes "table_at m root (vpath v k) = Some t" "k \<le> 1"
    and "entry_next (load64 m (word_slot t (vpn_index v (2 - k)))) = Some t'"
  shows "table_at m root (vpath v (Suc k)) = Some t'"
  using assms by (simp add: vpath_Suc table_at_snoc next_of_entry)

lemma walk_from_leaf:
  assumes "walk_from m t lev v = Some (l, e)" "table_at m root (vpath v (2 - lev)) = Some t" "lev \<le> 2"
  shows "l \<le> lev \<and> bit e 0 \<and> leaf_bits e \<and>
         (\<exists>t'. table_at m root (vpath v (2 - l)) = Some t' \<and> load64 m (word_slot t' (vpn_index v l)) = e)"
  using assms
proof (induction lev arbitrary: t)
  case 0
  then show ?case by (auto simp: walk_from_eq [of m t 0] Let_def split: if_splits)
next
  case (Suc lev)
  let ?e = "load64 m (word_slot t (vpn_index v (Suc lev)))"
  have lev: "2 - Suc lev \<le> 1" "Suc (2 - Suc lev) = 2 - lev" "2 - (2 - Suc lev) = Suc lev"
    using Suc.prems(3) by auto
  show ?case
  proof (cases "entry_next ?e")
    case None
    then have "l = Suc lev" "e = ?e" "bit e 0" "leaf_bits e"
      using Suc.prems(1) by (auto simp: walk_from_eq [of m t "Suc lev"] Let_def entry_next_def split: if_splits)
    then show ?thesis using Suc.prems(2) by auto
  next
    case (Some t')
    then have "walk_from m t' lev v = Some (l, e)"
      using Suc.prems(1) by (auto simp: walk_from_eq [of m t "Suc lev"] Let_def entry_next_def split: if_splits)
    moreover have "table_at m root (vpath v (2 - lev)) = Some t'"
      using table_next [OF Suc.prems(2) lev(1)] Some lev by simp
    ultimately show ?thesis using Suc.IH [of t'] Suc.prems(3) by auto
  qed
qed

lemma pt_leaf:
  assumes "tree_wf m root" "pt_walk m root v = Some (l, e)"
  obtains t where "l \<le> 2" "bit e 0" "leaf_bits e" "pte_ok l e" "table_at m root (vpath v (2 - l)) = Some t"
    "leaf_slot m root v l = word_slot t (vpn_index v l)" "load64 m (leaf_slot m root v l) = e"
    "ram_word (leaf_slot m root v l)"
proof -
  obtain t where t: "l \<le> 2" "bit e 0" "leaf_bits e" "table_at m root (vpath v (2 - l)) = Some t"
    "load64 m (word_slot t (vpn_index v l)) = e"
    using walk_from_leaf [of m root 2 v l e root] assms(2) by (auto simp: pt_walk_def)
  have p: "pt_path (vpath v (2 - l))" by simp
  have "2 - length (vpath v (2 - l)) = l" using t(1) by simp
  then have "pte_ok l e" using tree_wfD(2) [OF assms(1) p t(4) vpn_less] t(5) by metis
  then show thesis
    using that [OF t(1,2,3) _ t(4)] t(5) ram_word_slot [OF tree_wfD(1) [OF assms(1) p t(4)] vpn_less]
    by (simp add: leaf_slot_def t(4))
qed

text \<open>The result of a walk that found the leaf \<open>e\<close> of level \<open>l\<close>: fault, or address, TLB entry and
  accessed bits.\<close>

definition leaf_result ::
    "'d mmu \<Rightarrow> u64 \<Rightarrow> u64 \<Rightarrow> access_type \<Rightarrow> bool \<Rightarrow> nat \<Rightarrow> u64 \<Rightarrow> (fault + u64) \<times> 'd mmu" where
  "leaf_result x slot v ty upd l e =
     (case x of (h, b) \<Rightarrow>
      if leaf_allows (mstatus_of h) e ty (effective_privilege_mode ty (h_core h) (csr h CSR_MSTATUS))
      then let e' = (if upd then set_ad ty e else e) in
        (Inr (leaf_paddr l e v),
         (h\<lparr>h_tlb := fill_tlb (h_tlb h) (csr h CSR_SATP) v (leaf_paddr l e v) e' slot (12 + l * 9)\<rparr>,
          if e' = e then b else b\<lparr>bus_ram := store64 (bus_ram b) slot e'\<rparr>))
      else (Inl (page_fault_cause ty, v), (h, b)))"

lemma push_mask: "push_bit k 1 - 1 = (mask k :: u64)"
  by (simp add: mask_eq_exp_minus_1)

lemma update_bits:
  assumes "ram_word slot"
  shows "update_pte_access_bits b slot e ty v =
    (set_ad ty e, None, if set_ad ty e = e then b else b\<lparr>bus_ram := store64 (bus_ram b) slot (set_ad ty e)\<rparr>)"
proof -
  have "(if ty = Access_Store then (e OR PTE_A) OR PTE_D else e OR PTE_A) = set_ad ty e"
    by (simp add: set_ad_def or.assoc)
  then show ?thesis by (auto simp: update_pte_access_bits_def Let_def bus_store_word [OF assms])
qed

lemma superpage_aligned:
  assumes "pte_ok 2 e" "bit e 0" "leaf_bits e"
  shows "(drop_bit 10 e AND PTE_PPN_MASK) AND (push_bit 18 1 - 1) = 0"
proof (rule bit_word_eqI)
  fix n
  have "\<not> bit e (10 + n)" if "n < 18" using assms that by (auto simp: pte_ok_def)
  then show "bit ((drop_bit 10 e AND PTE_PPN_MASK) AND (push_bit 18 1 - 1)) n = bit (0 :: u64) n"
    unfolding push_mask by (auto simp: bit_and_iff bit_drop_bit_eq bit_mask_iff)
qed

lemma walk_leaf_result:
  assumes "pte_ok l e" "bit e 0" "leaf_bits e" "l \<le> 2" "ram_word slot"
  shows "walk_leaf (h, b) v ty upd l slot e = leaf_result (h, b) slot v ty upd l e"
proof -
  have l: "l \<noteq> 1" using assms by (auto simp: pte_ok_def)
  have al: "\<not> (l = 2 \<and> (drop_bit 10 e AND PTE_PPN_MASK) AND (push_bit 18 1 - 1) \<noteq> 0)"
    using superpage_aligned assms by blast
  show ?thesis
  proof (cases "leaf_allows (mstatus_of h) e ty (effective_privilege_mode ty (h_core h) (csr h CSR_MSTATUS))")
    case False
    then show ?thesis by (simp add: walk_leaf_def leaf_result_def Let_def check_leaf)
  next
    case True
    have pa: "push_bit 12 (drop_bit 10 e AND PTE_PPN_MASK) OR (v AND (push_bit (12 + l * 9) 1 - 1)) = leaf_paddr l e v"
      unfolding leaf_paddr_def leaf_base_def push_mask ..
    show ?thesis
      unfolding walk_leaf_def leaf_result_def Let_def prod.case check_leaf if_P [OF True] option.case pa
        if_not_P [OF al]
      using l by (simp add: update_bits [OF assms(5)] SV39_PAGE_SHIFT_def)
  qed
qed

lemma page_frame_shift: "page_frame t \<Longrightarrow> push_bit 12 (drop_bit 12 t) = t"
  unfolding page_frame_def u64_eq_iff by (auto simp: bit_push_bit_iff bit_drop_bit_eq)

lemma entry_address:
  assumes "ram_page t"
  shows "push_bit 12 (drop_bit 12 t) OR push_bit 3 (mmu_vpn v l) = word_slot t (vpn_index v l)"
proof -
  have vpn: "of_nat (vpn_index v l) = mmu_vpn v l"
    by (simp add: vpn_index_def mmu_vpn_def SV39_VPN_MASK_def mult.commute)
  have low: "bit (push_bit 3 (mmu_vpn v l)) n \<Longrightarrow> n < 12" for n
  proof -
    have "mmu_vpn v l = drop_bit (12 + 9 * l) v AND mask 9"
      by (simp add: mmu_vpn_def SV39_VPN_MASK_def mask_eq_exp_minus_1)
    then show "bit (push_bit 3 (mmu_vpn v l)) n \<Longrightarrow> n < 12"
      by (auto simp: bit_push_bit_iff bit_and_iff bit_mask_iff)
  qed
  have "page_frame t" by (rule ram_page_frame [OF assms])
  then have "\<not> bit t n \<or> \<not> bit (push_bit 3 (mmu_vpn v l)) n" for n
    using low [of n] by (auto simp: page_frame_def)
  then have "t + push_bit 3 (mmu_vpn v l) = t OR push_bit 3 (mmu_vpn v l)" by (rule disjunctive_add)
  moreover have "push_bit 3 (mmu_vpn v l) = 8 * of_nat (vpn_index v l)"
    unfolding vpn by (simp add: push_bit_eq_mult)
  ultimately show ?thesis using page_frame_shift [OF \<open>page_frame t\<close>] by (simp add: word_slot_def)
qed

lemma table_ppn: "drop_bit 10 e AND PTE_PPN_MASK = drop_bit 12 (table_from_pte e)"
proof -
  have m: "PTE_PPN_MASK = mask 44" unfolding PTE_PPN_MASK_def push_mask ..
  show ?thesis unfolding m
  proof (rule bit_word_eqI)
    show "bit (drop_bit 10 e AND mask 44) n = bit (drop_bit 12 (table_from_pte e)) n" for n
      by (auto simp: bit_and_iff bit_mask_iff bit_drop_bit_eq bit_table add.commute [of _ n] dest: bit_imp_le_length)
  qed
qed

lemma pte_ok_bits:
  assumes "pte_ok l e" "bit e 0"
  shows "\<forall>n. bit e n \<longrightarrow> n < 54" "\<not> leaf_bits e \<Longrightarrow> \<not> bit e 4 \<and> \<not> bit e 6 \<and> \<not> bit e 7"
proof -
  have table: "bit e n \<longleftrightarrow> n = 0 \<or> (10 \<le> n \<and> n < 54 \<and> bit (table_from_pte e) (n + 2))" if "\<not> leaf_bits e" for n
  proof -
    have "e = pte_from_pa (table_from_pte e) SV39_PTE_VALID" using assms that by (simp add: pte_ok_def)
    then have "bit e n = bit (pte_from_pa (table_from_pte e) SV39_PTE_VALID) n" by simp
    then show ?thesis by (simp only: bit_pte bit_valid)
  qed
  show "\<forall>n. bit e n \<longrightarrow> n < 54"
  proof (cases "leaf_bits e")
    case True
    then show ?thesis using assms by (simp add: pte_ok_def)
  next
    case False
    then show ?thesis unfolding table [OF False] by auto
  qed
  show "\<not> bit e 4 \<and> \<not> bit e 6 \<and> \<not> bit e 7" if "\<not> leaf_bits e" unfolding table [OF that] by simp
qed

lemma walk_levels_step:
  assumes wf: "tree_wf (bus_ram b) root"
    and t: "table_at (bus_ram b) root (vpath v (2 - lev)) = Some t" and lev: "lev \<le> 2"
  defines "slot \<equiv> word_slot t (vpn_index v lev)"
  shows "walk_levels (h, b) v ty upd lev (drop_bit 12 t) =
    (let e = load64 (bus_ram b) slot in
     if \<not> bit e 0 then (Inl (page_fault_cause ty, v), (h, b))
     else if leaf_bits e then leaf_result (h, b) slot v ty upd lev e
     else case lev of 0 \<Rightarrow> (Inl (page_fault_cause ty, v), (h, b))
        | Suc l \<Rightarrow> walk_levels (h, b) v ty upd l (drop_bit 12 (table_from_pte e)))"
proof -
  have rp: "ram_page t" by (rule tree_wfD(1) [OF wf pt_path_vpath t]) simp
  have rw: "ram_word slot" unfolding slot_def by (rule ram_word_slot [OF rp vpn_less])
  define e where "e = load64 (bus_ram b) slot"
  have "2 - length (vpath v (2 - lev)) = lev" using lev by simp
  then have ok: "pte_ok lev e"
    using tree_wfD(2) [OF wf pt_path_vpath t vpn_less [of v lev]] by (simp add: e_def slot_def)
  have ld: "bus_load b slot 8 = (Some e, b)" by (simp add: bus_load_word [OF rw] e_def)
  have addr: "push_bit 12 (drop_bit 12 t) OR push_bit 3 (mmu_vpn v lev) = slot"
    unfolding slot_def by (rule entry_address [OF rp])
  show ?thesis
  proof (cases "bit e 0")
    case False
    then show ?thesis
      unfolding walk_levels.simps [of h b v ty upd lev] Let_def addr ld prod.case option.case e_def [symmetric] pte_bit_tests
      by simp
  next
    case v: True
    note res = pte_reserved_test [OF pte_ok_bits(1) [OF ok v]]
    show ?thesis
    proof (cases "leaf_bits e")
      case True
      then show ?thesis
        unfolding walk_levels.simps [of h b v ty upd lev] Let_def addr ld prod.case option.case e_def [symmetric]
          pte_bit_tests pte_mask_tests
        using v res walk_leaf_result [OF ok v True lev rw] by simp
    next
      case False
      then show ?thesis
        unfolding walk_levels.simps [of h b v ty upd lev] Let_def addr ld prod.case option.case e_def [symmetric]
          pte_bit_tests pte_mask_tests table_ppn
        using v res pte_ok_bits(2) [OF ok v False] by simp
    qed
  qed
qed

lemma walk_levels_spec:
  assumes wf: "tree_wf (bus_ram b) root"
    and t: "table_at (bus_ram b) root (vpath v (2 - lev)) = Some t" and lev: "lev \<le> 2"
  shows "walk_levels (h, b) v ty upd lev (drop_bit 12 t) =
    (case walk_from (bus_ram b) t lev v of
       None \<Rightarrow> (Inl (page_fault_cause ty, v), (h, b))
     | Some (l, e) \<Rightarrow> leaf_result (h, b) (leaf_slot (bus_ram b) root v l) v ty upd l e)"
  using t lev
proof (induction lev arbitrary: t)
  case 0
  show ?case
    unfolding walk_levels_step [OF wf 0] walk_from_eq [of _ t 0] Let_def
    using 0(1) by (simp add: leaf_slot_def)
next
  case (Suc lev)
  define e where "e = load64 (bus_ram b) (word_slot t (vpn_index v (Suc lev)))"
  show ?case
  proof (cases "bit e 0 \<and> \<not> leaf_bits e")
    case True
    have lev: "2 - Suc lev \<le> 1" "Suc (2 - Suc lev) = 2 - lev" "2 - (2 - Suc lev) = Suc lev"
      using Suc.prems(2) by auto
    have "table_at (bus_ram b) root (vpath v (2 - lev)) = Some (table_from_pte e)"
      using table_next [OF Suc.prems(1) lev(1), of "table_from_pte e"] True
      unfolding lev e_def by (simp add: entry_next_def)
    then show ?thesis
      unfolding walk_levels_step [OF wf Suc.prems] walk_from_eq [of _ t "Suc lev"] Let_def e_def [symmetric]
      using Suc.IH [of "table_from_pte e"] Suc.prems(2) True by simp
  next
    case False
    then show ?thesis
      unfolding walk_levels_step [OF wf Suc.prems] walk_from_eq [of _ t "Suc lev"] Let_def e_def [symmetric]
      using Suc.prems(1) by (auto simp: leaf_slot_def)
  qed
qed

end
