(* ===== verification/MmuTlb.thy ===== *)
theory MmuTlb
  imports MmuWalk
begin

text \<open>
  The TLB of the simulator's MMU is invisible: as long as its entries agree with the tables, every
  translation gives what a walk of the tables gives, whatever was cached before, and keeps the
  agreement.
\<close>

definition tlb_match :: "u64 \<Rightarrow> u64 \<Rightarrow> tlb_entry \<Rightarrow> bool" where
  "tlb_match satp v en \<longleftrightarrow>
     te_valid en \<and> te_satp en = satp \<and> v AND NOT (mask (te_page_shift en)) = te_vpage_base en"

definition entry_agrees :: "memory \<Rightarrow> u64 \<Rightarrow> u64 \<Rightarrow> tlb_entry \<Rightarrow> bool" where
  "entry_agrees m root v en \<longleftrightarrow>
     (\<exists>l. pt_walk m root v = Some (l, te_pte en) \<and> te_page_shift en = 12 + l * 9 \<and>
          te_pte_addr en = leaf_slot m root v l \<and> te_ppage_base en = leaf_base (te_pte en))"

definition tlb_ok :: "memory \<Rightarrow> u64 \<Rightarrow> u64 \<Rightarrow> tlb \<Rightarrow> bool" where
  "tlb_ok m root satp t \<longleftrightarrow> next_tlb_victim t < 32 \<and>
     (\<forall>v. is_sv39_canonical v \<longrightarrow> (\<forall>i<32. tlb_match satp v (tlb_entries t i) \<longrightarrow>
        entry_agrees m root v (tlb_entries t i) \<and>
        (\<forall>j<32. tlb_match satp v (tlb_entries t j) \<longrightarrow> j = i)))"

definition satp_root :: "u64 \<Rightarrow> u64 \<Rightarrow> bool" where
  "satp_root satp root \<longleftrightarrow>
     drop_bit 60 (satp AND SATP_MODE_MASK) = SATP_MODE_SV39 \<and> satp AND SATP_PPN_MASK = drop_bit 12 root"

definition mmu_ok :: "'d mmu \<Rightarrow> u64 \<Rightarrow> bool" where
  "mmu_ok x root \<longleftrightarrow> tree_wf (bus_ram (snd x)) root \<and> satp_root (csr (fst x) CSR_SATP) root \<and>
     tlb_ok (bus_ram (snd x)) root (csr (fst x) CSR_SATP) (h_tlb (fst x))"

lemma lookup_tlb_match:
  "lookup_tlb t satp v = first_index (\<lambda>i. tlb_match satp v (tlb_entries t i)) 32"
  unfolding lookup_tlb_def tlb_match_def Let_def push_mask ..

subsection \<open>Two addresses of one page\<close>

lemma same_leaf:
  assumes wf: "tree_wf m root" and w: "pt_walk m root v = Some (l, e)" and eq: "vpath v (3 - l) = vpath v' (3 - l)"
  shows "pt_walk m root v' = Some (l, e)" "leaf_slot m root v' l = leaf_slot m root v l"
proof -
  obtain t where t: "l \<le> 2" "bit e 0" "leaf_bits e" "table_at m root (vpath v (2 - l)) = Some t"
      "leaf_slot m root v l = word_slot t (vpn_index v l)" "load64 m (leaf_slot m root v l) = e"
    by (rule pt_leaf [OF wf w])
  have "3 - l = Suc (2 - l)" using t(1) by simp
  then have eqs: "vpath v' (2 - l) = vpath v (2 - l)" "vpn_index v' l = vpn_index v l"
    using eq vpath_Suc [of "2 - l" v] vpath_Suc [of "2 - l" v'] t(1) by auto
  show slot: "leaf_slot m root v' l = leaf_slot m root v l" by (simp add: leaf_slot_def eqs)
  have "pt_walk m root v' = walk_from m t (2 - (2 - l)) v'"
    by (rule pt_walk_reach) (use t(4) eqs in simp_all)
  then show "pt_walk m root v' = Some (l, e)"
    using t(1,2,3,5,6) eqs(2) by (simp add: walk_from_eq [of m t] Let_def)
qed

text \<open>Writing the accessed bits of the leaf of \<open>v\<close>.\<close>

lemma set_ad_store:
  fixes ty :: access_type
  assumes wf: "tree_wf m root" and w: "pt_walk m root v = Some (l, e)"
  defines "m' \<equiv> store64 m (leaf_slot m root v l) (set_ad ty e)"
  shows "tree_wf m' root"
    and "pt_walk m' root v' = (if vpath v' (3 - l) = vpath v (3 - l) then Some (l, set_ad ty e) else pt_walk m root v')"
    and "l' \<le> 2 \<Longrightarrow> leaf_slot m' root v' l' = leaf_slot m root v' l'"
    and "pt_path p \<Longrightarrow> table_at m' root p = table_at m root p"
proof -
  obtain t where t: "l \<le> 2" "bit e 0" "leaf_bits e" "pte_ok l e" "table_at m root (vpath v (2 - l)) = Some t"
      "leaf_slot m root v l = word_slot t (vpn_index v l)" "load64 m (leaf_slot m root v l) = e"
    by (rule pt_leaf [OF wf w])
  have pp: "pt_path (vpath v (2 - l))" by simp
  have len: "length (vpath v (2 - l)) = 2 - l" "2 - length (vpath v (2 - l)) = l" using t(1) by simp_all
  have m': "m' = store64 m (word_slot t (vpn_index v l)) (set_ad ty e)" by (simp add: m'_def t(6))
  have old: "entry_next (load64 m (word_slot t (vpn_index v l))) = None" using t(3,6,7) by (simp add: entry_next_def)
  have new: "entry_next (set_ad ty e) = None" using t(3) by (simp add: entry_next_def)
  note st = store_entry_tree [OF wf pp t(5) vpn_less old new, folded m']
  show "tree_wf m' root" using st(2) pte_ok_set_ad [OF t(4,2,3), of ty] len(2) by simp
  show "l' \<le> 2 \<Longrightarrow> leaf_slot m' root v' l' = leaf_slot m root v' l'" by (simp add: leaf_slot_def st(1))
  show "pt_path p \<Longrightarrow> table_at m' root p = table_at m root p" by (rule st(1))
  have "3 - l = Suc (2 - l)" "2 - (2 - l) = l" using t(1) by simp_all
  then have path: "vpath v (3 - l) = vpath v (2 - l) @ [vpn_index v l]"
    using vpath_Suc [of "2 - l" v] by simp
  have thr: "through v' (vpath v (2 - l) @ [vpn_index v l]) \<longleftrightarrow> vpath v' (3 - l) = vpath v (3 - l)"
    unfolding path [symmetric] using t(1) by (simp add: through_def)
  show "pt_walk m' root v' = (if vpath v' (3 - l) = vpath v (3 - l) then Some (l, set_ad ty e) else pt_walk m root v')"
  proof (cases "vpath v' (3 - l) = vpath v (3 - l)")
    case True
    have "pt_walk m' root v' = Some (2 - length (vpath v (2 - l)), set_ad ty e)"
      using pt_walk_store_hit [OF wf pp t(5) vpn_less [of v l], where v = v' and e = "set_ad ty e", folded m'] thr True t(2,3)
      by (simp add: bit_set_ad)
    then show ?thesis using True len by simp
  next
    case False
    then show ?thesis using pt_walk_store_other [OF wf pp t(5) vpn_less] thr m' by simp
  qed
qed

text \<open>The tables after an access to the leaf of \<open>v\<close>, which is now \<open>e'\<close>.\<close>

definition leaf_changed :: "memory \<Rightarrow> u64 \<Rightarrow> u64 \<Rightarrow> nat \<Rightarrow> u64 \<Rightarrow> memory \<Rightarrow> bool" where
  "leaf_changed m root v l e' m' \<longleftrightarrow> tree_wf m' root \<and>
     (\<forall>w. pt_walk m' root w = (if vpath w (3 - l) = vpath v (3 - l) then Some (l, e') else pt_walk m root w)) \<and>
     (\<forall>w l'. l' \<le> 2 \<longrightarrow> leaf_slot m' root w l' = leaf_slot m root w l') \<and>
     (\<forall>p. pt_path p \<longrightarrow> table_at m' root p = table_at m root p)"

lemma leaf_changed_same:
  assumes "leaf_changed m root v l e' m'" "tree_wf m root" "pt_walk m root v = Some (l, e)"
    and "vpath w (3 - l) = vpath v (3 - l)"
  shows "pt_walk m' root w = Some (l, e')" "leaf_slot m' root w l = leaf_slot m root v l"
proof -
  show "pt_walk m' root w = Some (l, e')" using assms(1,4) by (simp add: leaf_changed_def)
  have "l \<le> 2" by (rule pt_leaf [OF assms(2,3)])
  then have "leaf_slot m' root w l = leaf_slot m root w l" using assms(1) unfolding leaf_changed_def by blast
  also have "\<dots> = leaf_slot m root v l" by (rule same_leaf(2) [OF assms(2,3) assms(4) [symmetric]])
  finally show "leaf_slot m' root w l = leaf_slot m root v l" .
qed

definition touched :: "memory \<Rightarrow> u64 \<Rightarrow> u64 \<Rightarrow> u64 \<Rightarrow> memory" where
  "touched m slot e e' = (if e' = e then m else store64 m slot e')"

lemma leaf_changed_touched:
  assumes wf: "tree_wf m root" and w: "pt_walk m root v = Some (l, e)" and e': "e' = e \<or> e' = set_ad ty e"
  shows "leaf_changed m root v l e' (touched m (leaf_slot m root v l) e e')"
proof (cases "e' = e")
  case True
  then show ?thesis using wf same_leaf(1) [OF wf w] by (auto simp: leaf_changed_def touched_def)
next
  case False
  then show ?thesis using e' set_ad_store [OF wf w] by (auto simp: leaf_changed_def touched_def)
qed

lemma walk_level_le: "tree_wf m root \<Longrightarrow> pt_walk m root v = Some (l, e) \<Longrightarrow> l \<le> 2"
  by (erule pt_leaf)

lemma entry_agrees_changed:
  assumes "leaf_changed m root v l e' m'" "tree_wf m root" "entry_agrees m root w en"
    and "vpath w (3 - l) \<noteq> vpath v (3 - l)"
  shows "entry_agrees m' root w en"
  using assms walk_level_le [OF assms(2)] by (fastforce simp: entry_agrees_def leaf_changed_def)

text \<open>An entry that agrees with the tables matches exactly the addresses of its page.\<close>

lemma match_same_page:
  assumes "is_sv39_canonical v" "is_sv39_canonical w" "l \<le> 2" "tlb_match satp v en" "te_page_shift en = 12 + l * 9"
  shows "tlb_match satp w en \<longleftrightarrow> vpath w (3 - l) = vpath v (3 - l)"
  using assms(4,5) unfolding same_vpage [OF assms(2,1,3)] by (auto simp: tlb_match_def)

lemma match_of_page:
  assumes wf: "tree_wf m root" and c: "is_sv39_canonical v" "is_sv39_canonical w"
    and v: "pt_walk m root v = Some (l, e)" and same: "vpath w (3 - l) = vpath v (3 - l)"
    and en: "tlb_match satp w en" "entry_agrees m root w en"
  shows "tlb_match satp v en"
proof -
  have "pt_walk m root w = Some (l, e)" by (rule same_leaf(1) [OF wf v same [symmetric]])
  then have "te_page_shift en = 12 + l * 9" using en(2) by (auto simp: entry_agrees_def)
  then show ?thesis using match_same_page [OF c(2,1) walk_level_le [OF wf v] en(1)] same by simp
qed

lemma tlb_okD:
  assumes "tlb_ok m root satp t" "is_sv39_canonical v" "i < 32" "tlb_match satp v (tlb_entries t i)"
  shows "entry_agrees m root v (tlb_entries t i)"
    "\<And>j. j < 32 \<Longrightarrow> tlb_match satp v (tlb_entries t j) \<Longrightarrow> j = i"
  using assms by (auto simp: tlb_ok_def)

lemma tlb_hit_ok:
  assumes ok: "tlb_ok m root satp t" and wf: "tree_wf m root" and v: "is_sv39_canonical v"
    and i: "i < 32" "tlb_match satp v (tlb_entries t i)" and w: "pt_walk m root v = Some (l, e)"
    and ch: "leaf_changed m root v l e' m'" and base: "leaf_base e' = leaf_base e"
  shows "tlb_ok m' root satp (set_te_pte t i e')"
  unfolding tlb_ok_def
proof (intro conjI allI impI)
  let ?t = "set_te_pte t i e'"
  show "next_tlb_victim ?t < 32" using ok by (simp add: tlb_ok_def set_te_pte_def)
  have match: "tlb_match satp u (tlb_entries ?t j) = tlb_match satp u (tlb_entries t j)" for u j
    by (simp add: tlb_match_def set_te_pte_def)
  have l2: "l \<le> 2" by (rule walk_level_le [OF wf w])
  have ag: "te_pte (tlb_entries t i) = e" "te_page_shift (tlb_entries t i) = 12 + l * 9"
      "te_pte_addr (tlb_entries t i) = leaf_slot m root v l" "te_ppage_base (tlb_entries t i) = leaf_base e"
    using tlb_okD(1) [OF ok v i] w by (auto simp: entry_agrees_def)
  fix u j assume u: "is_sv39_canonical u" and j: "j < 32" "tlb_match satp u (tlb_entries ?t j)"
  have j': "tlb_match satp u (tlb_entries t j)" using j(2) by (simp add: match)
  show "k = j" if "k < 32" "tlb_match satp u (tlb_entries ?t k)" for k
    using tlb_okD(2) [OF ok u j(1) j'] that by (simp add: match)
  have page: "tlb_match satp u (tlb_entries t i) \<longleftrightarrow> vpath u (3 - l) = vpath v (3 - l)"
    by (rule match_same_page [OF v u l2 i(2) ag(2)])
  show "entry_agrees m' root u (tlb_entries ?t j)"
  proof (cases "j = i")
    case True
    then have "vpath u (3 - l) = vpath v (3 - l)" using page j' by simp
    from leaf_changed_same [OF ch wf w this] show ?thesis
      using True ag base by (simp add: entry_agrees_def set_te_pte_def)
  next
    case False
    then have "vpath u (3 - l) \<noteq> vpath v (3 - l)" using tlb_okD(2) [OF ok u j(1) j' i(1)] page by auto
    then show ?thesis using entry_agrees_changed [OF ch wf tlb_okD(1) [OF ok u j(1) j']] False
      by (simp add: set_te_pte_def)
  qed
qed

lemma tlb_fill_ok:
  assumes ok: "tlb_ok m root satp t" and wf: "tree_wf m root" and v: "is_sv39_canonical v"
    and miss: "\<And>i. i < 32 \<Longrightarrow> \<not> tlb_match satp v (tlb_entries t i)" and w: "pt_walk m root v = Some (l, e)"
    and ch: "leaf_changed m root v l e' m'"
    and base: "paddr AND NOT (mask (12 + l * 9)) = leaf_base e'"
  shows "tlb_ok m' root satp (fill_tlb t satp v paddr e' (leaf_slot m root v l) (12 + l * 9))"
  unfolding tlb_ok_def
proof (intro conjI allI impI)
  let ?k = "next_tlb_victim t" and ?t = "fill_tlb t satp v paddr e' (leaf_slot m root v l) (12 + l * 9)"
  show "next_tlb_victim ?t < 32" by (simp add: fill_tlb_def Let_def)
  have l2: "l \<le> 2" by (rule walk_level_le [OF wf w])
  have new: "te_page_shift (tlb_entries ?t ?k) = 12 + l * 9" "te_pte (tlb_entries ?t ?k) = e'"
      "te_pte_addr (tlb_entries ?t ?k) = leaf_slot m root v l" "te_ppage_base (tlb_entries ?t ?k) = leaf_base e'"
      "tlb_match satp v (tlb_entries ?t ?k)"
    unfolding fill_tlb_def Let_def push_mask by (simp_all add: tlb_match_def base)
  have old: "tlb_entries ?t j = tlb_entries t j" if "j \<noteq> ?k" for j
    using that unfolding fill_tlb_def Let_def by simp
  fix u j assume u: "is_sv39_canonical u" and j: "j < 32" "tlb_match satp u (tlb_entries ?t j)"
  have page: "tlb_match satp u (tlb_entries ?t ?k) \<longleftrightarrow> vpath u (3 - l) = vpath v (3 - l)"
    by (rule match_same_page [OF v u l2 new(5,1)])
  have other: "vpath u (3 - l) \<noteq> vpath v (3 - l)"
    if "i < 32" "i \<noteq> ?k" "tlb_match satp u (tlb_entries ?t i)" for i
    using match_of_page [OF wf v u w _ _ tlb_okD(1) [OF ok u that(1)]] that old miss by metis
  show "entry_agrees m' root u (tlb_entries ?t j)"
  proof (cases "j = ?k")
    case True
    then have "vpath u (3 - l) = vpath v (3 - l)" using page j(2) by simp
    from leaf_changed_same [OF ch wf w this] show ?thesis
      using True new by (simp add: entry_agrees_def)
  next
    case False
    then show ?thesis
      using entry_agrees_changed [OF ch wf] other [OF j(1) False j(2)] tlb_okD(1) [OF ok u j(1)] j old by simp
  qed
  show "i = j" if "i < 32" "tlb_match satp u (tlb_entries ?t i)" for i
  proof (cases "i = ?k \<or> j = ?k")
    case True
    then show ?thesis using other j that page by metis
  next
    case False
    then show ?thesis using tlb_okD(2) [OF ok u j(1)] j(2) that old by metis
  qed
qed

subsection \<open>Translation\<close>

text \<open>The reference: what a walk of the tables gives, without any cache.\<close>

definition may_access :: "hart \<Rightarrow> access_type \<Rightarrow> u64 \<Rightarrow> bool" where
  "may_access h ty e = leaf_allows (mstatus_of h) e ty (effective_privilege_mode ty (h_core h) (csr h CSR_MSTATUS))"

definition page_view :: "memory \<Rightarrow> u64 \<Rightarrow> hart \<Rightarrow> access_type \<Rightarrow> u64 \<Rightarrow> u64 option" where
  "page_view m root h ty v =
     (if is_sv39_canonical v
      then case pt_walk m root v of
          None \<Rightarrow> None
        | Some (l, e) \<Rightarrow> if may_access h ty e then Some (leaf_paddr l e v) else None
      else None)"

text \<open>What a successful access with update leaves in RAM.\<close>

definition marked :: "memory \<Rightarrow> u64 \<Rightarrow> access_type \<Rightarrow> u64 \<Rightarrow> memory" where
  "marked m root ty v =
     (case pt_walk m root v of
        None \<Rightarrow> m
      | Some (l, e) \<Rightarrow> touched m (leaf_slot m root v l) e (set_ad ty e))"

definition translated :: "'d mmu \<Rightarrow> u64 \<Rightarrow> access_type \<Rightarrow> bool \<Rightarrow> u64 \<Rightarrow> (fault + u64) \<times> 'd mmu \<Rightarrow> bool" where
  "translated x v ty upd root y \<longleftrightarrow>
     (case (x, y) of ((h, b), (res, (h', b'))) \<Rightarrow>
       mmu_ok (h', b') root \<and> h' = h\<lparr>h_tlb := h_tlb h'\<rparr> \<and>
       (case page_view (bus_ram b) root h ty v of
          Some paddr \<Rightarrow> res = Inr paddr \<and>
            b' = b\<lparr>bus_ram := if upd then marked (bus_ram b) root ty v else bus_ram b\<rparr>
        | None \<Rightarrow> res = Inl (page_fault_cause ty, v) \<and> (h', b') = (h, b)))"

lemma mmu_okD:
  assumes "mmu_ok (h, b) root"
  shows "tree_wf (bus_ram b) root" "satp_root (csr h CSR_SATP) root" "tlb_ok (bus_ram b) root (csr h CSR_SATP) (h_tlb h)"
  using assms by (simp_all add: mmu_ok_def)

lemma translate_sv39:
  assumes "mmu_ok (h, b) root" "effective_privilege_mode ty (h_core h) (csr h CSR_MSTATUS) \<noteq> Machine"
  shows "mmu_translate (h, b) v ty upd =
     (if \<not> is_sv39_canonical v then (Inl (page_fault_cause ty, v), (h, b))
      else case lookup_tlb (h_tlb h) (csr h CSR_SATP) v of
        Some i \<Rightarrow>
          let entry = tlb_entries (h_tlb h) i in
          if \<not> may_access h ty (te_pte entry) then (Inl (page_fault_cause ty, v), (h, b))
          else let paddr = te_ppage_base entry OR (v AND mask (te_page_shift entry)) in
            if \<not> upd then (Inr paddr, (h, b))
            else (case update_pte_access_bits b (te_pte_addr entry) (te_pte entry) ty v of
                 (_, Some fault, b1) \<Rightarrow> (Inl fault, (h, b1))
               | (pte, None, b1) \<Rightarrow> (Inr paddr, (h\<lparr>h_tlb := set_te_pte (h_tlb h) i pte\<rparr>, b1)))
      | None \<Rightarrow> walk_page_table (h, b) v ty upd)"
proof -
  have mode: "drop_bit 60 (csr h CSR_SATP AND SATP_MODE_MASK) = SATP_MODE_SV39" "SATP_MODE_SV39 \<noteq> 0"
    using mmu_okD(2) [OF assms(1)] by (simp_all add: satp_root_def SATP_MODE_SV39_def)
  show ?thesis
    unfolding mmu_translate_def prod.case Let_def mode(1) push_mask check_leaf may_access_def
    using assms(2) mode(2) by (simp split: option.split)
qed

lemma walk_page_table_spec:
  assumes "mmu_ok (h, b) root"
  shows "walk_page_table (h, b) v ty upd =
    (case pt_walk (bus_ram b) root v of
       None \<Rightarrow> (Inl (page_fault_cause ty, v), (h, b))
     | Some (l, e) \<Rightarrow> leaf_result (h, b) (leaf_slot (bus_ram b) root v l) v ty upd l e)"
proof -
  have "csr h CSR_SATP AND SATP_PPN_MASK = drop_bit 12 root" using mmu_okD(2) [OF assms] by (simp add: satp_root_def)
  then show ?thesis
    using walk_levels_spec [OF mmu_okD(1) [OF assms], of v 2 root h ty upd]
    by (simp add: walk_page_table_def pt_walk_def)
qed

lemma translate_hit:
  assumes ok: "mmu_ok (h, b) root" and mode: "effective_privilege_mode ty (h_core h) (csr h CSR_MSTATUS) \<noteq> Machine"
    and v: "is_sv39_canonical v" and hit: "lookup_tlb (h_tlb h) (csr h CSR_SATP) v = Some i"
  shows "translated (h, b) v ty upd root (mmu_translate (h, b) v ty upd)"
proof -
  note o = mmu_okD [OF ok]
  let ?en = "tlb_entries (h_tlb h) i"
  have i: "i < 32" "tlb_match (csr h CSR_SATP) v ?en"
    using hit unfolding lookup_tlb_match by (auto dest: first_index_SomeD)
  obtain l e where w: "pt_walk (bus_ram b) root v = Some (l, e)" and en: "te_pte ?en = e" "te_page_shift ?en = 12 + l * 9"
      "te_pte_addr ?en = leaf_slot (bus_ram b) root v l" "te_ppage_base ?en = leaf_base e"
    using tlb_okD(1) [OF o(3) v i] by (auto simp: entry_agrees_def)
  have rw: "ram_word (leaf_slot (bus_ram b) root v l)" by (rule pt_leaf [OF o(1) w])
  have "set_ad ty e = e \<or> set_ad ty e = set_ad ty e" by simp
  note ch = leaf_changed_touched [OF o(1) w this]
  have wf': "tree_wf (touched (bus_ram b) (leaf_slot (bus_ram b) root v l) e (set_ad ty e)) root"
    using ch by (simp add: leaf_changed_def)
  have tlb': "tlb_ok (touched (bus_ram b) (leaf_slot (bus_ram b) root v l) e (set_ad ty e)) root (csr h CSR_SATP)
      (set_te_pte (h_tlb h) i (set_ad ty e))"
    by (rule tlb_hit_ok [OF o(3,1) v i w ch]) simp
  have same: "b = b\<lparr>bus_ram := bus_ram b\<rparr>" "h = h\<lparr>h_tlb := h_tlb h\<rparr>" by simp_all
  show ?thesis
    unfolding translate_sv39 [OF ok mode] Let_def hit option.case en update_bits [OF rw] prod.case
    using v w o(2) wf' tlb' ok
    by (auto simp: translated_def page_view_def marked_def mmu_ok_def leaf_paddr_def touched_def)
qed

lemma translate_miss:
  assumes ok: "mmu_ok (h, b) root" and mode: "effective_privilege_mode ty (h_core h) (csr h CSR_MSTATUS) \<noteq> Machine"
    and v: "is_sv39_canonical v" and miss: "lookup_tlb (h_tlb h) (csr h CSR_SATP) v = None"
  shows "translated (h, b) v ty upd root (mmu_translate (h, b) v ty upd)"
proof -
  note o = mmu_okD [OF ok]
  have t: "mmu_translate (h, b) v ty upd = walk_page_table (h, b) v ty upd"
    unfolding translate_sv39 [OF ok mode] by (simp add: v miss)
  show ?thesis
  proof (cases "pt_walk (bus_ram b) root v")
    case None
    then show ?thesis using ok v unfolding t walk_page_table_spec [OF ok] by (simp add: translated_def page_view_def)
  next
    case (Some le)
    obtain l e where "le = (l, e)" by fastforce
    then have w: "pt_walk (bus_ram b) root v = Some (l, e)" using Some by simp
    define e' where "e' = (if upd then set_ad ty e else e)"
    have e': "e' = e \<or> e' = set_ad ty e" "leaf_base e' = leaf_base e" by (simp_all add: e'_def)
    obtain t where lf: "l \<le> 2" "bit e 0" "leaf_bits e" "pte_ok l e" by (rule pt_leaf [OF o(1) w])
    note ch = leaf_changed_touched [OF o(1) w e'(1)]
    let ?m = "touched (bus_ram b) (leaf_slot (bus_ram b) root v l) e e'"
    have wf': "tree_wf ?m root" using ch by (simp add: leaf_changed_def)
    have none: "\<And>i. i < 32 \<Longrightarrow> \<not> tlb_match (csr h CSR_SATP) v (tlb_entries (h_tlb h) i)"
      using miss unfolding lookup_tlb_match by (simp add: first_index_None_iff)
    have tlb': "tlb_ok ?m root (csr h CSR_SATP) (fill_tlb (h_tlb h) (csr h CSR_SATP) v (leaf_paddr l e v) e'
        (leaf_slot (bus_ram b) root v l) (12 + l * 9))"
      by (rule tlb_fill_ok [OF o(3,1) v none w ch]) (use leaf_paddr_base [OF lf(4,2,3,1)] e'(2) in simp_all)
    have ram: "(if e' = e then b else b\<lparr>bus_ram := store64 (bus_ram b) (leaf_slot (bus_ram b) root v l) e'\<rparr>) =
        b\<lparr>bus_ram := ?m\<rparr>" by (simp add: touched_def)
    have m: "?m = (if upd then marked (bus_ram b) root ty v else bus_ram b)"
      by (simp add: marked_def w e'_def touched_def)
    show ?thesis
    proof (cases "may_access h ty e")
      case True
      have r: "mmu_translate (h, b) v ty upd = (Inr (leaf_paddr l e v),
          (h\<lparr>h_tlb := fill_tlb (h_tlb h) (csr h CSR_SATP) v (leaf_paddr l e v) e'
              (leaf_slot (bus_ram b) root v l) (12 + l * 9)\<rparr>, b\<lparr>bus_ram := ?m\<rparr>))"
        unfolding t walk_page_table_spec [OF ok] w option.case prod.case leaf_result_def Let_def e'_def [symmetric] ram
        using True by (simp add: may_access_def)
      show ?thesis unfolding r m [symmetric]
        using v w True o(2) wf' tlb' m by (simp add: translated_def page_view_def mmu_ok_def)
    next
      case False
      have r: "mmu_translate (h, b) v ty upd = (Inl (page_fault_cause ty, v), (h, b))"
        unfolding t walk_page_table_spec [OF ok] w option.case prod.case leaf_result_def
        using False by (simp add: may_access_def)
      show ?thesis unfolding r using v w False ok by (simp add: translated_def page_view_def)
    qed
  qed
qed

lemma mmu_translate_spec:
  assumes "mmu_ok (h, b) root" "effective_privilege_mode ty (h_core h) (csr h CSR_MSTATUS) \<noteq> Machine"
  shows "translated (h, b) v ty upd root (mmu_translate (h, b) v ty upd)"
proof (cases "is_sv39_canonical v")
  case True
  then show ?thesis
    using translate_hit [OF assms] translate_miss [OF assms] by (cases "lookup_tlb (h_tlb h) (csr h CSR_SATP) v") auto
next
  case False
  then show ?thesis using assms by (simp add: translate_sv39 [OF assms] translated_def page_view_def)
qed

lemma not_machine_mode:
  "cs_privilege_mode (h_core h) \<noteq> Machine \<Longrightarrow> effective_privilege_mode ty (h_core h) ms \<noteq> Machine"
  by (simp add: effective_privilege_mode_def)

text \<open>Marking a leaf as accessed changes the view of no address.\<close>

lemma page_view_marked:
  assumes wf: "tree_wf m root"
  shows "page_view (marked m root ty' v) root h ty w = page_view m root h ty w"
proof (cases "pt_walk m root v")
  case (Some le)
  then obtain l e where le: "pt_walk m root v = Some (l, e)" by (cases le) auto
  have "set_ad ty' e = e \<or> set_ad ty' e = set_ad ty' e" by simp
  note ch = leaf_changed_touched [OF wf le this]
  have m: "marked m root ty' v = touched m (leaf_slot m root v l) e (set_ad ty' e)" by (simp add: marked_def le)
  have walk: "pt_walk (marked m root ty' v) root w =
      (if vpath w (3 - l) = vpath v (3 - l) then Some (l, set_ad ty' e) else pt_walk m root w)"
    using ch by (simp add: m leaf_changed_def)
  show ?thesis
  proof (cases "vpath w (3 - l) = vpath v (3 - l)")
    case True
    then have "pt_walk m root w = Some (l, e)" using same_leaf(1) [OF wf le] by simp
    then show ?thesis using walk True by (simp add: page_view_def may_access_def leaf_paddr_def)
  next
    case False
    then show ?thesis using walk by (simp add: page_view_def)
  qed
qed (simp add: marked_def)

lemma page_view_tlb [simp]: "page_view m root (h\<lparr>h_tlb := t\<rparr>) ty v = page_view m root h ty v"
  by (simp add: page_view_def may_access_def mstatus_of_def cong: option.case_cong)

text \<open>A sequence of accesses and its results.\<close>

fun translate_run :: "'d mmu \<Rightarrow> (u64 \<times> access_type \<times> bool) list \<Rightarrow> (fault + u64) list \<times> 'd mmu" where
  "translate_run x [] = ([], x)"
| "translate_run x ((v, ty, upd) # as) =
     (case mmu_translate x v ty upd of (r, x1) \<Rightarrow>
      case translate_run x1 as of (rs, x2) \<Rightarrow> (r # rs, x2))"

definition view_result :: "memory \<Rightarrow> u64 \<Rightarrow> hart \<Rightarrow> u64 \<times> access_type \<times> bool \<Rightarrow> fault + u64" where
  "view_result m root h a =
     (case a of (v, ty, upd) \<Rightarrow>
      case page_view m root h ty v of Some paddr \<Rightarrow> Inr paddr | None \<Rightarrow> Inl (page_fault_cause ty, v))"

text \<open>C5: the TLB and the accessed bits are invisible.  On well-formed tables, with a TLB that agrees
  with them and outside machine mode, the results of any sequence of translations, of any access types,
  with or without updates of the accessed bits, are those of uncached walks of the tables as they
  were at the start: the address under the leaf entry that permits the access, and otherwise (no leaf,
  no permission, a non-canonical address) the page fault of the access type at that address.\<close>

theorem translations_ignore_tlb:
  assumes "mmu_ok (h, b) root" "cs_privilege_mode (h_core h) \<noteq> Machine"
  shows "fst (translate_run (h, b) accesses) = map (view_result (bus_ram b) root h) accesses \<and>
         mmu_ok (snd (translate_run (h, b) accesses)) root"
  using assms
proof (induction accesses arbitrary: h b)
  case (Cons a as)
  obtain v ty upd where a: "a = (v, ty, upd)" by (cases a) auto
  obtain r h1 b1 where t: "mmu_translate (h, b) v ty upd = (r, (h1, b1))" by (metis prod.exhaust)
  have tr: "translated (h, b) v ty upd root (r, (h1, b1))"
    using mmu_translate_spec [OF Cons.prems(1) not_machine_mode [OF Cons.prems(2)], of v ty upd] t by simp
  have r: "r = view_result (bus_ram b) root h a"
    using tr by (auto simp: translated_def view_result_def a split: option.splits)
  have h1: "h1 = h\<lparr>h_tlb := h_tlb h1\<rparr>" and ok: "mmu_ok (h1, b1) root" using tr by (simp_all add: translated_def)
  have "bus_ram b1 = bus_ram b \<or> bus_ram b1 = marked (bus_ram b) root ty v"
    using tr by (auto simp: translated_def split: option.splits if_splits)
  then have "page_view (bus_ram b1) root h1 ty' w = page_view (bus_ram b) root h ty' w" for ty' w
    using page_view_marked [OF mmu_okD(1) [OF Cons.prems(1)]] page_view_tlb h1 by metis
  then have view: "view_result (bus_ram b1) root h1 = view_result (bus_ram b) root h"
    by (intro ext) (simp add: view_result_def)
  have "cs_privilege_mode (h_core h1) \<noteq> Machine" using Cons.prems(2) by (subst h1) simp
  from Cons.IH [OF ok this] show ?case using r view by (cases "translate_run (h1, b1) as") (simp add: a t)
qed simp

end
