(* ===== verification/PageMap.thy ===== *)
theory PageMap
  imports PageTree
begin

text \<open>
  What the page-table operations of \<open>vm.c\<close> do to the translation: every successful map or unmap
  changes the walk of exactly one page, every failed one changes none, the tables stay a
  well-formed tree of allocated pages, and no other page of RAM is written.
\<close>

definition pool_in_ram :: "pmm \<Rightarrow> bool" where
  "pool_in_ram p \<longleftrightarrow> managed_page_count p \<noteq> 0 \<longrightarrow>
     unat MEM_BASE \<le> unat (managed_start_ptr p) \<and> unat (managed_end_ptr p) \<le> unat MEM_BASE + unat MEM_SIZE"

definition pool_wf :: "pmm \<Rightarrow> bool" where
  "pool_wf p \<longleftrightarrow> pmm_wf p \<and> pool_in_ram p"

definition vm_wf :: "vm_mem \<Rightarrow> u64 \<Rightarrow> bool" where
  "vm_wf s root \<longleftrightarrow> pool_wf (pool s) \<and> tree_wf (phys s) root \<and>
     pt_tables (phys s) root \<subseteq> allocated_pages (pool s)"

text \<open>The frame of an operation on the address space \<open>root\<close>: tables are only added, each of them a
  page that was free, and the words of all other pages stay.\<close>

definition pt_frame :: "vm_mem \<Rightarrow> u64 \<Rightarrow> vm_mem \<Rightarrow> bool" where
  "pt_frame s root s' \<longleftrightarrow>
     pt_tables (phys s) root \<subseteq> pt_tables (phys s') root \<and>
     allocated_pages (pool s') = allocated_pages (pool s) \<union> pt_tables (phys s') root \<and>
     pt_tables (phys s') root \<inter> allocated_pages (pool s) \<subseteq> pt_tables (phys s) root \<and>
     (\<forall>q i. ram_page q \<longrightarrow> i < 512 \<longrightarrow> q \<notin> pt_tables (phys s') root \<longrightarrow>
        load64 (phys s') (word_slot q i) = load64 (phys s) (word_slot q i))"

lemma pt_frame_refl: "vm_wf s root \<Longrightarrow> pt_frame s root s"
  by (auto simp: pt_frame_def vm_wf_def)

lemma pt_frame_trans:
  assumes "pt_frame s root s1" "pt_frame s1 root s2"
  shows "pt_frame s root s2"
  unfolding pt_frame_def
proof (intro conjI allI impI)
  note d = assms [unfolded pt_frame_def]
  show "pt_tables (phys s) root \<subseteq> pt_tables (phys s2) root" using d by blast
  show "allocated_pages (pool s2) = allocated_pages (pool s) \<union> pt_tables (phys s2) root" using d by blast
  show "pt_tables (phys s2) root \<inter> allocated_pages (pool s) \<subseteq> pt_tables (phys s) root" using d by blast
  fix q i assume "ram_page q" "i < (512::nat)" "q \<notin> pt_tables (phys s2) root"
  moreover from this have "q \<notin> pt_tables (phys s1) root" using d by blast
  ultimately show "load64 (phys s2) (word_slot q i) = load64 (phys s) (word_slot q i)" using d by metis
qed

subsection \<open>Allocating a zeroed page\<close>

lemma allocated_ram_page:
  assumes "pool_wf p" "q \<in> allocated_pages p"
  shows "ram_page q"
proof -
  obtain i where i: "i < managed_page_count p" "q = page_at p i"
    using assms(2) by (auto simp: allocated_pages_def)
  have w: "pmm_wf p" "pool_in_ram p" using assms(1) by (simp_all add: pool_wf_def)
  have "(Suc i) * 4096 \<le> managed_page_count p * 4096" using i(1) by (intro mult_le_mono1) simp
  moreover have "unat (managed_end_ptr p) = unat (managed_start_ptr p) + managed_page_count p * 4096"
      "unat (managed_start_ptr p) mod 4096 = 0"
    using w(1) i(1) by (auto simp: pmm_wf_def)
  moreover have "unat MEM_BASE \<le> unat (managed_start_ptr p)"
      "unat (managed_end_ptr p) \<le> unat MEM_BASE + unat MEM_SIZE"
    using w(2) i(1) by (auto simp: pool_in_ram_def)
  ultimately show ?thesis using page_at_unat [OF w(1) i(1)] i(2)
    by (simp add: ram_page_def mem_in_ram_def)
qed

lemma pool_wf_alloc:
  assumes "pool_wf p" "pmm_alloc_page p = (q, p')"
  shows "pool_wf p'"
  using pmm_alloc_wf [of p q p'] pmm_alloc_cases [of p q p'] assms
  by (auto simp: pool_wf_def pool_in_ram_def)

lemma pool_wf_free:
  assumes "pool_wf p" "pmm_free_page p q = (r, p')"
  shows "pool_wf p'"
proof -
  have "managed_page_count p' = managed_page_count p \<and> managed_start_ptr p' = managed_start_ptr p \<and>
      managed_end_ptr p' = managed_end_ptr p"
    using assms(2) by (auto simp: pmm_free_page_def Let_def split: if_splits option.splits)
  then show ?thesis using pmm_free_wf(1) [of p q r p'] assms by (simp add: pool_wf_def pool_in_ram_def)
qed

lemma alloc_zeroed_page_null:
  assumes "pool_wf (pool s)" "alloc_zeroed_page s = (n, s')"
  shows "n = 0 \<longleftrightarrow> free_page_count (pool s) = 0" "n = 0 \<Longrightarrow> s' = s"
  using assms pmm_alloc_null [of "pool s"]
  by (auto simp: alloc_zeroed_page_def pool_wf_def split: prod.splits if_splits)

lemma alloc_zeroed_page_some:
  assumes "pool_wf (pool s)" "alloc_zeroed_page s = (n, s')" "n \<noteq> 0"
  shows "pool_wf (pool s')" "n \<notin> allocated_pages (pool s)"
    "allocated_pages (pool s') = insert n (allocated_pages (pool s))" "ram_page n"
    "free_page_count (pool s) = Suc (free_page_count (pool s'))"
    "\<And>q i. ram_page q \<Longrightarrow> i < 512 \<Longrightarrow> load64 (phys s') (word_slot q i) =
              (if q = n then 0 else load64 (phys s) (word_slot q i))"
proof -
  obtain p' where a: "pmm_alloc_page (pool s) = (n, p')" and s': "s' = s\<lparr>phys := zero_page (phys s) n, pool := p'\<rparr>"
    using assms(2,3) by (auto simp: alloc_zeroed_page_def split: prod.splits if_splits)
  have w: "pmm_wf (pool s)" using assms(1) by (simp add: pool_wf_def)
  show "pool_wf (pool s')" using pool_wf_alloc [OF assms(1) a] by (simp add: s')
  show "n \<notin> allocated_pages (pool s)" by (rule pmm_alloc_some(1) [OF w a assms(3)])
  show al: "allocated_pages (pool s') = insert n (allocated_pages (pool s))"
    using pmm_alloc_some(2) [OF w a assms(3)] by (simp add: s')
  show r: "ram_page n" using allocated_ram_page [of "pool s'" n] al \<open>pool_wf (pool s')\<close> by simp
  show "free_page_count (pool s) = Suc (free_page_count (pool s'))"
    using pmm_alloc_cases [OF w a] assms(3) by (auto simp: s')
  show "load64 (phys s') (word_slot q i) = (if q = n then 0 else load64 (phys s) (word_slot q i))"
    if "ram_page q" "i < 512" for q i
    using load64_zero_page [OF r that] by (auto simp: s')
qed

subsection \<open>The descent\<close>

lemma vm_wfD:
  assumes "vm_wf s root"
  shows "pool_wf (pool s)" "tree_wf (phys s) root" "pt_tables (phys s) root \<subseteq> allocated_pages (pool s)"
  using assms by (simp_all add: vm_wf_def)

text \<open>Creating a table below an empty entry.\<close>

lemma grow_table:
  assumes wf: "vm_wf s root" and q: "pt_path (q @ [i])" "table_at (phys s) root q = Some t"
    and e: "\<not> bit (load64 (phys s) (word_slot t i)) 0"
    and a: "alloc_zeroed_page s = (n, s1)" "n \<noteq> 0"
    and s2: "s2 = s1\<lparr>phys := store64 (phys s1) (word_slot t i) (pte_from_pa n SV39_PTE_VALID)\<rparr>"
  shows "vm_wf s2 root" "pt_frame s root s2" "pt_walk (phys s2) root v = pt_walk (phys s) root v"
    "pt_path p \<Longrightarrow> table_at (phys s2) root p = (if p = q @ [i] then Some n else table_at (phys s) root p)"
proof -
  note w = vm_wfD [OF wf] and al = alloc_zeroed_page_some [OF vm_wfD(1) [OF wf] a]
  have q': "pt_path q" "i < 512" "length q \<le> 1" using q(1) by (simp_all add: pt_path_snoc)
  have n: "n \<notin> pt_tables (phys s) root" using w(3) al(2) by blast
  have keep: "load64 (phys s1) (word_slot t' j) = load64 (phys s) (word_slot t' j)"
    if "pt_path p" "table_at (phys s) root p = Some t'" "j < 512" for p t' j
    using al(6) [of t' j] tree_wfD(1) [OF w(2) that(1,2)] that n by (auto simp: pt_tables_def)
  have at1: "table_at (phys s1) root p = table_at (phys s) root p" if "pt_path p" for p
    using keep that by (rule table_at_same_words)
  have wf1: "tree_wf (phys s1) root"
    using w(2) keep at1 unfolding tree_wf_def by (metis (no_types, lifting))
  have n1: "n \<notin> pt_tables (phys s1) root" using n at1 by (simp add: pt_tables_def cong: conj_cong)
  have e1: "load64 (phys s1) (word_slot t i) = load64 (phys s) (word_slot t i)"
    by (rule keep [OF q'(1) q(2) q'(2)])
  have t1: "table_at (phys s1) root q = Some t" using at1 [OF q'(1)] q(2) by simp
  have none: "entry_next (load64 (phys s1) (word_slot t i)) = None" using e e1 by (simp add: entry_next_def)
  have z: "load64 (phys s1) (word_slot n j) = 0" if "j < 512" for j using al(6) [OF al(4) that] by simp
  have ins: "pt_path p \<Longrightarrow> table_at (phys s2) root p = (if p = q @ [i] then Some n else table_at (phys s1) root p)"
      "tree_wf (phys s2) root" for p
    using install_table_tree [OF wf1 q(1) t1 none al(4) n1] z by (simp_all add: s2)
  have at2: "table_at (phys s2) root p = (if p = q @ [i] then Some n else table_at (phys s) root p)"
    if "pt_path p" for p using ins(1) [OF that] at1 [OF that] by simp
  have pt2: "pt_tables (phys s2) root = insert n (pt_tables (phys s) root)"
  proof -
    have "table_at (phys s) root (q @ [i]) = None" using none e1 by (simp add: table_at_snoc q next_of_entry)
    then show ?thesis using at2 q(1) unfolding pt_tables_def by (auto split: if_splits) (metis option.distinct(1))
  qed
  show wf2: "vm_wf s2 root"
    using ins(2) al(1,3) pt2 w(3) by (auto simp: vm_wf_def s2)
  show "pt_frame s root s2"
    unfolding pt_frame_def
  proof (intro conjI allI impI)
    show "pt_tables (phys s) root \<subseteq> pt_tables (phys s2) root" using pt2 by blast
    show "allocated_pages (pool s2) = allocated_pages (pool s) \<union> pt_tables (phys s2) root"
      using al(3) pt2 w(3) by (auto simp: s2)
    show "pt_tables (phys s2) root \<inter> allocated_pages (pool s) \<subseteq> pt_tables (phys s) root"
      using al(2) by (auto simp: pt2)
    fix p j assume "ram_page p" "j < (512::nat)" "p \<notin> pt_tables (phys s2) root"
    moreover from this have "p \<noteq> t" "p \<noteq> n" using pt2 q(2) q'(1) by (auto simp: pt_tables_def)
    ultimately show "load64 (phys s2) (word_slot p j) = load64 (phys s) (word_slot p j)"
      using al(6) [of p j] tree_wfD(1) [OF wf1 q'(1) t1] q'(2) by (simp add: s2 load64_store64_slot)
  qed
  show "pt_path p \<Longrightarrow> table_at (phys s2) root p = (if p = q @ [i] then Some n else table_at (phys s) root p)"
    by (rule at2)
  have walk1: "pt_walk (phys s1) root v = pt_walk (phys s) root v" by (rule pt_walk_same_words [OF keep])
  show "pt_walk (phys s2) root v = pt_walk (phys s) root v"
    using install_table_walk [OF wf1 q(1) t1 _ al(4) n1 z] e e1 walk1 by (simp add: s2)
qed

text \<open>One level of the descent, on the entry at path \<open>q @ [i]\<close>.\<close>

lemma next_level_table_spec:
  assumes wf: "vm_wf s root" and q: "pt_path (q @ [i])" "table_at (phys s) root q = Some t"
    and r: "next_level_table s (word_slot t i) create = (r, c, s')"
  defines "e \<equiv> load64 (phys s) (word_slot t i)"
  shows "vm_wf s' root" "pt_frame s root s'" "pt_walk (phys s') root v = pt_walk (phys s) root v"
    "c \<longleftrightarrow> bit e 0 \<and> leaf_bits e"
    "r = Some t' \<Longrightarrow> table_at (phys s') root (q @ [i]) = Some t'"
    "r = None \<Longrightarrow> s' = s \<and> (c \<or> \<not> bit e 0 \<and> (create \<longrightarrow> free_page_count (pool s) = 0))"
    "\<not> create \<Longrightarrow> s' = s"
    "free_page_count (pool s) = free_page_count (pool s') + (if r \<noteq> None \<and> \<not> bit e 0 then 1 else 0)"
    "c \<Longrightarrow> r = None" "bit e 0 \<Longrightarrow> s' = s"
    "pt_path p \<Longrightarrow> p \<noteq> q @ [i] \<Longrightarrow> table_at (phys s') root p = table_at (phys s) root p"
proof -
  let ?P = "vm_wf s' root \<and> pt_frame s root s' \<and> (\<forall>v. pt_walk (phys s') root v = pt_walk (phys s) root v) \<and>
     (c \<longleftrightarrow> bit e 0 \<and> leaf_bits e) \<and> (\<forall>t'. r = Some t' \<longrightarrow> table_at (phys s') root (q @ [i]) = Some t') \<and>
     (r = None \<longrightarrow> s' = s \<and> (c \<or> \<not> bit e 0 \<and> (create \<longrightarrow> free_page_count (pool s) = 0))) \<and>
     (\<not> create \<longrightarrow> s' = s) \<and> (c \<longrightarrow> r = None) \<and> (bit e 0 \<longrightarrow> s' = s) \<and>
     (\<forall>p. pt_path p \<longrightarrow> p \<noteq> q @ [i] \<longrightarrow> table_at (phys s') root p = table_at (phys s) root p) \<and>
     free_page_count (pool s) = free_page_count (pool s') + (if r \<noteq> None \<and> \<not> bit e 0 then 1 else 0)"
  have body: "(r, c, s') = (if \<not> bit e 0 then
        if \<not> create then (None, False, s)
        else let (table, s1) = alloc_zeroed_page s in
          if table = 0 then (None, False, s1)
          else (Some table, False,
                s1\<lparr>phys := store64 (phys s1) (word_slot t i) (pte_from_pa table SV39_PTE_VALID)\<rparr>)
      else if leaf_bits e then (None, True, s) else (Some (table_from_pte e), False, s))"
    using r [symmetric] by (simp only: next_level_table_def e_def pte_valid_iff leaf_bits_iff Let_def not_not)
  have ?P
  proof (cases "bit e 0 \<or> \<not> create")
    case True
    then show ?thesis using body pt_frame_refl [OF wf] wf q(2)
      by (auto simp: table_at_snoc next_of_entry entry_next_def e_def split: if_splits)
  next
    case False
    obtain n s1 where a: "alloc_zeroed_page s = (n, s1)" by fastforce
    show ?thesis
    proof (cases "n = 0")
      case True
      then show ?thesis
        using body False a alloc_zeroed_page_null [OF vm_wfD(1) [OF wf] a] pt_frame_refl [OF wf] wf by auto
    next
      case n: False
      have s': "s' = s1\<lparr>phys := store64 (phys s1) (word_slot t i) (pte_from_pa n SV39_PTE_VALID)\<rparr>"
        and rc: "r = Some n" "c = False" using body False a n by auto
      have "\<not> bit (load64 (phys s) (word_slot t i)) 0" using False by (simp add: e_def)
      note g = grow_table [OF wf q this a n s']
      show ?thesis using g q(1) rc False alloc_zeroed_page_some(5) [OF vm_wfD(1) [OF wf] a n] by (simp add: s')
    qed
  qed
  then show "vm_wf s' root" "pt_frame s root s'" "pt_walk (phys s') root v = pt_walk (phys s) root v"
    "c \<longleftrightarrow> bit e 0 \<and> leaf_bits e"
    "r = Some t' \<Longrightarrow> table_at (phys s') root (q @ [i]) = Some t'"
    "r = None \<Longrightarrow> s' = s \<and> (c \<or> \<not> bit e 0 \<and> (create \<longrightarrow> free_page_count (pool s) = 0))"
    "\<not> create \<Longrightarrow> s' = s"
    "free_page_count (pool s) = free_page_count (pool s') + (if r \<noteq> None \<and> \<not> bit e 0 then 1 else 0)"
    "c \<Longrightarrow> r = None" "bit e 0 \<Longrightarrow> s' = s"
    "pt_path p \<Longrightarrow> p \<noteq> q @ [i] \<Longrightarrow> table_at (phys s') root p = table_at (phys s) root p"
    by blast+
qed

text \<open>The number of tables that a mapping of \<open>v\<close> would have to create.\<close>

definition tables_needed :: "memory \<Rightarrow> u64 \<Rightarrow> u64 \<Rightarrow> nat" where
  "tables_needed m root v =
     (if table_at m root (vpath v 2) \<noteq> None then 0 else if table_at m root (vpath v 1) \<noteq> None then 1 else 2)"

definition lookup_ok :: "vm_mem \<Rightarrow> u64 \<Rightarrow> u64 \<Rightarrow> bool \<Rightarrow> u64 option \<Rightarrow> bool \<Rightarrow> vm_mem \<Rightarrow> bool" where
  "lookup_ok s root v create r c s' \<longleftrightarrow>
     vm_wf s' root \<and> pt_frame s root s' \<and> (\<forall>w. pt_walk (phys s') root w = pt_walk (phys s) root w) \<and>
     (\<not> create \<longrightarrow> s' = s) \<and>
     (case r of
        Some slot \<Rightarrow> \<not> c \<and> (create \<longrightarrow> tables_needed (phys s) root v \<le> free_page_count (pool s)) \<and>
          (\<exists>t. table_at (phys s') root (vpath v 2) = Some t \<and> slot = word_slot t (vpn_index v 0))
      | None \<Rightarrow> if c then \<exists>l e. l \<noteq> 0 \<and> pt_walk (phys s) root v = Some (l, e)
          else pt_walk (phys s) root v = None \<and>
               (create \<longrightarrow> free_page_count (pool s) < tables_needed (phys s) root v))"

lemma walk_leaf_above:
  assumes "table_at m root (vpath v k) = Some t" "k \<le> 2"
    and "bit (load64 m (word_slot t (vpn_index v (2 - k)))) 0" "leaf_bits (load64 m (word_slot t (vpn_index v (2 - k))))"
  shows "pt_walk m root v = Some (2 - k, load64 m (word_slot t (vpn_index v (2 - k))))"
  using assms by (simp add: pt_walk_reach [OF assms(2,1)] walk_from_eq [of _ t] Let_def)

lemma walk_empty_above:
  assumes "table_at m root (vpath v k) = Some t" "k \<le> 2"
    and "\<not> bit (load64 m (word_slot t (vpn_index v (2 - k)))) 0"
  shows "pt_walk m root v = None"
  using assms by (simp add: pt_walk_reach [OF assms(2,1)] walk_from_eq [of _ t])

lemma lookup_level0_slot_spec:
  assumes wf: "vm_wf s root" and r: "lookup_level0_slot s root v create = (r, c, s')"
  shows "lookup_ok s root v create r c s'"
proof -
  have "ram_page root" by (rule tree_wf_root [OF vm_wfD(2) [OF wf]])
  then have "root \<noteq> 0" by (auto simp: ram_page_def mem_in_ram_def)
  obtain r1 c1 s1 where n1: "next_level_table s (word_slot root (vpn_index v 2)) create = (r1, c1, s1)"
    using prod_cases3 by blast
  define e1 where "e1 = load64 (phys s) (word_slot root (vpn_index v 2))"
  have p1: "vpath v 1 = [] @ [vpn_index v 2]" "vpath v 2 = vpath v 1 @ [vpn_index v 1]"
    using vpath_Suc [of 0 v] vpath_Suc [of 1 v] by (simp_all add: numeral_2_eq_2)
  have pp: "pt_path ([] @ [vpn_index v 2])" "pt_path (vpath v 1 @ [vpn_index v 1])"
    unfolding p1 [symmetric] by (rule pt_path_vpath, simp)+
  note l1 = next_level_table_spec [OF wf pp(1) table_at.simps(1) n1, folded e1_def p1(1)]
  have at1: "table_at (phys s) root (vpath v 1) = entry_next e1"
    unfolding p1(1) by (simp add: next_of_entry e1_def split: option.split)
  show ?thesis
  proof (cases r1)
    case None
    have rcs: "r = None" "c = c1" "s' = s" using r n1 None l1(6) \<open>root \<noteq> 0\<close> by (auto simp: lookup_level0_slot_def)
    have "\<exists>l e. l \<noteq> 0 \<and> pt_walk (phys s) root v = Some (l, e)" if c1
      using that l1(4) walk_leaf_above [of "phys s" root v 0 root] by (auto simp: e1_def)
    moreover have "pt_walk (phys s) root v = None \<and> (create \<longrightarrow> free_page_count (pool s) < tables_needed (phys s) root v)"
      if "\<not> c1"
    proof -
      have nb: "\<not> bit e1 0" "create \<longrightarrow> free_page_count (pool s) = 0" using l1(6) None that by auto
      have "entry_next e1 = None" using nb by (simp add: entry_next_def)
      then have "tables_needed (phys s) root v = 2"
        using at1 by (simp add: tables_needed_def p1(2) table_at_snoc)
      then show ?thesis using nb walk_empty_above [of "phys s" root v 0 root] by (auto simp: e1_def)
    qed
    ultimately show ?thesis using rcs wf pt_frame_refl [OF wf] by (auto simp: lookup_ok_def)
  next
    case (Some t1)
    obtain r2 c2 s2 where n2: "next_level_table s1 (word_slot t1 (vpn_index v 1)) create = (r2, c2, s2)"
      using prod_cases3 by blast
    define e2 where "e2 = load64 (phys s1) (word_slot t1 (vpn_index v 1))"
    have t1: "table_at (phys s1) root (vpath v 1) = Some t1" by (rule l1(5) [OF Some])
    note l2 = next_level_table_spec [OF l1(1) pp(2) t1 n2, folded e2_def p1(2)]
    have p2: "pt_path (vpath v 2)" "vpath v 2 \<noteq> vpath v 1"
      by simp (unfold p1(2), simp)
    have at2: "table_at (phys s) root (vpath v 2) = table_at (phys s1) root (vpath v 2)"
      using l1(11) [OF p2] by simp
    have at2': "table_at (phys s1) root (vpath v 2) = entry_next e2"
      by (simp add: p1(2) table_at_snoc t1 next_of_entry e2_def del: One_nat_def)
    have need: "tables_needed (phys s) root v =
        (if entry_next e2 \<noteq> None then 0 else if entry_next e1 \<noteq> None then 1 else 2)"
      using at1 at2 at2' by (simp add: tables_needed_def)
    have c1: "\<not> c1" using l1(9) Some by auto
    have walk: "pt_walk (phys s1) root v = pt_walk (phys s) root v" by (rule l1(3))
    show ?thesis
    proof (cases r2)
      case None
      have rcs: "r = None" "c = c2" "s' = s1" using r n1 n2 Some None l2(6) \<open>root \<noteq> 0\<close>
        by (auto simp: lookup_level0_slot_def)
      have "\<exists>l e. l \<noteq> 0 \<and> pt_walk (phys s) root v = Some (l, e)" if c2
        using that l2(4) walk_leaf_above [OF t1] walk by (auto simp: e2_def)
      moreover have "pt_walk (phys s) root v = None \<and>
          (create \<longrightarrow> free_page_count (pool s) < tables_needed (phys s) root v)" if "\<not> c2"
      proof -
        have nb: "\<not> bit e2 0" "create \<longrightarrow> free_page_count (pool s1) = 0" using l2(6) None that by auto
        have "pt_walk (phys s) root v = None" using walk_empty_above [OF t1] nb(1) walk by (simp add: e2_def)
        then show ?thesis using nb l1(8) Some by (auto simp: need entry_next_def)
      qed
      ultimately show ?thesis using rcs l1(1,2,3,7) by (auto simp: lookup_ok_def)
    next
      case t0: (Some t0)
      have rcs: "r = Some (word_slot t0 (vpn_index v 0))" "\<not> c" "s' = s2"
        using r n1 n2 Some t0 \<open>root \<noteq> 0\<close> by (auto simp: lookup_level0_slot_def)
      have c2: "\<not> c2" using l2(9) t0 by auto
      have "tables_needed (phys s) root v \<le> free_page_count (pool s)"
        using l1(4,8) l2(4,8) c1 c2 Some t0 by (auto simp: need entry_next_def)
      then show ?thesis
        using rcs l2(1,3,5,7) l1(3,7) t0 pt_frame_trans [OF l1(2) l2(2)] by (auto simp: lookup_ok_def)
    qed
  qed
qed

subsection \<open>Leaf entries\<close>

definition same_page :: "u64 \<Rightarrow> u64 \<Rightarrow> bool" where
  "same_page v w \<longleftrightarrow> vpath v 3 = vpath w 3"

lemma same_page_sym: "same_page v w \<longleftrightarrow> same_page w v"
  by (auto simp: same_page_def)

lemma through_leaf: "through w (vpath v 2 @ [vpn_index v 0]) \<longleftrightarrow> same_page w v"
proof -
  have "vpath v 3 = vpath v 2 @ [vpn_index v 0]" using vpath_Suc [of 2 v] by (simp add: numeral_3_eq_3)
  then show ?thesis by (simp add: through_def same_page_def numeral_3_eq_3)
qed

lemma walk_level0:
  assumes "vm_wf s root" "table_at (phys s) root (vpath v 2) = Some t"
  defines "e \<equiv> load64 (phys s) (word_slot t (vpn_index v 0))"
  shows "pt_walk (phys s) root v = (if bit e 0 then Some (0, e) else None)" "entry_next e = None"
proof -
  have "pte_ok 0 e" using tree_wfD(2) [OF vm_wfD(2) [OF assms(1)] pt_path_vpath assms(2)] by (simp add: e_def)
  then have l: "bit e 0 \<Longrightarrow> leaf_bits e" by (auto simp: pte_ok_def split: if_splits)
  then show "entry_next e = None" by (auto simp: entry_next_def)
  show "pt_walk (phys s) root v = (if bit e 0 then Some (0, e) else None)"
    using pt_walk_reach [of 2 "phys s" root v t] assms(2) l by (simp add: walk_from_eq [of _ t] e_def Let_def)
qed

lemma leaf_store:
  assumes wf: "vm_wf s root" and t: "table_at (phys s) root (vpath v 2) = Some t" and e: "pte_ok 0 e"
  defines "s' \<equiv> s\<lparr>phys := store64 (phys s) (word_slot t (vpn_index v 0)) e\<rparr>"
  shows "vm_wf s' root" "pt_frame s root s'"
    "pt_walk (phys s') root w =
       (if same_page w v then if bit e 0 then Some (0, e) else None else pt_walk (phys s) root w)"
proof -
  note w = vm_wfD [OF wf]
  have p: "pt_path (vpath v 2)" by simp
  have l: "bit e 0 \<Longrightarrow> leaf_bits e" using e by (auto simp: pte_ok_def split: if_splits)
  then have "entry_next e = None" by (auto simp: entry_next_def)
  note st = store_entry_tree [OF w(2) p t vpn_less walk_level0(2) [OF wf t] this]
  have tabs: "pt_tables (phys s') root = pt_tables (phys s) root"
    using st(1) by (simp add: pt_tables_def s'_def cong: conj_cong)
  show wf': "vm_wf s' root" using st(2) e w tabs by (simp add: vm_wf_def s'_def)
  have "t \<in> pt_tables (phys s) root" unfolding pt_tables_def using t p by blast
  then have "load64 (phys s') (word_slot q i) = load64 (phys s) (word_slot q i)"
    if "ram_page q" "i < 512" "q \<notin> pt_tables (phys s') root" for q i
    using that tabs tree_wfD(1) [OF w(2) p t] by (auto simp: s'_def load64_store64_slot)
  then show "pt_frame s root s'" using tabs w(3) by (auto simp: pt_frame_def s'_def)
  show "pt_walk (phys s') root w =
      (if same_page w v then if bit e 0 then Some (0, e) else None else pt_walk (phys s) root w)"
    using pt_walk_store_hit [OF w(2) p t vpn_less, of w v 0 e] l
      pt_walk_store_other [OF w(2) p t vpn_less, of w v 0 e]
    by (auto simp: through_leaf s'_def)
qed

text \<open>The entry that a mapping writes.\<close>

definition leaf_pte :: "u64 \<Rightarrow> u64 \<Rightarrow> u64" where
  "leaf_pte paddr flags = pte_from_pa paddr (SV39_PTE_VALID OR flags)"

lemma bit_leaf_pte: "bit (leaf_pte p f) n \<longleftrightarrow> n = 0 \<or> bit f n \<or> (10 \<le> n \<and> n < 54 \<and> bit p (n + 2))"
  by (simp add: leaf_pte_def bit_pte bit_or_iff)

lemma leaf_pte_ok:
  assumes "flags_valid f"
  shows "pte_ok 0 (leaf_pte p f)" "leaf_bits (leaf_pte p f)"
proof -
  have f: "\<And>n. bit f n \<Longrightarrow> n \<in> {1, 2, 3, 4}" "leaf_bits f" "bit f 2 \<longrightarrow> bit f 1"
    using assms by (simp_all add: flags_valid_iff)
  have "n < 54" if "bit (leaf_pte p f) n" for n
    using that f(1) [of n] by (auto simp: bit_leaf_pte)
  moreover show l: "leaf_bits (leaf_pte p f)"
    using f(2) by (auto simp: leaf_bits_def bit_leaf_pte)
  ultimately show "pte_ok 0 (leaf_pte p f)"
    using f(3) by (auto simp: pte_ok_def bit_leaf_pte)
qed

subsection \<open>The operations\<close>

definition page_aligned :: "u64 \<Rightarrow> bool" where
  "page_aligned v \<longleftrightarrow> v AND (MEMORY_PAGE_SIZE - 1) = 0"

text \<open>When a mapping can be made, and what it makes.\<close>

definition mappable :: "vm_mem \<Rightarrow> u64 \<Rightarrow> u64 \<Rightarrow> u64 \<Rightarrow> u64 \<Rightarrow> bool" where
  "mappable s root vaddr paddr flags \<longleftrightarrow>
     mapped_range_args_valid vaddr paddr MEMORY_PAGE_SIZE \<and> flags_valid flags \<and>
     pt_walk (phys s) root vaddr = None \<and>
     tables_needed (phys s) root vaddr \<le> free_page_count (pool s)"

definition walk_upd :: "(u64 \<Rightarrow> (nat \<times> u64) option) \<Rightarrow> u64 \<Rightarrow> (nat \<times> u64) option \<Rightarrow> u64 \<Rightarrow> (nat \<times> u64) option" where
  "walk_upd f v x = (\<lambda>w. if same_page w v then x else f w)"

lemma map_page_internal_spec:
  assumes wf: "vm_wf s root" and r: "map_page_internal s root v p f = (ok, s')"
  shows "vm_wf s' root" "pt_frame s root s'" "ok \<longleftrightarrow> mappable s root v p f"
    "pt_walk (phys s') root = (if ok then walk_upd (pt_walk (phys s) root) v (Some (0, leaf_pte p f))
                               else pt_walk (phys s) root)"
proof -
  have all: "vm_wf s' root \<and> pt_frame s root s' \<and> (ok \<longleftrightarrow> mappable s root v p f) \<and>
    pt_walk (phys s') root = (if ok then walk_upd (pt_walk (phys s) root) v (Some (0, leaf_pte p f))
                               else pt_walk (phys s) root)"
  proof (cases "mapped_range_args_valid v p MEMORY_PAGE_SIZE \<and> flags_valid f")
    case False
    then have "ok = False" "s' = s" using r by (auto simp: map_page_internal_def)
    then show ?thesis using False wf pt_frame_refl [OF wf] by (simp add: mappable_def) blast
  next
    case args: True
    obtain sl c s1 where l: "lookup_level0_slot s root v True = (sl, c, s1)" using prod_cases3 by blast
    have lo: "lookup_ok s root v True sl c s1" by (rule lookup_level0_slot_spec [OF wf l])
    have w1: "pt_walk (phys s1) root = pt_walk (phys s) root" using lo by (auto simp: lookup_ok_def)
    show ?thesis
    proof (cases sl)
      case None
      then have "ok = False" "s' = s1" using r args l by (auto simp: map_page_internal_def)
      then show ?thesis using None lo w1 by (auto simp: lookup_ok_def mappable_def split: if_splits)
    next
      case (Some slot)
      then obtain t where t: "table_at (phys s1) root (vpath v 2) = Some t" "slot = word_slot t (vpn_index v 0)"
        and need: "tables_needed (phys s) root v \<le> free_page_count (pool s)" and c: "\<not> c"
        using lo by (auto simp: lookup_ok_def)
      have wf1: "vm_wf s1 root" and fr1: "pt_frame s root s1" using lo by (auto simp: lookup_ok_def)
      note w0 = walk_level0(1) [OF wf1 t(1)]
      show ?thesis
      proof (cases "bit (load64 (phys s1) slot) 0")
        case True
        then have "ok = False" "s' = s1" using r args l Some c by (auto simp: map_page_internal_def pte_valid_iff)
        then show ?thesis using True w0 w1 wf1 fr1 t by (auto simp: mappable_def)
      next
        case False
        then have r': "ok = True" "s' = s1\<lparr>phys := store64 (phys s1) slot (leaf_pte p f)\<rparr>"
          using r args l Some c by (auto simp: map_page_internal_def pte_valid_iff leaf_pte_def)
        note st = leaf_store [OF wf1 t(1) leaf_pte_ok(1), of f p, folded t(2) r'(2)]
        have "pt_walk (phys s') root = walk_upd (pt_walk (phys s) root) v (Some (0, leaf_pte p f))"
          using st(3) args w1 by (intro ext) (simp add: walk_upd_def bit_leaf_pte r'(2))
        then show ?thesis
          using r'(1) st(1,2) args need False w0 w1 t(2) pt_frame_trans [OF fr1]
          by (simp add: mappable_def r'(2))
      qed
    qed
  qed
  then show "vm_wf s' root" "pt_frame s root s'" "ok \<longleftrightarrow> mappable s root v p f"
    "pt_walk (phys s') root = (if ok then walk_upd (pt_walk (phys s) root) v (Some (0, leaf_pte p f))
                               else pt_walk (phys s) root)" by blast+
qed

lemma can_map_page_spec:
  assumes wf: "vm_wf s root"
  shows "can_map_page s root v \<longleftrightarrow> pt_walk (phys s) root v = None"
proof -
  obtain sl c s1 where l: "lookup_level0_slot s root v False = (sl, c, s1)" using prod_cases3 by blast
  have lo: "lookup_ok s root v False sl c s1" by (rule lookup_level0_slot_spec [OF wf l])
  then have "s1 = s" by (simp add: lookup_ok_def)
  then show ?thesis using lo walk_level0(1) [OF wf, of v]
    by (auto simp: can_map_page_def l lookup_ok_def pte_valid_iff split: option.splits if_splits)
qed

lemma unmap_page_internal_spec:
  assumes wf: "vm_wf s root" and r: "unmap_page_internal s root v = (ok, s')"
  shows "vm_wf s' root" "pt_frame s root s'" "pool s' = pool s"
    "ok \<longleftrightarrow> page_aligned v \<and> (\<exists>e. pt_walk (phys s) root v = Some (0, e))"
    "pt_walk (phys s') root = (if ok then walk_upd (pt_walk (phys s) root) v None else pt_walk (phys s) root)"
proof -
  have "ram_page root" by (rule tree_wf_root [OF vm_wfD(2) [OF wf]])
  then have "root \<noteq> 0" by (auto simp: ram_page_def mem_in_ram_def)
  obtain sl c s1 where l: "lookup_level0_slot s root v False = (sl, c, s1)" using prod_cases3 by blast
  have lo: "lookup_ok s root v False sl c s1" by (rule lookup_level0_slot_spec [OF wf l])
  then have s1: "s1 = s" by (simp add: lookup_ok_def)
  have all: "vm_wf s' root \<and> pt_frame s root s' \<and> pool s' = pool s \<and>
    (ok \<longleftrightarrow> page_aligned v \<and> (\<exists>e. pt_walk (phys s) root v = Some (0, e))) \<and>
    pt_walk (phys s') root = (if ok then walk_upd (pt_walk (phys s) root) v None else pt_walk (phys s) root)"
  proof (cases "page_aligned v \<and> (\<exists>e. pt_walk (phys s) root v = Some (0, e))")
    case True
    then obtain t where sl: "sl = Some (word_slot t (vpn_index v 0))" and c: "\<not> c"
      and t: "table_at (phys s) root (vpath v 2) = Some t"
      using lo s1 by (auto simp: lookup_ok_def split: option.splits if_splits)
    then have b: "bit (load64 (phys s) (word_slot t (vpn_index v 0))) 0"
      using True walk_level0(1) [OF wf t] by (auto split: if_splits)
    then have r': "ok = True" "s' = s\<lparr>phys := store64 (phys s) (word_slot t (vpn_index v 0)) 0\<rparr>"
      using r True l sl c s1 \<open>root \<noteq> 0\<close> by (auto simp: unmap_page_internal_def pte_valid_iff page_aligned_def)
    note st = leaf_store [OF wf t pte_ok_0, folded r'(2)]
    then have "pt_walk (phys s') root = walk_upd (pt_walk (phys s) root) v None"
      by (intro ext) (simp add: walk_upd_def r'(2))
    then show ?thesis using st True r' by simp
  next
    case False
    have "\<not> (page_aligned v \<and> (\<exists>t. sl = Some (word_slot t (vpn_index v 0)) \<and>
        table_at (phys s) root (vpath v 2) = Some t \<and> bit (load64 (phys s) (word_slot t (vpn_index v 0))) 0))"
      using False walk_level0(1) [OF wf] by auto
    then have "ok = False" "s' = s"
      using r l lo s1 by (auto simp: unmap_page_internal_def pte_valid_iff page_aligned_def lookup_ok_def
          split: option.splits if_splits)
    then show ?thesis using False wf pt_frame_refl [OF wf] by simp
  qed
  then show "vm_wf s' root" "pt_frame s root s'" "pool s' = pool s"
    "ok \<longleftrightarrow> page_aligned v \<and> (\<exists>e. pt_walk (phys s) root v = Some (0, e))"
    "pt_walk (phys s') root = (if ok then walk_upd (pt_walk (phys s) root) v None else pt_walk (phys s) root)"
    by blast+
qed

subsection \<open>A fresh root table\<close>

lemma fresh_root:
  assumes "pool_wf (pool s)" "alloc_zeroed_page s = (root, s1)" "root \<noteq> 0"
  shows "vm_wf s1 root" "pt_walk (phys s1) root = (\<lambda>_. None)" "pt_tables (phys s1) root = {root}"
proof -
  note al = alloc_zeroed_page_some [OF assms]
  have z: "load64 (phys s1) (word_slot root i) = 0" if "i < 512" for i using al(6) [OF al(4) that] by simp
  have at: "table_at (phys s1) root p = (if p = [] then Some root else None)" if "pt_path p" for p
    using that z by (cases p) (simp_all add: next_of_entry pt_path_def)
  show t: "pt_tables (phys s1) root = {root}"
    using at by (auto simp: pt_tables_def split: if_splits intro: exI [of _ "[]"])
  have "tree_wf (phys s1) root"
    using at al(4) z by (auto simp: tree_wf_def split: if_splits)
  then show "vm_wf s1 root" using al(1,3) t by (simp add: vm_wf_def)
  show "pt_walk (phys s1) root = (\<lambda>_. None)"
    using z by (intro ext) (simp add: pt_walk_def walk_from_eq)
qed

text \<open>C7: the Sv39 tables are a faithful implementation of a partial map from pages to leaf entries.
  \<open>map_page_internal\<close> succeeds exactly when its arguments are aligned and its flags legal, the page is
  unmapped (no superpage covers it) and enough pages are free for the missing tables, and then adds
  exactly that page; \<open>unmap_page_internal\<close> removes exactly that page; \<open>can_map_page\<close> tells whether it is
  unmapped.  Failures change no translation, even when a table was created on the way, and every
  operation writes only to tables of this address space, old ones or pages that were free.\<close>

theorem page_table_refines_map:
  assumes wf: "vm_wf s root"
  shows "(case map_page_internal s root v p f of (ok, s') \<Rightarrow>
            vm_wf s' root \<and> pt_frame s root s' \<and> ok = mappable s root v p f \<and>
            pt_walk (phys s') root = (if ok then walk_upd (pt_walk (phys s) root) v (Some (0, leaf_pte p f))
                                      else pt_walk (phys s) root)) \<and>
         (case unmap_page_internal s root v of (ok, s') \<Rightarrow>
            vm_wf s' root \<and> pt_frame s root s' \<and> pool s' = pool s \<and>
            ok = (page_aligned v \<and> (\<exists>e. pt_walk (phys s) root v = Some (0, e))) \<and>
            pt_walk (phys s') root = (if ok then walk_upd (pt_walk (phys s) root) v None
                                      else pt_walk (phys s) root)) \<and>
         can_map_page s root v = (pt_walk (phys s) root v = None)"
proof (intro conjI)
  obtain ok s' where m: "map_page_internal s root v p f = (ok, s')" by fastforce
  show "case map_page_internal s root v p f of (ok, s') \<Rightarrow>
            vm_wf s' root \<and> pt_frame s root s' \<and> ok = mappable s root v p f \<and>
            pt_walk (phys s') root = (if ok then walk_upd (pt_walk (phys s) root) v (Some (0, leaf_pte p f))
                                      else pt_walk (phys s) root)"
    using map_page_internal_spec [OF wf m] by (simp add: m)
  obtain ok s' where u: "unmap_page_internal s root v = (ok, s')" by fastforce
  show "case unmap_page_internal s root v of (ok, s') \<Rightarrow>
            vm_wf s' root \<and> pt_frame s root s' \<and> pool s' = pool s \<and>
            ok = (page_aligned v \<and> (\<exists>e. pt_walk (phys s) root v = Some (0, e))) \<and>
            pt_walk (phys s') root = (if ok then walk_upd (pt_walk (phys s) root) v None
                                      else pt_walk (phys s) root)"
    using unmap_page_internal_spec [OF wf u] by (simp add: u)
qed (rule can_map_page_spec [OF wf])

text \<open>A sample: eight free pages and a first page mapped into a new address space.\<close>

definition sample_pool :: pmm where
  "sample_pool = \<lparr>page_bitmap = Some (\<lambda>_. 0), managed_start_ptr = 0x80400000,
     managed_end_ptr = 0x80408000, managed_page_count = 8, free_page_count = 8, next_search_index = 0\<rparr>"

definition sample_mem :: vm_mem where
  "sample_mem = \<lparr>phys = \<lparr>mem_data = \<lambda>_. 0\<rparr>, pool = sample_pool\<rparr>"

lemma sample_pool_wf: "pool_wf (pool sample_mem)"
proof -
  have "{i. i < managed_page_count sample_pool \<and> \<not> used_index sample_pool i} = {..<8}"
    by (auto simp: sample_pool_def used_index_def page_bit_is_set_def)
  then have "pmm_wf sample_pool" by (simp add: pmm_wf_def) (simp add: sample_pool_def)
  then show ?thesis by (simp add: pool_wf_def pool_in_ram_def sample_mem_def) (simp add: sample_pool_def)
qed

lemma sample_root:
  obtains root s1 where "alloc_zeroed_page sample_mem = (root, s1)" "root \<noteq> 0" "vm_wf s1 root"
    "pt_walk (phys s1) root = (\<lambda>_. None)" "free_page_count (pool s1) = 7"
proof -
  obtain root s1 where a: "alloc_zeroed_page sample_mem = (root, s1)" by fastforce
  have "free_page_count (pool sample_mem) = 8" by (simp add: sample_mem_def sample_pool_def)
  then have "root \<noteq> 0" using alloc_zeroed_page_null(1) [OF sample_pool_wf a] by simp
  then show ?thesis
    using that [OF a] fresh_root [OF sample_pool_wf a] alloc_zeroed_page_some(5) [OF sample_pool_wf a]
      \<open>free_page_count (pool sample_mem) = 8\<close> by simp
qed

lemma sample_args:
  "mapped_range_args_valid 0x1000 0x80500000 MEMORY_PAGE_SIZE" "flags_valid (VM_PAGE_READ OR VM_PAGE_USER)"
  by (simp_all add: mapped_range_args_valid_def page_span_args_valid_def range_overflows_def MEMORY_PAGE_SIZE_def
      flags_valid_def SV39_PTE_FLAG_MASK_def SV39_PTE_LEAF_MASK_def VM_PAGE_READ_def VM_PAGE_WRITE_def
      VM_PAGE_EXEC_def VM_PAGE_USER_def)

theorem page_table_refines_map_witness:
  "\<exists>s root s'. map_page_internal s root 0x1000 0x80500000 (VM_PAGE_READ OR VM_PAGE_USER) = (True, s') \<and>
     pt_walk (phys s') root 0x1000 = Some (0, leaf_pte 0x80500000 (VM_PAGE_READ OR VM_PAGE_USER))"
proof -
  obtain root s1 where "vm_wf s1 root" "pt_walk (phys s1) root = (\<lambda>_. None)" "free_page_count (pool s1) = 7"
    by (rule sample_root)
  moreover have "tables_needed (phys s1) root 0x1000 \<le> 7" by (simp add: tables_needed_def)
  ultimately have "mappable s1 root 0x1000 0x80500000 (VM_PAGE_READ OR VM_PAGE_USER)"
    using sample_args by (simp add: mappable_def)
  then show ?thesis
    using page_table_refines_map [OF \<open>vm_wf s1 root\<close>, of "0x1000" "0x80500000" "VM_PAGE_READ OR VM_PAGE_USER"]
    by (intro exI [of _ s1] exI [of _ root]
        exI [of _ "snd (map_page_internal s1 root 0x1000 0x80500000 (VM_PAGE_READ OR VM_PAGE_USER))"])
      (auto simp: walk_upd_def same_page_def split: prod.splits)
qed

end
