(* ===== verification/MmuMap.thy ===== *)
theory MmuMap
  imports MmuTlb PageMap
begin

text \<open>
  The kernel's page tables and the machine's translation together: once \<open>satp\<close> holds the root of
  an address space, the machine translates exactly the pages that \<open>map_page_internal\<close> mapped and
  \<open>unmap_page_internal\<close> did not remove, to the frames and with the permissions given.
\<close>

subsection \<open>Activating an address space\<close>

text \<open>Writing the root of well-formed tables to \<open>satp\<close> flushes the TLB, so it agrees with them.\<close>

definition satp_value :: "u64 \<Rightarrow> u64" where
  "satp_value root = push_bit 60 SATP_MODE_SV39 OR (drop_bit 12 root AND SV39_PPN_MASK)"

lemma satp_mode_bits: "push_bit 60 SATP_MODE_SV39 = (push_bit 63 1 :: u64)"
  by (simp add: SATP_MODE_SV39_def)

lemma satp_masks: "SATP_PPN_MASK = mask 44" "SATP_MODE_MASK = push_bit 60 (mask 4)"
  by (simp_all add: SATP_PPN_MASK_def SATP_MODE_MASK_def mask_eq_exp_minus_1)

lemma bit_satp_value: "bit (satp_value root) n \<longleftrightarrow> n = 63 \<or> n < 44 \<and> bit root (12 + n)"
  unfolding satp_value_def satp_mode_bits ppn_mask
  by (simp only: bit_or_iff bit_and_iff bit_mask_iff bit_drop_bit_eq bit_one_bit comp_def) auto

lemma ram_page_low: "ram_page p \<Longrightarrow> bit p n \<Longrightarrow> n < 32"
  by (rule low_bits [of p]) (simp_all add: ram_page_def mem_in_ram_def)

lemma satp_root_value:
  assumes "ram_page root"
  shows "satp_root (satp_value root) root"
proof -
  have "drop_bit 60 (satp_value root AND SATP_MODE_MASK) = SATP_MODE_SV39"
  proof (rule bit_word_eqI)
    fix n :: nat assume n: "n < LENGTH(64)"
    have "bit (8 :: u64) n \<longleftrightarrow> n = 3"
      using bit_pow2 [of 3 n] by simp
    then show "bit (drop_bit 60 (satp_value root AND SATP_MODE_MASK)) n = bit SATP_MODE_SV39 n"
      unfolding satp_masks using n
      by (simp add: SATP_MODE_SV39_def bit_drop_bit_eq bit_and_iff bit_satp_value bit_push_bit_iff bit_mask_iff) auto
  qed
  moreover have "satp_value root AND SATP_PPN_MASK = drop_bit 12 root"
    unfolding satp_masks
    by (rule bit_word_eqI) (auto simp: bit_and_iff bit_mask_iff bit_satp_value bit_drop_bit_eq dest: ram_page_low [OF assms])
  ultimately show ?thesis by (simp add: satp_root_def)
qed

lemma satp_write:
  assumes "h_as_bound h" "ram_page root"
  defines "h' \<equiv> csr_write h CSR_SATP (satp_value root)"
  shows "csr h' CSR_SATP = satp_value root" "\<And>i. i < 32 \<Longrightarrow> \<not> te_valid (tlb_entries (h_tlb h') i)"
    "next_tlb_victim (h_tlb h') = 0" "h_core h' = h_core h" "mstatus_of h' = mstatus_of h"
proof -
  have mode: "drop_bit 60 (satp_value root AND SATP_MODE_MASK) = SATP_MODE_SV39"
    using satp_root_value [OF assms(2)] by (simp add: satp_root_def)
  have val: "push_bit 60 SATP_MODE_SV39 OR (satp_value root AND SATP_PPN_MASK) = satp_value root"
    unfolding satp_masks satp_mode_bits
  proof (rule bit_word_eqI)
    fix n :: nat
    show "bit (push_bit 63 1 OR (satp_value root AND mask 44)) n = bit (satp_value root) n"
      by (simp only: bit_or_iff bit_and_iff bit_mask_iff bit_one_bit bit_satp_value) auto
  qed
  have "csr_write h CSR_SATP v = (let mode = drop_bit 60 (v AND SATP_MODE_MASK);
             h1 = set_reg h CSR_SATP (if mode = SATP_MODE_SV39
                                      then push_bit 60 SATP_MODE_SV39 OR (v AND SATP_PPN_MASK) else 0)
         in if h_as_bound h1 then h1\<lparr>h_tlb := flush_tlb (h_tlb h1)\<rparr> else h1)" for v
    by (simp add: csr_write_def csr_write_reg_def csr_addrs is_mhpmcounter_def)
  from this [of "satp_value root"]
  have "h' = (set_reg h CSR_SATP (satp_value root))\<lparr>h_tlb := flush_tlb (h_tlb h)\<rparr>"
    using assms(1) unfolding h'_def Let_def mode val by (simp add: set_reg_def)
  then show "csr h' CSR_SATP = satp_value root" "\<And>i. i < 32 \<Longrightarrow> \<not> te_valid (tlb_entries (h_tlb h') i)"
    "next_tlb_victim (h_tlb h') = 0" "h_core h' = h_core h" "mstatus_of h' = mstatus_of h"
    by (simp_all add: csr_read_simps flush_tlb_def set_reg_def mstatus_of_def)
qed

lemma mmu_ok_switch:
  assumes "h_as_bound h" "tree_wf (bus_ram b) root"
  shows "mmu_ok (csr_write h CSR_SATP (satp_value root), b) root"
proof -
  have rp: "ram_page root" by (rule tree_wf_root [OF assms(2)])
  show ?thesis
    using satp_write [OF assms(1) rp] satp_root_value [OF rp] assms(2)
    by (simp add: mmu_ok_def tlb_ok_def tlb_match_def)
qed

subsection \<open>Mapped pages\<close>

lemma page_offset:
  assumes "page_aligned v" "unat k < 4096"
  shows "v + k = v OR k" "\<And>n. bit (v + k) n \<longleftrightarrow> (if n < 12 then bit k n else bit v n)"
    "(v + k) AND mask 12 = k"
proof -
  have "MEMORY_PAGE_SIZE - 1 = mask 12" by (simp add: MEMORY_PAGE_SIZE_def mask_eq_exp_minus_1)
  then have z: "v AND mask 12 = 0" using assms(1) by (simp add: page_aligned_def)
  have v: "\<not> n < 12" if "bit v n" for n
  proof
    assume "n < 12"
    then have "bit (v AND mask 12) n" using that bit_imp_le_length [OF that] by (simp add: bit_and_iff bit_mask_iff)
    then show False using z by simp
  qed
  have k: "bit k n \<Longrightarrow> n < 12" for n using low_bits [of k 12 n] assms(2) by simp
  have "v AND k = 0" by (rule bit_word_eqI) (auto simp: bit_and_iff dest: v k)
  then show e: "v + k = v OR k" by (rule disjunctive_add_eq_or)
  show b: "bit (v + k) n \<longleftrightarrow> (if n < 12 then bit k n else bit v n)" for n
    unfolding e by (auto simp: bit_or_iff dest: v k)
  show "(v + k) AND mask 12 = k"
    by (rule bit_word_eqI) (auto simp: bit_and_iff bit_mask_iff b dest: k)
qed

lemma page_offset_same:
  assumes "page_aligned v" "unat k < 4096" "is_sv39_canonical v"
  shows "is_sv39_canonical (v + k)" "same_page (v + k) v"
proof -
  note b = page_offset(2) [OF assms(1,2)]
  show "is_sv39_canonical (v + k)" using assms(3) unfolding canonical_bits by (simp add: b)
  show "same_page (v + k) v" using vpath_eq_bits [of 0 "v + k" v] by (simp add: same_page_def b)
qed

lemma leaf_allows_pte: "leaf_allows ms (leaf_pte p f) ty mode = leaf_allows ms f ty mode"
  by (simp add: leaf_allows_def bit_leaf_pte split: access_type.split)

lemma leaf_paddr_pte:
  assumes "flags_valid f" "page_aligned p" "unat p < 2 ^ 56" "page_aligned v" "unat k < 4096"
  shows "leaf_paddr 0 (leaf_pte p f) (v + k) = p + k"
proof -
  have "bit p n \<Longrightarrow> 12 \<le> n" for n
  proof (rule ccontr)
    assume "bit p n" "\<not> 12 \<le> n"
    then show False using page_offset(2) [OF assms(2), of 0 n] by simp
  qed
  then have "page_frame p" using low_bits [OF assms(3)] by (auto simp: page_frame_def)
  moreover have "n < 10" if "bit (SV39_PTE_VALID OR f) n" for n
    using that assms(1) unfolding flags_valid_iff by (auto simp: bit_or_iff)
  ultimately have "leaf_base (leaf_pte p f) = p"
    unfolding leaf_base_table leaf_pte_def by (intro table_of_pte) auto
  then show ?thesis using page_offset [OF assms(4,5)] page_offset(1) [OF assms(2,5)] by (simp add: leaf_paddr_def)
qed

lemma translate_first:
  assumes "h_as_bound h" "cs_privilege_mode (h_core h) \<noteq> Machine" "tree_wf (bus_ram b) root"
  defines "h' \<equiv> csr_write h CSR_SATP (satp_value root)"
  shows "fst (mmu_translate (h', b) w ty upd) = view_result (bus_ram b) root h' (w, ty, upd)"
proof -
  have ok: "mmu_ok (h', b) root" unfolding h'_def by (rule mmu_ok_switch [OF assms(1,3)])
  have "h_core h' = h_core h" unfolding h'_def by (rule satp_write(4) [OF assms(1) tree_wf_root [OF assms(3)]])
  then have "cs_privilege_mode (h_core h') \<noteq> Machine" using assms(2) by simp
  from mmu_translate_spec [OF ok not_machine_mode [OF this], of w ty upd] show ?thesis
    by (auto simp: translated_def view_result_def split: option.splits prod.splits)
qed

text \<open>The first access after the kernel has written the root to \<open>satp\<close>, with RAM \<open>m\<close>.\<close>

definition access_after ::
    "hart \<Rightarrow> 'd bus \<Rightarrow> u64 \<Rightarrow> access_type \<Rightarrow> bool \<Rightarrow> memory \<Rightarrow> u64 \<Rightarrow> fault + u64" where
  "access_after h b root ty upd m w =
     fst (mmu_translate (csr_write h CSR_SATP (satp_value root), b\<lparr>bus_ram := m\<rparr>) w ty upd)"

text \<open>C6: what the kernel maps is what the machine translates.  After \<open>map_page_internal\<close> has succeeded
  on a canonical page, with the root in \<open>satp\<close> and outside machine mode, an access to any byte of the page
  goes to that byte of the frame exactly when the flags of the mapping permit it, and page-faults
  otherwise; addresses outside the page are translated as before the mapping; and after
  \<open>unmap_page_internal\<close>, which succeeds, every access to the page faults again.\<close>

theorem mapped_page_is_translated:
  assumes wf: "vm_wf s root" and map: "map_page_internal s root v p f = (True, s1)"
    and v: "is_sv39_canonical v" and p: "unat p < 2 ^ 56" and k: "unat k < 4096"
    and h: "h_as_bound h" "cs_privilege_mode (h_core h) \<noteq> Machine"
  shows "access_after h b root ty upd (phys s1) (v + k) =
           (if leaf_allows (mstatus_of h) f ty (effective_privilege_mode ty (h_core h) (csr h CSR_MSTATUS))
            then Inr (p + k) else Inl (page_fault_cause ty, v + k)) \<and>
         (is_sv39_canonical w \<and> \<not> same_page w v \<longrightarrow> access_after h b root ty upd (phys s1) w = access_after h b root ty upd (phys s) w) \<and>
         (case unmap_page_internal s1 root v of
            (ok, s2) \<Rightarrow> ok \<and> access_after h b root ty upd (phys s2) (v + k) = Inl (page_fault_cause ty, v + k))"
proof -
  let ?access = "access_after h b root ty upd"
  note sp = map_page_internal_spec [OF wf map]
  obtain ok s2 where u: "unmap_page_internal s1 root v = (ok, s2)" by fastforce
  note su = unmap_page_internal_spec [OF sp(1) u]
  have "mappable s root v p f" using sp(3) by simp
  then have al: "page_aligned v" "page_aligned p" "flags_valid f"
    by (simp_all add: mappable_def mapped_range_args_valid_def page_span_args_valid_def page_aligned_def split: if_splits)
  note pg = page_offset_same [OF al(1) k v]
  have walk1: "pt_walk (phys s1) root = walk_upd (pt_walk (phys s) root) v (Some (0, leaf_pte p f))" using sp(4) by simp
  have ok: "ok" using su(4) al(1) walk1 by (simp add: walk_upd_def same_page_def)
  have walk2: "pt_walk (phys s2) root (v + k) = None" using su(5) ok pg(2) by (simp add: walk_upd_def)
  define h' where "h' = csr_write h CSR_SATP (satp_value root)"
  have rp: "ram_page root" by (rule tree_wf_root [OF vm_wfD(2) [OF wf]])
  note hw = satp_write [OF h(1) rp, folded h'_def]
  have acc: "?access (phys t) x = view_result (phys t) root h' (x, ty, upd)" if "vm_wf t root" for t x
    using translate_first [OF h, of "b\<lparr>bus_ram := phys t\<rparr>" root x ty upd] vm_wfD(2) [OF that]
    by (simp add: access_after_def h'_def)
  have "csr h' CSR_MSTATUS = csr h CSR_MSTATUS" using hw(5) by (simp add: csr_read_simps mstatus_of_def)
  then have may: "may_access h' ty (leaf_pte p f) =
      leaf_allows (mstatus_of h) f ty (effective_privilege_mode ty (h_core h) (csr h CSR_MSTATUS))"
    by (simp add: may_access_def hw(4,5) leaf_allows_pte)
  have 1: "?access (phys s1) (v + k) =
      (if leaf_allows (mstatus_of h) f ty (effective_privilege_mode ty (h_core h) (csr h CSR_MSTATUS))
       then Inr (p + k) else Inl (page_fault_cause ty, v + k))"
    using pg walk1 leaf_paddr_pte [OF al(3,2) p al(1) k] may
    by (simp add: acc [OF sp(1)] view_result_def page_view_def walk_upd_def)
  have 2: "?access (phys s1) w = ?access (phys s) w" if "\<not> same_page w v"
    using that walk1 by (simp add: acc [OF sp(1)] acc [OF wf] view_result_def page_view_def walk_upd_def)
  have 3: "?access (phys s2) (v + k) = Inl (page_fault_cause ty, v + k)"
    using walk2 by (simp add: acc [OF su(1)] view_result_def page_view_def)
  show ?thesis using 1 2 3 ok u by simp
qed

subsection \<open>Samples\<close>

definition sample_hart :: hart where
  "sample_hart = (cpu_hart (cpu_boot 0 None))\<lparr>h_core := (core_reset 0)\<lparr>cs_privilege_mode := User\<rparr>\<rparr>"

lemma sample_hart_simps [simp]:
  "h_as_bound sample_hart" "cs_privilege_mode (h_core sample_hart) = User" "mstatus_of sample_hart = 0"
  by (simp_all add: sample_hart_def cpu_boot_def mstatus_of_def csr_reset_def csr_addrs)

definition sample_flags :: u64 where
  "sample_flags = VM_PAGE_READ OR VM_PAGE_USER"

lemma sample_mapping:
  obtains s root s1 where "vm_wf s root" "map_page_internal s root 0x1000 0x80500000 sample_flags = (True, s1)"
    "pt_walk (phys s) root = (\<lambda>_. None)"
proof -
  obtain root s where s: "vm_wf s root" "pt_walk (phys s) root = (\<lambda>_. None)" "free_page_count (pool s) = 7"
    by (rule sample_root)
  have "tables_needed (phys s) root 0x1000 \<le> 7" by (simp add: tables_needed_def)
  then have m: "mappable s root 0x1000 0x80500000 sample_flags"
    using sample_args s by (simp add: mappable_def sample_flags_def)
  obtain ok s1 where r: "map_page_internal s root 0x1000 0x80500000 sample_flags = (ok, s1)" by fastforce
  then have "ok" using map_page_internal_spec(3) [OF s(1) r] m by simp
  then show thesis using that s r by simp
qed

lemma sample_permissions:
  "leaf_allows 0 sample_flags Access_Load User" "\<not> leaf_allows 0 sample_flags Access_Store User"
proof -
  have "bit sample_flags n \<longleftrightarrow> n = 1 \<or> n = 4" for n
    unfolding sample_flags_def VM_PAGE_READ_def VM_PAGE_USER_def by (simp only: bit_or_iff bit_one_bit) auto
  then show "leaf_allows 0 sample_flags Access_Load User" "\<not> leaf_allows 0 sample_flags Access_Store User"
    by (simp_all add: leaf_allows_def)
qed

lemma sample_user_mode: "effective_privilege_mode ty (h_core sample_hart) ms = User"
  by (simp add: effective_privilege_mode_def)

lemma sample_canonical: "is_sv39_canonical 0x1000"
  by (simp add: is_sv39_canonical_def)

definition sample_bus :: "memory \<Rightarrow> unit bus" where
  "sample_bus m = bus_create m ()"

theorem mapped_page_is_translated_witness:
  "\<exists>s root s1. map_page_internal s root 0x1000 0x80500000 sample_flags = (True, s1) \<and>
     access_after sample_hart (sample_bus (phys s)) root Access_Load True (phys s1) 0x1008 = Inr 0x80500008 \<and>
     access_after sample_hart (sample_bus (phys s)) root Access_Store True (phys s1) 0x1008 = Inl (15, 0x1008)"
proof -
  obtain s root s1 where s: "vm_wf s root" "map_page_internal s root 0x1000 0x80500000 sample_flags = (True, s1)"
    by (rule sample_mapping)
  have r: "access_after sample_hart (sample_bus (phys s)) root ty True (phys s1) 0x1008 =
      (if leaf_allows 0 sample_flags ty User then Inr 0x80500008 else Inl (page_fault_cause ty, 0x1008))" for ty
    using mapped_page_is_translated [OF s sample_canonical, where k = 8 and w = 0 and h = sample_hart and ty = ty and
        b = "sample_bus (phys s)" and upd = True]
    by (simp add: sample_user_mode cong: if_cong split del: if_split)
  show ?thesis
    by (intro exI [of _ s] exI [of _ root] exI [of _ s1]) (simp add: s(2) r sample_permissions)
qed

theorem translations_ignore_tlb_witness:
  "\<exists>(x :: unit mmu) root. mmu_ok x root \<and>
     fst (translate_run x [(0x1008, Access_Load, True), (0x1008, Access_Store, True), (0x1010, Access_Load, False)]) =
     [Inr 0x80500008, Inl (15, 0x1008), Inr 0x80500010]"
proof -
  obtain s root s1 where s: "vm_wf s root" "map_page_internal s root 0x1000 0x80500000 sample_flags = (True, s1)"
    by (rule sample_mapping)
  note sp = map_page_internal_spec [OF s]
  have ram: "bus_ram (sample_bus m) = m" for m by (simp add: sample_bus_def bus_create_def)
  let ?h = "csr_write sample_hart CSR_SATP (satp_value root)" and ?b = "sample_bus (phys s1)"
  have wf1: "tree_wf (bus_ram ?b) root" using vm_wfD(2) [OF sp(1)] by (simp add: ram)
  have ok: "mmu_ok (?h, ?b) root" by (rule mmu_ok_switch [OF _ wf1]) simp
  have hw: "h_core ?h = h_core sample_hart" "mstatus_of ?h = 0"
    using satp_write(4,5) [OF _ tree_wf_root [OF wf1], of sample_hart] by simp_all
  have al: "flags_valid sample_flags" "page_aligned 0x1000" "page_aligned 0x80500000"
    using sample_args by (simp_all add: sample_flags_def page_aligned_def MEMORY_PAGE_SIZE_def)
  have view: "view_result (phys s1) root ?h (0x1000 + k, ty, upd) =
      (if leaf_allows 0 sample_flags ty User then Inr (0x80500000 + k) else Inl (page_fault_cause ty, 0x1000 + k))"
    if "unat k < 4096" for k ty upd
    using sp(4) page_offset_same [OF al(2) that sample_canonical] leaf_paddr_pte [OF al(1,3) _ al(2) that]
    by (simp add: view_result_def page_view_def walk_upd_def may_access_def leaf_allows_pte hw sample_user_mode)
  have "cs_privilege_mode (h_core ?h) \<noteq> Machine" by (simp add: hw)
  from translations_ignore_tlb [OF ok this] show ?thesis
    using ok view [of 8] view [of 16]
    by (intro exI [of _ "(?h, ?b)"] exI [of _ root])
      (simp add: sample_permissions ram del: translate_run.simps)
qed

end
