(* ===== verification/MmuIsolation.thy ===== *)
theory MmuIsolation
  imports MmuMap
begin

text \<open>
  Loads, fetches and stores through the MMU: user code changes no byte of RAM but those that its page
  tables give it for writing, and the accessed bits in the tables themselves, which change no
  translation.
\<close>

subsection \<open>Bytes and pages of RAM\<close>

definition page_no :: "u64 \<Rightarrow> nat" where
  "page_no a = unat a div 4096"

lemma page_no_bits: "page_no a = page_no b \<longleftrightarrow> (\<forall>n. 12 \<le> n \<and> n < 64 \<longrightarrow> bit a n = bit b n)"
proof -
  have "page_no a = unat (drop_bit 12 a)" for a :: u64
    by (simp only: page_no_def unat_drop_bit_eq) (simp add: drop_bit_eq_div)
  then have "page_no a = page_no b \<longleftrightarrow> drop_bit 12 a = drop_bit 12 b" by (simp add: word_unat_eq_iff)
  also have "\<dots> \<longleftrightarrow> (\<forall>n<64. bit a (12 + n) = bit b (12 + n))" unfolding u64_eq_iff by (simp add: bit_drop_bit_eq)
  also have "\<dots> \<longleftrightarrow> (\<forall>n. 12 \<le> n \<and> n < 64 \<longrightarrow> bit a n = bit b n)"
  proof (rule iffI; intro allI impI)
    fix n :: nat assume "\<forall>n<64. bit a (12 + n) = bit b (12 + n)" "12 \<le> n \<and> n < 64"
    then show "bit a n = bit b n" by (metis le_add_diff_inverse less_imp_diff_less)
  next
    fix n :: nat assume h: "\<forall>n. 12 \<le> n \<and> n < 64 \<longrightarrow> bit a n = bit b n" "n < 64"
    show "bit a (12 + n) = bit b (12 + n)"
    proof (cases "12 + n < 64")
      case True
      then show ?thesis using h(1) by simp
    next
      case False
      then show ?thesis using bit_imp_le_length [of a "12 + n"] bit_imp_le_length [of b "12 + n"] by auto
    qed
  qed
  finally show ?thesis .
qed

lemma page_no_slot: "ram_page t \<Longrightarrow> i < 512 \<Longrightarrow> unat x < unat (word_slot t i) + 8 \<Longrightarrow>
    unat (word_slot t i) \<le> unat x \<Longrightarrow> page_no x = page_no t"
  by (auto simp: page_no_def word_slot_unat ram_page_def elim!: dvdE)

text \<open>A write of at most a page's rest leaves the words of every other page.\<close>

lemma write_apart:
  assumes t: "ram_page t" "i < 512" and a: "page_no a \<noteq> page_no t" "unat a mod 4096 + nat n \<le> 4096"
  shows "load64 (mem_write m a v n) (word_slot t i) = load64 m (word_slot t i)"
proof (cases "mem_range_valid a (word_of_int n)")
  case True
  have sl: "mem_range_valid (word_slot t i) (word_of_int 8)"
    using ram_word_valid [OF ram_word_slot [OF t]] by simp
  have tt: "unat t = page_no t * 4096" using t(1) div_mult_mod_eq [of "unat t" 4096] by (simp add: page_no_def ram_page_def)
  have aa: "unat a = page_no a * 4096 + unat a mod 4096" unfolding page_no_def by simp
  have "unat a + nat n \<le> unat (word_slot t i) \<or> unat (word_slot t i) + 8 \<le> unat a"
  proof (cases "page_no a < page_no t")
    case True
    then have "Suc (page_no a) * 4096 \<le> page_no t * 4096" by (intro mult_le_mono1) simp
    then show ?thesis using aa tt a(2) word_slot_unat [OF t] by simp
  next
    case False
    then have "Suc (page_no t) * 4096 \<le> page_no a * 4096" using a(1) by (intro mult_le_mono1) simp
    then show ?thesis using aa tt word_slot_unat [OF t] t(2) by simp
  qed
  moreover have "unat (a - MEM_BASE) = unat a - unat MEM_BASE" "unat MEM_BASE \<le> unat a"
       "unat (word_slot t i - MEM_BASE) = unat (word_slot t i) - unat MEM_BASE" "unat MEM_BASE \<le> unat (word_slot t i)"
    using True sl by (auto simp: mem_range_valid_nat unat_sub word_le_nat_alt)
  ultimately have "unat (word_slot t i - MEM_BASE) + 8 \<le> unat (a - MEM_BASE) \<or>
      unat (a - MEM_BASE) + length (to_le (nat n) v) \<le> unat (word_slot t i - MEM_BASE)" by auto
  then show ?thesis using True sl
    by (simp add: load64_def mem_read_def mem_write_def Let_def arr_read_write_disjoint)
qed (simp add: mem_write_def)

subsection \<open>What user code may change\<close>

definition frames_apart :: "memory \<Rightarrow> u64 \<Rightarrow> hart \<Rightarrow> bool" where
  "frames_apart m root h \<longleftrightarrow>
     (\<forall>w a. page_view m root h Access_Store w = Some a \<longrightarrow> (\<forall>t \<in> pt_tables m root. page_no a \<noteq> page_no t))"

definition same_view :: "memory \<Rightarrow> u64 \<Rightarrow> memory \<Rightarrow> bool" where
  "same_view m root m' \<longleftrightarrow> pt_tables m' root = pt_tables m root \<and>
     (\<forall>h ty w. page_view m' root h ty w = page_view m root h ty w)"

definition confined :: "memory \<Rightarrow> u64 \<Rightarrow> hart \<Rightarrow> memory \<Rightarrow> bool" where
  "confined m root h m' \<longleftrightarrow>
     (\<forall>a. mem_in_ram a 1 \<longrightarrow> ram_byte m' a \<noteq> ram_byte m a \<longrightarrow>
        (\<exists>w. page_view m root h Access_Store w = Some a) \<or> (\<exists>t \<in> pt_tables m root. page_no a = page_no t))"

text \<open>No page that user code may reach holds a device register whose access makes the device write RAM.\<close>

definition quiet_pages :: "'d bus \<Rightarrow> u64 \<Rightarrow> hart \<Rightarrow> bool" where
  "quiet_pages b root h \<longleftrightarrow> (\<forall>ty w a. page_view (bus_ram b) root h ty w = Some a \<longrightarrow> quiet_at b a)"

definition user_effect :: "u64 \<Rightarrow> 'd mmu \<Rightarrow> 'd mmu \<Rightarrow> bool" where
  "user_effect root x y \<longleftrightarrow>
     mmu_ok y root \<and> fst y = (fst x)\<lparr>h_tlb := h_tlb (fst y)\<rparr> \<and>
     bus_devices (snd y) = bus_devices (snd x) \<and>
     same_view (bus_ram (snd x)) root (bus_ram (snd y)) \<and>
     confined (bus_ram (snd x)) root (fst x) (bus_ram (snd y))"

definition user_state :: "u64 \<Rightarrow> 'd mmu \<Rightarrow> bool" where
  "user_state root x \<longleftrightarrow> mmu_ok x root \<and> cs_privilege_mode (h_core (fst x)) = User \<and>
     frames_apart (bus_ram (snd x)) root (fst x) \<and> quiet_pages (snd x) root (fst x)"

lemma user_effect_refl: "mmu_ok x root \<Longrightarrow> user_effect root x x"
  by (simp add: user_effect_def same_view_def confined_def)

lemma page_view_same_hart: "h' = h\<lparr>h_tlb := t\<rparr> \<Longrightarrow> page_view m root h' ty w = page_view m root h ty w"
  by simp

lemma user_effect_state:
  assumes "user_state root x" "user_effect root x y"
  shows "user_state root y"
proof -
  note e = assms(2) [unfolded user_effect_def same_view_def]
  have "page_view m root (fst y) ty w = page_view m root (fst x) ty w" for m ty w
    by (rule page_view_same_hart) (use e in blast)
  moreover have "h_core (fst y) = h_core (fst x)"
  proof -
    have "h_core (fst y) = h_core ((fst x)\<lparr>h_tlb := h_tlb (fst y)\<rparr>)" using e by metis
    then show ?thesis by simp
  qed
  moreover have "bus_devices (snd y) = bus_devices (snd x)" using e by blast
  then have "quiet_at (snd y) = quiet_at (snd x)" by (intro ext quiet_at_devices)
  ultimately show ?thesis using assms(1) e by (simp add: user_state_def frames_apart_def quiet_pages_def)
qed

lemma user_effect_trans:
  assumes "user_effect root x y" "user_effect root y z"
  shows "user_effect root x z"
proof -
  note e = assms [unfolded user_effect_def same_view_def confined_def]
  have v: "page_view m root (fst y) ty w = page_view m root (fst x) ty w" for m ty w
    by (rule page_view_same_hart) (use e in blast)
  have "fst z = (fst x)\<lparr>h_tlb := h_tlb (fst z)\<rparr>"
    using e(1) e(2) by (metis hart.surjective hart.update_convs(4))
  moreover have "confined (bus_ram (snd x)) root (fst x) (bus_ram (snd z))"
    unfolding confined_def
  proof (intro allI impI)
    fix a assume a: "mem_in_ram a 1" "ram_byte (bus_ram (snd z)) a \<noteq> ram_byte (bus_ram (snd x)) a"
    show "(\<exists>w. page_view (bus_ram (snd x)) root (fst x) Access_Store w = Some a) \<or>
        (\<exists>t\<in>pt_tables (bus_ram (snd x)) root. page_no a = page_no t)"
    proof (cases "ram_byte (bus_ram (snd y)) a = ram_byte (bus_ram (snd x)) a")
      case True
      then have "ram_byte (bus_ram (snd z)) a \<noteq> ram_byte (bus_ram (snd y)) a" using a(2) by simp
      then have "(\<exists>w. page_view (bus_ram (snd y)) root (fst y) Access_Store w = Some a) \<or>
          (\<exists>t\<in>pt_tables (bus_ram (snd y)) root. page_no a = page_no t)" using e(2) a(1) by blast
      then show ?thesis using e(1) v by simp
    next
      case False
      then show ?thesis using e(1) a(1) by blast
    qed
  qed
  ultimately show ?thesis using e by (simp add: user_effect_def same_view_def)
qed

subsection \<open>One translation\<close>

lemma tables_changed: "leaf_changed m root v l e' m' \<Longrightarrow> pt_tables m' root = pt_tables m root"
  by (auto simp: leaf_changed_def pt_tables_def)

lemma marked_effect:
  assumes wf: "tree_wf m root"
  shows "same_view m root (marked m root ty v)" "confined m root h (marked m root ty v)"
proof -
  have "pt_tables (marked m root ty v) root = pt_tables m root \<and> confined m root h (marked m root ty v)"
  proof (cases "pt_walk m root v")
    case None
    then show ?thesis by (simp add: marked_def confined_def)
  next
    case (Some le)
    then obtain l e where w: "pt_walk m root v = Some (l, e)" by (cases le) auto
    obtain t where t: "l \<le> 2" "table_at m root (vpath v (2 - l)) = Some t"
        "leaf_slot m root v l = word_slot t (vpn_index v l)" by (rule pt_leaf [OF wf w])
    have mm: "marked m root ty v = touched m (leaf_slot m root v l) e (set_ad ty e)" by (simp add: marked_def w)
    have "set_ad ty e = e \<or> set_ad ty e = set_ad ty e" by simp
    from tables_changed [OF leaf_changed_touched [OF wf w this]]
    have tabs: "pt_tables (marked m root ty v) root = pt_tables m root" by (simp add: mm)
    have tt: "t \<in> pt_tables m root" "ram_page t"
      using t(2) tree_wfD(1) [OF wf pt_path_vpath t(2)] by (auto simp: pt_tables_def intro: exI [of _ "vpath v (2 - l)"])
    have "page_no a = page_no t"
      if "mem_in_ram a 1" "ram_byte (marked m root ty v) a \<noteq> ram_byte m a" for a
    proof -
      have "ram_byte (mem_write m (word_slot t (vpn_index v l)) (set_ad ty e) 8) a \<noteq> ram_byte m a"
        using that(2) by (auto simp: mm touched_def t(3) store64_def split: if_splits)
      from ram_byte_write [OF that(1) this] show ?thesis
        using page_no_slot [OF tt(2) vpn_less [of v l], of a] by simp
    qed
    then show ?thesis using tabs tt(1) unfolding confined_def by blast
  qed
  then show "same_view m root (marked m root ty v)" "confined m root h (marked m root ty v)"
    using page_view_marked [OF wf] by (simp_all add: same_view_def)
qed

lemma translate_effect:
  assumes st: "user_state root x" and t: "mmu_translate x v ty upd = (res, y)"
  shows "user_effect root x y"
    "res = Inr paddr \<Longrightarrow> page_view (bus_ram (snd x)) root (fst x) ty v = Some paddr"
proof -
  obtain h b h' b' where x: "x = (h, b)" "y = (h', b')" by (cases x; cases y) auto
  have ok: "mmu_ok (h, b) root" and u: "cs_privilege_mode (h_core h) \<noteq> Machine" using st by (auto simp: user_state_def x)
  have tr: "translated (h, b) v ty upd root (res, (h', b'))"
    using mmu_translate_spec [OF ok not_machine_mode [OF u], of v ty upd] t by (simp add: x)
  then have h': "h' = h\<lparr>h_tlb := h_tlb h'\<rparr>" and ok': "mmu_ok (h', b') root" by (simp_all add: translated_def)
  have "bus_ram b' = bus_ram b \<or> bus_ram b' = marked (bus_ram b) root ty v"
    using tr by (auto simp: translated_def split: option.splits if_splits)
  then have "same_view (bus_ram b) root (bus_ram b') \<and> confined (bus_ram b) root h (bus_ram b')"
  proof
    assume "bus_ram b' = bus_ram b"
    then show ?thesis by (simp add: same_view_def confined_def)
  next
    assume "bus_ram b' = marked (bus_ram b) root ty v"
    then show ?thesis using marked_effect [OF mmu_okD(1) [OF ok]] by simp
  qed
  moreover have "bus_devices b' = bus_devices b"
    using tr by (auto simp: translated_def split: option.splits if_splits)
  ultimately show "user_effect root x y" using h' ok' by (simp add: user_effect_def x)
  show "res = Inr paddr \<Longrightarrow> page_view (bus_ram (snd x)) root (fst x) ty v = Some paddr"
    using tr by (auto simp: translated_def x split: option.splits)
qed

subsection \<open>One chunk\<close>

lemma chunk_in_page:
  assumes "0 < r"
  shows "unat a mod 4096 + nat (page_chunk_size a r) \<le> 4096"
proof -
  have m: "SV39_PAGE_SIZE - 1 = mask 12" by (simp add: SV39_PAGE_SIZE_def mask_eq_exp_minus_1)
  have off: "unat (a AND (SV39_PAGE_SIZE - 1)) = unat a mod 4096"
    by (simp only: m take_bit_eq_mask [symmetric] unsigned_take_bit_eq) (simp add: take_bit_eq_mod)
  have "unat a mod 4096 < 4096" by simp
  then have "a AND (SV39_PAGE_SIZE - 1) \<le> SV39_PAGE_SIZE"
    using off by (simp add: word_le_nat_alt SV39_PAGE_SIZE_def)
  then have "unat (SV39_PAGE_SIZE - (a AND (SV39_PAGE_SIZE - 1))) = 4096 - unat a mod 4096"
    using off by (simp add: unat_sub) (simp add: SV39_PAGE_SIZE_def)
  moreover have "uint w = int (unat w)" for w :: u64 by simp
  ultimately have "uint (SV39_PAGE_SIZE - (a AND (SV39_PAGE_SIZE - 1))) = int (4096 - unat a mod 4096)" by (simp only:)
  then have "page_chunk_size a r \<le> int (4096 - unat a mod 4096)" by (simp add: page_chunk_size_def Let_def)
  then show ?thesis by simp
qed

lemma view_page:
  assumes wf: "tree_wf m root" and v: "page_view m root h ty v = Some a"
  shows "unat a mod 4096 = unat v mod 4096"
    "page_no x = page_no a \<Longrightarrow> \<exists>w. page_view m root h ty w = Some x"
proof -
  obtain l e where le: "pt_walk m root v = Some (l, e)" "may_access h ty e" "a = leaf_paddr l e v" and c: "is_sv39_canonical v"
    using v by (auto simp: page_view_def split: if_splits option.splits)
  obtain t where l: "l \<le> 2" "pte_ok l e" "bit e 0" "leaf_bits e" by (rule pt_leaf [OF wf le(1)])
  have a: "bit a n \<longleftrightarrow> bit (leaf_base e) n \<or> bit v n \<and> n < 12 + l * 9" for n
    using bit_imp_le_length [of v n] by (auto simp: le(3) leaf_paddr_def bit_or_iff bit_and_iff bit_mask_iff)
  have base: "bit (leaf_base e) n \<Longrightarrow> 12 \<le> n" for n by (simp add: leaf_base_table bit_table)
  have "take_bit 12 a = take_bit 12 v"
    by (rule bit_word_eqI) (auto simp: bit_take_bit_iff a dest: base)
  then have "unat (take_bit 12 a) = unat (take_bit 12 v)" by simp
  then show "unat a mod 4096 = unat v mod 4096"
    by (simp only: unsigned_take_bit_eq) (simp add: take_bit_eq_mod)
  assume x: "page_no x = page_no a"
  define w where "w = (v AND NOT (mask 12)) OR (x AND mask 12)"
  have w: "bit w n \<longleftrightarrow> (if n < 12 then bit x n else bit v n)" for n
    using bit_imp_le_length [of v n] bit_imp_le_length [of x n]
    by (auto simp: w_def bit_or_iff bit_and_iff bit_not_iff bit_mask_iff)
  have cw: "is_sv39_canonical w" using c unfolding canonical_bits by (simp add: w)
  have "vpath v (3 - l) = vpath w (3 - l)" unfolding vpath_eq_bits [OF l(1)] by (simp add: w)
  then have ww: "pt_walk m root w = Some (l, e)" by (rule same_leaf(1) [OF wf le(1)])
  have "leaf_paddr l e w = x"
  proof (rule bit_word_eqI)
    fix n :: nat assume n: "n < LENGTH(64)"
    have "bit (leaf_paddr l e w) n \<longleftrightarrow> bit (leaf_base e) n \<or> bit w n \<and> n < 12 + l * 9"
      using bit_imp_le_length [of w n] by (auto simp: leaf_paddr_def bit_or_iff bit_and_iff bit_mask_iff)
    also have "\<dots> \<longleftrightarrow> (if n < 12 then bit x n else bit a n)" unfolding a w by (auto dest: base)
    also have "\<dots> \<longleftrightarrow> bit x n" using x n unfolding page_no_bits by auto
    finally show "bit (leaf_paddr l e w) n = bit x n" .
  qed
  then show "\<exists>w. page_view m root h ty w = Some x" using cw ww le(2) by (auto simp: page_view_def intro!: exI [of _ w])
qed

lemma page_no_within: "unat a mod 4096 + k \<le> 4096 \<Longrightarrow> unat a \<le> unat x \<Longrightarrow> unat x < unat a + k \<Longrightarrow> page_no x = page_no a"
proof -
  assume h: "unat a mod 4096 + k \<le> 4096" "unat a \<le> unat x" "unat x < unat a + k"
  define d where "d = unat x - unat a"
  have d: "unat x = unat a + d" "unat a mod 4096 + d < 4096" using h by (simp_all add: d_def)
  then have "d < 4096" by simp
  then show ?thesis using d(2) by (simp add: page_no_def d(1) div_add1_eq [of "unat a" d])
qed

lemma same_ram_effect:
  assumes "mmu_ok (h, b) root" "bus_ram b' = bus_ram b" "bus_devices b' = bus_devices b"
  shows "user_effect root (h, b) (h, b')"
  using assms by (simp add: user_effect_def mmu_ok_def same_view_def confined_def)

text \<open>A write that leaves the words of all tables alone keeps every walk.\<close>

lemma tables_kept:
  assumes wf: "tree_wf m root"
    and keep: "\<And>t i. t \<in> pt_tables m root \<Longrightarrow> i < 512 \<Longrightarrow> load64 m' (word_slot t i) = load64 m (word_slot t i)"
  shows "pt_path p \<Longrightarrow> table_at m' root p = table_at m root p" "pt_walk m' root w = pt_walk m root w" "tree_wf m' root"
proof -
  have k: "load64 m' (word_slot t i) = load64 m (word_slot t i)"
    if "pt_path q" "table_at m root q = Some t" "i < 512" for q t i
    using keep that by (auto simp: pt_tables_def)
  show at: "pt_path p \<Longrightarrow> table_at m' root p = table_at m root p" for p using k by (rule table_at_same_words)
  show "pt_walk m' root w = pt_walk m root w" by (rule pt_walk_same_words [OF k])
  show "tree_wf m' root" using wf k at unfolding tree_wf_def by (metis (no_types, lifting))
qed

lemma store_chunk:
  assumes st: "user_state root (h, b)" and v: "page_view (bus_ram b) root h Access_Store addr = Some paddr"
    and n: "unat addr mod 4096 + nat n \<le> 4096" and b: "bus_store b paddr val n = (ok, b')"
  shows "user_effect root (h, b) (h, b')"
proof (cases "bus_ram b' = bus_ram b")
  case True
  then show ?thesis using st same_ram_effect [OF _ True bus_ops_devices(2) [OF b]] by (auto simp: user_state_def)
next
  case False
  define m where "m = bus_ram b"
  have "quiet_at b paddr" using st v by (auto simp: user_state_def quiet_pages_def)
  from quiet_store [OF this b]
  have m': "bus_ram b' = mem_write m paddr val n" using False by (auto simp: m_def)
  have ok: "mmu_ok (h, b) root" and ap: "frames_apart m root h" using st by (simp_all add: user_state_def m_def)
  have wf: "tree_wf m root" using mmu_okD(1) [OF ok] by (simp add: m_def)
  note vp = view_page [OF wf v [folded m_def]]
  have rest: "unat paddr mod 4096 + nat n \<le> 4096" using n vp(1) by simp
  have keep: "load64 (bus_ram b') (word_slot t i) = load64 m (word_slot t i)" if "t \<in> pt_tables m root" "i < 512" for t i
  proof -
    have "ram_page t" using that(1) tree_wfD(1) [OF wf] by (auto simp: pt_tables_def)
    moreover have "page_no paddr \<noteq> page_no t" using ap v that(1) by (simp add: frames_apart_def m_def)
    ultimately show ?thesis unfolding m' using write_apart [OF _ that(2) _ rest] by simp
  qed
  note k = tables_kept [OF wf keep]
  have "pt_tables (bus_ram b') root = pt_tables m root" using k(1) by (auto simp: pt_tables_def)
  then have view: "same_view m root (bus_ram b')" by (simp add: same_view_def page_view_def k(2))
  have slot: "leaf_slot (bus_ram b') root u l = leaf_slot m root u l" for u l by (simp add: leaf_slot_def k(1))
  have "entry_agrees (bus_ram b') root u en = entry_agrees m root u en" for u en
    by (simp add: entry_agrees_def k(2) slot)
  then have "tlb_ok (bus_ram b') root (csr h CSR_SATP) (h_tlb h)"
    using mmu_okD(3) [OF ok] by (simp add: tlb_ok_def m_def)
  then have ok': "mmu_ok (h, b') root" using mmu_okD(2) [OF ok] k(3) by (simp add: mmu_ok_def)
  have "confined m root h (bus_ram b')"
    unfolding confined_def
  proof (intro allI impI disjI1)
    fix a assume a: "mem_in_ram a 1" "ram_byte (bus_ram b') a \<noteq> ram_byte m a"
    have "page_no a = page_no paddr" using ram_byte_write [OF a(1)] a(2) page_no_within [OF rest] by (simp add: m')
    then show "\<exists>w. page_view m root h Access_Store w = Some a" by (rule vp(2))
  qed
  then show ?thesis using view ok' bus_ops_devices(2) [OF b] by (simp add: user_effect_def m_def)
qed

subsection \<open>Whole accesses\<close>

lemma page_view_effect:
  assumes "user_effect root x y"
  shows "page_view (bus_ram (snd y)) root (fst y) ty w = page_view (bus_ram (snd x)) root (fst x) ty w"
proof -
  note e = assms [unfolded user_effect_def same_view_def]
  have "page_view (bus_ram (snd y)) root (fst y) ty w = page_view (bus_ram (snd y)) root (fst x) ty w"
    by (rule page_view_same_hart) (use e in blast)
  then show ?thesis using e by simp
qed

lemma store_loop_effect:
  "user_state root x \<Longrightarrow> user_effect root x (snd (store_loop x addr r v))"
proof (induction x addr r v rule: store_loop.induct)
  case (1 x addr r v)
  have ok: "mmu_ok x root" using 1(2) by (simp add: user_state_def)
  show ?case
  proof (cases "r > 0")
    case False
    then show ?thesis using user_effect_refl [OF ok] by (simp add: store_loop.simps)
  next
    case True
    obtain res h1 b1 where t: "mmu_translate x addr Access_Store True = (res, (h1, b1))" by (metis prod.exhaust)
    note e1 = translate_effect [OF 1(2) t]
    show ?thesis
    proof (cases res)
      case (Inl f)
      then show ?thesis using e1(1) True t by (simp add: store_loop.simps [of x])
    next
      case (Inr paddr)
      let ?c = "page_chunk_size addr r"
      obtain k b2 where s: "bus_store b1 paddr (v AND size_mask ?c) ?c = (k, b2)" by fastforce
      have st1: "user_state root (h1, b1)" by (rule user_effect_state [OF 1(2) e1(1)])
      have "page_view (bus_ram b1) root h1 Access_Store addr = Some paddr"
        using page_view_effect [OF e1(1)] e1(2) [OF Inr] by simp
      from store_chunk [OF st1 this chunk_in_page [OF True] s]
      have e2: "user_effect root x (h1, b2)" by (rule user_effect_trans [OF e1(1)])
      show ?thesis
      proof (cases k)
        case False
        then show ?thesis using e2 True t Inr s by (simp add: store_loop.simps [of x] Let_def)
      next
        case k: True
        have "user_effect root (h1, b2) (snd (store_loop (h1, b2) (addr + word_of_int ?c) (r - ?c) (drop_bit (nat (?c * 8)) v)))"
          by (rule 1(1) [OF True refl t [symmetric] _ _ s [symmetric] _ user_effect_state [OF 1(2) e2]])
            (simp_all add: Inr k)
        then show ?thesis using user_effect_trans [OF e2] True t Inr s k by (simp add: store_loop.simps [of x] Let_def)
      qed
    qed
  qed
qed

lemma access_loop_effect:
  "user_state root x \<Longrightarrow> user_effect root x (snd (access_loop x addr r sh v ty))"
proof (induction x addr r sh v ty rule: access_loop.induct)
  case (1 x addr r sh v ty)
  have ok: "mmu_ok x root" using 1(2) by (simp add: user_state_def)
  show ?case
  proof (cases "r > 0")
    case False
    then show ?thesis using user_effect_refl [OF ok] by (simp add: access_loop.simps)
  next
    case True
    obtain res h1 b1 where t: "mmu_translate x addr ty True = (res, (h1, b1))" by (metis prod.exhaust)
    note e1 = translate_effect [OF 1(2) t]
    show ?thesis
    proof (cases res)
      case (Inl f)
      then show ?thesis using e1(1) True t by (simp add: access_loop.simps [of x])
    next
      case (Inr paddr)
      let ?c = "page_chunk_size addr r"
      obtain k b2 where s: "bus_load b1 paddr ?c = (k, b2)" by fastforce
      have "mmu_ok (h1, b1) root" using e1(1) by (simp add: user_effect_def)
      moreover have "quiet_at b1 paddr"
        using user_effect_state [OF 1(2) e1(1)] page_view_effect [OF e1(1)] e1(2) [OF Inr]
        by (auto simp: user_state_def quiet_pages_def)
      ultimately have "user_effect root (h1, b1) (h1, b2)"
        by (intro same_ram_effect quiet_load [OF _ s] bus_ops_devices(1) [OF s])
      then have e2: "user_effect root x (h1, b2)" by (rule user_effect_trans [OF e1(1)])
      show ?thesis
      proof (cases k)
        case None
        then show ?thesis using e2 True t Inr s by (simp add: access_loop.simps [of x] Let_def)
      next
        case k: (Some cv)
        have "user_effect root (h1, b2) (snd (access_loop (h1, b2) (addr + word_of_int ?c) (r - ?c)
            (sh + nat (?c * 8)) (v OR push_bit sh (cv AND size_mask ?c)) ty))"
          by (rule 1(1) [OF True refl t [symmetric] _ _ s [symmetric] _ user_effect_state [OF 1(2) e2]])
            (simp_all add: Inr k)
        then show ?thesis using user_effect_trans [OF e2] True t Inr s k by (simp add: access_loop.simps [of x] Let_def)
      qed
    qed
  qed
qed

text \<open>A stretch of user code, as the MMU sees it: it ends at the first fault.\<close>

datatype user_op = Op_Fetch16 u64 | Op_Fetch32 u64 | Op_Load u64 int | Op_Store u64 u64 int

definition fault_of :: "(fault + u64) \<times> 'd mmu \<Rightarrow> fault option \<times> 'd mmu" where
  "fault_of r = (case r of (Inl f, y) \<Rightarrow> (Some f, y) | (Inr _, y) \<Rightarrow> (None, y))"

fun user_step :: "'d mmu \<Rightarrow> user_op \<Rightarrow> fault option \<times> 'd mmu" where
  "user_step x (Op_Fetch16 a) = fault_of (fetch16_result x a)"
| "user_step x (Op_Fetch32 a) = fault_of (fetch32_result x a)"
| "user_step x (Op_Load a n) = fault_of (load_result x a n)"
| "user_step x (Op_Store a v n) = store_result x a v n"

fun user_run :: "'d mmu \<Rightarrow> user_op list \<Rightarrow> fault option \<times> 'd mmu" where
  "user_run x [] = (None, x)"
| "user_run x (a # as) = (case user_step x a of (Some f, y) \<Rightarrow> (Some f, y) | (None, y) \<Rightarrow> user_run y as)"

lemma snd_fault_of: "snd (fault_of r) = snd r"
  by (simp add: fault_of_def split: prod.split sum.split)

lemma user_step_effect: "user_state root x \<Longrightarrow> user_effect root x (snd (user_step x a))"
  by (cases a) (simp_all add: snd_fault_of fetch16_result_def fetch32_result_def load_result_def access_result_def
      store_result_def access_loop_effect store_loop_effect)

lemma user_run_effect: "user_state root x \<Longrightarrow> user_effect root x (snd (user_run x as))"
proof (induction as arbitrary: x)
  case Nil
  then show ?case by (simp add: user_effect_refl user_state_def)
next
  case (Cons a as)
  obtain f y where s: "user_step x a = (f, y)" by (metis prod.exhaust)
  have e: "user_effect root x y" using user_step_effect [OF Cons.prems, of a] by (simp add: s)
  show ?case
  proof (cases f)
    case None
    then show ?thesis
      using user_effect_trans [OF e Cons.IH [OF user_effect_state [OF Cons.prems e]]] by (simp add: s)
  qed (simp add: s e)
qed

text \<open>C2: user code is confined by its page tables.  Started in user mode on a well-formed address
  space whose user-writable frames hold none of its tables, and which maps no device register whose access
  starts DMA (the virtio queue notification, the doorbell of the AI accelerator), any sequence of fetches,
  loads and stores of any sizes, across pages and to other device registers, up to the first fault, changes
  a byte of RAM only if some virtual address is mapped to it with user write permission, or if it lies in a page of the tables, and
  there only accessed bits change: every translation, of every access type and in every mode, is the same
  as before, the TLB still agrees with the tables and the mode is unchanged.\<close>

theorem user_code_is_confined:
  assumes "mmu_ok (h, b) root" "cs_privilege_mode (h_core h) = User"
    and "\<forall>w a. page_view (bus_ram b) root h Access_Store w = Some a \<longrightarrow>
           (\<forall>t \<in> pt_tables (bus_ram b) root. page_no a \<noteq> page_no t)"
    and "\<forall>ty w a. page_view (bus_ram b) root h ty w = Some a \<longrightarrow>
           (\<forall>d \<in> set (bus_devices b). device_contains d a 1 \<longrightarrow> keeps_ram d a)"
  shows "case snd (user_run (h, b) ops) of (h', b') \<Rightarrow>
           (\<forall>a. mem_in_ram a 1 \<and> ram_byte (bus_ram b') a \<noteq> ram_byte (bus_ram b) a \<longrightarrow>
              (\<exists>w. page_view (bus_ram b) root h Access_Store w = Some a) \<or>
              (\<exists>t \<in> pt_tables (bus_ram b) root. page_no a = page_no t)) \<and>
           (\<forall>g ty w. page_view (bus_ram b') root g ty w = page_view (bus_ram b) root g ty w) \<and>
           mmu_ok (h', b') root \<and> h_core h' = h_core h"
proof -
  obtain h' b' where r: "snd (user_run (h, b) ops) = (h', b')" by fastforce
  have "user_state root (h, b)" using assms by (simp add: user_state_def frames_apart_def quiet_pages_def quiet_at_def)
  from user_run_effect [OF this, of ops]
  have e: "mmu_ok (h', b') root" "h' = h\<lparr>h_tlb := h_tlb h'\<rparr>" "same_view (bus_ram b) root (bus_ram b')"
      "confined (bus_ram b) root h (bus_ram b')" by (simp_all add: r user_effect_def)
  have "h_core h' = h_core (h\<lparr>h_tlb := h_tlb h'\<rparr>)" using e(2) by metis
  then have "h_core h' = h_core h" by simp
  then show ?thesis using e(1,3,4) unfolding r prod.case confined_def same_view_def by simp
qed

text \<open>On the sample page, which is mapped read-only: no store changes anything outside the tables.\<close>

lemma sample_active:
  obtains s root s1 where "map_page_internal s root 0x1000 0x80500000 sample_flags = (True, s1)"
    "mmu_ok (csr_write sample_hart CSR_SATP (satp_value root), sample_bus (phys s1)) root"
    "h_core (csr_write sample_hart CSR_SATP (satp_value root)) = h_core sample_hart"
    "\<And>w. page_view (phys s1) root (csr_write sample_hart CSR_SATP (satp_value root)) Access_Store w = None"
proof -
  obtain s root s1 where s: "vm_wf s root" "map_page_internal s root 0x1000 0x80500000 sample_flags = (True, s1)"
      "pt_walk (phys s) root = (\<lambda>_. None)"
    by (rule sample_mapping)
  note sp = map_page_internal_spec [OF s(1,2)]
  let ?h = "csr_write sample_hart CSR_SATP (satp_value root)"
  have ram: "bus_ram (sample_bus m) = m" for m by (simp add: sample_bus_def bus_create_def)
  have wf1: "tree_wf (bus_ram (sample_bus (phys s1))) root" using vm_wfD(2) [OF sp(1)] by (simp add: ram)
  have hw: "h_core ?h = h_core sample_hart" "mstatus_of ?h = 0"
    using satp_write(4,5) [OF _ tree_wf_root [OF wf1], of sample_hart] by simp_all
  have "page_view (phys s1) root ?h Access_Store w = None" for w
    using sp(4) s(3)
    by (simp add: page_view_def walk_upd_def may_access_def leaf_allows_pte hw sample_user_mode sample_permissions)
  then show thesis using that [OF s(2)] mmu_ok_switch [OF _ wf1] hw(1) by simp
qed

theorem user_code_is_confined_witness:
  "\<exists>(h :: hart) (b :: unit bus) root h' b'.
     snd (user_run (h, b) [Op_Load 0x1008 8, Op_Fetch32 0x1000, Op_Store 0x1008 7 8]) = (h', b') \<and>
     cs_privilege_mode (h_core h') = User \<and> page_view (bus_ram b') root h Access_Store 0x1008 = None \<and>
     (\<forall>a. mem_in_ram a 1 \<and> ram_byte (bus_ram b') a \<noteq> ram_byte (bus_ram b) a \<longrightarrow>
          (\<exists>t \<in> pt_tables (bus_ram b) root. page_no a = page_no t))"
proof -
  obtain s root s1 where s: "map_page_internal s root 0x1000 0x80500000 sample_flags = (True, s1)"
    "mmu_ok (csr_write sample_hart CSR_SATP (satp_value root), sample_bus (phys s1)) root"
    "h_core (csr_write sample_hart CSR_SATP (satp_value root)) = h_core sample_hart"
    "\<And>w. page_view (phys s1) root (csr_write sample_hart CSR_SATP (satp_value root)) Access_Store w = None"
    by (rule sample_active) blast
  define h b where "h = csr_write sample_hart CSR_SATP (satp_value root)" and "b = sample_bus (phys s1)"
  note s' = s(2-) [folded h_def b_def]
  have ram: "bus_ram b = phys s1" by (simp add: b_def sample_bus_def bus_create_def)
  have u: "cs_privilege_mode (h_core h) = User" by (simp add: s'(2))
  obtain h' b' where r: "snd (user_run (h, b) [Op_Load 0x1008 8, Op_Fetch32 0x1000, Op_Store 0x1008 7 8]) = (h', b')"
    by (metis prod.exhaust)
  have "\<forall>w a. page_view (bus_ram b) root h Access_Store w = Some a \<longrightarrow>
      (\<forall>t \<in> pt_tables (bus_ram b) root. page_no a \<noteq> page_no t)" by (simp add: ram s'(3))
  moreover have "\<forall>ty w a. page_view (bus_ram b) root h ty w = Some a \<longrightarrow>
      (\<forall>d \<in> set (bus_devices b). device_contains d a 1 \<longrightarrow> keeps_ram d a)"
    by (simp add: b_def sample_bus_def bus_create_def)
  note user_code_is_confined [OF s'(1) u calculation this, of "[Op_Load 0x1008 8, Op_Fetch32 0x1000, Op_Store 0x1008 7 8]"]
  from this show ?thesis unfolding r prod.case
    by (intro exI [of _ h] exI [of _ b] exI [of _ root] exI [of _ h'] exI [of _ b'])
      (simp add: r u ram s'(3) del: user_run.simps)
qed

end
