(* ===== verification/UserConfinement.thy ===== *)
theory UserConfinement
  imports PreciseTraps MmuIsolation
begin

text \<open>
  User programs on the whole simulated hart: instruction after instruction, with interrupts between
  them, until the hart leaves user mode.
\<close>

abbreviation mmu_of :: "'d machine \<Rightarrow> 'd mmu" where
  "mmu_of m \<equiv> (mc_hart m, mc_bus m)"

abbreviation ram_of :: "'d machine \<Rightarrow> memory" where
  "ram_of m \<equiv> bus_ram (mc_bus m)"

abbreviation mode_of :: "'d machine \<Rightarrow> privilege_mode" where
  "mode_of m \<equiv> cs_privilege_mode (mc_core m)"

subsection \<open>Instructions of user mode\<close>

definition user_safe :: "insn_effects \<Rightarrow> bool" where
  "user_safe e \<longleftrightarrow> ce_trap_return (eff_control e) = Return_None \<and> \<not> ce_flush_tlb (eff_control e) \<and>
     (cw_enable (eff_csr e) \<longrightarrow> cw_addr (eff_csr e) \<in> {CSR_FFLAGS, CSR_FRM, CSR_FCSR})"

lemma safe_plain: "user_safe no_effects" "user_safe (trap_effect t)" "user_safe (illegal_instruction_effect raw)"
  "user_safe (set_rd no_effects r v)"
  by (simp_all add: user_safe_def illegal_instruction_effect_def)

lemma safe_integer: "build_integer_effects i a b im pc = Some e \<Longrightarrow> user_safe e"
  by (auto simp: build_integer_effects_def alu_effects_def safe_plain split: if_splits alu_result.splits)

lemma safe_control: "user_safe (build_control_flow_effects i a b im pc)"
  by (auto simp: build_control_flow_effects_def Let_def user_safe_def illegal_instruction_effect_def
      split: option.splits bool.splits)

lemma safe_memory: "user_safe (build_memory_effects i a b im)"
  by (simp add: user_safe_def memory_effects_simps)

lemma safe_atomic: "user_safe (build_atomic_effects i a b)"
  by (simp add: build_atomic_effects_def Let_def user_safe_def illegal_instruction_effect_def)

lemma safe_vector: "user_safe (build_vector_effects i a)"
  by (simp add: build_vector_effects_def Let_def user_safe_def illegal_instruction_effect_def vector_effect_def)

lemma safe_floating: "user_safe (build_floating_effects hf i a b c fcsr)"
  using floating_contained [of hf i a b c fcsr] by (auto simp: fp_contained_def user_safe_def)

lemma safe_system: "cs_privilege_mode (h_core h) = User \<Longrightarrow> user_safe (build_system_effects i h inputs)"
  using user_system_effects [OF _ refl, of h i inputs] by (auto simp: user_safe_def)

lemma semantics_user_safe:
  assumes "semantics_execute hf i h = Some e" "cs_privilege_mode (h_core h) = User"
  shows "user_safe e"
  using assms safe_integer
  by (auto simp: semantics_execute_def execute_with_inputs_def safe_plain safe_control safe_memory safe_atomic safe_vector
      safe_floating safe_system split: if_splits)

subsection \<open>The memory phase\<close>

lemma user_load_effect: "user_state root x \<Longrightarrow> load_result x a n = (r, y) \<Longrightarrow> user_effect root x y"
  using access_loop_effect [of root x a n 0 0 Access_Load] by (simp add: load_result_def access_result_def)

lemma user_store_effect: "user_state root x \<Longrightarrow> store_result x a v n = (r, y) \<Longrightarrow> user_effect root x y"
  using store_loop_effect [of root x a n v] by (simp add: store_result_def)

lemma user_fetch_effect:
  "user_state root x \<Longrightarrow> fetch16_result x a = (r, y) \<Longrightarrow> user_effect root x y"
  "user_state root x \<Longrightarrow> fetch32_result x a = (r, y) \<Longrightarrow> user_effect root x y"
  using access_loop_effect [of root x a _ 0 0 Access_Instruction]
  by (metis fetch16_result_def access_result_def snd_conv, metis fetch32_result_def access_result_def snd_conv)

lemma user_effect_then:
  "user_state root x \<Longrightarrow> user_effect root x y \<Longrightarrow> (user_state root y \<Longrightarrow> user_effect root y z) \<Longrightarrow> user_effect root x z"
  using user_effect_state user_effect_trans by blast

lemma user_invalidate_effect:
  assumes "user_state root (cpu_hart p, b)" "invalidate_reservation_for_store p b a n = (p', b')"
  shows "user_effect root (cpu_hart p, b) (cpu_hart p', b')"
proof -
  have ok: "mmu_ok (cpu_hart p, b) root" using assms(1) by (simp add: user_state_def)
  obtain t h1 b1 where t: "mmu_translate (cpu_hart p, b) a Access_Store False = (t, (h1, b1))" by (metis prod.exhaust)
  note e = translate_effect(1) [OF assms(1) t]
  show ?thesis using assms(2) t e user_effect_refl [OF ok]
    by (auto simp: invalidate_reservation_for_store_def split: if_splits sum.splits)
qed

lemma user_memory_effect:
  assumes st: "user_state root (mmu_of m)" and c: "commit_memory m e = (r, m1)"
  shows "user_effect root (mmu_of m) (mmu_of m1)"
proof -
  let ?q = "eff_mem e"
  have ok: "mmu_ok (mmu_of m) root" using st by (simp add: user_state_def)
  show ?thesis
  proof (cases "mq_kind ?q = Mem_Load \<and> \<not> rw_enable (eff_rd e) \<and> \<not> rw_enable (eff_fp e)")
    case True
    obtain v x where l: "load_result (mmu_of m) (mq_addr ?q) (mq_size ?q) = (v, x)" by (metis prod.exhaust)
    have "m1 = set_mmu m x" using c True l by (auto simp: commit_memory_def Let_def split: sum.splits)
    then show ?thesis using user_load_effect [OF st l] by simp
  next
    case nl: False
    show ?thesis
    proof (cases "mq_kind ?q = Mem_Store")
      case True
      obtain f x where s: "store_result (mmu_of m) (mq_addr ?q) (mq_store_value ?q) (mq_size ?q) = (f, x)"
        by (metis prod.exhaust)
      obtain p b where i: "invalidate_reservation_for_store (mc_cpu (set_mmu m x)) (mc_bus (set_mmu m x))
          (mq_addr ?q) (mq_size ?q) = (p, b)" by (metis prod.exhaust)
      have e1: "user_effect root (mmu_of m) (mmu_of (set_mmu m x))" using user_store_effect [OF st s] by simp
      have "user_effect root (mmu_of m) (cpu_hart p, b)"
        by (rule user_effect_then [OF st e1]) (rule user_invalidate_effect [OF _ i])
      moreover have "m1 = set_mmu m x \<or> m1 = (set_mmu m x)\<lparr>mc_cpu := p, mc_bus := b\<rparr>"
        using c nl True s i by (auto simp: commit_memory_def Let_def split: option.splits)
      ultimately show ?thesis using e1 by auto
    next
      case False
      then show ?thesis using c nl user_effect_refl [OF ok] by (auto simp: commit_memory_def Let_def)
    qed
  qed
qed

text \<open>An aligned access stays in its page.\<close>

lemma unat_low_bits: "unat (a AND 3) = unat a mod 4" "unat (a AND 7) = unat a mod 8" for a :: u64
proof -
  have m: "(3 :: u64) = mask 2" "(7 :: u64) = mask 3" by (simp_all add: mask_eq_exp_minus_1)
  have t: "unat (take_bit 2 a) = take_bit 2 (unat a)" "unat (take_bit 3 a) = take_bit 3 (unat a)"
    by (rule unsigned_take_bit_eq)+
  have p: "take_bit 2 (unat a) = unat a mod 4" "take_bit 3 (unat a) = unat a mod 8"
    by (simp_all only: take_bit_eq_mod) simp_all
  show "unat (a AND 3) = unat a mod 4" "unat (a AND 7) = unat a mod 8"
    unfolding m take_bit_eq_mask [symmetric] t p by (rule refl)+
qed

lemma multiple_in_page:
  fixes x :: nat
  assumes "x mod k = 0" "k = 4 \<or> k = 8"
  shows "x mod 4096 + k \<le> 4096"
proof -
  have "k dvd 4096" using assms(2) by auto
  then have "(x mod 4096) mod k = 0" using assms(1) by (simp add: mod_mod_cancel)
  then obtain q where q: "x mod 4096 = k * q" by (auto simp: mod_eq_0_iff_dvd)
  have "k * q < 4096" unfolding q [symmetric] by simp
  then show ?thesis unfolding q using assms(2) by auto
qed

lemma aligned_in_page:
  assumes "n = 4 \<or> n = 8" "\<not> is_misaligned a n"
  shows "unat a mod 4096 + nat n \<le> 4096"
proof -
  have "unat a mod nat n = 0"
    using assms unat_low_bits [of a] by (auto simp: is_misaligned_def)
  moreover have "nat n = 4 \<or> nat n = 8" using assms(1) by auto
  ultimately show ?thesis by (rule multiple_in_page)
qed

text \<open>A physical access to the address a store translation gave.\<close>

lemma user_bus_load:
  assumes st: "user_state root (h, b)" and v: "page_view (bus_ram b) root h ty w = Some a" and l: "bus_load b a n = (r, b')"
  shows "bus_ram b' = bus_ram b" "user_effect root (h, b) (h, b')"
proof -
  have q: "quiet_at b a" using st v by (auto simp: user_state_def quiet_pages_def)
  show "bus_ram b' = bus_ram b" by (rule quiet_load [OF q l])
  then show "user_effect root (h, b) (h, b')"
    using same_ram_effect bus_ops_devices(1) [OF l] st by (auto simp: user_state_def)
qed

lemma user_atomic_effect:
  assumes st: "user_state root (cpu_hart p, b)" and a: "apply_atomic_request p b q = (r, p', b')"
  shows "user_effect root (cpu_hart p, b) (cpu_hart p', b')"
proof -
  let ?ty = "if aq_kind q = Load_Reserved then Access_Load else Access_Store"
  let ?v = "aq_addr q" and ?n = "aq_size q"
  have ok: "mmu_ok (cpu_hart p, b) root" using st by (simp add: user_state_def)
  obtain t h1 b1 where t: "mmu_translate (cpu_hart p, b) ?v ?ty True = (t, (h1, b1))" by (metis prod.exhaust)
  have e1: "user_effect root (cpu_hart p, b) (h1, b1)" by (rule translate_effect(1) [OF st t])
  show ?thesis
  proof (cases "aq_kind q = Atomic_None \<or> (?n \<noteq> 4 \<and> ?n \<noteq> 8) \<or> is_misaligned ?v ?n")
    case True
    then have "p' = p" "b' = b" using a by (auto simp: apply_atomic_request_def Let_def split: if_splits)
    then show ?thesis using user_effect_refl [OF ok] by simp
  next
    case g: False
    show ?thesis
    proof (cases t)
      case (Inl f)
      then have "cpu_hart p' = h1" "b' = b1" using a g t by (auto simp: apply_atomic_request_def Let_def)
      then show ?thesis using e1 by simp
    next
      case (Inr paddr)
      have st1: "user_state root (h1, b1)" by (rule user_effect_state [OF st e1])
      have page: "unat ?v mod 4096 + nat ?n \<le> 4096" using g by (intro aligned_in_page) auto
      have view: "page_view (bus_ram b1) root h1 ?ty ?v = Some paddr"
        using page_view_effect [OF e1] translate_effect(2) [OF st t Inr] by simp
      have load: "bus_ram b2 = bus_ram b1" "user_effect root (h1, b1) (h1, b2)" if "bus_load b1 paddr ?n = (k, b2)" for k b2
        by (rule user_bus_load [OF st1 view that])+
      have store: "user_effect root (h1, b2) (h1, b3)"
        if "aq_kind q \<noteq> Load_Reserved" "bus_load b1 paddr ?n = (k, b2) \<or> b2 = b1" "bus_store b2 paddr v ?n = (ok, b3)"
        for k v ok b2 b3
      proof (rule store_chunk [OF _ _ page that(3)])
        have ram: "bus_ram b2 = bus_ram b1" using that(2) load(1) by blast
        then show "page_view (bus_ram b2) root h1 Access_Store ?v = Some paddr" using view that(1) by simp
        show "user_state root (h1, b2)" using that(2) st1 user_effect_state [OF st1 load(2)] by blast
      qed
      have "user_effect root (h1, b1) (cpu_hart p', b')"
      proof -
        consider "aq_kind q = Load_Reserved" | "aq_kind q = Store_Conditional"
          | "aq_kind q \<noteq> Load_Reserved" "aq_kind q \<noteq> Store_Conditional" by blast
        then show ?thesis
        proof cases
          case 1
          obtain k b2 where l: "bus_load b1 paddr ?n = (k, b2)" by (metis prod.exhaust)
          then have "cpu_hart p' = h1" "b' = b2"
            using a g t Inr 1
            by (auto simp: apply_atomic_request_def Let_def apply_load_reserved_def split: option.splits)
          then show ?thesis using load(2) [OF l] by simp
        next
          case 2
          obtain k b3 where s: "bus_store b1 paddr (store_masked_value (aq_store_value q) ?n) ?n = (k, b3)"
            by (metis prod.exhaust)
          have "cpu_hart p' = h1 \<and> (b' = b1 \<or> b' = b3)"
            using a g t Inr 2 s
            by (auto simp: apply_atomic_request_def Let_def apply_store_conditional_def split: if_splits bool.splits)
          then show ?thesis using store [OF _ _ s] 2 user_effect_refl [of "(h1, b1)" root] st1
            by (auto simp: user_state_def)
        next
          case 3
          obtain k b2 where l: "bus_load b1 paddr ?n = (k, b2)" by (metis prod.exhaust)
          show ?thesis
          proof (cases k)
            case None
            then have "cpu_hart p' = h1" "b' = b2"
              using a g t Inr 3 l by (auto simp: apply_atomic_request_def Let_def apply_amo_def)
            then show ?thesis using load(2) [OF l] by simp
          next
            case (Some x)
            obtain ok' b3 where s: "bus_store b2 paddr (store_masked_value
                (compute_amo_result (aq_kind q) x (aq_store_value q) ?n) ?n) ?n = (ok', b3)" by (metis prod.exhaust)
            have "cpu_hart p' = h1 \<and> b' = b3"
              using a g t Inr 3 l Some s
              by (auto simp: apply_atomic_request_def Let_def apply_amo_def split: bool.splits)
            then show ?thesis using user_effect_trans [OF load(2) [OF l] store [OF 3(1) disjI1 [OF l] s]] by simp
          qed
        qed
      qed
      then show ?thesis by (rule user_effect_trans [OF e1])
    qed
  qed
qed

text \<open>The vector unit: it looks at every byte of a span before the first access.\<close>

lemma user_validate_effect:
  "user_state root x \<Longrightarrow> validate_span_loop x a n ty s = (r, y) \<Longrightarrow> user_effect root x y"
proof (induction n arbitrary: x a s)
  case 0
  then show ?case using user_effect_refl [of x root] by (simp add: user_state_def)
next
  case (Suc n)
  obtain t h1 b1 where t: "mmu_translate x a ty False = (t, (h1, b1))" by (metis prod.exhaust)
  note e = translate_effect(1) [OF Suc.prems(1) t]
  have "user_effect root x y" if "validate_span_loop (h1, b1) (a + 1) n ty s' = (r, y)" for s'
    by (rule user_effect_then [OF Suc.prems(1) e Suc.IH [OF _ that]])
  then show ?case using Suc.prems(2) t e by (auto simp: Let_def split: sum.splits option.splits if_splits)
qed

lemma user_vector_load_loop:
  "user_state root x \<Longrightarrow> vector_load_loop x a i n reg = (r, y) \<Longrightarrow> user_effect root x y"
proof (induction n arbitrary: x i reg)
  case 0
  then show ?case using user_effect_refl [of x root] by (simp add: user_state_def)
next
  case (Suc n)
  obtain t x1 where t: "load_result x (a + of_nat i) 1 = (t, x1)" by (metis prod.exhaust)
  note e = user_load_effect [OF Suc.prems(1) t]
  have "user_effect root x y" if "vector_load_loop x1 a j n reg' = (r, y)" for j reg'
    by (rule user_effect_then [OF Suc.prems(1) e Suc.IH [OF _ that]])
  then show ?case using Suc.prems(2) t e by (auto split: sum.splits)
qed

lemma user_vector_store_loop:
  "user_state root x \<Longrightarrow> vector_store_loop x a i n reg = (r, y) \<Longrightarrow> user_effect root x y"
proof (induction n arbitrary: x i)
  case 0
  then show ?case using user_effect_refl [of x root] by (simp add: user_state_def)
next
  case (Suc n)
  obtain t x1 where t: "store_result x (a + of_nat i) (ucast (reg i)) 1 = (t, x1)" by (metis prod.exhaust)
  note e = user_store_effect [OF Suc.prems(1) t]
  have "user_effect root x y" if "vector_store_loop x1 a j n reg = (r, y)" for j
    by (rule user_effect_then [OF Suc.prems(1) e Suc.IH [OF _ that]])
  then show ?case using Suc.prems(2) t e by (auto split: option.splits)
qed

lemma user_vector_effect:
  assumes st: "user_state root x" and a: "apply_vector_request x v q = (t, v', y)"
  shows "user_effect root x y"
proof -
  have ok: "user_effect root x x" using st by (intro user_effect_refl) (simp add: user_state_def)
  have ld: "user_effect root x y" if l: "vector_load x v q = (t, v', y)" for t
  proof (cases "read_runtime_config v")
    case None
    then show ?thesis using l ok by (simp add: vector_load_def)
  next
    case (Some c)
    obtain sew vl where c: "c = (sew, vl)" by (cases c)
    obtain f x1 where s: "validate_span_loop x (vq_addr q) (unat vl * unat sew) Access_Load None = (f, x1)"
      by (metis prod.exhaust)
    obtain k x2 where w: "vector_load_loop x1 (vq_addr q) 0 (unat vl * unat sew) (\<lambda>_. 0) = (k, x2)" by (metis prod.exhaust)
    have e: "user_effect root x x1" by (rule user_validate_effect [OF st s])
    have "user_effect root x x2" by (rule user_effect_then [OF st e user_vector_load_loop [OF _ w]])
    then show ?thesis using l ok Some c s w e
      by (auto simp: vector_load_def validate_vector_memory_span_def Let_def split: if_splits option.splits sum.splits)
  qed
  have sto: "user_effect root x y" if l: "vector_store x v q = (t, v', y)" for t
  proof (cases "read_runtime_config v")
    case None
    then show ?thesis using l ok by (simp add: vector_store_def)
  next
    case (Some c)
    obtain sew vl where c: "c = (sew, vl)" by (cases c)
    obtain f x1 where s: "validate_span_loop x (vq_addr q) (unat vl * unat sew) Access_Store None = (f, x1)"
      by (metis prod.exhaust)
    obtain k x2 where w: "vector_store_loop x1 (vq_addr q) 0 (unat vl * unat sew) (vector_read_reg v (vq_vs2 q)) = (k, x2)"
      by (metis prod.exhaust)
    have e: "user_effect root x x1" by (rule user_validate_effect [OF st s])
    have "user_effect root x x2" by (rule user_effect_then [OF st e user_vector_store_loop [OF _ w]])
    then show ?thesis using l ok Some c s w e
      by (auto simp: vector_store_def validate_vector_memory_span_def Let_def split: if_splits option.splits)
  qed
  show ?thesis using a ok ld sto
    by (auto simp: apply_vector_request_def split: vector_kind.splits option.splits if_splits)
qed

end
