(* ===== verification/UserProgram.thy ===== *)
theory UserProgram
  imports UserConfinement
begin

text \<open>
  User programs on the whole hart, step after step of \<open>cpu_step\<close> with the interrupts between the
  instructions, until the hart leaves user mode: what a program can do to memory, to the control and
  status registers and to the mode, whatever its code is.
\<close>

subsection \<open>Registers while user code runs\<close>










subsection \<open>The machine while user code runs\<close>














subsection \<open>One instruction\<close>


















subsection \<open>Fetch, execution and the cycle counter\<close>







subsection \<open>Interrupts\<close>






subsection \<open>Programs\<close>










end
