(* ===== verification/IntegerSpec.thy ===== *)
theory IntegerSpec
  imports IntegerOps
begin

text \<open>
  The arithmetic of the RISC-V manual, once for both widths: \<open>rv_alu\<close> gives the result of an operation
  on \<open>w\<close>-bit two's-complement integers as an integer, before it is wrapped to the register.  The
  theorems of this theory show that the four tables of the execution unit are this one table.
\<close>

definition rv_alu :: "nat \<Rightarrow> u8 \<Rightarrow> u8 \<Rightarrow> int \<Rightarrow> int \<Rightarrow> int option" where
  "rv_alu w f3 f7 a b =
     (let ua = a mod 2 ^ w; ub = b mod 2 ^ w; sh = nat (b mod int w) in
      if f7 = 0x00 then
        (if f3 = 0 then Some (a + b)
         else if f3 = 1 then Some (a * 2 ^ sh)
         else if f3 = 2 then Some (of_bool (a < b))
         else if f3 = 3 then Some (of_bool (ua < ub))
         else if f3 = 4 then Some (a XOR b)
         else if f3 = 5 then Some (ua div 2 ^ sh)
         else if f3 = 6 then Some (a OR b)
         else if f3 = 7 then Some (a AND b)
         else None)
      else if f7 = 0x20 then
        (if f3 = 0 then Some (a - b)
         else if f3 = 5 then Some (a div 2 ^ sh)
         else None)
      else if f7 = 0x01 then
        (if f3 = 0 then Some (a * b)
         else if f3 = 1 then Some (a * b div 2 ^ w)
         else if f3 = 2 then Some (a * ub div 2 ^ w)
         else if f3 = 3 then Some (ua * ub div 2 ^ w)
         else if f3 = 4 then Some (if b = 0 then - 1 else a sdiv b)
         else if f3 = 5 then Some (if b = 0 then - 1 else ua div ub)
         else if f3 = 6 then Some (if b = 0 then a else a smod b)
         else if f3 = 7 then Some (if b = 0 then a else ua mod ub)
         else None)
      else None)"

text \<open>The operations that have a 32-bit form.\<close>

definition has_word_form :: "u8 \<Rightarrow> u8 \<Rightarrow> bool" where
  "has_word_form f3 f7 \<longleftrightarrow> f7 = 0x00 \<and> f3 \<in> {0, 1, 5} \<or> f7 = 0x20 \<and> f3 \<in> {0, 5} \<or> f7 = 0x01 \<and> f3 \<in> {0, 4, 5, 6, 7}"

subsection \<open>Words and the integers they stand for\<close>

lemma wi_sint [simp]: "word_of_int (sint a) = (a :: 'a::len word)"
  by simp

lemma sint_mod: "sint (a :: 'a::len word) mod 2 ^ LENGTH('a) = uint a"
  by (simp add: uint_sint take_bit_eq_mod)

lemma wi_add: "word_of_int (sint a + sint b) = (a + b :: 'a::len word)"
  by (simp add: wi_hom_add [symmetric] del: wi_hom_add)

lemma wi_sub: "word_of_int (sint a - sint b) = (a - b :: 'a::len word)"
  by (simp add: wi_hom_sub [symmetric] del: wi_hom_sub)

lemma wi_mul: "word_of_int (sint a * sint b) = (a * b :: 'a::len word)"
  by (simp add: wi_hom_mult [symmetric] del: wi_hom_mult)

lemma wi_shl: "word_of_int (sint a * 2 ^ n) = push_bit n (a :: 'a::len word)"
  by (simp add: push_bit_eq_mult wi_hom_mult [symmetric] del: wi_hom_mult)

lemma wi_sra: "word_of_int (sint a div 2 ^ n) = signed_drop_bit n (a :: 'a::len word)"
  by (metis drop_bit_eq_div sint_signed_drop_bit_eq wi_sint)

lemma wi_srl: "word_of_int (uint a div 2 ^ n) = drop_bit n (a :: 'a::len word)"
proof -
  have "uint (drop_bit n a) = drop_bit n (uint a)"
    by (rule bit_eqI) (auto simp: bit_unsigned_iff bit_drop_bit_eq dest: bit_imp_le_length)
  then have "uint (drop_bit n a) = uint a div 2 ^ n" by (simp only: drop_bit_eq_div)
  then show ?thesis by (metis word_of_int_uint)
qed

lemma wi_xor: "word_of_int (sint a XOR sint b) = (a XOR b :: 'a::len word)"
  by (simp add: of_int_xor_eq)

lemma wi_or: "word_of_int (sint a OR sint b) = (a OR b :: 'a::len word)"
  by (simp add: of_int_or_eq)

lemma wi_and: "word_of_int (sint a AND sint b) = (a AND b :: 'a::len word)"
  by (simp add: of_int_and_eq)

lemma wi_div: "word_of_int (uint a div uint b) = (a div b :: 'a::len word)"
  by (metis uint_div word_of_int_uint)

lemma wi_mod: "word_of_int (uint a mod uint b) = (a mod b :: 'a::len word)"
  by (metis uint_mod word_of_int_uint)

lemma sint_zero_iff: "sint (a :: 'a::len word) = 0 \<longleftrightarrow> a = 0"
  by (metis signed_0 wi_sint word_of_int_0)

lemma high_half: "ucast (drop_bit 64 (word_of_int p :: 128 word)) = (word_of_int (p div 2 ^ 64) :: u64)"
proof (rule bit_word_eqI)
  fix n assume "n < LENGTH(64)"
  then have n: "n < 64" by simp
  have "bit (ucast (drop_bit 64 (word_of_int p :: 128 word)) :: u64) n \<longleftrightarrow> bit p (64 + n)"
    using n by (simp add: bit_ucast_iff bit_drop_bit_eq bit_word_of_int_iff)
  moreover have "bit (word_of_int (p div 2 ^ 64) :: u64) n \<longleftrightarrow> bit (drop_bit 64 p) n"
    using n by (simp add: bit_word_of_int_iff drop_bit_eq_div)
  ultimately show "bit (ucast (drop_bit 64 (word_of_int p :: 128 word)) :: u64) n =
      bit (word_of_int (p div 2 ^ 64) :: u64) n"
    by (simp add: bit_drop_bit_eq)
qed

lemma mul_high_int:
  "mul_high (scast a) (scast b) = word_of_int (sint a * sint b div 2 ^ 64)"
  "mul_high (scast a) (ucast b) = word_of_int (sint a * uint b div 2 ^ 64)"
  "mul_high (ucast a) (ucast b) = word_of_int (uint a * uint b div 2 ^ 64)"
  for a b :: u64
proof -
  have s: "(scast x :: 128 word) = word_of_int (sint x)" for x :: u64 by simp
  have u: "(ucast x :: 128 word) = word_of_int (uint x)" for x :: u64 by simp
  show "mul_high (scast a) (scast b) = word_of_int (sint a * sint b div 2 ^ 64)"
    unfolding mul_high_def s wi_hom_mult by (rule high_half)
  show "mul_high (scast a) (ucast b) = word_of_int (sint a * uint b div 2 ^ 64)"
    unfolding mul_high_def s u wi_hom_mult by (rule high_half)
  show "mul_high (ucast a) (ucast b) = word_of_int (uint a * uint b div 2 ^ 64)"
    unfolding mul_high_def u wi_hom_mult by (rule high_half)
qed

subsection \<open>Division and remainder\<close>

lemma div_signed_int: "div_signed a b = word_of_int (if sint b = 0 then - 1 else sint a sdiv sint b)"
proof -
  have "word_of_int (- (2 ^ 63)) = (word_of_int (2 ^ 63) :: u64)" by simp
  moreover have "a = word_of_int (- (2 ^ 63))" if "sint a = - (2 ^ 63)" by (metis that wi_sint)
  moreover have "sint a sdiv - 1 = 2 ^ 63" if "sint a = - (2 ^ 63)" by (simp add: that)
  ultimately show ?thesis
    by (auto simp: div_signed_def INT64_MIN_def sint_zero_iff)
qed

lemma rem_signed_int: "rem_signed a b = word_of_int (if sint b = 0 then sint a else sint a smod sint b)"
proof -
  have "sint a smod - 1 = 0" by (simp add: signed_modulo_int_def signed_divide_int_def)
  then show ?thesis by (auto simp: rem_signed_def sint_zero_iff)
qed

lemma div_signed_word_int:
  "div_signed_word a b = sign_extend_word
     (word_of_int (if sint (low32 b) = 0 then - 1 else sint (low32 a) sdiv sint (low32 b)))"
proof -
  have "sign_extend_word (- 2147483648) = sign_extend_word 2147483648" by (rule arg_cong) simp
  moreover have "low32 a = word_of_int (- (2 ^ 31))" if "sint (low32 a) = - (2 ^ 31)" by (metis that wi_sint)
  moreover have "sint (low32 a) sdiv - 1 = 2 ^ 31" if "sint (low32 a) = - (2 ^ 31)" by (simp add: that)
  moreover have "sign_extend_word (- 1) = - 1" by (simp add: sign_extend_word_def)
  ultimately show ?thesis
    by (auto simp: div_signed_word_def INT32_MIN_def Let_def)
qed

lemma rem_signed_word_int:
  "rem_signed_word a b = sign_extend_word
     (word_of_int (if sint (low32 b) = 0 then sint (low32 a) else sint (low32 a) smod sint (low32 b)))"
proof -
  have "sint (low32 a) smod - 1 = 0" by (simp add: signed_modulo_int_def signed_divide_int_def)
  moreover have "sign_extend_word 0 = 0" by (simp add: sign_extend_word_def)
  ultimately show ?thesis by (auto simp: rem_signed_word_def Let_def)
qed

subsection \<open>Truncation to 32 bits and shift amounts\<close>

lemma low32_wi: "low32 (word_of_int x) = word_of_int x"
  by (rule bit_word_eqI) (simp add: low32_def bit_ucast_iff bit_word_of_int_iff)

lemma low32_sint: "low32 a = word_of_int (sint a)"
  by (metis low32_wi wi_sint)

lemma low32_add: "low32 (a + b) = low32 a + low32 b"
  by (metis low32_sint low32_wi wi_add wi_hom_add)

lemma low32_sub: "low32 (a - b) = low32 a - low32 b"
  by (metis low32_sint low32_wi wi_sub wi_hom_sub)

lemma low32_mul: "low32 (a * b) = low32 a * low32 b"
  by (metis low32_sint low32_wi wi_mul wi_hom_mult)

lemma take_bit_sint: "n \<le> LENGTH('a) \<Longrightarrow> take_bit n (sint a) = take_bit n (uint (a :: 'a::len word))"
  by (rule bit_eqI) (auto simp: bit_take_bit_iff bit_sint_iff bit_uint_iff)

lemma shift_amount:
  "unat (b AND 63) = nat (sint b mod 64)" "unat (b AND 31) = nat (sint (low32 b) mod 32)" for b :: u64
proof -
  have "(63 :: u64) = mask 6" "(31 :: u64) = mask 5" by (simp_all add: mask_eq_exp_minus_1)
  then have u: "uint (b AND 63) = take_bit 6 (uint b)" "uint (b AND 31) = take_bit 5 (uint b)"
    by (simp_all only: take_bit_eq_mask [symmetric] unsigned_take_bit_eq)
  have "take_bit 5 (sint (low32 b)) = take_bit 5 (uint b)"
    by (subst take_bit_sint) (simp_all add: low32_def unsigned_ucast_eq)
  moreover have "take_bit 6 (sint b) = take_bit 6 (uint b)" by (rule take_bit_sint) simp
  ultimately show "unat (b AND 63) = nat (sint b mod 64)" "unat (b AND 31) = nat (sint (low32 b) mod 32)"
    using u by (simp_all add: nat_uint_eq [symmetric] take_bit_eq_mod)
qed

subsection \<open>The four tables\<close>

fun table_result :: "(int \<Rightarrow> u64) \<Rightarrow> int option \<Rightarrow> alu_result" where
  "table_result wrap None = Alu_Illegal"
| "table_result wrap (Some r) = Alu_Value (wrap r)"

definition wrap64 :: "int \<Rightarrow> u64" where "wrap64 r = word_of_int r"
definition wrap32 :: "int \<Rightarrow> u64" where "wrap32 r = sign_extend_word (word_of_int r)"

lemma wrap64_flag: "wrap64 (of_bool p) = flag p"
  by (simp add: wrap64_def flag_def)

lemma u8_funct3_cases: "f3 \<in> {0, 1, 2, 3, 4, 5, 6, 7 :: u8} \<or> f3 \<notin> {0, 1, 2, 3, 4, 5, 6, 7}"
  by blast

lemmas wrap64_ops = wi_add wi_sub wi_mul wi_shl wi_sra wi_srl wi_xor wi_or wi_and wi_div wi_mod

lemma uint_mod_64: "sint (a :: u64) mod 18446744073709551616 = uint a"
  using sint_mod [of a] by simp

lemma uint_mod_32: "sint (a :: u32) mod 4294967296 = uint a"
  using sint_mod [of a] by simp

lemma uless: "uint a < uint b \<longleftrightarrow> a < (b :: 'a::len word)"
  by (simp add: word_less_def)

lemma op_reg_table:
  "op_reg i a b = table_result wrap64 (rv_alu 64 (funct3 i) (funct7 i) (sint a) (sint b))"
proof -
  note tbl = op_reg_def rv_alu_def Let_def is_valid_integer_reg_encoding_def uint_mod_64 shift_amount [symmetric]
  have m: "funct7 i = 1 \<Longrightarrow> ?thesis"
    by (simp add: tbl wrap64_def wi_mul mul_high_int div_signed_int rem_signed_int wi_div wi_mod sint_zero_iff)
  have z: "funct7 i = 0 \<Longrightarrow> ?thesis"
    by (simp add: tbl wrap64_flag uless) (simp add: wrap64_def wrap64_ops push_bit_eq_mult)
  have s: "funct7 i = 0x20 \<Longrightarrow> ?thesis"
    by (simp add: tbl) (simp add: wrap64_def wrap64_ops)
  have "funct7 i \<notin> {0, 1, 0x20} \<Longrightarrow> ?thesis" by (simp add: tbl)
  then show ?thesis using m z s by blast
qed

text \<open>The host divides by the low half of a register it has tested as a whole.\<close>

definition host_divides_by_zero :: "insn \<Rightarrow> u64 \<Rightarrow> bool" where
  "host_divides_by_zero i b \<longleftrightarrow>
     opcode i = 0x3B \<and> funct7 i = 1 \<and> (funct3 i = 5 \<or> funct3 i = 7) \<and> b \<noteq> 0 \<and> low32 b = 0"

lemma op_reg_32_table:
  assumes "opcode i = 0x3B" "\<not> host_divides_by_zero i b"
  shows "op_reg_32 i a b =
    (if has_word_form (funct3 i) (funct7 i)
     then table_result wrap32 (rv_alu 32 (funct3 i) (funct7 i) (sint (low32 a)) (sint (low32 b))) else Alu_Illegal)"
proof -
  note tbl = op_reg_32_def rv_alu_def Let_def is_valid_integer_word_reg_encoding_def uint_mod_32
    shift_amount [symmetric] has_word_form_def
  have l0: "low32 0 = 0" by (simp add: low32_def)
  have n1: "sign_extend_word (- 1) = - 1" by (simp add: sign_extend_word_def)
  have m: "funct7 i = 1 \<Longrightarrow> ?thesis"
    using assms l0 n1
    by (auto simp: tbl wrap32_def wi_mul low32_mul div_signed_word_int rem_signed_word_int wi_div wi_mod
        host_div32_def host_rem32_def host_divides_by_zero_def sint_zero_iff)
  have z: "funct7 i = 0 \<Longrightarrow> ?thesis"
    by (simp add: tbl) (simp add: wrap32_def wrap64_ops low32_add push_bit_eq_mult)
  have s: "funct7 i = 0x20 \<Longrightarrow> ?thesis"
    by (simp add: tbl) (simp add: wrap32_def wrap64_ops low32_sub)
  have "funct7 i \<notin> {0, 1, 0x20} \<Longrightarrow> ?thesis" by (simp add: tbl)
  then show ?thesis using m z s by blast
qed

text \<open>The immediate forms: the shifts take their amount and their kind from the encoding, every other
  operation takes the sign-extended immediate as its second operand.\<close>

lemma imm_shamt_mod:
  assumes "rs2 i < 32"
  shows "nat (uint (imm_shamt i) mod 64) = unat (imm_shamt i)"
proof -
  have "unat (rs2 i) < 2 ^ 5" using assms by (simp add: word_less_nat_alt)
  then have "unat (take_bit 5 (rs2 i)) = unat (rs2 i)"
    by (simp only: unsigned_take_bit_eq take_bit_nat_eq_self)
  then have r: "take_bit 5 (rs2 i) = rs2 i" by (simp only: word_unat_eq_iff)
  have "take_bit 6 (imm_shamt i) = imm_shamt i"
  proof (rule bit_word_eqI)
    fix n
    have "bit (rs2 i) n \<Longrightarrow> n < 5" using r by (metis bit_take_bit_iff)
    moreover have "bit (push_bit 5 (funct7 i AND 1)) n \<Longrightarrow> n = 5"
      by (simp only: bit_push_bit_iff bit_and_iff bit_1_iff) auto
    ultimately show "bit (take_bit 6 (imm_shamt i)) n = bit (imm_shamt i) n"
      by (simp only: imm_shamt_def bit_take_bit_iff bit_or_iff) auto
  qed
  then have "uint (imm_shamt i) = take_bit 6 (uint (imm_shamt i))" by (metis unsigned_take_bit_eq)
  then have "uint (imm_shamt i) mod 64 = uint (imm_shamt i)" by (simp add: take_bit_eq_mod)
  then show ?thesis by (simp add: nat_uint_eq)
qed

lemma op_imm_table:
  assumes "rs2 i < 32"
  shows "op_imm i a im =
    (if funct3 i = 1 \<or> funct3 i = 5
     then table_result wrap64 (rv_alu 64 (funct3 i) (funct7 i AND 0x7E) (sint a) (uint (imm_shamt i)))
     else table_result wrap64 (rv_alu 64 (funct3 i) 0 (sint a) (sint im)))"
proof -
  note tbl = op_imm_def rv_alu_def Let_def is_valid_shift_immediate_encoding_def uint_mod_64
    imm_shamt_mod [OF assms]
  have one: "funct7 i AND 0x7E \<noteq> 1"
  proof
    assume "funct7 i AND 0x7E = 1"
    then have "bit (funct7 i AND 0x7E) 0" by simp
    then show False by (simp add: bit_and_iff)
  qed
  have f20: "funct7 i AND 0x20 = (funct7 i AND 0x7E) AND 0x20" by (simp add: and.assoc)
  show ?thesis
    using one
    by (simp add: tbl wrap64_flag uless f20) (simp add: wrap64_def wrap64_ops push_bit_eq_mult)
qed

lemma op_imm_32_table:
  assumes "rs2 i < 32"
  shows "op_imm_32 i a im =
    (if funct3 i = 0 then table_result wrap32 (rv_alu 32 0 0 (sint (low32 a)) (sint (low32 im)))
     else if (funct3 i = 1 \<or> funct3 i = 5) \<and> funct7 i \<noteq> 1
     then table_result wrap32 (rv_alu 32 (funct3 i) (funct7 i) (sint (low32 a)) (uint (rs2 i)))
     else Alu_Illegal)"
proof -
  have "uint (rs2 i) < 32" using assms by (simp add: word_less_def)
  then have sh: "nat (uint (rs2 i) mod 32) = unat (rs2 i)" by (simp add: nat_uint_eq)
  show ?thesis
    by (simp add: op_imm_32_def rv_alu_def Let_def is_valid_shift_word_immediate_encoding_def uint_mod_32 sh)
      (simp add: wrap32_def wrap64_ops push_bit_eq_mult low32_add)
qed

subsection \<open>The execution unit against the manual\<close>

text \<open>What the manual makes of an instruction of the six arithmetic opcodes: the value for \<open>rd\<close>, or
  nothing for a reserved encoding.\<close>

definition manual_result :: "insn \<Rightarrow> u64 \<Rightarrow> u64 \<Rightarrow> u64 \<Rightarrow> u64 \<Rightarrow> u64 option" where
  "manual_result i a b im pc =
     (let f3 = funct3 i; f7 = funct7 i; shift = (f3 = 1 \<or> f3 = 5) in
      if opcode i = 0x37 then Some im
      else if opcode i = 0x17 then Some (pc + im)
      else if opcode i = 0x13 then
        map_option wrap64
          (if shift then rv_alu 64 f3 (f7 AND 0x7E) (sint a) (uint (imm_shamt i)) else rv_alu 64 f3 0 (sint a) (sint im))
      else if opcode i = 0x1B then
        map_option wrap32
          (if f3 = 0 then rv_alu 32 0 0 (sint (low32 a)) (sint (low32 im))
           else if shift \<and> f7 \<noteq> 1 then rv_alu 32 f3 f7 (sint (low32 a)) (uint (rs2 i)) else None)
      else if opcode i = 0x33 then map_option wrap64 (rv_alu 64 f3 f7 (sint a) (sint b))
      else if has_word_form f3 f7 then map_option wrap32 (rv_alu 32 f3 f7 (sint (low32 a)) (sint (low32 b)))
      else None)"

lemma alu_effects_table:
  "alu_effects i (table_result wrap r) =
     Some (case map_option wrap r of None \<Rightarrow> illegal_instruction_effect (insn_raw i)
           | Some v \<Rightarrow> set_rd no_effects (rd i) v)"
  by (cases r) (simp_all add: alu_effects_def)

lemma alu_effects_Illegal: "alu_effects i Alu_Illegal = Some (illegal_instruction_effect (insn_raw i))"
  by (simp add: alu_effects_def)

text \<open>C15: the integer unit agrees with one table of RISC-V integer arithmetic, written on unbounded
  integers: for each of the six arithmetic opcodes the effect is a write of the table's result, wrapped
  to the width of the operation and sign-extended, to \<open>rd\<close>, and exactly the reserved encodings raise
  an illegal-instruction trap.  The one exception is \<open>DIVUW\<close> and \<open>REMUW\<close> with a divisor whose low half
  is zero and whose high half is not: there the code divides by zero on the host.\<close>

theorem integer_unit_matches_manual:
  assumes "opcode i \<in> {0x37, 0x17, 0x13, 0x1B, 0x33, 0x3B}" "rs2 i < 32"
  shows "build_integer_effects i a b im pc =
    (if host_divides_by_zero i b then None
     else Some (case manual_result i a b im pc of None \<Rightarrow> illegal_instruction_effect (insn_raw i)
                | Some v \<Rightarrow> set_rd no_effects (rd i) v))"
proof (cases "host_divides_by_zero i b")
  case True
  then show ?thesis
    by (auto simp: host_divides_by_zero_def build_integer_effects_def op_reg_32_def host_div32_def host_rem32_def
        alu_effects_def)
next
  case False
  from assms(1) consider "opcode i = 0x37 \<or> opcode i = 0x17" | "opcode i = 0x13" | "opcode i = 0x1B"
    | "opcode i = 0x33" | "opcode i = 0x3B" by blast
  then show ?thesis
  proof cases
    case 1
    then show ?thesis using False by (elim disjE) (simp_all add: build_integer_effects_def manual_result_def Let_def)
  next
    case 2
    then show ?thesis using False
      by (simp add: build_integer_effects_def manual_result_def Let_def op_imm_table [OF assms(2)] alu_effects_table)
  next
    case 3
    then show ?thesis using False
      by (simp add: build_integer_effects_def manual_result_def Let_def op_imm_32_table [OF assms(2)] alu_effects_table
          alu_effects_Illegal)
  next
    case 4
    then show ?thesis using False
      by (simp add: build_integer_effects_def manual_result_def Let_def op_reg_table alu_effects_table)
  next
    case 5
    then show ?thesis using False
      by (simp add: build_integer_effects_def manual_result_def Let_def op_reg_32_table [OF 5 False] alu_effects_table
          alu_effects_Illegal)
  qed
qed

text \<open>\<open>DIV\<close> of the most negative number by \<open>-1\<close>, decoded from its encoding: the quotient wraps to the
  dividend, as the manual asks.\<close>

definition div_insn :: insn where
  "div_insn = decode 0x02C5C533"

lemma div_insn_fields:
  "opcode div_insn = 0x33" "rs2 div_insn = 12" "rd div_insn = 10" "funct3 div_insn = 4" "funct7 div_insn = 1"
  by (simp_all add: div_insn_def decode_def decode_standard_def)

theorem integer_unit_matches_manual_witness:
  "build_integer_effects div_insn (push_bit 63 1) (- 1) 0 0 = Some (set_rd no_effects 10 (push_bit 63 1))"
proof -
  have "manual_result div_insn (push_bit 63 1) (- 1) 0 0 = Some (push_bit 63 1)"
    by (simp add: manual_result_def Let_def div_insn_fields rv_alu_def wrap64_def)
  moreover have "\<not> host_divides_by_zero div_insn (- 1)"
    by (simp add: host_divides_by_zero_def div_insn_fields)
  ultimately show ?thesis
    using integer_unit_matches_manual [of div_insn "push_bit 63 1" "- 1" 0 0] by (simp add: div_insn_fields)
qed

end
