(* ===== verification/DecodeFormats.thy ===== *)
theory DecodeFormats
  imports Decode
begin

text \<open>
  The instruction formats of the RISC-V manual as an encoder, and the decoder as its inverse: every
  register, function code and immediate that was encoded is the one decoded, the immediate
  sign-extended to 64 bits and shifted as the manual says.
\<close>

subsection \<open>The formats of the manual\<close>

datatype standard_insn =
  RType "7 word" "5 word" "3 word" "5 word" "5 word" "7 word"
| IType "7 word" "5 word" "3 word" "5 word" "12 word"
| SType "7 word" "3 word" "5 word" "5 word" "12 word"
| BType "3 word" "5 word" "5 word" "12 word"
| UType "7 word" "5 word" "20 word"
| JType "5 word" "20 word"

text \<open>The fields from the most significant bit down; the immediates of the B and J formats are given without
  their last bit, which is 0.\<close>

definition fields :: "7 word \<Rightarrow> 5 word \<Rightarrow> 5 word \<Rightarrow> 3 word \<Rightarrow> 5 word \<Rightarrow> 7 word \<Rightarrow> u32" where
  "fields a r2 r1 f3 d op =
     word_cat a (word_cat r2 (word_cat r1 (word_cat f3 (word_cat d op :: 12 word) :: 15 word) :: 20 word) :: 25 word)"

fun encode :: "standard_insn \<Rightarrow> u32" where
  "encode (RType op d f3 r1 r2 f7) = fields f7 r2 r1 f3 d op"
| "encode (IType op d f3 r1 i) = fields (ucast (drop_bit 5 i)) (ucast i) r1 f3 d op"
| "encode (SType op f3 r1 r2 i) = fields (ucast (drop_bit 5 i)) r2 r1 f3 (ucast i) op"
| "encode (BType f3 r1 r2 i) =
     fields (word_cat (ucast (drop_bit 11 i) :: 1 word) (ucast (drop_bit 4 i) :: 6 word)) r2 r1 f3
       (word_cat (ucast i :: 4 word) (ucast (drop_bit 10 i) :: 1 word)) 0x63"
| "encode (UType op d i) = fields (ucast (drop_bit 13 i)) (ucast (drop_bit 8 i)) (ucast (drop_bit 3 i)) (ucast i) d op"
| "encode (JType d i) =
     fields (word_cat (ucast (drop_bit 19 i) :: 1 word) (ucast (drop_bit 4 i) :: 6 word))
       (word_cat (ucast i :: 4 word) (ucast (drop_bit 10 i) :: 1 word))
       (ucast (drop_bit 14 i)) (ucast (drop_bit 11 i)) d 0x6F"

fun encodable :: "standard_insn \<Rightarrow> bool" where
  "encodable (RType op d f3 r1 r2 f7) \<longleftrightarrow> op \<in> {0x33, 0x3B, 0x2F, 0x53, 0x43, 0x47, 0x4B, 0x4F, 0x57}"
| "encodable (IType op d f3 r1 i) \<longleftrightarrow> op \<in> {0x03, 0x07, 0x0F, 0x13, 0x1B, 0x67, 0x73}"
| "encodable (SType op f3 r1 r2 i) \<longleftrightarrow> op \<in> {0x23, 0x27}"
| "encodable (BType f3 r1 r2 i) \<longleftrightarrow> True"
| "encodable (UType op d i) \<longleftrightarrow> op \<in> {0x37, 0x17}"
| "encodable (JType d i) \<longleftrightarrow> True"

fun decoded_as :: "insn \<Rightarrow> standard_insn \<Rightarrow> bool" where
  "decoded_as x (RType op d f3 r1 r2 f7) \<longleftrightarrow> opcode x = ucast op \<and> rd x = ucast d \<and> funct3 x = ucast f3 \<and>
     rs1 x = ucast r1 \<and> rs2 x = ucast r2 \<and> funct7 x = ucast f7 \<and> imm x = 0"
| "decoded_as x (IType op d f3 r1 i) \<longleftrightarrow> opcode x = ucast op \<and> rd x = ucast d \<and> funct3 x = ucast f3 \<and>
     rs1 x = ucast r1 \<and> imm x = (if op = 0x0F then 0 else scast i)"
| "decoded_as x (SType op f3 r1 r2 i) \<longleftrightarrow> opcode x = ucast op \<and> funct3 x = ucast f3 \<and> rs1 x = ucast r1 \<and>
     rs2 x = ucast r2 \<and> imm x = scast i"
| "decoded_as x (BType f3 r1 r2 i) \<longleftrightarrow> opcode x = 0x63 \<and> funct3 x = ucast f3 \<and> rs1 x = ucast r1 \<and> rs2 x = ucast r2 \<and>
     imm x = push_bit 1 (scast i)"
| "decoded_as x (UType op d i) \<longleftrightarrow> opcode x = ucast op \<and> rd x = ucast d \<and> imm x = push_bit 12 (scast i)"
| "decoded_as x (JType d i) \<longleftrightarrow> opcode x = 0x6F \<and> rd x = ucast d \<and> imm x = push_bit 1 (scast i)"

subsection \<open>The immediates bit by bit\<close>

lemma masks:
  "(0xFFF00000::32 word) = push_bit 20 (mask 12)" "(0xFE000000::32 word) = push_bit 25 (mask 7)" "(0xF80::32 word) = push_bit 7 (mask 5)"
  "(0x80000000::32 word) = push_bit 31 (mask 1)" "(0x80::32 word) = push_bit 7 (mask 1)" "(0x7E000000::32 word) = push_bit 25 (mask 6)"
  "(0xF00::32 word) = push_bit 8 (mask 4)" "(0xFFFFF000::32 word) = push_bit 12 (mask 20)" "(0x000FF000::32 word) = push_bit 12 (mask 8)"
  "(0x00100000::32 word) = push_bit 20 (mask 1)" "(0x7FE00000::32 word) = push_bit 21 (mask 10)"
  by (simp_all add: mask_eq_exp_minus_1 push_bit_eq_mult)

lemma field_masks:
  "(0x7F::32 word) = mask 7" "(0x1F::32 word) = mask 5" "(0x07::32 word) = mask 3" "(0x3::32 word) = mask 2"
  by (simp_all add: mask_eq_exp_minus_1)

lemma decoded_fields:
  "ucast (fields a r2 r1 f3 d op AND 0x7F) = (ucast op :: u8)" "ucast (drop_bit 7 (fields a r2 r1 f3 d op) AND 0x1F) = (ucast d :: u8)"
  "ucast (drop_bit 12 (fields a r2 r1 f3 d op) AND 0x07) = (ucast f3 :: u8)"
  "ucast (drop_bit 15 (fields a r2 r1 f3 d op) AND 0x1F) = (ucast r1 :: u8)"
  "ucast (drop_bit 20 (fields a r2 r1 f3 d op) AND 0x1F) = (ucast r2 :: u8)"
  "ucast (drop_bit 25 (fields a r2 r1 f3 d op) AND 0x7F) = (ucast a :: u8)"
  "fields a r2 r1 f3 d op AND 0x3 = ucast op AND 0x3"
  unfolding fields_def field_masks by (rule bit_word_eqI; auto simp: bit_simps dest: bit_imp_le_length)+

lemma imm_i: "signed_drop_bit 20 (scast (encode (IType op d f3 r1 i) AND 0xFFF00000) :: 64 word) = scast i"
  unfolding masks encode.simps fields_def by (rule bit_word_eqI) (auto simp: bit_simps min_def)

lemma imm_s:
  "signed_drop_bit 20 (scast ((encode (SType op f3 r1 r2 i) AND 0xFE000000) OR push_bit 13 (encode (SType op f3 r1 r2 i) AND 0xF80)) :: 64 word) = scast i"
  unfolding masks encode.simps fields_def by (rule bit_word_eqI) (auto simp: bit_simps min_def)

lemma imm_u: "(scast (encode (UType op d i) AND 0xFFFFF000) :: 64 word) = push_bit 12 (scast i)"
  unfolding masks encode.simps fields_def by (rule bit_word_eqI) (auto simp: bit_simps min_def)

lemma b_pieces:
  fixes f3 r1 r2 i
  defines "raw \<equiv> encode (BType f3 r1 r2 i)"
  shows "raw AND 0x80000000 = push_bit 31 (ucast (drop_bit 11 i))"
    "push_bit 23 (raw AND 0x80) = push_bit 30 (ucast (drop_bit 10 i) AND mask 1)"
    "drop_bit 1 (raw AND 0x7E000000) = push_bit 24 (ucast (drop_bit 4 i) AND mask 6)"
    "push_bit 12 (raw AND 0xF00) = push_bit 20 (ucast i AND mask 4)"
proof -
  show "raw AND 0x80000000 = push_bit 31 (ucast (drop_bit 11 i))" "drop_bit 1 (raw AND 0x7E000000) = push_bit 24 (ucast (drop_bit 4 i) AND mask 6)"
    "push_bit 12 (raw AND 0xF00) = push_bit 20 (ucast i AND mask 4)"
    unfolding raw_def masks encode.simps fields_def
    by (rule bit_word_eqI; simp only: bit_simps; auto simp: bit_simps dest: bit_imp_le_length)+
  show "push_bit 23 (raw AND 0x80) = push_bit 30 (ucast (drop_bit 10 i) AND mask 1)"
  proof (rule bit_word_eqI)
    fix n
    show "bit (push_bit 23 (raw AND 0x80)) n = bit (push_bit 30 (ucast (drop_bit 10 i) AND mask 1) :: 32 word) n"
      unfolding raw_def masks encode.simps fields_def
      by (cases "n = 30"; simp only: bit_simps; auto simp: bit_simps dest: bit_imp_le_length)
  qed
qed

lemma b_whole:
  "((push_bit 31 (ucast (drop_bit 11 i)) OR push_bit 30 (ucast (drop_bit 10 i) AND mask 1)) OR
     push_bit 24 (ucast (drop_bit 4 i) AND mask 6)) OR push_bit 20 (ucast i AND mask 4) = (push_bit 20 (ucast i) :: 32 word)"
  for i :: "12 word"
proof (rule bit_word_eqI)
  fix n assume "n < LENGTH(32)"
  then consider "n < 20" | "20 \<le> n" "n < 24" | "24 \<le> n" "n < 30" | "n = 30" | "n = 31" by fastforce
  then show "bit (((push_bit 31 (ucast (drop_bit 11 i)) OR push_bit 30 (ucast (drop_bit 10 i) AND mask 1)) OR
     push_bit 24 (ucast (drop_bit 4 i) AND mask 6)) OR push_bit 20 (ucast i AND mask 4) :: 32 word) n = bit (push_bit 20 (ucast i) :: 32 word) n"
    unfolding bit_simps by cases (auto simp: bit_simps)
qed

lemma imm_b:
  "signed_drop_bit 19 (scast ((((encode (BType f3 r1 r2 i) AND 0x80000000) OR push_bit 23 (encode (BType f3 r1 r2 i) AND 0x80)) OR
       drop_bit 1 (encode (BType f3 r1 r2 i) AND 0x7E000000)) OR push_bit 12 (encode (BType f3 r1 r2 i) AND 0xF00)) :: 64 word) =
   push_bit 1 (scast i)"
  unfolding b_pieces b_whole by (rule bit_word_eqI, simp only: bit_simps) (auto simp: bit_simps min_def)

lemma j_pieces:
  fixes d i
  defines "raw \<equiv> encode (JType d i)"
  shows "raw AND 0x80000000 = push_bit 31 (ucast (drop_bit 19 i))"
    "raw AND 0x000FF000 = push_bit 12 (ucast (drop_bit 11 i) AND mask 8)"
    "raw AND 0x00100000 = push_bit 20 (ucast (drop_bit 10 i) AND mask 1)"
    "raw AND 0x7FE00000 = push_bit 21 (ucast i AND mask 10)"
proof -
  show "raw AND 0x80000000 = push_bit 31 (ucast (drop_bit 19 i))" "raw AND 0x000FF000 = push_bit 12 (ucast (drop_bit 11 i) AND mask 8)"
    unfolding raw_def masks encode.simps fields_def
    by (rule bit_word_eqI; simp only: bit_simps; auto simp: bit_simps dest: bit_imp_le_length)+
  show "raw AND 0x00100000 = push_bit 20 (ucast (drop_bit 10 i) AND mask 1)"
  proof (rule bit_word_eqI)
    fix n
    show "bit (raw AND 0x00100000) n = bit (push_bit 20 (ucast (drop_bit 10 i) AND mask 1) :: 32 word) n"
      unfolding raw_def masks encode.simps fields_def
      by (cases "n = 20"; simp only: bit_simps; auto simp: bit_simps dest: bit_imp_le_length)
  qed
  show "raw AND 0x7FE00000 = push_bit 21 (ucast i AND mask 10)"
  proof (rule bit_word_eqI)
    fix n :: nat
    consider "n < 21" | "21 \<le> n" "n < 25" | "25 \<le> n" "n < 31" | "31 \<le> n" by linarith
    then show "bit (raw AND 0x7FE00000) n = bit (push_bit 21 (ucast i AND mask 10) :: 32 word) n"
      unfolding raw_def masks encode.simps fields_def
      by cases (simp only: bit_simps; auto simp: bit_simps dest: bit_imp_le_length)+
  qed
qed

lemma imm_j:
  "(((signed_drop_bit 11 (scast (encode (JType d i) AND 0x80000000)) OR ucast (encode (JType d i) AND 0x000FF000)) OR
      signed_drop_bit 9 (ucast (encode (JType d i) AND 0x00100000))) OR
      signed_drop_bit 20 (ucast (encode (JType d i) AND 0x7FE00000)) :: 64 word) = push_bit 1 (scast i)"
  unfolding j_pieces
proof (rule bit_word_eqI)
  fix n assume "n < LENGTH(64)"
  then consider "n = 0" | "1 \<le> n" "n < 11" | "n = 11" | "12 \<le> n" "n < 20" | "20 \<le> n" "n < 53" | "53 \<le> n" "n < 64" by fastforce
  then show "bit (((signed_drop_bit 11 (scast (push_bit 31 (ucast (drop_bit 19 i)) :: 32 word)) OR ucast (push_bit 12 (ucast (drop_bit 11 i) AND mask 8) :: 32 word)) OR
      signed_drop_bit 9 (ucast (push_bit 20 (ucast (drop_bit 10 i) AND mask 1) :: 32 word))) OR
      signed_drop_bit 20 (ucast (push_bit 21 (ucast i AND mask 10) :: 32 word)) :: 64 word) n = bit (push_bit 1 (scast i) :: 64 word) n"
    by cases (simp only: bit_simps; auto simp: bit_simps min_def dest: bit_imp_le_length)+
qed

subsection \<open>The decoder inverts the encoder\<close>

lemma decode_fields:
  assumes "ucast op AND (0x3 :: u32) = 0x3"
  shows "decode (fields a r2 r1 f3 d op) = decode_standard (fields a r2 r1 f3 d op)"
  using assms by (simp add: decode_def decoded_fields)

lemma standard_sel:
  "opcode (decode_standard raw) = ucast (raw AND 0x7F)" "rd (decode_standard raw) = ucast (drop_bit 7 raw AND 0x1F)"
  "funct3 (decode_standard raw) = ucast (drop_bit 12 raw AND 0x07)" "rs1 (decode_standard raw) = ucast (drop_bit 15 raw AND 0x1F)"
  "rs2 (decode_standard raw) = ucast (drop_bit 20 raw AND 0x1F)" "funct7 (decode_standard raw) = ucast (drop_bit 25 raw AND 0x7F)"
  "imm (decode_standard raw) = imm_standard (ucast (raw AND 0x7F)) raw" "insn_size (decode_standard raw) = 4"
  by (simp_all add: decode_standard_def clear_insn_def Let_def)

text \<open>C40: Round trip: every instruction encoded in one of the six formats of the manual (R, I, S, B, U, J), with any
  registers, function codes and immediate and the opcodes of its class, is decoded as a four-byte
  instruction with exactly those registers and codes and the sign-extended, scaled immediate.  The one
  exception is the I-format opcode 0x0F, \<open>FENCE\<close> and \<open>FENCE.I\<close>: its ordering bits are not decoded and the
  immediate is 0.\<close>

theorem decode_inverts_encode:
  assumes "encodable x"
  shows "decoded_as (decode (encode x)) x \<and> insn_size (decode (encode x)) = 4"
proof (cases x)
  case (RType op d f3 r1 r2 f7)
  then show ?thesis using assms by (auto simp: decode_fields standard_sel decoded_fields imm_standard_def)
next
  case (IType op d f3 r1 i)
  then show ?thesis using assms imm_i [of op d f3 r1 i]
    by (auto simp: decode_fields standard_sel decoded_fields imm_standard_def)
next
  case (SType op f3 r1 r2 i)
  then show ?thesis using assms imm_s [of op f3 r1 r2 i] by (auto simp: decode_fields standard_sel decoded_fields imm_standard_def)
next
  case (BType f3 r1 r2 i)
  then show ?thesis using imm_b [of f3 r1 r2 i] by (simp add: decode_fields standard_sel decoded_fields imm_standard_def)
next
  case (UType op d i)
  then show ?thesis using assms imm_u [of op d i] by (auto simp: decode_fields standard_sel decoded_fields imm_standard_def)
next
  case (JType d i)
  then show ?thesis using imm_j [of d i] by (simp add: decode_fields standard_sel decoded_fields imm_standard_def)
qed

theorem decode_inverts_encode_witness:
  "decoded_as (decode (encode (BType 1 2 3 0xFFF))) (BType 1 2 3 0xFFF) \<and> encode (IType 0x13 5 0 6 0xFFF) = 0xFFF30293 \<and>
   decoded_as (decode (encode (IType 0x13 5 0 6 0xFFF))) (IType 0x13 5 0 6 0xFFF)"
proof (intro conjI)
  show "decoded_as (decode (encode (BType 1 2 3 0xFFF))) (BType 1 2 3 0xFFF)"
    using decode_inverts_encode [of "BType 1 2 3 0xFFF"] by simp
  show "encode (IType 0x13 5 0 6 0xFFF) = 0xFFF30293" by code_simp
  show "decoded_as (decode (encode (IType 0x13 5 0 6 0xFFF))) (IType 0x13 5 0 6 0xFFF)"
    using decode_inverts_encode [of "IType 0x13 5 0 6 0xFFF"] by simp
qed

end
