(* ===== verification/CourseMemory.thy ===== *)
theory CourseMemory
  imports Prelude
begin

text \<open>
  The teaching model of demand paging (\<open>src/myCPU/guest/kernel/course_memory.c\<close>): up to sixteen
  page frames filled on demand, a Clock that picks the frame to reclaim, and a pool of eight
  fixed blocks behind \<open>course_kmalloc\<close>.  A block's storage address is modelled by its index, which
  is what the source compares; the storage bytes themselves are never touched by this module.
  Counters are the 32-bit ones of the source.  \<open>None\<close> for the memory stands for a NULL pointer.
\<close>

abbreviation COURSE_MEMORY_MAX_FRAMES :: nat where "COURSE_MEMORY_MAX_FRAMES \<equiv> 16"
abbreviation COURSE_MEMORY_MAX_KMALLOC_BLOCKS :: nat where "COURSE_MEMORY_MAX_KMALLOC_BLOCKS \<equiv> 8"
abbreviation COURSE_MEMORY_KMALLOC_BLOCK_SIZE :: nat where "COURSE_MEMORY_KMALLOC_BLOCK_SIZE \<equiv> 64"

record memory_stats =
  total_pages :: u32
  free_pages :: u32
  used_pages :: u32
  page_faults :: u32
  page_reclaims :: u32
  kmalloc_allocs :: u32
  kfree_calls :: u32
  kmalloc_reuses :: u32

record memory_frame =
  resident :: bool
  page_id :: u32
  referenced :: bool
  dirty :: bool

record kmalloc_block =
  allocated :: bool
  ever_allocated :: bool
  block_size :: nat

record course_memory =
  frames :: "memory_frame carray"
  blocks :: "kmalloc_block carray"
  frame_count :: nat
  clock_hand :: nat
  mem_stats :: memory_stats

fun count_used_frames_loop :: "memory_frame carray \<Rightarrow> nat \<Rightarrow> u32" where
  "count_used_frames_loop fs 0 = 0"
| "count_used_frames_loop fs (Suc i) =
     (if resident (fs i) then count_used_frames_loop fs i + 1 else count_used_frames_loop fs i)"

definition count_used_frames :: "course_memory \<Rightarrow> u32" where
  "count_used_frames m = count_used_frames_loop (frames m) (frame_count m)"

definition find_resident_frame :: "course_memory \<Rightarrow> u32 \<Rightarrow> nat option" where
  "find_resident_frame m pid =
     first_index (\<lambda>i. resident (frames m i) \<and> page_id (frames m i) = pid) (frame_count m)"

definition find_free_frame :: "course_memory \<Rightarrow> nat option" where
  "find_free_frame m = first_index (\<lambda>i. \<not> resident (frames m i)) (frame_count m)"

text \<open>The probes of the Clock; \<open>fuel\<close> counts down from the loop's own bound \<open>frame_count * 2\<close>.\<close>

fun clock_probe :: "nat \<Rightarrow> course_memory \<Rightarrow> nat \<times> course_memory" where
  "clock_probe 0 m = (clock_hand m, m)"
| "clock_probe (Suc fuel) m =
     (let selected = clock_hand m; f = frames m selected;
          m1 = m\<lparr>clock_hand := (clock_hand m + 1) mod frame_count m\<rparr>
      in if \<not> referenced f then (selected, m1)
         else clock_probe fuel (m1\<lparr>frames := (frames m1)(selected := f\<lparr>referenced := False\<rparr>)\<rparr>))"

definition clock_select_victim :: "course_memory \<Rightarrow> nat \<times> course_memory" where
  "clock_select_victim m = clock_probe (frame_count m * 2) m"

definition install_page :: "course_memory \<Rightarrow> nat \<Rightarrow> u32 \<Rightarrow> bool \<Rightarrow> course_memory" where
  "install_page m i pid write = m\<lparr>frames := (frames m)(i :=
     (frames m i)\<lparr>resident := True, page_id := pid, referenced := True, dirty := write\<rparr>)\<rparr>"

definition free_frame :: memory_frame where
  "free_frame = \<lparr>resident = False, page_id = 0, referenced = False, dirty = False\<rparr>"

definition free_block :: kmalloc_block where
  "free_block = \<lparr>allocated = False, ever_allocated = False, block_size = 0\<rparr>"

definition course_memory_init :: "u32 \<Rightarrow> course_memory" where
  "course_memory_init n =
     (let fc = (if unat n > COURSE_MEMORY_MAX_FRAMES then 16 else n) in
      \<lparr>frames = (\<lambda>_. free_frame), blocks = (\<lambda>_. free_block), frame_count = unat fc, clock_hand = 0,
       mem_stats = \<lparr>total_pages = fc, free_pages = fc, used_pages = 0, page_faults = 0,
         page_reclaims = 0, kmalloc_allocs = 0, kfree_calls = 0, kmalloc_reuses = 0\<rparr>\<rparr>)"

fun course_memory_touch :: "course_memory option \<Rightarrow> u32 \<Rightarrow> bool \<Rightarrow> bool \<times> course_memory option" where
  "course_memory_touch None pid write = (False, None)"
| "course_memory_touch (Some m) pid write =
     (if frame_count m = 0 then (False, Some m)
      else case find_resident_frame m pid of
        Some i \<Rightarrow>
          (True, Some (m\<lparr>frames := (frames m)(i :=
             (frames m i)\<lparr>referenced := True, dirty := dirty (frames m i) \<or> write\<rparr>)\<rparr>))
      | None \<Rightarrow>
          (let m1 = m\<lparr>mem_stats := (mem_stats m)\<lparr>page_faults := page_faults (mem_stats m) + 1\<rparr>\<rparr>;
               (i, m2) = (case find_free_frame m1 of
                   Some i \<Rightarrow> (i, m1)
                 | None \<Rightarrow> (let (v, m') = clock_select_victim m1 in
                     (v, m'\<lparr>mem_stats := (mem_stats m')
                           \<lparr>page_reclaims := page_reclaims (mem_stats m') + 1\<rparr>\<rparr>)));
               m3 = install_page m2 i pid write;
               used = count_used_frames m3
           in (True, Some (m3\<lparr>mem_stats := (mem_stats m3)
                 \<lparr>used_pages := used, free_pages := total_pages (mem_stats m3) - used\<rparr>\<rparr>))))"

fun course_memory_stats ::
  "course_memory option \<Rightarrow> memory_stats option \<Rightarrow> bool \<times> memory_stats option" where
  "course_memory_stats (Some m) (Some out) = (True, Some (mem_stats m))"
| "course_memory_stats m out = (False, out)"

fun course_kmalloc :: "course_memory option \<Rightarrow> nat \<Rightarrow> nat option \<times> course_memory option" where
  "course_kmalloc None n = (None, None)"
| "course_kmalloc (Some m) n =
     (if n = 0 \<or> n > COURSE_MEMORY_KMALLOC_BLOCK_SIZE then (None, Some m)
      else case first_index (\<lambda>i. \<not> allocated (blocks m i)) COURSE_MEMORY_MAX_KMALLOC_BLOCKS of
        None \<Rightarrow> (None, Some m)
      | Some i \<Rightarrow>
          (let st = mem_stats m;
               st1 = (if ever_allocated (blocks m i)
                      then st\<lparr>kmalloc_reuses := kmalloc_reuses st + 1\<rparr> else st)
           in (Some i, Some (m\<lparr>blocks := (blocks m)(i := \<lparr>allocated = True, ever_allocated = True,
                                                     block_size = n\<rparr>),
                  mem_stats := st1\<lparr>kmalloc_allocs := kmalloc_allocs st1 + 1\<rparr>\<rparr>))))"

fun course_kfree :: "course_memory option \<Rightarrow> nat option \<Rightarrow> course_memory option" where
  "course_kfree None p = None"
| "course_kfree (Some m) None = Some m"
| "course_kfree (Some m) (Some p) =
     (case first_index (\<lambda>i. p = i \<and> allocated (blocks m i)) COURSE_MEMORY_MAX_KMALLOC_BLOCKS of
        None \<Rightarrow> Some m
      | Some i \<Rightarrow> Some (m\<lparr>blocks := (blocks m)(i := (blocks m i)\<lparr>allocated := False, block_size := 0\<rparr>),
            mem_stats := (mem_stats m)\<lparr>kfree_calls := kfree_calls (mem_stats m) + 1\<rparr>\<rparr>))"

subsection \<open>The Clock\<close>

definition clock_order :: "course_memory \<Rightarrow> nat \<Rightarrow> nat" where
  "clock_order m k = (clock_hand m + k) mod frame_count m"

definition clock_cleared :: "course_memory \<Rightarrow> nat \<Rightarrow> memory_frame carray" where
  "clock_cleared m k = (\<lambda>i. if i \<in> clock_order m ` {..<k} then (frames m i)\<lparr>referenced := False\<rparr>
                              else frames m i)"

lemma clock_order_inj:
  assumes "j < frame_count m" "k < frame_count m" "clock_order m j = clock_order m k"
  shows "j = k"
proof -
  have *: "a = b" if "a \<le> b" "b < n" "(h + a) mod n = (h + b) mod n" for a b h n :: nat
  proof -
    have "n dvd (h + b) - (h + a)"
      using that by (metis mod_eq_dvd_iff_nat add_le_cancel_left)
    then show ?thesis
      using that by (auto dest: dvd_imp_le)
  qed
  show ?thesis
    using assms * [of j k] * [of k j] unfolding clock_order_def by (metis nat_le_linear)
qed

lemma clock_cleared_Suc:
  "clock_cleared m (Suc k) =
     (clock_cleared m k)(clock_order m k := (clock_cleared m k (clock_order m k))\<lparr>referenced := False\<rparr>)"
  by (auto simp: clock_cleared_def lessThan_Suc fun_eq_iff)

lemma clock_probe_skip:
  assumes "k \<le> frame_count m" "\<forall>j<k. referenced (frames m (clock_order m j))" "0 < frame_count m"
    "clock_hand m < frame_count m"
  shows "clock_probe (k + fuel) m =
           clock_probe fuel (m\<lparr>frames := clock_cleared m k, clock_hand := clock_order m k\<rparr>)"
  using assms
proof (induction k arbitrary: fuel)
  case 0
  then show ?case by (simp add: clock_cleared_def clock_order_def)
next
  case (Suc k)
  have "clock_order m k \<notin> clock_order m ` {..<k}"
  proof
    assume "clock_order m k \<in> clock_order m ` {..<k}"
    then obtain j where "j < k" "clock_order m k = clock_order m j" by auto
    then show False using clock_order_inj [of k m j] Suc.prems by simp
  qed
  then have ref: "referenced (clock_cleared m k (clock_order m k))"
    using Suc.prems by (simp add: clock_cleared_def)
  have nxt: "Suc (clock_order m k) mod frame_count m = clock_order m (Suc k)"
    by (simp add: clock_order_def mod_Suc_eq)
  have "clock_probe (Suc k + fuel) m = clock_probe (k + Suc fuel) m" by simp
  also have "\<dots> = clock_probe (Suc fuel) (m\<lparr>frames := clock_cleared m k, clock_hand := clock_order m k\<rparr>)"
    by (rule Suc.IH) (use Suc.prems in auto)
  also have "\<dots> = clock_probe fuel (m\<lparr>frames := clock_cleared m (Suc k), clock_hand := clock_order m (Suc k)\<rparr>)"
    using ref nxt
    by (simp add: Let_def clock_cleared_Suc, intro arg_cong [where f = "clock_probe fuel"]) simp
  finally show ?case .
qed

definition clock_choice :: "course_memory \<Rightarrow> nat" where
  "clock_choice m = (case first_index (\<lambda>k. \<not> referenced (frames m (clock_order m k))) (frame_count m) of
     Some k \<Rightarrow> k | None \<Rightarrow> frame_count m)"

lemma clock_choice_props:
  shows "clock_choice m \<le> frame_count m"
    and "j < clock_choice m \<Longrightarrow> referenced (frames m (clock_order m j))"
    and "clock_choice m < frame_count m \<Longrightarrow>
           \<not> referenced (frames m (clock_order m (clock_choice m)))"
proof -
  let ?f = "first_index (\<lambda>k. \<not> referenced (frames m (clock_order m k))) (frame_count m)"
  have "clock_choice m \<le> frame_count m \<and>
      (j < clock_choice m \<longrightarrow> referenced (frames m (clock_order m j))) \<and>
      (clock_choice m < frame_count m \<longrightarrow> \<not> referenced (frames m (clock_order m (clock_choice m))))"
  proof (cases ?f)
    case None
    then have "clock_choice m = frame_count m" by (simp add: clock_choice_def)
    then show ?thesis using None by (auto simp: first_index_None_iff)
  next
    case (Some a)
    then have "clock_choice m = a" by (simp add: clock_choice_def)
    then show ?thesis using Some by (auto simp: first_index_Some_iff)
  qed
  then show "clock_choice m \<le> frame_count m"
    and "j < clock_choice m \<Longrightarrow> referenced (frames m (clock_order m j))"
    and "clock_choice m < frame_count m \<Longrightarrow>
           \<not> referenced (frames m (clock_order m (clock_choice m)))"
    by auto
qed

lemma clock_order_wrap [simp]:
  "clock_hand m < frame_count m \<Longrightarrow> clock_order m (frame_count m) = clock_hand m"
  by (simp add: clock_order_def)

lemma clock_select_victim_eq:
  assumes "0 < frame_count m" "clock_hand m < frame_count m"
  shows "clock_select_victim m =
           (clock_order m (clock_choice m),
            m\<lparr>frames := clock_cleared m (clock_choice m), clock_hand := clock_order m (Suc (clock_choice m))\<rparr>)"
proof -
  let ?k = "clock_choice m" and ?n = "frame_count m"
  have k: "?k \<le> ?n" "\<forall>j<?k. referenced (frames m (clock_order m j))"
    using clock_choice_props by auto
  have cl: "\<not> referenced (clock_cleared m ?k (clock_order m ?k))"
  proof (cases "?k < ?n")
    case True
    then have "\<not> referenced (frames m (clock_order m ?k))"
      by (rule clock_choice_props)
    then show ?thesis by (simp add: clock_cleared_def)
  next
    case False
    then have "clock_order m ?k = clock_order m 0" "0 < ?k"
      using k(1) assms by (simp_all add: clock_order_def)
    then show ?thesis by (simp add: clock_cleared_def)
  qed
  obtain f where f: "?n * 2 = ?k + Suc f"
    using k(1) assms(1) by (metis add_Suc_right le_Suc_ex less_iff_Suc_add mult_2_right add.assoc)
  have "clock_select_victim m =
          clock_probe (Suc f) (m\<lparr>frames := clock_cleared m ?k, clock_hand := clock_order m ?k\<rparr>)"
    unfolding clock_select_victim_def f by (rule clock_probe_skip) (use k assms in auto)
  then show ?thesis
    using cl by (simp add: Let_def clock_order_def mod_Suc_eq)
qed

subsection \<open>The resident set\<close>

definition resident_frames :: "course_memory \<Rightarrow> nat set" where
  "resident_frames m = {i. i < frame_count m \<and> resident (frames m i)}"

definition resident_pages :: "course_memory \<Rightarrow> u32 set" where
  "resident_pages m = (\<lambda>i. page_id (frames m i)) ` resident_frames m"

definition memory_wf :: "course_memory \<Rightarrow> bool" where
  "memory_wf m \<longleftrightarrow> frame_count m \<le> COURSE_MEMORY_MAX_FRAMES \<and>
     (0 < frame_count m \<longrightarrow> clock_hand m < frame_count m) \<and>
     inj_on (\<lambda>i. page_id (frames m i)) (resident_frames m) \<and>
     total_pages (mem_stats m) = of_nat (frame_count m) \<and>
     used_pages (mem_stats m) = of_nat (card (resident_frames m)) \<and>
     free_pages (mem_stats m) = of_nat (frame_count m - card (resident_frames m))"

lemma resident_frames_bounded: "resident_frames m \<subseteq> {..<frame_count m}"
  by (auto simp: resident_frames_def)

lemma card_resident_frames: "card (resident_frames m) \<le> frame_count m"
  using card_mono [OF _ resident_frames_bounded] by simp

lemma finite_resident_frames [simp]: "finite (resident_frames m)"
  using resident_frames_bounded finite_subset by blast

lemma count_used_frames_loop_card:
  "count_used_frames_loop fs n = of_nat (card {i. i < n \<and> resident (fs i)})"
proof (induction n)
  case 0
  then show ?case by simp
next
  case (Suc n)
  have "{i. i < Suc n \<and> resident (fs i)} =
        (if resident (fs n) then insert n {i. i < n \<and> resident (fs i)} else {i. i < n \<and> resident (fs i)})"
    by (auto simp: less_Suc_eq)
  then show ?case using Suc.IH by simp
qed

lemma count_used_frames_card: "count_used_frames m = of_nat (card (resident_frames m))"
  by (simp add: count_used_frames_def count_used_frames_loop_card resident_frames_def)

lemma find_resident_frame_Some:
  assumes "find_resident_frame m pid = Some i"
  shows "i \<in> resident_frames m" "page_id (frames m i) = pid"
  using assms by (auto simp: find_resident_frame_def resident_frames_def first_index_Some_iff)

lemma find_resident_frame_None:
  "find_resident_frame m pid = None \<longleftrightarrow> pid \<notin> resident_pages m"
  by (auto simp: find_resident_frame_def resident_frames_def resident_pages_def first_index_None_iff)

lemma find_free_frame_None:
  "find_free_frame m = None \<longleftrightarrow> resident_frames m = {..<frame_count m}"
  by (auto simp: find_free_frame_def resident_frames_def first_index_None_iff)

lemma find_free_frame_full:
  "find_free_frame m = None \<longleftrightarrow> \<not> card (resident_frames m) < frame_count m"
proof
  assume "find_free_frame m = None"
  then show "\<not> card (resident_frames m) < frame_count m"
    by (simp add: find_free_frame_None)
next
  assume "\<not> card (resident_frames m) < frame_count m"
  then have "card (resident_frames m) = card {..<frame_count m}"
    using card_resident_frames [of m] by simp
  then show "find_free_frame m = None"
    unfolding find_free_frame_None using card_subset_eq [OF _ resident_frames_bounded [of m]] by blast
qed

lemma memory_init_wf: "memory_wf (course_memory_init n)"
  by (simp add: memory_wf_def course_memory_init_def resident_frames_def free_frame_def Let_def)

lemma install_resident_frames:
  "i < frame_count m \<Longrightarrow> resident_frames (install_page m i pid w) = insert i (resident_frames m)"
  by (auto simp: install_page_def resident_frames_def)

lemma resident_clock_cleared [simp]:
  "resident (clock_cleared m k i) = resident (frames m i)"
  "page_id (clock_cleared m k i) = page_id (frames m i)"
  "dirty (clock_cleared m k i) = dirty (frames m i)"
  by (simp_all add: clock_cleared_def)

text \<open>The frame that a fault uses, and the memory in which the page is then installed.\<close>

definition fault_frame :: "course_memory \<Rightarrow> nat" where
  "fault_frame m = (case find_free_frame m of Some i \<Rightarrow> i | None \<Rightarrow> clock_order m (clock_choice m))"

lemma fault_frame_bound:
  "memory_wf m \<Longrightarrow> 0 < frame_count m \<Longrightarrow> fault_frame m < frame_count m"
  by (auto simp: fault_frame_def find_free_frame_def clock_order_def
      dest: first_index_SomeD split: option.splits)

lemma fault_frame_free:
  "fault_frame m \<in> resident_frames m \<longleftrightarrow> find_free_frame m = None" if "memory_wf m" "0 < frame_count m"
proof (cases "find_free_frame m")
  case None
  then show ?thesis
    using fault_frame_bound [OF that] by (simp add: find_free_frame_None)
next
  case (Some i)
  then have "\<not> resident (frames m i)" by (auto simp: find_free_frame_def dest: first_index_SomeD)
  with Some show ?thesis by (simp add: fault_frame_def resident_frames_def)
qed

definition after_fault :: "course_memory \<Rightarrow> u32 \<Rightarrow> bool \<Rightarrow> course_memory \<Rightarrow> bool" where
  "after_fault m pid write m' \<longleftrightarrow>
     frame_count m' = frame_count m \<and> blocks m' = blocks m \<and>
     clock_hand m' = (if find_free_frame m = None then clock_order m (Suc (clock_choice m)) else clock_hand m) \<and>
     frames m' = (if find_free_frame m = None then clock_cleared m (clock_choice m) else frames m)
        (fault_frame m := \<lparr>resident = True, page_id = pid, referenced = True, dirty = write\<rparr>) \<and>
     total_pages (mem_stats m') = total_pages (mem_stats m) \<and>
     page_faults (mem_stats m') = page_faults (mem_stats m) + 1 \<and>
     page_reclaims (mem_stats m') =
       page_reclaims (mem_stats m) + (if find_free_frame m = None then 1 else 0) \<and>
     used_pages (mem_stats m') = of_nat (card (resident_frames m')) \<and>
     free_pages (mem_stats m') = total_pages (mem_stats m) - of_nat (card (resident_frames m'))"

lemma memory_frame_set:
  "f\<lparr>resident := a, page_id := b, referenced := c, dirty := d\<rparr> =
     \<lparr>resident = a, page_id = b, referenced = c, dirty = d\<rparr>" for f :: memory_frame
  by (cases f) simp

lemma touch_fault:
  assumes "memory_wf m" "0 < frame_count m" "pid \<notin> resident_pages m"
  shows "\<exists>m'. course_memory_touch (Some m) pid write = (True, Some m') \<and> after_fault m pid write m'"
proof -
  have miss: "find_resident_frame m pid = None"
    using assms(3) by (simp add: find_resident_frame_None)
  let ?m1 = "m\<lparr>mem_stats := (mem_stats m)\<lparr>page_faults := page_faults (mem_stats m) + 1\<rparr>\<rparr>"
  have ff: "find_free_frame ?m1 = find_free_frame m" by (simp add: find_free_frame_def)
  have co: "clock_order ?m1 = clock_order m" by (simp add: clock_order_def fun_eq_iff)
  have cc: "clock_choice ?m1 = clock_choice m" by (simp add: clock_choice_def co cong del: option.case_cong_weak)
  have cl: "clock_cleared ?m1 = clock_cleared m" by (simp add: clock_cleared_def co fun_eq_iff)
  have hand: "clock_hand m < frame_count m" using assms by (simp add: memory_wf_def)
  show ?thesis
  proof (cases "find_free_frame m")
    case None
    have v: "clock_select_victim ?m1 = (clock_order m (clock_choice m), ?m1\<lparr>frames :=
        clock_cleared m (clock_choice m), clock_hand := clock_order m (Suc (clock_choice m))\<rparr>)"
      using clock_select_victim_eq [of ?m1] assms(2) hand by (simp add: co cc cl)
    show ?thesis
      using assms(2) None miss v
      by (simp add: ff Let_def after_fault_def install_page_def fault_frame_def
          count_used_frames_card memory_frame_set resident_frames_def)
  next
    case (Some i)
    then show ?thesis
      using assms(2) miss
      by (simp add: ff Let_def after_fault_def install_page_def fault_frame_def
          count_used_frames_card memory_frame_set resident_frames_def)
  qed
qed

lemma resident_after_fault:
  assumes "memory_wf m" "0 < frame_count m" "after_fault m pid write m'"
  shows "resident_frames m' = insert (fault_frame m) (resident_frames m)"
    and "resident_pages m' = insert pid ((\<lambda>i. page_id (frames m i)) ` (resident_frames m - {fault_frame m}))"
proof -
  have b: "fault_frame m < frame_count m" using fault_frame_bound assms by blast
  show r: "resident_frames m' = insert (fault_frame m) (resident_frames m)"
    using assms(3) b by (auto simp: after_fault_def resident_frames_def)
  have pg: "page_id (frames m' i) = (if i = fault_frame m then pid else page_id (frames m i))" for i
    using assms(3) by (auto simp: after_fault_def)
  show "resident_pages m' = insert pid ((\<lambda>i. page_id (frames m i)) ` (resident_frames m - {fault_frame m}))"
    unfolding resident_pages_def r by (auto simp: pg)
qed

lemma after_fault_wf:
  assumes wf: "memory_wf m" and pos: "0 < frame_count m" and new: "pid \<notin> resident_pages m"
    and m': "after_fault m pid write m'"
  shows "memory_wf m'"
proof -
  let ?v = "fault_frame m"
  have r: "resident_frames m' = insert ?v (resident_frames m)"
    using resident_after_fault wf pos m' by blast
  have fc: "frame_count m' = frame_count m" using m' by (simp add: after_fault_def)
  have pg: "page_id (frames m' i) = (if i = ?v then pid else page_id (frames m i))" for i
    using m' by (auto simp: after_fault_def)
  have inj: "inj_on (\<lambda>i. page_id (frames m' i)) (resident_frames m')"
    unfolding r using wf new
    by (auto simp: inj_on_def pg memory_wf_def resident_pages_def)
  have "card (resident_frames m') \<le> frame_count m" using card_resident_frames [of m'] fc by simp
  then have "(of_nat (frame_count m) :: u32) - of_nat (card (resident_frames m')) =
               of_nat (frame_count m - card (resident_frames m'))"
    by (simp add: of_nat_diff)
  then show ?thesis
    using wf pos m' inj
    by (auto simp: memory_wf_def after_fault_def clock_order_def)
qed

text \<open>C27: the Clock replacement is exact and always ends: starting at the hand it passes over
  frames whose reference bit is set, clearing the bit, and selects the first frame without it;
  when every frame is referenced it has cleared all of them and selects the frame under the
  hand.  The hand stops one past the victim and nothing else changes.\<close>

theorem clock_select_victim_correct:
  assumes "0 < frame_count m" "clock_hand m < frame_count m"
  shows "\<exists>k\<le>frame_count m. clock_select_victim m =
      (clock_order m k, m\<lparr>frames := clock_cleared m k, clock_hand := clock_order m (Suc k)\<rparr>) \<and>
      (\<forall>j<k. referenced (frames m (clock_order m j))) \<and>
      (k < frame_count m \<longrightarrow> \<not> referenced (frames m (clock_order m k)))"
  using clock_select_victim_eq [OF assms] clock_choice_props by blast

definition sample_memory :: course_memory where
  "sample_memory = the (snd (course_memory_touch
     (snd (course_memory_touch (Some (course_memory_init 2)) 7 False)) 8 True))"

theorem clock_select_victim_correct_witness:
  "\<exists>k\<le>2. clock_select_victim sample_memory = (clock_order sample_memory k, sample_memory
      \<lparr>frames := clock_cleared sample_memory k, clock_hand := clock_order sample_memory (Suc k)\<rparr>)"
proof -
  have "frame_count sample_memory = 2" "clock_hand sample_memory = 0" by code_simp+
  then show ?thesis using clock_select_victim_correct [of sample_memory] by auto
qed

text \<open>C26: touching a page always succeeds and preserves the frame invariant (no page is
  resident twice, the counters of used and free pages are exact); afterwards the page is resident.
  A hit changes neither the resident set nor the counters, a fault with a free frame adds the
  page, and a fault with all frames in use replaces exactly the page the Clock selected.\<close>

theorem course_memory_touch_correct:
  assumes "memory_wf m" "0 < frame_count m"
  shows "\<exists>m'. course_memory_touch (Some m) pid write = (True, Some m') \<and> memory_wf m' \<and>
      pid \<in> resident_pages m' \<and>
      (if pid \<in> resident_pages m then resident_pages m' = resident_pages m \<and> mem_stats m' = mem_stats m
       else page_faults (mem_stats m') = page_faults (mem_stats m) + 1 \<and>
         (if card (resident_frames m) < frame_count m
          then resident_pages m' = insert pid (resident_pages m) \<and>
               page_reclaims (mem_stats m') = page_reclaims (mem_stats m)
          else resident_pages m' = insert pid (resident_pages m -
                 {page_id (frames m (fst (clock_select_victim m)))}) \<and>
               page_reclaims (mem_stats m') = page_reclaims (mem_stats m) + 1))"
proof (cases "find_resident_frame m pid")
  case (Some i)
  define m' where "m' = m\<lparr>frames := (frames m)(i :=
               (frames m i)\<lparr>referenced := True, dirty := dirty (frames m i) \<or> write\<rparr>)\<rparr>"
  have f: "resident_frames m' = resident_frames m" "page_id (frames m' j) = page_id (frames m j)"
    "frame_count m' = frame_count m" "clock_hand m' = clock_hand m" "mem_stats m' = mem_stats m" for j
    by (auto simp: resident_frames_def m'_def)
  have "course_memory_touch (Some m) pid write = (True, Some m')"
    using Some assms by (simp add: m'_def)
  moreover have "pid \<in> resident_pages m" using find_resident_frame_None [of m pid] Some by simp
  moreover have "resident_pages m' = resident_pages m" by (simp add: resident_pages_def f)
  moreover have "memory_wf m'" using assms by (simp add: memory_wf_def f)
  ultimately show ?thesis using f by simp
next
  case None
  then have new: "pid \<notin> resident_pages m" by (simp add: find_resident_frame_None)
  obtain m' where m': "course_memory_touch (Some m) pid write = (True, Some m')"
    and af: "after_fault m pid write m'"
    using touch_fault [OF assms new] by blast
  have inj: "inj_on (\<lambda>i. page_id (frames m i)) (resident_frames m)"
    and hand: "clock_hand m < frame_count m" using assms by (auto simp: memory_wf_def)
  have full: "find_free_frame m = None \<longleftrightarrow> \<not> card (resident_frames m) < frame_count m"
    by (rule find_free_frame_full)
  have v: "fst (clock_select_victim m) = clock_order m (clock_choice m)"
    using clock_select_victim_eq [OF assms(2) hand] by simp
  have pages: "(\<lambda>i. page_id (frames m i)) ` (resident_frames m - {fault_frame m}) =
      (if find_free_frame m = None then resident_pages m - {page_id (frames m (fst (clock_select_victim m)))}
       else resident_pages m)"
    using fault_frame_free [OF assms] inj
    by (auto simp: resident_pages_def inj_on_image_set_diff v fault_frame_def inj_on_def)
  show ?thesis
    using m' af after_fault_wf [OF assms new af] resident_after_fault(2) [OF assms af] new full
    by (simp add: after_fault_def pages del: course_memory_touch.simps)
qed

theorem course_memory_touch_correct_witness:
  "\<exists>m'. course_memory_touch (Some (course_memory_init 2)) 7 True = (True, Some m') \<and>
     memory_wf m' \<and> resident_pages m' = {7}"
proof -
  have r: "resident_frames (course_memory_init 2) = {}"
    by (auto simp: resident_frames_def course_memory_init_def free_frame_def Let_def)
  have "resident_pages (course_memory_init 2) = {}" by (simp add: resident_pages_def r)
  moreover have "frame_count (course_memory_init 2) = 2" by (simp add: course_memory_init_def)
  ultimately show ?thesis
    using course_memory_touch_correct [OF memory_init_wf [of 2], of 7 True] r
    by (elim meta_impE exE conjE) (simp_all del: course_memory_touch.simps)
qed

subsection \<open>The block pool\<close>

definition live_blocks :: "course_memory \<Rightarrow> nat set" where
  "live_blocks m = {i. i < COURSE_MEMORY_MAX_KMALLOC_BLOCKS \<and> allocated (blocks m i)}"

definition block_ok :: "kmalloc_block \<Rightarrow> bool" where
  "block_ok b = (if allocated b
     then ever_allocated b \<and> block_size b \<in> {1..COURSE_MEMORY_KMALLOC_BLOCK_SIZE} else block_size b = 0)"

definition pool_wf :: "course_memory \<Rightarrow> bool" where
  "pool_wf m \<longleftrightarrow> (\<forall>i. block_ok (blocks m i)) \<and>
     kmalloc_allocs (mem_stats m) - kfree_calls (mem_stats m) = of_nat (card (live_blocks m))"

lemma block_ok_intros [simp]:
  "1 \<le> n \<Longrightarrow> n \<le> 64 \<Longrightarrow> block_ok \<lparr>allocated = True, ever_allocated = True, block_size = n\<rparr>"
  "block_ok (b\<lparr>allocated := False, block_size := 0\<rparr>)"
  "block_ok free_block"
  "block_ok \<lparr>allocated = False, ever_allocated = e, block_size = 0\<rparr>"
  by (simp_all add: block_ok_def free_block_def)

lemma finite_live_blocks [simp]: "finite (live_blocks m)"
  by (simp add: live_blocks_def)

lemma memory_init_pool_wf: "pool_wf (course_memory_init n)"
  by (simp add: pool_wf_def course_memory_init_def live_blocks_def Let_def) (simp add: free_block_def)

lemma course_kmalloc_cases:
  assumes "0 < n" "n \<le> COURSE_MEMORY_KMALLOC_BLOCK_SIZE"
  obtains (full) "live_blocks m = {..<COURSE_MEMORY_MAX_KMALLOC_BLOCKS}"
      "course_kmalloc (Some m) n = (None, Some m)"
  | (room) i m' where "course_kmalloc (Some m) n = (Some i, Some m')" "i \<notin> live_blocks m"
      "i < COURSE_MEMORY_MAX_KMALLOC_BLOCKS" "frames m' = frames m"
      "blocks m' = (blocks m)(i := \<lparr>allocated = True, ever_allocated = True, block_size = n\<rparr>)"
      "kmalloc_allocs (mem_stats m') = kmalloc_allocs (mem_stats m) + 1"
      "kfree_calls (mem_stats m') = kfree_calls (mem_stats m)"
      "kmalloc_reuses (mem_stats m') =
         kmalloc_reuses (mem_stats m) + (if ever_allocated (blocks m i) then 1 else 0)"
proof (cases "first_index (\<lambda>i. \<not> allocated (blocks m i)) COURSE_MEMORY_MAX_KMALLOC_BLOCKS")
  case None
  then have "live_blocks m = {..<COURSE_MEMORY_MAX_KMALLOC_BLOCKS}"
    by (auto simp: live_blocks_def first_index_None_iff)
  then show ?thesis using full assms None by simp
next
  case (Some i)
  then have "i < COURSE_MEMORY_MAX_KMALLOC_BLOCKS" "\<not> allocated (blocks m i)"
    by (auto dest: first_index_SomeD)
  with Some assms show ?thesis
    by (intro room [of i "the (snd (course_kmalloc (Some m) n))"])
       (auto simp: live_blocks_def Let_def)
qed

text \<open>The block pool never hands out a block twice.  A request of 1 to 64 bytes is
  refused only when all eight blocks are live, otherwise it returns a block that was not live,
  makes it live and leaves every other block alone; freeing that block makes it allocatable
  again, and freeing it a second time changes nothing.  Allocations minus frees always count the
  live blocks.\<close>

theorem course_kmalloc_correct:
  assumes "pool_wf m" "0 < n" "n \<le> COURSE_MEMORY_KMALLOC_BLOCK_SIZE"
  shows "if live_blocks m = {..<COURSE_MEMORY_MAX_KMALLOC_BLOCKS}
         then course_kmalloc (Some m) n = (None, Some m)
         else \<exists>i m' m''. course_kmalloc (Some m) n = (Some i, Some m') \<and>
           i \<notin> live_blocks m \<and> live_blocks m' = insert i (live_blocks m) \<and> pool_wf m' \<and>
           (\<forall>j. j \<noteq> i \<longrightarrow> blocks m' j = blocks m j) \<and>
           course_kfree (Some m') (Some i) = Some m'' \<and> live_blocks m'' = live_blocks m \<and> pool_wf m'' \<and>
           course_kfree (Some m'') (Some i) = Some m''"
  using assms(2,3)
proof (cases rule: course_kmalloc_cases [where m = m])
  case full
  then show ?thesis by simp
next
  case (room i m')
  have live': "live_blocks m' = insert i (live_blocks m)"
    using room by (auto simp: live_blocks_def)
  have wf': "pool_wf m'"
    using room assms unfolding pool_wf_def live' by (auto simp: algebra_simps)
  define m'' where "m'' = m'\<lparr>blocks := (blocks m')(i := (blocks m' i)\<lparr>allocated := False, block_size := 0\<rparr>),
            mem_stats := (mem_stats m')\<lparr>kfree_calls := kfree_calls (mem_stats m') + 1\<rparr>\<rparr>"
  have fi: "first_index (\<lambda>j. i = j \<and> allocated (blocks m' j)) COURSE_MEMORY_MAX_KMALLOC_BLOCKS = Some i"
    using room by (intro first_index_unique) auto
  have free: "course_kfree (Some m') (Some i) = Some m''"
    by (simp add: fi m''_def)
  have live'': "live_blocks m'' = live_blocks m"
    using room by (auto simp: live_blocks_def m''_def)
  have wf'': "pool_wf m''"
    using assms room unfolding pool_wf_def live'' by (auto simp: m''_def)
  have none: "first_index (\<lambda>j. i = j \<and> allocated (blocks m'' j)) COURSE_MEMORY_MAX_KMALLOC_BLOCKS = None"
    by (auto simp: first_index_None_iff m''_def)
  have again: "course_kfree (Some m'') (Some i) = Some m''"
    by (simp add: none)
  have "live_blocks m \<noteq> {..<COURSE_MEMORY_MAX_KMALLOC_BLOCKS}"
    using room(2,3) by auto
  moreover have "\<forall>j. j \<noteq> i \<longrightarrow> blocks m' j = blocks m j" using room by simp
  ultimately show ?thesis
    using room(1,2) live' wf' free live'' wf'' again by auto
qed

theorem course_kmalloc_correct_witness:
  "\<exists>i m'. course_kmalloc (Some (course_memory_init 4)) 32 = (Some i, Some m') \<and> live_blocks m' = {i}"
proof -
  have "live_blocks (course_memory_init 4) = {}"
    by (simp add: live_blocks_def course_memory_init_def free_block_def Let_def)
  moreover have "{} \<noteq> {..<COURSE_MEMORY_MAX_KMALLOC_BLOCKS}"
    by (metis empty_iff lessThan_iff zero_less_numeral)
  ultimately show ?thesis
    using course_kmalloc_correct [OF memory_init_pool_wf [of 4], of 32]
    by (simp del: course_kmalloc.simps course_kfree.simps) blast
qed

end
