(* ===== verification/ElfLoader.thy ===== *)
theory ElfLoader
  imports Prelude "HOL-Library.Monad_Syntax"
begin

text \<open>
  The ELF loader of the course kernel (\<open>src/myCPU/guest/kernel/course_elf_loader.c\<close>): it reads the
  headers of an RV64 executable and produces the entry point, the stack pointer and a table of
  at most eight mappings.  The image is a byte list whose length is the \<open>image_size\<close> argument,
  and every byte read goes through \<open>byte_at\<close>, which is \<open>None\<close> outside the image: the result
  \<open>None\<close> of a function below would be an out-of-bounds read.  Offsets and addresses are 64-bit
  words with the wrap-around of the source.
\<close>

abbreviation COURSE_ELF_MAX_MAPS :: nat where "COURSE_ELF_MAX_MAPS \<equiv> 8"
abbreviation COURSE_ELF_MAP_NAME_MAX :: nat where "COURSE_ELF_MAP_NAME_MAX \<equiv> 12"
abbreviation COURSE_ELF_ARGV_MAX :: nat where "COURSE_ELF_ARGV_MAX \<equiv> 64"
abbreviation COURSE_ELF_ENVP_MAX :: nat where "COURSE_ELF_ENVP_MAX \<equiv> 64"
abbreviation COURSE_ELF_USER_STACK_TOP :: u64 where "COURSE_ELF_USER_STACK_TOP \<equiv> 0x7FFFF000"
abbreviation COURSE_ELF_USER_STACK_SIZE :: u64 where "COURSE_ELF_USER_STACK_SIZE \<equiv> 4096"
abbreviation COURSE_ELF_USER_HEAP_SIZE :: u64 where "COURSE_ELF_USER_HEAP_SIZE \<equiv> 4096"
abbreviation PT_LOAD :: u32 where "PT_LOAD \<equiv> 1"
abbreviation PF_X :: u32 where "PF_X \<equiv> 1"
abbreviation PF_W :: u32 where "PF_W \<equiv> 2"

datatype elf_result =
    ELF_OK | ELF_ERR_BAD_MAGIC | ELF_ERR_UNSUPPORTED | ELF_ERR_BAD_HEADER
  | ELF_ERR_BAD_PROGRAM_HEADER | ELF_ERR_NO_LOAD

record elf_map =
  map_name :: cstr
  map_start :: u64
  map_end :: u64
  map_flags :: u32
  map_cow :: bool

record elf_load =
  load_entry_pc :: u64
  load_user_sp :: u64
  load_map_count :: nat
  load_maps :: "elf_map carray"
  load_argc :: u32
  load_argv :: cstr
  load_envp :: cstr

definition byte_at :: "u8 list \<Rightarrow> u64 \<Rightarrow> u8 option" where
  "byte_at img off = (if unat off < length img then Some (img ! unat off) else None)"

definition read_le16 :: "u8 list \<Rightarrow> u64 \<Rightarrow> u16 option" where
  "read_le16 img off = do {
     b0 \<leftarrow> byte_at img off;
     b1 \<leftarrow> byte_at img (off + 1);
     Some (ucast b0 OR push_bit 8 (ucast b1)) }"

definition read_le32 :: "u8 list \<Rightarrow> u64 \<Rightarrow> u32 option" where
  "read_le32 img off = do {
     b0 \<leftarrow> byte_at img off;
     b1 \<leftarrow> byte_at img (off + 1);
     b2 \<leftarrow> byte_at img (off + 2);
     b3 \<leftarrow> byte_at img (off + 3);
     Some (((ucast b0 OR push_bit 8 (ucast b1)) OR push_bit 16 (ucast b2)) OR push_bit 24 (ucast b3)) }"

definition read_le64 :: "u8 list \<Rightarrow> u64 \<Rightarrow> u64 option" where
  "read_le64 img off = do {
     lo \<leftarrow> read_le32 img off;
     hi \<leftarrow> read_le32 img (off + 4);
     Some (ucast lo OR push_bit 32 (ucast hi)) }"

definition empty_map :: elf_map where
  "empty_map = \<lparr>map_name = [], map_start = 0, map_end = 0, map_flags = 0, map_cow = False\<rparr>"

definition cleared_load :: elf_load where
  "cleared_load = \<lparr>load_entry_pc = 0, load_user_sp = 0, load_map_count = 0,
     load_maps = (\<lambda>_. empty_map), load_argc = 0, load_argv = [], load_envp = []\<rparr>"

definition clear_load :: "elf_load option \<Rightarrow> elf_load option" where
  "clear_load load = map_option (\<lambda>_. cleared_load) load"

definition add_map :: "elf_load \<Rightarrow> cstr \<Rightarrow> u64 \<Rightarrow> u64 \<Rightarrow> u32 \<Rightarrow> bool \<Rightarrow> elf_load option" where
  "add_map load name start stop flags cow =
     (if start \<ge> stop \<or> load_map_count load \<ge> COURSE_ELF_MAX_MAPS then None
      else Some (load\<lparr>load_maps := (load_maps load)(load_map_count load :=
               \<lparr>map_name = copy_str COURSE_ELF_MAP_NAME_MAX (Some name), map_start = start,
                map_end = stop, map_flags = flags, map_cow = cow\<rparr>),
             load_map_count := load_map_count load + 1\<rparr>))"

lemma add_map_ok:
  "start < stop \<Longrightarrow> load_map_count load < COURSE_ELF_MAX_MAPS \<Longrightarrow>
     add_map load name start stop flags cow =
       Some (load\<lparr>load_maps := (load_maps load)(load_map_count load :=
               \<lparr>map_name = copy_str COURSE_ELF_MAP_NAME_MAX (Some name), map_start = start,
                map_end = stop, map_flags = flags, map_cow = cow\<rparr>),
             load_map_count := load_map_count load + 1\<rparr>)"
  by (simp add: add_map_def not_le)

lemma add_map_fail:
  "\<not> start < stop \<or> \<not> load_map_count load < COURSE_ELF_MAX_MAPS \<Longrightarrow>
     add_map load name start stop flags cow = None"
  by (auto simp: add_map_def not_less)

text \<open>The variables that the program-header loop carries.\<close>

record elf_scan =
  sc_load :: elf_load
  sc_saw_load :: bool
  sc_entry_ok :: bool
  sc_heap_start :: u64

definition scan_segment ::
  "u8 list \<Rightarrow> u64 \<Rightarrow> u64 \<Rightarrow> elf_scan \<Rightarrow> (elf_result + elf_scan) option" where
  "scan_segment img entry off s = do {
     p_type \<leftarrow> read_le32 img off;
     p_flags \<leftarrow> read_le32 img (off + 4);
     p_offset \<leftarrow> read_le64 img (off + 8);
     p_vaddr \<leftarrow> read_le64 img (off + 16);
     p_filesz \<leftarrow> read_le64 img (off + 32);
     p_memsz \<leftarrow> read_le64 img (off + 40);
     let name = (if p_flags AND PF_X \<noteq> 0 then ''code'' else ''data'');
         image_size = of_nat (length img);
         stop = p_vaddr + p_memsz
     in Some (
       if p_type \<noteq> PT_LOAD then Inr s
       else if p_memsz < p_filesz \<or> p_offset > image_size \<or> p_filesz > image_size - p_offset \<or>
               p_vaddr = 0 \<or> p_memsz = 0 \<or> p_vaddr + p_memsz < p_vaddr
       then Inl ELF_ERR_BAD_PROGRAM_HEADER
       else case add_map (sc_load s) name p_vaddr stop p_flags False of
           None \<Rightarrow> Inl ELF_ERR_BAD_PROGRAM_HEADER
         | Some load \<Rightarrow> Inr \<lparr>sc_load = load, sc_saw_load = True,
             sc_entry_ok = (sc_entry_ok s \<or>
               (p_flags AND PF_X \<noteq> 0 \<and> entry \<ge> p_vaddr \<and> entry < p_vaddr + p_memsz)),
             sc_heap_start = (if stop > sc_heap_start s then stop else sc_heap_start s)\<rparr>) }"

text \<open>The loop over the program headers; the counter is the number of headers still to read.\<close>

fun scan_segments ::
  "u8 list \<Rightarrow> u64 \<Rightarrow> u64 \<Rightarrow> u16 \<Rightarrow> nat \<Rightarrow> nat \<Rightarrow> elf_scan \<Rightarrow> (elf_result + elf_scan) option" where
  "scan_segments img entry phoff phentsize i 0 s = Some (Inr s)"
| "scan_segments img entry phoff phentsize i (Suc left) s = do {
     r \<leftarrow> scan_segment img entry (phoff + of_nat i * ucast phentsize) s;
     case r of Inl e \<Rightarrow> Some (Inl e)
     | Inr s' \<Rightarrow> scan_segments img entry phoff phentsize (Suc i) left s' }"

definition heap_page :: "u64 \<Rightarrow> u64" where "heap_page a = (a + 0xFFF) AND NOT 0xFFF"

text \<open>The checks after the loop and the fixed heap and stack mappings.\<close>

definition finish_load :: "u64 \<Rightarrow> elf_scan \<Rightarrow> elf_result \<times> elf_load" where
  "finish_load entry s =
     (if \<not> sc_saw_load s then (ELF_ERR_NO_LOAD, cleared_load)
      else if \<not> sc_entry_ok s then (ELF_ERR_BAD_PROGRAM_HEADER, cleared_load)
      else let heap0 = (if sc_heap_start s = 0 then entry else sc_heap_start s);
               heap = heap_page heap0
           in case add_map (sc_load s) ''heap'' heap (heap + COURSE_ELF_USER_HEAP_SIZE) PF_W False of
                None \<Rightarrow> (ELF_ERR_BAD_PROGRAM_HEADER, cleared_load)
              | Some l1 \<Rightarrow>
                  (case add_map l1 ''stack'' (COURSE_ELF_USER_STACK_TOP - COURSE_ELF_USER_STACK_SIZE)
                          COURSE_ELF_USER_STACK_TOP PF_W False of
                     None \<Rightarrow> (ELF_ERR_BAD_PROGRAM_HEADER, cleared_load)
                   | Some l2 \<Rightarrow> (ELF_OK, l2\<lparr>load_user_sp := COURSE_ELF_USER_STACK_TOP\<rparr>)))"

definition initial_load :: "u64 \<Rightarrow> cstr option \<Rightarrow> elf_load" where
  "initial_load entry argv =
     (let args = copy_str COURSE_ELF_ARGV_MAX argv in
      cleared_load\<lparr>load_entry_pc := entry, load_argv := args,
        load_envp := copy_str COURSE_ELF_ENVP_MAX (Some ''PATH=/bin''),
        load_argc := (if args \<noteq> [] then 1 else 0)\<rparr>)"

definition load_segments ::
  "u8 list \<Rightarrow> cstr option \<Rightarrow> u64 \<Rightarrow> u64 \<Rightarrow> u16 \<Rightarrow> u16 \<Rightarrow> (elf_result \<times> elf_load) option" where
  "load_segments img argv entry phoff phentsize phnum = do {
     r \<leftarrow> scan_segments img entry phoff phentsize 0 (unat phnum)
       \<lparr>sc_load = initial_load entry argv, sc_saw_load = False, sc_entry_ok = False, sc_heap_start = 0\<rparr>;
     Some (case r of Inl e \<Rightarrow> (e, cleared_load) | Inr s \<Rightarrow> finish_load entry s) }"

definition elf_load_image :: "u8 list \<Rightarrow> cstr option \<Rightarrow> (elf_result \<times> elf_load) option" where
  "elf_load_image img argv =
     (if length img < 4 then Some (ELF_ERR_BAD_HEADER, cleared_load)
      else do {
        m0 \<leftarrow> byte_at img 0; m1 \<leftarrow> byte_at img 1; m2 \<leftarrow> byte_at img 2; m3 \<leftarrow> byte_at img 3;
        if m0 \<noteq> 0x7F \<or> m1 \<noteq> 0x45 \<or> m2 \<noteq> 0x4C \<or> m3 \<noteq> 0x46 then Some (ELF_ERR_BAD_MAGIC, cleared_load)
        else if length img < 64 then Some (ELF_ERR_BAD_HEADER, cleared_load)
        else do {
          cls \<leftarrow> byte_at img 4; dat \<leftarrow> byte_at img 5; ver \<leftarrow> byte_at img 6;
          typ \<leftarrow> read_le16 img 16; machine \<leftarrow> read_le16 img 18; version \<leftarrow> read_le32 img 20;
          if cls \<noteq> 2 \<or> dat \<noteq> 1 \<or> ver \<noteq> 1 \<or> typ \<noteq> 2 \<or> machine \<noteq> 243 \<or> version \<noteq> 1
          then Some (ELF_ERR_UNSUPPORTED, cleared_load)
          else do {
            entry \<leftarrow> read_le64 img 24; phoff \<leftarrow> read_le64 img 32;
            ehsize \<leftarrow> read_le16 img 52; phentsize \<leftarrow> read_le16 img 54; phnum \<leftarrow> read_le16 img 56;
            if ehsize \<noteq> 64 \<or> phentsize \<noteq> 56 \<or> phnum = 0 \<or> phoff > of_nat (length img) \<or>
               ucast phnum > (of_nat (length img) - phoff) div (ucast phentsize :: u64)
            then Some (ELF_ERR_BAD_HEADER, cleared_load)
            else load_segments img argv entry phoff phentsize phnum } } })"

definition course_elf_loader_load ::
  "u8 list option \<Rightarrow> cstr option \<Rightarrow> elf_load option \<Rightarrow> (elf_result \<times> elf_load option) option" where
  "course_elf_loader_load img argv out_load =
     (let out = clear_load out_load in
      case (img, out) of
        (Some img, Some _) \<Rightarrow> map_option (\<lambda>(r, l). (r, Some l)) (elf_load_image img argv)
      | _ \<Rightarrow> Some (ELF_ERR_BAD_HEADER, out))"

subsection \<open>Reads are little-endian and stay inside the image\<close>

definition le_field :: "u8 list \<Rightarrow> nat \<Rightarrow> nat \<Rightarrow> 'a::len word" where
  "le_field img off n = from_le (take n (drop off img))"

lemma unat_add_no_wrap: "unat a + unat b < 2 ^ 64 \<Longrightarrow> unat (a + b) = unat a + unat b" for a b :: u64
  by (simp add: unat_word_ariths)

lemma byte_at_offset:
  "unat off + unat k < length img \<Longrightarrow> length img < 2 ^ 64 \<Longrightarrow>
     byte_at img (off + k) = Some (img ! (unat off + unat k))"
  by (simp add: byte_at_def unat_add_no_wrap)

lemma take_drop_2: "off + 2 \<le> length xs \<Longrightarrow> take 2 (drop off xs) = [xs ! off, xs ! (off + 1)]"
  by (rule nth_equalityI) (auto simp: less_Suc_eq numeral_2_eq_2)

lemma take_drop_4:
  "off + 4 \<le> length xs \<Longrightarrow>
     take 4 (drop off xs) = [xs ! off, xs ! (off + 1), xs ! (off + 2), xs ! (off + 3)]"
  by (rule nth_equalityI) (auto simp: less_Suc_eq numeral_eq_Suc)

lemma read_le16_eq:
  assumes "unat off + 2 \<le> length img" "length img < 2 ^ 64"
  shows "read_le16 img off = Some (le_field img (unat off) 2)"
proof -
  have "byte_at img off = Some (img ! unat off)" "byte_at img (off + 1) = Some (img ! (unat off + 1))"
    using assms byte_at_offset [of off 1 img] by (simp_all add: byte_at_def)
  then show ?thesis
    using assms(1) by (simp add: read_le16_def le_field_def push_bit_or or.assoc take_drop_2)
qed

lemma read_le32_eq:
  assumes "unat off + 4 \<le> length img" "length img < 2 ^ 64"
  shows "read_le32 img off = Some (le_field img (unat off) 4)"
proof -
  have "byte_at img off = Some (img ! unat off)" "byte_at img (off + 1) = Some (img ! (unat off + 1))"
    "byte_at img (off + 2) = Some (img ! (unat off + 2))" "byte_at img (off + 3) = Some (img ! (unat off + 3))"
    using assms byte_at_offset [of off 1 img] byte_at_offset [of off 2 img] byte_at_offset [of off 3 img]
    by (simp_all add: byte_at_def)
  then show ?thesis
    using assms(1)
    by (simp add: read_le32_def le_field_def push_bit_or or.assoc push_bit_push_bit take_drop_4)
qed

lemma le_field_split:
  assumes "off + 8 \<le> length img"
  shows "(ucast (le_field img off 4 :: u32) OR push_bit 32 (ucast (le_field img (off + 4) 4 :: u32)) :: u64) =
           le_field img off 8"
proof (rule bit_word_eqI)
  fix j assume "j < LENGTH(64)"
  then have j: "j < 64" by simp
  show "bit (ucast (le_field img off 4 :: u32) OR push_bit 32 (ucast (le_field img (off + 4) 4 :: u32)) :: u64) j =
          bit (le_field img off 8 :: u64) j"
  proof (cases "j < 32")
    case True
    then have "j div 8 < 4" by simp
    then show ?thesis using True j assms by (auto simp: bit_simps le_field_def bit_from_le)
  next
    case False
    then obtain k where "j = k + 32" by (metis add.commute le_Suc_ex not_less)
    then have "j div 8 = k div 8 + 4" "j mod 8 = k mod 8" "k div 8 < 4" "k < 32" "j = k + 32"
      using j mod_mult_self1 [of k 4 8] by simp_all
    then show ?thesis
      using assms by (auto simp: bit_simps le_field_def bit_from_le add.assoc add.commute [of 4])
  qed
qed

lemma read_le64_eq:
  assumes "unat off + 8 \<le> length img" "length img < 2 ^ 64"
  shows "read_le64 img off = Some (le_field img (unat off) 8)"
proof -
  have "unat (off + 4) = unat off + 4"
    using assms unat_add_no_wrap [of off 4] by simp
  then show ?thesis
    using assms le_field_split [of "unat off" img]
    by (simp add: read_le64_def read_le32_eq)
qed

lemmas read_le_eqs = read_le16_eq read_le32_eq read_le64_eq

subsection \<open>The loader over parsed headers\<close>

record phdr =
  ph_type :: u32
  ph_flags :: u32
  ph_offset :: u64
  ph_vaddr :: u64
  ph_filesz :: u64
  ph_memsz :: u64

definition phdr_at :: "u8 list \<Rightarrow> nat \<Rightarrow> phdr" where
  "phdr_at img off = \<lparr>ph_type = le_field img off 4, ph_flags = le_field img (off + 4) 4,
     ph_offset = le_field img (off + 8) 8, ph_vaddr = le_field img (off + 16) 8,
     ph_filesz = le_field img (off + 32) 8, ph_memsz = le_field img (off + 40) 8\<rparr>"

definition phdrs :: "u8 list \<Rightarrow> phdr list" where
  "phdrs img = map (\<lambda>i. phdr_at img (unat (le_field img 32 8 :: u64) + 56 * i))
                   [0..<unat (le_field img 56 2 :: u16)]"

definition elf_header_ok :: "u8 list \<Rightarrow> bool" where
  "elf_header_ok img \<longleftrightarrow> 64 \<le> length img \<and> take 4 img = [0x7F, 0x45, 0x4C, 0x46] \<and>
     img ! 4 = 2 \<and> img ! 5 = 1 \<and> img ! 6 = 1 \<and> le_field img 16 2 = (2 :: u16) \<and>
     le_field img 18 2 = (243 :: u16) \<and> le_field img 20 4 = (1 :: u32) \<and>
     le_field img 52 2 = (64 :: u16) \<and> le_field img 54 2 = (56 :: u16) \<and>
     le_field img 56 2 \<noteq> (0 :: u16) \<and>
     unat (le_field img 32 8 :: u64) + 56 * unat (le_field img 56 2 :: u16) \<le> length img"

definition seg_ok :: "u8 list \<Rightarrow> phdr \<Rightarrow> bool" where
  "seg_ok img ph \<longleftrightarrow> unat (ph_filesz ph) \<le> unat (ph_memsz ph) \<and>
     unat (ph_offset ph) + unat (ph_filesz ph) \<le> length img \<and>
     0 < unat (ph_vaddr ph) \<and> 0 < unat (ph_memsz ph) \<and> unat (ph_vaddr ph) + unat (ph_memsz ph) < 2 ^ 64"

definition seg_map :: "phdr \<Rightarrow> elf_map" where
  "seg_map ph = \<lparr>map_name = (if ph_flags ph AND PF_X \<noteq> 0 then ''code'' else ''data''),
     map_start = ph_vaddr ph, map_end = ph_vaddr ph + ph_memsz ph, map_flags = ph_flags ph, map_cow = False\<rparr>"

definition seg_has_entry :: "u64 \<Rightarrow> phdr \<Rightarrow> bool" where
  "seg_has_entry entry ph \<longleftrightarrow> ph_flags ph AND PF_X \<noteq> 0 \<and> ph_vaddr ph \<le> entry \<and>
     entry < ph_vaddr ph + ph_memsz ph"

lemma sum_mod_wrap: "a < N \<Longrightarrow> b < N \<Longrightarrow> \<not> a + b < N \<Longrightarrow> (a + b) mod N = a + b - N" for a b N :: nat
  by (simp add: le_mod_geq)

lemma seg_checks:
  assumes "length img < 2 ^ 64"
  shows "(ph_memsz ph < ph_filesz ph \<or> ph_offset ph > of_nat (length img) \<or>
          ph_filesz ph > of_nat (length img) - ph_offset ph \<or> ph_vaddr ph = 0 \<or> ph_memsz ph = 0 \<or>
          ph_vaddr ph + ph_memsz ph < ph_vaddr ph) \<or>
          \<not> ph_vaddr ph < ph_vaddr ph + ph_memsz ph \<longleftrightarrow> \<not> seg_ok img ph"
proof -
  have len: "unat (of_nat (length img) :: u64) = length img"
    using assms by (simp add: unat_of_nat_small)
  have sub: "unat (of_nat (length img) - ph_offset ph) = length img - unat (ph_offset ph)"
    if "unat (ph_offset ph) \<le> length img"
    using that len by (simp add: unat_sub word_le_nat_alt)
  have wrap: "ph_vaddr ph < ph_vaddr ph + ph_memsz ph \<longleftrightarrow>
      0 < unat (ph_memsz ph) \<and> unat (ph_vaddr ph) + unat (ph_memsz ph) < 2 ^ 64"
  proof (cases "unat (ph_vaddr ph) + unat (ph_memsz ph) < 2 ^ 64")
    case True
    then show ?thesis by (simp add: word_less_nat_alt unat_add_no_wrap)
  next
    case False
    then have "unat (ph_vaddr ph + ph_memsz ph) = unat (ph_vaddr ph) + unat (ph_memsz ph) - 2 ^ 64"
      using unsigned_less [of "ph_vaddr ph"] unsigned_less [of "ph_memsz ph"]
      using sum_mod_wrap [of "unat (ph_vaddr ph)" "2 ^ 64" "unat (ph_memsz ph)"]
      by (simp add: unat_word_ariths)
    moreover have "unat (ph_memsz ph) < 2 ^ 64" using unsigned_less [of "ph_memsz ph"] by simp
    ultimately show ?thesis using False by (simp add: word_less_nat_alt)
  qed
  have nz: "ph_vaddr ph = 0 \<longleftrightarrow> \<not> 0 < unat (ph_vaddr ph)" "ph_memsz ph = 0 \<longleftrightarrow> \<not> 0 < unat (ph_memsz ph)"
    by (simp_all only: neq0_conv [symmetric] unsigned_eq_0_iff not_not)
  have bound: "(ph_offset ph > of_nat (length img) \<or> ph_filesz ph > of_nat (length img) - ph_offset ph)
      \<longleftrightarrow> \<not> unat (ph_offset ph) + unat (ph_filesz ph) \<le> length img"
    using sub len by (cases "unat (ph_offset ph) \<le> length img") (auto simp only: word_less_nat_alt)
  have ord: "ph_vaddr ph + ph_memsz ph < ph_vaddr ph \<Longrightarrow> \<not> ph_vaddr ph < ph_vaddr ph + ph_memsz ph"
    using order_less_trans order_less_irrefl by blast
  have lt: "ph_memsz ph < ph_filesz ph \<longleftrightarrow> \<not> unat (ph_filesz ph) \<le> unat (ph_memsz ph)"
    by (simp only: word_less_nat_alt not_le)
  show ?thesis
    unfolding seg_ok_def using bound ord lt wrap nz by blast
qed

definition phdr_step :: "u8 list \<Rightarrow> u64 \<Rightarrow> phdr \<Rightarrow> elf_scan \<Rightarrow> elf_result + elf_scan" where
  "phdr_step img entry ph s =
     (if ph_type ph \<noteq> PT_LOAD then Inr s
      else if \<not> seg_ok img ph \<or> load_map_count (sc_load s) \<ge> COURSE_ELF_MAX_MAPS
      then Inl ELF_ERR_BAD_PROGRAM_HEADER
      else Inr \<lparr>sc_load = (sc_load s)\<lparr>load_maps := (load_maps (sc_load s))(load_map_count (sc_load s) := seg_map ph),
                  load_map_count := load_map_count (sc_load s) + 1\<rparr>,
             sc_saw_load = True, sc_entry_ok = (sc_entry_ok s \<or> seg_has_entry entry ph),
             sc_heap_start = max (sc_heap_start s) (ph_vaddr ph + ph_memsz ph)\<rparr>)"

lemma phdr_step_code:
  assumes "length img < 2 ^ 64"
  shows "(if ph_type ph \<noteq> PT_LOAD then Inr s
       else if ph_memsz ph < ph_filesz ph \<or> ph_offset ph > of_nat (length img) \<or>
               ph_filesz ph > of_nat (length img) - ph_offset ph \<or> ph_vaddr ph = 0 \<or> ph_memsz ph = 0 \<or>
               ph_vaddr ph + ph_memsz ph < ph_vaddr ph
       then Inl ELF_ERR_BAD_PROGRAM_HEADER
       else case add_map (sc_load s) (if ph_flags ph AND PF_X \<noteq> 0 then ''code'' else ''data'')
                   (ph_vaddr ph) (ph_vaddr ph + ph_memsz ph) (ph_flags ph) False of
           None \<Rightarrow> Inl ELF_ERR_BAD_PROGRAM_HEADER
         | Some load \<Rightarrow> Inr \<lparr>sc_load = load, sc_saw_load = True,
             sc_entry_ok = (sc_entry_ok s \<or> (ph_flags ph AND PF_X \<noteq> 0 \<and> entry \<ge> ph_vaddr ph \<and>
                entry < ph_vaddr ph + ph_memsz ph)),
             sc_heap_start = (if ph_vaddr ph + ph_memsz ph > sc_heap_start s
                then ph_vaddr ph + ph_memsz ph else sc_heap_start s)\<rparr>) = phdr_step img entry ph s"
proof -
  have m: "add_map (sc_load s) (if ph_flags ph AND PF_X \<noteq> 0 then ''code'' else ''data'')
             (ph_vaddr ph) (ph_vaddr ph + ph_memsz ph) (ph_flags ph) False =
      (if \<not> ph_vaddr ph < ph_vaddr ph + ph_memsz ph \<or> 8 \<le> load_map_count (sc_load s) then None
       else Some ((sc_load s)\<lparr>load_maps := (load_maps (sc_load s))(load_map_count (sc_load s) := seg_map ph),
                  load_map_count := load_map_count (sc_load s) + 1\<rparr>))"
    by (simp add: add_map_def seg_map_def not_less)
  have mx: "(if a > b then a else b) = max b a" for a b :: u64 by (auto simp: max_def not_le)
  show ?thesis
    unfolding m mx seg_has_entry_def [symmetric] phdr_step_def
    using seg_checks [OF assms, of ph] by (simp split: if_splits) blast
qed

lemma scan_segment_eq:
  assumes "unat off + 56 \<le> length img" "length img < 2 ^ 64"
  shows "scan_segment img entry off s = Some (phdr_step img entry (phdr_at img (unat off)) s)"
proof -
  have u: "unat (off + 4) = unat off + 4" "unat (off + 8) = unat off + 8" "unat (off + 16) = unat off + 16"
    "unat (off + 32) = unat off + 32" "unat (off + 40) = unat off + 40"
    using assms unat_add_no_wrap [of off 4] unat_add_no_wrap [of off 8] unat_add_no_wrap [of off 16]
      unat_add_no_wrap [of off 32] unat_add_no_wrap [of off 40] by simp_all
  have reads: "read_le32 img off = Some (ph_type (phdr_at img (unat off)))"
    "read_le32 img (off + 4) = Some (ph_flags (phdr_at img (unat off)))"
    "read_le64 img (off + 8) = Some (ph_offset (phdr_at img (unat off)))"
    "read_le64 img (off + 16) = Some (ph_vaddr (phdr_at img (unat off)))"
    "read_le64 img (off + 32) = Some (ph_filesz (phdr_at img (unat off)))"
    "read_le64 img (off + 40) = Some (ph_memsz (phdr_at img (unat off)))"
    using assms by (simp_all add: read_le_eqs u phdr_at_def)
  show ?thesis
    unfolding scan_segment_def reads Option.bind.bind_lunit Let_def
    by (simp only: phdr_step_code [OF assms(2)])
qed

fun scan_phdrs :: "u8 list \<Rightarrow> u64 \<Rightarrow> phdr list \<Rightarrow> elf_scan \<Rightarrow> elf_result + elf_scan" where
  "scan_phdrs img entry [] s = Inr s"
| "scan_phdrs img entry (ph # phs) s = (case phdr_step img entry ph s of
     Inl e \<Rightarrow> Inl e | Inr s' \<Rightarrow> scan_phdrs img entry phs s')"

lemma scan_segments_eq:
  assumes "length img < 2 ^ 64" "unat phoff + 56 * (i + left) \<le> length img"
  shows "scan_segments img entry phoff 56 i left s =
           Some (scan_phdrs img entry (map (\<lambda>j. phdr_at img (unat phoff + 56 * j)) [i..<i + left]) s)"
  using assms
proof (induction left arbitrary: i s)
  case 0
  then show ?case by simp
next
  case (Suc left)
  have len: "unat (of_nat i * 56 :: u64) = 56 * i"
    using Suc.prems by (simp add: unat_word_ariths unsigned_of_nat take_bit_nat_eq_self mult.commute)
  have off: "unat (phoff + of_nat i * 56) = unat phoff + 56 * i"
    using Suc.prems len unat_add_no_wrap [of phoff "of_nat i * 56"] by simp
  have step: "scan_segment img entry (phoff + of_nat i * 56) s =
                Some (phdr_step img entry (phdr_at img (unat phoff + 56 * i)) s)"
    using Suc.prems scan_segment_eq [of "phoff + of_nat i * 56" img entry s] off by simp
  have up: "[i..<Suc (i + left)] = i # [Suc i..<Suc (i + left)]"
    by (simp add: upt_conv_Cons del: upt_Suc)
  show ?case
    using Suc.IH [of "Suc i"] Suc.prems
    by (simp add: step up del: upt_Suc split: sum.splits)
qed

definition is_load :: "phdr \<Rightarrow> bool" where "is_load ph \<longleftrightarrow> ph_type ph = PT_LOAD"

lemma arr_write_Nil [simp]: "arr_write a off [] = a"
  by (auto simp: arr_write_def fun_eq_iff)

lemma arr_write_Cons: "arr_write (a(off := x)) (Suc off) xs = arr_write a off (x # xs)"
  by (auto simp: arr_write_def fun_eq_iff nth_Cons' le_Suc_eq Suc_diff_le split: if_splits)

definition heap_top :: "phdr list \<Rightarrow> u64 \<Rightarrow> u64" where
  "heap_top phs h = fold (\<lambda>ph. max (ph_vaddr ph + ph_memsz ph)) (filter is_load phs) h"

lemma heap_top_simps [simp]:
  "heap_top [] h = h"
  "is_load ph \<Longrightarrow> heap_top (ph # phs) h = heap_top phs (max h (ph_vaddr ph + ph_memsz ph))"
  "\<not> is_load ph \<Longrightarrow> heap_top (ph # phs) h = heap_top phs h"
  by (simp_all add: heap_top_def max.commute)

lemma scan_phdrs_eq:
  assumes "load_map_count (sc_load s) \<le> COURSE_ELF_MAX_MAPS"
  shows "scan_phdrs img entry phs s =
     (let ls = filter is_load phs; l = sc_load s in
      if (\<forall>ph\<in>set ls. seg_ok img ph) \<and> load_map_count l + length ls \<le> COURSE_ELF_MAX_MAPS
      then Inr \<lparr>sc_load = l\<lparr>load_maps := arr_write (load_maps l) (load_map_count l) (map seg_map ls),
                                load_map_count := load_map_count l + length ls\<rparr>,
                 sc_saw_load = (sc_saw_load s \<or> ls \<noteq> []),
                 sc_entry_ok = (sc_entry_ok s \<or> (\<exists>ph\<in>set ls. seg_has_entry entry ph)),
                 sc_heap_start = heap_top phs (sc_heap_start s)\<rparr>
      else Inl ELF_ERR_BAD_PROGRAM_HEADER)"
  using assms
proof (induction phs arbitrary: s)
  case Nil
  then show ?case by simp
next
  case (Cons ph phs)
  show ?case
  proof (cases "is_load ph")
    case False
    then have "phdr_step img entry ph s = Inr s" by (simp add: phdr_step_def is_load_def)
    then show ?thesis
      using Cons.IH [OF Cons.prems] False by (simp add: Let_def)
  next
    case True
    show ?thesis
    proof (cases "seg_ok img ph \<and> load_map_count (sc_load s) < COURSE_ELF_MAX_MAPS")
      case False
      then show ?thesis using True by (auto simp: phdr_step_def is_load_def Let_def)
    next
      case ok: True
      let ?s' = "\<lparr>sc_load = (sc_load s)\<lparr>load_maps := (load_maps (sc_load s))(load_map_count (sc_load s) := seg_map ph),
                  load_map_count := load_map_count (sc_load s) + 1\<rparr>,
             sc_saw_load = True, sc_entry_ok = (sc_entry_ok s \<or> seg_has_entry entry ph),
             sc_heap_start = max (sc_heap_start s) (ph_vaddr ph + ph_memsz ph)\<rparr>"
      have step: "phdr_step img entry ph s = Inr ?s'"
        using True ok by (simp add: phdr_step_def is_load_def)
      show ?thesis
        using Cons.IH [of ?s'] True ok
        by (simp add: step arr_write_Cons Let_def disj_assoc)
    qed
  qed
qed

subsection \<open>What the loader accepts and produces\<close>

definition elf_entry :: "u8 list \<Rightarrow> u64" where "elf_entry img = le_field img 24 8"

definition elf_loads :: "u8 list \<Rightarrow> phdr list" where "elf_loads img = filter is_load (phdrs img)"

definition elf_heap :: "u8 list \<Rightarrow> u64" where "elf_heap img = heap_page (heap_top (phdrs img) 0)"

definition elf_accepts :: "u8 list \<Rightarrow> bool" where
  "elf_accepts img \<longleftrightarrow> elf_header_ok img \<and> elf_loads img \<noteq> [] \<and> (\<forall>ph\<in>set (elf_loads img). seg_ok img ph) \<and>
     length (elf_loads img) + 2 \<le> COURSE_ELF_MAX_MAPS \<and>
     (\<exists>ph\<in>set (elf_loads img). seg_has_entry (elf_entry img) ph) \<and>
     elf_heap img < elf_heap img + COURSE_ELF_USER_HEAP_SIZE"

definition fixed_map :: "cstr \<Rightarrow> u64 \<Rightarrow> u64 \<Rightarrow> elf_map" where
  "fixed_map name a b = \<lparr>map_name = name, map_start = a, map_end = b, map_flags = PF_W, map_cow = False\<rparr>"

definition elf_maps :: "u8 list \<Rightarrow> elf_map list" where
  "elf_maps img = map seg_map (elf_loads img) @
     [fixed_map ''heap'' (elf_heap img) (elf_heap img + COURSE_ELF_USER_HEAP_SIZE),
      fixed_map ''stack'' 0x7FFFE000 0x7FFFF000]"

definition loaded :: "u8 list \<Rightarrow> cstr option \<Rightarrow> elf_load" where
  "loaded img argv = (initial_load (elf_entry img) argv)\<lparr>load_user_sp := COURSE_ELF_USER_STACK_TOP,
     load_maps := arr_write (\<lambda>_. empty_map) 0 (elf_maps img), load_map_count := length (elf_maps img)\<rparr>"

lemma arr_write_append:
  "arr_write a off (xs @ [x]) = (arr_write a off xs)(off + length xs := x)"
  by (auto simp: arr_write_def fun_eq_iff nth_append)

lemma arr_write_append2:
  "arr_write a off (xs @ [x, y]) = (arr_write a off xs)(off + length xs := x, Suc (off + length xs) := y)"
  using arr_write_append [of a off "xs @ [x]" y] arr_write_append [of a off xs x] by simp

lemma fold_max_ge: "x \<in> set xs \<Longrightarrow> f x \<le> fold (\<lambda>y. max (f y)) xs h" for f :: "'b \<Rightarrow> 'a::linorder"
proof -
  have mono: "h \<le> fold (\<lambda>y. max (f y)) xs h" for xs h
    by (induction xs arbitrary: h) (auto intro: order_trans [OF max.cobounded2])
  show "x \<in> set xs \<Longrightarrow> f x \<le> fold (\<lambda>y. max (f y)) xs h"
  proof (induction xs arbitrary: h)
    case (Cons y ys)
    then show ?case using order_trans [OF max.cobounded1 mono] by (auto simp: max.coboundedI1)
  qed simp
qed

lemma heap_top_nonzero:
  assumes "ph \<in> set (filter is_load phs)" "seg_ok img ph"
  shows "heap_top phs 0 \<noteq> 0"
proof -
  have "unat (ph_vaddr ph + ph_memsz ph) = unat (ph_vaddr ph) + unat (ph_memsz ph)" "0 < unat (ph_vaddr ph)"
    using assms(2) by (auto simp: seg_ok_def unat_add_no_wrap)
  then have pos: "0 < unat (ph_vaddr ph + ph_memsz ph)" by (simp only: trans_less_add1)
  have nz: "ph_vaddr ph + ph_memsz ph \<noteq> 0"
  proof
    assume "ph_vaddr ph + ph_memsz ph = 0"
    with pos show False by simp
  qed
  have "ph_vaddr ph + ph_memsz ph \<le> heap_top phs 0"
    unfolding heap_top_def by (rule fold_max_ge [OF assms(1)])
  with nz show ?thesis by auto
qed

definition elf_segments_ok :: "u8 list \<Rightarrow> bool" where
  "elf_segments_ok img \<longleftrightarrow> (\<forall>ph\<in>set (elf_loads img). seg_ok img ph) \<and>
     length (elf_loads img) \<le> COURSE_ELF_MAX_MAPS"

lemma load_segments_eq:
  assumes len: "length img < 2 ^ 64" and hdr: "elf_header_ok img"
  shows "load_segments img argv (elf_entry img) (le_field img 32 8) 56 (le_field img 56 2) =
     Some (if elf_accepts img then (ELF_OK, loaded img argv)
           else (if elf_segments_ok img \<and> elf_loads img = [] then ELF_ERR_NO_LOAD
                 else ELF_ERR_BAD_PROGRAM_HEADER, cleared_load))"
proof -
  let ?l0 = "initial_load (elf_entry img) argv"
  let ?s0 = "\<lparr>sc_load = ?l0, sc_saw_load = False, sc_entry_ok = False, sc_heap_start = 0\<rparr>"
  let ?ls = "elf_loads img"
  have l0: "load_map_count ?l0 = 0" "load_maps ?l0 = (\<lambda>_. empty_map)"
    by (simp_all add: initial_load_def cleared_load_def Let_def)
  have scan: "scan_segments img (elf_entry img) (le_field img 32 8) 56 0 (unat (le_field img 56 2 :: u16)) ?s0 =
      Some (scan_phdrs img (elf_entry img) (phdrs img) ?s0)"
    using scan_segments_eq [OF len, of "le_field img 32 8" 0 "unat (le_field img 56 2 :: u16)"] hdr
    by (simp add: elf_header_ok_def phdrs_def)
  show ?thesis
  proof (cases "elf_segments_ok img")
    case False
    have "scan_phdrs img (elf_entry img) (phdrs img) ?s0 = Inl ELF_ERR_BAD_PROGRAM_HEADER"
      by (subst scan_phdrs_eq) (use False l0 in \<open>auto simp: elf_segments_ok_def elf_loads_def Let_def\<close>)
    moreover have "\<not> elf_accepts img" using False by (auto simp: elf_segments_ok_def elf_accepts_def)
    ultimately show ?thesis
      using False by (simp add: load_segments_def scan)
  next
    case True
    let ?fin = "\<lparr>sc_load = ?l0\<lparr>load_maps := arr_write (\<lambda>_. empty_map) 0 (map seg_map ?ls),
                               load_map_count := length ?ls\<rparr>,
        sc_saw_load = (?ls \<noteq> []), sc_entry_ok = (\<exists>ph\<in>set ?ls. seg_has_entry (elf_entry img) ph),
        sc_heap_start = heap_top (phdrs img) 0\<rparr>"
    have r: "scan_phdrs img (elf_entry img) (phdrs img) ?s0 = Inr ?fin"
      by (subst scan_phdrs_eq) (use True l0 in \<open>simp_all add: elf_segments_ok_def elf_loads_def Let_def\<close>)
    have nz: "heap_top (phdrs img) 0 \<noteq> 0" if "?ls \<noteq> []"
    proof -
      have hd: "hd ?ls \<in> set ?ls" using that by simp
      then have "seg_ok img (hd ?ls)" using True by (simp add: elf_segments_ok_def)
      then show ?thesis using heap_top_nonzero hd unfolding elf_loads_def by blast
    qed
    have fin: "finish_load (elf_entry img) ?fin =
       (if elf_accepts img then (ELF_OK, loaded img argv)
        else (if ?ls = [] then ELF_ERR_NO_LOAD else ELF_ERR_BAD_PROGRAM_HEADER, cleared_load))"
    proof (cases "?ls \<noteq> [] \<and> sc_entry_ok ?fin \<and> length ?ls + 2 \<le> 8 \<and> elf_heap img < elf_heap img + 4096")
      case acc: True
      then have "elf_accepts img" using True hdr by (auto simp: elf_accepts_def elf_segments_ok_def)
      with acc nz show ?thesis
        by (simp add: finish_load_def add_map_ok elf_heap_def loaded_def elf_maps_def
            fixed_map_def arr_write_append2 Let_def)
    next
      case False
      then have acc: "\<not> elf_accepts img" by (auto simp: elf_accepts_def)
      have "finish_load (elf_entry img) ?fin = (if ?ls = [] then ELF_ERR_NO_LOAD else ELF_ERR_BAD_PROGRAM_HEADER,
              cleared_load)"
      proof (cases "?ls = [] \<or> \<not> sc_entry_ok ?fin")
        case True
        then show ?thesis by (auto simp: finish_load_def)
      next
        case go: False
        then have h: "heap_page (heap_top (phdrs img) 0) = elf_heap img" by (simp add: elf_heap_def)
        show ?thesis
        proof (cases "elf_heap img < elf_heap img + 4096 \<and> length ?ls < 8")
          case True
          then show ?thesis
            using go False nz h by (simp add: finish_load_def add_map_ok add_map_fail Let_def)
        next
          case no: False
          then show ?thesis
            using go nz h by (auto simp: finish_load_def add_map_fail)
        qed
      qed
      with acc show ?thesis by simp
    qed
    then show ?thesis
      using True by (simp add: load_segments_def scan r)
  qed
qed

lemma byte_at_less: "unat off < length img \<Longrightarrow> byte_at img off = Some (img ! unat off)"
  by (simp add: byte_at_def)

lemma header_bound:
  assumes "length img < 2 ^ 64"
  shows "(phoff > of_nat (length img) \<or>
          ucast (phnum :: u16) > (of_nat (length img) - phoff) div (56 :: u64)) \<longleftrightarrow>
         \<not> unat phoff + 56 * unat phnum \<le> length img"
proof -
  have len: "unat (of_nat (length img) :: u64) = length img"
    using assms by (simp add: unat_of_nat_small)
  have n: "unat (ucast phnum :: u64) = unat phnum"
    by transfer simp
  show ?thesis
  proof (cases "unat phoff \<le> length img")
    case True
    then have "unat (of_nat (length img) - phoff) = length img - unat phoff"
      using len by (simp add: unat_sub word_le_nat_alt)
    moreover have "k \<le> (a - b) div 56 \<longleftrightarrow> b + 56 * k \<le> a" if "b \<le> a" for a b k :: nat
      using that by (simp add: less_eq_div_iff_mult_less_eq) linarith
    ultimately show ?thesis
      using True len n by (auto simp: word_less_nat_alt unat_div not_less [symmetric])
  next
    case False
    then show ?thesis using len by (simp add: word_less_nat_alt)
  qed
qed

lemma take_4_eq:
  "4 \<le> length img \<Longrightarrow> take 4 img = [a, b, c, d] \<longleftrightarrow>
     img ! 0 = a \<and> img ! 1 = b \<and> img ! 2 = c \<and> img ! 3 = d"
  using take_drop_4 [of 0 img] by (simp add: numeral_2_eq_2)

lemma header_reads:
  assumes "64 \<le> length img" "length img < 2 ^ 64"
  shows "byte_at img 0 = Some (img ! 0)" "byte_at img 1 = Some (img ! 1)" "byte_at img 2 = Some (img ! 2)"
    "byte_at img 3 = Some (img ! 3)" "byte_at img 4 = Some (img ! 4)" "byte_at img 5 = Some (img ! 5)"
    "byte_at img 6 = Some (img ! 6)" "read_le16 img 16 = Some (le_field img 16 2)"
    "read_le16 img 18 = Some (le_field img 18 2)" "read_le32 img 20 = Some (le_field img 20 4)"
    "read_le64 img 24 = Some (elf_entry img)" "read_le64 img 32 = Some (le_field img 32 8)"
    "read_le16 img 52 = Some (le_field img 52 2)" "read_le16 img 54 = Some (le_field img 54 2)"
    "read_le16 img 56 = Some (le_field img 56 2)"
  using assms read_le16_eq [of 16 img] read_le16_eq [of 18 img] read_le32_eq [of 20 img]
    read_le64_eq [of 24 img] read_le64_eq [of 32 img] read_le16_eq [of 52 img] read_le16_eq [of 54 img]
    read_le16_eq [of 56 img]
  by (auto simp: byte_at_def elf_entry_def)

lemma elf_load_image_eq:
  assumes "length img < 2 ^ 64"
  shows "\<exists>r l. elf_load_image img argv = Some (r, l) \<and> (r = ELF_OK \<longleftrightarrow> elf_accepts img) \<and>
           l = (if r = ELF_OK then loaded img argv else cleared_load)"
proof (cases "elf_header_ok img")
  case True
  then have hdr: "64 \<le> length img" "take 4 img = [0x7F, 0x45, 0x4C, 0x46]" "img ! 4 = 2" "img ! 5 = 1" "img ! 6 = 1"
    and flds: "le_field img 16 2 = (2 :: u16)" "le_field img 18 2 = (243 :: u16)"
    "le_field img 20 4 = (1 :: u32)" "le_field img 52 2 = (64 :: u16)" "le_field img 54 2 = (56 :: u16)"
    "le_field img 56 2 \<noteq> (0 :: u16)"
    "unat (le_field img 32 8 :: u64) + 56 * unat (le_field img 56 2 :: u16) \<le> length img"
    by (simp_all add: elf_header_ok_def)
  have magic: "img ! 0 = 0x7F" "img ! 1 = 0x45" "img ! 2 = 0x4C" "img ! 3 = 0x46"
    using hdr take_4_eq [of img "0x7F" "0x45" "0x4C" "0x46"] by simp_all
  have "elf_load_image img argv = load_segments img argv (elf_entry img) (le_field img 32 8) 56 (le_field img 56 2)"
    unfolding elf_load_image_def header_reads [OF hdr(1) assms] Option.bind.bind_lunit
    using hdr flds magic header_bound [OF assms, of "le_field img 32 8" "le_field img 56 2"] by simp
  then show ?thesis
    using load_segments_eq [OF assms True, of argv] by auto
next
  case False
  then have na: "\<not> elf_accepts img" by (simp add: elf_accepts_def)
  have "\<exists>e. e \<noteq> ELF_OK \<and> elf_load_image img argv = Some (e, cleared_load)"
  proof (cases "64 \<le> length img")
    case short: False
    show ?thesis
    proof (cases "4 \<le> length img")
      case True
      then have "byte_at img 0 = Some (img ! 0)" "byte_at img 1 = Some (img ! 1)"
        "byte_at img 2 = Some (img ! 2)" "byte_at img 3 = Some (img ! 3)"
        by (auto simp: byte_at_def)
      then show ?thesis using short by (simp add: elf_load_image_def del: One_nat_def)
    qed (simp add: elf_load_image_def)
  next
    case True
    then have len: "\<not> length img < 4" "\<not> length img < 64" "4 \<le> length img" by auto
    show ?thesis
      unfolding elf_load_image_def header_reads [OF True assms] Option.bind.bind_lunit
      using False len True header_bound [OF assms, of "le_field img 32 8" "le_field img 56 2"]
        take_4_eq [of img "0x7F" "0x45" "0x4C" "0x46"]
      unfolding elf_header_ok_def by (auto split: if_splits)
  qed
  with na show ?thesis by auto
qed

text \<open>C21: the loader accepts exactly the well-formed images and never reads outside the
  image.  For any byte string it returns: \<open>OK\<close> if and only if the ELF and program headers pass the
  format, bounds and overflow checks stated by \<open>elf_accepts\<close>; the entry, the stack pointer, the
  argument string and the map table are then exactly those of the loadable segments in file order,
  followed by the heap and the stack.  On every error the result record is cleared.\<close>

theorem course_elf_loader_load_exact:
  assumes "length img < 2 ^ 64"
  shows "\<exists>r l. course_elf_loader_load (Some img) argv (Some out) = Some (r, Some l) \<and>
      (r = ELF_OK \<longleftrightarrow> elf_accepts img) \<and> (r \<noteq> ELF_OK \<longrightarrow> l = cleared_load) \<and>
      (r = ELF_OK \<longrightarrow> load_entry_pc l = elf_entry img \<and> load_user_sp l = 0x7FFFF000 \<and>
         load_argv l = copy_str 64 argv \<and>
         arr_list (load_maps l) (load_map_count l) = map seg_map (elf_loads img) @
           [fixed_map ''heap'' (elf_heap img) (elf_heap img + 4096), fixed_map ''stack'' 0x7FFFE000 0x7FFFF000])"
proof -
  obtain r l where r: "elf_load_image img argv = Some (r, l)" "r = ELF_OK \<longleftrightarrow> elf_accepts img"
    "l = (if r = ELF_OK then loaded img argv else cleared_load)"
    using elf_load_image_eq [OF assms] by blast
  have "arr_list (arr_write a 0 xs) (length xs) = xs" for a :: "elf_map carray" and xs
    by (rule nth_equalityI) (auto simp: arr_write_def)
  then have "arr_list (load_maps (loaded img argv)) (load_map_count (loaded img argv)) = elf_maps img"
    by (simp add: loaded_def)
  then show ?thesis
    using r by (auto simp: course_elf_loader_load_def clear_load_def loaded_def initial_load_def Let_def elf_maps_def)
qed

lemma loaded_map_bounds:
  assumes "elf_accepts img"
  shows "load_map_count (loaded img argv) = length (elf_maps img)" "length (elf_maps img) \<in> {3..8}"
    "m \<in> set (elf_maps img) \<Longrightarrow> map_start m < map_end m"
proof -
  have "elf_loads img \<noteq> []" using assms by (simp add: elf_accepts_def)
  then have "1 \<le> length (elf_loads img)" by (cases "elf_loads img") auto
  then show "length (elf_maps img) \<in> {3..8}"
    using assms by (auto simp: elf_accepts_def elf_maps_def)
  show "load_map_count (loaded img argv) = length (elf_maps img)"
    by (simp add: loaded_def)
  have "ph_vaddr ph < ph_vaddr ph + ph_memsz ph" if "seg_ok img ph" for ph
    using that by (simp add: seg_ok_def word_less_nat_alt unat_add_no_wrap)
  then show "m \<in> set (elf_maps img) \<Longrightarrow> map_start m < map_end m"
    using assms by (auto simp: elf_maps_def elf_accepts_def seg_map_def fixed_map_def)
qed

end
