(* ===== verification/UserPrograms.thy ===== *)
theory UserPrograms
  imports ElfLoader
begin

text \<open>
  The built-in user programs (\<open>src/myCPU/guest/kernel/course_user_programs.c\<close>): five minimal ELF
  images made by the macro \<open>COURSE_ELF_IMAGE\<close>, a deliberately broken one, the table that names
  them and its lookup.
\<close>

datatype program_kind = PROGRAM_HELLO | PROGRAM_ECHO | PROGRAM_CAT | PROGRAM_FORKTEST | PROGRAM_CRASH

record user_program =
  prog_name :: cstr
  prog_kind :: program_kind
  prog_entry_pc :: u64
  prog_user_sp :: u64
  prog_elf_image :: "u8 list"
  prog_stage3 :: bool

text \<open>The designated initializers of \<open>COURSE_ELF_IMAGE\<close>, in the macro's order.\<close>

definition elf_image_bytes :: "u8 \<Rightarrow> u8 \<Rightarrow> u8 \<Rightarrow> u8 \<Rightarrow> u8 \<Rightarrow> (nat \<times> u8) list" where
  "elf_image_bytes base_lo tag0 tag1 tag2 tag3 =
     [(0, 0x7F), (1, 0x45), (2, 0x4C), (3, 0x46), (4, 2), (5, 1), (6, 1), (16, 2), (17, 0),
      (18, 0xF3), (19, 0), (20, 1), (21, 0), (22, 0), (23, 0),
      (24, base_lo), (25, 0), (26, 0), (27, 0x40), (32, 0x40), (52, 0x40), (53, 0), (54, 0x38), (55, 0),
      (56, 2), (57, 0), (64, 1), (68, 5), (72, 0xB0),
      (80, base_lo), (81, 0), (82, 0), (83, 0x40), (96, 0x10), (104, 0x10), (112, 0), (113, 0x10),
      (120, 1), (124, 6), (128, 0xC0), (136, base_lo), (137, 0x10), (138, 0), (139, 0x40),
      (152, 0x10), (160, 0x20), (168, 0), (169, 0x10),
      (176, tag0), (177, tag1), (178, tag2), (179, tag3),
      (192, tag3), (193, tag2), (194, tag1), (195, tag0), (207, 0)]"

definition COURSE_ELF_IMAGE :: "u8 \<Rightarrow> u8 \<Rightarrow> u8 \<Rightarrow> u8 \<Rightarrow> u8 \<Rightarrow> u8 list" where
  "COURSE_ELF_IMAGE base_lo tag0 tag1 tag2 tag3 =
     fold (\<lambda>(i, b) img. img[i := b]) (elf_image_bytes base_lo tag0 tag1 tag2 tag3) (replicate 208 0)"

definition k_hello_elf :: "u8 list" where "k_hello_elf = COURSE_ELF_IMAGE 0x00 0x68 0x65 0x6C 0x6F"
definition k_echo_elf :: "u8 list" where "k_echo_elf = COURSE_ELF_IMAGE 0x10 0x65 0x63 0x68 0x6F"
definition k_cat_elf :: "u8 list" where "k_cat_elf = COURSE_ELF_IMAGE 0x20 0x63 0x61 0x74 0x30"
definition k_forktest_elf :: "u8 list" where "k_forktest_elf = COURSE_ELF_IMAGE 0x30 0x66 0x6F 0x72 0x6B"
definition k_crashdemo_elf :: "u8 list" where "k_crashdemo_elf = COURSE_ELF_IMAGE 0x40 0x63 0x72 0x73 0x68"
definition k_bad_static_elf :: "u8 list" where "k_bad_static_elf = [0]"

definition user_program_row ::
  "cstr \<Rightarrow> program_kind \<Rightarrow> u64 \<Rightarrow> u8 list \<Rightarrow> bool \<Rightarrow> user_program" where
  "user_program_row name kind entry img stage3 = \<lparr>prog_name = name, prog_kind = kind,
     prog_entry_pc = entry, prog_user_sp = 0x7FFFF000, prog_elf_image = img, prog_stage3 = stage3\<rparr>"

definition k_programs :: "user_program list" where
  "k_programs =
     [user_program_row ''hello'' PROGRAM_HELLO 0x40000000 k_hello_elf True,
      user_program_row ''echo'' PROGRAM_ECHO 0x40000010 k_echo_elf True,
      user_program_row ''cat'' PROGRAM_CAT 0x40000020 k_cat_elf True,
      user_program_row ''forktest'' PROGRAM_FORKTEST 0x40000030 k_forktest_elf True,
      user_program_row ''crashdemo'' PROGRAM_CRASH 0x40000040 k_crashdemo_elf True,
      user_program_row ''crash'' PROGRAM_CRASH 0x40000000 k_hello_elf False,
      user_program_row ''badelf'' PROGRAM_HELLO 0x40000000 k_bad_static_elf False]"

definition course_user_program_count :: nat where
  "course_user_program_count = length k_programs"

fun stage3_count_loop :: "user_program list \<Rightarrow> nat \<Rightarrow> nat" where
  "stage3_count_loop [] count = count"
| "stage3_count_loop (p # ps) count = stage3_count_loop ps (if prog_stage3 p then count + 1 else count)"

definition course_user_program_stage3_count :: nat where
  "course_user_program_stage3_count = stage3_count_loop k_programs 0"

fun lookup_loop :: "cstr \<Rightarrow> user_program list \<Rightarrow> user_program option" where
  "lookup_loop name [] = None"
| "lookup_loop name (p # ps) = (if str_eq (Some name) (Some (prog_name p)) then Some p else lookup_loop name ps)"

definition course_user_program_lookup :: "cstr option \<Rightarrow> user_program option" where
  "course_user_program_lookup name = (case name of None \<Rightarrow> None | Some n \<Rightarrow> lookup_loop n k_programs)"

lemma lookup_loop_Some_iff:
  "lookup_loop name ps = Some p \<longleftrightarrow> find (\<lambda>q. prog_name q = name) ps = Some p"
  by (induction ps) auto

lemma fold_update_nth:
  "i < length img \<Longrightarrow> fold (\<lambda>(i, b) img. img[i := b]) bs img ! i =
     (case map_of (rev bs) i of None \<Rightarrow> img ! i | Some b \<Rightarrow> b)"
  by (induction bs arbitrary: img) (auto simp: map_add_def split: option.splits)

lemma fold_update_length [simp]: "length (fold (\<lambda>(i, b) img. img[i := b]) bs img) = length img"
  by (induction bs arbitrary: img) auto

lemma COURSE_ELF_IMAGE_length [simp]: "length (COURSE_ELF_IMAGE b t0 t1 t2 t3) = 208"
  by (simp add: COURSE_ELF_IMAGE_def)

lemma COURSE_ELF_IMAGE_nth:
  "i < 208 \<Longrightarrow> COURSE_ELF_IMAGE b t0 t1 t2 t3 ! i =
     (case map_of (rev (elf_image_bytes b t0 t1 t2 t3)) i of None \<Rightarrow> 0 | Some x \<Rightarrow> x)"
  by (simp add: COURSE_ELF_IMAGE_def fold_update_nth split: option.split)

lemma le_field_nth:
  assumes "off + n \<le> length img"
  shows "le_field img off n = from_le (map (\<lambda>i. img ! (off + i)) [0..<n])"
proof -
  have "take n (drop off img) = map (\<lambda>i. img ! (off + i)) [0..<n]"
    using assms by (intro nth_equalityI) auto
  then show ?thesis by (simp add: le_field_def)
qed

lemma upt_248: "[0..<2] = [0, 1]" "[0..<4] = [0, 1, 2, 3]" "[0..<8] = [0, 1, 2, 3, 4, 5, 6, 7]"
  by code_simp+

lemma image_fields:
  fixes b t0 t1 t2 t3 defines "img \<equiv> COURSE_ELF_IMAGE b t0 t1 t2 t3"
  shows "le_field img 16 2 = (2 :: u16)" "le_field img 18 2 = (243 :: u16)" "le_field img 20 4 = (1 :: u32)"
    "le_field img 32 8 = (64 :: u64)" "le_field img 52 2 = (64 :: u16)" "le_field img 54 2 = (56 :: u16)"
    "le_field img 56 2 = (2 :: u16)" "elf_entry img = ucast b OR 0x40000000"
  unfolding img_def elf_entry_def
  by (simp_all add: le_field_nth upt_248 COURSE_ELF_IMAGE_nth elf_image_bytes_def)

lemma image_phdrs:
  "phdrs (COURSE_ELF_IMAGE b t0 t1 t2 t3) =
     [\<lparr>ph_type = 1, ph_flags = 5, ph_offset = 0xB0, ph_vaddr = ucast b OR 0x40000000,
       ph_filesz = 0x10, ph_memsz = 0x10\<rparr>,
      \<lparr>ph_type = 1, ph_flags = 6, ph_offset = 0xC0, ph_vaddr = ucast b OR 0x40001000,
       ph_filesz = 0x10, ph_memsz = 0x20\<rparr>]"
proof -
  have "phdr_at (COURSE_ELF_IMAGE b t0 t1 t2 t3) 64 = \<lparr>ph_type = 1, ph_flags = 5, ph_offset = 0xB0,
      ph_vaddr = ucast b OR 0x40000000, ph_filesz = 0x10, ph_memsz = 0x10\<rparr>"
    by (simp add: phdr_at_def le_field_nth upt_248 COURSE_ELF_IMAGE_nth elf_image_bytes_def)
  moreover have "phdr_at (COURSE_ELF_IMAGE b t0 t1 t2 t3) 120 = \<lparr>ph_type = 1, ph_flags = 6, ph_offset = 0xC0,
      ph_vaddr = ucast b OR 0x40001000, ph_filesz = 0x10, ph_memsz = 0x20\<rparr>"
    by (simp add: phdr_at_def le_field_nth upt_248 COURSE_ELF_IMAGE_nth elf_image_bytes_def)
  ultimately show ?thesis
    by (simp add: phdrs_def image_fields upt_248)
qed

lemma image_accepted:
  assumes "b \<in> {0, 0x10, 0x20, 0x30, 0x40}"
  shows "elf_accepts (COURSE_ELF_IMAGE b t0 t1 t2 t3)"
proof -
  have hdr: "elf_header_ok (COURSE_ELF_IMAGE b t0 t1 t2 t3)"
    by (simp add: elf_header_ok_def image_fields take_4_eq COURSE_ELF_IMAGE_nth elf_image_bytes_def)
  then show ?thesis
    using assms
    by (auto simp: elf_accepts_def elf_loads_def is_load_def image_phdrs seg_ok_def seg_has_entry_def
        image_fields elf_heap_def heap_page_def)
qed

lemma image_loads:
  assumes "b \<in> {0, 0x10, 0x20, 0x30, 0x40}"
  shows "\<exists>l. course_elf_loader_load (Some (COURSE_ELF_IMAGE b t0 t1 t2 t3)) argv (Some out) = Some (ELF_OK, Some l) \<and>
           load_entry_pc l = ucast b OR 0x40000000 \<and> load_user_sp l = 0x7FFFF000 \<and> load_map_count l = 4"
proof -
  let ?img = "COURSE_ELF_IMAGE b t0 t1 t2 t3"
  obtain r l where r: "elf_load_image ?img argv = Some (r, l)" "r = ELF_OK \<longleftrightarrow> elf_accepts ?img"
    "l = (if r = ELF_OK then loaded ?img argv else cleared_load)"
    using elf_load_image_eq [of ?img argv] by auto
  then show ?thesis
    using image_accepted [OF assms, of t0 t1 t2 t3]
    by (auto simp: course_elf_loader_load_def clear_load_def loaded_def initial_load_def Let_def
        image_fields elf_maps_def elf_loads_def image_phdrs is_load_def)
qed

definition program_load_summary :: "user_program \<Rightarrow> (elf_result \<times> u64 \<times> u64 \<times> nat) option" where
  "program_load_summary p =
     (case course_elf_loader_load (Some (prog_elf_image p)) (Some (prog_name p)) (Some cleared_load) of
        Some (r, Some l) \<Rightarrow> Some (r, load_entry_pc l, load_user_sp l, load_map_count l) | _ \<Rightarrow> None)"

lemma program_load_summary_image:
  "b \<in> {0, 0x10, 0x20, 0x30, 0x40} \<Longrightarrow>
     program_load_summary (user_program_row n k e (COURSE_ELF_IMAGE b t0 t1 t2 t3) s) =
       Some (ELF_OK, ucast b OR 0x40000000, 0x7FFFF000, 4)"
  using image_loads [of b t0 t1 t2 t3 "Some n" cleared_load]
  by (auto simp: program_load_summary_def user_program_row_def)

lemma bad_program_rejected:
  "program_load_summary (user_program_row n k e k_bad_static_elf s) = Some (ELF_ERR_BAD_HEADER, 0, 0, 0)"
  by (simp add: program_load_summary_def user_program_row_def k_bad_static_elf_def
      course_elf_loader_load_def clear_load_def elf_load_image_def cleared_load_def)

lemma lookup_not_found [simp]: "name \<notin> prog_name ` set k_programs \<Longrightarrow> course_user_program_lookup (Some name) = None"
  by (auto simp: course_user_program_lookup_def k_programs_def)

text \<open>The built-in programs are consistent with the loader and the lookup.  All of them except
  \<open>badelf\<close> load with the entry point and the stack pointer that the program table announces and
  with four mappings, \<open>badelf\<close> is refused as a bad header, every program is found under its own
  name and under no other, and five of the seven are stage-3 programs.\<close>

theorem user_programs_load:
  "map program_load_summary k_programs =
     map (\<lambda>p. Some (if prog_name p = ''badelf'' then (ELF_ERR_BAD_HEADER, 0, 0, 0)
                    else (ELF_OK, prog_entry_pc p, prog_user_sp p, 4))) k_programs \<and>
   map (\<lambda>p. course_user_program_lookup (Some (prog_name p))) k_programs = map Some k_programs \<and>
   (course_user_program_lookup (Some name) = None \<longleftrightarrow> name \<notin> set (map prog_name k_programs)) \<and>
   course_user_program_count = 7 \<and> course_user_program_stage3_count = 5"
proof (intro conjI)
  show "map program_load_summary k_programs =
     map (\<lambda>p. Some (if prog_name p = ''badelf'' then (ELF_ERR_BAD_HEADER, 0, 0, 0)
                    else (ELF_OK, prog_entry_pc p, prog_user_sp p, 4))) k_programs"
    by (simp add: k_programs_def bad_program_rejected program_load_summary_image k_hello_elf_def
        k_echo_elf_def k_cat_elf_def k_forktest_elf_def k_crashdemo_elf_def)
       (simp add: user_program_row_def)
  show "map (\<lambda>p. course_user_program_lookup (Some (prog_name p))) k_programs = map Some k_programs"
    by (simp add: k_programs_def course_user_program_lookup_def user_program_row_def)
  show "course_user_program_lookup (Some name) = None \<longleftrightarrow> name \<notin> set (map prog_name k_programs)"
    by (auto simp: k_programs_def course_user_program_lookup_def user_program_row_def)
  show "course_user_program_count = 7"
    by (simp add: course_user_program_count_def k_programs_def)
  show "course_user_program_stage3_count = 5"
    by (simp add: course_user_program_stage3_count_def k_programs_def user_program_row_def)
qed

theorem course_elf_loader_load_exact_witness:
  "\<exists>r l. course_elf_loader_load (Some k_hello_elf) None (Some cleared_load) = Some (r, Some l) \<and>
     r = ELF_OK \<and> load_entry_pc l = 0x40000000"
  using course_elf_loader_load_exact [of k_hello_elf None cleared_load]
    image_accepted [of 0 "0x68" "0x65" "0x6C" "0x6F"]
  by (auto simp: k_hello_elf_def image_fields)

end
