(* ===== verification/CourseProcess.thy ===== *)
theory CourseProcess
  imports UserPrograms
begin

text \<open>
  The process table of the course kernel (\<open>src/myCPU/guest/kernel/course_process.c\<close>): sixteen
  process slots, and thirty-two reference-counted pages that forked processes share copy on
  write.  A pointer to a process or to a page is the index of its slot; the table itself is a
  value that every operation takes and returns (the early returns for a NULL table have no
  counterpart).  Pids, page ids and reference counts are 32-bit words.  An out parameter is
  the value stored through it, \<open>None\<close> when nothing is stored.
\<close>

abbreviation COURSE_PROCESS_MAX_PROCESSES :: nat where "COURSE_PROCESS_MAX_PROCESSES \<equiv> 16"
abbreviation COURSE_PROCESS_MAX_NAME :: nat where "COURSE_PROCESS_MAX_NAME \<equiv> 24"
abbreviation COURSE_PROCESS_MAX_ARGV :: nat where "COURSE_PROCESS_MAX_ARGV \<equiv> 64"
abbreviation COURSE_PROCESS_MAX_USER_PAGES :: nat where "COURSE_PROCESS_MAX_USER_PAGES \<equiv> 8"
abbreviation COURSE_PROCESS_USER_PAGE_SIZE :: nat where "COURSE_PROCESS_USER_PAGE_SIZE \<equiv> 4096"
abbreviation COURSE_PROCESS_MAX_COW_PAGES :: nat where "COURSE_PROCESS_MAX_COW_PAGES \<equiv> 32"

type_synonym i32 = "32 word"

abbreviation COURSE_PROCESS_EXIT_CRASH :: i32 where "COURSE_PROCESS_EXIT_CRASH \<equiv> - 128"

datatype process_state = UNUSED | READY | RUNNING | BLOCKED | ZOMBIE | DEAD

datatype process_abi = ABI_COURSE | ABI_LINUX_COMPAT

datatype process_result =
    PROCESS_OK | ERR_NO_SLOT | ERR_NO_PROCESS | ERR_NO_CHILD | ERR_NO_SUCH_PROGRAM
  | ERR_BAD_ADDRESS | ERR_BAD_ELF

record user_page_ref =
  ref_mapped :: bool
  ref_cow_page_id :: u32
  ref_writable :: bool
  ref_cow :: bool

record cow_page =
  page_used :: bool
  page_id :: u32
  page_refcount :: u32
  page_data :: "u8 carray"

record cow_stats =
  st_mapped_pages :: u32
  st_shared_pages :: u32
  st_cow_faults :: u32
  st_copied_pages :: u32
  st_saved_pages :: u32
  st_refcount_peak :: u32
  st_released_pages :: u32
  st_leak_free :: bool

record process =
  p_used :: bool
  p_pid :: u32
  p_ppid :: u32
  p_state :: process_state
  p_abi :: process_abi
  p_exit_code :: i32
  p_crash_reason :: cstr
  p_crash_sepc :: u64
  p_crash_scause :: u64
  p_crash_stval :: u64
  p_address_space :: u64
  p_open_files :: u64
  p_name :: cstr
  p_argv :: cstr
  p_entry_pc :: u64
  p_user_sp :: u64
  p_map_count :: nat
  p_maps :: "elf_map carray"
  p_user_pages :: "user_page_ref carray"

record process_table =
  processes :: "process carray"
  cow_pages :: "cow_page carray"
  table_stats :: cow_stats
  next_pid :: u32
  next_cow_page_id :: u32

subsection \<open>Slots and pages\<close>

definition clear_user_page_ref :: user_page_ref where
  "clear_user_page_ref = \<lparr>ref_mapped = False, ref_cow_page_id = 0, ref_writable = False, ref_cow = False\<rparr>"

definition clear_process :: process where
  "clear_process = \<lparr>p_used = False, p_pid = 0, p_ppid = 0, p_state = UNUSED, p_abi = ABI_COURSE,
     p_exit_code = 0, p_crash_reason = [], p_crash_sepc = 0, p_crash_scause = 0, p_crash_stval = 0,
     p_address_space = 0, p_open_files = 0, p_name = [], p_argv = [], p_entry_pc = 0, p_user_sp = 0,
     p_map_count = 0, p_maps = (\<lambda>_. empty_map), p_user_pages = (\<lambda>_. clear_user_page_ref)\<rparr>"

definition clear_cow_page :: cow_page where
  "clear_cow_page = \<lparr>page_used = False, page_id = 0, page_refcount = 0, page_data = (\<lambda>_. 0)\<rparr>"

definition upd_process :: "process_table \<Rightarrow> nat \<Rightarrow> (process \<Rightarrow> process) \<Rightarrow> process_table" where
  "upd_process t p f = t\<lparr>processes := (processes t)(p := f (processes t p))\<rparr>"

definition upd_ref :: "process_table \<Rightarrow> nat \<Rightarrow> nat \<Rightarrow> (user_page_ref \<Rightarrow> user_page_ref) \<Rightarrow> process_table" where
  "upd_ref t p i f =
     upd_process t p (\<lambda>q. q\<lparr>p_user_pages := (p_user_pages q)(i := f (p_user_pages q i))\<rparr>)"

definition upd_cow_page :: "process_table \<Rightarrow> nat \<Rightarrow> (cow_page \<Rightarrow> cow_page) \<Rightarrow> process_table" where
  "upd_cow_page t k f = t\<lparr>cow_pages := (cow_pages t)(k := f (cow_pages t k))\<rparr>"

definition upd_stats :: "process_table \<Rightarrow> (cow_stats \<Rightarrow> cow_stats) \<Rightarrow> process_table" where
  "upd_stats t f = t\<lparr>table_stats := f (table_stats t)\<rparr>"

definition note_peak :: "u32 \<Rightarrow> cow_stats \<Rightarrow> cow_stats" where
  "note_peak n s = (if st_refcount_peak s < n then s\<lparr>st_refcount_peak := n\<rparr> else s)"

definition alloc_process :: "process_table \<Rightarrow> nat option" where
  "alloc_process t =
     first_index (\<lambda>i. \<not> p_used (processes t i) \<or> p_state (processes t i) = DEAD) COURSE_PROCESS_MAX_PROCESSES"

definition find_cow_page_by_id :: "process_table \<Rightarrow> u32 \<Rightarrow> nat option" where
  "find_cow_page_by_id t pgid = (if pgid = 0 then None
     else first_index (\<lambda>i. page_used (cow_pages t i) \<and> page_id (cow_pages t i) = pgid)
                      COURSE_PROCESS_MAX_COW_PAGES)"

definition find_const_cow_page_by_id :: "process_table \<Rightarrow> u32 \<Rightarrow> nat option" where
  "find_const_cow_page_by_id t pgid = (if pgid = 0 then None
     else first_index (\<lambda>i. page_used (cow_pages t i) \<and> page_id (cow_pages t i) = pgid)
                      COURSE_PROCESS_MAX_COW_PAGES)"

definition alloc_cow_page :: "process_table \<Rightarrow> nat option \<times> process_table" where
  "alloc_cow_page t =
     (if next_cow_page_id t = 0 then (None, t)
      else case first_index (\<lambda>i. \<not> page_used (cow_pages t i)) COURSE_PROCESS_MAX_COW_PAGES of
        None \<Rightarrow> (None, t)
      | Some k \<Rightarrow>
          (let t1 = upd_cow_page t k (\<lambda>_. clear_cow_page
                 \<lparr>page_used := True, page_id := next_cow_page_id t, page_refcount := 1\<rparr>)
           in (Some k, upd_stats (t1\<lparr>next_cow_page_id := next_cow_page_id t + 1\<rparr>) (note_peak 1))))"

definition release_cow_page_ref :: "process_table \<Rightarrow> u32 \<Rightarrow> process_table" where
  "release_cow_page_ref t pgid =
     (case find_cow_page_by_id t pgid of
        None \<Rightarrow> t
      | Some k \<Rightarrow>
          if page_refcount (cow_pages t k) = 0 then t
          else let t1 = upd_cow_page t k (\<lambda>pg. pg\<lparr>page_refcount := page_refcount pg - 1\<rparr>)
            in if page_refcount (cow_pages t1 k) = 0
               then upd_cow_page (upd_stats t1 (\<lambda>s. s\<lparr>st_released_pages := st_released_pages s + 1\<rparr>))
                      k (\<lambda>_. clear_cow_page)
               else t1)"

definition release_user_page :: "nat \<Rightarrow> nat \<Rightarrow> process_table \<Rightarrow> process_table" where
  "release_user_page p i t =
     (if ref_mapped (p_user_pages (processes t p) i)
      then upd_ref (release_cow_page_ref t (ref_cow_page_id (p_user_pages (processes t p) i))) p i
             (\<lambda>_. clear_user_page_ref)
      else t)"

definition release_process_user_pages :: "process_table \<Rightarrow> nat \<Rightarrow> process_table" where
  "release_process_user_pages t p = fold (release_user_page p) [0..<COURSE_PROCESS_MAX_USER_PAGES] t"

definition duplicate_cow_page :: "process_table \<Rightarrow> nat \<Rightarrow> nat \<Rightarrow> bool \<times> process_table" where
  "duplicate_cow_page t p i =
     (if i \<ge> COURSE_PROCESS_MAX_USER_PAGES then (False, t)
      else let r = p_user_pages (processes t p) i in
        case find_cow_page_by_id t (ref_cow_page_id r) of
          None \<Rightarrow> (False, t)
        | Some old \<Rightarrow>
            if page_refcount (cow_pages t old) = 0 then (False, t)
            else if \<not> ref_cow r \<and> ref_writable r then (True, t)
            else if page_refcount (cow_pages t old) = 1
            then (True, upd_ref t p i (\<lambda>r. r\<lparr>ref_cow := False, ref_writable := True\<rparr>))
            else case alloc_cow_page t of
                (None, t1) \<Rightarrow> (False, t1)
              | (Some new, t1) \<Rightarrow>
                  (let t2 = upd_cow_page t1 new (\<lambda>pg. pg\<lparr>page_data := (\<lambda>j.
                               if j < COURSE_PROCESS_USER_PAGE_SIZE then page_data (cow_pages t1 old) j
                               else page_data pg j)\<rparr>);
                       t3 = upd_cow_page t2 old (\<lambda>pg. pg\<lparr>page_refcount := page_refcount pg - 1\<rparr>);
                       t4 = upd_ref t3 p i (\<lambda>r. r\<lparr>ref_cow_page_id := page_id (cow_pages t3 new),
                               ref_cow := False, ref_writable := True\<rparr>)
                   in (True, upd_stats t4 (\<lambda>s. s\<lparr>st_cow_faults := st_cow_faults s + 1,
                               st_copied_pages := st_copied_pages s + 1\<rparr>))))"

subsection \<open>Creating processes\<close>

definition course_process_table_init :: process_table where
  "course_process_table_init = \<lparr>processes = (\<lambda>_. clear_process), cow_pages = (\<lambda>_. clear_cow_page),
     table_stats = \<lparr>st_mapped_pages = 0, st_shared_pages = 0, st_cow_faults = 0, st_copied_pages = 0,
        st_saved_pages = 0, st_refcount_peak = 0, st_released_pages = 0, st_leak_free = True\<rparr>,
     next_pid = 1, next_cow_page_id = 1\<rparr>"

definition course_process_find :: "process_table \<Rightarrow> u32 \<Rightarrow> nat option" where
  "course_process_find t pid = (if pid = 0 then None
     else first_index (\<lambda>i. p_used (processes t i) \<and> p_pid (processes t i) = pid) COURSE_PROCESS_MAX_PROCESSES)"

definition course_process_spawn :: "process_table \<Rightarrow> u32 \<Rightarrow> cstr option \<Rightarrow> nat option \<times> process_table" where
  "course_process_spawn t ppid name =
     (case alloc_process t of
        None \<Rightarrow> (None, t)
      | Some p \<Rightarrow>
          if next_pid t = 0 then (None, t)
          else (Some p, (upd_process t p (\<lambda>_. clear_process\<lparr>p_used := True, p_pid := next_pid t,
                   p_ppid := ppid, p_state := READY, p_name := copy_str COURSE_PROCESS_MAX_NAME name\<rparr>))
                 \<lparr>next_pid := next_pid t + 1\<rparr>))"

text \<open>One round of the page loop of \<open>fork\<close>: \<open>None\<close> is the early return that clears the child.\<close>

definition fork_page :: "nat \<Rightarrow> nat \<Rightarrow> nat \<Rightarrow> process_table \<Rightarrow> process_table option" where
  "fork_page parent child i t =
     (let pr = p_user_pages (processes t parent) i in
      if \<not> ref_mapped pr then Some t
      else case find_cow_page_by_id t (ref_cow_page_id pr) of
        None \<Rightarrow> None
      | Some k \<Rightarrow>
          (let t1 = upd_cow_page t k (\<lambda>pg. pg\<lparr>page_refcount := page_refcount pg + 1\<rparr>);
               t2 = upd_stats t1 (note_peak (page_refcount (cow_pages t1 k)));
               t3 = upd_ref t2 parent i (\<lambda>r. r\<lparr>ref_writable := False, ref_cow := True\<rparr>);
               t4 = upd_ref t3 child i (\<lambda>_. (p_user_pages (processes t3 parent) i)
                       \<lparr>ref_writable := False, ref_cow := True\<rparr>)
           in Some (upd_stats t4 (\<lambda>s. s\<lparr>st_mapped_pages := st_mapped_pages s + 1,
                       st_saved_pages := st_saved_pages s + 1\<rparr>))))"

fun fork_pages :: "nat \<Rightarrow> nat \<Rightarrow> nat list \<Rightarrow> process_table \<Rightarrow> bool \<times> process_table" where
  "fork_pages parent child [] t = (True, t)"
| "fork_pages parent child (i # is) t =
     (case fork_page parent child i t of
        None \<Rightarrow> (False, upd_process t child (\<lambda>_. clear_process))
      | Some t' \<Rightarrow> fork_pages parent child is t')"

definition course_process_fork :: "process_table \<Rightarrow> u32 \<Rightarrow> cstr option \<Rightarrow> nat option \<times> process_table" where
  "course_process_fork t parent_pid child_name =
     (case course_process_find t parent_pid of
        None \<Rightarrow> (None, t)
      | Some parent \<Rightarrow>
          if p_state (processes t parent) = DEAD \<or> p_state (processes t parent) = ZOMBIE then (None, t)
          else case course_process_spawn t parent_pid
                 (case child_name of Some n \<Rightarrow> Some n | None \<Rightarrow> Some (p_name (processes t parent))) of
              (None, t1) \<Rightarrow> (None, t1)
            | (Some child, t1) \<Rightarrow>
                (let q = processes t1 parent;
                     t2 = upd_process t1 child (\<lambda>c. c\<lparr>p_entry_pc := p_entry_pc q, p_user_sp := p_user_sp q,
                        p_abi := p_abi q, p_address_space := p_address_space q,
                        p_open_files := p_open_files q, p_map_count := p_map_count q,
                        p_maps := (\<lambda>i. if i < p_map_count q \<and> i < COURSE_ELF_MAX_MAPS
                                       then p_maps q i else p_maps c i)\<rparr>)
                 in case fork_pages parent child [0..<COURSE_PROCESS_MAX_USER_PAGES] t2 of
                      (False, t3) \<Rightarrow> (None, t3)
                    | (True, t3) \<Rightarrow>
                        (Some child, upd_process t3 child (\<lambda>c. c\<lparr>p_argv :=
                           copy_str COURSE_PROCESS_MAX_ARGV (Some (p_argv (processes t3 parent)))\<rparr>))))"

subsection \<open>State changes\<close>

definition course_process_set_state :: "process_table \<Rightarrow> u32 \<Rightarrow> process_state \<Rightarrow> bool \<times> process_table" where
  "course_process_set_state t pid st =
     (case course_process_find t pid of
        None \<Rightarrow> (False, t)
      | Some p \<Rightarrow> if st = UNUSED then (False, t) else (True, upd_process t p (\<lambda>q. q\<lparr>p_state := st\<rparr>)))"

definition course_process_set_abi :: "process_table \<Rightarrow> u32 \<Rightarrow> process_abi \<Rightarrow> bool \<times> process_table" where
  "course_process_set_abi t pid abi =
     (case course_process_find t pid of
        None \<Rightarrow> (False, t)
      | Some p \<Rightarrow> if abi \<noteq> ABI_COURSE \<and> abi \<noteq> ABI_LINUX_COMPAT then (False, t)
                  else (True, upd_process t p (\<lambda>q. q\<lparr>p_abi := abi\<rparr>)))"

definition course_process_get_abi :: "process_table \<Rightarrow> u32 \<Rightarrow> process_abi option" where
  "course_process_get_abi t pid =
     map_option (\<lambda>i. p_abi (processes t i))
       (first_index (\<lambda>i. p_used (processes t i) \<and> p_pid (processes t i) = pid \<and>
                         p_state (processes t i) \<noteq> DEAD) COURSE_PROCESS_MAX_PROCESSES)"

definition course_process_exit :: "process_table \<Rightarrow> u32 \<Rightarrow> i32 \<Rightarrow> bool \<times> process_table" where
  "course_process_exit t pid code =
     (case course_process_find t pid of
        None \<Rightarrow> (False, t)
      | Some p \<Rightarrow> if p_state (processes t p) = DEAD then (False, t)
                  else (True, upd_process t p (\<lambda>q. q\<lparr>p_exit_code := code, p_state := ZOMBIE\<rparr>)))"

definition course_process_kill :: "process_table \<Rightarrow> u32 \<Rightarrow> u32 \<Rightarrow> bool \<times> process_table" where
  "course_process_kill t caller_pid target_pid =
     (case (course_process_find t caller_pid, course_process_find t target_pid) of
        (Some c, Some g) \<Rightarrow>
          if p_state (processes t c) = UNUSED \<or> p_state (processes t c) = DEAD \<or>
             p_state (processes t g) = UNUSED \<or> p_state (processes t g) = DEAD then (False, t)
          else if target_pid = 1 \<or> target_pid = caller_pid then (False, t)
          else (True, upd_process t g (\<lambda>q. q\<lparr>p_exit_code := 9, p_state := ZOMBIE\<rparr>))
      | _ \<Rightarrow> (False, t))"

definition course_process_waitpid ::
  "process_table \<Rightarrow> u32 \<Rightarrow> u32 \<Rightarrow> process_result \<times> i32 option \<times> process_table" where
  "course_process_waitpid t parent_pid child_pid =
     (case course_process_find t child_pid of
        None \<Rightarrow> (ERR_NO_CHILD, None, t)
      | Some c \<Rightarrow>
          if p_ppid (processes t c) \<noteq> parent_pid \<or> p_state (processes t c) = DEAD
          then (ERR_NO_CHILD, None, t)
          else if p_state (processes t c) \<noteq> ZOMBIE then (ERR_NO_CHILD, None, t)
          else (PROCESS_OK, Some (p_exit_code (processes t c)),
                upd_process (release_process_user_pages t c) c (\<lambda>q. q\<lparr>p_state := DEAD\<rparr>)))"

definition course_process_wait :: "process_table \<Rightarrow> u32 \<Rightarrow> process_result \<times> i32 option \<times> process_table" where
  "course_process_wait t parent_pid =
     (case first_index (\<lambda>i. p_used (processes t i) \<and> p_ppid (processes t i) = parent_pid \<and>
                           p_state (processes t i) = ZOMBIE) COURSE_PROCESS_MAX_PROCESSES of
        None \<Rightarrow> (ERR_NO_CHILD, None, t)
      | Some i \<Rightarrow> course_process_waitpid t parent_pid (p_pid (processes t i)))"

definition course_process_exec_image ::
  "process_table \<Rightarrow> u32 \<Rightarrow> cstr option \<Rightarrow> u8 list option \<Rightarrow> cstr option \<Rightarrow> process_result \<times> process_table" where
  "course_process_exec_image t pid image_name elf_image argv =
     (case course_process_find t pid of
        None \<Rightarrow> (ERR_NO_PROCESS, t)
      | Some p \<Rightarrow>
          (case (image_name, elf_image) of
             (Some name, Some img) \<Rightarrow>
               if length img = 0 then (ERR_BAD_ELF, t)
               else (case course_elf_loader_load (Some img) argv (Some cleared_load) of
                   Some (ELF_OK, Some load) \<Rightarrow>
                     (PROCESS_OK, upd_process (release_process_user_pages t p) p (\<lambda>q. q
                        \<lparr>p_name := copy_str COURSE_PROCESS_MAX_NAME (Some name),
                         p_argv := copy_str COURSE_PROCESS_MAX_ARGV (Some (load_argv load)),
                         p_abi := ABI_COURSE, p_entry_pc := load_entry_pc load,
                         p_user_sp := load_user_sp load, p_map_count := load_map_count load,
                         p_maps := (\<lambda>i. if i < load_map_count load \<and> i < COURSE_ELF_MAX_MAPS
                                        then load_maps load i
                                        else if i < COURSE_ELF_MAX_MAPS then empty_map else p_maps q i),
                         p_state := READY\<rparr>))
                 | _ \<Rightarrow> (ERR_BAD_ELF, t))
           | _ \<Rightarrow> (ERR_BAD_ELF, t)))"

definition course_process_exec ::
  "process_table \<Rightarrow> u32 \<Rightarrow> cstr option \<Rightarrow> cstr option \<Rightarrow> process_result \<times> process_table" where
  "course_process_exec t pid program_name argv =
     (if course_process_find t pid = None then (ERR_NO_PROCESS, t)
      else case course_user_program_lookup program_name of
        None \<Rightarrow> (ERR_NO_SUCH_PROGRAM, t)
      | Some prog \<Rightarrow>
          course_process_exec_image t pid (Some (prog_name prog)) (Some (prog_elf_image prog)) argv)"

definition course_process_record_crash ::
  "process_table \<Rightarrow> u32 \<Rightarrow> u64 \<Rightarrow> u64 \<Rightarrow> u64 \<Rightarrow> cstr option \<Rightarrow> bool \<times> process_table" where
  "course_process_record_crash t pid sepc scause stval reason =
     (case course_process_find t pid of
        None \<Rightarrow> (False, t)
      | Some p \<Rightarrow>
          if p_state (processes t p) = DEAD then (False, t)
          else course_process_exit (upd_process t p (\<lambda>q. q\<lparr>p_crash_sepc := sepc, p_crash_scause := scause,
                 p_crash_stval := stval, p_crash_reason := copy_str COURSE_PROCESS_MAX_NAME reason\<rparr>))
                 pid COURSE_PROCESS_EXIT_CRASH)"

subsection \<open>User pages\<close>

definition course_process_map_user_page ::
  "process_table \<Rightarrow> u32 \<Rightarrow> nat \<Rightarrow> u8 \<Rightarrow> bool \<times> process_table" where
  "course_process_map_user_page t pid i fill =
     (case course_process_find t pid of
        None \<Rightarrow> (False, t)
      | Some p \<Rightarrow>
          if i \<ge> COURSE_PROCESS_MAX_USER_PAGES \<or> ref_mapped (p_user_pages (processes t p) i) then (False, t)
          else (case alloc_cow_page t of
              (None, t1) \<Rightarrow> (False, t1)
            | (Some k, t1) \<Rightarrow>
                (let t2 = upd_cow_page t1 k (\<lambda>pg. pg\<lparr>page_data :=
                       (\<lambda>j. if j < COURSE_PROCESS_USER_PAGE_SIZE then fill else page_data pg j)\<rparr>);
                     t3 = upd_ref t2 p i (\<lambda>_. \<lparr>ref_mapped = True, ref_cow_page_id = page_id (cow_pages t2 k),
                       ref_writable = True, ref_cow = False\<rparr>)
                 in (True, upd_stats t3 (\<lambda>s. s\<lparr>st_mapped_pages := st_mapped_pages s + 1\<rparr>)))))"

definition course_process_read_user_byte :: "process_table \<Rightarrow> u32 \<Rightarrow> nat \<Rightarrow> nat \<Rightarrow> u8 option" where
  "course_process_read_user_byte t pid i off =
     (case course_process_find t pid of
        None \<Rightarrow> None
      | Some p \<Rightarrow>
          if i \<ge> COURSE_PROCESS_MAX_USER_PAGES \<or> off \<ge> COURSE_PROCESS_USER_PAGE_SIZE \<or>
             \<not> ref_mapped (p_user_pages (processes t p) i) then None
          else map_option (\<lambda>k. page_data (cow_pages t k) off)
                 (find_const_cow_page_by_id t (ref_cow_page_id (p_user_pages (processes t p) i))))"

definition course_process_write_user_byte ::
  "process_table \<Rightarrow> u32 \<Rightarrow> nat \<Rightarrow> nat \<Rightarrow> u8 \<Rightarrow> bool \<times> process_table" where
  "course_process_write_user_byte t pid i off v =
     (case course_process_find t pid of
        None \<Rightarrow> (False, t)
      | Some p \<Rightarrow>
          if i \<ge> COURSE_PROCESS_MAX_USER_PAGES \<or> off \<ge> COURSE_PROCESS_USER_PAGE_SIZE \<or>
             \<not> ref_mapped (p_user_pages (processes t p) i) then (False, t)
          else case duplicate_cow_page t p i of
              (False, t1) \<Rightarrow> (False, t1)
            | (True, t1) \<Rightarrow>
                (case find_cow_page_by_id t1 (ref_cow_page_id (p_user_pages (processes t1 p) i)) of
                   None \<Rightarrow> (False, t1)
                 | Some k \<Rightarrow> (True, upd_cow_page t1 k (\<lambda>pg. pg\<lparr>page_data := (page_data pg)(off := v)\<rparr>))))"

definition course_process_handle_cow_store_fault ::
  "process_table \<Rightarrow> u32 \<Rightarrow> nat \<Rightarrow> nat \<Rightarrow> bool \<times> process_table" where
  "course_process_handle_cow_store_fault t pid i off =
     (case course_process_find t pid of
        None \<Rightarrow> (False, t)
      | Some p \<Rightarrow>
          if i \<ge> COURSE_PROCESS_MAX_USER_PAGES \<or> off \<ge> COURSE_PROCESS_USER_PAGE_SIZE \<or>
             \<not> ref_mapped (p_user_pages (processes t p) i) then (False, t)
          else duplicate_cow_page t p i)"

definition course_process_page_refcount :: "process_table \<Rightarrow> u32 \<Rightarrow> nat \<Rightarrow> u32 option" where
  "course_process_page_refcount t pid i =
     (if i \<ge> COURSE_PROCESS_MAX_USER_PAGES then None
      else case first_index (\<lambda>p. p_used (processes t p) \<and> p_pid (processes t p) = pid)
                  COURSE_PROCESS_MAX_PROCESSES of
        None \<Rightarrow> None
      | Some p \<Rightarrow>
          if \<not> ref_mapped (p_user_pages (processes t p) i) then None
          else map_option (\<lambda>k. page_refcount (cow_pages t k))
                 (find_const_cow_page_by_id t (ref_cow_page_id (p_user_pages (processes t p) i))))"

definition course_process_cow_stats :: "process_table \<Rightarrow> cow_stats" where
  "course_process_cow_stats t =
     (let (shared, leak_free) = fold (\<lambda>i (shared, lf).
            (if page_used (cow_pages t i) \<and> page_refcount (cow_pages t i) > 1 then shared + 1 else shared,
             if page_used (cow_pages t i) \<and> page_refcount (cow_pages t i) = 0 then False else lf))
          [0..<COURSE_PROCESS_MAX_COW_PAGES] (0, True)
      in (table_stats t)\<lparr>st_shared_pages := shared, st_leak_free := leak_free\<rparr>)"

definition course_process_at :: "process_table \<Rightarrow> nat \<Rightarrow> nat option" where
  "course_process_at t i =
     (if i \<ge> COURSE_PROCESS_MAX_PROCESSES \<or> \<not> p_used (processes t i) then None else Some i)"

fun course_process_state_name :: "process_state \<Rightarrow> cstr" where
  "course_process_state_name READY = ''ready''"
| "course_process_state_name RUNNING = ''running''"
| "course_process_state_name BLOCKED = ''blocked''"
| "course_process_state_name ZOMBIE = ''zombie''"
| "course_process_state_name DEAD = ''dead''"
| "course_process_state_name UNUSED = ''unused''"

end
