(* ===== verification/CowPages.thy ===== *)
theory CowPages
  imports CourseProcess
begin

text \<open>
  The copy-on-write pages of the process table (\<open>src/myCPU/guest/kernel/course_process.c\<close>) seen as
  two maps: the references that processes hold, and the page slots.  This theory states the
  reference-count invariant over them and proves that the three ways in which the table changes
  them (a fresh page, a shared reference, a dropped reference) keep it, and what each does to
  the page that a reference leads to.
\<close>

section \<open>The reference-count invariant\<close>

text \<open>
  The invariant is stated over the map of the references that processes hold (\<open>rmap\<close>) and the page
  slots: a used page has exactly as many references as its counter says and at least one, ids are
  unique and below the next id, every reference leads to a used page, and a reference that may be
  written directly is the only one to its page.
\<close>

definition holders :: "(nat \<times> nat \<Rightarrow> user_page_ref option) \<Rightarrow> u32 \<Rightarrow> (nat \<times> nat) set" where
  "holders R g = {x. \<exists>r. R x = Some r \<and> ref_cow_page_id r = g}"

definition page_counts :: "(nat \<times> nat \<Rightarrow> user_page_ref option) \<Rightarrow> u32 \<Rightarrow> cow_page \<Rightarrow> bool" where
  "page_counts R nx pg \<longleftrightarrow> page_used pg \<longrightarrow> page_id pg \<noteq> 0 \<and> (nx = 0 \<or> page_id pg < nx) \<and>
     holders R (page_id pg) \<noteq> {} \<and> unat (page_refcount pg) = card (holders R (page_id pg))"

definition exclusive :: "user_page_ref \<Rightarrow> bool" where
  "exclusive r \<longleftrightarrow> \<not> ref_cow r \<and> ref_writable r"

definition slot_range :: "(nat \<times> nat) set" where
  "slot_range = {..<COURSE_PROCESS_MAX_PROCESSES} \<times> {..<COURSE_PROCESS_MAX_USER_PAGES}"

definition cow_wf :: "(nat \<times> nat \<Rightarrow> user_page_ref option) \<Rightarrow> cow_page carray \<Rightarrow> u32 \<Rightarrow> bool" where
  "cow_wf R P nx \<longleftrightarrow> dom R \<subseteq> slot_range \<and>
     (\<forall>k<COURSE_PROCESS_MAX_COW_PAGES. page_counts R nx (P k)) \<and>
     (\<forall>k<COURSE_PROCESS_MAX_COW_PAGES. \<forall>l<COURSE_PROCESS_MAX_COW_PAGES.
        page_used (P k) \<and> page_used (P l) \<and> page_id (P k) = page_id (P l) \<longrightarrow> k = l) \<and>
     (\<forall>x r. R x = Some r \<longrightarrow> (\<exists>k<COURSE_PROCESS_MAX_COW_PAGES. page_used (P k) \<and> page_id (P k) = ref_cow_page_id r)) \<and>
     (\<forall>x r. R x = Some r \<and> exclusive r \<longrightarrow> holders R (ref_cow_page_id r) = {x})"

lemma cow_wfD:
  assumes "cow_wf R P nx"
  shows "dom R \<subseteq> slot_range" "k < COURSE_PROCESS_MAX_COW_PAGES \<Longrightarrow> page_counts R nx (P k)"
    "k < COURSE_PROCESS_MAX_COW_PAGES \<Longrightarrow> l < COURSE_PROCESS_MAX_COW_PAGES \<Longrightarrow> page_used (P k) \<Longrightarrow>
       page_used (P l) \<Longrightarrow> page_id (P k) = page_id (P l) \<Longrightarrow> k = l"
    "R x = Some r \<Longrightarrow> \<exists>k<COURSE_PROCESS_MAX_COW_PAGES. page_used (P k) \<and> page_id (P k) = ref_cow_page_id r"
    "R x = Some r \<Longrightarrow> exclusive r \<Longrightarrow> holders R (ref_cow_page_id r) = {x}"
  using assms unfolding cow_wf_def by blast+

lemma holders_upd:
  "holders (R(x := v)) g = (case v of None \<Rightarrow> holders R g - {x}
     | Some r \<Rightarrow> if ref_cow_page_id r = g then insert x (holders R g) else holders R g - {x})"
  by (auto simp: holders_def split: option.splits)

lemma in_holders: "R x = Some r \<Longrightarrow> x \<in> holders R (ref_cow_page_id r)"
  by (auto simp: holders_def)

lemma notin_holders: "R x = None \<Longrightarrow> x \<notin> holders R g"
  by (auto simp: holders_def)

lemma holders_other: "R x = Some r \<Longrightarrow> ref_cow_page_id r \<noteq> g \<Longrightarrow> x \<notin> holders R g"
  by (auto simp: holders_def)

lemma holders_range: "dom R \<subseteq> slot_range \<Longrightarrow> finite (holders R g) \<and> card (holders R g) \<le> 128"
proof -
  assume "dom R \<subseteq> slot_range"
  then have s: "holders R g \<subseteq> slot_range" by (auto simp: holders_def)
  have f: "finite slot_range" "card slot_range = 128" by (simp_all add: slot_range_def)
  show ?thesis
  proof
    show "finite (holders R g)" by (rule finite_subset [OF s f(1)])
    show "card (holders R g) \<le> 128" using card_mono [OF f(1) s] unfolding f(2) .
  qed
qed

text \<open>Only the used flag, the id and the counter of a page matter.\<close>

lemma cow_wf_cong:
  assumes "cow_wf R P nx" "\<And>k. k < COURSE_PROCESS_MAX_COW_PAGES \<Longrightarrow> page_used (Q k) = page_used (P k) \<and>
      page_id (Q k) = page_id (P k) \<and> page_refcount (Q k) = page_refcount (P k)"
  shows "cow_wf R Q nx"
proof -
  have "page_counts R nx (Q k) = page_counts R nx (P k)" if "k < COURSE_PROCESS_MAX_COW_PAGES" for k
    using assms(2) [OF that] by (simp add: page_counts_def)
  then show ?thesis
    using assms(1) unfolding cow_wf_def by (simp add: assms(2) cong: conj_cong imp_cong)
qed

lemma word_less_Suc_or_wrap2: "n + 1 = 0 \<or> n < n + 1" for n :: u32
proof (cases "1 + n = 0")
  case False
  then have "unat (1 + n) = Suc (unat n)" by (rule unatSuc)
  then show ?thesis by (simp add: word_less_nat_alt add.commute)
qed (simp add: add.commute)

lemma word_less_Suc_or_wrap: "a < n \<Longrightarrow> n + 1 = 0 \<or> a < n + 1" for a n :: u32
  using word_less_Suc_or_wrap2 [of n] order.strict_trans by blast

lemma cow_wf_fresh:
  assumes wf: "cow_wf R P nx" and x: "R x = None" "x \<in> slot_range"
    and k: "k < COURSE_PROCESS_MAX_COW_PAGES" "\<not> page_used (P k)" and nx: "nx \<noteq> 0"
    and pg: "page_used pg" "page_id pg = nx" "page_refcount pg = 1"
    and r: "ref_cow_page_id r = nx"
  shows "cow_wf (R(x := Some r)) (P(k := pg)) (nx + 1)"
proof -
  have below: "page_id (P l) < nx" if "l < 32" "page_used (P l)" for l
    using cow_wfD(2) [OF wf that(1)] that nx by (auto simp: page_counts_def)
  have up: "a < nx \<Longrightarrow> nx + 1 = 0 \<or> a < nx + 1" for a
    by (rule word_less_Suc_or_wrap)
  let ?R = "R(x := Some r)" and ?P = "P(k := pg)"
  have nh: "holders R nx = {}"
  proof (rule ccontr)
    assume "holders R nx \<noteq> {}"
    then obtain y s where "R y = Some s" "ref_cow_page_id s = nx" by (auto simp: holders_def)
    then obtain l where "l < 32" "page_used (P l)" "page_id (P l) = nx" using cow_wfD(4) [OF wf] by metis
    then show False using below by fastforce
  qed
  have hold: "holders ?R g = (if g = nx then {x} else holders R g)" for g
    using nh notin_holders [of R x g, OF x(1)] by (auto simp: holders_upd r)
  have ne: "page_id (P l) \<noteq> nx" if "l < 32" "page_used (P l)" for l
    using below [OF that] by auto
  show ?thesis
    unfolding cow_wf_def
  proof (intro conjI allI impI)
    show "dom ?R \<subseteq> slot_range" using cow_wfD(1) [OF wf] x by auto
    show "page_counts ?R (nx + 1) (?P l)" if "l < 32" for l
      using cow_wfD(2) [OF wf that] that pg nx up below [OF that] ne [OF that]
      by (auto simp: page_counts_def hold word_less_Suc_or_wrap2)
    show "i = j" if "i < 32" "j < 32" "page_used (?P i) \<and> page_used (?P j) \<and> page_id (?P i) = page_id (?P j)" for i j
      using that ne [of i] ne [of j] cow_wfD(3) [OF wf that(1,2)] pg by (auto split: if_splits)
    show "\<exists>l<32. page_used (?P l) \<and> page_id (?P l) = ref_cow_page_id s" if "?R y = Some s" for y s
    proof (cases "y = x")
      case True
      then show ?thesis using that k pg r by auto
    next
      case False
      then have "R y = Some s" using that by simp
      then obtain l where "l < 32" "page_used (P l)" "page_id (P l) = ref_cow_page_id s"
        using cow_wfD(4) [OF wf] by blast
      then show ?thesis using k(2) by (intro exI [of _ l]) auto
    qed
    show "holders ?R (ref_cow_page_id s) = {y}" if "?R y = Some s \<and> exclusive s" for y s
    proof (cases "y = x")
      case True
      then have "ref_cow_page_id s = nx" using that r by simp
      then show ?thesis using True hold [of nx] by simp
    next
      case False
      then have s: "R y = Some s" "exclusive s" using that by auto
      then have "holders R (ref_cow_page_id s) = {y}" using cow_wfD(5) [OF wf] by blast
      then show ?thesis using nh by (auto simp: hold)
    qed
  qed
qed

text \<open>Another reference to the page of an existing one, both now marked copy on write.\<close>

lemma word32_Suc: "unat c \<le> 128 \<Longrightarrow> unat (c + 1) = Suc (unat c)" for c :: u32
  by (simp add: unat_word_ariths)

lemma cow_wf_share:
  assumes wf: "cow_wf R P nx" and x: "R x = Some r" and y: "R y = None" "y \<in> slot_range"
    and k: "k < COURSE_PROCESS_MAX_COW_PAGES" "page_used (P k)" "page_id (P k) = ref_cow_page_id r"
    and r': "ref_cow_page_id r1 = ref_cow_page_id r" "ref_cow r1"
    and pg: "page_used pg" "page_id pg = page_id (P k)" "page_refcount pg = page_refcount (P k) + 1"
  shows "cow_wf (R(x := Some r1, y := Some r1)) (P(k := pg)) nx"
proof -
  let ?R = "R(x := Some r1, y := Some r1)" and ?P = "P(k := pg)" and ?g = "ref_cow_page_id r"
  have xy: "x \<noteq> y" using x y by auto
  have hold: "holders ?R g = (if g = ?g then insert y (holders R g) else holders R g)" for g
    using in_holders [of R x r, OF x] holders_other [of R x r g, OF x] notin_holders [of R y g, OF y(1)]
    by (auto simp: holders_upd r')
  have fin: "finite (holders R g)" "card (holders R g) \<le> 128" for g
    using holders_range [OF cow_wfD(1) [OF wf]] by auto
  have rc: "unat (page_refcount pg) = Suc (card (holders R ?g))"
  proof -
    have "unat (page_refcount (P k)) = card (holders R ?g)"
      using cow_wfD(2) [OF wf k(1)] k by (simp add: page_counts_def)
    then show ?thesis using fin(2) [of ?g] word32_Suc [of "page_refcount (P k)"] pg by simp
  qed
  show ?thesis
    unfolding cow_wf_def
  proof (intro conjI allI impI)
    show "dom ?R \<subseteq> slot_range" using cow_wfD(1) [OF wf] x y by auto
    show "page_counts ?R nx (?P l)" if "l < 32" for l
    proof (cases "l = k")
      case True
      then show ?thesis
        using cow_wfD(2) [OF wf that] k pg rc fin notin_holders [of R y ?g, OF y(1)]
        by (auto simp: page_counts_def hold)
    next
      case False
      then have "page_used (P l) \<Longrightarrow> page_id (P l) \<noteq> ?g"
        using cow_wfD(3) [OF wf that k(1)] k by auto
      then show ?thesis using False cow_wfD(2) [OF wf that] by (auto simp: page_counts_def hold)
    qed
    show "i = j" if "i < 32" "j < 32" "page_used (?P i) \<and> page_used (?P j) \<and> page_id (?P i) = page_id (?P j)" for i j
    proof -
      have "page_used (?P l) \<Longrightarrow> page_used (P l) \<and> page_id (P l) = page_id (?P l)" for l
        using pg k by (cases "l = k") auto
      then show ?thesis using that cow_wfD(3) [OF wf that(1,2)] by metis
    qed
    show "\<exists>l<32. page_used (?P l) \<and> page_id (?P l) = ref_cow_page_id s" if "?R z = Some s" for z s
    proof -
      have "\<exists>s'. R (if z = y then x else z) = Some s' \<and> ref_cow_page_id s' = ref_cow_page_id s"
        using that x xy r' by (auto split: if_splits)
      then obtain l where "l < 32" "page_used (P l)" "page_id (P l) = ref_cow_page_id s"
        using cow_wfD(4) [OF wf] by metis
      then show ?thesis using pg by (intro exI [of _ l]) auto
    qed
    show "holders ?R (ref_cow_page_id s) = {z}" if "?R z = Some s \<and> exclusive s" for z s
    proof -
      have s: "z \<noteq> x" "z \<noteq> y" "R z = Some s" "exclusive s"
        using that r' xy by (auto simp: exclusive_def split: if_splits)
      then have h: "holders R (ref_cow_page_id s) = {z}" using cow_wfD(5) [OF wf] by blast
      then have "ref_cow_page_id s \<noteq> ?g" using in_holders [of R x r, OF x] s by auto
      then show ?thesis using h by (simp add: hold)
    qed
  qed
qed

text \<open>Dropping a reference: the page is cleared with its last one.\<close>

lemma cow_wf_drop:
  assumes wf: "cow_wf R P nx" and x: "R x = Some r"
    and k: "k < COURSE_PROCESS_MAX_COW_PAGES" "page_used (P k)" "page_id (P k) = ref_cow_page_id r"
    and pg: "page_refcount (P k) = 1 \<Longrightarrow> \<not> page_used pg"
      "page_refcount (P k) \<noteq> 1 \<Longrightarrow> page_used pg \<and> page_id pg = page_id (P k) \<and>
         page_refcount pg = page_refcount (P k) - 1"
  shows "cow_wf (R(x := None)) (P(k := pg)) nx"
proof -
  let ?R = "R(x := None)" and ?P = "P(k := pg)" and ?g = "ref_cow_page_id r"
  have hold: "holders ?R g = holders R g - {x}" for g by (simp add: holders_upd)
  have other: "g \<noteq> ?g \<Longrightarrow> holders ?R g = holders R g" for g
    using holders_other [of R x r g, OF x] hold by auto
  have fin: "finite (holders R g)" for g using holders_range [OF cow_wfD(1) [OF wf]] by auto
  have rc: "unat (page_refcount (P k)) = card (holders R ?g)"
    using cow_wfD(2) [OF wf k(1)] k by (simp add: page_counts_def)
  have card: "card (holders ?R ?g) = card (holders R ?g) - 1" "0 < card (holders R ?g)"
    using in_holders [of R x r, OF x] fin [of ?g] by (auto simp: hold card_gt_0_iff)
  have one: "page_refcount (P k) = 1 \<longleftrightarrow> card (holders R ?g) = 1"
    using rc word_unat_eq_iff [of "page_refcount (P k)" 1] by simp
  show ?thesis
    unfolding cow_wf_def
  proof (intro conjI allI impI)
    show "dom ?R \<subseteq> slot_range" using cow_wfD(1) [OF wf] by auto
    show "page_counts ?R nx (?P l)" if "l < 32" for l
    proof (cases "l = k")
      case True
      show ?thesis
      proof (cases "page_refcount (P k) = 1")
        case False
        then have "card (holders ?R ?g) \<noteq> 0" using card one by linarith
        then have "holders ?R ?g \<noteq> {}" by auto
        moreover have "unat (page_refcount (P k) - 1) = unat (page_refcount (P k)) - 1"
          using card rc by (simp add: unat_sub word_le_nat_alt)
        ultimately show ?thesis
          using True False pg(2) cow_wfD(2) [OF wf k(1)] k card rc by (simp add: page_counts_def)
      qed (use True pg(1) in \<open>simp add: page_counts_def\<close>)
    next
      case False
      then have "page_used (P l) \<Longrightarrow> page_id (P l) \<noteq> ?g"
        using cow_wfD(3) [OF wf that k(1)] k by auto
      then show ?thesis using False cow_wfD(2) [OF wf that] other by (auto simp: page_counts_def)
    qed
    show "i = j" if "i < 32" "j < 32" "page_used (?P i) \<and> page_used (?P j) \<and> page_id (?P i) = page_id (?P j)" for i j
    proof -
      have "page_used (?P l) \<Longrightarrow> page_used (P l) \<and> page_id (P l) = page_id (?P l)" for l
        using pg k by (cases "l = k"; cases "page_refcount (P k) = 1") auto
      then show ?thesis using that cow_wfD(3) [OF wf that(1,2)] by metis
    qed
    show "\<exists>l<32. page_used (?P l) \<and> page_id (?P l) = ref_cow_page_id s" if "?R z = Some s" for z s
    proof -
      have z: "R z = Some s" "z \<noteq> x" using that by (auto split: if_splits)
      obtain l where l: "l < 32" "page_used (P l)" "page_id (P l) = ref_cow_page_id s"
        using cow_wfD(4) [OF wf z(1)] by blast
      show ?thesis
      proof (cases "l = k \<and> page_refcount (P k) = 1")
        case True
        then have "z \<in> holders R ?g" "x \<in> holders R ?g" "card (holders R ?g) = 1"
          using l k z x in_holders [of R z s] in_holders [of R x r] one by auto
        then have "z = x" using card_1_singletonE by (metis singletonD)
        then show ?thesis using z by simp
      next
        case False
        then show ?thesis using l pg(2) by (intro exI [of _ l]) auto
      qed
    qed
    show "holders ?R (ref_cow_page_id s) = {z}" if "?R z = Some s \<and> exclusive s" for z s
    proof -
      have z: "R z = Some s" "z \<noteq> x" "exclusive s" using that by (auto split: if_splits)
      then have h: "holders R (ref_cow_page_id s) = {z}" using cow_wfD(5) [OF wf] by blast
      then show ?thesis using z hold by auto
    qed
  qed
qed

lemma cow_wf_reflag:
  assumes wf: "cow_wf R P nx" and x: "R x = Some r" "holders R (ref_cow_page_id r) = {x}"
    and r': "ref_cow_page_id r' = ref_cow_page_id r"
  shows "cow_wf (R(x := Some r')) P nx"
proof -
  have hold: "holders (R(x := Some r')) = holders R"
    using x r' in_holders [of R x r, OF x(1)] holders_other [of R x r, OF x(1)]
    by (auto simp: fun_eq_iff holders_upd)
  show ?thesis
    unfolding cow_wf_def
  proof (intro conjI allI impI)
    show "dom (R(x := Some r')) \<subseteq> slot_range" using cow_wfD(1) [OF wf] x by auto
    show "page_counts (R(x := Some r')) nx (P l)" if "l < 32" for l
      using cow_wfD(2) [OF wf that] by (simp add: page_counts_def hold)
    show "i = j" if "i < 32" "j < 32" "page_used (P i) \<and> page_used (P j) \<and> page_id (P i) = page_id (P j)" for i j
      using cow_wfD(3) [OF wf that(1,2)] that(3) by blast
    show "\<exists>l<32. page_used (P l) \<and> page_id (P l) = ref_cow_page_id s" if "(R(x := Some r')) y = Some s" for y s
      using that r' cow_wfD(4) [OF wf x(1)] cow_wfD(4) [OF wf, of y s] by (cases "y = x") simp_all
    show "holders (R(x := Some r')) (ref_cow_page_id s) = {y}" if "(R(x := Some r')) y = Some s \<and> exclusive s" for y s
    proof (cases "y = x")
      case True
      then have "ref_cow_page_id s = ref_cow_page_id r" using that r' by auto
      then show ?thesis using True x(2) hold by metis
    next
      case False
      then have "holders R (ref_cow_page_id s) = {y}" using that cow_wfD(5) [OF wf] by simp
      then show ?thesis using hold by metis
    qed
  qed
qed

text \<open>Where a reference leads: the page slot it shares.\<close>

definition cow_lookup :: "cow_page carray \<Rightarrow> u32 \<Rightarrow> nat option" where
  "cow_lookup P g = (if g = 0 then None
     else first_index (\<lambda>i. page_used (P i) \<and> page_id (P i) = g) COURSE_PROCESS_MAX_COW_PAGES)"

lemma find_cow_page_lookup:
  "find_cow_page_by_id t g = cow_lookup (cow_pages t) g"
  "find_const_cow_page_by_id t g = cow_lookup (cow_pages t) g"
  by (simp_all add: find_cow_page_by_id_def find_const_cow_page_by_id_def cow_lookup_def)

lemma cow_lookup_iff:
  assumes "cow_wf R P nx"
  shows "cow_lookup P g = Some k \<longleftrightarrow> k < COURSE_PROCESS_MAX_COW_PAGES \<and> page_used (P k) \<and> page_id (P k) = g"
proof
  show "cow_lookup P g = Some k \<Longrightarrow> k < 32 \<and> page_used (P k) \<and> page_id (P k) = g"
    by (auto simp: cow_lookup_def first_index_Some_iff split: if_splits)
next
  assume k: "k < 32 \<and> page_used (P k) \<and> page_id (P k) = g"
  then have "g \<noteq> 0" using cow_wfD(2) [OF assms, of k] by (auto simp: page_counts_def)
  moreover have "first_index (\<lambda>i. page_used (P i) \<and> page_id (P i) = g) 32 = Some k"
    using k cow_wfD(3) [OF assms] by (intro first_index_unique) auto
  ultimately show "cow_lookup P g = Some k" by (simp add: cow_lookup_def)
qed

definition loc :: "(nat \<times> nat \<Rightarrow> user_page_ref option) \<Rightarrow> cow_page carray \<Rightarrow> nat \<times> nat \<Rightarrow> nat option" where
  "loc R P x = (case R x of None \<Rightarrow> None | Some r \<Rightarrow> cow_lookup P (ref_cow_page_id r))"

lemma loc_iff:
  assumes "cow_wf R P nx"
  shows "loc R P x = Some k \<longleftrightarrow> (\<exists>r. R x = Some r \<and> k < COURSE_PROCESS_MAX_COW_PAGES \<and> page_used (P k) \<and>
           page_id (P k) = ref_cow_page_id r)"
  by (auto simp: loc_def cow_lookup_iff [OF assms] split: option.splits)

lemma loc_None:
  assumes "cow_wf R P nx"
  shows "loc R P x = None \<longleftrightarrow> R x = None"
proof (cases "R x")
  case (Some r)
  then obtain k where "loc R P x = Some k" using cow_wfD(4) [OF assms Some] loc_iff [OF assms] by blast
  then show ?thesis using Some by simp
qed (simp add: loc_def)

lemma loc_eqI:
  assumes "cow_wf R P nx" "cow_wf R' P' nx'"
    and "\<And>k. f x = Some k \<Longrightarrow> \<exists>r. R' x = Some r \<and> k < COURSE_PROCESS_MAX_COW_PAGES \<and> page_used (P' k) \<and>
           page_id (P' k) = ref_cow_page_id r"
    and "f x = None \<Longrightarrow> R' x = None"
  shows "loc R' P' x = f x"
proof (cases "f x")
  case None
  then show ?thesis using assms(4) loc_None [OF assms(2)] by simp
next
  case (Some k)
  then show ?thesis using assms(3) [OF Some] loc_iff [OF assms(2), of x k] by simp
qed

lemma loc_fresh:
  assumes wf: "cow_wf R P nx" and wf': "cow_wf (R(x := Some r)) (P(k := pg)) nx'"
    and k: "k < COURSE_PROCESS_MAX_COW_PAGES" "\<not> page_used (P k)" "page_used pg" "page_id pg = ref_cow_page_id r"
  shows "loc (R(x := Some r)) (P(k := pg)) = (loc R P)(x := Some k)"
proof
  fix y
  show "loc (R(x := Some r)) (P(k := pg)) y = ((loc R P)(x := Some k)) y"
  proof (rule loc_eqI [OF wf wf'])
    show "\<exists>s. (R(x := Some r)) y = Some s \<and> l < 32 \<and> page_used ((P(k := pg)) l) \<and>
            page_id ((P(k := pg)) l) = ref_cow_page_id s" if "((loc R P)(x := Some k)) y = Some l" for l
      using that k loc_iff [OF wf, of y l] by (cases "y = x") auto
    show "((loc R P)(x := Some k)) y = None \<Longrightarrow> (R(x := Some r)) y = None"
      using loc_None [OF wf, of y] by (cases "y = x") auto
  qed
qed

lemma loc_meta:
  assumes wf: "cow_wf R P nx" and wf': "cow_wf R' P' nx'"
    and R: "\<And>y. map_option ref_cow_page_id (R' y) = map_option ref_cow_page_id (R y)"
    and P: "\<And>l. l < COURSE_PROCESS_MAX_COW_PAGES \<Longrightarrow> page_used (P l) \<Longrightarrow> page_used (P' l) \<and> page_id (P' l) = page_id (P l)"
  shows "loc R' P' = loc R P"
proof
  fix y
  show "loc R' P' y = loc R P y"
  proof (rule loc_eqI [OF wf wf'])
    show "\<exists>r. R' y = Some r \<and> l < 32 \<and> page_used (P' l) \<and> page_id (P' l) = ref_cow_page_id r"
      if "loc R P y = Some l" for l
      using that R [of y] P [of l] by (auto simp: loc_iff [OF wf])
    show "loc R P y = None \<Longrightarrow> R' y = None" using loc_None [OF wf] R [of y] by auto
  qed
qed

lemma loc_drop:
  assumes wf: "cow_wf R P nx" and x: "R x = Some r"
    and k: "k < COURSE_PROCESS_MAX_COW_PAGES" "page_used (P k)" "page_id (P k) = ref_cow_page_id r"
    and pg: "page_refcount (P k) = 1 \<Longrightarrow> \<not> page_used pg"
      "page_refcount (P k) \<noteq> 1 \<Longrightarrow> page_used pg \<and> page_id pg = page_id (P k) \<and>
         page_refcount pg = page_refcount (P k) - 1"
  shows "loc (R(x := None)) (P(k := pg)) = (loc R P)(x := None)"
proof
  fix y
  have wf': "cow_wf (R(x := None)) (P(k := pg)) nx" by (rule cow_wf_drop [OF wf x k pg])
  show "loc (R(x := None)) (P(k := pg)) y = ((loc R P)(x := None)) y"
  proof (cases "y = x")
    case False
    show ?thesis
    proof (cases "R y")
      case None
      then show ?thesis using False by (simp add: loc_def)
    next
      case (Some s)
      then have s: "(R(x := None)) y = Some s" using False by simp
      obtain l where l: "l < 32" "page_used ((P(k := pg)) l)" "page_id ((P(k := pg)) l) = ref_cow_page_id s"
        using cow_wfD(4) [OF wf' s] by blast
      moreover have "page_used (P l) \<and> page_id ((P(k := pg)) l) = page_id (P l)"
        using pg k l(2) by (cases "page_refcount (P k) = 1"; cases "l = k") auto
      ultimately have "loc R P y = Some l" "loc (R(x := None)) (P(k := pg)) y = Some l"
        using Some s unfolding loc_iff [OF wf] loc_iff [OF wf'] by auto
      then show ?thesis using False by simp
    qed
  qed (simp add: loc_def)
qed

lemma loc_exclusive:
  assumes wf: "cow_wf R P nx" and "R x = Some r" "exclusive r" "loc R P x = Some k" "loc R P y = Some k"
  shows "y = x"
proof -
  have "y \<in> holders R (ref_cow_page_id r)"
    using assms(2,4,5) by (auto simp: loc_iff [OF wf] holders_def)
  then show ?thesis using cow_wfD(5) [OF wf assms(2,3)] by simp
qed

end
