(* ===== verification/ProcessInvariant.thy ===== *)
theory ProcessInvariant
  imports CowPages
begin

text \<open>
  The invariant of the whole process table (\<open>src/myCPU/guest/kernel/course_process.c\<close>), the user
  memory that a table represents (\<open>user_view\<close>) and what every operation of the module does to
  both: isolation of writes, sharing by fork, release by wait.
\<close>

definition rmap :: "process_table \<Rightarrow> nat \<times> nat \<Rightarrow> user_page_ref option" where
  "rmap t = (\<lambda>(p, i). if p < COURSE_PROCESS_MAX_PROCESSES \<and> i < COURSE_PROCESS_MAX_USER_PAGES \<and>
       p_used (processes t p) \<and> ref_mapped (p_user_pages (processes t p) i)
     then Some (p_user_pages (processes t p) i) else None)"

definition slots_wf :: "process carray \<Rightarrow> u32 \<Rightarrow> bool" where
  "slots_wf P nx \<longleftrightarrow>
     (\<forall>p<COURSE_PROCESS_MAX_PROCESSES. p_used (P p) \<longrightarrow>
        p_pid (P p) \<noteq> 0 \<and> (nx = 0 \<or> p_pid (P p) < nx) \<and> p_state (P p) \<noteq> UNUSED \<and>
        (p_state (P p) = DEAD \<longrightarrow> (\<forall>i<COURSE_PROCESS_MAX_USER_PAGES. \<not> ref_mapped (p_user_pages (P p) i)))) \<and>
     (\<forall>p<COURSE_PROCESS_MAX_PROCESSES. \<forall>q<COURSE_PROCESS_MAX_PROCESSES.
        p_used (P p) \<and> p_used (P q) \<and> p_pid (P p) = p_pid (P q) \<longrightarrow> p = q)"

definition table_wf :: "process_table \<Rightarrow> bool" where
  "table_wf t \<longleftrightarrow> cow_wf (rmap t) (cow_pages t) (next_cow_page_id t) \<and> slots_wf (processes t) (next_pid t)"

lemma table_wfD:
  assumes "table_wf t"
  shows "cow_wf (rmap t) (cow_pages t) (next_cow_page_id t)" "slots_wf (processes t) (next_pid t)"
  using assms by (simp_all add: table_wf_def)

lemma slots_wfD:
  assumes "slots_wf P nx" "p < COURSE_PROCESS_MAX_PROCESSES" "p_used (P p)"
  shows "p_pid (P p) \<noteq> 0" "nx = 0 \<or> p_pid (P p) < nx" "p_state (P p) \<noteq> UNUSED"
    "p_state (P p) = DEAD \<Longrightarrow> i < COURSE_PROCESS_MAX_USER_PAGES \<Longrightarrow> \<not> ref_mapped (p_user_pages (P p) i)"
    "q < COURSE_PROCESS_MAX_PROCESSES \<Longrightarrow> p_used (P q) \<Longrightarrow> p_pid (P q) = p_pid (P p) \<Longrightarrow> q = p"
  using assms unfolding slots_wf_def by metis+

lemma find_iff:
  assumes "slots_wf (processes t) nx"
  shows "course_process_find t pid = Some p \<longleftrightarrow>
           p < COURSE_PROCESS_MAX_PROCESSES \<and> p_used (processes t p) \<and> p_pid (processes t p) = pid"
proof
  show "course_process_find t pid = Some p \<Longrightarrow>
          p < 16 \<and> p_used (processes t p) \<and> p_pid (processes t p) = pid"
    by (auto simp: course_process_find_def first_index_Some_iff split: if_splits)
next
  assume p: "p < 16 \<and> p_used (processes t p) \<and> p_pid (processes t p) = pid"
  then have "pid \<noteq> 0" using slots_wfD(1) [OF assms, of p] by auto
  moreover have "first_index (\<lambda>i. p_used (processes t i) \<and> p_pid (processes t i) = pid) 16 = Some p"
    using p slots_wfD(5) [OF assms, of p] by (intro first_index_unique) auto
  ultimately show "course_process_find t pid = Some p" by (simp add: course_process_find_def)
qed

definition user_view :: "process_table \<Rightarrow> nat \<times> nat \<Rightarrow> nat \<Rightarrow> u8 option" where
  "user_view t x off = (if off < COURSE_PROCESS_USER_PAGE_SIZE
     then map_option (\<lambda>k. page_data (cow_pages t k) off) (loc (rmap t) (cow_pages t) x) else None)"

lemma read_user_byte_view:
  "course_process_read_user_byte t pid i off =
     (case course_process_find t pid of None \<Rightarrow> None
      | Some p \<Rightarrow> user_view t (p, i) off)"
proof (cases "course_process_find t pid")
  case (Some p)
  then have "p < 16" "p_used (processes t p)"
    by (auto simp: course_process_find_def dest: first_index_SomeD split: if_splits)
  with Some show ?thesis
    by (simp add: course_process_read_user_byte_def user_view_def loc_def rmap_def find_cow_page_lookup)
qed (simp add: course_process_read_user_byte_def)

subsection \<open>How the update functions act on the two maps\<close>

lemma upd_simps [simp]:
  "processes (upd_cow_page t k g) = processes t" "processes (upd_stats t s) = processes t"
  "cow_pages (upd_ref t p i f) = cow_pages t" "cow_pages (upd_stats t s) = cow_pages t"
  "cow_pages (upd_process t p h) = cow_pages t"
  "cow_pages (upd_cow_page t k g) = (cow_pages t)(k := g (cow_pages t k))"
  "processes (upd_process t p h) = (processes t)(p := h (processes t p))"
  "next_pid (upd_ref t p i f) = next_pid t" "next_pid (upd_stats t s) = next_pid t"
  "next_pid (upd_process t p h) = next_pid t" "next_pid (upd_cow_page t k g) = next_pid t"
  "next_cow_page_id (upd_ref t p i f) = next_cow_page_id t" "next_cow_page_id (upd_stats t s) = next_cow_page_id t"
  "next_cow_page_id (upd_process t p h) = next_cow_page_id t"
  "next_cow_page_id (upd_cow_page t k g) = next_cow_page_id t"
  by (simp_all add: upd_cow_page_def upd_stats_def upd_ref_def upd_process_def)

lemma processes_upd_ref:
  "processes (upd_ref t p i f) = (processes t)(p := (processes t p)
     \<lparr>p_user_pages := (p_user_pages (processes t p))(i := f (p_user_pages (processes t p) i))\<rparr>)"
  by (simp add: upd_ref_def)

lemma rmap_cong: "processes t' = processes t \<Longrightarrow> rmap t' = rmap t"
  by (simp add: rmap_def fun_eq_iff)

lemma rmap_upd_ref:
  "p < COURSE_PROCESS_MAX_PROCESSES \<Longrightarrow> i < COURSE_PROCESS_MAX_USER_PAGES \<Longrightarrow> p_used (processes t p) \<Longrightarrow>
     rmap (upd_ref t p i f) = (rmap t)((p, i) :=
        (let r = f (p_user_pages (processes t p) i) in if ref_mapped r then Some r else None))"
  by (auto simp: rmap_def processes_upd_ref fun_eq_iff Let_def)

lemma rmap_upd_process:
  "(\<And>q. p_used (h q) = p_used q \<and> p_user_pages (h q) = p_user_pages q) \<Longrightarrow> rmap (upd_process t p h) = rmap t"
  by (auto simp: rmap_def fun_eq_iff)

lemma slots_wf_upd:
  assumes "slots_wf P nx"
    and "p_used (P p) \<Longrightarrow> p_used q \<and> p_pid q = p_pid (P p) \<and> p_state q \<noteq> UNUSED \<and>
       (p_state q = DEAD \<longrightarrow> (\<forall>i<COURSE_PROCESS_MAX_USER_PAGES. \<not> ref_mapped (p_user_pages q i)))"
    and "\<not> p_used (P p) \<Longrightarrow> \<not> p_used q"
  shows "slots_wf (P(p := q)) nx"
proof -
  let ?P = "P(p := q)"
  have used: "p_used (?P a) = p_used (P a)" and pid: "p_used (P a) \<Longrightarrow> p_pid (?P a) = p_pid (P a)" for a
    using assms(2,3) by auto
  show ?thesis
    unfolding slots_wf_def used
  proof (intro conjI allI impI)
    fix a assume a: "a < 16" "p_used (P a)"
    show "p_pid (?P a) \<noteq> 0" "nx = 0 \<or> p_pid (?P a) < nx"
      using slots_wfD(1,2) [OF assms(1) a] pid [OF a(2)] by auto
    show "p_state (?P a) \<noteq> UNUSED"
      using slots_wfD(3) [OF assms(1) a] assms(2) a by (cases "a = p") auto
    show "\<not> ref_mapped (p_user_pages (?P a) i)" if "p_state (?P a) = DEAD" "i < 8" for i
      using slots_wfD(4) [OF assms(1) a, of i] assms(2) a that by (cases "a = p") auto
  next
    fix a b assume "a < 16" "b < 16" "p_used (P a) \<and> p_used (P b) \<and> p_pid (?P a) = p_pid (?P b)"
    then show "a = b" using slots_wfD(5) [OF assms(1), of b a] pid [of a] pid [of b] by metis
  qed
qed

lemma user_view_cong:
  assumes "loc (rmap t') (cow_pages t') x = loc (rmap t) (cow_pages t) y"
    and "\<And>k. loc (rmap t) (cow_pages t) y = Some k \<Longrightarrow> page_data (cow_pages t' k) off = page_data (cow_pages t k) off"
  shows "user_view t' x off = user_view t y off"
  using assms by (cases "loc (rmap t) (cow_pages t) y") (auto simp: user_view_def)

text \<open>Everything of a process but its page references.\<close>

definition meta :: "process \<Rightarrow> process" where
  "meta q = q\<lparr>p_user_pages := (\<lambda>_. clear_user_page_ref)\<rparr>"

definition same_meta :: "process_table \<Rightarrow> process_table \<Rightarrow> bool" where
  "same_meta t t' \<longleftrightarrow> (\<forall>q. meta (processes t' q) = meta (processes t q)) \<and> next_pid t' = next_pid t"

lemma meta_eqD:
  assumes "meta q' = meta q"
  shows "p_used q' = p_used q" "p_pid q' = p_pid q" "p_ppid q' = p_ppid q" "p_state q' = p_state q"
    "p_exit_code q' = p_exit_code q" "p_name q' = p_name q" "p_argv q' = p_argv q"
  using assms by (auto simp: meta_def dest: arg_cong [of _ _ p_used] arg_cong [of _ _ p_pid]
      arg_cong [of _ _ p_ppid] arg_cong [of _ _ p_state] arg_cong [of _ _ p_exit_code]
      arg_cong [of _ _ p_name] arg_cong [of _ _ p_argv])

lemma same_meta_refl [simp]: "same_meta t t"
  by (simp add: same_meta_def)

lemma same_meta_trans: "same_meta t t' \<Longrightarrow> same_meta t' t'' \<Longrightarrow> same_meta t t''"
  by (simp add: same_meta_def)

lemma same_metaD:
  assumes "same_meta t t'"
  shows "p_used (processes t' q) = p_used (processes t q)" "p_pid (processes t' q) = p_pid (processes t q)"
    "p_ppid (processes t' q) = p_ppid (processes t q)" "p_state (processes t' q) = p_state (processes t q)"
    "p_exit_code (processes t' q) = p_exit_code (processes t q)" "next_pid t' = next_pid t"
  using assms meta_eqD [of "processes t' q" "processes t q"] by (simp_all add: same_meta_def)

lemma same_meta_find: "same_meta t t' \<Longrightarrow> course_process_find t' = course_process_find t"
  by (simp add: course_process_find_def same_metaD fun_eq_iff)

lemma same_meta_upd [simp]:
  "same_meta t (upd_cow_page t k g)" "same_meta t (upd_stats t s)" "same_meta t (upd_ref t p i f)"
  "same_meta t (t\<lparr>next_cow_page_id := n\<rparr>)"
  by (simp_all add: same_meta_def processes_upd_ref meta_def)

lemma slots_wf_upd_ref:
  assumes "slots_wf (processes t) nx" "p_used (processes t p)" "p < COURSE_PROCESS_MAX_PROCESSES"
    "p_state (processes t p) \<noteq> DEAD \<or> \<not> ref_mapped (f (p_user_pages (processes t p) i))"
  shows "slots_wf (processes (upd_ref t p i f)) nx"
  unfolding processes_upd_ref
  using slots_wfD [OF assms(1,3,2)] assms(2,4) by (intro slots_wf_upd [OF assms(1)]) auto

lemma alloc_cow_page_cases:
  obtains (none) "alloc_cow_page t = (None, t)"
    "next_cow_page_id t = 0 \<or> (\<forall>k<COURSE_PROCESS_MAX_COW_PAGES. page_used (cow_pages t k))"
  | (some) k t' where "alloc_cow_page t = (Some k, t')" "k < COURSE_PROCESS_MAX_COW_PAGES"
    "\<not> page_used (cow_pages t k)" "next_cow_page_id t \<noteq> 0" "processes t' = processes t"
    "next_pid t' = next_pid t" "next_cow_page_id t' = next_cow_page_id t + 1"
    "cow_pages t' = (cow_pages t)(k := clear_cow_page
        \<lparr>page_used := True, page_id := next_cow_page_id t, page_refcount := 1\<rparr>)"
proof (cases "next_cow_page_id t = 0")
  case True
  then show ?thesis by (intro none) (auto simp: alloc_cow_page_def)
next
  case nz: False
  show ?thesis
  proof (cases "first_index (\<lambda>i. \<not> page_used (cow_pages t i)) 32")
    case None
    then have "\<forall>k<32. page_used (cow_pages t k)" by (auto simp: first_index_None_iff)
    then show ?thesis using None nz by (intro none) (auto simp: alloc_cow_page_def)
  next
    case (Some k)
    then have "k < 32" "\<not> page_used (cow_pages t k)" by (auto dest: first_index_SomeD)
    then show ?thesis
      using Some nz by (intro some [of k "snd (alloc_cow_page t)"]) (auto simp: alloc_cow_page_def Let_def)
  qed
qed

lemma mapped_not_dead:
  assumes "table_wf t" "rmap t (p, i) = Some r"
  shows "p < COURSE_PROCESS_MAX_PROCESSES" "i < COURSE_PROCESS_MAX_USER_PAGES" "p_used (processes t p)"
    "r = p_user_pages (processes t p) i" "ref_mapped r" "p_state (processes t p) \<noteq> DEAD"
proof -
  show *: "p < 16" "i < 8" "p_used (processes t p)" "r = p_user_pages (processes t p) i" "ref_mapped r"
    using assms(2) by (auto simp: rmap_def split: if_splits)
  then show "p_state (processes t p) \<noteq> DEAD"
    using slots_wfD(4) [OF table_wfD(2) [OF assms(1)], of p i] by auto
qed

subsection \<open>Copy on write\<close>

text \<open>What \<open>duplicate_cow_page\<close> promises: on failure nothing has changed, on success the reference
  is exclusive, every process still sees the same bytes, and nothing but references changed.\<close>

definition made_exclusive :: "process_table \<Rightarrow> nat \<times> nat \<Rightarrow> process_table \<Rightarrow> bool" where
  "made_exclusive t x t' \<longleftrightarrow> table_wf t' \<and> (\<exists>r. rmap t' x = Some r \<and> exclusive r) \<and>
     user_view t' = user_view t \<and> same_meta t t'"

lemma duplicate_copy:
  assumes wf: "table_wf t" and x: "rmap t (p, i) = Some r"
    and old: "old < COURSE_PROCESS_MAX_COW_PAGES" "page_used (cow_pages t old)"
      "page_id (cow_pages t old) = ref_cow_page_id r" "page_refcount (cow_pages t old) \<noteq> 1"
    and new: "new < COURSE_PROCESS_MAX_COW_PAGES" "\<not> page_used (cow_pages t new)" "next_cow_page_id t \<noteq> 0"
    and t': "processes t' = processes (upd_ref t p i (\<lambda>r. r\<lparr>ref_cow_page_id := next_cow_page_id t,
                ref_cow := False, ref_writable := True\<rparr>))"
      "next_pid t' = next_pid t" "next_cow_page_id t' = next_cow_page_id t + 1"
      "cow_pages t' = (cow_pages t)(old := (cow_pages t old)\<lparr>page_refcount := page_refcount (cow_pages t old) - 1\<rparr>,
           new := pg)"
    and pg: "page_used pg" "page_id pg = next_cow_page_id t" "page_refcount pg = 1"
      "\<And>j. j < COURSE_PROCESS_USER_PAGE_SIZE \<Longrightarrow> page_data pg j = page_data (cow_pages t old) j"
  shows "made_exclusive t (p, i) t'"
proof -
  let ?x = "(p, i)" and ?P = "cow_pages t" and ?nx = "next_cow_page_id t"
  let ?old = "(?P old)\<lparr>page_refcount := page_refcount (?P old) - 1\<rparr>"
  let ?r = "r\<lparr>ref_cow_page_id := ?nx, ref_cow := False, ref_writable := True\<rparr>"
  note cw = table_wfD(1) [OF wf]
  note m = mapped_not_dead [OF wf x]
  have rm: "rmap t' = ((rmap t)(?x := None))(?x := Some ?r)"
    using m rmap_upd_ref [OF m(1,2,3)] rmap_cong [OF t'(1)] by simp
  have drop: "page_refcount (?P old) = 1 \<Longrightarrow> \<not> page_used ?old"
    "page_refcount (?P old) \<noteq> 1 \<Longrightarrow> page_used ?old \<and> page_id ?old = page_id (?P old) \<and>
       page_refcount ?old = page_refcount (?P old) - 1"
    using old by simp_all
  have neq: "new \<noteq> old" using new old by auto
  have wf1: "cow_wf ((rmap t)(?x := None)) (?P(old := ?old)) ?nx"
    by (rule cow_wf_drop [OF cw x old(1,2,3) drop])
  have range: "?x \<in> slot_range" using m by (simp add: slot_range_def)
  have wf2: "cow_wf (rmap t') (cow_pages t') (next_cow_page_id t')"
    unfolding rm t'(3,4)
    by (rule cow_wf_fresh [OF wf1 _ range]) (use new neq pg in simp_all)
  have "slots_wf (processes t') (next_pid t')"
    unfolding t'(1,2) using table_wfD(2) [OF wf] m by (intro slots_wf_upd_ref) auto
  with wf2 have "table_wf t'" by (simp add: table_wf_def)
  moreover have "rmap t' ?x = Some ?r" "exclusive ?r" by (simp_all add: rm exclusive_def)
  moreover have "same_meta t t'"
    unfolding same_meta_def t'(1,2) using same_meta_upd(3) by (simp add: same_meta_def)
  moreover have "user_view t' y off = user_view t y off" for y off
  proof -
    have l: "loc (rmap t') (cow_pages t') = (loc (rmap t) ?P)(?x := None, ?x := Some new)"
      unfolding rm t'(4)
      using loc_fresh [OF wf1 wf2 [unfolded rm t'(4)] new(1)] loc_drop [OF cw x old(1,2,3) drop] neq new pg
      by simp
    have lx: "loc (rmap t) ?P ?x = Some old" using x old by (simp add: loc_iff [OF cw])
    show ?thesis
    proof (cases "y = ?x")
      case True
      then show ?thesis using l lx pg(4) [of off] by (simp add: user_view_def t'(4))
    next
      case False
      show ?thesis
      proof (rule user_view_cong)
        show "loc (rmap t') (cow_pages t') y = loc (rmap t) ?P y" using l False by simp
        fix k assume "loc (rmap t) ?P y = Some k"
        then have "k \<noteq> new" using new by (auto simp: loc_iff [OF cw])
        then show "page_data (cow_pages t' k) off = page_data (?P k) off" by (simp add: t'(4))
      qed
    qed
  qed
  ultimately show ?thesis by (auto simp: made_exclusive_def fun_eq_iff)
qed

lemma duplicate_reflag:
  assumes wf: "table_wf t" and x: "rmap t (p, i) = Some r"
    and k: "k < COURSE_PROCESS_MAX_COW_PAGES" "page_used (cow_pages t k)"
      "page_id (cow_pages t k) = ref_cow_page_id r" "page_refcount (cow_pages t k) = 1"
  shows "made_exclusive t (p, i) (upd_ref t p i (\<lambda>r. r\<lparr>ref_cow := False, ref_writable := True\<rparr>))"
proof -
  let ?x = "(p, i)" and ?t = "upd_ref t p i (\<lambda>r. r\<lparr>ref_cow := False, ref_writable := True\<rparr>)"
  let ?r = "r\<lparr>ref_cow := False, ref_writable := True\<rparr>"
  note cw = table_wfD(1) [OF wf]
  note m = mapped_not_dead [OF wf x]
  have rm: "rmap ?t = (rmap t)(?x := Some ?r)"
    using m rmap_upd_ref [OF m(1,2,3)] by simp
  have "card (holders (rmap t) (ref_cow_page_id r)) = 1"
    using cow_wfD(2) [OF cw k(1)] k by (simp add: page_counts_def)
  then have "holders (rmap t) (ref_cow_page_id r) = {?x}"
    using in_holders [of "rmap t" "(p, i)" r, OF x] card_1_singletonE by (metis singletonD)
  then have wf2: "cow_wf (rmap ?t) (cow_pages ?t) (next_cow_page_id ?t)"
    unfolding rm using cow_wf_reflag [OF cw x, of ?r] by simp
  have "slots_wf (processes ?t) (next_pid ?t)"
    using slots_wf_upd_ref [OF table_wfD(2) [OF wf] m(3,1)] m(6) by simp
  with wf2 have "table_wf ?t" by (simp add: table_wf_def)
  moreover have "rmap ?t ?x = Some ?r" "exclusive ?r" by (simp_all add: rm exclusive_def)
  moreover have "loc (rmap ?t) (cow_pages ?t) = loc (rmap t) (cow_pages t)"
    by (rule loc_meta [OF cw wf2]) (use x in \<open>auto simp: rm\<close>)
  then have "user_view ?t = user_view t" by (simp add: user_view_def fun_eq_iff)
  ultimately show ?thesis by (auto simp: made_exclusive_def)
qed

lemma duplicate_cow_page_cases:
  assumes wf: "table_wf t" and x: "rmap t (p, i) = Some r"
  obtains (fail) "duplicate_cow_page t p i = (False, t)"
  | (copied) t' where "duplicate_cow_page t p i = (True, t')" "made_exclusive t (p, i) t'"
proof -
  note cw = table_wfD(1) [OF wf]
  note m = mapped_not_dead [OF wf x]
  obtain k where k: "k < 32" "page_used (cow_pages t k)" "page_id (cow_pages t k) = ref_cow_page_id r"
    using cow_wfD(4) [OF cw x] by blast
  have f: "find_cow_page_by_id t (ref_cow_page_id (p_user_pages (processes t p) i)) = Some k"
    using k m(4) cow_lookup_iff [OF cw] by (simp add: find_cow_page_lookup)
  have "holders (rmap t) (ref_cow_page_id r) \<noteq> {}" using in_holders [of "rmap t" "(p, i)" r, OF x] by auto
  moreover have "finite (holders (rmap t) (ref_cow_page_id r))"
    using holders_range [OF cow_wfD(1) [OF cw]] by blast
  ultimately have nz: "page_refcount (cow_pages t k) \<noteq> 0"
    using cow_wfD(2) [OF cw k(1)] k by (auto simp: page_counts_def)
  show ?thesis
  proof (cases "exclusive r")
    case True
    then have "duplicate_cow_page t p i = (True, t)"
      using m f nz by (simp add: duplicate_cow_page_def exclusive_def)
    moreover have "made_exclusive t (p, i) t" using wf x True by (auto simp: made_exclusive_def)
    ultimately show ?thesis by (rule copied)
  next
    case nex: False
    show ?thesis
    proof (cases "page_refcount (cow_pages t k) = 1")
      case True
      then show ?thesis
        using m f nz nex duplicate_reflag [OF wf x k True]
        by (intro copied) (auto simp: duplicate_cow_page_def exclusive_def)
    next
      case False
      show ?thesis
      proof (cases rule: alloc_cow_page_cases [of t])
        case none
        then show ?thesis
          using m f nz nex False by (intro fail) (auto simp: duplicate_cow_page_def exclusive_def)
      next
        case (some new t1)
        then have neq: "new \<noteq> k" using k by auto
        let ?pg = "(cow_pages t1 new)\<lparr>page_data := (\<lambda>j. if j < 4096 then page_data (cow_pages t1 k) j
                        else page_data (cow_pages t1 new) j)\<rparr>"
        define t2 where "t2 = upd_cow_page t1 new (\<lambda>pg. pg\<lparr>page_data := (\<lambda>j.
                               if j < 4096 then page_data (cow_pages t1 k) j else page_data pg j)\<rparr>)"
        define t3 where "t3 = upd_cow_page t2 k (\<lambda>pg. pg\<lparr>page_refcount := page_refcount pg - 1\<rparr>)"
        define t4 where "t4 = upd_ref t3 p i (\<lambda>r. r\<lparr>ref_cow_page_id := page_id (cow_pages t3 new),
                               ref_cow := False, ref_writable := True\<rparr>)"
        define t5 where "t5 = upd_stats t4 (\<lambda>s. s\<lparr>st_cow_faults := st_cow_faults s + 1,
                               st_copied_pages := st_copied_pages s + 1\<rparr>)"
        have "ref_cow (p_user_pages (processes t p) i) \<or>
            \<not> ref_cow (p_user_pages (processes t p) i) \<and> \<not> ref_writable (p_user_pages (processes t p) i)"
          using nex m(4) by (auto simp: exclusive_def)
        then have d: "duplicate_cow_page t p i = (True, t5)"
          using m(2) f nz False some
          by (elim disjE conjE) (simp_all add: duplicate_cow_page_def Let_def t2_def t3_def t4_def t5_def)
        have pid: "page_id (cow_pages t3 new) = next_cow_page_id t"
          using some neq by (simp add: t3_def t2_def)
        have procs: "processes t3 = processes t" using some by (simp add: t3_def t2_def)
        have "made_exclusive t (p, i) t5"
        proof (rule duplicate_copy [OF wf x k(1,2,3) False some(2,3,4)])
          show "processes t5 = processes (upd_ref t p i (\<lambda>r. r\<lparr>ref_cow_page_id := next_cow_page_id t,
                ref_cow := False, ref_writable := True\<rparr>))"
            by (simp add: t5_def t4_def processes_upd_ref procs pid)
          show "next_pid t5 = next_pid t" "next_cow_page_id t5 = next_cow_page_id t + 1"
            using some by (simp_all add: t5_def t4_def t3_def t2_def)
          show "cow_pages t5 = (cow_pages t)
              (k := (cow_pages t k)\<lparr>page_refcount := page_refcount (cow_pages t k) - 1\<rparr>, new := ?pg)"
            using some neq fun_upd_twist [OF neq, of "cow_pages t"] by (simp add: t5_def t4_def t3_def t2_def)
          show "page_used ?pg" "page_id ?pg = next_cow_page_id t" "page_refcount ?pg = 1"
            using some by simp_all
          show "page_data ?pg j = page_data (cow_pages t k) j" if "j < 4096" for j
            using that some neq by simp
        qed
        with d show ?thesis by (rule copied)
      qed
    qed
  qed
qed

lemma made_exclusive_same_read:
  "made_exclusive t x t' \<Longrightarrow> course_process_read_user_byte t' = course_process_read_user_byte t"
proof (intro ext)
  fix pid i off
  assume m: "made_exclusive t x t'"
  have "course_process_find t' = course_process_find t" "user_view t' = user_view t"
    using m by (auto simp: made_exclusive_def intro: same_meta_find)
  then show "course_process_read_user_byte t' pid i off = course_process_read_user_byte t pid i off"
    by (simp add: read_user_byte_view split: option.split)
qed

lemma write_user_byte_cases:
  assumes wf: "table_wf t"
  obtains (fail) "course_process_write_user_byte t pid i off v = (False, t)"
  | (copied) p t1 k where "course_process_find t pid = Some p" "made_exclusive t (p, i) t1"
      "loc (rmap t1) (cow_pages t1) (p, i) = Some k" "off < COURSE_PROCESS_USER_PAGE_SIZE"
      "course_process_write_user_byte t pid i off v =
         (True, upd_cow_page t1 k (\<lambda>pg. pg\<lparr>page_data := (page_data pg)(off := v)\<rparr>))"
proof (cases "course_process_find t pid")
  case None
  then show ?thesis by (intro fail) (simp add: course_process_write_user_byte_def)
next
  case (Some p)
  show ?thesis
  proof (cases "i < 8 \<and> off < 4096 \<and> ref_mapped (p_user_pages (processes t p) i)")
    case False
    then show ?thesis using Some by (intro fail) (auto simp: course_process_write_user_byte_def)
  next
    case True
    then obtain r where r: "rmap t (p, i) = Some r"
      using Some find_iff [OF table_wfD(2) [OF wf]] by (auto simp: rmap_def)
    show ?thesis
    proof (cases rule: duplicate_cow_page_cases [OF wf r])
      case 1
      then show ?thesis using Some True by (intro fail) (simp add: course_process_write_user_byte_def)
    next
      case (2 t1)
      then have wf1: "table_wf t1" by (simp add: made_exclusive_def)
      obtain r1 where r1: "rmap t1 (p, i) = Some r1" using 2 by (auto simp: made_exclusive_def)
      obtain k where k: "loc (rmap t1) (cow_pages t1) (p, i) = Some k"
        using r1 loc_None [OF table_wfD(1) [OF wf1]] by (metis not_None_eq option.distinct(1))
      then have "find_cow_page_by_id t1 (ref_cow_page_id (p_user_pages (processes t1 p) i)) = Some k"
        using mapped_not_dead [OF wf1 r1] r1 by (simp add: loc_def find_cow_page_lookup)
      then show ?thesis
        using 2 Some True k by (intro copied) (auto simp: course_process_write_user_byte_def)
    qed
  qed
qed

lemma write_data_wf:
  assumes "table_wf t"
  shows "table_wf (upd_cow_page t k (\<lambda>pg. pg\<lparr>page_data := d\<rparr>))"
    "loc (rmap (upd_cow_page t k (\<lambda>pg. pg\<lparr>page_data := d\<rparr>))) (cow_pages (upd_cow_page t k (\<lambda>pg. pg\<lparr>page_data := d\<rparr>)))
       = loc (rmap t) (cow_pages t)"
proof -
  let ?t = "upd_cow_page t k (\<lambda>pg. pg\<lparr>page_data := d\<rparr>)"
  have rm: "rmap ?t = rmap t" by (rule rmap_cong) simp
  have wf': "cow_wf (rmap ?t) (cow_pages ?t) (next_cow_page_id ?t)"
    unfolding rm using cow_wf_cong [OF table_wfD(1) [OF assms], of "cow_pages ?t"] by simp
  then show "table_wf ?t" using table_wfD(2) [OF assms] by (simp add: table_wf_def)
  show "loc (rmap ?t) (cow_pages ?t) = loc (rmap t) (cow_pages t)"
    by (rule loc_meta [OF table_wfD(1) [OF assms] wf']) (auto simp: rm)
qed

lemma user_view_write:
  assumes "made_exclusive t x t1" "loc (rmap t1) (cow_pages t1) x = Some k" "off < COURSE_PROCESS_USER_PAGE_SIZE"
    and t': "t' = upd_cow_page t1 k (\<lambda>pg. pg\<lparr>page_data := (page_data pg)(off := v)\<rparr>)"
  shows "user_view t' = (user_view t)(x := (user_view t x)(off := Some v))"
proof (intro ext)
  fix y j
  have wf1: "table_wf t1" using assms(1) by (simp add: made_exclusive_def)
  obtain r where r: "rmap t1 x = Some r" "exclusive r" using assms(1) by (auto simp: made_exclusive_def)
  have t'': "t' = upd_cow_page t1 k (\<lambda>pg. pg\<lparr>page_data := (page_data (cow_pages t1 k))(off := v)\<rparr>)"
    by (simp add: t' upd_cow_page_def)
  have l: "loc (rmap t') (cow_pages t') = loc (rmap t1) (cow_pages t1)"
    unfolding t'' by (rule write_data_wf [OF wf1])
  have v: "user_view t = user_view t1" using assms(1) by (simp add: made_exclusive_def)
  show "user_view t' y j = ((user_view t)(x := (user_view t x)(off := Some v))) y j"
  proof (cases "y = x")
    case True
    then show ?thesis using assms(2,3) l by (simp add: user_view_def v) (simp add: t')
  next
    case False
    then have "loc (rmap t1) (cow_pages t1) y \<noteq> Some k"
      using loc_exclusive [OF table_wfD(1) [OF wf1] r assms(2)] by blast
    then show ?thesis
      using False l
      by (cases "loc (rmap t1) (cow_pages t1) y") (auto simp: user_view_def v t')
  qed
qed

text \<open>C10: writes are isolated.  A successful write of a user byte is visible to that process at
  that address and changes no byte of any other page or process, whether or not the page was
  shared copy on write; a refused write changes nothing.  The reference-count invariant is
  preserved in both cases.\<close>

theorem write_user_byte_isolated:
  assumes wf: "table_wf t" and w: "course_process_write_user_byte t pid i off v = (ok, t')"
  shows "table_wf t' \<and>
      (if ok then course_process_read_user_byte t' pid i off = Some v \<and>
            (\<forall>pid' i' off'. (pid', i', off') \<noteq> (pid, i, off) \<longrightarrow>
               course_process_read_user_byte t' pid' i' off' = course_process_read_user_byte t pid' i' off')
       else t' = t)"
proof (cases rule: write_user_byte_cases [OF wf, of pid i off v])
  case 1
  then show ?thesis using w wf by simp
next
  case (2 p t1 k)
  then have t': "ok" "t' = upd_cow_page t1 k (\<lambda>pg. pg\<lparr>page_data := (page_data pg)(off := v)\<rparr>)"
    using w by simp_all
  have view: "user_view t' = (user_view t)(Pair p i := (user_view t (p, i))(off := Some v))"
    by (rule user_view_write [OF 2(2,3,4) t'(2)])
  have wf': "table_wf t'"
    using write_data_wf(1) [of t1 k "(page_data (cow_pages t1 k))(off := v)"] 2(2)
    by (simp add: t'(2) made_exclusive_def upd_cow_page_def)
  have "same_meta t t'"
    using 2(2) t'(2) same_meta_trans [of t t1] by (simp add: made_exclusive_def)
  then have f: "course_process_find t' = course_process_find t" by (rule same_meta_find)
  have "course_process_read_user_byte t' pid i off = Some v"
    using 2 by (simp add: read_user_byte_view f view)
  moreover have "course_process_read_user_byte t' pid' i' off' = course_process_read_user_byte t pid' i' off'"
    if "(pid', i', off') \<noteq> (pid, i, off)" for pid' i' off'
  proof (cases "course_process_find t pid'")
    case None
    then show ?thesis by (simp add: read_user_byte_view f)
  next
    case (Some q)
    then have "q = p \<Longrightarrow> pid' = pid"
      using 2(1) find_iff [OF table_wfD(2) [OF wf]] by metis
    then show ?thesis
      using Some that by (auto simp: read_user_byte_view f view)
  qed
  ultimately show ?thesis using wf' t'(1) by simp
qed

subsection \<open>Spawn and fork\<close>

lemma alloc_process_None_rmap:
  assumes "table_wf t" "alloc_process t = Some p"
  shows "p < COURSE_PROCESS_MAX_PROCESSES" "rmap t (p, i) = None"
    "\<not> p_used (processes t p) \<or> p_state (processes t p) = DEAD"
proof -
  show p: "p < 16" "\<not> p_used (processes t p) \<or> p_state (processes t p) = DEAD"
    using assms(2) by (auto simp: alloc_process_def dest: first_index_SomeD)
  then show "rmap t (p, i) = None"
    using slots_wfD(4) [OF table_wfD(2) [OF assms(1)], of p i] by (auto simp: rmap_def)
qed

lemma slots_wf_new:
  assumes wf: "slots_wf P nx" and nx: "nx \<noteq> 0"
    and q: "p_used q" "p_pid q = nx" "p_state q \<notin> {UNUSED, DEAD}"
  shows "slots_wf (P(p := q)) (nx + 1)"
proof -
  have below: "p_pid (P a) < nx" if "a < 16" "p_used (P a)" for a
    using slots_wfD(2) [OF wf that] nx by auto
  show ?thesis
    unfolding slots_wf_def
  proof (intro conjI allI impI)
    fix a assume a: "a < 16" "p_used ((P(p := q)) a)"
    show "p_pid ((P(p := q)) a) \<noteq> 0" "p_state ((P(p := q)) a) \<noteq> UNUSED"
      using a q nx slots_wfD(1,3) [OF wf, of a] by (auto split: if_splits)
    show "nx + 1 = 0 \<or> p_pid ((P(p := q)) a) < nx + 1"
      using a q below [of a] word_less_Suc_or_wrap [of "p_pid (P a)" nx] word_less_Suc_or_wrap2 [of nx]
      by (cases "a = p") simp_all
    show "\<not> ref_mapped (p_user_pages ((P(p := q)) a) i)" if "p_state ((P(p := q)) a) = DEAD" "i < 8" for i
      using a q that slots_wfD(4) [OF wf, of a i] by (cases "a = p") simp_all
  next
    fix a b
    assume ab: "a < 16" "b < 16"
      "p_used ((P(p := q)) a) \<and> p_used ((P(p := q)) b) \<and> p_pid ((P(p := q)) a) = p_pid ((P(p := q)) b)"
    then show "a = b"
      using below [of a] below [of b] slots_wfD(5) [OF wf, of b a] q
      by (cases "a = p"; cases "b = p") auto
  qed
qed

lemma spawn_cases:
  assumes wf: "table_wf t"
  obtains (fail) "course_process_spawn t ppid name = (None, t)" "alloc_process t = None \<or> next_pid t = 0"
  | (made) p t' where "course_process_spawn t ppid name = (Some p, t')" "p < COURSE_PROCESS_MAX_PROCESSES"
      "next_pid t \<noteq> 0" "\<not> p_used (processes t p) \<or> p_state (processes t p) = DEAD" "table_wf t'"
      "rmap t' = rmap t" "\<And>i. rmap t (p, i) = None" "cow_pages t' = cow_pages t"
      "processes t' = (processes t)(p := clear_process\<lparr>p_used := True, p_pid := next_pid t,
           p_ppid := ppid, p_state := READY, p_name := copy_str COURSE_PROCESS_MAX_NAME name\<rparr>)"
      "next_pid t' = next_pid t + 1"
proof (cases "alloc_process t")
  case None
  then show ?thesis by (intro fail) (simp_all add: course_process_spawn_def)
next
  case (Some p)
  note a = alloc_process_None_rmap [OF wf Some]
  show ?thesis
  proof (cases "next_pid t = 0")
    case True
    then show ?thesis using Some by (intro fail) (simp_all add: course_process_spawn_def)
  next
    case False
    let ?q = "clear_process\<lparr>p_used := True, p_pid := next_pid t,
           p_ppid := ppid, p_state := READY, p_name := copy_str 24 name\<rparr>"
    define t' where "t' = (upd_process t p (\<lambda>_. ?q))\<lparr>next_pid := next_pid t + 1\<rparr>"
    have sp: "course_process_spawn t ppid name = (Some p, t')"
      using Some False by (simp add: course_process_spawn_def t'_def)
    have f: "processes t' = (processes t)(p := ?q)" "cow_pages t' = cow_pages t" "next_pid t' = next_pid t + 1"
      "next_cow_page_id t' = next_cow_page_id t"
      by (simp_all add: t'_def)
    have rm: "rmap t' = rmap t"
    proof
      fix x :: "nat \<times> nat"
      obtain a i where x: "x = (a, i)" by (cases x)
      show "rmap t' x = rmap t x"
        using a(2) [of i] by (cases "a = p") (auto simp: rmap_def x f clear_process_def clear_user_page_ref_def)
    qed
    have "slots_wf (processes t') (next_pid t')"
      unfolding f using slots_wf_new [OF table_wfD(2) [OF wf] False, of ?q] by simp
    then have "table_wf t'"
      using table_wfD(1) [OF wf] by (simp add: table_wf_def rm f)
    then show ?thesis using sp a False rm f by (intro made) auto
  qed
qed

lemma fork_page_step:
  assumes wf: "table_wf t" and p: "p < COURSE_PROCESS_MAX_PROCESSES" "p_used (processes t p)"
    and c: "c < COURSE_PROCESS_MAX_PROCESSES" "p_used (processes t c)" "p_state (processes t c) \<noteq> DEAD"
    and i: "i < COURSE_PROCESS_MAX_USER_PAGES" and ci: "rmap t (c, i) = None" and pc: "p \<noteq> c"
  shows "\<exists>t'. fork_page p c i t = Some t' \<and> table_wf t' \<and> same_meta t t' \<and>
     user_view t' = (user_view t)((c, i) := user_view t (p, i)) \<and>
     (\<forall>k. page_used (cow_pages t' k) = page_used (cow_pages t k)) \<and>
     (\<forall>y. y \<noteq> (c, i) \<longrightarrow> (rmap t' y = None) = (rmap t y = None))"
proof (cases "rmap t (p, i)")
  case None
  then have "fork_page p c i t = Some t"
    using p i by (auto simp: fork_page_def rmap_def Let_def)
  moreover have "user_view t (c, i) = user_view t (p, i)"
    using None ci by (simp add: user_view_def loc_def fun_eq_iff)
  ultimately show ?thesis using wf by (metis fun_upd_triv same_meta_refl)
next
  case (Some r)
  note m = mapped_not_dead [OF wf Some] and cw = table_wfD(1) [OF wf]
  obtain k where k: "k < 32" "page_used (cow_pages t k)" "page_id (cow_pages t k) = ref_cow_page_id r"
    using cow_wfD(4) [OF cw Some] by blast
  have f: "find_cow_page_by_id t (ref_cow_page_id (p_user_pages (processes t p) i)) = Some k"
    using k m(4) cow_lookup_iff [OF cw] by (simp add: find_cow_page_lookup)
  let ?r = "r\<lparr>ref_writable := False, ref_cow := True\<rparr>"
  let ?pg = "(cow_pages t k)\<lparr>page_refcount := page_refcount (cow_pages t k) + 1\<rparr>"
  define t' where "t' = the (fork_page p c i t)"
  have ex: "fork_page p c i t = Some t'"
    using m f by (simp add: fork_page_def t'_def Let_def)
  have P': "cow_pages t' = (cow_pages t)(k := ?pg)" "next_pid t' = next_pid t"
      "next_cow_page_id t' = next_cow_page_id t"
    using m f by (simp_all add: fork_page_def t'_def Let_def)
  have procs: "processes t' = processes (upd_ref (upd_ref t p i (\<lambda>_. ?r)) c i (\<lambda>_. ?r))"
    using m f pc by (simp add: fork_page_def t'_def Let_def processes_upd_ref)
  have used: "p_used (processes (upd_ref t p i (\<lambda>_. ?r)) c)" using c pc by (simp add: processes_upd_ref)
  have rm: "rmap t' = (rmap t)((p, i) := Some ?r, (c, i) := Some ?r)"
    using rmap_cong [OF procs] rmap_upd_ref [OF c(1) i used] rmap_upd_ref [OF p(1) i p(2)] m(5) by simp
  have range: "(c, i) \<in> slot_range" using c i by (simp add: slot_range_def)
  have wf2: "cow_wf (rmap t') (cow_pages t') (next_cow_page_id t')"
    unfolding rm P' by (rule cow_wf_share [OF cw Some ci range k]) (use k in simp_all)
  have "slots_wf (processes (upd_ref t p i (\<lambda>_. ?r))) (next_pid t)"
    using slots_wf_upd_ref [OF table_wfD(2) [OF wf] m(3,1)] m(6) by simp
  then have "slots_wf (processes t') (next_pid t')"
    unfolding procs P'
    using slots_wf_upd_ref [of "upd_ref t p i (\<lambda>_. ?r)" "next_pid t" c "\<lambda>_. ?r" i] c used pc
    by (simp add: processes_upd_ref)
  with wf2 have wf': "table_wf t'" by (simp add: table_wf_def)
  have meta: "same_meta t t'"
    unfolding same_meta_def procs P'
    using same_meta_trans [OF same_meta_upd(3) same_meta_upd(3)] by (simp add: same_meta_def)
  have ids: "map_option ref_cow_page_id (rmap t' y) =
      map_option ref_cow_page_id (rmap t (if y = (c, i) then (p, i) else y))" for y
    using Some by (auto simp: rm)
  have l: "loc (rmap t') (cow_pages t') y = loc (rmap t) (cow_pages t) (if y = (c, i) then (p, i) else y)" for y
  proof (rule loc_eqI [OF cw wf2])
    show "\<exists>s. rmap t' y = Some s \<and> l < 32 \<and> page_used (cow_pages t' l) \<and> page_id (cow_pages t' l) = ref_cow_page_id s"
      if "loc (rmap t) (cow_pages t) (if y = (c, i) then (p, i) else y) = Some l" for l
      using that ids [of y] by (auto simp: loc_iff [OF cw] P' split: if_splits)
    show "loc (rmap t) (cow_pages t) (if y = (c, i) then (p, i) else y) = None \<Longrightarrow> rmap t' y = None"
      using ids [of y] by (simp add: loc_None [OF cw])
  qed
  have "user_view t' = (user_view t)((c, i) := user_view t (p, i))"
  proof (intro ext)
    fix y j
    have "user_view t' y j = user_view t (if y = (c, i) then (p, i) else y) j"
      by (rule user_view_cong [OF l]) (simp add: P')
    then show "user_view t' y j = ((user_view t)((c, i) := user_view t (p, i))) y j" by simp
  qed
  moreover have "\<forall>y. y \<noteq> (c, i) \<longrightarrow> (rmap t' y = None) = (rmap t y = None)"
    using Some by (simp add: rm)
  moreover have "\<forall>l. page_used (cow_pages t' l) = page_used (cow_pages t l)" by (simp add: P')
  ultimately show ?thesis using ex wf' meta by blast
qed

lemma fork_pages_all:
  assumes "table_wf t" "p < COURSE_PROCESS_MAX_PROCESSES" "p_used (processes t p)"
    and "c < COURSE_PROCESS_MAX_PROCESSES" "p_used (processes t c)" "p_state (processes t c) \<noteq> DEAD" "p \<noteq> c"
    and "distinct is" "\<forall>i\<in>set is. i < COURSE_PROCESS_MAX_USER_PAGES \<and> rmap t (c, i) = None"
  shows "\<exists>t'. fork_pages p c is t = (True, t') \<and> table_wf t' \<and> same_meta t t' \<and>
     (\<forall>k. page_used (cow_pages t' k) = page_used (cow_pages t k)) \<and>
     (\<forall>y. user_view t' y = user_view t (if y \<in> Pair c ` set is then (p, snd y) else y))"
  using assms
proof (induction "is" arbitrary: t)
  case Nil
  then show ?case by simp
next
  case (Cons i js)
  have i8: "i < 8" "rmap t (c, i) = None" using Cons.prems(9) by simp_all
  obtain t1 where t1: "fork_page p c i t = Some t1" "table_wf t1" "same_meta t t1"
    "user_view t1 = (user_view t)((c, i) := user_view t (p, i))"
    "\<forall>k. page_used (cow_pages t1 k) = page_used (cow_pages t k)"
    "\<forall>y. y \<noteq> (c, i) \<longrightarrow> (rmap t1 y = None) = (rmap t y = None)"
    using fork_page_step [OF Cons.prems(1,2,3,4,5,6) i8 Cons.prems(7)] by blast
  have "\<forall>j\<in>set js. j < 8 \<and> rmap t1 (c, j) = None"
  proof
    fix j assume "j \<in> set js"
    then have "j < 8" "rmap t (c, j) = None" "(c, j) \<noteq> (c, i)" using Cons.prems(8,9) by auto
    then show "j < 8 \<and> rmap t1 (c, j) = None" using t1(6) by blast
  qed
  then obtain t2 where t2: "fork_pages p c js t1 = (True, t2)" "table_wf t2" "same_meta t1 t2"
    "\<forall>k. page_used (cow_pages t2 k) = page_used (cow_pages t1 k)"
    "\<forall>y. user_view t2 y = user_view t1 (if y \<in> Pair c ` set js then (p, snd y) else y)"
    using Cons.IH [OF t1(2)] Cons.prems same_metaD [OF t1(3)] by auto
  have "user_view t2 y = user_view t (if y \<in> Pair c ` set (i # js) then (p, snd y) else y)" for y
  proof -
    obtain a b where y: "y = (a, b)" by (cases y)
    show ?thesis using t2(5) [rule_format, of "(a, b)"] t1(4) Cons.prems(7,8) by (auto simp: y)
  qed
  then show ?case
    using t1(1,5) t2(1,2,4) same_meta_trans [OF t1(3) t2(3)] by auto
qed

text \<open>The slots that \<open>fork\<close> touches besides the pages keep the memory.\<close>

lemma upd_process_wf:
  assumes wf: "table_wf t"
    and h: "\<And>q. p_used (h q) = p_used q \<and> p_user_pages (h q) = p_user_pages q \<and> p_pid (h q) = p_pid q"
    and st: "p_used (processes t p) \<Longrightarrow> p_state (h (processes t p)) \<noteq> UNUSED \<and>
       (p_state (h (processes t p)) = DEAD \<longrightarrow> (\<forall>i<COURSE_PROCESS_MAX_USER_PAGES. rmap t (p, i) = None))"
  shows "table_wf (upd_process t p h)" "user_view (upd_process t p h) = user_view t"
proof -
  have rm: "rmap (upd_process t p h) = rmap t" by (rule rmap_upd_process) (use h in simp)
  show "user_view (upd_process t p h) = user_view t"
    by (simp add: user_view_def rm fun_eq_iff)
  have "slots_wf (processes (upd_process t p h)) (next_pid t)"
  proof (cases "p < 16")
    case True
    show ?thesis
      using st h [of "processes t p"] True
      by simp (intro slots_wf_upd [OF table_wfD(2) [OF wf]], auto simp: rmap_def)
  next
    case False
    then show ?thesis using table_wfD(2) [OF wf] by (simp add: slots_wf_def)
  qed
  then show "table_wf (upd_process t p h)"
    using table_wfD(1) [OF wf] by (simp add: table_wf_def rm)
qed

lemma fork_cases:
  assumes wf: "table_wf t"
  obtains (fail) t' where "course_process_fork t ppid name = (None, t')" "t' = t"
      "course_process_find t ppid = None \<or> alloc_process t = None \<or> next_pid t = 0 \<or>
         p_state (processes t (the (course_process_find t ppid))) \<in> {DEAD, ZOMBIE}"
  | (forked) p c t' where "course_process_fork t ppid name = (Some c, t')" "course_process_find t ppid = Some p"
      "p_state (processes t p) \<notin> {DEAD, ZOMBIE}" "c < COURSE_PROCESS_MAX_PROCESSES"
      "\<not> p_used (processes t c) \<or> p_state (processes t c) = DEAD" "next_pid t \<noteq> 0"
      "table_wf t'" "p_pid (processes t' c) = next_pid t" "p_ppid (processes t' c) = ppid"
      "p_state (processes t' c) = READY" "p_used (processes t' c)"
      "\<And>q. q \<noteq> c \<Longrightarrow> meta (processes t' q) = meta (processes t q)"
      "\<And>i. user_view t' (c, i) = user_view t (p, i)"
      "\<And>q i. q \<noteq> c \<Longrightarrow> user_view t' (q, i) = user_view t (q, i)"
      "\<And>k. page_used (cow_pages t' k) = page_used (cow_pages t k)" "next_pid t' = next_pid t + 1"
proof (cases "course_process_find t ppid")
  case None
  then show ?thesis by (intro fail) (auto simp: course_process_fork_def)
next
  case (Some p)
  show ?thesis
  proof (cases "p_state (processes t p) = DEAD \<or> p_state (processes t p) = ZOMBIE")
    case True
    then show ?thesis using Some by (intro fail) (auto simp: course_process_fork_def)
  next
    case alive: False
    have p: "p < 16" "p_used (processes t p)"
      using Some find_iff [OF table_wfD(2) [OF wf]] by auto
    let ?name = "case name of Some n \<Rightarrow> Some n | None \<Rightarrow> Some (p_name (processes t p))"
    show ?thesis
    proof (cases rule: spawn_cases [OF wf, of ppid ?name])
      case 1
      then show ?thesis using Some alive by (intro fail) (auto simp: course_process_fork_def)
    next
      case (2 c t1)
      have pc: "p \<noteq> c" using 2(4) p alive by auto
      let ?f = "\<lambda>d. d\<lparr>p_entry_pc := p_entry_pc (processes t1 p), p_user_sp := p_user_sp (processes t1 p),
          p_abi := p_abi (processes t1 p), p_address_space := p_address_space (processes t1 p),
          p_open_files := p_open_files (processes t1 p), p_map_count := p_map_count (processes t1 p),
          p_maps := (\<lambda>i. if i < p_map_count (processes t1 p) \<and> i < 8 then p_maps (processes t1 p) i else p_maps d i)\<rparr>"
      define t2 where "t2 = upd_process t1 c ?f"
      have t2: "table_wf t2" "user_view t2 = user_view t1"
        unfolding t2_def using 2 by (intro upd_process_wf; simp)+
      have rm2: "rmap t2 = rmap t" unfolding t2_def using rmap_upd_process [of ?f t1 c] 2(6) by simp
      obtain t3 where t3: "fork_pages p c [0..<8] t2 = (True, t3)" "table_wf t3" "same_meta t2 t3"
        "\<forall>k. page_used (cow_pages t3 k) = page_used (cow_pages t2 k)"
        "\<forall>y. user_view t3 y = user_view t2 (if y \<in> Pair c ` set [0..<8] then (p, snd y) else y)"
        using fork_pages_all [of t2 p c "[0..<8]"] t2(1) p pc 2 rm2 by (auto simp: t2_def)
      define t4 where "t4 = upd_process t3 c (\<lambda>d. d\<lparr>p_argv := copy_str 64 (Some (p_argv (processes t3 p)))\<rparr>)"
      have s3: "p_state (processes t3 c) = READY" "p_used (processes t3 c)" "p_pid (processes t3 c) = next_pid t"
        "p_ppid (processes t3 c) = ppid"
        using same_metaD [OF t3(3)] 2 by (simp_all add: t2_def)
      have t4: "table_wf t4" "user_view t4 = user_view t3"
        unfolding t4_def using t3(2) s3 by (intro upd_process_wf; simp)+
      have v1: "user_view t1 = user_view t" by (intro ext) (simp add: user_view_def 2(6,8))
      have big: "user_view t (q, i) = (\<lambda>_. None)" if "\<not> i < 8" for q i
        using that by (simp add: user_view_def loc_def rmap_def fun_eq_iff)
      have ex: "course_process_fork t ppid name = (Some c, t4)"
        using Some alive 2(1) t3(1) by (simp add: course_process_fork_def Let_def t2_def t4_def)
      have vc: "user_view t4 (c, i) = user_view t (p, i)" for i
        using big [of i] by (cases "i < 8") (auto simp: t4(2) t3(5) t2(2) v1)
      have vq: "user_view t4 (q, i) = user_view t (q, i)" if "q \<noteq> c" for q i
        using that by (auto simp: t4(2) t3(5) t2(2) v1)
      have mt: "meta (processes t4 q) = meta (processes t q)" if "q \<noteq> c" for q
        using that t3(3) 2(9) by (simp add: t4_def same_meta_def t2_def)
      have s4: "p_pid (processes t4 c) = next_pid t" "p_ppid (processes t4 c) = ppid"
        "p_state (processes t4 c) = READY" "p_used (processes t4 c)"
        using s3 by (simp_all add: t4_def)
      have pu: "page_used (cow_pages t4 k) = page_used (cow_pages t k)" for k
        using t3(4) 2(8) by (simp add: t4_def t2_def)
      have np: "next_pid t4 = next_pid t + 1" using same_metaD(6) [OF t3(3)] 2(10) by (simp add: t4_def t2_def)
      have "p_state (processes t p) \<notin> {DEAD, ZOMBIE}" using alive by simp
      then show ?thesis
        by (rule forked [OF ex Some _ 2(2,4,3) t4(1) s4 mt vc vq pu np])
    qed
  qed
qed

text \<open>C19: fork is a copy.  It is refused, with the table unchanged,
  exactly when the parent does not exist or is dead or a zombie, no slot is free or the pids are used
  up.  Otherwise the child gets a pid that was not in use, its parent's pid and the
  state READY; every byte it can read equals the parent's, every other process (the parent
  included) still reads what it read before, and no page has been copied or freed.\<close>

theorem fork_copies_memory:
  assumes wf: "table_wf t" and f: "course_process_fork t ppid name = (res, t')"
  shows "table_wf t' \<and> (case res of
       None \<Rightarrow> t' = t \<and> (course_process_find t ppid = None \<or> alloc_process t = None \<or> next_pid t = 0 \<or>
         p_state (processes t (the (course_process_find t ppid))) \<in> {DEAD, ZOMBIE})
     | Some c \<Rightarrow>
         p_state (processes t (the (course_process_find t ppid))) \<notin> {DEAD, ZOMBIE} \<and>
         course_process_find t ppid \<noteq> None \<and>
         course_process_find t (p_pid (processes t' c)) = None \<and>
         course_process_find t' (p_pid (processes t' c)) = Some c \<and>
         p_ppid (processes t' c) = ppid \<and> p_state (processes t' c) = READY \<and>
         (\<forall>i off. course_process_read_user_byte t' (p_pid (processes t' c)) i off =
                    course_process_read_user_byte t ppid i off) \<and>
         (\<forall>pid i off. pid \<noteq> p_pid (processes t' c) \<longrightarrow>
            course_process_read_user_byte t' pid i off = course_process_read_user_byte t pid i off) \<and>
         (\<forall>k. page_used (cow_pages t' k) = page_used (cow_pages t k)))"
proof (cases rule: fork_cases [OF wf, of ppid name])
  case (1 t'')
  then show ?thesis using f wf by simp
next
  case (2 p c t'')
  then have r: "res = Some c" "t'' = t'" using f by auto
  note g = 2 [unfolded r(2)]
  note sw = table_wfD(2) [OF wf] and sw' = table_wfD(2) [OF g(7)]
  have fresh: "course_process_find t (next_pid t) = None"
  proof (rule ccontr)
    assume "course_process_find t (next_pid t) \<noteq> None"
    then obtain q where "q < 16" "p_used (processes t q)" "p_pid (processes t q) = next_pid t"
      using find_iff [OF sw] by auto
    then show False using slots_wfD(2) [OF sw] g(6) by force
  qed
  have fc: "course_process_find t' (next_pid t) = Some c"
    using find_iff [OF sw'] g by simp
  have mt: "p_used (processes t' q) = p_used (processes t q)" "p_pid (processes t' q) = p_pid (processes t q)"
    if "q \<noteq> c" for q
    using meta_eqD [OF g(12) [OF that]] by simp_all
  have other: "course_process_read_user_byte t' pid i off = course_process_read_user_byte t pid i off"
    if ne: "pid \<noteq> next_pid t" for pid i off
  proof (cases "course_process_find t' pid")
    case (Some q)
    then have q: "q \<noteq> c" "q < 16" "p_used (processes t' q)" "p_pid (processes t' q) = pid"
      using ne g(8) find_iff [OF sw'] by auto
    then have "course_process_find t pid = Some q" using mt find_iff [OF sw] by simp
    then show ?thesis using Some g(14) q by (simp add: read_user_byte_view)
  next
    case None
    have "course_process_find t pid = None \<or> course_process_find t pid = Some c"
    proof (cases "course_process_find t pid")
      case (Some q)
      then have "q = c"
        using mt [of q] find_iff [OF sw, of pid q] find_iff [OF sw', of pid q] None by auto
      with Some show ?thesis by simp
    qed simp
    moreover have "user_view t (c, i) = (\<lambda>_. None)" if "course_process_find t pid = Some c"
    proof -
      have "p_used (processes t c)" "p_state (processes t c) = DEAD"
        using that find_iff [OF sw] g(5) by auto
      then have "rmap t (c, i) = None" using slots_wfD(4) [OF sw] by (auto simp: rmap_def)
      then show ?thesis by (auto simp: user_view_def loc_def)
    qed
    ultimately show ?thesis using None by (auto simp: read_user_byte_view)
  qed
  have child: "course_process_read_user_byte t' (next_pid t) i off = course_process_read_user_byte t ppid i off" for i off
    using fc g(2,13) by (simp add: read_user_byte_view)
  show ?thesis
    using g(2,3) g(7-11,15) r fresh fc other child by simp
qed

end
