(* ===== verification/ProcessLifecycle.thy ===== *)
theory ProcessLifecycle
  imports ProcessInvariant
begin

text \<open>
  The life of a process (\<open>src/myCPU/guest/kernel/course_process.c\<close>): release of its pages by
  \<open>wait\<close>, and the transition system of all table operations with its invariant.
\<close>

subsection \<open>Releasing pages\<close>

lemma release_user_page_step:
  assumes wf: "table_wf t" and p: "p < COURSE_PROCESS_MAX_PROCESSES" "p_used (processes t p)"
    and i: "i < COURSE_PROCESS_MAX_USER_PAGES"
  shows "table_wf (release_user_page p i t) \<and> same_meta t (release_user_page p i t) \<and>
     user_view (release_user_page p i t) = (user_view t)((p, i) := (\<lambda>_. None)) \<and>
     rmap (release_user_page p i t) = (rmap t)((p, i) := None)"
proof (cases "rmap t (p, i)")
  case None
  then have "release_user_page p i t = t"
    using p i by (auto simp: release_user_page_def rmap_def split: if_splits)
  moreover have "user_view t (p, i) = (\<lambda>_. None)" using None by (simp add: user_view_def loc_def fun_eq_iff)
  ultimately show ?thesis using wf None by (metis fun_upd_triv same_meta_refl)
next
  case (Some r)
  note m = mapped_not_dead [OF wf Some] and cw = table_wfD(1) [OF wf]
  obtain k where k: "k < 32" "page_used (cow_pages t k)" "page_id (cow_pages t k) = ref_cow_page_id r"
    using cow_wfD(4) [OF cw Some] by blast
  have f: "find_cow_page_by_id t (ref_cow_page_id r) = Some k"
    using k cow_lookup_iff [OF cw] by (simp add: find_cow_page_lookup)
  have "finite (holders (rmap t) (ref_cow_page_id r))" "(p, i) \<in> holders (rmap t) (ref_cow_page_id r)"
    using holders_range [OF cow_wfD(1) [OF cw]] in_holders [of "rmap t" "(p, i)" r, OF Some] by auto
  then have "card (holders (rmap t) (ref_cow_page_id r)) \<noteq> 0" by auto
  then have nz: "page_refcount (cow_pages t k) \<noteq> 0"
    using cow_wfD(2) [OF cw k(1)] k by (auto simp: page_counts_def)
  let ?pg = "if page_refcount (cow_pages t k) = 1 then clear_cow_page
     else (cow_pages t k)\<lparr>page_refcount := page_refcount (cow_pages t k) - 1\<rparr>"
  define t1 where "t1 = release_cow_page_ref t (ref_cow_page_id r)"
  have t1: "processes t1 = processes t" "next_pid t1 = next_pid t" "next_cow_page_id t1 = next_cow_page_id t"
    "cow_pages t1 = (cow_pages t)(k := ?pg)"
    using nz by (auto simp: t1_def release_cow_page_ref_def f Let_def)
  define t' where "t' = release_user_page p i t"
  have t': "t' = upd_ref t1 p i (\<lambda>_. clear_user_page_ref)"
    using m by (simp add: t'_def release_user_page_def t1_def)
  have rm: "rmap t' = (rmap t)((p, i) := None)"
    using rmap_upd_ref [of p i t1 "\<lambda>_. clear_user_page_ref"] p i rmap_cong [OF t1(1)]
    by (simp add: t' t1 clear_user_page_ref_def)
  have P: "cow_pages t' = (cow_pages t)(k := ?pg)" "next_cow_page_id t' = next_cow_page_id t" "next_pid t' = next_pid t"
    by (simp_all add: t' t1)
  have pg: "page_refcount (cow_pages t k) = 1 \<Longrightarrow> \<not> page_used ?pg"
      "page_refcount (cow_pages t k) \<noteq> 1 \<Longrightarrow> page_used ?pg \<and> page_id ?pg = page_id (cow_pages t k) \<and>
         page_refcount ?pg = page_refcount (cow_pages t k) - 1"
    using k by (simp_all add: clear_cow_page_def)
  have wf2: "cow_wf (rmap t') (cow_pages t') (next_cow_page_id t')"
    unfolding rm P by (rule cow_wf_drop [OF cw Some k pg])
  have "slots_wf (processes (upd_ref t p i (\<lambda>_. clear_user_page_ref))) (next_pid t)"
    using p by (intro slots_wf_upd_ref [OF table_wfD(2) [OF wf]]) (auto simp: clear_user_page_ref_def)
  then have "slots_wf (processes t') (next_pid t')" by (simp add: P) (simp add: t' processes_upd_ref t1)
  with wf2 have wf': "table_wf t'" by (simp add: table_wf_def)
  have l: "loc (rmap t') (cow_pages t') = (loc (rmap t) (cow_pages t))((p, i) := None)"
    unfolding rm P by (rule loc_drop [OF cw Some k pg])
  have "user_view t' y j = ((user_view t)((p, i) := (\<lambda>_. None))) y j" for y j
  proof (cases "y = (p, i)")
    case False
    have "user_view t' y j = user_view t y j"
    proof (rule user_view_cong)
      show eq: "loc (rmap t') (cow_pages t') y = loc (rmap t) (cow_pages t) y" using l False by simp
      fix l assume "loc (rmap t) (cow_pages t) y = Some l"
      then have "page_used (cow_pages t' l)" using eq loc_iff [OF wf2] by auto
      then show "page_data (cow_pages t' l) j = page_data (cow_pages t l) j"
        by (auto simp: P clear_cow_page_def split: if_splits)
    qed
    then show ?thesis using False by simp
  qed (simp add: user_view_def l)
  moreover have "same_meta t t'"
    by (simp add: same_meta_def P) (simp add: t' processes_upd_ref t1 meta_def)
  ultimately show ?thesis using wf' rm by (simp add: t'_def fun_eq_iff)
qed

lemma release_pages_all:
  assumes "table_wf t" "p < COURSE_PROCESS_MAX_PROCESSES" "p_used (processes t p)"
    "\<forall>i\<in>set is. i < COURSE_PROCESS_MAX_USER_PAGES"
  shows "table_wf (fold (release_user_page p) is t) \<and> same_meta t (fold (release_user_page p) is t) \<and>
     (\<forall>y. user_view (fold (release_user_page p) is t) y = (if y \<in> Pair p ` set is then (\<lambda>_. None) else user_view t y)) \<and>
     (\<forall>y. rmap (fold (release_user_page p) is t) y = (if y \<in> Pair p ` set is then None else rmap t y))"
  using assms
proof (induction "is" arbitrary: t)
  case Nil
  then show ?case by simp
next
  case (Cons i js)
  note s = release_user_page_step [OF Cons.prems(1,2,3), of i]
  have IH: "table_wf (fold (release_user_page p) js (release_user_page p i t)) \<and>
     same_meta (release_user_page p i t) (fold (release_user_page p) js (release_user_page p i t)) \<and>
     (\<forall>y. user_view (fold (release_user_page p) js (release_user_page p i t)) y =
        (if y \<in> Pair p ` set js then (\<lambda>_. None) else user_view (release_user_page p i t) y)) \<and>
     (\<forall>y. rmap (fold (release_user_page p) js (release_user_page p i t)) y =
        (if y \<in> Pair p ` set js then None else rmap (release_user_page p i t) y))"
    using s Cons.prems same_metaD(1) [of t "release_user_page p i t" p] by (intro Cons.IH) auto
  have "same_meta t (fold (release_user_page p) (i # js) t)"
    using IH s Cons.prems same_meta_trans by auto
  then show ?case using IH s Cons.prems(4) by auto
qed

lemma release_process_user_pages_spec:
  assumes "table_wf t" "p < COURSE_PROCESS_MAX_PROCESSES" "p_used (processes t p)"
  shows "table_wf (release_process_user_pages t p)" "same_meta t (release_process_user_pages t p)"
    "user_view (release_process_user_pages t p) (q, i) = (if q = p then (\<lambda>_. None) else user_view t (q, i))"
    "rmap (release_process_user_pages t p) (p, i) = None"
proof -
  note r = release_pages_all [OF assms, of "[0..<8]"]
  show "table_wf (release_process_user_pages t p)" "same_meta t (release_process_user_pages t p)"
    using r by (simp_all add: release_process_user_pages_def)
  have big: "rmap t' (q, i) = None" if "\<not> i < 8" for t' q using that by (simp add: rmap_def)
  have view: "user_view t (q, i) = (\<lambda>_. None)" if "\<not> i < 8" for q
    using big [OF that, of t q] by (simp add: user_view_def loc_def fun_eq_iff)
  show "user_view (release_process_user_pages t p) (q, i) = (if q = p then (\<lambda>_. None) else user_view t (q, i))"
    using r view [of q] by (cases "i < 8") (auto simp: release_process_user_pages_def image_iff)
  show "rmap (release_process_user_pages t p) (p, i) = None"
    using r big [of "release_process_user_pages t p" p] by (cases "i < 8") (auto simp: release_process_user_pages_def image_iff)
qed

lemma upd_process_same:
  assumes "\<And>q. p_used (h q) = p_used q \<and> p_pid (h q) = p_pid q"
  shows "course_process_find (upd_process t p h) = course_process_find t"
proof -
  have "p_used (processes (upd_process t p h) i) = p_used (processes t i)"
    "p_pid (processes (upd_process t p h) i) = p_pid (processes t i)" for i
    using assms by auto
  then show ?thesis unfolding course_process_find_def [abs_def] by (simp only:)
qed

lemma waitpid_cases:
  assumes wf: "table_wf t"
  obtains (none) "course_process_waitpid t ppid cpid = (ERR_NO_CHILD, None, t)"
      "\<And>c. course_process_find t cpid = Some c \<Longrightarrow>
         p_ppid (processes t c) \<noteq> ppid \<or> p_state (processes t c) \<noteq> ZOMBIE"
  | (reaped) c t' where "course_process_waitpid t ppid cpid = (PROCESS_OK, Some (p_exit_code (processes t c)), t')"
      "course_process_find t cpid = Some c" "p_ppid (processes t c) = ppid" "p_state (processes t c) = ZOMBIE"
      "t' = upd_process (release_process_user_pages t c) c (\<lambda>q. q\<lparr>p_state := DEAD\<rparr>)"
proof (cases "course_process_find t cpid")
  case None
  then show ?thesis by (intro none) (auto simp: course_process_waitpid_def)
next
  case (Some c)
  show ?thesis
  proof (cases "p_ppid (processes t c) = ppid \<and> p_state (processes t c) = ZOMBIE")
    case True
    then show ?thesis using Some by (intro reaped) (auto simp: course_process_waitpid_def)
  next
    case False
    then show ?thesis using Some by (intro none) (auto simp: course_process_waitpid_def)
  qed
qed

lemma reap_spec:
  assumes wf: "table_wf t" and c: "course_process_find t cpid = Some c"
    and t': "t' = upd_process (release_process_user_pages t c) c (\<lambda>q. q\<lparr>p_state := DEAD\<rparr>)"
  shows "table_wf t'" "course_process_find t' = course_process_find t"
    "user_view t' (q, i) = (if q = c then (\<lambda>_. None) else user_view t (q, i))" "p_state (processes t' c) = DEAD"
proof -
  let ?r = "release_process_user_pages t c"
  have c': "c < 16" "p_used (processes t c)" using c find_iff [OF table_wfD(2) [OF wf]] by auto
  note r = release_process_user_pages_spec [OF wf c']
  show "table_wf t'" unfolding t' by (rule upd_process_wf [OF r(1)]) (use r(4) in auto)
  show "course_process_find t' = course_process_find t"
    using upd_process_same [of "\<lambda>q. q\<lparr>p_state := DEAD\<rparr>" ?r c] same_meta_find [OF r(2)] by (simp add: t')
  have "user_view t' = user_view ?r" unfolding t' by (rule upd_process_wf [OF r(1)]) (use r(4) in auto)
  then show "user_view t' (q, i) = (if q = c then (\<lambda>_. None) else user_view t (q, i))" using r(3) by simp
  show "p_state (processes t' c) = DEAD" by (simp add: t')
qed

lemma waitpid_exact:
  assumes wf: "table_wf t" and w: "course_process_waitpid t ppid cpid = (res, status, t')"
  shows "table_wf t' \<and>
      (if (\<exists>c. course_process_find t cpid = Some c \<and> p_ppid (processes t c) = ppid \<and> p_state (processes t c) = ZOMBIE)
       then res = PROCESS_OK \<and>
            (\<exists>c. course_process_find t cpid = Some c \<and> status = Some (p_exit_code (processes t c)) \<and>
                 p_state (processes t' c) = DEAD) \<and>
            (\<forall>i off. course_process_read_user_byte t' cpid i off = None) \<and>
            (\<forall>pid i off. pid \<noteq> cpid \<longrightarrow>
               course_process_read_user_byte t' pid i off = course_process_read_user_byte t pid i off) \<and>
            course_process_waitpid t' ppid cpid = (ERR_NO_CHILD, None, t')
       else res = ERR_NO_CHILD \<and> status = None \<and> t' = t)"
proof (cases rule: waitpid_cases [OF wf, of ppid cpid])
  case 1
  then show ?thesis using w wf by auto
next
  case (2 c t'')
  then have e: "t'' = t'" "res = PROCESS_OK" "status = Some (p_exit_code (processes t c))" using w by auto
  note r = reap_spec [OF wf 2(2) 2(5) [unfolded e(1)]]
  have "course_process_read_user_byte t' cpid i off = None" for i off
    using 2(2) by (simp add: read_user_byte_view r)
  moreover have "course_process_read_user_byte t' pid i off = course_process_read_user_byte t pid i off"
    if "pid \<noteq> cpid" for pid i off
  proof (cases "course_process_find t pid")
    case (Some q)
    then have "q \<noteq> c" using that 2(2) find_iff [OF table_wfD(2) [OF wf]] by metis
    then show ?thesis using Some by (simp add: read_user_byte_view r)
  qed (simp add: read_user_byte_view r)
  moreover have "course_process_waitpid t' ppid cpid = (ERR_NO_CHILD, None, t')"
    using 2(2) r(2,4) by (simp add: course_process_waitpid_def)
  ultimately show ?thesis using e 2 r(1,4) by simp
qed

lemma wait_finds_first:
  fixes t ppid
  assumes wf: "table_wf t"
  defines "zombie \<equiv> \<lambda>c. c < 16 \<and> p_used (processes t c) \<and> p_ppid (processes t c) = ppid \<and> p_state (processes t c) = ZOMBIE"
  shows "if (\<exists>c. zombie c)
     then course_process_wait t ppid = course_process_waitpid t ppid (p_pid (processes t (LEAST c. zombie c))) \<and>
          fst (course_process_wait t ppid) = PROCESS_OK
     else course_process_wait t ppid = (ERR_NO_CHILD, None, t)"
proof (cases "\<exists>c. zombie c")
  case True
  let ?c = "LEAST c. zombie c"
  have z: "zombie ?c" using True by (metis LeastI)
  have "first_index (\<lambda>i. p_used (processes t i) \<and> p_ppid (processes t i) = ppid \<and> p_state (processes t i) = ZOMBIE) 16 = Some ?c"
    unfolding first_index_Some_iff
  proof (intro conjI allI impI)
    show "?c < 16" "p_used (processes t ?c)" "p_ppid (processes t ?c) = ppid" "p_state (processes t ?c) = ZOMBIE"
      using z by (simp_all add: zombie_def)
    fix j assume j: "j < ?c"
    then have "\<not> zombie j" by (rule not_less_Least)
    moreover have "j < 16" using j z by (simp add: zombie_def)
    ultimately show "\<not> (p_used (processes t j) \<and> p_ppid (processes t j) = ppid \<and> p_state (processes t j) = ZOMBIE)"
      by (simp add: zombie_def)
  qed
  then have w: "course_process_wait t ppid = course_process_waitpid t ppid (p_pid (processes t ?c))"
    by (simp add: course_process_wait_def)
  have "course_process_find t (p_pid (processes t ?c)) = Some ?c"
    using z find_iff [OF table_wfD(2) [OF wf]] by (simp add: zombie_def)
  then have "fst (course_process_waitpid t ppid (p_pid (processes t ?c))) = PROCESS_OK"
    using z by (simp add: course_process_waitpid_def zombie_def)
  then show ?thesis using True w by simp
next
  case False
  then have "first_index (\<lambda>i. p_used (processes t i) \<and> p_ppid (processes t i) = ppid \<and> p_state (processes t i) = ZOMBIE) 16 = None"
    by (auto simp: first_index_None_iff zombie_def)
  then show ?thesis using False by (simp add: course_process_wait_def)
qed

text \<open>C20: waiting reaps every zombie child exactly once.  \<open>waitpid\<close> succeeds exactly when the named process
  is a child of the caller that has exited, and then reports its exit code; the child is dead, none of its
  pages can be read any more, every other process reads what it read before, and waiting for the same child
  again fails.  In every other case it reports \<open>ERR_NO_CHILD\<close> and changes nothing.  \<open>wait\<close> reaps the zombie
  child in the first slot, and reports \<open>ERR_NO_CHILD\<close> exactly when no child of the caller is a zombie.\<close>

theorem waitpid_reaps_once:
  assumes wf: "table_wf t" and w: "course_process_waitpid t ppid cpid = (res, status, t')"
  shows "table_wf t' \<and>
      (if (\<exists>c. course_process_find t cpid = Some c \<and> p_ppid (processes t c) = ppid \<and> p_state (processes t c) = ZOMBIE)
       then res = PROCESS_OK \<and>
            (\<exists>c. course_process_find t cpid = Some c \<and> status = Some (p_exit_code (processes t c)) \<and>
                 p_state (processes t' c) = DEAD) \<and>
            (\<forall>i off. course_process_read_user_byte t' cpid i off = None) \<and>
            (\<forall>pid i off. pid \<noteq> cpid \<longrightarrow>
               course_process_read_user_byte t' pid i off = course_process_read_user_byte t pid i off) \<and>
            course_process_waitpid t' ppid cpid = (ERR_NO_CHILD, None, t')
       else res = ERR_NO_CHILD \<and> status = None \<and> t' = t) \<and>
      (let zombie = \<lambda>c. c < 16 \<and> p_used (processes t c) \<and> p_ppid (processes t c) = ppid \<and> p_state (processes t c) = ZOMBIE in
       if (\<exists>c. zombie c)
       then course_process_wait t ppid = course_process_waitpid t ppid (p_pid (processes t (LEAST c. zombie c))) \<and>
            fst (course_process_wait t ppid) = PROCESS_OK
       else course_process_wait t ppid = (ERR_NO_CHILD, None, t))"
proof -
  note x = waitpid_exact [OF wf w]
  show ?thesis unfolding Let_def
    by (rule conjI [OF conjunct1 [OF x] conjI [OF conjunct2 [OF x] wait_finds_first [OF wf, of ppid]]])
qed

subsection \<open>The table as a transition system\<close>

lemma table_init_wf: "table_wf course_process_table_init"
proof -
  have "rmap course_process_table_init = (\<lambda>_. None)"
    by (auto simp: rmap_def fun_eq_iff course_process_table_init_def clear_process_def)
  then show ?thesis
    by (simp add: table_wf_def course_process_table_init_def cow_wf_def slots_wf_def
        clear_process_def clear_cow_page_def page_counts_def)
qed

lemma alloc_page_map_wf:
  assumes wf: "table_wf t" and p: "p < COURSE_PROCESS_MAX_PROCESSES" "p_used (processes t p)"
      "p_state (processes t p) \<noteq> DEAD"
    and i: "i < COURSE_PROCESS_MAX_USER_PAGES" "\<not> ref_mapped (p_user_pages (processes t p) i)"
    and k: "k < COURSE_PROCESS_MAX_COW_PAGES" "\<not> page_used (cow_pages t k)" "next_cow_page_id t \<noteq> 0"
    and r: "ref_mapped r" "ref_cow_page_id r = next_cow_page_id t"
    and pg: "page_used pg" "page_id pg = next_cow_page_id t" "page_refcount pg = 1"
    and t': "processes t' = processes (upd_ref t p i (\<lambda>_. r))" "next_pid t' = next_pid t"
      "next_cow_page_id t' = next_cow_page_id t + 1" "cow_pages t' = (cow_pages t)(k := pg)"
  shows "table_wf t'" "loc (rmap t') (cow_pages t') = (loc (rmap t) (cow_pages t))((p, i) := Some k)"
proof -
  have rm: "rmap t' = (rmap t)((p, i) := Some r)"
    using rmap_cong [OF t'(1)] rmap_upd_ref [OF p(1) i(1) p(2)] r by simp
  have x: "rmap t (p, i) = None" "(p, i) \<in> slot_range"
    using i p by (auto simp: rmap_def slot_range_def)
  have wf2: "cow_wf (rmap t') (cow_pages t') (next_cow_page_id t')"
    unfolding rm t' by (rule cow_wf_fresh [OF table_wfD(1) [OF wf] x k pg r(2)])
  have "slots_wf (processes t') (next_pid t')"
    unfolding t' using p slots_wf_upd_ref [OF table_wfD(2) [OF wf] p(2,1)] by simp
  with wf2 show "table_wf t'" by (simp add: table_wf_def)
  show "loc (rmap t') (cow_pages t') = (loc (rmap t) (cow_pages t))((p, i) := Some k)"
    unfolding rm t'
    by (rule loc_fresh [OF table_wfD(1) [OF wf] wf2 [unfolded rm t'(3,4)] k(1,2) pg(1)]) (use pg r in simp)
qed

lemma map_user_page_cases:
  assumes wf: "table_wf t"
    and live: "\<And>p. course_process_find t pid = Some p \<Longrightarrow> p_state (processes t p) \<noteq> DEAD"
  obtains (fail) "course_process_map_user_page t pid i fill = (False, t)"
  | (mapped) p t' where "course_process_map_user_page t pid i fill = (True, t')"
      "course_process_find t pid = Some p" "i < COURSE_PROCESS_MAX_USER_PAGES" "rmap t (p, i) = None" "table_wf t'"
      "same_meta t t'" "user_view t' = (user_view t)((p, i) :=
         (\<lambda>off. if off < COURSE_PROCESS_USER_PAGE_SIZE then Some fill else None))"
proof (cases "course_process_find t pid")
  case None
  then show ?thesis by (intro fail) (simp add: course_process_map_user_page_def)
next
  case (Some p)
  then have p: "p < 16" "p_used (processes t p)" using find_iff [OF table_wfD(2) [OF wf]] by auto
  show ?thesis
  proof (cases "i < 8 \<and> \<not> ref_mapped (p_user_pages (processes t p) i)")
    case False
    then show ?thesis using Some by (intro fail) (auto simp: course_process_map_user_page_def)
  next
    case i: True
    show ?thesis
    proof (cases rule: alloc_cow_page_cases [of t])
      case none
      then show ?thesis using Some i by (intro fail) (auto simp: course_process_map_user_page_def)
    next
      case (some k t1)
      let ?pg = "(cow_pages t1 k)\<lparr>page_data := (\<lambda>j. if j < 4096 then fill else page_data (cow_pages t1 k) j)\<rparr>"
      let ?r = "\<lparr>ref_mapped = True, ref_cow_page_id = next_cow_page_id t, ref_writable = True, ref_cow = False\<rparr>"
      define t' where "t' = snd (course_process_map_user_page t pid i fill)"
      have ex: "course_process_map_user_page t pid i fill = (True, t')"
        using Some i some by (auto simp: course_process_map_user_page_def t'_def Let_def)
      have t': "processes t' = processes (upd_ref t p i (\<lambda>_. ?r))" "next_pid t' = next_pid t"
        "next_cow_page_id t' = next_cow_page_id t + 1" "cow_pages t' = (cow_pages t)(k := ?pg)"
        using Some i some by (auto simp: course_process_map_user_page_def t'_def Let_def processes_upd_ref)
      have pg: "page_used ?pg" "page_id ?pg = next_cow_page_id t" "page_refcount ?pg = 1" using some by simp_all
      have fresh: "table_wf t'" "loc (rmap t') (cow_pages t') = (loc (rmap t) (cow_pages t))((p, i) := Some k)"
        using alloc_page_map_wf [OF wf p live [OF Some] _ _ some(2,3,4) _ _ pg t'] i by simp_all
      have "user_view t' y = ((user_view t)((p, i) := (\<lambda>off. if off < 4096 then Some fill else None))) y" for y
      proof (cases "y = (p, i)")
        case True
        have "page_data (cow_pages t' k) = (\<lambda>j. if j < 4096 then fill else page_data (cow_pages t1 k) j)"
          by (simp add: t'(4))
        then show ?thesis using True by (simp add: user_view_def fresh(2) fun_eq_iff)
      next
        case False
        have "user_view t' y j = user_view t y j" for j
        proof (rule user_view_cong)
          show "loc (rmap t') (cow_pages t') y = loc (rmap t) (cow_pages t) y" using False fresh by simp
          fix l assume "loc (rmap t) (cow_pages t) y = Some l"
          then have "l \<noteq> k" using some loc_iff [OF table_wfD(1) [OF wf]] by auto
          then show "page_data (cow_pages t' l) j = page_data (cow_pages t l) j" by (simp add: t')
        qed
        then show ?thesis using False by (simp add: fun_eq_iff)
      qed
      moreover have "same_meta t t'" by (simp add: same_meta_def t' processes_upd_ref meta_def)
      moreover have "rmap t (p, i) = None" using i by (simp add: rmap_def)
      ultimately show ?thesis using ex Some i fresh(1) by (intro mapped) (auto simp: fun_eq_iff)
    qed
  qed
qed

text \<open>
  The operations of the module that change the table, as calls with their arguments, and a sequence of
  them on a fresh table.
\<close>

datatype process_call =
    Call_Spawn u32 "cstr option"
  | Call_Fork u32 "cstr option"
  | Call_Set_State u32 process_state
  | Call_Set_Abi u32 process_abi
  | Call_Exit u32 i32
  | Call_Kill u32 u32
  | Call_Waitpid u32 u32
  | Call_Wait u32
  | Call_Exec u32 "cstr option" "cstr option"
  | Call_Exec_Image u32 "cstr option" "u8 list option" "cstr option"
  | Call_Record_Crash u32 u64 u64 u64 "cstr option"
  | Call_Map_User_Page u32 nat u8
  | Call_Write_User_Byte u32 nat nat u8
  | Call_Cow_Store_Fault u32 nat nat

fun process_call_effect :: "process_call \<Rightarrow> process_table \<Rightarrow> process_table" where
  "process_call_effect (Call_Spawn ppid name) t = snd (course_process_spawn t ppid name)"
| "process_call_effect (Call_Fork ppid name) t = snd (course_process_fork t ppid name)"
| "process_call_effect (Call_Set_State pid st) t = snd (course_process_set_state t pid st)"
| "process_call_effect (Call_Set_Abi pid abi) t = snd (course_process_set_abi t pid abi)"
| "process_call_effect (Call_Exit pid code) t = snd (course_process_exit t pid code)"
| "process_call_effect (Call_Kill caller target) t = snd (course_process_kill t caller target)"
| "process_call_effect (Call_Waitpid ppid cpid) t = snd (snd (course_process_waitpid t ppid cpid))"
| "process_call_effect (Call_Wait ppid) t = snd (snd (course_process_wait t ppid))"
| "process_call_effect (Call_Exec pid prog argv) t = snd (course_process_exec t pid prog argv)"
| "process_call_effect (Call_Exec_Image pid name img argv) t = snd (course_process_exec_image t pid name img argv)"
| "process_call_effect (Call_Record_Crash pid sepc scause stval reason) t =
     snd (course_process_record_crash t pid sepc scause stval reason)"
| "process_call_effect (Call_Map_User_Page pid i fill) t = snd (course_process_map_user_page t pid i fill)"
| "process_call_effect (Call_Write_User_Byte pid i off v) t = snd (course_process_write_user_byte t pid i off v)"
| "process_call_effect (Call_Cow_Store_Fault pid i off) t = snd (course_process_handle_cow_store_fault t pid i off)"

definition process_run :: "process_call list \<Rightarrow> process_table" where
  "process_run calls = fold process_call_effect calls course_process_table_init"

text \<open>
  Two uses that the code accepts and that lose pages: \<open>set_state\<close> to DEAD, which leaves the pages
  mapped, and \<open>map_user_page\<close> into a DEAD process; the slot is then reused without a release
  (\<open>dead_mapping_leaks_page\<close>).  A careful sequence of calls has neither.
\<close>

fun careful_call :: "process_table \<Rightarrow> process_call \<Rightarrow> bool" where
  "careful_call t (Call_Set_State pid st) = (st \<noteq> DEAD)"
| "careful_call t (Call_Map_User_Page pid i fill) =
     (case course_process_find t pid of None \<Rightarrow> True | Some p \<Rightarrow> p_state (processes t p) \<noteq> DEAD)"
| "careful_call t _ = True"

fun careful_calls :: "process_table \<Rightarrow> process_call list \<Rightarrow> bool" where
  "careful_calls t [] = True"
| "careful_calls t (c # cs) = (careful_call t c \<and> careful_calls (process_call_effect c t) cs)"

subsection \<open>Pids, whatever the calls\<close>

definition ids :: "process_table \<Rightarrow> nat \<Rightarrow> u32 option" where
  "ids t p = (if p_used (processes t p) then Some (p_pid (processes t p)) else None)"

definition ids_wf :: "process_table \<Rightarrow> bool" where
  "ids_wf t \<longleftrightarrow> (\<forall>p n. ids t p = Some n \<longrightarrow> n \<noteq> 0 \<and> (next_pid t = 0 \<or> n < next_pid t)) \<and>
     (\<forall>p q n. ids t p = Some n \<and> ids t q = Some n \<longrightarrow> p = q)"

definition same_ids :: "process_table \<Rightarrow> process_table \<Rightarrow> bool" where
  "same_ids t t' \<longleftrightarrow> ids t' = ids t \<and> next_pid t' = next_pid t"

lemma same_ids_wf: "same_ids t t' \<Longrightarrow> ids_wf t \<Longrightarrow> ids_wf t'"
  by (simp add: same_ids_def ids_wf_def)

lemma same_ids_refl [simp]: "same_ids t t"
  by (simp add: same_ids_def)

lemma same_ids_trans: "same_ids t t' \<Longrightarrow> same_ids t' t'' \<Longrightarrow> same_ids t t''"
  by (simp add: same_ids_def)

lemma same_ids_upd_process:
  "(\<And>q. p_used (h q) = p_used q \<and> p_pid (h q) = p_pid q) \<Longrightarrow> same_ids t (upd_process t p h)"
  by (auto simp: same_ids_def ids_def fun_eq_iff)

lemma same_ids_upd [simp]:
  "same_ids t (upd_cow_page t' k g) = same_ids t t'" "same_ids t (upd_stats t' s) = same_ids t t'"
  "same_ids t (upd_ref t' p i f) = same_ids t t'" "same_ids t (t'\<lparr>next_cow_page_id := n\<rparr>) = same_ids t t'"
proof -
  have "ids (upd_ref t' p i f) = ids t'" by (auto simp: ids_def fun_eq_iff processes_upd_ref)
  then show "same_ids t (upd_ref t' p i f) = same_ids t t'" by (simp add: same_ids_def)
  have "ids (upd_cow_page t' k g) = ids t'" "ids (upd_stats t' s) = ids t'" "ids (t'\<lparr>next_cow_page_id := n\<rparr>) = ids t'"
    by (simp_all add: ids_def fun_eq_iff)
  moreover have "next_pid (upd_stats t' s) = next_pid t'" by simp
  ultimately show "same_ids t (upd_cow_page t' k g) = same_ids t t'" "same_ids t (upd_stats t' s) = same_ids t t'"
    "same_ids t (t'\<lparr>next_cow_page_id := n\<rparr>) = same_ids t t'"
    by (simp_all add: same_ids_def)
qed

lemma same_ids_alloc: "same_ids t (snd (alloc_cow_page t))"
  by (auto simp: alloc_cow_page_def Let_def split: option.split)

lemma same_ids_release: "same_ids t (release_process_user_pages t p)"
proof -
  have c: "same_ids t' (release_cow_page_ref t' g)" for t' g
    by (auto simp: release_cow_page_ref_def Let_def split: option.split)
  then have "same_ids t' (release_user_page p i t')" for t' i by (simp add: release_user_page_def)
  then have "same_ids t (fold (release_user_page p) is t)" for "is"
    by (induction "is" arbitrary: t) (auto intro: same_ids_trans)
  then show ?thesis by (simp add: release_process_user_pages_def)
qed

lemma same_ids_duplicate: "same_ids t (snd (duplicate_cow_page t p i))"
proof (cases "alloc_cow_page t")
  case (Pair a t1)
  then have "same_ids t t1" using same_ids_alloc [of t] by simp
  then show ?thesis
    by (auto simp: duplicate_cow_page_def Let_def Pair split: option.split)
qed

lemma ids_wf_spawn: "ids_wf t \<Longrightarrow> ids_wf (snd (course_process_spawn t ppid name))"
proof -
  assume wf: "ids_wf t"
  show ?thesis
  proof (cases "fst (course_process_spawn t ppid name)")
    case None
    then show ?thesis using wf by (auto simp: course_process_spawn_def split: option.splits if_splits)
  next
    case (Some p)
    let ?t = "snd (course_process_spawn t ppid name)"
    have nz: "next_pid t \<noteq> 0" and nx: "next_pid ?t = next_pid t + 1"
      and id: "ids ?t = (ids t)(p := Some (next_pid t))"
      using Some by (auto simp: course_process_spawn_def ids_def fun_eq_iff split: option.splits if_splits)
    have lt: "n < next_pid t" if "ids t q = Some n" for q n using wf that nz by (auto simp: ids_wf_def)
    have le: "next_pid t + 1 = 0 \<or> next_pid t < next_pid t + 1"
      using word_less_Suc_or_wrap2 [of "next_pid t"] by blast
    show ?thesis
      unfolding ids_wf_def nx id
    proof (intro conjI allI impI)
      fix a n assume a: "((ids t)(p := Some (next_pid t))) a = Some n"
      show "n \<noteq> 0" using a nz wf by (auto simp: ids_wf_def split: if_splits)
      show "next_pid t + 1 = 0 \<or> n < next_pid t + 1" using a le lt by (auto split: if_splits intro: less_trans)
    next
      fix a b n assume "((ids t)(p := Some (next_pid t))) a = Some n \<and> ((ids t)(p := Some (next_pid t))) b = Some n"
      then show "a = b" using lt wf by (auto simp: ids_wf_def split: if_splits)
    qed
  qed
qed

lemma ids_wf_fork: "ids_wf t \<Longrightarrow> ids_wf (snd (course_process_fork t ppid name))"
proof -
  assume wf: "ids_wf t"
  have clear: "ids_wf (upd_process t' c (\<lambda>_. clear_process))" if "ids_wf t'" for t' c
  proof -
    have "ids (upd_process t' c (\<lambda>_. clear_process)) = (ids t')(c := None)"
      by (auto simp: ids_def fun_eq_iff clear_process_def)
    then show ?thesis using that by (auto simp: ids_wf_def split: if_splits)
  qed
  have step: "same_ids t' t''" if "fork_page p c i t' = Some t''" for p c i t' t''
    using that by (auto simp: fork_page_def Let_def split: if_splits option.splits)
  have pages: "ids_wf (snd (fork_pages p c is t'))" if "ids_wf t'" for p c "is" t'
    using that by (induction "is" arbitrary: t') (auto simp: clear dest: same_ids_wf [OF step] split: option.split)
  have keep: "ids_wf (upd_process t' c h)"
    if "ids_wf t'" "\<And>q. p_used (h q) = p_used q \<and> p_pid (h q) = p_pid q" for t' c h
    using same_ids_wf [OF same_ids_upd_process [OF that(2)] that(1)] .
  have "ids_wf (snd (course_process_spawn t ppid nm))" for nm by (rule ids_wf_spawn [OF wf])
  then have sp: "ids_wf t1" if "course_process_spawn t ppid nm = (r, t1)" for nm r t1 using that by (metis snd_conv)
  have fp: "ids_wf t2" if "fork_pages p c is t' = (r, t2)" "ids_wf t'" for p c "is" t' r t2
    using pages [OF that(2), of p c "is"] that(1) by simp
  show ?thesis
    using wf by (auto simp: course_process_fork_def Let_def split: option.split prod.split bool.split
      dest!: sp intro!: keep dest: fp [OF _ keep])
qed

lemma same_ids_calls:
  "same_ids t (snd (course_process_set_state t pid st))" "same_ids t (snd (course_process_set_abi t pid abi))"
  "same_ids t (snd (course_process_exit t pid code))" "same_ids t (snd (course_process_kill t caller target))"
  "same_ids t (snd (snd (course_process_waitpid t ppid cpid)))" "same_ids t (snd (snd (course_process_wait t ppid)))"
  "same_ids t (snd (course_process_exec_image t pid name img argv))" "same_ids t (snd (course_process_exec t pid prog argv))"
  "same_ids t (snd (course_process_record_crash t pid sepc scause stval reason))"
proof -
  show "same_ids t (snd (course_process_set_state t pid st))" "same_ids t (snd (course_process_set_abi t pid abi))"
    by (simp_all add: course_process_set_state_def course_process_set_abi_def same_ids_upd_process split: option.split)
  have ex: "same_ids t (snd (course_process_exit t pid code))" for t pid code
    by (simp add: course_process_exit_def same_ids_upd_process split: option.split)
  then show "same_ids t (snd (course_process_exit t pid code))" .
  show "same_ids t (snd (course_process_kill t caller target))"
    by (simp add: course_process_kill_def same_ids_upd_process split: option.split)
  have wp: "same_ids t (snd (snd (course_process_waitpid t ppid cpid)))" for cpid
    by (simp add: course_process_waitpid_def same_ids_trans [OF same_ids_release same_ids_upd_process] split: option.split)
  then show "same_ids t (snd (snd (course_process_waitpid t ppid cpid)))" .
  show "same_ids t (snd (snd (course_process_wait t ppid)))"
    by (simp add: course_process_wait_def wp split: option.split)
  have ei: "same_ids t (snd (course_process_exec_image t pid name img argv))" for name img
    by (simp add: course_process_exec_image_def same_ids_trans [OF same_ids_release same_ids_upd_process]
        split: option.split elf_result.split prod.split)
  then show "same_ids t (snd (course_process_exec_image t pid name img argv))" .
  show "same_ids t (snd (course_process_exec t pid prog argv))"
    by (simp add: course_process_exec_def ei split: option.split)
  show "same_ids t (snd (course_process_record_crash t pid sepc scause stval reason))"
    by (simp add: course_process_record_crash_def same_ids_trans [OF same_ids_upd_process ex] split: option.split)
qed

lemma process_call_ids_wf: "ids_wf t \<Longrightarrow> ids_wf (process_call_effect c t)"
proof (cases c)
  case (Call_Write_User_Byte pid i off v)
  have "same_ids t (snd (course_process_write_user_byte t pid i off v))"
  proof (cases "course_process_find t pid")
    case (Some p)
    obtain r t1 where d: "duplicate_cow_page t p i = (r, t1)" by fastforce
    then have "same_ids t t1" using same_ids_duplicate [of t p i] by simp
    then show ?thesis
      by (cases r) (simp_all add: course_process_write_user_byte_def Some d split: option.split)
  qed (simp add: course_process_write_user_byte_def)
  then show "ids_wf t \<Longrightarrow> ids_wf (process_call_effect c t)" unfolding Call_Write_User_Byte
    by (simp add: same_ids_wf)
next
  case (Call_Map_User_Page pid i fill)
  obtain r t1 where d: "alloc_cow_page t = (r, t1)" by fastforce
  then have "same_ids t t1" using same_ids_alloc [of t] by simp
  then have "same_ids t (snd (course_process_map_user_page t pid i fill))"
    by (simp add: course_process_map_user_page_def d Let_def split: option.split)
  then show "ids_wf t \<Longrightarrow> ids_wf (process_call_effect c t)" unfolding Call_Map_User_Page
    by (simp add: same_ids_wf)
next
  case (Call_Cow_Store_Fault pid i off)
  have "same_ids t (snd (course_process_handle_cow_store_fault t pid i off))"
    by (simp add: course_process_handle_cow_store_fault_def same_ids_duplicate split: option.split)
  then show "ids_wf t \<Longrightarrow> ids_wf (process_call_effect c t)" unfolding Call_Cow_Store_Fault
    by (simp add: same_ids_wf)
next
  case (Call_Spawn ppid name)
  then show "ids_wf t \<Longrightarrow> ids_wf (process_call_effect c t)" by (simp add: ids_wf_spawn)
next
  case (Call_Fork ppid name)
  then show "ids_wf t \<Longrightarrow> ids_wf (process_call_effect c t)" by (simp add: ids_wf_fork)
qed (simp_all add: same_ids_wf [OF same_ids_calls(1)] same_ids_wf [OF same_ids_calls(2)] same_ids_wf [OF same_ids_calls(3)]
    same_ids_wf [OF same_ids_calls(4)] same_ids_wf [OF same_ids_calls(5)] same_ids_wf [OF same_ids_calls(6)]
    same_ids_wf [OF same_ids_calls(7)] same_ids_wf [OF same_ids_calls(8)] same_ids_wf [OF same_ids_calls(9)])

lemma process_run_ids_wf: "ids_wf (process_run calls)"
proof -
  have "ids_wf t \<Longrightarrow> ids_wf (fold process_call_effect calls t)" for t
    by (induction calls arbitrary: t) (simp_all add: process_call_ids_wf)
  moreover have "ids_wf course_process_table_init"
    by (simp add: ids_wf_def ids_def course_process_table_init_def clear_process_def)
  ultimately show ?thesis by (simp add: process_run_def)
qed

subsection \<open>The whole invariant, for careful calls\<close>

lemma upd_meta_wf:
  assumes "table_wf t" "\<And>q. p_used (h q) = p_used q \<and> p_user_pages (h q) = p_user_pages q \<and> p_pid (h q) = p_pid q"
    "p_state (h (processes t p)) \<notin> {UNUSED, DEAD}"
  shows "table_wf (upd_process t p h)"
  by (rule upd_process_wf [OF assms(1,2)]) (use assms(3) in auto)

lemma keep_state_wf:
  assumes "table_wf t" "\<And>q. p_used (h q) = p_used q \<and> p_user_pages (h q) = p_user_pages q \<and>
      p_pid (h q) = p_pid q \<and> p_state (h q) = p_state q" "p < COURSE_PROCESS_MAX_PROCESSES"
  shows "table_wf (upd_process t p h)"
  using assms slots_wfD(3,4) [OF table_wfD(2) [OF assms(1)] assms(3)]
  by (intro upd_process_wf) (auto simp: rmap_def)

lemma exit_wf: "table_wf t \<Longrightarrow> table_wf (snd (course_process_exit t pid code))"
  by (auto simp: course_process_exit_def intro!: upd_meta_wf split: option.split)

lemma exec_image_wf:
  assumes wf: "table_wf t"
  shows "table_wf (snd (course_process_exec_image t pid name img argv))"
proof (cases "course_process_find t pid")
  case (Some p)
  then have p: "p < 16" "p_used (processes t p)" using find_iff [OF table_wfD(2) [OF wf]] by auto
  note r = release_process_user_pages_spec(1) [OF wf p]
  show ?thesis
    using wf Some r
    by (auto simp: course_process_exec_image_def intro!: upd_meta_wf split: option.split prod.split elf_result.split)
qed (simp add: course_process_exec_image_def wf)

lemma process_call_wf:
  assumes "careful_call t c" "table_wf t"
  shows "table_wf (process_call_effect c t)"
proof (cases c)
  case (Call_Spawn ppid name)
  then show ?thesis using assms(2) by (cases rule: spawn_cases [OF assms(2), of ppid name]) auto
next
  case (Call_Fork ppid name)
  then show ?thesis using assms(2) by (cases rule: fork_cases [OF assms(2), of ppid name]) auto
next
  case (Call_Set_State pid st)
  then show ?thesis using assms
    by (auto simp: course_process_set_state_def intro!: upd_meta_wf split: option.split)
next
  case (Call_Set_Abi pid abi)
  then show ?thesis using assms(2) find_iff [OF table_wfD(2) [OF assms(2)]]
    by (auto simp: course_process_set_abi_def intro!: keep_state_wf split: option.split)
next
  case (Call_Exit pid code)
  then show ?thesis using exit_wf [OF assms(2)] by simp
next
  case (Call_Kill caller target)
  then show ?thesis using assms(2)
    by (auto simp: course_process_kill_def intro!: upd_meta_wf split: option.split)
next
  case (Call_Waitpid ppid cpid)
  then show ?thesis using assms(2) reap_spec(1) [OF assms(2)]
    by (cases rule: waitpid_cases [OF assms(2), of ppid cpid]) auto
next
  case (Call_Wait ppid)
  have "table_wf (snd (snd (course_process_waitpid t ppid cpid)))" for cpid
    using assms(2) reap_spec(1) [OF assms(2)]
    by (cases rule: waitpid_cases [OF assms(2), of ppid cpid]) auto
  then show ?thesis using Call_Wait assms(2) by (auto simp: course_process_wait_def split: option.split)
next
  case (Call_Exec pid prog argv)
  then show ?thesis using assms(2) exec_image_wf [OF assms(2)]
    by (auto simp: course_process_exec_def split: option.split)
next
  case (Call_Exec_Image pid name img argv)
  then show ?thesis using exec_image_wf [OF assms(2)] by simp
next
  case (Call_Record_Crash pid sepc scause stval reason)
  then show ?thesis using assms(2) find_iff [OF table_wfD(2) [OF assms(2)]]
    by (auto simp: course_process_record_crash_def intro!: exit_wf keep_state_wf split: option.split)
next
  case (Call_Map_User_Page pid i fill)
  have "p_state (processes t p) \<noteq> DEAD" if "course_process_find t pid = Some p" for p
    using assms(1) that Call_Map_User_Page by simp
  then show ?thesis using assms(2) Call_Map_User_Page
    by (cases rule: map_user_page_cases [OF assms(2), of pid i fill]) auto
next
  case (Call_Write_User_Byte pid i off v)
  show ?thesis
  proof (cases rule: write_user_byte_cases [OF assms(2), of pid i off v])
    case 1
    then show ?thesis using Call_Write_User_Byte assms(2) by simp
  next
    case (2 p t1 k)
    then show ?thesis
      using Call_Write_User_Byte write_data_wf(1) [of t1 k "(page_data (cow_pages t1 k))(off := v)"]
      by (simp add: made_exclusive_def upd_cow_page_def)
  qed
next
  case (Call_Cow_Store_Fault pid i off)
  show ?thesis
  proof (cases "course_process_find t pid")
    case None
    then show ?thesis using Call_Cow_Store_Fault assms(2) by (simp add: course_process_handle_cow_store_fault_def)
  next
    case (Some p)
    then have p: "p < 16" "p_used (processes t p)" using find_iff [OF table_wfD(2) [OF assms(2)]] by auto
    show ?thesis
    proof (cases "i < 8 \<and> off < 4096 \<and> ref_mapped (p_user_pages (processes t p) i)")
      case True
      then have "rmap t (p, i) = Some (p_user_pages (processes t p) i)" using p by (simp add: rmap_def)
      then show ?thesis
        using Call_Cow_Store_Fault Some True assms(2)
        by (cases rule: duplicate_cow_page_cases [OF assms(2)])
           (auto simp: course_process_handle_cow_store_fault_def made_exclusive_def)
    next
      case False
      then show ?thesis using Call_Cow_Store_Fault Some assms(2) by (auto simp: course_process_handle_cow_store_fault_def)
    qed
  qed
qed

lemma careful_run_wf: "careful_calls course_process_table_init calls \<Longrightarrow> table_wf (process_run calls)"
proof -
  have "careful_calls t calls \<Longrightarrow> table_wf t \<Longrightarrow> table_wf (fold process_call_effect calls t)" for t
    by (induction calls arbitrary: t) (simp_all add: process_call_wf)
  then show "careful_calls course_process_table_init calls \<Longrightarrow> ?thesis" by (simp add: process_run_def table_init_wf)
qed

lemma cow_stats_fold:
  "fold (\<lambda>i (shared, lf). (if P i then shared + 1 else shared, if Q i then False else lf)) is (s, b) =
     (s + of_nat (length (filter P is)), b \<and> list_all (\<lambda>i. \<not> Q i) is)" for s :: u32
  by (induction "is" arbitrary: s b) (auto simp: algebra_simps)

lemma cow_stats_leak_free:
  "st_leak_free (course_process_cow_stats t) \<longleftrightarrow>
     (\<forall>k<COURSE_PROCESS_MAX_COW_PAGES. \<not> (page_used (cow_pages t k) \<and> page_refcount (cow_pages t k) = 0))"
  unfolding course_process_cow_stats_def cow_stats_fold by (auto simp: list_all_iff)

lemma careful_page_counts:
  assumes wf: "table_wf t"
  shows "(\<forall>k<32. page_used (cow_pages t k) \<longrightarrow> page_refcount (cow_pages t k) \<noteq> 0 \<and>
        unat (page_refcount (cow_pages t k)) = card {(p, i). p < 16 \<and> i < 8 \<and> p_used (processes t p) \<and>
          ref_mapped (p_user_pages (processes t p) i) \<and>
          ref_cow_page_id (p_user_pages (processes t p) i) = page_id (cow_pages t k)}) \<and>
     st_leak_free (course_process_cow_stats t) \<and>
     (\<forall>p i. p < 16 \<and> i < 8 \<and> p_used (processes t p) \<and> ref_mapped (p_user_pages (processes t p) i) \<longrightarrow>
        find_cow_page_by_id t (ref_cow_page_id (p_user_pages (processes t p) i)) \<noteq> None) \<and>
     ((\<forall>p<16. \<forall>i<8. p_used (processes t p) \<longrightarrow> \<not> ref_mapped (p_user_pages (processes t p) i)) \<longrightarrow>
        (\<forall>k<32. \<not> page_used (cow_pages t k)))"
proof -
  note cw = table_wfD(1) [OF wf] and sw = table_wfD(2) [OF wf]
  have hold: "holders (rmap t) g = {(p, i). p < 16 \<and> i < 8 \<and> p_used (processes t p) \<and>
      ref_mapped (p_user_pages (processes t p) i) \<and> ref_cow_page_id (p_user_pages (processes t p) i) = g}" for g
    by (auto simp: holders_def rmap_def split: if_splits)
  have pc: "page_refcount (cow_pages t k) \<noteq> 0" "holders (rmap t) (page_id (cow_pages t k)) \<noteq> {}"
    "unat (page_refcount (cow_pages t k)) = card (holders (rmap t) (page_id (cow_pages t k)))"
    if "k < 32" "page_used (cow_pages t k)" for k
    using cow_wfD(2) [OF cw that(1)] that(2) holders_range [OF cow_wfD(1) [OF cw]]
    by (auto simp: page_counts_def)
  have "find_cow_page_by_id t (ref_cow_page_id (p_user_pages (processes t p) i)) \<noteq> None"
    if "p < 16" "i < 8" "p_used (processes t p)" "ref_mapped (p_user_pages (processes t p) i)" for p i
  proof -
    have "rmap t (p, i) = Some (p_user_pages (processes t p) i)" using that by (simp add: rmap_def)
    then show ?thesis
      using cow_wfD(4) [OF cw] cow_lookup_iff [OF cw] by (auto simp: find_cow_page_lookup)
  qed
  moreover have "\<not> page_used (cow_pages t k)" if "k < 32"
    "\<forall>p<16. \<forall>i<8. p_used (processes t p) \<longrightarrow> \<not> ref_mapped (p_user_pages (processes t p) i)" for k
    using pc(2) [OF that(1)] that(2) unfolding hold by auto
  ultimately show ?thesis
    using pc unfolding hold cow_stats_leak_free by (intro conjI allI impI; blast)
qed

text \<open>C3: after any sequence of calls of the module, with any arguments and whether they succeed or fail, no
  two used slots have the same pid and no used slot has pid 0.  When the sequence is careful, that is when it
  never sets a state to DEAD by hand and never maps a page into a process that is already DEAD (the code
  checks neither), then moreover the counter of every page is exactly the number of references that
  processes hold to it and never 0 for a used page (so the leak check reports \<open>leak_free\<close>), every mapped
  reference leads to a used page, and when no slot holds a mapping all pages are free.\<close>

theorem process_table_invariant:
  assumes "t = process_run calls"
  shows "(\<forall>p q. p_used (processes t p) \<and> p_used (processes t q) \<and>
            p_pid (processes t p) = p_pid (processes t q) \<longrightarrow> p = q) \<and>
     (\<forall>p. p_used (processes t p) \<longrightarrow> p_pid (processes t p) \<noteq> 0) \<and>
     (careful_calls course_process_table_init calls \<longrightarrow>
     (\<forall>k<32. page_used (cow_pages t k) \<longrightarrow> page_refcount (cow_pages t k) \<noteq> 0 \<and>
        unat (page_refcount (cow_pages t k)) = card {(p, i). p < 16 \<and> i < 8 \<and> p_used (processes t p) \<and>
          ref_mapped (p_user_pages (processes t p) i) \<and>
          ref_cow_page_id (p_user_pages (processes t p) i) = page_id (cow_pages t k)}) \<and>
     st_leak_free (course_process_cow_stats t) \<and>
     (\<forall>p i. p < 16 \<and> i < 8 \<and> p_used (processes t p) \<and> ref_mapped (p_user_pages (processes t p) i) \<longrightarrow>
        find_cow_page_by_id t (ref_cow_page_id (p_user_pages (processes t p) i)) \<noteq> None) \<and>
     ((\<forall>p<16. \<forall>i<8. p_used (processes t p) \<longrightarrow> \<not> ref_mapped (p_user_pages (processes t p) i)) \<longrightarrow>
        (\<forall>k<32. \<not> page_used (cow_pages t k))))"
proof (intro conjI)
  have "ids_wf t" using process_run_ids_wf assms by simp
  then show "\<forall>p q. p_used (processes t p) \<and> p_used (processes t q) \<and> p_pid (processes t p) = p_pid (processes t q) \<longrightarrow> p = q"
    "\<forall>p. p_used (processes t p) \<longrightarrow> p_pid (processes t p) \<noteq> 0"
    by (auto simp: ids_wf_def ids_def split: if_splits)
  show "careful_calls course_process_table_init calls \<longrightarrow>
     (\<forall>k<32. page_used (cow_pages t k) \<longrightarrow> page_refcount (cow_pages t k) \<noteq> 0 \<and>
        unat (page_refcount (cow_pages t k)) = card {(p, i). p < 16 \<and> i < 8 \<and> p_used (processes t p) \<and>
          ref_mapped (p_user_pages (processes t p) i) \<and>
          ref_cow_page_id (p_user_pages (processes t p) i) = page_id (cow_pages t k)}) \<and>
     st_leak_free (course_process_cow_stats t) \<and>
     (\<forall>p i. p < 16 \<and> i < 8 \<and> p_used (processes t p) \<and> ref_mapped (p_user_pages (processes t p) i) \<longrightarrow>
        find_cow_page_by_id t (ref_cow_page_id (p_user_pages (processes t p) i)) \<noteq> None) \<and>
     ((\<forall>p<16. \<forall>i<8. p_used (processes t p) \<longrightarrow> \<not> ref_mapped (p_user_pages (processes t p) i)) \<longrightarrow>
        (\<forall>k<32. \<not> page_used (cow_pages t k)))"
    using careful_page_counts [OF careful_run_wf, of calls] assms by blast
qed

subsection \<open>Examples\<close>

text \<open>A parent with one page, and one with a child that has exited.\<close>

definition sample_parent :: process_table where
  "sample_parent = snd (course_process_map_user_page
     (snd (course_process_spawn course_process_table_init 0 (Some ''sh''))) 1 0 7)"

definition sample_zombie :: process_table where
  "sample_zombie = snd (course_process_exit (snd (course_process_spawn sample_parent 1 None)) 2 42)"

lemma sample_runs:
  "sample_parent = process_run [Call_Spawn 0 (Some ''sh''), Call_Map_User_Page 1 0 7]"
  "sample_zombie = process_run [Call_Spawn 0 (Some ''sh''), Call_Map_User_Page 1 0 7, Call_Spawn 1 None, Call_Exit 2 42]"
  by (simp_all add: process_run_def sample_parent_def sample_zombie_def)

lemma sample_careful:
  "careful_calls course_process_table_init [Call_Spawn 0 (Some ''sh''), Call_Map_User_Page 1 0 7]"
  "careful_calls course_process_table_init
     [Call_Spawn 0 (Some ''sh''), Call_Map_User_Page 1 0 7, Call_Spawn 1 None, Call_Exit 2 42]"
  by code_simp+

lemmas sample_wfs = careful_run_wf [OF sample_careful(1), folded sample_runs]
  careful_run_wf [OF sample_careful(2), folded sample_runs]

theorem write_user_byte_isolated_witness:
  "\<exists>t'. course_process_write_user_byte sample_parent 1 0 5 9 = (True, t') \<and>
     course_process_read_user_byte t' 1 0 5 = Some 9 \<and> course_process_read_user_byte t' 1 0 6 = Some 7"
proof -
  have "fst (course_process_write_user_byte sample_parent 1 0 5 9) = True"
    "course_process_read_user_byte sample_parent 1 0 6 = Some 7" by code_simp+
  then show ?thesis
    using write_user_byte_isolated [OF sample_wfs(1), of 1 0 5 9 True
        "snd (course_process_write_user_byte sample_parent 1 0 5 9)"]
    by (intro exI [of _ "snd (course_process_write_user_byte sample_parent 1 0 5 9)"]) (simp add: prod_eq_iff)
qed

theorem fork_copies_memory_witness:
  "\<exists>c t'. course_process_fork sample_parent 1 None = (Some c, t') \<and>
     course_process_read_user_byte t' (p_pid (processes t' c)) 0 5 = Some 7 \<and>
     course_process_read_user_byte t' 1 0 5 = Some 7"
proof -
  have f: "course_process_find sample_parent 1 = Some 0" "alloc_process sample_parent = Some 1"
    "next_pid sample_parent = 2" "p_state (processes sample_parent 0) = READY"
    "course_process_read_user_byte sample_parent 1 0 5 = Some 7" by code_simp+
  obtain res t' where r: "course_process_fork sample_parent 1 None = (res, t')" by (cases "course_process_fork sample_parent 1 None")
  have "course_process_find t' (p_pid (processes t' c)) = Some c \<Longrightarrow>
      course_process_find sample_parent (p_pid (processes t' c)) = None \<Longrightarrow> p_pid (processes t' c) \<noteq> 1" for c
    using f(1) by auto
  then show ?thesis
    using fork_copies_memory [OF sample_wfs(1) r] f r by (cases res) auto
qed

theorem waitpid_reaps_once_witness:
  "\<exists>t'. course_process_waitpid sample_zombie 1 2 = (PROCESS_OK, Some 42, t') \<and>
     course_process_waitpid t' 1 2 = (ERR_NO_CHILD, None, t')"
proof -
  have f: "course_process_find sample_zombie 2 = Some 1" "p_ppid (processes sample_zombie 1) = 1"
    "p_state (processes sample_zombie 1) = ZOMBIE" "p_exit_code (processes sample_zombie 1) = 42" by code_simp+
  have w: "course_process_waitpid sample_zombie 1 2 =
      (PROCESS_OK, Some 42, snd (snd (course_process_waitpid sample_zombie 1 2)))"
    using f by (simp add: course_process_waitpid_def)
  show ?thesis
    using waitpid_reaps_once [OF sample_wfs(2) w] f w by auto
qed

theorem process_table_invariant_witness:
  "page_refcount (cow_pages sample_parent 0) = 1 \<and> st_leak_free (course_process_cow_stats sample_parent)"
proof -
  have "page_refcount (cow_pages sample_parent 0) = 1" by code_simp
  moreover have "st_leak_free (course_process_cow_stats sample_parent)"
    by (rule process_table_invariant [OF sample_runs(1), THEN conjunct2, THEN conjunct2, THEN mp, OF sample_careful(1),
          THEN conjunct2, THEN conjunct1])
  ultimately show ?thesis by (rule conjI)
qed

text \<open>
  Two observations about the unguarded operations.  A page mapped into a process that \<open>wait\<close> has
  already reaped is lost when its slot is reused, and the leak check does not see it; and
  \<open>exec\<close> turns a reaped process into a READY one.
\<close>

definition sample_reaped :: process_table where
  "sample_reaped = snd (snd (course_process_waitpid
     (snd (course_process_exit (snd (course_process_spawn course_process_table_init 0 None)) 1 0)) 0 1))"

definition sample_leak :: process_table where
  "sample_leak = snd (course_process_spawn (snd (course_process_map_user_page sample_reaped 1 0 7)) 0 None)"

lemma dead_mapping_leaks_page:
  "p_state (processes sample_reaped 0) = DEAD \<and>
   fst (course_process_map_user_page sample_reaped 1 0 7) \<and>
   page_used (cow_pages sample_leak 0) \<and>
   list_all (\<lambda>p. \<not> p_used (processes sample_leak p) \<or>
      list_all (\<lambda>i. \<not> ref_mapped (p_user_pages (processes sample_leak p) i)) [0..<8]) [0..<16] \<and>
   st_leak_free (course_process_cow_stats sample_leak)"
  by (intro conjI; code_simp)

lemma exec_resurrects_dead:
  "\<exists>t'. course_process_exec sample_reaped 1 (Some ''hello'') None = (PROCESS_OK, t') \<and>
     p_state (processes sample_reaped 0) = DEAD \<and> p_state (processes t' 0) = READY"
proof -
  have f: "course_process_find sample_reaped 1 = Some 0" "p_state (processes sample_reaped 0) = DEAD" by code_simp+
  have lk: "course_user_program_lookup (Some ''hello'') =
      Some (user_program_row ''hello'' PROGRAM_HELLO 0x40000000 k_hello_elf True)"
    by (simp add: course_user_program_lookup_def k_programs_def user_program_row_def)
  obtain l where l: "course_elf_loader_load (Some k_hello_elf) None (Some cleared_load) = Some (ELF_OK, Some l)"
    using image_loads [of 0 "0x68" "0x65" "0x6C" "0x6F" None cleared_load] by (auto simp: k_hello_elf_def)
  show ?thesis
    using f lk l
    by (simp add: course_process_exec_def course_process_exec_image_def user_program_row_def k_hello_elf_def)
qed

end
