(* ===== verification/ProcessStates.thy ===== *)
theory ProcessStates
  imports CourseProcess
begin

text \<open>
  The interface through which the synchronisation objects and the online scheduler use the
  process table: the state of a pid and the guarded change of that state
  (\<open>course_process_find\<close> and \<open>course_process_set_state\<close> of
  \<open>src/myCPU/guest/kernel/course_process.c\<close>).
\<close>

locale process_states =
  fixes state_of :: "'t \<Rightarrow> u32 \<Rightarrow> process_state option"
    and set_state :: "'t \<Rightarrow> u32 \<Rightarrow> process_state \<Rightarrow> bool \<times> 't"
  assumes set_known: "state_of t pid \<noteq> None \<Longrightarrow> st \<noteq> UNUSED \<Longrightarrow>
      \<exists>t'. set_state t pid st = (True, t') \<and> state_of t' = (state_of t)(pid := Some st)"
    and set_unknown: "state_of t pid = None \<or> st = UNUSED \<Longrightarrow> set_state t pid st = (False, t)"
begin

lemma set_result: "fst (set_state t pid st) \<longleftrightarrow> state_of t pid \<noteq> None \<and> st \<noteq> UNUSED"
  using set_known [of t pid st] set_unknown [of t pid st] by fastforce

lemma state_of_set:
  "state_of (snd (set_state t pid st)) =
     (if state_of t pid \<noteq> None \<and> st \<noteq> UNUSED then (state_of t)(pid := Some st) else state_of t)"
  using set_known [of t pid st] set_unknown [of t pid st] by fastforce

lemma dom_set: "dom (state_of (snd (set_state t pid st))) = dom (state_of t)"
  by (auto simp: state_of_set split: if_splits)

definition set_all :: "u32 list \<Rightarrow> process_state \<Rightarrow> 't \<Rightarrow> 't" where
  "set_all pids st t = fold (\<lambda>pid t. snd (set_state t pid st)) pids t"

lemma state_of_set_all:
  assumes "st \<noteq> UNUSED" "set pids \<subseteq> dom (state_of t)"
  shows "state_of (set_all pids st t) = (\<lambda>q. if q \<in> set pids then Some st else state_of t q)"
  using assms(2)
proof (induction pids arbitrary: t)
  case Nil
  then show ?case by (simp add: set_all_def)
next
  case (Cons pid pids)
  have "state_of t pid \<noteq> None" using Cons.prems by auto
  then have s: "state_of (snd (set_state t pid st)) = (state_of t)(pid := Some st)"
    using assms(1) by (simp add: state_of_set)
  have all: "set_all (pid # pids) st t = set_all pids st (snd (set_state t pid st))"
    by (simp add: set_all_def)
  have sub: "set pids \<subseteq> dom (state_of (snd (set_state t pid st)))"
    unfolding dom_set using Cons.prems by simp
  show ?case unfolding all Cons.IH [OF sub] s by auto
qed

end

definition process_state_of :: "process_table \<Rightarrow> u32 \<Rightarrow> process_state option" where
  "process_state_of t pid = map_option (\<lambda>p. p_state (processes t p)) (course_process_find t pid)"

lemma find_pid: "course_process_find t pid = Some p \<Longrightarrow> p_pid (processes t p) = pid"
  by (auto simp: course_process_find_def dest: first_index_SomeD split: if_splits)

lemma find_upd_process:
  assumes "\<And>q. p_used (h q) = p_used q \<and> p_pid (h q) = p_pid q"
  shows "course_process_find (upd_process t p h) = course_process_find t"
proof -
  have "p_used (processes (upd_process t p h) i) = p_used (processes t i)"
    "p_pid (processes (upd_process t p h) i) = p_pid (processes t i)" for i
    using assms by (auto simp: upd_process_def)
  then show ?thesis unfolding course_process_find_def [abs_def] by (simp only:)
qed

interpretation ps: process_states process_state_of course_process_set_state
proof
  fix t pid st
  assume "process_state_of t pid \<noteq> None" "st \<noteq> UNUSED"
  then obtain p where p: "course_process_find t pid = Some p" by (auto simp: process_state_of_def)
  let ?t = "upd_process t p (\<lambda>q. q\<lparr>p_state := st\<rparr>)"
  have f: "course_process_find ?t = course_process_find t" by (rule find_upd_process) simp
  have pr: "processes ?t = (processes t)(p := (processes t p)\<lparr>p_state := st\<rparr>)" by (simp add: upd_process_def)
  have "process_state_of ?t q = ((process_state_of t)(pid := Some st)) q" for q
    using p find_pid [OF p] find_pid [of t q p] pr
    by (cases "course_process_find t q") (auto simp: process_state_of_def f)
  then show "\<exists>t'. course_process_set_state t pid st = (True, t') \<and>
      process_state_of t' = (process_state_of t)(pid := Some st)"
    using p \<open>st \<noteq> UNUSED\<close> by (auto simp: course_process_set_state_def)
next
  fix t pid st
  assume "process_state_of t pid = None \<or> st = UNUSED"
  then show "course_process_set_state t pid st = (False, t)"
    by (auto simp: process_state_of_def course_process_set_state_def split: option.splits)
qed

end
