(* ===== verification/CourseSync.thy ===== *)
theory CourseSync
  imports ProcessStates
begin

text \<open>
  Semaphores and mutexes of the course kernel (\<open>src/myCPU/guest/kernel/course_sync.c\<close>).  Both keep
  a first-in first-out array of at most sixteen waiting pids, and block and wake processes by
  changing their state in the process table.  The table that a C object points to is an
  explicit argument and result here.  The semaphore's value is an \<open>int32_t\<close>, read with \<open>sint\<close>;
  C leaves the overflow of a post at the largest value undefined, the word wraps there, and no
  property speaks of that case.
\<close>

abbreviation COURSE_SYNC_MAX_WAITERS :: nat where "COURSE_SYNC_MAX_WAITERS \<equiv> 16"

datatype sync_result = SYNC_OK | SYNC_BLOCKED | SYNC_ERR_BAD_PROCESS | SYNC_ERR_NOT_OWNER

type_synonym wait_queue = "u32 carray \<times> nat"

record semaphore =
  sem_value :: "32 word"
  sem_waiters :: "u32 carray"
  sem_waiter_count :: nat

record mutex =
  mtx_owner_pid :: u32
  mtx_waiters :: "u32 carray"
  mtx_waiter_count :: nat
  mtx_misuse_guard_count :: u32

definition clear_waiters :: "u32 carray" where "clear_waiters = (\<lambda>_. 0)"

definition find_process :: "process_table \<Rightarrow> u32 \<Rightarrow> nat option" where
  "find_process t pid =
     (case course_process_find t pid of
        None \<Rightarrow> None
      | Some p \<Rightarrow> if p_state (processes t p) = DEAD \<or> p_state (processes t p) = UNUSED then None else Some p)"

fun enqueue_waiter :: "wait_queue \<Rightarrow> u32 \<Rightarrow> wait_queue option" where
  "enqueue_waiter (w, n) pid = (if n \<ge> COURSE_SYNC_MAX_WAITERS then None else Some (w(n := pid), n + 1))"

fun pop_waiter :: "wait_queue \<Rightarrow> u32 \<times> wait_queue" where
  "pop_waiter (w, n) =
     (if n = 0 then (0, (w, n)) else (w 0, ((shift_down w 1 n)(n - 1 := 0), n - 1)))"

definition course_semaphore_init :: "32 word \<Rightarrow> semaphore" where
  "course_semaphore_init v = \<lparr>sem_value = v, sem_waiters = clear_waiters, sem_waiter_count = 0\<rparr>"

definition course_semaphore_wait ::
  "semaphore \<Rightarrow> process_table \<Rightarrow> u32 \<Rightarrow> sync_result \<times> semaphore \<times> process_table" where
  "course_semaphore_wait s t pid =
     (if find_process t pid = None then (SYNC_ERR_BAD_PROCESS, s, t)
      else if sint (sem_value s) > 0 then (SYNC_OK, s\<lparr>sem_value := sem_value s - 1\<rparr>, t)
      else case enqueue_waiter (sem_waiters s, sem_waiter_count s) pid of
          None \<Rightarrow> (SYNC_ERR_BAD_PROCESS, s, t)
        | Some (w, n) \<Rightarrow>
            (let s' = s\<lparr>sem_waiters := w, sem_waiter_count := n\<rparr>;
                 (ok, t') = course_process_set_state t pid BLOCKED
             in (if ok then SYNC_BLOCKED else SYNC_ERR_BAD_PROCESS, s', t')))"

definition course_semaphore_post ::
  "semaphore \<Rightarrow> process_table \<Rightarrow> sync_result \<times> semaphore \<times> process_table" where
  "course_semaphore_post s t =
     (let (pid, w, n) = pop_waiter (sem_waiters s, sem_waiter_count s);
          s' = s\<lparr>sem_waiters := w, sem_waiter_count := n\<rparr>
      in if pid \<noteq> 0
         then (let (ok, t') = course_process_set_state t pid READY
               in (if ok then SYNC_OK else SYNC_ERR_BAD_PROCESS, s', t'))
         else (SYNC_OK, s'\<lparr>sem_value := sem_value s' + 1\<rparr>, t))"


definition course_mutex_lock ::
  "mutex \<Rightarrow> process_table \<Rightarrow> u32 \<Rightarrow> sync_result \<times> mutex \<times> process_table" where
  "course_mutex_lock m t pid =
     (if find_process t pid = None then (SYNC_ERR_BAD_PROCESS, m, t)
      else if mtx_owner_pid m = 0 then (SYNC_OK, m\<lparr>mtx_owner_pid := pid\<rparr>, t)
      else case enqueue_waiter (mtx_waiters m, mtx_waiter_count m) pid of
          None \<Rightarrow> (SYNC_ERR_BAD_PROCESS, m, t)
        | Some (w, n) \<Rightarrow>
            (let m' = m\<lparr>mtx_waiters := w, mtx_waiter_count := n\<rparr>;
                 (ok, t') = course_process_set_state t pid BLOCKED
             in (if ok then SYNC_BLOCKED else SYNC_ERR_BAD_PROCESS, m', t')))"

definition course_mutex_unlock ::
  "mutex \<Rightarrow> process_table \<Rightarrow> u32 \<Rightarrow> sync_result \<times> mutex \<times> process_table" where
  "course_mutex_unlock m t pid =
     (if mtx_owner_pid m = 0 then (SYNC_ERR_NOT_OWNER, m, t)
      else if mtx_owner_pid m \<noteq> pid
      then (SYNC_ERR_NOT_OWNER, m\<lparr>mtx_misuse_guard_count := mtx_misuse_guard_count m + 1\<rparr>, t)
      else (let (next, w, n) = pop_waiter (mtx_waiters m, mtx_waiter_count m);
                m' = m\<lparr>mtx_waiters := w, mtx_waiter_count := n\<rparr>
            in if next \<noteq> 0
               then (let m'' = m'\<lparr>mtx_owner_pid := next\<rparr>;
                         (ok, t') = course_process_set_state t next READY
                     in (if ok then SYNC_OK else SYNC_ERR_BAD_PROCESS, m'', t'))
               else (SYNC_OK, m'\<lparr>mtx_owner_pid := 0\<rparr>, t)))"

subsection \<open>The waiter array is a bounded queue\<close>

definition wq_items :: "wait_queue \<Rightarrow> u32 list" where
  "wq_items q = arr_list (fst q) (snd q)"

definition wq_wf :: "wait_queue \<Rightarrow> bool" where
  "wq_wf q \<longleftrightarrow> snd q \<le> COURSE_SYNC_MAX_WAITERS \<and> 0 \<notin> set (wq_items q)"

definition wq_pop :: "wait_queue \<Rightarrow> (u32 \<times> wait_queue) option" where
  "wq_pop q = (let (pid, q') = pop_waiter q in if pid = 0 then None else Some (pid, q'))"

lemma pop_waiter_items:
  assumes "wq_items q = x # xs"
  shows "\<exists>q'. pop_waiter q = (x, q') \<and> wq_items q' = xs \<and> snd q' = length xs \<and> snd q = Suc (length xs)"
proof -
  obtain w n where q: "q = (w, n)" by (cases q)
  have n: "0 < n" "n = Suc (length xs)" using assms by (auto simp: q wq_items_def dest: arg_cong [of _ _ length])
  have "arr_list (shift_down w 1 n) (n - 1) = xs"
    using arr_list_pop_front [OF n(1), of w] assms by (simp add: q wq_items_def)
  moreover have "w 0 = x" using assms arr_list_head [OF n(1), of w] by (simp add: q wq_items_def)
  ultimately show ?thesis using n by (auto simp: q wq_items_def)
qed

lemma pop_waiter_empty: "wq_items q = [] \<Longrightarrow> pop_waiter q = (0, q)"
  by (cases q) (auto simp: wq_items_def dest: arg_cong [of _ _ length])

lemma enqueue_waiter_items:
  "snd q < COURSE_SYNC_MAX_WAITERS \<Longrightarrow>
     \<exists>q'. enqueue_waiter q pid = Some q' \<and> wq_items q' = wq_items q @ [pid] \<and> snd q' = Suc (snd q)"
  by (cases q) (auto simp: wq_items_def arr_list_Suc)

lemma length_wq_items [simp]: "length (wq_items q) = snd q"
  by (simp add: wq_items_def)

interpretation wq: bounded_fifo wq_wf wq_items COURSE_SYNC_MAX_WAITERS "\<lambda>pid. pid \<noteq> 0"
  "\<lambda>pid q. enqueue_waiter q pid" wq_pop
proof
  fix q :: wait_queue and x xs
  show "wq_wf q \<Longrightarrow> length (wq_items q) \<le> 16" by (simp add: wq_wf_def)
  show "wq_wf q \<Longrightarrow> x \<noteq> 0 \<Longrightarrow> length (wq_items q) < 16 \<Longrightarrow>
      \<exists>q'. enqueue_waiter q x = Some q' \<and> wq_wf q' \<and> wq_items q' = wq_items q @ [x]"
    using enqueue_waiter_items [of q x] by (auto simp: wq_wf_def)
  show "wq_wf q \<Longrightarrow> length (wq_items q) = 16 \<Longrightarrow> enqueue_waiter q x = None"
    by (cases q) simp
  show "wq_wf q \<Longrightarrow> wq_items q = [] \<Longrightarrow> wq_pop q = None"
    using pop_waiter_empty [of q] by (simp add: wq_pop_def)
  show "wq_wf q \<Longrightarrow> wq_items q = x # xs \<Longrightarrow> \<exists>q'. wq_pop q = Some (x, q') \<and> wq_wf q' \<and> wq_items q' = xs"
    using pop_waiter_items [of q x xs] by (auto simp: wq_pop_def wq_wf_def)
qed

lemma enqueue_waiter_full: "\<not> n < COURSE_SYNC_MAX_WAITERS \<Longrightarrow> enqueue_waiter (w, n) pid = None"
  by simp

declare pop_waiter.simps [simp del] enqueue_waiter.simps [simp del]

subsection \<open>Semaphores\<close>

definition sem_queue :: "semaphore \<Rightarrow> wait_queue" where
  "sem_queue s = (sem_waiters s, sem_waiter_count s)"

definition sem_wf :: "semaphore \<Rightarrow> bool" where
  "sem_wf s \<longleftrightarrow> wq_wf (sem_queue s) \<and> (sem_waiter_count s \<noteq> 0 \<longrightarrow> sint (sem_value s) \<le> 0)"

lemma sint_step:
  fixes x :: "32 word"
  shows "0 < sint x \<Longrightarrow> sint (x - 1) = sint x - 1" "sint x < 2147483647 \<Longrightarrow> sint (x + 1) = sint x + 1"
proof -
  have b: "- 2147483648 \<le> sint x" "sint x < 2147483648" using sint_ge [of x] sint_lt [of x] by simp_all
  show "0 < sint x \<Longrightarrow> sint (x - 1) = sint x - 1"
    using b by (simp add: sint_word_ariths signed_take_bit_int_eq_self)
  show "sint x < 2147483647 \<Longrightarrow> sint (x + 1) = sint x + 1"
    using b by (simp add: sint_word_ariths signed_take_bit_int_eq_self)
qed

definition live :: "process_table \<Rightarrow> u32 \<Rightarrow> bool" where
  "live t pid \<longleftrightarrow> process_state_of t pid \<notin> {None, Some DEAD, Some UNUSED}"

lemma find_process_live: "find_process t pid = None \<longleftrightarrow> \<not> live t pid"
  by (auto simp: find_process_def live_def process_state_of_def split: option.splits)

lemma live_pid: "live t pid \<Longrightarrow> pid \<noteq> 0"
  by (auto simp: live_def process_state_of_def course_process_find_def)

lemma set_state_known:
  "process_state_of t pid \<noteq> None \<Longrightarrow> st \<noteq> UNUSED \<Longrightarrow>
     \<exists>t'. course_process_set_state t pid st = (True, t') \<and>
          process_state_of t' = (process_state_of t)(pid := Some st)"
  by (rule ps.set_known)

lemma wq_wf_push:
  assumes "wq_wf q" "pid \<noteq> 0" "snd q < COURSE_SYNC_MAX_WAITERS"
  shows "\<exists>q'. enqueue_waiter q pid = Some q' \<and> wq_wf q' \<and> wq_items q' = wq_items q @ [pid]"
  using wq.push_room [OF assms(1,2)] assms(3) by simp

lemma wq_wf_pop:
  assumes "wq_wf q" "wq_items q = x # xs"
  shows "\<exists>q'. pop_waiter q = (x, q') \<and> wq_wf q' \<and> wq_items q' = xs \<and> x \<noteq> 0"
  using pop_waiter_items [OF assms(2)] assms by (auto simp: wq_wf_def)

text \<open>C22: a semaphore is a counter with a first-in first-out queue of distinct processes.  Waiting as a
  live process that is not queued yet takes one unit when the 32-bit value is positive and otherwise, if the
  queue has room, appends the process to the queue and blocks it, or fails and changes nothing when the
  queue is full; a post makes the longest-waiting process READY and no other, or adds one unit when nobody
  waits and the value is below its maximum; the queue stays well formed.  (What a waking post does to the
  value, where the header's comment and the code differ, is \<open>post_wakes_without_counting\<close>.)\<close>

theorem semaphore_refines:
  assumes wf: "wq_wf (sem_queue s)" and lv: "live t pid" and new: "pid \<notin> set (wq_items (sem_queue s))"
    and known: "\<forall>x\<in>set (wq_items (sem_queue s)). process_state_of t x \<noteq> None"
    and room: "sint (sem_value s) < 2147483647"
  shows "(let (r, s', t') = course_semaphore_wait s t pid in wq_wf (sem_queue s') \<and>
       (if sint (sem_value s) > 0
        then r = SYNC_OK \<and> sint (sem_value s') = sint (sem_value s) - 1 \<and> sem_queue s' = sem_queue s \<and> t' = t
        else if sem_waiter_count s < COURSE_SYNC_MAX_WAITERS
        then r = SYNC_BLOCKED \<and> sem_value s' = sem_value s \<and>
             wq_items (sem_queue s') = wq_items (sem_queue s) @ [pid] \<and>
             process_state_of t' = (process_state_of t)(pid := Some BLOCKED)
        else r = SYNC_ERR_BAD_PROCESS \<and> s' = s \<and> t' = t)) \<and>
     (let (r, s', t') = course_semaphore_post s t in wq_wf (sem_queue s') \<and> r = SYNC_OK \<and>
       (case wq_items (sem_queue s) of
          [] \<Rightarrow> sint (sem_value s') = sint (sem_value s) + 1 \<and> sem_queue s' = sem_queue s \<and> t' = t
        | x # xs \<Rightarrow> wq_items (sem_queue s') = xs \<and>
             process_state_of t' = (process_state_of t)(x := Some READY)))"
proof
  let ?q = "sem_queue s"
  have q: "wq_wf ?q" "snd ?q = sem_waiter_count s" using wf by (simp_all add: sem_queue_def)
  obtain tb where tb: "course_process_set_state t pid BLOCKED = (True, tb)"
    "process_state_of tb = (process_state_of t)(pid := Some BLOCKED)"
    using set_state_known [of t pid BLOCKED] lv by (auto simp: live_def)
  show "let (r, s', t') = course_semaphore_wait s t pid in wq_wf (sem_queue s') \<and>
       (if sint (sem_value s) > 0
        then r = SYNC_OK \<and> sint (sem_value s') = sint (sem_value s) - 1 \<and> sem_queue s' = sem_queue s \<and> t' = t
        else if sem_waiter_count s < COURSE_SYNC_MAX_WAITERS
        then r = SYNC_BLOCKED \<and> sem_value s' = sem_value s \<and>
             wq_items (sem_queue s') = wq_items (sem_queue s) @ [pid] \<and>
             process_state_of t' = (process_state_of t)(pid := Some BLOCKED)
        else r = SYNC_ERR_BAD_PROCESS \<and> s' = s \<and> t' = t)"
  proof (cases "sint (sem_value s) > 0")
    case True
    then show ?thesis
      using wf lv by (simp add: course_semaphore_wait_def find_process_live sem_queue_def sint_step(1))
  next
    case False
    show ?thesis
    proof (cases "sem_waiter_count s < 16")
      case True
      then obtain q' where q': "enqueue_waiter ?q pid = Some q'" "wq_wf q'" "wq_items q' = wq_items ?q @ [pid]"
        using wq_wf_push [OF q(1) live_pid [OF lv]] q(2) by auto
      obtain w n where wn: "q' = (w, n)" by (cases q')
      show ?thesis
        using False True lv tb q' by (simp add: course_semaphore_wait_def find_process_live sem_queue_def wn)
    next
      case full: False
      then show ?thesis
        using False lv wf by (simp add: course_semaphore_wait_def find_process_live enqueue_waiter_full)
    qed
  qed
  show "let (r, s', t') = course_semaphore_post s t in wq_wf (sem_queue s') \<and> r = SYNC_OK \<and>
       (case wq_items (sem_queue s) of
          [] \<Rightarrow> sint (sem_value s') = sint (sem_value s) + 1 \<and> sem_queue s' = sem_queue s \<and> t' = t
        | x # xs \<Rightarrow> wq_items (sem_queue s') = xs \<and>
             process_state_of t' = (process_state_of t)(x := Some READY))"
  proof (cases "wq_items ?q")
    case Nil
    then show ?thesis
      using pop_waiter_empty [OF Nil] q sint_step(2) [OF room]
      by (simp add: course_semaphore_post_def sem_queue_def)
  next
    case (Cons x xs)
    obtain q' where q': "pop_waiter ?q = (x, q')" "wq_wf q'" "wq_items q' = xs" "x \<noteq> 0"
      using wq_wf_pop [OF q(1) Cons] by blast
    obtain t' where t': "course_process_set_state t x READY = (True, t')"
      "process_state_of t' = (process_state_of t)(x := Some READY)"
      using set_state_known [of t x READY] known Cons by auto
    obtain w n where wn: "q' = (w, n)" by (cases q')
    then show ?thesis
      using Cons q' t' wf by (simp add: course_semaphore_post_def sem_queue_def wn)
  qed
qed

subsection \<open>Mutexes\<close>

definition mtx_queue :: "mutex \<Rightarrow> wait_queue" where
  "mtx_queue m = (mtx_waiters m, mtx_waiter_count m)"

definition mtx_wf :: "mutex \<Rightarrow> bool" where
  "mtx_wf m \<longleftrightarrow> wq_wf (mtx_queue m) \<and> (mtx_owner_pid m = 0 \<longrightarrow> mtx_waiter_count m = 0)"


lemma semaphore_init_wf: "sem_wf (course_semaphore_init v)"
  by (simp add: sem_wf_def wq_wf_def wq_items_def sem_queue_def course_semaphore_init_def)


subsection \<open>Blocking and waking a group of processes\<close>

fun sem_waits :: "u32 list \<Rightarrow> semaphore \<Rightarrow> process_table \<Rightarrow> sync_result list \<times> semaphore \<times> process_table" where
  "sem_waits [] s t = ([], s, t)"
| "sem_waits (pid # pids) s t =
     (let (r, s1, t1) = course_semaphore_wait s t pid; (rs, s2, t2) = sem_waits pids s1 t1 in (r # rs, s2, t2))"

fun sem_posts :: "nat \<Rightarrow> semaphore \<Rightarrow> process_table \<Rightarrow> sync_result list \<times> semaphore \<times> process_table" where
  "sem_posts 0 s t = ([], s, t)"
| "sem_posts (Suc n) s t =
     (let (r, s1, t1) = course_semaphore_post s t; (rs, s2, t2) = sem_posts n s1 t1 in (r # rs, s2, t2))"

lemma sem_wait_blocks:
  assumes "sem_wf s" "sint (sem_value s) \<le> 0" "live t pid" "sem_waiter_count s < COURSE_SYNC_MAX_WAITERS"
  shows "\<exists>s' t'. course_semaphore_wait s t pid = (SYNC_BLOCKED, s', t') \<and> sem_wf s' \<and> sem_value s' = sem_value s \<and>
     wq_items (sem_queue s') = wq_items (sem_queue s) @ [pid] \<and>
     process_state_of t' = (process_state_of t)(pid := Some BLOCKED)"
proof -
  obtain tb where tb: "course_process_set_state t pid BLOCKED = (True, tb)"
    "process_state_of tb = (process_state_of t)(pid := Some BLOCKED)"
    using set_state_known [of t pid BLOCKED] assms(3) by (auto simp: live_def)
  have "wq_wf (sem_queue s)" "snd (sem_queue s) = sem_waiter_count s"
    using assms(1) by (simp_all add: sem_wf_def sem_queue_def)
  then obtain w n where q': "enqueue_waiter (sem_queue s) pid = Some (w, n)" "wq_wf (w, n)"
    "wq_items (w, n) = wq_items (sem_queue s) @ [pid]"
    using wq_wf_push [of "sem_queue s" pid] live_pid [OF assms(3)] assms(4) by auto
  then show ?thesis
    using assms tb by (simp add: course_semaphore_wait_def find_process_live sem_queue_def sem_wf_def)
qed

lemma sem_post_wakes:
  assumes "sem_wf s" "wq_items (sem_queue s) = x # xs" "process_state_of t x \<noteq> None"
  shows "\<exists>s' t'. course_semaphore_post s t = (SYNC_OK, s', t') \<and> sem_wf s' \<and> sem_value s' = sem_value s \<and>
     wq_items (sem_queue s') = xs \<and> process_state_of t' = (process_state_of t)(x := Some READY)"
proof -
  have q: "wq_wf (sem_queue s)" "snd (sem_queue s) = sem_waiter_count s"
    using assms(1) by (simp_all add: sem_wf_def sem_queue_def)
  obtain w n where q': "pop_waiter (sem_queue s) = (x, w, n)" "wq_wf (w, n)" "wq_items (w, n) = xs" "x \<noteq> 0"
    using wq_wf_pop [OF q(1) assms(2)] by auto
  obtain t' where t': "course_process_set_state t x READY = (True, t')"
    "process_state_of t' = (process_state_of t)(x := Some READY)"
    using set_state_known [of t x READY] assms(3) by auto
  have "sem_waiter_count s \<noteq> 0" using assms(2) q(2) length_wq_items [of "sem_queue s"] by auto
  then show ?thesis
    using q' t' assms by (simp add: course_semaphore_post_def sem_queue_def sem_wf_def)
qed

lemma sem_waits_all:
  assumes "sem_wf s" "sint (sem_value s) \<le> 0" "list_all (live t) pids"
    "sem_waiter_count s + length pids \<le> COURSE_SYNC_MAX_WAITERS"
  shows "\<exists>s' t'. sem_waits pids s t = (replicate (length pids) SYNC_BLOCKED, s', t') \<and> sem_wf s' \<and>
     sem_value s' = sem_value s \<and> wq_items (sem_queue s') = wq_items (sem_queue s) @ pids \<and>
     process_state_of t' = (\<lambda>q. if q \<in> set pids then Some BLOCKED else process_state_of t q)"
  using assms
proof (induction pids arbitrary: s t)
  case Nil
  then show ?case by simp
next
  case (Cons pid pids)
  obtain s1 t1 where 1: "course_semaphore_wait s t pid = (SYNC_BLOCKED, s1, t1)" "sem_wf s1" "sem_value s1 = sem_value s"
     "wq_items (sem_queue s1) = wq_items (sem_queue s) @ [pid]"
     "process_state_of t1 = (process_state_of t)(pid := Some BLOCKED)"
    using sem_wait_blocks [of s t pid] Cons.prems by auto
  have "list_all (live t1) pids" using Cons.prems(3) by (auto simp: list_all_iff live_def 1(5))
  moreover have "sem_waiter_count s1 = Suc (sem_waiter_count s)"
    using arg_cong [OF 1(4), of length] by (simp add: sem_queue_def)
  ultimately obtain s2 t2 where "sem_waits pids s1 t1 = (replicate (length pids) SYNC_BLOCKED, s2, t2)" "sem_wf s2"
     "sem_value s2 = sem_value s1" "wq_items (sem_queue s2) = wq_items (sem_queue s1) @ pids"
     "process_state_of t2 = (\<lambda>q. if q \<in> set pids then Some BLOCKED else process_state_of t1 q)"
    using Cons.IH [of s1 t1] 1 Cons.prems by auto
  then show ?case using 1 by auto
qed

lemma sem_posts_all:
  assumes "sem_wf s" "wq_items (sem_queue s) = pids" "list_all (\<lambda>x. process_state_of t x \<noteq> None) pids"
  shows "\<exists>s' t'. sem_posts (length pids) s t = (replicate (length pids) SYNC_OK, s', t') \<and> sem_wf s' \<and>
     sem_value s' = sem_value s \<and> wq_items (sem_queue s') = [] \<and>
     process_state_of t' = (\<lambda>q. if q \<in> set pids then Some READY else process_state_of t q)"
  using assms
proof (induction pids arbitrary: s t)
  case Nil
  then show ?case by simp
next
  case (Cons pid pids)
  obtain s1 t1 where 1: "course_semaphore_post s t = (SYNC_OK, s1, t1)" "sem_wf s1" "sem_value s1 = sem_value s"
     "wq_items (sem_queue s1) = pids" "process_state_of t1 = (process_state_of t)(pid := Some READY)"
    using sem_post_wakes [of s pid pids t] Cons.prems by auto
  have "list_all (\<lambda>x. process_state_of t1 x \<noteq> None) pids" using Cons.prems(3) by (auto simp: list_all_iff 1(5))
  then obtain s2 t2 where "sem_posts (length pids) s1 t1 = (replicate (length pids) SYNC_OK, s2, t2)" "sem_wf s2"
     "sem_value s2 = sem_value s1" "wq_items (sem_queue s2) = []"
     "process_state_of t2 = (\<lambda>q. if q \<in> set pids then Some READY else process_state_of t1 q)"
    using Cons.IH [of s1 t1] 1 by auto
  then show ?case using 1 by auto
qed

text \<open>C29: no wakeup is lost.  When any group of up to sixteen distinct live processes waits on a
  semaphore of value 0, all of them block and queue up in the order of their calls; the same number of posts
  makes every one of them READY again, leaves the queue empty, and touches no other process.\<close>

theorem semaphore_no_lost_wakeup:
  assumes "list_all (live t) pids" "distinct pids" "length pids \<le> COURSE_SYNC_MAX_WAITERS"
  shows "\<exists>s1 t1 s2 t2.
     sem_waits pids (course_semaphore_init 0) t = (replicate (length pids) SYNC_BLOCKED, s1, t1) \<and>
     wq_items (sem_queue s1) = pids \<and> list_all (\<lambda>x. process_state_of t1 x = Some BLOCKED) pids \<and>
     sem_posts (length pids) s1 t1 = (replicate (length pids) SYNC_OK, s2, t2) \<and>
     wq_items (sem_queue s2) = [] \<and>
     process_state_of t2 = (\<lambda>q. if q \<in> set pids then Some READY else process_state_of t q)"
proof -
  have init: "sem_value (course_semaphore_init 0) = 0" "sem_waiter_count (course_semaphore_init 0) = 0"
    "wq_items (sem_queue (course_semaphore_init 0)) = []"
    by (simp_all add: course_semaphore_init_def wq_items_def sem_queue_def)
  obtain s1 t1 where 1: "sem_waits pids (course_semaphore_init 0) t = (replicate (length pids) SYNC_BLOCKED, s1, t1)"
    "sem_wf s1" "sem_value s1 = 0" "wq_items (sem_queue s1) = pids"
    "process_state_of t1 = (\<lambda>q. if q \<in> set pids then Some BLOCKED else process_state_of t q)"
    using sem_waits_all [OF semaphore_init_wf [of 0] _ assms(1)] assms(3) init by auto
  have "list_all (\<lambda>x. process_state_of t1 x \<noteq> None) pids" by (simp add: list_all_iff 1(5))
  then obtain s2 t2 where 2: "sem_posts (length pids) s1 t1 = (replicate (length pids) SYNC_OK, s2, t2)"
    "sem_value s2 = 0" "wq_items (sem_queue s2) = []"
    "process_state_of t2 = (\<lambda>q. if q \<in> set pids then Some READY else process_state_of t1 q)"
    using sem_posts_all [OF 1(2,4), of t1] 1(3) by auto
  have "list_all (\<lambda>x. process_state_of t1 x = Some BLOCKED) pids" by (simp add: list_all_iff 1(5))
  moreover have "process_state_of t2 = (\<lambda>q. if q \<in> set pids then Some READY else process_state_of t q)"
    by (auto simp: 2(4) 1(5))
  ultimately show ?thesis using 1(1,4) 2(1,3) by blast
qed

subsection \<open>Examples\<close>

definition two_processes :: process_table where
  "two_processes = snd (course_process_spawn (snd (course_process_spawn course_process_table_init 0 None)) 0 None)"

lemma two_processes_states: "process_state_of two_processes 1 = Some READY" "process_state_of two_processes 2 = Some READY"
  by code_simp+

lemma two_processes_live [simp]: "live two_processes 1" "live two_processes 2"
  by (simp_all add: live_def two_processes_states)

theorem semaphore_no_lost_wakeup_witness:
  "\<exists>s1 t1 s2 t2. sem_waits [2, 1] (course_semaphore_init 0) two_processes = ([SYNC_BLOCKED, SYNC_BLOCKED], s1, t1) \<and>
     sem_posts 2 s1 t1 = ([SYNC_OK, SYNC_OK], s2, t2) \<and> process_state_of t2 1 = Some READY"
  using semaphore_no_lost_wakeup [of two_processes "[2, 1]"]
  by (auto simp: numeral_2_eq_2 simp del: sem_waits.simps sem_posts.simps)

theorem semaphore_refines_witness:
  "\<exists>s' t'. course_semaphore_wait (course_semaphore_init 0) two_processes 2 = (SYNC_BLOCKED, s', t') \<and>
     process_state_of t' 2 = Some BLOCKED"
proof -
  have i: "wq_items (sem_queue (course_semaphore_init 0)) = []" "sem_value (course_semaphore_init 0) = 0"
    "sem_waiter_count (course_semaphore_init 0) = 0"
    by (simp_all add: course_semaphore_init_def wq_items_def sem_queue_def)
  show ?thesis
    using semaphore_refines [OF semaphore_init_wf [of 0, unfolded sem_wf_def, THEN conjunct1] two_processes_live(2)]
    by (cases "course_semaphore_wait (course_semaphore_init 0) two_processes 2") (auto simp: i)
qed


text \<open>
  What the code does where comments or hypotheses leave it out.  The comment of \<open>enqueue_waiter\<close> says
  that a duplicate is refused; the code checks only for a full queue, so a process that is already
  queued is queued again by the mutex and by the semaphore.  The comment in \<open>course_sync.h\<close> says that a post
  increments the value and then wakes; the code (and the comment inside it) leaves the value alone when
  it wakes somebody.  A post makes a waiter READY that has exited meanwhile, and a mutex handed to a
  process that has disappeared from the table keeps that owner although \<open>unlock\<close> reports an error.
\<close>

lemma queued_process_is_queued_again:
  assumes "mtx_wf m" "mtx_owner_pid m \<noteq> 0" "live t pid" "pid \<in> set (wq_items (mtx_queue m))"
    "mtx_waiter_count m < COURSE_SYNC_MAX_WAITERS"
  shows "\<exists>m' t'. course_mutex_lock m t pid = (SYNC_BLOCKED, m', t') \<and>
    wq_items (mtx_queue m') = wq_items (mtx_queue m) @ [pid] \<and> \<not> distinct (wq_items (mtx_queue m'))"
proof -
  have q: "wq_wf (mtx_queue m)" "snd (mtx_queue m) = mtx_waiter_count m" using assms(1) by (simp_all add: mtx_wf_def mtx_queue_def)
  obtain w n where q': "enqueue_waiter (mtx_queue m) pid = Some (w, n)" "wq_items (w, n) = wq_items (mtx_queue m) @ [pid]"
    using wq_wf_push [OF q(1) live_pid [OF assms(3)]] q(2) assms(5) by auto
  obtain t' where "course_process_set_state t pid BLOCKED = (True, t')"
    using set_state_known [of t pid BLOCKED] assms(3) by (auto simp: live_def)
  then show ?thesis using assms(2-4) q' by (simp add: course_mutex_lock_def find_process_live mtx_queue_def)
qed

lemma post_wakes_without_counting:
  assumes "sem_wf s" "wq_items (sem_queue s) = x # xs" "process_state_of t x \<noteq> None"
  shows "sem_value (fst (snd (course_semaphore_post s t))) = sem_value s"
  using sem_post_wakes [OF assms] by auto

lemma enqueue_accepts_duplicates:
  "\<exists>q. enqueue_waiter (clear_waiters, 0) 7 = Some q \<and> (\<exists>q'. enqueue_waiter q 7 = Some q' \<and> wq_items q' = [7, 7])"
  by (simp add: enqueue_waiter.simps wq_items_def arr_list_Suc numeral_2_eq_2)

lemma post_wakes_zombie:
  assumes "sem_wf s" "wq_items (sem_queue s) = [x]" "process_state_of t x = Some ZOMBIE"
  shows "\<exists>s' t'. course_semaphore_post s t = (SYNC_OK, s', t') \<and> process_state_of t' x = Some READY"
  using sem_post_wakes [OF assms(1,2), of t] assms(3) by auto

lemma unlock_keeps_vanished_owner:
  assumes "mtx_wf m" "mtx_owner_pid m = pid" "pid \<noteq> 0" "wq_items (mtx_queue m) = x # xs" "process_state_of t x = None"
  shows "\<exists>m'. course_mutex_unlock m t pid = (SYNC_ERR_BAD_PROCESS, m', t) \<and> mtx_owner_pid m' = x"
proof -
  have "wq_wf (mtx_queue m)" using assms(1) by (simp add: mtx_wf_def)
  then obtain w n where "pop_waiter (mtx_queue m) = (x, w, n)" "x \<noteq> 0" using wq_wf_pop [OF _ assms(4)] by auto
  then show ?thesis
    using assms ps.set_unknown [of t x READY] by (simp add: course_mutex_unlock_def mtx_queue_def)
qed

end
