(* ===== verification/OfflineScheduler.thy ===== *)
theory OfflineScheduler
  imports Prelude
begin

text \<open>
  The offline scheduler of \<open>src/myCPU/guest/kernel/course_scheduler.c\<close>: up to eight tasks with an
  arrival and a burst time are run to completion under FCFS, round robin or ``CFS-lite'', and
  the statistics of the run are summed up.  The main loops run until every task is complete;
  they are \<open>loop_until\<close> of their bodies, and that they return is a theorem.  All times are
  32-bit and wrap as in C.  A policy value beyond the enumeration is \<open>POLICY_COUNT\<close>.
\<close>

abbreviation COURSE_SCHEDULER_MAX_TASKS :: nat where "COURSE_SCHEDULER_MAX_TASKS \<equiv> 8"

datatype sched_policy = FCFS | RR | CFS_LITE | POLICY_COUNT

fun policy_no :: "sched_policy \<Rightarrow> nat" where
  "policy_no FCFS = 0"
| "policy_no RR = 1"
| "policy_no CFS_LITE = 2"
| "policy_no POLICY_COUNT = 3"

record task_stats =
  st_pid :: u32
  st_arrival_time :: u32
  st_burst_time :: u32
  st_completion_time :: u32
  st_waiting_time :: u32
  st_turnaround_time :: u32
  st_vruntime :: u32

record sched_summary =
  sum_policy :: sched_policy
  context_switches :: u32
  last_switch_cycle_cost :: u32
  total_switch_cycle_cost :: u32
  sum_time_slice :: u32
  preempt_count :: u32
  total_wait_time :: u32
  total_turnaround_time :: u32
  average_wait_time :: u32
  average_turnaround_time :: u32
  policy_runs :: "u32 carray"
  last_policy_name :: cstr

record sched_task =
  task_used :: bool
  task_pid :: u32
  arrival_time :: u32
  burst_time :: u32
  remaining_time :: u32
  completion_time :: u32
  vruntime :: u32

record scheduler =
  tasks :: "sched_task carray"
  task_count :: nat
  summary :: sched_summary

definition upd_task :: "scheduler \<Rightarrow> nat \<Rightarrow> (sched_task \<Rightarrow> sched_task) \<Rightarrow> scheduler" where
  "upd_task s i h = s\<lparr>tasks := (tasks s)(i := h (tasks s i))\<rparr>"

definition upd_summary :: "scheduler \<Rightarrow> (sched_summary \<Rightarrow> sched_summary) \<Rightarrow> scheduler" where
  "upd_summary s h = s\<lparr>summary := h (summary s)\<rparr>"

subsection \<open>Helpers of the main loops\<close>

definition reset_runtime_fields :: "scheduler \<Rightarrow> scheduler" where
  "reset_runtime_fields s =
     fold (\<lambda>i s. upd_task s i (\<lambda>t. t\<lparr>remaining_time := burst_time t, completion_time := 0, vruntime := 0\<rparr>))
       [0..<task_count s] s"

definition record_context_switch :: "scheduler \<Rightarrow> u32 \<Rightarrow> scheduler" where
  "record_context_switch s cycle_cost = upd_summary s (\<lambda>m. m\<lparr>
     context_switches := context_switches m + 1,
     last_switch_cycle_cost := cycle_cost,
     total_switch_cycle_cost := total_switch_cycle_cost m + cycle_cost\<rparr>)"

definition all_tasks_complete :: "scheduler \<Rightarrow> bool" where
  "all_tasks_complete s \<longleftrightarrow> list_all (\<lambda>i. remaining_time (tasks s i) = 0) [0..<task_count s]"

definition next_arrival_time :: "scheduler \<Rightarrow> u32 \<Rightarrow> u32" where
  "next_arrival_time s now =
     fold (\<lambda>i next. let t = tasks s i in
         if remaining_time t \<noteq> 0 \<and> arrival_time t > now \<and> arrival_time t < next
         then arrival_time t else next)
       [0..<task_count s] UINT32_MAX"

definition pick_fcfs :: "scheduler \<Rightarrow> u32 \<Rightarrow> nat" where
  "pick_fcfs s now =
     scan_best (\<lambda>i. \<not> (remaining_time (tasks s i) = 0 \<or> arrival_time (tasks s i) > now))
       (\<lambda>i best. arrival_time (tasks s i) < arrival_time (tasks s best) \<or>
          (arrival_time (tasks s i) = arrival_time (tasks s best) \<and> task_pid (tasks s i) < task_pid (tasks s best)))
       (task_count s) COURSE_SCHEDULER_MAX_TASKS"

definition pick_cfs_lite :: "scheduler \<Rightarrow> u32 \<Rightarrow> nat" where
  "pick_cfs_lite s now =
     scan_best (\<lambda>i. \<not> (remaining_time (tasks s i) = 0 \<or> arrival_time (tasks s i) > now))
       (\<lambda>i best. vruntime (tasks s i) < vruntime (tasks s best) \<or>
          (vruntime (tasks s i) = vruntime (tasks s best) \<and>
           arrival_time (tasks s i) < arrival_time (tasks s best)) \<or>
          (vruntime (tasks s i) = vruntime (tasks s best) \<and>
           arrival_time (tasks s i) = arrival_time (tasks s best) \<and> task_pid (tasks s i) < task_pid (tasks s best)))
       (task_count s) COURSE_SCHEDULER_MAX_TASKS"

definition task_ready :: "sched_task \<Rightarrow> u32 \<Rightarrow> bool" where
  "task_ready t now \<longleftrightarrow> remaining_time t \<noteq> 0 \<and> arrival_time t \<le> now"

type_synonym rr_queue = "nat carray \<times> nat"

definition rr_queue_contains :: "nat carray \<Rightarrow> nat \<Rightarrow> nat \<Rightarrow> bool" where
  "rr_queue_contains queue queue_count i \<longleftrightarrow> list_ex (\<lambda>k. queue k = i) [0..<queue_count]"

definition rr_enqueue_arrivals ::
  "scheduler \<Rightarrow> u32 \<Rightarrow> rr_queue \<times> bool carray \<Rightarrow> rr_queue \<times> bool carray" where
  "rr_enqueue_arrivals s now =
     fold (\<lambda>i ((queue, queue_count), discovered).
         if \<not> discovered i \<and> task_ready (tasks s i) now \<and> \<not> rr_queue_contains queue queue_count i
         then ((queue(queue_count := i), queue_count + 1), discovered(i := True))
         else ((queue, queue_count), discovered))
       [0..<task_count s]"

definition rr_pop :: "rr_queue \<Rightarrow> nat \<times> rr_queue" where
  "rr_pop q = (case q of (queue, queue_count) \<Rightarrow> (queue 0, (shift_down queue 1 queue_count, queue_count - 1)))"

subsection \<open>Main loops\<close>

definition fcfs_body :: "scheduler \<times> u32 \<Rightarrow> (scheduler \<times> u32) + (bool \<times> scheduler)" where
  "fcfs_body c = (case c of (s, now) \<Rightarrow>
     if all_tasks_complete s then Inr (True, s)
     else let i = pick_fcfs s now in
       if i = COURSE_SCHEDULER_MAX_TASKS
       then (let next = next_arrival_time s now in if next = UINT32_MAX then Inr (False, s) else Inl (s, next))
       else (let run_for = remaining_time (tasks s i);
                 s1 = record_context_switch s run_for;
                 now1 = now + run_for
             in Inl (upd_task s1 i (\<lambda>t. t\<lparr>remaining_time := 0, completion_time := now1\<rparr>), now1)))"

definition run_fcfs :: "scheduler \<Rightarrow> (bool \<times> scheduler) option" where
  "run_fcfs s = loop_until fcfs_body (s, 0)"

definition rr_wait :: "scheduler \<Rightarrow> rr_queue \<times> bool carray \<Rightarrow> u32 \<Rightarrow> ((rr_queue \<times> bool carray) \<times> u32) option" where
  "rr_wait s qd now =
     (let qd1 = rr_enqueue_arrivals s now qd in
      if snd (fst qd1) = 0
      then (let next = next_arrival_time s now in
            if next = UINT32_MAX then None
            else let qd2 = rr_enqueue_arrivals s next qd1 in
              if snd (fst qd2) = 0 then None else Some (qd2, next))
      else Some (qd1, now))"

definition rr_body :: "u32 \<Rightarrow> scheduler \<times> (rr_queue \<times> bool carray) \<times> u32 \<Rightarrow>
    (scheduler \<times> (rr_queue \<times> bool carray) \<times> u32) + (bool \<times> scheduler)" where
  "rr_body time_slice c = (case c of (s, qd, now) \<Rightarrow>
     if all_tasks_complete s then Inr (True, s)
     else case rr_wait s qd now of
         None \<Rightarrow> Inr (False, s)
       | Some ((q, discovered), now1) \<Rightarrow>
           (let (i, q1) = rr_pop q;
                rem = remaining_time (tasks s i);
                run_for = (if rem < time_slice then rem else time_slice);
                s1 = record_context_switch s run_for;
                now2 = now1 + run_for;
                s2 = upd_task s1 i (\<lambda>t. t\<lparr>remaining_time := remaining_time t - run_for\<rparr>);
                ((queue, queue_count), discovered2) = rr_enqueue_arrivals s2 now2 (q1, discovered)
            in if remaining_time (tasks s2 i) = 0
               then Inl (upd_task s2 i (\<lambda>t. t\<lparr>completion_time := now2\<rparr>), ((queue, queue_count), discovered2), now2)
               else Inl (upd_summary s2 (\<lambda>m. m\<lparr>preempt_count := preempt_count m + 1\<rparr>),
                         ((queue(queue_count := i), queue_count + 1), discovered2), now2)))"

definition run_rr :: "scheduler \<Rightarrow> u32 \<Rightarrow> (bool \<times> scheduler) option" where
  "run_rr s time_slice =
     (if time_slice = 0 then Some (False, s)
      else loop_until (rr_body time_slice) (s, (((\<lambda>_. 0), 0), (\<lambda>_. False)), 0))"

definition cfs_body :: "u32 \<Rightarrow> scheduler \<times> u32 \<Rightarrow> (scheduler \<times> u32) + (bool \<times> scheduler)" where
  "cfs_body time_slice c = (case c of (s, now) \<Rightarrow>
     if all_tasks_complete s then Inr (True, s)
     else let i = pick_cfs_lite s now in
       if i = COURSE_SCHEDULER_MAX_TASKS
       then (let next = next_arrival_time s now in if next = UINT32_MAX then Inr (False, s) else Inl (s, next))
       else (let rem = remaining_time (tasks s i);
                 run_for = (if rem < time_slice then rem else time_slice);
                 s1 = record_context_switch s run_for;
                 now1 = now + run_for;
                 s2 = upd_task s1 i (\<lambda>t. t\<lparr>remaining_time := remaining_time t - run_for, vruntime := vruntime t + run_for\<rparr>)
             in if remaining_time (tasks s2 i) = 0
                then Inl (upd_task s2 i (\<lambda>t. t\<lparr>completion_time := now1\<rparr>), now1)
                else Inl (s2, now1)))"

definition run_cfs_lite :: "scheduler \<Rightarrow> u32 \<Rightarrow> (bool \<times> scheduler) option" where
  "run_cfs_lite s time_slice =
     (if time_slice = 0 then Some (False, s) else loop_until (cfs_body time_slice) (s, 0))"

subsection \<open>Statistics and the public operations\<close>

definition update_wait_turnaround :: "scheduler \<Rightarrow> scheduler" where
  "update_wait_turnaround s =
     (let s1 = upd_summary s (\<lambda>m. m\<lparr>total_wait_time := 0, total_turnaround_time := 0\<rparr>);
          s2 = fold (\<lambda>i s. let t = tasks s i;
                               turnaround = completion_time t - arrival_time t;
                               wait = turnaround - burst_time t
                           in upd_summary s (\<lambda>m. m\<lparr>total_wait_time := total_wait_time m + wait,
                                total_turnaround_time := total_turnaround_time m + turnaround\<rparr>))
                 [0..<task_count s] s1
      in if task_count s \<noteq> 0
         then upd_summary s2 (\<lambda>m. m\<lparr>
           average_wait_time := total_wait_time m div of_nat (task_count s),
           average_turnaround_time := total_turnaround_time m div of_nat (task_count s)\<rparr>)
         else s2)"

fun course_scheduler_policy_name :: "sched_policy \<Rightarrow> cstr" where
  "course_scheduler_policy_name FCFS = ''FCFS''"
| "course_scheduler_policy_name RR = ''RR''"
| "course_scheduler_policy_name CFS_LITE = ''CFS-lite''"
| "course_scheduler_policy_name POLICY_COUNT = ''unknown''"

definition course_scheduler_init :: scheduler where
  "course_scheduler_init = \<lparr>
     tasks = (\<lambda>_. \<lparr>task_used = False, task_pid = 0, arrival_time = 0, burst_time = 0, remaining_time = 0,
                    completion_time = 0, vruntime = 0\<rparr>),
     task_count = 0,
     summary = \<lparr>sum_policy = FCFS, context_switches = 0, last_switch_cycle_cost = 0,
       total_switch_cycle_cost = 0, sum_time_slice = 0, preempt_count = 0, total_wait_time = 0,
       total_turnaround_time = 0, average_wait_time = 0, average_turnaround_time = 0,
       policy_runs = (\<lambda>_. 0), last_policy_name = ''FCFS''\<rparr>\<rparr>"

definition course_scheduler_add_task :: "scheduler \<Rightarrow> u32 \<Rightarrow> u32 \<Rightarrow> u32 \<Rightarrow> bool \<times> scheduler" where
  "course_scheduler_add_task s pid arrival burst =
     (if pid = 0 \<or> burst = 0 \<or> task_count s \<ge> COURSE_SCHEDULER_MAX_TASKS then (False, s)
      else (True, (upd_task s (task_count s) (\<lambda>_. \<lparr>task_used = True, task_pid = pid, arrival_time = arrival,
              burst_time = burst, remaining_time = burst, completion_time = 0, vruntime = 0\<rparr>))
            \<lparr>task_count := task_count s + 1\<rparr>))"

definition start_run :: "scheduler \<Rightarrow> sched_policy \<Rightarrow> u32 \<Rightarrow> scheduler" where
  "start_run s policy time_slice =
     upd_summary (reset_runtime_fields s) (\<lambda>m. m\<lparr>
       sum_policy := policy, context_switches := 0, last_switch_cycle_cost := 0, total_switch_cycle_cost := 0,
       sum_time_slice := (if policy = FCFS then 0 else time_slice), preempt_count := 0, total_wait_time := 0,
       total_turnaround_time := 0, average_wait_time := 0, average_turnaround_time := 0,
       last_policy_name := course_scheduler_policy_name policy\<rparr>)"

definition course_scheduler_run :: "scheduler \<Rightarrow> sched_policy \<Rightarrow> u32 \<Rightarrow> (bool \<times> scheduler) option" where
  "course_scheduler_run s policy time_slice =
     (if task_count s = 0 \<or> policy = POLICY_COUNT then Some (False, s)
      else let s1 = start_run s policy time_slice in
        case (case policy of
            FCFS \<Rightarrow> run_fcfs s1
          | RR \<Rightarrow> run_rr s1 time_slice
          | CFS_LITE \<Rightarrow> run_cfs_lite s1 time_slice
          | POLICY_COUNT \<Rightarrow> Some (False, s1)) of
          None \<Rightarrow> None
        | Some (ok, s2) \<Rightarrow>
            if \<not> ok then Some (False, s2)
            else Some (True, update_wait_turnaround (upd_summary s2 (\<lambda>m. m\<lparr>
                   policy_runs := (policy_runs m)(policy_no policy := policy_runs m (policy_no policy) + 1)\<rparr>))))"

definition course_scheduler_summary :: "scheduler \<Rightarrow> sched_summary" where
  "course_scheduler_summary s = summary s"

definition course_scheduler_task_stats :: "scheduler \<Rightarrow> nat \<Rightarrow> task_stats list option" where
  "course_scheduler_task_stats s max_stats =
     (if max_stats < task_count s then None
      else Some (map (\<lambda>i. let t = tasks s i; turnaround = completion_time t - arrival_time t in
             \<lparr>st_pid = task_pid t, st_arrival_time = arrival_time t, st_burst_time = burst_time t,
              st_completion_time = completion_time t, st_waiting_time = turnaround - burst_time t,
              st_turnaround_time = turnaround, st_vruntime = vruntime t\<rparr>) [0..<task_count s]))"

end
