(* ===== verification/SchedulerRuns.thy ===== *)
theory SchedulerRuns
  imports OfflineScheduler
begin

text \<open>
  The runs of the offline scheduler.  The interface \<open>slicing_loop\<close> states what the three main
  loops have in common: every iteration either skips idle time or runs one task for a slice.
  It gives termination and the accounting of the switch costs once for all of them; the three
  loops are its interpretations.
\<close>

named_theorems sched_simps \<open>reading the fields of an updated scheduler\<close>

lemma upd_task_sel [sched_simps]:
  "tasks (upd_task s i h) = (tasks s)(i := h (tasks s i))"
  "task_count (upd_task s i h) = task_count s"
  "summary (upd_task s i h) = summary s"
  by (simp_all add: upd_task_def)

lemma upd_summary_sel [sched_simps]:
  "tasks (upd_summary s g) = tasks s"
  "task_count (upd_summary s g) = task_count s"
  "summary (upd_summary s g) = g (summary s)"
  by (simp_all add: upd_summary_def)

lemma record_context_switch_sel [sched_simps]:
  "tasks (record_context_switch s c) = tasks s"
  "task_count (record_context_switch s c) = task_count s"
  "context_switches (summary (record_context_switch s c)) = context_switches (summary s) + 1"
  "total_switch_cycle_cost (summary (record_context_switch s c)) = total_switch_cycle_cost (summary s) + c"
  "preempt_count (summary (record_context_switch s c)) = preempt_count (summary s)"
  "policy_runs (summary (record_context_switch s c)) = policy_runs (summary s)"
  by (simp_all add: record_context_switch_def sched_simps)

abbreviation rem :: "scheduler \<Rightarrow> nat \<Rightarrow> u32" where "rem s i \<equiv> remaining_time (tasks s i)"
abbreviation arr :: "scheduler \<Rightarrow> nat \<Rightarrow> u32" where "arr s i \<equiv> arrival_time (tasks s i)"
abbreviation burst :: "scheduler \<Rightarrow> nat \<Rightarrow> u32" where "burst s i \<equiv> burst_time (tasks s i)"
abbreviation vrun :: "scheduler \<Rightarrow> nat \<Rightarrow> u32" where "vrun s i \<equiv> vruntime (tasks s i)"

lemma complete_iff: "all_tasks_complete s \<longleftrightarrow> (\<forall>i<task_count s. rem s i = 0)"
  by (auto simp: all_tasks_complete_def list_all_iff)

text \<open>A scheduler that was filled by \<open>course_scheduler_add_task\<close>.\<close>

definition sched_wf :: "scheduler \<Rightarrow> bool" where
  "sched_wf s \<longleftrightarrow> task_count s \<le> COURSE_SCHEDULER_MAX_TASKS \<and>
     (\<forall>i<task_count s. task_used (tasks s i) \<and> task_pid (tasks s i) \<noteq> 0 \<and> burst s i \<noteq> 0)"

lemma init_wf: "sched_wf course_scheduler_init"
  by (simp add: sched_wf_def course_scheduler_init_def)

lemma add_task_wf: "sched_wf s \<Longrightarrow> sched_wf (snd (course_scheduler_add_task s pid a b))"
  by (auto simp: sched_wf_def course_scheduler_add_task_def sched_simps less_Suc_eq)

text \<open>Nothing that identifies the tasks changes.\<close>

definition same_tasks :: "scheduler \<Rightarrow> scheduler \<Rightarrow> bool" where
  "same_tasks s s' \<longleftrightarrow> task_count s' = task_count s \<and> policy_runs (summary s') = policy_runs (summary s) \<and>
     (\<forall>i. task_used (tasks s' i) = task_used (tasks s i) \<and> task_pid (tasks s' i) = task_pid (tasks s i) \<and>
          arr s' i = arr s i \<and> burst s' i = burst s i)"

lemma same_tasks_refl [simp]: "same_tasks s s"
  by (simp add: same_tasks_def)

lemma same_tasks_trans: "same_tasks s s' \<Longrightarrow> same_tasks s' s'' \<Longrightarrow> same_tasks s s''"
  by (simp add: same_tasks_def)

lemma same_tasks_wf: "same_tasks s s' \<Longrightarrow> sched_wf s' = sched_wf s"
  by (simp add: same_tasks_def sched_wf_def)

subsection \<open>One slice\<close>

definition sliced :: "scheduler \<Rightarrow> nat \<Rightarrow> u32 \<Rightarrow> scheduler \<Rightarrow> bool" where
  "sliced s i r s' \<longleftrightarrow> i < task_count s \<and> 0 < r \<and> r \<le> rem s i \<and> same_tasks s s' \<and>
     (\<forall>k. rem s' k = (if k = i then rem s i - r else rem s k)) \<and>
     total_switch_cycle_cost (summary s') = total_switch_cycle_cost (summary s) + r \<and>
     context_switches (summary s') = context_switches (summary s) + 1"

definition work :: "scheduler \<Rightarrow> nat" where
  "work s = (\<Sum>i<task_count s. unat (rem s i))"

definition rest :: "scheduler \<Rightarrow> u32" where
  "rest s = (\<Sum>i<task_count s. rem s i)"

definition unfinished :: "scheduler \<Rightarrow> nat set" where
  "unfinished s = {i. i < task_count s \<and> rem s i \<noteq> 0}"

lemma finite_unfinished [simp]: "finite (unfinished s)"
  by (rule finite_subset [of _ "{..<task_count s}"]) (auto simp: unfinished_def)

lemma sum_upd:
  fixes f :: "nat \<Rightarrow> 'a::ab_group_add"
  assumes "i < n" "\<And>k. k \<noteq> i \<Longrightarrow> g k = f k"
  shows "(\<Sum>k<n. g k) = (\<Sum>k<n. f k) - f i + g i"
  using assms by (simp add: sum.remove [of "{..<n}" i g] sum.remove [of "{..<n}" i f])

lemma sliced_work:
  assumes "sliced s i r s'"
  shows "work s' < work s"
proof -
  have n: "task_count s' = task_count s" "i < task_count s" and r: "0 < r" "r \<le> rem s i"
    and k: "\<And>k. k \<noteq> i \<Longrightarrow> rem s' k = rem s k" "rem s' i = rem s i - r"
    using assms by (auto simp: sliced_def same_tasks_def)
  have "unat (rem s i - r) < unat (rem s i)"
    using r by (simp add: unat_sub word_le_nat_alt word_less_nat_alt)
  moreover have "(\<Sum>k\<in>{..<task_count s} - {i}. unat (rem s' k)) = (\<Sum>k\<in>{..<task_count s} - {i}. unat (rem s k))"
    using k by (intro sum.cong) auto
  ultimately show ?thesis
    using n k by (simp add: work_def sum.remove [of "{..<task_count s}" i])
qed

lemma sliced_cost:
  assumes "sliced s i r s'"
  shows "total_switch_cycle_cost (summary s') + rest s' = total_switch_cycle_cost (summary s) + rest s"
proof -
  have "rest s' = rest s - r"
    using assms sum_upd [of i "task_count s" "rem s'" "rem s"]
    by (auto simp: sliced_def same_tasks_def rest_def)
  then show ?thesis using assms by (simp add: sliced_def)
qed

lemma sliced_unfinished:
  assumes "sliced s i r s'"
  shows "i \<in> unfinished s" and "unfinished s' = (if rem s' i = 0 then unfinished s - {i} else unfinished s)"
  using assms by (auto simp: sliced_def same_tasks_def unfinished_def split: if_splits)

lemma sliced_card:
  assumes "sliced s i r s'"
  shows "card (unfinished s) = (if rem s' i = 0 then Suc (card (unfinished s')) else card (unfinished s'))"
  using sliced_unfinished [OF assms] card_Suc_Diff1 [of "unfinished s" i] by auto

subsection \<open>The common interface of the main loops\<close>

locale slicing_loop =
  fixes body :: "'c \<Rightarrow> 'c + (bool \<times> scheduler)"
    and sched :: "'c \<Rightarrow> scheduler"
    and idle :: "'c \<Rightarrow> bool"
    and inv :: "'c \<Rightarrow> bool"
  assumes inv_step: "inv c \<Longrightarrow> body c = Inl c' \<Longrightarrow> inv c'"
    and step: "inv c \<Longrightarrow> body c = Inl c' \<Longrightarrow>
      (idle c \<and> \<not> idle c' \<and> sched c' = sched c) \<or> (\<exists>i r. sliced (sched c) i r (sched c'))"
    and leave: "inv c \<Longrightarrow> body c = Inr (ok, s) \<Longrightarrow>
      s = sched c \<and> (ok \<longleftrightarrow> all_tasks_complete s) \<and>
      (\<not> ok \<longrightarrow> (\<exists>i<task_count s. rem s i \<noteq> 0 \<and> arr s i = UINT32_MAX))"
begin

definition measure_of :: "'c \<Rightarrow> nat" where
  "measure_of c = 2 * work (sched c) + (if idle c then 1 else 0)"

definition accounts :: "scheduler \<Rightarrow> 'c \<Rightarrow> bool" where
  "accounts s0 c \<longleftrightarrow> inv c \<and> same_tasks s0 (sched c) \<and>
     total_switch_cycle_cost (summary (sched c)) + rest (sched c) =
     total_switch_cycle_cost (summary s0) + rest s0"

lemma step_cases:
  assumes "inv c" "body c = Inl c'"
  obtains (skip) "idle c" "\<not> idle c'" "sched c' = sched c"
  | (slice) i r where "sliced (sched c) i r (sched c')"
  using step [OF assms] by blast

lemma step_accounts:
  assumes "accounts s0 c" "body c = Inl c'"
  shows "accounts s0 c'"
proof -
  have i: "inv c" "inv c'" using assms inv_step [of c c'] by (simp_all add: accounts_def)
  from i(1) assms(2) show ?thesis
  proof (cases rule: step_cases)
    case skip
    then show ?thesis using assms(1) i(2) by (simp add: accounts_def)
  next
    case (slice k r)
    have "same_tasks s0 (sched c')"
      using assms(1) slice same_tasks_trans [of s0 "sched c" "sched c'"] by (simp add: accounts_def sliced_def)
    then show ?thesis using assms(1) i(2) sliced_cost [OF slice] by (simp add: accounts_def)
  qed
qed

lemma step_measure:
  assumes "inv c" "body c = Inl c'"
  shows "measure_of c' < measure_of c"
  using assms by (cases rule: step_cases) (auto simp: measure_of_def dest: sliced_work)

lemma reaches_inv: "loop_reaches body c0 c \<Longrightarrow> inv c0 \<Longrightarrow> inv c"
  by (rule loop_reaches_inv) (use inv_step in auto)

text \<open>The loop returns; what it returns is a state that satisfies the invariant.\<close>

lemma returns:
  assumes "inv c0"
  shows "\<exists>ok c. loop_until body c0 = Some (ok, sched c) \<and> accounts (sched c0) c \<and>
     (ok \<longleftrightarrow> all_tasks_complete (sched c)) \<and>
     (\<not> ok \<longrightarrow> (\<exists>i<task_count (sched c). rem (sched c) i \<noteq> 0 \<and> arr (sched c) i = UINT32_MAX))"
proof -
  define Q where "Q r \<longleftrightarrow> (\<exists>c. inv c \<and> accounts (sched c0) c \<and> body c = Inr r)" for r
  have "accounts (sched c0) c0" using assms by (simp add: accounts_def)
  then have "\<exists>r. loop_until body c0 = Some r \<and> Q r"
  proof (rule loop_until_total [where m = measure_of and I = "accounts (sched c0)"])
    fix c c' assume c: "accounts (sched c0) c" "body c = Inl c'"
    then have "inv c" by (simp add: accounts_def)
    then show "accounts (sched c0) c' \<and> measure_of c' < measure_of c"
      using step_accounts [OF c] step_measure [of c c'] c(2) by simp
  next
    fix c r assume "accounts (sched c0) c" "body c = Inr r"
    then show "Q r" unfolding Q_def accounts_def by blast
  qed
  then obtain ok s c where r: "loop_until body c0 = Some (ok, s)" "inv c" "accounts (sched c0) c" "body c = Inr (ok, s)"
    unfolding Q_def by (metis surj_pair)
  have s: "s = sched c" using leave [OF r(2,4)] by blast
  show ?thesis
    using r(1,3) leave [OF r(2,4)] unfolding s by (intro exI [of _ ok] exI [of _ c]) blast
qed

end

subsection \<open>Waiting for the next arrival\<close>

definition ready :: "scheduler \<Rightarrow> u32 \<Rightarrow> nat \<Rightarrow> bool" where
  "ready s now i \<longleftrightarrow> i < task_count s \<and> rem s i \<noteq> 0 \<and> arr s i \<le> now"

definition none_ready :: "scheduler \<Rightarrow> u32 \<Rightarrow> bool" where
  "none_ready s now \<longleftrightarrow> (\<forall>i. \<not> ready s now i)"

lemma next_arrival_least:
  "i < task_count s \<Longrightarrow> rem s i \<noteq> 0 \<Longrightarrow> now < arr s i \<Longrightarrow> next_arrival_time s now \<le> arr s i" (is "_ \<Longrightarrow> _ \<Longrightarrow> _ \<Longrightarrow> ?P")
  and next_arrival_exists:
  "next_arrival_time s now \<noteq> UINT32_MAX \<Longrightarrow>
     \<exists>i<task_count s. rem s i \<noteq> 0 \<and> now < arr s i \<and> arr s i = next_arrival_time s now" (is "?m \<Longrightarrow> ?Q")
proof -
  define f where "f = (\<lambda>i next. let t = tasks s i in
         if remaining_time t \<noteq> 0 \<and> arrival_time t > now \<and> arrival_time t < next then arrival_time t else next)"
  have "(\<forall>i<n. rem s i \<noteq> 0 \<and> now < arr s i \<longrightarrow> fold f [0..<n] UINT32_MAX \<le> arr s i) \<and>
    (fold f [0..<n] UINT32_MAX \<noteq> UINT32_MAX \<longrightarrow>
      (\<exists>i<n. rem s i \<noteq> 0 \<and> now < arr s i \<and> arr s i = fold f [0..<n] UINT32_MAX))" for n
  proof (induction n)
    case 0
    then show ?case by simp
  next
    case (Suc n)
    define m where "m = fold f [0..<n] UINT32_MAX"
    have "fold f [0..<Suc n] UINT32_MAX = f n m" by (simp add: m_def)
    moreover have "f n m = (if rem s n \<noteq> 0 \<and> now < arr s n \<and> arr s n < m then arr s n else m)"
      by (simp add: f_def Let_def)
    ultimately have "fold f [0..<Suc n] UINT32_MAX = (if rem s n \<noteq> 0 \<and> now < arr s n \<and> arr s n < m then arr s n else m)"
      by simp
    then show ?case
      using Suc [folded m_def] by (auto simp: less_Suc_eq not_less split: if_splits)
  qed
  from this [of "task_count s"]
  show "i < task_count s \<Longrightarrow> rem s i \<noteq> 0 \<Longrightarrow> now < arr s i \<Longrightarrow> ?P" "?m \<Longrightarrow> ?Q"
    by (auto simp: next_arrival_time_def f_def)
qed

lemma idle_stuck:
  assumes "none_ready s now" "\<not> all_tasks_complete s" "next_arrival_time s now = UINT32_MAX"
  shows "\<exists>i<task_count s. rem s i \<noteq> 0 \<and> arr s i = UINT32_MAX"
proof -
  obtain i where i: "i < task_count s" "rem s i \<noteq> 0" using assms(2) by (auto simp: complete_iff)
  then have "now < arr s i" using assms(1) by (auto simp: none_ready_def ready_def not_le)
  then have "UINT32_MAX \<le> arr s i" using next_arrival_least [OF i, of now] assms(3) by simp
  moreover have "UINT32_MAX = - 1" by simp
  ultimately have "arr s i = UINT32_MAX" using word_order.extremum_unique [of "arr s i"] by metis
  then show ?thesis using i by blast
qed

lemma idle_skip:
  assumes "next_arrival_time s now \<noteq> UINT32_MAX"
  shows "\<not> none_ready s (next_arrival_time s now)"
  using next_arrival_exists [OF assms] by (auto simp: none_ready_def ready_def)

lemma pick_fcfs_none: "task_count s \<le> 8 \<Longrightarrow> pick_fcfs s now = 8 \<longleftrightarrow> none_ready s now"
  unfolding pick_fcfs_def none_ready_def ready_def
  by (subst scan_best_none_iff) (simp_all flip: not_le, blast)

lemma pick_fcfs_ready: "pick_fcfs s now \<noteq> 8 \<Longrightarrow> ready s now (pick_fcfs s now)"
  unfolding pick_fcfs_def by (drule scan_best_cand) (auto simp: ready_def not_less)

lemma pick_cfs_none: "task_count s \<le> 8 \<Longrightarrow> pick_cfs_lite s now = 8 \<longleftrightarrow> none_ready s now"
  unfolding pick_cfs_lite_def none_ready_def ready_def
  by (subst scan_best_none_iff) (simp_all flip: not_le, blast)

lemma pick_cfs_ready: "pick_cfs_lite s now \<noteq> 8 \<Longrightarrow> ready s now (pick_cfs_lite s now)"
  unfolding pick_cfs_lite_def by (drule scan_best_cand) (auto simp: ready_def not_less)

text \<open>What the two policies select: the smallest key among the tasks that are ready, the first one in
  the table when keys are equal.\<close>

definition fcfs_key :: "scheduler \<Rightarrow> nat \<Rightarrow> u32 \<times> u32" where
  "fcfs_key s i = (arr s i, task_pid (tasks s i))"

definition cfs_key :: "scheduler \<Rightarrow> nat \<Rightarrow> u32 \<times> u32 \<times> u32" where
  "cfs_key s i = (vrun s i, arr s i, task_pid (tasks s i))"

lemma pick_fcfs_least:
  assumes "task_count s \<le> 8" "ready s now j"
  shows "fcfs_key s (pick_fcfs s now) \<le> fcfs_key s j"
    and "j < pick_fcfs s now \<Longrightarrow> fcfs_key s (pick_fcfs s now) < fcfs_key s j"
  using assms unfolding pick_fcfs_def
  by (intro scan_best_least; auto simp: fcfs_key_def ready_def less_prod_def')+

lemma pick_cfs_least:
  assumes "task_count s \<le> 8" "ready s now j"
  shows "cfs_key s (pick_cfs_lite s now) \<le> cfs_key s j"
    and "j < pick_cfs_lite s now \<Longrightarrow> cfs_key s (pick_cfs_lite s now) < cfs_key s j"
  using assms unfolding pick_cfs_lite_def
  by (intro scan_best_least; auto simp: cfs_key_def ready_def less_prod_def')+

subsection \<open>First come, first served\<close>

lemma fcfs_step:
  assumes "fcfs_body (s, now) = Inl (s', now')" "task_count s \<le> 8"
  obtains (skip) "none_ready s now" "\<not> none_ready s now'" "s' = s" "now' = next_arrival_time s now"
      "next_arrival_time s now \<noteq> UINT32_MAX"
  | (run) i where "i = pick_fcfs s now" "ready s now i" "now' = now + rem s i"
      "s' = upd_task (record_context_switch s (rem s i)) i (\<lambda>t. t\<lparr>remaining_time := 0, completion_time := now'\<rparr>)"
proof (cases "pick_fcfs s now = 8")
  case True
  then show ?thesis
    using assms skip idle_skip [of s now] pick_fcfs_none [of s now]
    by (auto simp: fcfs_body_def Let_def split: if_splits)
next
  case False
  then show ?thesis
    using assms run [of "pick_fcfs s now"] pick_fcfs_ready [of s now]
    by (auto simp: fcfs_body_def Let_def split: if_splits)
qed

lemma fcfs_run_sliced:
  assumes "ready s now i"
  shows "sliced s i (rem s i)
    (upd_task (record_context_switch s (rem s i)) i (\<lambda>t. t\<lparr>remaining_time := 0, completion_time := n\<rparr>))"
  using assms by (auto simp: sliced_def ready_def same_tasks_def sched_simps word_gt_0)

lemma body_leave:
  assumes "task_count s \<le> 8"
  shows "fcfs_body (s, now) = Inr (ok, s') \<Longrightarrow> s' = s \<and> (ok \<longleftrightarrow> all_tasks_complete s) \<and>
      (\<not> ok \<longrightarrow> (\<exists>i<task_count s. rem s i \<noteq> 0 \<and> arr s i = UINT32_MAX))"
    and "cfs_body time_slice (s, now) = Inr (ok, s') \<Longrightarrow> s' = s \<and> (ok \<longleftrightarrow> all_tasks_complete s) \<and>
      (\<not> ok \<longrightarrow> (\<exists>i<task_count s. rem s i \<noteq> 0 \<and> arr s i = UINT32_MAX))"
  using idle_stuck [of s now] pick_fcfs_none [OF assms, of now] pick_cfs_none [OF assms, of now]
  by (auto simp: fcfs_body_def cfs_body_def Let_def split: if_splits)

definition switch_count :: "scheduler \<Rightarrow> bool" where
  "switch_count s \<longleftrightarrow> context_switches (summary s) + of_nat (card (unfinished s)) =
     of_nat (task_count s) + preempt_count (summary s)"

definition fcfs_inv :: "scheduler \<times> u32 \<Rightarrow> bool" where
  "fcfs_inv c \<longleftrightarrow> sched_wf (fst c) \<and> preempt_count (summary (fst c)) = 0 \<and> switch_count (fst c)"

lemma sliced_switch_count:
  assumes "sliced s i r s'" "switch_count s"
    "preempt_count (summary s') = preempt_count (summary s) + (if rem s' i = 0 then 0 else 1)"
  shows "switch_count s'"
  using assms sliced_card [OF assms(1)]
  by (auto simp: switch_count_def sliced_def same_tasks_def algebra_simps split: if_splits)

lemma fcfs_inv_step:
  assumes "fcfs_inv (s, now)" "fcfs_body (s, now) = Inl (s', now')"
  shows "fcfs_inv (s', now')"
    and "none_ready s now \<and> \<not> none_ready s' now' \<and> s' = s \<or> (\<exists>i r. sliced s i r s')"
proof -
  have n: "task_count s \<le> 8" using assms(1) by (simp add: fcfs_inv_def sched_wf_def)
  from assms(2) n have "fcfs_inv (s', now') \<and>
    (none_ready s now \<and> \<not> none_ready s' now' \<and> s' = s \<or> (\<exists>i r. sliced s i r s'))"
  proof (cases rule: fcfs_step)
    case skip
    then show ?thesis using assms(1) by (simp add: fcfs_inv_def)
  next
    case (run i)
    have sl: "sliced s i (rem s i) s'" using fcfs_run_sliced [OF run(2)] by (simp add: run(4))
    have "preempt_count (summary s') = preempt_count (summary s)" "rem s' i = 0"
      by (simp_all add: run(4) sched_simps)
    then show ?thesis
      using assms(1) sl sliced_switch_count [OF sl] same_tasks_wf [of s s']
      by (auto simp: fcfs_inv_def sliced_def)
  qed
  then show "fcfs_inv (s', now')"
    "none_ready s now \<and> \<not> none_ready s' now' \<and> s' = s \<or> (\<exists>i r. sliced s i r s')" by blast+
qed

interpretation fcfs: slicing_loop fcfs_body fst "\<lambda>c. none_ready (fst c) (snd c)" fcfs_inv
proof
  fix c c' assume "fcfs_inv c" "fcfs_body c = Inl c'"
  then show "fcfs_inv c'" "none_ready (fst c) (snd c) \<and> \<not> none_ready (fst c') (snd c') \<and> fst c' = fst c \<or>
      (\<exists>i r. sliced (fst c) i r (fst c'))"
    using fcfs_inv_step [of "fst c" "snd c" "fst c'" "snd c'"] by simp_all
next
  fix c ok s assume "fcfs_inv c" "fcfs_body c = Inr (ok, s)"
  then show "s = fst c \<and> (ok \<longleftrightarrow> all_tasks_complete s) \<and>
      (\<not> ok \<longrightarrow> (\<exists>i<task_count s. rem s i \<noteq> 0 \<and> arr s i = UINT32_MAX))"
    using body_leave(1) [of "fst c" "snd c" ok s] by (auto simp: fcfs_inv_def sched_wf_def)
qed

subsection \<open>CFS-lite\<close>

definition slice_len :: "u32 \<Rightarrow> u32 \<Rightarrow> u32" where
  "slice_len time_slice left = (if left < time_slice then left else time_slice)"

lemma slice_len_bounds: "time_slice \<noteq> 0 \<Longrightarrow> left \<noteq> 0 \<Longrightarrow>
    0 < slice_len time_slice left \<and> slice_len time_slice left \<le> left \<and> slice_len time_slice left \<le> time_slice"
  by (auto simp: slice_len_def word_gt_0)

lemma cfs_step:
  assumes "cfs_body time_slice (s, now) = Inl (s', now')" "task_count s \<le> 8"
  obtains (skip) "none_ready s now" "\<not> none_ready s now'" "s' = s" "now' = next_arrival_time s now"
      "next_arrival_time s now \<noteq> UINT32_MAX"
  | (run) i r where "i = pick_cfs_lite s now" "ready s now i" "r = slice_len time_slice (rem s i)" "now' = now + r"
      "s' = upd_task (record_context_switch s r) i (\<lambda>t. t\<lparr>remaining_time := remaining_time t - r,
         vruntime := vruntime t + r, completion_time := (if remaining_time t = r then now' else completion_time t)\<rparr>)"
proof (cases "pick_cfs_lite s now = 8")
  case True
  then show ?thesis
    using assms skip idle_skip [of s now] pick_cfs_none [of s now]
    by (auto simp: cfs_body_def Let_def split: if_splits)
next
  case False
  let ?i = "pick_cfs_lite s now" let ?r = "slice_len time_slice (rem s ?i)"
  have "now' = now + ?r \<and> s' = upd_task (record_context_switch s ?r) ?i (\<lambda>t. t\<lparr>remaining_time := remaining_time t - ?r,
         vruntime := vruntime t + ?r, completion_time := (if remaining_time t = ?r then now' else completion_time t)\<rparr>)"
    using assms(1) False unfolding cfs_body_def
    by (auto simp: Let_def slice_len_def [symmetric] sched_simps upd_task_def record_context_switch_def
        upd_summary_def split: if_splits)
  then show ?thesis
    using run [of ?i ?r] pick_cfs_ready [OF False] by simp
qed

lemma cfs_run_sliced:
  assumes "ready s now i" "time_slice \<noteq> 0" "r = slice_len time_slice (rem s i)"
  shows "sliced s i r (upd_task (record_context_switch s r) i (\<lambda>t. t\<lparr>remaining_time := remaining_time t - r,
         vruntime := vruntime t + r, completion_time := h t\<rparr>))"
  using assms slice_len_bounds [of time_slice "rem s i"]
  by (auto simp: sliced_def ready_def same_tasks_def sched_simps)

definition cfs_inv :: "u32 \<Rightarrow> scheduler \<times> u32 \<Rightarrow> bool" where
  "cfs_inv time_slice c \<longleftrightarrow> time_slice \<noteq> 0 \<and> sched_wf (fst c) \<and> preempt_count (summary (fst c)) = 0 \<and>
     (\<forall>i<task_count (fst c). vrun (fst c) i + rem (fst c) i = burst (fst c) i)"

lemma cfs_inv_step:
  assumes "cfs_inv ts (s, now)" "cfs_body ts (s, now) = Inl (s', now')"
  shows "cfs_inv ts (s', now')"
    and "none_ready s now \<and> \<not> none_ready s' now' \<and> s' = s \<or> (\<exists>i r. sliced s i r s')"
proof -
  have n: "task_count s \<le> 8" and ts: "ts \<noteq> 0" using assms(1) by (simp_all add: cfs_inv_def sched_wf_def)
  from assms(2) n have "cfs_inv ts (s', now') \<and>
    (none_ready s now \<and> \<not> none_ready s' now' \<and> s' = s \<or> (\<exists>i r. sliced s i r s'))"
  proof (cases rule: cfs_step)
    case skip
    then show ?thesis using assms(1) by (simp add: cfs_inv_def)
  next
    case (run i r)
    have sl: "sliced s i r s'" using cfs_run_sliced [OF run(2) ts run(3)] by (simp add: run(5))
    have "preempt_count (summary s') = preempt_count (summary s)"
      "vrun s' k = (if k = i then vrun s i + r else vrun s k)" for k
      by (simp_all add: run(5) sched_simps)
    then show ?thesis
      using assms(1) sl same_tasks_wf [of s s'] by (auto simp: cfs_inv_def sliced_def same_tasks_def)
  qed
  then show "cfs_inv ts (s', now')"
    "none_ready s now \<and> \<not> none_ready s' now' \<and> s' = s \<or> (\<exists>i r. sliced s i r s')" by blast+
qed

interpretation cfs: slicing_loop "cfs_body ts" fst "\<lambda>c. none_ready (fst c) (snd c)" "cfs_inv ts" for ts
proof
  fix c c' assume "cfs_inv ts c" "cfs_body ts c = Inl c'"
  then show "cfs_inv ts c'" "none_ready (fst c) (snd c) \<and> \<not> none_ready (fst c') (snd c') \<and> fst c' = fst c \<or>
      (\<exists>i r. sliced (fst c) i r (fst c'))"
    using cfs_inv_step [of ts "fst c" "snd c" "fst c'" "snd c'"] by simp_all
next
  fix c ok s assume "cfs_inv ts c" "cfs_body ts c = Inr (ok, s)"
  then show "s = fst c \<and> (ok \<longleftrightarrow> all_tasks_complete s) \<and>
      (\<not> ok \<longrightarrow> (\<exists>i<task_count s. rem s i \<noteq> 0 \<and> arr s i = UINT32_MAX))"
    using body_leave(2) [of "fst c" ts "snd c" ok s] by (auto simp: cfs_inv_def sched_wf_def)
qed

subsection \<open>Round robin: the queue\<close>

definition rr_items :: "rr_queue \<Rightarrow> nat list" where
  "rr_items q = arr_list (fst q) (snd q)"

definition rr_new :: "scheduler \<Rightarrow> u32 \<Rightarrow> rr_queue \<times> bool carray \<Rightarrow> nat \<Rightarrow> bool" where
  "rr_new s now qd i \<longleftrightarrow> \<not> snd qd i \<and> task_ready (tasks s i) now \<and> i \<notin> set (rr_items (fst qd))"

lemma rr_queue_contains_iff: "rr_queue_contains q n i \<longleftrightarrow> i \<in> set (rr_items (q, n))"
  by (auto simp: rr_queue_contains_def rr_items_def set_arr_list list_ex_iff image_iff)

lemma rr_enqueue_arrivals_items:
  shows "rr_items (fst (rr_enqueue_arrivals s now qd)) = rr_items (fst qd) @ filter (rr_new s now qd) [0..<task_count s]"
    and "snd (rr_enqueue_arrivals s now qd) i = (snd qd i \<or> (i < task_count s \<and> rr_new s now qd i))"
proof -
  define f where "f = (\<lambda>i ((queue, queue_count), discovered).
         if \<not> discovered i \<and> task_ready (tasks s i) now \<and> \<not> rr_queue_contains queue queue_count i
         then ((queue(queue_count := i), queue_count + 1), discovered(i := True))
         else ((queue, queue_count), discovered))"
  have f: "f i qd' = (if rr_new s now qd' i
      then (((fst (fst qd'))(snd (fst qd') := i), snd (fst qd') + 1), (snd qd')(i := True)) else qd')" for i qd'
    by (auto simp: f_def rr_new_def rr_queue_contains_iff split: prod.splits)
  have "rr_items (fst (fold f [0..<n] qd)) = rr_items (fst qd) @ filter (rr_new s now qd) [0..<n] \<and>
     (\<forall>i. snd (fold f [0..<n] qd) i = (snd qd i \<or> (i < n \<and> rr_new s now qd i)))" for n
  proof (induction n)
    case 0
    then show ?case by simp
  next
    case (Suc n)
    define qd' where "qd' = fold f [0..<n] qd"
    have IH: "rr_items (fst qd') = rr_items (fst qd) @ filter (rr_new s now qd) [0..<n]"
      "\<And>i. snd qd' i = (snd qd i \<or> (i < n \<and> rr_new s now qd i))"
      using Suc by (simp_all add: qd'_def)
    have new: "rr_new s now qd' n = rr_new s now qd n"
      by (simp add: rr_new_def IH)
    have "fold f [0..<Suc n] qd = f n qd'" by (simp add: qd'_def)
    then show ?case
      using IH unfolding f new by (auto simp: rr_items_def arr_list_Suc less_Suc_eq)
  qed
  from this [of "task_count s"]
  show "rr_items (fst (rr_enqueue_arrivals s now qd)) = rr_items (fst qd) @ filter (rr_new s now qd) [0..<task_count s]"
    "snd (rr_enqueue_arrivals s now qd) i = (snd qd i \<or> (i < task_count s \<and> rr_new s now qd i))"
    by (simp_all add: rr_enqueue_arrivals_def f_def)
qed

lemma rr_pop_items:
  "snd q \<noteq> 0 \<Longrightarrow> rr_items q = fst (rr_pop q) # rr_items (snd (rr_pop q))"
  using arr_list_pop_front [of "snd q" "fst q"] arr_list_head [of "snd q" "fst q"]
  by (cases q) (simp add: rr_pop_def rr_items_def)

lemma length_rr_items [simp]: "length (rr_items q) = snd q"
  by (simp add: rr_items_def)

text \<open>What the queue means: the unfinished tasks that have been seen, each once.\<close>

definition rr_wf :: "scheduler \<Rightarrow> rr_queue \<times> bool carray \<Rightarrow> bool" where
  "rr_wf s qd \<longleftrightarrow> distinct (rr_items (fst qd)) \<and>
     (\<forall>i. i \<in> set (rr_items (fst qd)) \<longleftrightarrow> i < task_count s \<and> rem s i \<noteq> 0 \<and> snd qd i)"

lemma rr_wf_bound:
  assumes "rr_wf s qd"
  shows "snd (fst qd) \<le> task_count s"
proof -
  have "set (rr_items (fst qd)) \<subseteq> {..<task_count s}" using assms by (auto simp: rr_wf_def)
  then have "card (set (rr_items (fst qd))) \<le> card {..<task_count s}" by (intro card_mono) simp_all
  moreover have "card (set (rr_items (fst qd))) = snd (fst qd)"
    using assms distinct_card [of "rr_items (fst qd)"] by (simp add: rr_wf_def)
  ultimately show ?thesis by simp
qed

lemma rr_wf_arrivals:
  assumes "rr_wf s qd"
  shows "rr_wf s (rr_enqueue_arrivals s now qd)"
    and "ready s now i \<Longrightarrow> i \<in> set (rr_items (fst (rr_enqueue_arrivals s now qd)))"
  using assms
  by (auto simp: rr_wf_def rr_enqueue_arrivals_items rr_new_def task_ready_def ready_def)

subsection \<open>Round robin: the loop\<close>

lemma rr_wait_Some:
  assumes "rr_wait s qd now = Some (qd', now')" "rr_wf s qd"
  shows "rr_wf s qd'" and "snd (fst qd') \<noteq> 0"
  using assms rr_wf_arrivals(1) [of s qd now]
    rr_wf_arrivals(1) [of s "rr_enqueue_arrivals s now qd" "next_arrival_time s now"]
  by (auto simp: rr_wait_def Let_def split: if_splits)

lemma rr_wait_None:
  assumes "rr_wait s qd now = None" "rr_wf s qd" "\<not> all_tasks_complete s"
  shows "\<exists>i<task_count s. rem s i \<noteq> 0 \<and> arr s i = UINT32_MAX"
proof -
  let ?qd1 = "rr_enqueue_arrivals s now qd"
  have "rr_items (fst ?qd1) = []"
    using assms(1) by (auto simp: rr_wait_def Let_def simp flip: length_0_conv split: if_splits)
  then have none: "none_ready s now"
    using rr_wf_arrivals(2) [OF assms(2), of now] by (auto simp: none_ready_def)
  show ?thesis
  proof (cases "next_arrival_time s now = UINT32_MAX")
    case True
    then show ?thesis by (rule idle_stuck [OF none assms(3)])
  next
    case False
    then obtain i where "ready s (next_arrival_time s now) i"
      using idle_skip by (auto simp: none_ready_def)
    then have "i \<in> set (rr_items (fst (rr_enqueue_arrivals s (next_arrival_time s now) ?qd1)))"
      by (rule rr_wf_arrivals(2) [OF rr_wf_arrivals(1) [OF assms(2)]])
    then have "snd (fst (rr_enqueue_arrivals s (next_arrival_time s now) ?qd1)) \<noteq> 0"
      by (metis length_rr_items length_0_conv empty_iff list.set(1))
    then show ?thesis using assms(1) False by (auto simp: rr_wait_def Let_def split: if_splits)
  qed
qed

definition rr_task :: "scheduler \<Rightarrow> nat \<Rightarrow> u32 \<Rightarrow> u32 \<Rightarrow> scheduler" where
  "rr_task s i r now2 = upd_task (record_context_switch s r) i (\<lambda>t. t\<lparr>remaining_time := remaining_time t - r,
     completion_time := (if remaining_time t = r then now2 else completion_time t)\<rparr>)"

definition rr_preempted :: "scheduler \<Rightarrow> scheduler" where
  "rr_preempted s = upd_summary s (\<lambda>m. m\<lparr>preempt_count := preempt_count m + 1\<rparr>)"

text \<open>One iteration, as the four things that happen: wait, take the head of the queue, run it for a
  slice, queue the arrivals and then the task itself when it is not finished.\<close>

lemma rr_step:
  assumes "rr_body ts (s, qd, now) = Inl (s', qd', now')"
  obtains qd1 now1 i q1 r qd2 where "rr_wait s qd now = Some (qd1, now1)" "rr_pop (fst qd1) = (i, q1)"
    "r = slice_len ts (rem s i)" "now' = now1 + r"
    "qd2 = rr_enqueue_arrivals (upd_task (record_context_switch s r) i (\<lambda>t. t\<lparr>remaining_time := remaining_time t - r\<rparr>))
       now' (q1, snd qd1)"
    "s' = (if rem s i = r then rr_task s i r now' else rr_preempted (rr_task s i r now'))"
    "qd' = (if rem s i = r then qd2 else (((fst (fst qd2))(snd (fst qd2) := i), snd (fst qd2) + 1), snd qd2))"
proof -
  obtain qd1 now1 where w: "rr_wait s qd now = Some (qd1, now1)"
    using assms by (auto simp: rr_body_def split: if_splits option.splits)
  obtain i q1 where p: "rr_pop (fst qd1) = (i, q1)" by (metis surj_pair)
  define r where "r = slice_len ts (rem s i)"
  define qd2 where "qd2 = rr_enqueue_arrivals (upd_task (record_context_switch s r) i
    (\<lambda>t. t\<lparr>remaining_time := remaining_time t - r\<rparr>)) (now1 + r) (q1, snd qd1)"
  obtain q2 n2 d2 where qd2: "qd2 = ((q2, n2), d2)" by (metis surj_pair)
  obtain q d where qd1: "qd1 = (q, d)" by (metis surj_pair)
  have e: "rr_enqueue_arrivals (upd_task (record_context_switch s r) i
    (\<lambda>t. t\<lparr>remaining_time := remaining_time t - r\<rparr>)) (now1 + r) (q1, d) = ((q2, n2), d2)"
    using qd2 qd1 by (simp add: qd2_def)
  have nc: "\<not> all_tasks_complete s" using assms by (auto simp: rr_body_def)
  have "rr_body ts (s, qd, now) = (if rem s i = r
      then Inl (rr_task s i r (now1 + r), qd2, now1 + r)
      else Inl (rr_preempted (rr_task s i r (now1 + r)), ((q2(n2 := i), n2 + 1), d2), now1 + r))"
    using nc w p qd1 e qd2
    unfolding rr_body_def rr_task_def rr_preempted_def
    by (simp add: slice_len_def [symmetric] r_def [symmetric])
      (auto simp: sched_simps upd_task_def upd_summary_def Let_def)
  then show ?thesis
    using that [OF w p r_def, of qd2] assms qd2 by (auto simp: qd2_def qd1 split: if_splits)
qed

lemma rr_run_sliced:
  assumes "i < task_count s" "rem s i \<noteq> 0" "ts \<noteq> 0" "r = slice_len ts (rem s i)"
  shows "sliced s i r (rr_task s i r n)" "sliced s i r (rr_preempted (rr_task s i r n))"
  using assms slice_len_bounds [of ts "rem s i"]
  by (auto simp: sliced_def rr_task_def rr_preempted_def same_tasks_def sched_simps)

definition rr_inv :: "u32 \<Rightarrow> scheduler \<times> (rr_queue \<times> bool carray) \<times> u32 \<Rightarrow> bool" where
  "rr_inv ts c \<longleftrightarrow> ts \<noteq> 0 \<and> sched_wf (fst c) \<and> switch_count (fst c) \<and> rr_wf (fst c) (fst (snd c))"

lemma rr_wf_run:
  assumes wf: "rr_wf s qd1" "snd (fst qd1) \<noteq> 0" and pop: "rr_pop (fst qd1) = (i, q1)"
    and s2: "task_count s2 = task_count s" "\<And>k. rem s2 k = (if k = i then rem s i - r else rem s k)"
    and qd2: "qd2 = rr_enqueue_arrivals s2 now (q1, snd qd1)"
  shows "i < task_count s" "rem s i \<noteq> 0"
    and "rem s i = r \<Longrightarrow> rr_wf s2 qd2"
    and "rem s i \<noteq> r \<Longrightarrow> rr_wf s2 (((fst (fst qd2))(snd (fst qd2) := i), snd (fst qd2) + 1), snd qd2)"
proof -
  have items: "rr_items (fst qd1) = i # rr_items q1" using rr_pop_items [OF wf(2)] pop by simp
  have d: "distinct (i # rr_items q1)"
    and m: "\<And>k. k \<in> set (i # rr_items q1) \<longleftrightarrow> k < task_count s \<and> rem s k \<noteq> 0 \<and> snd qd1 k"
    using wf(1) unfolding rr_wf_def items by blast+
  show i: "i < task_count s" "rem s i \<noteq> 0" using m [of i] by auto
  have i': "snd qd1 i" "i \<notin> set (rr_items q1)" using m [of i] d by auto
  have m': "k \<in> set (rr_items q1) \<longleftrightarrow> k \<noteq> i \<and> k < task_count s \<and> rem s k \<noteq> 0 \<and> snd qd1 k" for k
    using m [of k] i' i by auto
  let ?new = "rr_new s2 now (q1, snd qd1)"
  have q2: "rr_items (fst qd2) = rr_items q1 @ filter ?new [0..<task_count s]"
    and d2: "\<And>k. snd qd2 k = (snd qd1 k \<or> (k < task_count s \<and> ?new k))"
    by (simp_all add: qd2 rr_enqueue_arrivals_items s2(1))
  have new: "?new k \<longleftrightarrow> \<not> snd qd1 k \<and> task_ready (tasks s2 k) now" for k
    using m' [of k] by (auto simp: rr_new_def)
  have dist: "distinct (rr_items (fst qd2))" "i \<notin> set (rr_items (fst qd2))"
    using d i' m' by (auto simp: q2 new)
  have mem: "k \<in> set (rr_items (fst qd2)) \<longleftrightarrow> k \<noteq> i \<and> k < task_count s2 \<and> rem s2 k \<noteq> 0 \<and> snd qd2 k" for k
    using i'(1) by (auto simp: q2 d2 m' new s2 task_ready_def)
  show "rem s i = r \<Longrightarrow> rr_wf s2 qd2"
    using dist mem by (auto simp: rr_wf_def s2)
  have app: "rr_items ((fst (fst qd2))(snd (fst qd2) := i), snd (fst qd2) + 1) = rr_items (fst qd2) @ [i]"
    by (simp add: rr_items_def arr_list_Suc)
  have "snd qd2 i" by (simp add: d2 i')
  then show "rem s i \<noteq> r \<Longrightarrow> rr_wf s2 (((fst (fst qd2))(snd (fst qd2) := i), snd (fst qd2) + 1), snd qd2)"
    using dist mem i s2 unfolding rr_wf_def fst_conv snd_conv app by auto
qed

lemma rr_wf_cong:
  "task_count s' = task_count s \<Longrightarrow> (\<And>k. rem s' k = rem s k) \<Longrightarrow> rr_wf s' qd = rr_wf s qd"
  by (simp add: rr_wf_def)

lemma rr_inv_step:
  assumes "rr_inv ts (s, qd, now)" "rr_body ts (s, qd, now) = Inl (s', qd', now')"
  shows "rr_inv ts (s', qd', now') \<and> (\<exists>i r. sliced s i r s')"
  using assms(2)
proof (cases rule: rr_step)
  case (1 qd1 now1 i q1 r qd2)
  have ts: "ts \<noteq> 0" and wf: "rr_wf s qd" "sched_wf s" "switch_count s" using assms(1) by (simp_all add: rr_inv_def)
  let ?s2 = "upd_task (record_context_switch s r) i (\<lambda>t. t\<lparr>remaining_time := remaining_time t - r\<rparr>)"
  have qd1: "rr_wf s qd1" "snd (fst qd1) \<noteq> 0" using rr_wait_Some [OF 1(1) wf(1)] by simp_all
  have s2: "task_count ?s2 = task_count s" "\<And>k. rem ?s2 k = (if k = i then rem s i - r else rem s k)"
    by (simp_all add: sched_simps)
  note q = rr_wf_run [OF qd1 1(2) s2 1(5)]
  have sl: "sliced s i r s'" using rr_run_sliced [OF q(1,2) ts 1(3)] 1(6) by simp
  have s': "task_count s' = task_count ?s2" "\<And>k. rem s' k = rem ?s2 k"
    "preempt_count (summary s') = preempt_count (summary s) + (if rem s i = r then 0 else 1)"
    by (auto simp: 1(6) rr_task_def rr_preempted_def sched_simps)
  have "switch_count s'"
    by (rule sliced_switch_count [OF sl wf(3)]) (auto simp: s' s2)
  moreover have "rr_wf s' qd'" unfolding rr_wf_cong [OF s'(1,2)] using q(3,4) 1(7) by auto
  moreover have "sched_wf s'" using wf(2) sl same_tasks_wf [of s s'] by (simp add: sliced_def)
  ultimately show ?thesis using sl ts by (auto simp: rr_inv_def)
qed

lemma rr_leave:
  assumes "rr_wf s qd" "rr_body ts (s, qd, now) = Inr (ok, s')"
  shows "s' = s \<and> (ok \<longleftrightarrow> all_tasks_complete s) \<and>
      (\<not> ok \<longrightarrow> (\<exists>i<task_count s. rem s i \<noteq> 0 \<and> arr s i = UINT32_MAX))"
  using assms(2) rr_wait_None [OF _ assms(1), of now]
  by (auto simp: rr_body_def Let_def split: if_splits option.splits prod.splits)

interpretation rr: slicing_loop "rr_body ts" fst "\<lambda>_. False" "rr_inv ts" for ts
proof
  fix c c' assume "rr_inv ts c" "rr_body ts c = Inl c'"
  then show "rr_inv ts c'" "False \<and> \<not> False \<and> fst c' = fst c \<or> (\<exists>i r. sliced (fst c) i r (fst c'))"
    using rr_inv_step [of ts "fst c" "fst (snd c)" "snd (snd c)" "fst c'" "fst (snd c')" "snd (snd c')"] by simp_all
next
  fix c ok s assume "rr_inv ts c" "rr_body ts c = Inr (ok, s)"
  then show "s = fst c \<and> (ok \<longleftrightarrow> all_tasks_complete s) \<and>
      (\<not> ok \<longrightarrow> (\<exists>i<task_count s. rem s i \<noteq> 0 \<and> arr s i = UINT32_MAX))"
    using rr_leave [of "fst c" "fst (snd c)" ts "snd (snd c)" ok s] by (auto simp: rr_inv_def)
qed

subsection \<open>Starting a run and summing it up\<close>

lemma reset_sel:
  "task_count (reset_runtime_fields s) = task_count s"
  "summary (reset_runtime_fields s) = summary s"
  "tasks (reset_runtime_fields s) i = (if i < task_count s
     then (tasks s i)\<lparr>remaining_time := burst s i, completion_time := 0, vruntime := 0\<rparr> else tasks s i)"
proof -
  define f where "f = (\<lambda>i s. upd_task s i (\<lambda>t. t\<lparr>remaining_time := burst_time t, completion_time := 0, vruntime := 0\<rparr>))"
  have "task_count (fold f [0..<n] s) = task_count s \<and> summary (fold f [0..<n] s) = summary s \<and>
    (\<forall>i. tasks (fold f [0..<n] s) i = (if i < n
       then (tasks s i)\<lparr>remaining_time := burst s i, completion_time := 0, vruntime := 0\<rparr> else tasks s i))" for n
    by (induction n) (auto simp: f_def sched_simps less_Suc_eq)
  from this [of "task_count s"] show
    "task_count (reset_runtime_fields s) = task_count s" "summary (reset_runtime_fields s) = summary s"
    "tasks (reset_runtime_fields s) i = (if i < task_count s
     then (tasks s i)\<lparr>remaining_time := burst s i, completion_time := 0, vruntime := 0\<rparr> else tasks s i)"
    by (simp_all add: reset_runtime_fields_def f_def)
qed

lemma start_run_sel:
  "task_count (start_run s policy ts) = task_count s"
  "tasks (start_run s policy ts) i = (if i < task_count s
     then (tasks s i)\<lparr>remaining_time := burst s i, completion_time := 0, vruntime := 0\<rparr> else tasks s i)"
  "context_switches (summary (start_run s policy ts)) = 0"
  "preempt_count (summary (start_run s policy ts)) = 0"
  "total_switch_cycle_cost (summary (start_run s policy ts)) = 0"
  "policy_runs (summary (start_run s policy ts)) = policy_runs (summary s)"
  by (simp_all add: start_run_def sched_simps reset_sel)

lemma start_run_same: "same_tasks s (start_run s policy ts)"
  by (simp add: same_tasks_def start_run_sel)

lemma start_run_rest: "rest (start_run s policy ts) = (\<Sum>i<task_count s. burst s i)"
  by (simp add: rest_def start_run_sel)

lemma start_run_switch_count: "sched_wf s \<Longrightarrow> switch_count (start_run s policy ts)"
proof -
  assume "sched_wf s"
  then have "unfinished (start_run s policy ts) = {..<task_count s}"
    by (auto simp: unfinished_def start_run_sel sched_wf_def)
  then show ?thesis by (simp add: switch_count_def start_run_sel)
qed

lemma start_run_invs:
  assumes "sched_wf s"
  shows "fcfs_inv (start_run s policy ts, 0)"
    and "ts \<noteq> 0 \<Longrightarrow> cfs_inv ts (start_run s policy ts, 0)"
    and "ts \<noteq> 0 \<Longrightarrow> rr_inv ts (start_run s policy ts, (((\<lambda>_. 0), 0), (\<lambda>_. False)), 0)"
proof -
  have "sched_wf (start_run s policy ts)" using assms start_run_same same_tasks_wf by blast
  then show "fcfs_inv (start_run s policy ts, 0)"
    "ts \<noteq> 0 \<Longrightarrow> cfs_inv ts (start_run s policy ts, 0)"
    "ts \<noteq> 0 \<Longrightarrow> rr_inv ts (start_run s policy ts, (((\<lambda>_. 0), 0), (\<lambda>_. False)), 0)"
    using start_run_switch_count [OF assms, of policy ts]
    by (simp_all add: fcfs_inv_def cfs_inv_def rr_inv_def rr_wf_def rr_items_def start_run_sel)
qed

lemma wait_turnaround_sel:
  "tasks (update_wait_turnaround s) = tasks s"
  "task_count (update_wait_turnaround s) = task_count s"
  "context_switches (summary (update_wait_turnaround s)) = context_switches (summary s)"
  "preempt_count (summary (update_wait_turnaround s)) = preempt_count (summary s)"
  "total_switch_cycle_cost (summary (update_wait_turnaround s)) = total_switch_cycle_cost (summary s)"
  "policy_runs (summary (update_wait_turnaround s)) = policy_runs (summary s)"
  "total_wait_time (summary (update_wait_turnaround s)) =
     (\<Sum>i<task_count s. completion_time (tasks s i) - arr s i - burst s i)"
  "total_turnaround_time (summary (update_wait_turnaround s)) =
     (\<Sum>i<task_count s. completion_time (tasks s i) - arr s i)"
  "task_count s \<noteq> 0 \<Longrightarrow> average_wait_time (summary (update_wait_turnaround s)) =
     total_wait_time (summary (update_wait_turnaround s)) div of_nat (task_count s)"
proof -
  define f where "f = (\<lambda>i s'. let t = tasks s' i; turnaround = completion_time t - arrival_time t; wait = turnaround - burst_time t
     in upd_summary s' (\<lambda>m. m\<lparr>total_wait_time := total_wait_time m + wait,
          total_turnaround_time := total_turnaround_time m + turnaround\<rparr>))"
  define s1 where "s1 = upd_summary s (\<lambda>m. m\<lparr>total_wait_time := 0, total_turnaround_time := 0\<rparr>)"
  have "tasks (fold f [0..<n] s1) = tasks s \<and> task_count (fold f [0..<n] s1) = task_count s \<and>
    summary (fold f [0..<n] s1) = (summary s)\<lparr>
      total_wait_time := (\<Sum>i<n. completion_time (tasks s i) - arr s i - burst s i),
      total_turnaround_time := (\<Sum>i<n. completion_time (tasks s i) - arr s i)\<rparr>" for n
    by (induction n) (simp_all add: f_def s1_def sched_simps Let_def)
  note fold = this [of "task_count s"]
  define w where "w = fold f [0..<task_count s] s1"
  note fold = fold [folded w_def]
  have "update_wait_turnaround s = (if task_count s \<noteq> 0 then upd_summary w (\<lambda>m. m\<lparr>
           average_wait_time := total_wait_time m div of_nat (task_count s),
           average_turnaround_time := total_turnaround_time m div of_nat (task_count s)\<rparr>) else w)"
    unfolding update_wait_turnaround_def w_def f_def s1_def Let_def by (rule refl)
  then
  show "tasks (update_wait_turnaround s) = tasks s"
  "task_count (update_wait_turnaround s) = task_count s"
  "context_switches (summary (update_wait_turnaround s)) = context_switches (summary s)"
  "preempt_count (summary (update_wait_turnaround s)) = preempt_count (summary s)"
  "total_switch_cycle_cost (summary (update_wait_turnaround s)) = total_switch_cycle_cost (summary s)"
  "policy_runs (summary (update_wait_turnaround s)) = policy_runs (summary s)"
  "total_wait_time (summary (update_wait_turnaround s)) =
     (\<Sum>i<task_count s. completion_time (tasks s i) - arr s i - burst s i)"
  "total_turnaround_time (summary (update_wait_turnaround s)) =
     (\<Sum>i<task_count s. completion_time (tasks s i) - arr s i)"
  "task_count s \<noteq> 0 \<Longrightarrow> average_wait_time (summary (update_wait_turnaround s)) =
     total_wait_time (summary (update_wait_turnaround s)) div of_nat (task_count s)"
    using fold by (simp_all add: sched_simps)
qed

subsection \<open>What a run promises\<close>

definition main_loop :: "sched_policy \<Rightarrow> u32 \<Rightarrow> scheduler \<Rightarrow> (bool \<times> scheduler) option" where
  "main_loop policy ts s1 = (case policy of FCFS \<Rightarrow> run_fcfs s1 | RR \<Rightarrow> run_rr s1 ts
     | CFS_LITE \<Rightarrow> run_cfs_lite s1 ts | POLICY_COUNT \<Rightarrow> Some (False, s1))"

definition valid_policy :: "sched_policy \<Rightarrow> u32 \<Rightarrow> bool" where
  "valid_policy policy ts \<longleftrightarrow> policy = FCFS \<or> (policy \<noteq> POLICY_COUNT \<and> ts \<noteq> 0)"

text \<open>The facts about a finished main loop that the three interpretations provide.\<close>

definition loop_result :: "sched_policy \<Rightarrow> scheduler \<Rightarrow> bool \<Rightarrow> scheduler \<Rightarrow> bool" where
  "loop_result policy s ok s2 \<longleftrightarrow> same_tasks s s2 \<and>
     total_switch_cycle_cost (summary s2) + rest s2 = (\<Sum>i<task_count s. burst s i) \<and>
     (ok \<longleftrightarrow> all_tasks_complete s2) \<and>
     (\<not> ok \<longrightarrow> (\<exists>i<task_count s. arr s i = UINT32_MAX)) \<and>
     (policy \<noteq> CFS_LITE \<longrightarrow> switch_count s2) \<and>
     (policy \<noteq> RR \<longrightarrow> preempt_count (summary s2) = 0) \<and>
     (policy = CFS_LITE \<longrightarrow> (\<forall>i<task_count s. vrun s2 i + rem s2 i = burst s i))"

lemma main_loop_returns:
  assumes wf: "sched_wf s" and v: "valid_policy policy ts"
  shows "\<exists>ok s2. main_loop policy ts (start_run s policy ts) = Some (ok, s2) \<and> loop_result policy s ok s2"
proof -
  let ?s1 = "start_run s policy ts"
  note inv = start_run_invs [OF wf, where policy = policy and ts = ts]
  have same: "same_tasks s ?s1" by (rule start_run_same)
  have bursts: "burst s2 i = burst s i" "arr s2 i = arr s i" "task_count s2 = task_count s" if "same_tasks ?s1 s2" for s2 i
    using same_tasks_trans [OF same that] by (auto simp: same_tasks_def)
  show ?thesis
  proof (cases policy)
    case FCFS
    obtain ok c where c: "loop_until fcfs_body (?s1, 0) = Some (ok, fst c)" "fcfs.accounts ?s1 c"
      "ok \<longleftrightarrow> all_tasks_complete (fst c)"
      "\<not> ok \<longrightarrow> (\<exists>i<task_count (fst c). rem (fst c) i \<noteq> 0 \<and> arr (fst c) i = UINT32_MAX)"
      using fcfs.returns [OF inv(1)] unfolding fst_conv by blast
    have "same_tasks ?s1 (fst c)" using c(2) by (simp add: fcfs.accounts_def)
    then have "loop_result policy s ok (fst c)"
      using c(2,3,4) FCFS bursts [of "fst c"] same_tasks_trans [OF same, of "fst c"]
      by (auto simp: loop_result_def fcfs.accounts_def fcfs_inv_def start_run_rest start_run_sel)
    then show ?thesis using c(1) FCFS by (auto simp: main_loop_def run_fcfs_def)
  next
    case RR
    then have ts: "ts \<noteq> 0" using v by (auto simp: valid_policy_def)
    obtain ok c where c: "loop_until (rr_body ts) (?s1, (((\<lambda>_. 0), 0), (\<lambda>_. False)), 0) = Some (ok, fst c)"
      "rr.accounts ts ?s1 c" "ok \<longleftrightarrow> all_tasks_complete (fst c)"
      "\<not> ok \<longrightarrow> (\<exists>i<task_count (fst c). rem (fst c) i \<noteq> 0 \<and> arr (fst c) i = UINT32_MAX)"
      using rr.returns [OF inv(3) [OF ts]] unfolding fst_conv by blast
    have "same_tasks ?s1 (fst c)" using c(2) by (simp add: rr.accounts_def)
    then have "loop_result policy s ok (fst c)"
      using c(2,3,4) RR bursts [of "fst c"] same_tasks_trans [OF same, of "fst c"]
      by (auto simp: loop_result_def rr.accounts_def rr_inv_def start_run_rest start_run_sel)
    then show ?thesis using c(1) RR ts by (auto simp: main_loop_def run_rr_def)
  next
    case CFS_LITE
    then have ts: "ts \<noteq> 0" using v by (auto simp: valid_policy_def)
    obtain ok c where c: "loop_until (cfs_body ts) (?s1, 0) = Some (ok, fst c)" "cfs.accounts ts ?s1 c"
      "ok \<longleftrightarrow> all_tasks_complete (fst c)"
      "\<not> ok \<longrightarrow> (\<exists>i<task_count (fst c). rem (fst c) i \<noteq> 0 \<and> arr (fst c) i = UINT32_MAX)"
      using cfs.returns [OF inv(2) [OF ts]] unfolding fst_conv by blast
    have "same_tasks ?s1 (fst c)" using c(2) by (simp add: cfs.accounts_def)
    then have "loop_result policy s ok (fst c)"
      using c(2,3,4) CFS_LITE bursts [of "fst c"] same_tasks_trans [OF same, of "fst c"]
      by (auto simp: loop_result_def cfs.accounts_def cfs_inv_def start_run_rest start_run_sel)
    then show ?thesis using c(1) CFS_LITE ts by (auto simp: main_loop_def run_cfs_lite_def)
  next
    case POLICY_COUNT
    then show ?thesis using v by (simp add: valid_policy_def)
  qed
qed

lemma run_main_loop:
  assumes "task_count s \<noteq> 0" "policy \<noteq> POLICY_COUNT" "main_loop policy ts (start_run s policy ts) = Some (ok, s2)"
  shows "course_scheduler_run s policy ts = Some (if ok then (True, update_wait_turnaround (upd_summary s2 (\<lambda>m. m\<lparr>
     policy_runs := (policy_runs m)(policy_no policy := policy_runs m (policy_no policy) + 1)\<rparr>))) else (False, s2))"
  using assms by (simp add: course_scheduler_run_def main_loop_def Let_def)

text \<open>C30: a run of the offline scheduler always returns.  For tasks registered with
  \<open>course_scheduler_add_task\<close>, every policy value and every time slice, \<open>course_scheduler_run\<close> yields
  a result; it fails only without tasks, for an invalid policy, for a zero time slice outside
  FCFS, or when a task arrives at the last representable time; and a failing run leaves the
  per-policy run counters and the identity of the tasks alone.\<close>

theorem course_scheduler_run_returns:
  assumes "sched_wf s"
  shows "\<exists>ok s'. course_scheduler_run s policy ts = Some (ok, s') \<and>
     (\<not> ok \<longrightarrow> (task_count s = 0 \<or> policy = POLICY_COUNT \<or> (policy \<noteq> FCFS \<and> ts = 0) \<or>
                 (\<exists>i<task_count s. arr s i = UINT32_MAX)) \<and> same_tasks s s')"
proof (cases "task_count s = 0 \<or> policy = POLICY_COUNT")
  case True
  then show ?thesis by (intro exI [of _ False] exI [of _ s]) (auto simp: course_scheduler_run_def)
next
  case False
  show ?thesis
  proof (cases "valid_policy policy ts")
    case True
    then obtain ok s2 where r: "main_loop policy ts (start_run s policy ts) = Some (ok, s2)" "loop_result policy s ok s2"
      using main_loop_returns [OF assms] by blast
    show ?thesis using run_main_loop [OF _ _ r(1)] False r(2) by (cases ok) (auto simp: loop_result_def)
  next
    case invalid: False
    then have ml: "main_loop policy ts (start_run s policy ts) = Some (False, start_run s policy ts)"
      using False by (cases policy) (auto simp: valid_policy_def main_loop_def run_rr_def run_cfs_lite_def)
    show ?thesis
      using run_main_loop [OF _ _ ml] False invalid start_run_same [of s policy ts] by (auto simp: valid_policy_def)
  qed
qed

text \<open>C11: a successful run completes every task and accounts for it exactly.  With a valid policy, a
  positive slice outside FCFS and no arrival at the last representable time, \<open>course_scheduler_run\<close>
  succeeds; then nothing remains, the switch costs add up to the burst times, the tasks are
  the ones registered, FCFS switches once per task and never preempts, round robin switches once
  per task and once per preemption, CFS-lite has charged every task exactly its burst, only the run
  counter of the policy is bumped, and the wait total is the sum over the tasks of completion
  minus arrival minus burst (modulo \<open>2^32\<close>).\<close>

theorem course_scheduler_run_correct:
  assumes "sched_wf s" "task_count s \<noteq> 0" "valid_policy policy ts" "\<forall>i<task_count s. arr s i \<noteq> UINT32_MAX"
  shows "\<exists>s'. course_scheduler_run s policy ts = Some (True, s') \<and>
     task_count s' = task_count s \<and> all_tasks_complete s' \<and>
     (\<forall>i. task_pid (tasks s' i) = task_pid (tasks s i) \<and> arr s' i = arr s i \<and> burst s' i = burst s i) \<and>
     total_switch_cycle_cost (summary s') = (\<Sum>i<task_count s. burst s i) \<and>
     (policy = FCFS \<longrightarrow> context_switches (summary s') = of_nat (task_count s) \<and> preempt_count (summary s') = 0) \<and>
     (policy = RR \<longrightarrow> context_switches (summary s') = of_nat (task_count s) + preempt_count (summary s')) \<and>
     (policy = CFS_LITE \<longrightarrow> (\<forall>i<task_count s. vrun s' i = burst s i)) \<and>
     policy_runs (summary s') = (policy_runs (summary s))(policy_no policy := policy_runs (summary s) (policy_no policy) + 1) \<and>
     total_wait_time (summary s') = (\<Sum>i<task_count s. completion_time (tasks s' i) - arr s i - burst s i) \<and>
     average_wait_time (summary s') = total_wait_time (summary s') div of_nat (task_count s)"
proof -
  obtain ok s2 where r: "main_loop policy ts (start_run s policy ts) = Some (ok, s2)" "loop_result policy s ok s2"
    using main_loop_returns [OF assms(1,3)] by blast
  have ok: ok using r(2) assms(4) by (auto simp: loop_result_def)
  have p: "policy \<noteq> POLICY_COUNT" using assms(3) by (auto simp: valid_policy_def)
  have fin: "all_tasks_complete s2" "same_tasks s s2" using r(2) ok by (simp_all add: loop_result_def)
  then have 0: "rest s2 = 0" "unfinished s2 = {}" by (auto simp: rest_def complete_iff unfinished_def)
  define s3 where "s3 = upd_summary s2 (\<lambda>m. m\<lparr>
     policy_runs := (policy_runs m)(policy_no policy := policy_runs m (policy_no policy) + 1)\<rparr>)"
  have s3: "tasks s3 = tasks s2" "task_count s3 = task_count s2" "task_count s2 = task_count s"
    using fin by (simp_all add: s3_def sched_simps same_tasks_def)
  have "all_tasks_complete (update_wait_turnaround s3)"
    using fin(1) by (simp add: complete_iff wait_turnaround_sel s3)
  moreover have "course_scheduler_run s policy ts = Some (True, update_wait_turnaround s3)"
    using run_main_loop [OF assms(2) p r(1)] ok by (simp add: s3_def)
  ultimately show ?thesis
    using r(2) 0 fin assms(2)
    by (intro exI [of _ "update_wait_turnaround s3"])
      (auto simp: loop_result_def wait_turnaround_sel s3 switch_count_def same_tasks_def complete_iff
        s3_def [symmetric] intro!: sum.cong; simp add: s3_def sched_simps)
qed

end
