(* ===== verification/SchedulerPolicies.thy ===== *)
theory SchedulerPolicies
  imports SchedulerRuns "HOL-Library.Multiset"
begin

text \<open>
  What distinguishes the three offline policies: FCFS computes the schedule of a reference
  definition over the sorted tasks, the queue of round robin holds the tasks that wait, each
  once, and CFS-lite keeps tasks that arrived together within one slice of each other.
\<close>

subsection \<open>FCFS and its reference schedule\<close>

definition fcfs_rank :: "scheduler \<Rightarrow> nat \<Rightarrow> u32 \<times> u32 \<times> nat" where
  "fcfs_rank s i = (arr s i, task_pid (tasks s i), i)"

definition fcfs_order :: "scheduler \<Rightarrow> nat list" where
  "fcfs_order s = sort_key (fcfs_rank s) [0..<task_count s]"

fun fcfs_schedule :: "scheduler \<Rightarrow> nat \<Rightarrow> nat list \<Rightarrow> (nat \<times> nat) list" where
  "fcfs_schedule s now [] = []"
| "fcfs_schedule s now (i # is) =
     (let c = max now (unat (arr s i)) + unat (burst s i) in (i, c) # fcfs_schedule s c is)"

text \<open>No sum of times that a run can form leaves the 32 bits.\<close>

definition no_time_wrap :: "scheduler \<Rightarrow> bool" where
  "no_time_wrap s \<longleftrightarrow>
     list_all (\<lambda>i. unat (arr s i) + sum_list (map (\<lambda>k. unat (burst s k)) [0..<task_count s]) < 2 ^ 32) [0..<task_count s]"

lemma map_fst_schedule: "map fst (fcfs_schedule s t is) = is"
  by (induction s t "is" rule: fcfs_schedule.induct) (simp_all add: Let_def)

lemma fcfs_order_set: "set (fcfs_order s) = {..<task_count s}" "distinct (fcfs_order s)"
  by (auto simp: fcfs_order_def)

lemma fcfs_order_sorted: "sorted (map (fcfs_rank s) (fcfs_order s))"
  by (simp add: fcfs_order_def)

lemma fcfs_order_sum:
  "sum_list (map (\<lambda>k. f k) (fcfs_order s)) = (sum_list (map (\<lambda>k. f k) [0..<task_count s]) :: nat)"
proof -
  have "mset (map f (fcfs_order s)) = mset (map f [0..<task_count s])" by (simp add: fcfs_order_def)
  then show ?thesis by (metis sum_mset_sum_list)
qed

lemma pick_fcfs_rank:
  assumes "task_count s \<le> 8" "ready s now j"
  shows "fcfs_rank s (pick_fcfs s now) \<le> fcfs_rank s j"
proof (cases "j < pick_fcfs s now")
  case True
  have "fcfs_key s (pick_fcfs s now) < fcfs_key s j" by (rule pick_fcfs_least(2) [OF assms True])
  then show ?thesis by (auto simp: fcfs_rank_def fcfs_key_def less_prod_def')
next
  case False
  have "fcfs_key s (pick_fcfs s now) \<le> fcfs_key s j" by (rule pick_fcfs_least(1) [OF assms])
  then show ?thesis using False by (auto simp: fcfs_rank_def fcfs_key_def less_eq_prod_def)
qed

text \<open>With the tasks \<open>i # is\<close> left in their order, a pick takes \<open>i\<close>, and a wait ends at the arrival of \<open>i\<close>.\<close>

lemma pick_fcfs_head:
  assumes "task_count s \<le> 8" "unfinished s = set (i # is)" "sorted (map (fcfs_rank s) (i # is))"
    and "\<not> none_ready s now"
  shows "pick_fcfs s now = i" "arr s i \<le> now"
proof -
  have p: "ready s now (pick_fcfs s now)" using assms(1,4) pick_fcfs_none pick_fcfs_ready by blast
  then have "pick_fcfs s now \<in> set (i # is)" using assms(2) by (auto simp: ready_def unfinished_def)
  then have le: "fcfs_rank s i \<le> fcfs_rank s (pick_fcfs s now)" using assms(3) by auto
  then have "arr s i \<le> arr s (pick_fcfs s now)" by (auto simp: fcfs_rank_def less_eq_prod_def)
  then show "arr s i \<le> now" using p by (auto simp: ready_def)
  then have "ready s now i" using assms(2) by (auto simp: ready_def unfinished_def)
  then have "fcfs_rank s (pick_fcfs s now) \<le> fcfs_rank s i" by (rule pick_fcfs_rank [OF assms(1)])
  then show "pick_fcfs s now = i" using le by (auto simp: fcfs_rank_def)
qed

lemma wait_fcfs_head:
  assumes "unfinished s = set (i # is)" "sorted (map (fcfs_rank s) (i # is))"
    and "none_ready s now" "next_arrival_time s now \<noteq> UINT32_MAX"
  shows "next_arrival_time s now = arr s i" "now < arr s i"
proof -
  obtain k where k: "k < task_count s" "rem s k \<noteq> 0" "arr s k = next_arrival_time s now"
    using next_arrival_exists [OF assms(4)] by blast
  then have "k \<in> set (i # is)" using assms(1) by (auto simp: unfinished_def)
  then have "fcfs_rank s i \<le> fcfs_rank s k" using assms(2) by auto
  then have le: "arr s i \<le> arr s k" by (auto simp: fcfs_rank_def less_eq_prod_def)
  have i: "i < task_count s" "rem s i \<noteq> 0" using assms(1) by (auto simp: unfinished_def)
  then show "now < arr s i" using assms(3) by (auto simp: none_ready_def ready_def not_le)
  then have "next_arrival_time s now \<le> arr s i" by (rule next_arrival_least [OF i])
  then show "next_arrival_time s now = arr s i" using le k(3) by simp
qed

text \<open>A prefix \<open>pre\<close> of the order is finished as scheduled by time \<open>t\<close>; the rest has not run.\<close>

definition fcfs_at :: "scheduler \<Rightarrow> scheduler \<Rightarrow> u32 \<Rightarrow> nat list \<Rightarrow> nat list \<Rightarrow> nat \<Rightarrow> (nat \<times> nat) list \<Rightarrow> bool" where
  "fcfs_at s0 s now pre js t dn \<longleftrightarrow>
     fcfs_order s0 = pre @ js \<and> same_tasks s0 s \<and> unfinished s = set js \<and>
     (\<forall>i\<in>set js. rem s i = burst s0 i) \<and>
     fcfs_schedule s0 0 (fcfs_order s0) = dn @ fcfs_schedule s0 t js \<and> map fst dn = pre \<and>
     (\<forall>(i, c)\<in>set dn. unat (completion_time (tasks s i)) = c) \<and>
     (unat now = t \<or> (js \<noteq> [] \<and> t \<le> unat now \<and> now = arr s0 (hd js))) \<and>
     (\<exists>m. (m = 0 \<or> (\<exists>k<task_count s0. m = unat (arr s0 k))) \<and> t \<le> m + sum_list (map (\<lambda>k. unat (burst s0 k)) pre))"

lemma fcfs_at_bound:
  assumes at: "fcfs_at s0 s now pre (i # js) t dn" and nw: "no_time_wrap s0"
  shows "max t (unat (arr s0 i)) + unat (burst s0 i) < 2 ^ 32"
    and "\<exists>m. (m = 0 \<or> (\<exists>k<task_count s0. m = unat (arr s0 k))) \<and>
       max t (unat (arr s0 i)) + unat (burst s0 i) \<le> m + sum_list (map (\<lambda>k. unat (burst s0 k)) (pre @ [i]))"
proof -
  let ?b = "\<lambda>xs. sum_list (map (\<lambda>k. unat (burst s0 k)) xs)"
  have order: "fcfs_order s0 = (pre @ [i]) @ js" using at by (simp add: fcfs_at_def)
  then have "i \<in> set (fcfs_order s0)" by simp
  then have i: "i < task_count s0" by (simp add: fcfs_order_set)
  obtain m0 where m0: "m0 = 0 \<or> (\<exists>k<task_count s0. m0 = unat (arr s0 k))" "t \<le> m0 + ?b pre"
    using at by (auto simp: fcfs_at_def)
  define m where "m = max m0 (unat (arr s0 i))"
  have m: "m = 0 \<or> (\<exists>k<task_count s0. m = unat (arr s0 k))"
    using m0(1) i unfolding m_def max_def by auto
  have le: "max t (unat (arr s0 i)) + unat (burst s0 i) \<le> m + ?b (pre @ [i])"
    using m0(2) by (auto simp: m_def)
  then show "\<exists>m. (m = 0 \<or> (\<exists>k<task_count s0. m = unat (arr s0 k))) \<and>
       max t (unat (arr s0 i)) + unat (burst s0 i) \<le> m + ?b (pre @ [i])"
    using m by blast
  have "?b (pre @ [i]) \<le> ?b [0..<task_count s0]"
    using fcfs_order_sum [of "\<lambda>k. unat (burst s0 k)" s0] by (simp add: order)
  moreover have "m + ?b [0..<task_count s0] < 2 ^ 32"
    using m nw i unfolding no_time_wrap_def list_all_iff by fastforce
  ultimately show "max t (unat (arr s0 i)) + unat (burst s0 i) < 2 ^ 32" using le by linarith
qed

lemma fcfs_at_step:
  assumes at: "fcfs_at s0 s now pre js t dn" and nw: "no_time_wrap s0" and n: "task_count s \<le> 8"
    and b: "fcfs_body (s, now) = Inl (s', now')"
  shows "\<exists>pre js t dn. fcfs_at s0 s' now' pre js t dn"
proof -
  have same: "same_tasks s0 s" and un: "unfinished s = set js" and order: "fcfs_order s0 = pre @ js"
    using at by (simp_all add: fcfs_at_def)
  have arr: "arr s k = arr s0 k" for k using same by (simp add: same_tasks_def)
  have "fcfs_rank s = fcfs_rank s0" using same by (auto simp: fcfs_rank_def same_tasks_def)
  then have sorted: "sorted (map (fcfs_rank s) js)"
    using fcfs_order_sorted [of s0] by (simp add: order sorted_append)
  have "\<not> all_tasks_complete s" using b by (auto simp: fcfs_body_def)
  then obtain i js' where js: "js = i # js'"
    using un by (cases js) (auto simp: unfinished_def complete_iff)
  note un = un [unfolded js] and sorted = sorted [unfolded js]
  from b n show ?thesis
  proof (cases rule: fcfs_step)
    case skip
    have "now' = arr s0 i" "now < arr s0 i"
      using wait_fcfs_head [OF un sorted skip(1,5)] skip(4) by (simp_all add: arr)
    then have "fcfs_at s0 s' now' pre js t dn"
      using at by (auto simp: fcfs_at_def skip(3) js word_less_nat_alt)
    then show ?thesis by blast
  next
    case (run k)
    have "\<not> none_ready s now" using run(2) by (auto simp: none_ready_def)
    note head = pick_fcfs_head [OF n un sorted this]
    have k: "k = i" using run(1) head(1) by simp
    have rem: "rem s i = burst s0 i" using at by (simp add: fcfs_at_def js)
    define t' where "t' = max t (unat (arr s0 i)) + unat (burst s0 i)"
    have "unat now = t \<or> (t \<le> unat now \<and> now = arr s0 i)" using at by (simp add: fcfs_at_def js)
    then have "unat now = max t (unat (arr s0 i))"
      using head(2) unfolding arr word_le_nat_alt by auto
    then have "unat now + unat (burst s0 i) = t'" by (simp add: t'_def)
    then have now': "unat now' = t'"
      using fcfs_at_bound(1) [OF at [unfolded js] nw] unfolding run(3) k rem
      by (simp add: t'_def unat_add_lem [THEN iffD1])
    have sl: "sliced s i (rem s i) s'" using fcfs_run_sliced [OF run(2)] by (simp add: run(4) k)
    have i: "i \<notin> set js'" "i \<notin> set pre" using fcfs_order_set(2) [of s0] by (auto simp: order js)
    have done': "completion_time (tasks s' j) = (if j = i then now' else completion_time (tasks s j))"
      "rem s' j = (if j = i then 0 else rem s j)" for j by (simp_all add: run(4) k sched_simps)
    have "unfinished s' = set js'"
      using sliced_unfinished(2) [OF sl] un i(1) done'(2) [of i] by simp
    moreover have "same_tasks s0 s'" using sl same same_tasks_trans by (auto simp: sliced_def)
    moreover have "\<forall>(j, c)\<in>set (dn @ [(i, t')]). unat (completion_time (tasks s' j)) = c"
    proof -
      have "map fst dn = pre" and dn: "\<forall>(j, c)\<in>set dn. unat (completion_time (tasks s j)) = c"
        using at by (simp_all add: fcfs_at_def)
      then have "(i, c) \<notin> set dn" for c using i(2) by force
      then show ?thesis using dn now' by (auto simp: done'(1))
    qed
    moreover have "fcfs_schedule s0 0 (pre @ i # js') = dn @ (i, t') # fcfs_schedule s0 t' js'"
      using at by (simp add: fcfs_at_def order js t'_def Let_def)
    moreover have "\<forall>j\<in>set js'. rem s' j = burst s0 j" using at i(1) by (auto simp: fcfs_at_def js done'(2))
    ultimately have "fcfs_at s0 s' now' (pre @ [i]) js' t' (dn @ [(i, t')])"
      using at now' fcfs_at_bound(2) [OF at [unfolded js] nw, folded t'_def] by (simp add: fcfs_at_def js)
    then show ?thesis by blast
  qed
qed

lemma fcfs_at_start:
  assumes "sched_wf s0"
  shows "fcfs_at s0 (start_run s0 policy ts) 0 [] (fcfs_order s0) 0 []"
  using assms start_run_same
  by (auto simp: fcfs_at_def unfinished_def fcfs_order_set start_run_sel sched_wf_def)

lemma fcfs_at_end:
  assumes "fcfs_at s0 s now pre js t dn" "all_tasks_complete s"
  shows "\<forall>(i, c)\<in>set (fcfs_schedule s0 0 (fcfs_order s0)). unat (completion_time (tasks s i)) = c"
proof -
  have "unfinished s = {}" using assms(2) by (simp add: unfinished_def complete_iff)
  then have "js = []" using assms(1) by (simp add: fcfs_at_def)
  then show ?thesis using assms(1) by (auto simp: fcfs_at_def)
qed

text \<open>C25: FCFS is the textbook schedule.  When no sum of times exceeds 32 bits, the run visits the tasks in
  the order of arrival time, then pid, then registration, each at the later of its arrival and
  the end of its predecessor, without interruption: the completion times it stores are those
  of the reference definition \<open>fcfs_schedule\<close> over the sorted tasks.\<close>

theorem fcfs_is_reference_schedule:
  assumes "sched_wf s" "task_count s \<noteq> 0" "no_time_wrap s"
  shows "\<exists>s'. course_scheduler_run s FCFS ts = Some (True, s') \<and>
     map (\<lambda>(i, c). unat (completion_time (tasks s' i))) (fcfs_schedule s 0 (fcfs_order s)) =
     map snd (fcfs_schedule s 0 (fcfs_order s))"
proof -
  let ?s1 = "start_run s FCFS ts"
  have n: "task_count s \<le> 8" using assms(1) by (simp add: sched_wf_def)
  have late: "arr s i \<noteq> UINT32_MAX" if "i < task_count s" for i
  proof
    assume "arr s i = UINT32_MAX"
    then have "unat (arr s i) = 2 ^ 32 - 1" by simp
    moreover have "unat (arr s i) + sum_list (map (\<lambda>k. unat (burst s k)) [0..<task_count s]) < 2 ^ 32"
      using assms(3) that by (simp add: no_time_wrap_def list_all_iff)
    moreover have "unat (burst s i) \<le> sum_list (map (\<lambda>k. unat (burst s k)) [0..<task_count s])"
      using that by (intro member_le_sum_list) auto
    moreover have "unat (burst s i) \<noteq> 0" using assms(1) that by (simp add: sched_wf_def unat_eq_0)
    ultimately show False by linarith
  qed
  obtain ok s2 where r: "main_loop FCFS ts ?s1 = Some (ok, s2)" "loop_result FCFS s ok s2"
    using main_loop_returns [OF assms(1), of FCFS ts] by (auto simp: valid_policy_def)
  have ok: ok using r(2) late by (auto simp: loop_result_def)
  obtain c where c: "loop_reaches fcfs_body (?s1, 0) c" "fcfs_body c = Inr (ok, s2)"
    using loop_until_exit [of fcfs_body "(?s1, 0)"] r(1) by (auto simp: main_loop_def run_fcfs_def)
  have "(\<exists>pre js t dn. fcfs_at s (fst c) (snd c) pre js t dn) \<and> task_count (fst c) \<le> 8"
  proof (rule loop_reaches_inv [OF c(1)])
    show "(\<exists>pre js t dn. fcfs_at s (fst (?s1, 0)) (snd (?s1, 0)) pre js t dn) \<and> task_count (fst (?s1, 0)) \<le> 8"
      using fcfs_at_start [OF assms(1), of FCFS ts] n by (auto simp: start_run_sel)
  next
    fix c c' assume "(\<exists>pre js t dn. fcfs_at s (fst c) (snd c) pre js t dn) \<and> task_count (fst c) \<le> 8"
      and b: "fcfs_body c = Inl c'"
    then obtain pre js t dn where "fcfs_at s (fst c) (snd c) pre js t dn" "task_count (fst c) \<le> 8" by blast
    then have "\<exists>pre js t dn. fcfs_at s (fst c') (snd c') pre js t dn"
      using fcfs_at_step [OF _ assms(3), of "fst c" "snd c" pre js t dn "fst c'" "snd c'"] b by simp
    moreover from this have "task_count (fst c') = task_count s" by (auto simp: fcfs_at_def same_tasks_def)
    ultimately show "(\<exists>pre js t dn. fcfs_at s (fst c') (snd c') pre js t dn) \<and> task_count (fst c') \<le> 8"
      using n by simp
  qed
  then obtain pre js t dn where at: "fcfs_at s (fst c) (snd c) pre js t dn" and n': "task_count (fst c) \<le> 8" by blast
  have "s2 = fst c" "all_tasks_complete (fst c)"
    using body_leave(1) [OF n', of "snd c" ok s2] c(2) ok by auto
  with fcfs_at_end [OF at]
  have e: "\<forall>(i, c)\<in>set (fcfs_schedule s 0 (fcfs_order s)). unat (completion_time (tasks s2 i)) = c"
    by simp
  define s' where "s' = update_wait_turnaround (upd_summary s2 (\<lambda>m. m\<lparr>
     policy_runs := (policy_runs m)(policy_no FCFS := policy_runs m (policy_no FCFS) + 1)\<rparr>))"
  have "course_scheduler_run s FCFS ts = Some (True, s')"
    using run_main_loop [OF assms(2) _ r(1)] ok by (simp add: s'_def)
  moreover have "tasks s' = tasks s2" by (simp add: s'_def wait_turnaround_sel sched_simps)
  ultimately show ?thesis using e by (intro exI [of _ s']) auto
qed

subsection \<open>Round robin and CFS-lite\<close>

text \<open>The round-robin queue is sound at every head of the main loop: it never holds more
  entries than there are tasks (so it never leaves its eight cells), no task is queued twice,
  and its entries are exactly the tasks that have been seen and are unfinished, so none is
  forgotten.\<close>

theorem rr_queue_sound:
  assumes "sched_wf s" "ts \<noteq> 0"
    and "loop_reaches (rr_body ts) (start_run s RR ts, (((\<lambda>_. 0), 0), (\<lambda>_. False)), 0) (s', ((q, n), d), now)"
  shows "n \<le> task_count s' \<and> n \<le> COURSE_SCHEDULER_MAX_TASKS \<and> distinct (arr_list q n) \<and>
     set (arr_list q n) = {i. i < task_count s' \<and> remaining_time (tasks s' i) \<noteq> 0 \<and> d i}"
proof -
  have inv: "rr_wf s' ((q, n), d)" "sched_wf s'"
    using rr.reaches_inv [OF assms(3) start_run_invs(3) [OF assms(1,2)]] by (simp_all add: rr_inv_def)
  show ?thesis
    using inv rr_wf_bound [OF inv(1)] by (auto simp: rr_wf_def rr_items_def sched_wf_def)
qed

text \<open>C31: CFS-lite is fair.  When all tasks arrive at the start, then at every head of the main loop no
  task's virtual run time is more than one time slice ahead of that of a task that is not
  finished.\<close>

theorem cfs_lite_fair:
  assumes "sched_wf s" "ts \<noteq> 0" "\<forall>i<task_count s. arrival_time (tasks s i) = 0"
    and "loop_reaches (cfs_body ts) (start_run s CFS_LITE ts, 0) (s', now)"
    and "i < task_count s'" "j < task_count s'" "remaining_time (tasks s' j) \<noteq> 0"
  shows "unat (vruntime (tasks s' i)) \<le> unat (vruntime (tasks s' j)) + unat ts"
proof -
  define I where "I c \<longleftrightarrow> cfs_inv ts c \<and> (\<forall>i<task_count (fst c). arr (fst c) i = 0) \<and>
     (\<forall>i<task_count (fst c). unat (vrun (fst c) i) + unat (rem (fst c) i) = unat (burst (fst c) i)) \<and>
     (\<forall>i<task_count (fst c). \<forall>j<task_count (fst c). rem (fst c) j \<noteq> 0 \<longrightarrow>
        unat (vrun (fst c) i) \<le> unat (vrun (fst c) j) + unat ts)" for c
  have "I (s', now)"
  proof (rule loop_reaches_inv [OF assms(4)])
    show "I (start_run s CFS_LITE ts, 0)"
      using start_run_invs(2) [OF assms(1,2)] assms(3) by (simp add: I_def start_run_sel)
  next
    fix c c' assume I: "I c" and b: "cfs_body ts c = Inl c'"
    obtain s now s' now' where c: "c = (s, now)" "c' = (s', now')" by (metis surj_pair)
    note b = b [unfolded c] and I = I [unfolded c I_def fst_conv]
    have n: "task_count s \<le> 8" using I by (simp add: cfs_inv_def sched_wf_def)
    from b n show "I c'"
    proof (cases rule: cfs_step)
      case skip
      then show ?thesis using I cfs_inv_step(1) [OF _ b] by (simp add: I_def c)
    next
      case (run k r)
      have s': "task_count s' = task_count s" "arr s' j = arr s j"
        "rem s' j = (if j = k then rem s k - r else rem s j)" "vrun s' j = (if j = k then vrun s k + r else vrun s j)" for j
        by (simp_all add: run(5) sched_simps)
      have k: "k < task_count s" "rem s k \<noteq> 0" using run(2) by (simp_all add: ready_def)
      have r: "r \<le> rem s k" "r \<le> ts" using slice_len_bounds [OF assms(2) k(2)] run(3) by simp_all
      have least: "unat (vrun s k) \<le> unat (vrun s j)" if "j < task_count s" "rem s j \<noteq> 0" for j
        using pick_cfs_least(1) [OF n, of now j] I that
        by (auto simp: run(1) cfs_key_def less_eq_prod_def ready_def word_less_nat_alt word_le_nat_alt)
      have bound: "unat (vrun s k) + unat (rem s k) = unat (burst s k)" using I k(1) by simp
      moreover have "unat (burst s k) < 2 ^ LENGTH(32)" by (rule unsigned_less)
      ultimately have sum: "unat (vrun s k + r) = unat (vrun s k) + unat r"
        using r(1)
        by (intro unat_add_lem [THEN iffD1]) (simp add: word_le_nat_alt)
      have diff: "unat (rem s k - r) = unat (rem s k) - unat r" using r(1) by (rule unat_sub)
      have ge: "unat (vrun s j) \<le> unat (vrun s' j)" for j by (simp add: s'(4) sum)
      have "unat (vrun s' i) \<le> unat (vrun s' j) + unat ts"
        if ij: "i < task_count s" "j < task_count s" "rem s' j \<noteq> 0" for i j
      proof -
        have "rem s j \<noteq> 0" using ij(3) k(2) by (auto simp: s'(3) split: if_splits)
        then have "unat (vrun s k) \<le> unat (vrun s j)" "unat (vrun s i) \<le> unat (vrun s j) + unat ts"
          using least ij I by blast+
        then show ?thesis
          using ge [of j] r(2) unfolding s'(4) [of i] by (simp add: sum word_le_nat_alt)
      qed
      moreover have "unat (vrun s' i) + unat (rem s' i) = unat (burst s' i)" if "i < task_count s" for i
        using I that r(1) bound
        by (simp add: s'(3,4) sum diff word_le_nat_alt run(5) sched_simps)
      ultimately show ?thesis
        using I cfs_inv_step(1) [OF _ b] by (simp add: I_def c s'(1,2))
    qed
  qed
  then show ?thesis using assms(5-7) by (simp add: I_def)
qed

subsection \<open>Examples\<close>

definition three_tasks :: scheduler where
  "three_tasks = snd (course_scheduler_add_task (snd (course_scheduler_add_task
     (snd (course_scheduler_add_task course_scheduler_init 1 0 5)) 2 1 3)) 3 20 2)"

definition two_equal_tasks :: scheduler where
  "two_equal_tasks = snd (course_scheduler_add_task (snd (course_scheduler_add_task course_scheduler_init 1 0 5)) 2 0 3)"

lemma examples_wf [simp]: "sched_wf three_tasks" "sched_wf two_equal_tasks"
  unfolding three_tasks_def two_equal_tasks_def by (intro add_task_wf init_wf)+

lemma examples_count [simp]: "task_count three_tasks = 3" "task_count two_equal_tasks = 2"
  by code_simp+

lemma three_tasks_on_time: "\<forall>i<task_count three_tasks. arr three_tasks i \<noteq> UINT32_MAX"
proof -
  have "list_all (\<lambda>i. arr three_tasks i \<noteq> UINT32_MAX) [0..<3]" by code_simp
  then show ?thesis by (simp add: list_all_iff)
qed

theorem course_scheduler_run_returns_witness:
  "\<exists>ok s'. course_scheduler_run three_tasks CFS_LITE 0 = Some (ok, s') \<and> (\<not> ok \<longrightarrow> same_tasks three_tasks s')"
  using course_scheduler_run_returns [OF examples_wf(1), of CFS_LITE 0] by blast

theorem course_scheduler_run_correct_witness:
  "\<exists>s'. course_scheduler_run three_tasks RR 2 = Some (True, s') \<and> all_tasks_complete s' \<and>
     context_switches (summary s') = 3 + preempt_count (summary s')"
  using course_scheduler_run_correct [OF examples_wf(1) _ _ three_tasks_on_time, of RR 2]
  by (auto simp: valid_policy_def)

lemma three_tasks_values:
  "map (\<lambda>i. (arr three_tasks i, burst three_tasks i)) [0, 1, 2] = [(0, 5), (1, 3), (20, 2)]"
  by code_simp

theorem fcfs_is_reference_schedule_witness:
  "\<exists>s'. course_scheduler_run three_tasks FCFS 0 = Some (True, s') \<and> unat (completion_time (tasks s' 2)) = 22"
proof -
  have "[0..<3] = [0, 1, 2 :: nat]" by (simp add: upt_rec)
  then have nw: "no_time_wrap three_tasks"
    using three_tasks_values by (simp add: no_time_wrap_def)
  have sch: "fcfs_schedule three_tasks 0 (fcfs_order three_tasks) = [(0, 5), (1, 8), (2, 22)]" by code_simp
  have n: "task_count three_tasks \<noteq> 0" by simp
  let ?l = "[(0 :: nat, 5 :: nat), (1, 8), (2, 22)]"
  from fcfs_is_reference_schedule [OF examples_wf(1) n nw, of 0, unfolded sch]
  obtain s' where s': "course_scheduler_run three_tasks FCFS 0 = Some (True, s') \<and>
     map (\<lambda>(i, c). unat (completion_time (tasks s' i))) ?l = map snd ?l"
    by (rule exE)
  from this [THEN conjunct2] have "unat (completion_time (tasks s' 2)) = 22" by simp
  with s' [THEN conjunct1] show ?thesis by blast
qed

text \<open>The states after one slice of the first task.\<close>

lemma loop_first_step:
  assumes "body c = Inl c'"
  shows "loop_reaches body c c'"
  by (rule loop_reaches.step) (rule loop_reaches.start, rule assms)

theorem rr_queue_sound_witness:
  "\<exists>s' q n d now. loop_reaches (rr_body 2) (start_run three_tasks RR 2, (((\<lambda>_. 0), 0), (\<lambda>_. False)), 0) (s', ((q, n), d), now) \<and>
     n = 2 \<and> distinct (arr_list q 2)"
proof -
  let ?c = "(start_run three_tasks RR 2, (((\<lambda>_. 0), 0), (\<lambda>_. False)), 0)"
  have "(case rr_body 2 ?c of Inl c' \<Rightarrow> snd (fst (fst (snd c'))) = 2 | Inr _ \<Rightarrow> False)" by code_simp
  then obtain s' q d now where "rr_body 2 ?c = Inl (s', ((q, 2), d), now)"
    by (cases "rr_body 2 ?c") auto
  then have r: "loop_reaches (rr_body 2) ?c (s', ((q, 2), d), now)" by (rule loop_first_step)
  have "distinct (arr_list q 2)" using rr_queue_sound [OF examples_wf(1) _ r] by simp
  then show ?thesis using r by blast
qed

theorem cfs_lite_fair_witness:
  "\<exists>s' now. loop_reaches (cfs_body 2) (start_run two_equal_tasks CFS_LITE 2, 0) (s', now) \<and>
     unat (vruntime (tasks s' 0)) \<le> unat (vruntime (tasks s' 1)) + 2"
proof -
  let ?c = "(start_run two_equal_tasks CFS_LITE 2, 0)"
  have "(case cfs_body 2 ?c of Inl c' \<Rightarrow> task_count (fst c') = 2 \<and> rem (fst c') 1 \<noteq> 0 | Inr _ \<Rightarrow> False)" by code_simp
  then obtain s' now where s': "cfs_body 2 ?c = Inl (s', now)" "task_count s' = 2" "rem s' 1 \<noteq> 0"
    by (cases "cfs_body 2 ?c") auto
  then have r: "loop_reaches (cfs_body 2) ?c (s', now)" by (intro loop_first_step)
  have "list_all (\<lambda>i. arr two_equal_tasks i = 0) [0..<2]" by code_simp
  then have "\<forall>i<task_count two_equal_tasks. arr two_equal_tasks i = 0" by (simp add: list_all_iff)
  from cfs_lite_fair [OF examples_wf(2) _ this r, of 0 1] s'(2,3) r show ?thesis by auto
qed

text \<open>The boundary that \<open>course_scheduler_run_correct\<close> excludes: the largest time doubles as the mark for
  ``no further arrival'', so a valid task that arrives then makes the run fail.\<close>

definition last_moment :: scheduler where
  "last_moment = snd (course_scheduler_add_task course_scheduler_init 1 UINT32_MAX 1)"

lemma last_arrival_fails:
  "sched_wf last_moment \<and> (\<exists>s'. course_scheduler_run last_moment FCFS 0 = Some (False, s'))"
proof -
  have "(case fcfs_body (start_run last_moment FCFS 0, 0) of Inl _ \<Rightarrow> False | Inr r \<Rightarrow> \<not> fst r)" by code_simp
  then obtain s' where "fcfs_body (start_run last_moment FCFS 0, 0) = Inr (False, s')"
    by (cases "fcfs_body (start_run last_moment FCFS 0, 0)") auto
  then have "main_loop FCFS 0 (start_run last_moment FCFS 0) = Some (False, s')"
    by (simp add: main_loop_def run_fcfs_def loop_until.simps [of fcfs_body])
  moreover have "task_count last_moment \<noteq> 0" by code_simp
  ultimately show ?thesis
    using run_main_loop [of last_moment FCFS 0 False s'] by (simp add: last_moment_def add_task_wf init_wf)
qed

end
