(* ===== verification/OnlineScheduler.thy ===== *)
theory OnlineScheduler
  imports OfflineScheduler ProcessStates
begin

text \<open>
  The online scheduler of \<open>src/myCPU/guest/kernel/course_scheduler.c\<close>: up to eight registered pids,
  one of them current, advanced by one timer tick at a time.  It owns no process: it reads and
  changes the states in the process table it is bound to.  The table is an explicit argument
  and result; whether the pointer to it has been set is the field \<open>table_bound\<close>.  Index 8 means
  ``no task''.
\<close>

abbreviation NO_INDEX :: nat where "NO_INDEX \<equiv> COURSE_SCHEDULER_MAX_TASKS"

record online_task =
  ot_used :: bool
  ot_pid :: u32
  ot_vruntime :: u32
  ot_run_ticks :: u32

record online_summary =
  os_policy :: sched_policy
  os_ticks :: u32
  os_idle_ticks :: u32
  os_current_pid :: u32
  os_context_switches :: u32
  os_last_switch_cycle_cost :: u32
  os_total_switch_cycle_cost :: u32
  os_time_slice :: u32
  os_preempt_count :: u32
  os_last_policy_name :: cstr

record online_scheduler =
  table_bound :: bool
  otasks :: "online_task carray"
  otask_count :: nat
  current_index :: nat
  slice_used :: u32
  osummary :: online_summary

definition upd_osummary :: "online_scheduler \<Rightarrow> (online_summary \<Rightarrow> online_summary) \<Rightarrow> online_scheduler" where
  "upd_osummary s h = s\<lparr>osummary := h (osummary s)\<rparr>"

subsection \<open>Reading the process table\<close>

definition online_index_valid :: "online_scheduler \<Rightarrow> nat \<Rightarrow> bool" where
  "online_index_valid s i \<longleftrightarrow> i < otask_count s \<and> ot_used (otasks s i)"

definition online_process_at :: "online_scheduler \<Rightarrow> process_table \<Rightarrow> nat \<Rightarrow> nat option" where
  "online_process_at s t i =
     (if \<not> online_index_valid s i \<or> \<not> table_bound s then None else course_process_find t (ot_pid (otasks s i)))"

definition online_process_runnable :: "process_table \<Rightarrow> nat option \<Rightarrow> bool" where
  "online_process_runnable t p =
     (case p of None \<Rightarrow> False | Some p \<Rightarrow> p_used (processes t p) \<and> p_state (processes t p) = READY)"

definition online_process_cfs_candidate :: "online_scheduler \<Rightarrow> nat \<Rightarrow> process_table \<Rightarrow> nat option \<Rightarrow> bool" where
  "online_process_cfs_candidate s i t p =
     (case p of None \<Rightarrow> False
      | Some p \<Rightarrow> if \<not> p_used (processes t p) then False
                  else if p_state (processes t p) = READY then True
                  else i = current_index s \<and> p_state (processes t p) = RUNNING)"

definition online_current_running :: "online_scheduler \<Rightarrow> process_table \<Rightarrow> bool" where
  "online_current_running s t =
     (if \<not> online_index_valid s (current_index s) then False
      else case online_process_at s t (current_index s) of
          None \<Rightarrow> False | Some p \<Rightarrow> p_state (processes t p) = RUNNING)"

subsection \<open>Choosing and switching\<close>

definition online_record_context_switch :: "online_scheduler \<Rightarrow> u32 \<Rightarrow> online_scheduler" where
  "online_record_context_switch s npid =
     (if os_current_pid (osummary s) = npid then s
      else upd_osummary s (\<lambda>m. m\<lparr>
        os_context_switches := os_context_switches m + 1,
        os_last_switch_cycle_cost := 1,
        os_total_switch_cycle_cost := os_total_switch_cycle_cost m + 1\<rparr>))"

definition clear_current :: "online_scheduler \<Rightarrow> online_scheduler" where
  "clear_current s = (upd_osummary s (\<lambda>m. m\<lparr>os_current_pid := 0\<rparr>))\<lparr>current_index := NO_INDEX, slice_used := 0\<rparr>"

definition online_release_current :: "online_scheduler \<Rightarrow> process_table \<Rightarrow> online_scheduler \<times> process_table" where
  "online_release_current s t =
     (if \<not> online_index_valid s (current_index s) then (clear_current s, t)
      else let t' = (case online_process_at s t (current_index s) of
               None \<Rightarrow> t
             | Some p \<Rightarrow> if p_state (processes t p) = RUNNING
                         then snd (course_process_set_state t (p_pid (processes t p)) READY) else t)
           in (clear_current s, t'))"

definition online_pick_fcfs :: "online_scheduler \<Rightarrow> process_table \<Rightarrow> nat" where
  "online_pick_fcfs s t =
     (case first_index (\<lambda>i. online_process_runnable t (online_process_at s t i)) (otask_count s) of
        Some i \<Rightarrow> i | None \<Rightarrow> NO_INDEX)"

definition online_pick_rr :: "online_scheduler \<Rightarrow> process_table \<Rightarrow> nat \<Rightarrow> nat" where
  "online_pick_rr s t previous_index =
     (if otask_count s = 0 then NO_INDEX
      else let start = (if previous_index = NO_INDEX then 0 else (previous_index + 1) mod otask_count s) in
        case first_index (\<lambda>k. online_process_runnable t (online_process_at s t ((start + k) mod otask_count s)))
               (otask_count s) of
          Some k \<Rightarrow> (start + k) mod otask_count s | None \<Rightarrow> NO_INDEX)"

definition online_pick_cfs_lite :: "online_scheduler \<Rightarrow> process_table \<Rightarrow> nat" where
  "online_pick_cfs_lite s t =
     scan_best (\<lambda>i. online_process_cfs_candidate s i t (online_process_at s t i))
       (\<lambda>i best. ot_vruntime (otasks s i) < ot_vruntime (otasks s best) \<or>
          (ot_vruntime (otasks s i) = ot_vruntime (otasks s best) \<and> ot_pid (otasks s i) < ot_pid (otasks s best)))
       (otask_count s) NO_INDEX"

definition online_select :: "online_scheduler \<Rightarrow> process_table \<Rightarrow> nat \<Rightarrow> bool \<times> online_scheduler \<times> process_table" where
  "online_select s t next_index =
     (let previous_index = current_index s in
      if \<not> online_index_valid s next_index then (True, clear_current s, t)
      else let next_process = online_process_at s t next_index in
        if \<not> online_process_cfs_candidate s next_index t next_process then (False, s, t)
        else case next_process of
            None \<Rightarrow> (False, s, t)
          | Some p \<Rightarrow>
              (let npid = p_pid (processes t p);
                   (ok, t1) = course_process_set_state t npid RUNNING
               in if \<not> ok then (False, s, t1)
                  else let previous_process = (if previous_index < otask_count s
                                               then online_process_at s t1 previous_index else None);
                           t2 = (case previous_process of
                               None \<Rightarrow> t1
                             | Some q \<Rightarrow> if p_pid (processes t1 q) \<noteq> npid \<and> p_state (processes t1 q) = RUNNING
                                         then snd (course_process_set_state t1 (p_pid (processes t1 q)) READY) else t1);
                           s1 = (online_record_context_switch s npid)\<lparr>current_index := next_index\<rparr>;
                           s2 = (upd_osummary s1 (\<lambda>m. m\<lparr>os_current_pid := npid\<rparr>))\<lparr>slice_used := 0\<rparr>
                       in (True, s2, t2)))"

definition online_select_next :: "online_scheduler \<Rightarrow> process_table \<Rightarrow> nat \<Rightarrow> bool \<times> online_scheduler \<times> process_table" where
  "online_select_next s t previous_index =
     (case os_policy (osummary s) of
        FCFS \<Rightarrow> online_select s t (online_pick_fcfs s t)
      | RR \<Rightarrow> online_select s t (online_pick_rr s t previous_index)
      | CFS_LITE \<Rightarrow> online_select s t (online_pick_cfs_lite s t)
      | POLICY_COUNT \<Rightarrow> (False, s, t))"

definition online_prepare_current :: "online_scheduler \<Rightarrow> process_table \<Rightarrow> bool \<times> online_scheduler \<times> process_table" where
  "online_prepare_current s t =
     (let previous_index = current_index s in
      if \<not> online_current_running s t
      then (let (s1, t1) = online_release_current s t in online_select_next s1 t1 previous_index)
      else case os_policy (osummary s) of
          FCFS \<Rightarrow> (True, s, t)
        | RR \<Rightarrow> if slice_used s \<ge> os_time_slice (osummary s)
                then online_select_next (upd_osummary s (\<lambda>m. m\<lparr>os_preempt_count := os_preempt_count m + 1\<rparr>)) t previous_index
                else (True, s, t)
        | CFS_LITE \<Rightarrow> (let next_index = online_pick_cfs_lite s t in
            if next_index \<noteq> NO_INDEX \<and> next_index \<noteq> current_index s
            then online_select s t next_index else (True, s, t))
        | POLICY_COUNT \<Rightarrow> (False, s, t))"

subsection \<open>Public operations\<close>

definition course_online_scheduler_init :: online_scheduler where
  "course_online_scheduler_init = \<lparr>table_bound = False,
     otasks = (\<lambda>_. \<lparr>ot_used = False, ot_pid = 0, ot_vruntime = 0, ot_run_ticks = 0\<rparr>),
     otask_count = 0, current_index = NO_INDEX, slice_used = 0,
     osummary = \<lparr>os_policy = FCFS, os_ticks = 0, os_idle_ticks = 0, os_current_pid = 0, os_context_switches = 0,
       os_last_switch_cycle_cost = 0, os_total_switch_cycle_cost = 0, os_time_slice = 0, os_preempt_count = 0,
       os_last_policy_name = ''FCFS''\<rparr>\<rparr>"

definition course_online_scheduler_configure :: "online_scheduler \<Rightarrow> sched_policy \<Rightarrow> u32 \<Rightarrow> bool \<times> online_scheduler" where
  "course_online_scheduler_configure s policy time_slice =
     (if policy = POLICY_COUNT \<or> (policy \<noteq> FCFS \<and> time_slice = 0) then (False, s)
      else (True, clear_current (upd_osummary s (\<lambda>m. m\<lparr>os_policy := policy,
              os_time_slice := (if policy = FCFS then 0 else time_slice),
              os_last_policy_name := course_scheduler_policy_name policy\<rparr>))))"

definition course_online_scheduler_bind_process_table :: "online_scheduler \<Rightarrow> bool \<times> online_scheduler" where
  "course_online_scheduler_bind_process_table s = (True, clear_current (s\<lparr>table_bound := True\<rparr>))"

definition course_online_scheduler_add_process :: "online_scheduler \<Rightarrow> process_table \<Rightarrow> u32 \<Rightarrow> bool \<times> online_scheduler" where
  "course_online_scheduler_add_process s t pid =
     (if \<not> table_bound s \<or> pid = 0 \<or> otask_count s \<ge> COURSE_SCHEDULER_MAX_TASKS then (False, s)
      else case course_process_find t pid of
          None \<Rightarrow> (False, s)
        | Some p \<Rightarrow>
            if \<not> p_used (processes t p) \<or> p_state (processes t p) \<in> {UNUSED, ZOMBIE, DEAD} then (False, s)
            else if list_ex (\<lambda>i. ot_used (otasks s i) \<and> ot_pid (otasks s i) = pid) [0..<otask_count s] then (False, s)
            else (True, s\<lparr>otasks := (otasks s)(otask_count s := \<lparr>ot_used = True, ot_pid = pid, ot_vruntime = 0, ot_run_ticks = 0\<rparr>),
                          otask_count := otask_count s + 1\<rparr>))"

definition course_online_scheduler_tick :: "online_scheduler \<Rightarrow> process_table \<Rightarrow> bool \<times> online_scheduler \<times> process_table" where
  "course_online_scheduler_tick s t =
     (if \<not> table_bound s \<or> os_policy (osummary s) = POLICY_COUNT \<or>
         (os_policy (osummary s) \<noteq> FCFS \<and> os_time_slice (osummary s) = 0) then (False, s, t)
      else let s1 = upd_osummary s (\<lambda>m. m\<lparr>os_ticks := os_ticks m + 1\<rparr>);
               (ok, s2, t2) = online_prepare_current s1 t
           in if \<not> ok then (False, s2, t2)
              else if \<not> online_current_running s2 t2
              then (True, upd_osummary s2 (\<lambda>m. m\<lparr>os_current_pid := 0, os_idle_ticks := os_idle_ticks m + 1\<rparr>), t2)
              else (True, s2\<lparr>otasks := (otasks s2)(current_index s2 := (otasks s2 (current_index s2))
                        \<lparr>ot_run_ticks := ot_run_ticks (otasks s2 (current_index s2)) + 1,
                         ot_vruntime := ot_vruntime (otasks s2 (current_index s2)) + 1\<rparr>),
                      slice_used := slice_used s2 + 1\<rparr>, t2))"

definition course_online_scheduler_summary :: "online_scheduler \<Rightarrow> online_summary" where
  "course_online_scheduler_summary s = osummary s"

definition course_online_scheduler_timer_post_handler ::
  "u64 \<Rightarrow> online_scheduler option \<Rightarrow> process_table \<Rightarrow> online_scheduler option \<times> process_table" where
  "course_online_scheduler_timer_post_handler cause context t =
     (if cause \<noteq> 5 then (context, t)
      else case context of None \<Rightarrow> (None, t)
        | Some s \<Rightarrow> (case course_online_scheduler_tick s t of (_, s', t') \<Rightarrow> (Some s', t')))"

end
