(* ===== verification/OnlineTicks.thy ===== *)
theory OnlineTicks
  imports OnlineScheduler
begin

text \<open>
  What the timer ticks of the online scheduler do to the processes.  The proofs see the process
  table only through the interface \<open>process_states\<close>: the state of a pid and its change.
\<close>

abbreviation st :: "online_scheduler \<Rightarrow> process_table \<Rightarrow> nat \<Rightarrow> process_state option" where
  "st s t i \<equiv> process_state_of t (ot_pid (otasks s i))"

text \<open>What configuration, binding and registration establish and every tick keeps.\<close>

definition online_ok :: "online_scheduler \<Rightarrow> bool" where
  "online_ok s \<longleftrightarrow> table_bound s \<and> otask_count s \<le> COURSE_SCHEDULER_MAX_TASKS \<and>
     (\<forall>i<otask_count s. ot_used (otasks s i) \<and> ot_pid (otasks s i) \<noteq> 0 \<and>
        (\<forall>j<otask_count s. ot_pid (otasks s i) = ot_pid (otasks s j) \<longrightarrow> i = j)) \<and>
     (if current_index s = NO_INDEX then os_current_pid (osummary s) = 0
      else current_index s < otask_count s \<and> os_current_pid (osummary s) = ot_pid (otasks s (current_index s)))"


lemma upd_osummary_sel [simp]:
  "table_bound (upd_osummary s h) = table_bound s" "otasks (upd_osummary s h) = otasks s"
  "otask_count (upd_osummary s h) = otask_count s" "current_index (upd_osummary s h) = current_index s"
  "slice_used (upd_osummary s h) = slice_used s" "osummary (upd_osummary s h) = h (osummary s)"
  by (simp_all add: upd_osummary_def)

lemma clear_current_sel [simp]:
  "table_bound (clear_current s) = table_bound s" "otasks (clear_current s) = otasks s"
  "otask_count (clear_current s) = otask_count s" "current_index (clear_current s) = NO_INDEX"
  "slice_used (clear_current s) = 0" "osummary (clear_current s) = (osummary s)\<lparr>os_current_pid := 0\<rparr>"
  by (simp_all add: clear_current_def)

subsection \<open>The table through its interface\<close>

lemma find_used: "course_process_find t pid = Some p \<Longrightarrow> p_used (processes t p)"
  by (auto simp: course_process_find_def dest: first_index_SomeD split: if_splits)

lemma process_state_of_Some:
  "process_state_of t pid = Some x \<longleftrightarrow> (\<exists>p. course_process_find t pid = Some p \<and> p_state (processes t p) = x)"
  by (auto simp: process_state_of_def)

lemma process_at: "online_ok s \<Longrightarrow> i < otask_count s \<Longrightarrow> online_process_at s t i = course_process_find t (ot_pid (otasks s i))"
  by (simp add: online_process_at_def online_index_valid_def online_ok_def)

lemma runnable_iff:
  "online_ok s \<Longrightarrow> i < otask_count s \<Longrightarrow> online_process_runnable t (online_process_at s t i) \<longleftrightarrow> st s t i = Some READY"
  by (auto simp: process_at online_process_runnable_def process_state_of_Some find_used split: option.splits)

lemma candidate_iff:
  "online_ok s \<Longrightarrow> i < otask_count s \<Longrightarrow> online_process_cfs_candidate s i t (online_process_at s t i) \<longleftrightarrow>
     st s t i = Some READY \<or> (i = current_index s \<and> st s t i = Some RUNNING)"
  by (auto simp: process_at online_process_cfs_candidate_def process_state_of_Some find_used split: option.splits)

lemma current_running_iff:
  "online_ok s \<Longrightarrow> online_current_running s t \<longleftrightarrow>
     current_index s < otask_count s \<and> st s t (current_index s) = Some RUNNING"
  by (auto simp: online_current_running_def process_at online_index_valid_def process_state_of_Some
      split: option.splits) (simp add: online_ok_def)

lemma release_not_running:
  assumes "online_ok s" "\<not> online_current_running s t"
  shows "online_release_current s t = (clear_current s, t)"
  using assms by (auto simp: online_release_current_def online_current_running_def split: option.splits)

subsection \<open>Switching\<close>

definition switched :: "online_scheduler \<Rightarrow> nat \<Rightarrow> online_scheduler" where
  "switched s i = (let s1 = (online_record_context_switch s (ot_pid (otasks s i)))\<lparr>current_index := i\<rparr>
     in (upd_osummary s1 (\<lambda>m. m\<lparr>os_current_pid := ot_pid (otasks s i)\<rparr>))\<lparr>slice_used := 0\<rparr>)"

lemma switched_sel [simp]:
  "table_bound (switched s i) = table_bound s" "otasks (switched s i) = otasks s"
  "otask_count (switched s i) = otask_count s" "current_index (switched s i) = i"
  "slice_used (switched s i) = 0" "os_current_pid (osummary (switched s i)) = ot_pid (otasks s i)"
  "os_policy (osummary (switched s i)) = os_policy (osummary s)"
  "os_ticks (osummary (switched s i)) = os_ticks (osummary s)"
  "os_idle_ticks (osummary (switched s i)) = os_idle_ticks (osummary s)"
  "os_time_slice (osummary (switched s i)) = os_time_slice (osummary s)"
  "os_preempt_count (osummary (switched s i)) = os_preempt_count (osummary s)"
  "os_context_switches (osummary (switched s i)) =
     (if os_current_pid (osummary s) = ot_pid (otasks s i) then 0 else 1) + os_context_switches (osummary s)"
  by (simp_all add: switched_def online_record_context_switch_def Let_def)

text \<open>The states after a switch from the current task to task \<open>i\<close>.\<close>

definition switched_states :: "online_scheduler \<Rightarrow> nat \<Rightarrow> process_table \<Rightarrow> u32 \<Rightarrow> process_state option" where
  "switched_states s i t =
     (let m = (process_state_of t)(ot_pid (otasks s i) := Some RUNNING) in
      if current_index s < otask_count s \<and> current_index s \<noteq> i \<and> st s t (current_index s) = Some RUNNING
      then m(ot_pid (otasks s (current_index s)) := Some READY) else m)"

lemma select_none:
  "online_ok s \<Longrightarrow> online_select s t NO_INDEX = (True, clear_current s, t)"
  by (simp add: online_select_def online_index_valid_def online_ok_def)

lemma select_task:
  assumes ok: "online_ok s" and i: "i < otask_count s"
    and cand: "st s t i = Some READY \<or> (i = current_index s \<and> st s t i = Some RUNNING)"
  shows "\<exists>t'. online_select s t i = (True, switched s i, t') \<and> process_state_of t' = switched_states s i t"
proof -
  let ?pid = "ot_pid (otasks s i)" let ?c = "current_index s"
  have valid: "online_index_valid s i" using ok i by (simp add: online_index_valid_def online_ok_def)
  obtain p where p: "course_process_find t ?pid = Some p" using cand by (auto simp: process_state_of_Some)
  have pp: "p_pid (processes t p) = ?pid" by (rule find_pid [OF p])
  obtain t1 where t1: "course_process_set_state t ?pid RUNNING = (True, t1)"
    "process_state_of t1 = (process_state_of t)(?pid := Some RUNNING)"
    using ps.set_known [of t ?pid RUNNING] cand by auto
  define prev where "prev = (if ?c < otask_count s then online_process_at s t1 ?c else None)"
  define t2 where "t2 = (case prev of None \<Rightarrow> t1
     | Some q \<Rightarrow> if p_pid (processes t1 q) \<noteq> ?pid \<and> p_state (processes t1 q) = RUNNING
                 then snd (course_process_set_state t1 (p_pid (processes t1 q)) READY) else t1)"
  have sel: "online_select s t i = (True, switched s i, t2)"
    using valid p pp t1(1) cand candidate_iff [OF ok i, of t]
    by (simp add: online_select_def process_at [OF ok i] t2_def prev_def switched_def Let_def)
  have "process_state_of t2 = switched_states s i t"
  proof (cases "?c < otask_count s")
    case True
    have neq: "ot_pid (otasks s ?c) = ?pid \<longleftrightarrow> ?c = i" using ok True i by (auto simp: online_ok_def)
    have prev: "prev = course_process_find t1 (ot_pid (otasks s ?c))"
      using True process_at [OF ok True] by (simp add: prev_def)
    show ?thesis
    proof (cases prev)
      case None
      then have "st s t1 ?c = None" by (simp add: prev process_state_of_def)
      then have "?c \<noteq> i \<longrightarrow> st s t ?c = None" using neq by (auto simp: t1(2) split: if_splits)
      then show ?thesis using None by (auto simp: t2_def switched_states_def t1(2))
    next
      case (Some q)
      then have q: "p_pid (processes t1 q) = ot_pid (otasks s ?c)" "st s t1 ?c = Some (p_state (processes t1 q))"
        by (simp_all add: prev find_pid process_state_of_def)
      then have "?c \<noteq> i \<Longrightarrow> st s t ?c = Some (p_state (processes t1 q))" using neq by (simp add: t1(2))
      then show ?thesis
        using Some True q neq ps.state_of_set [of t1 "ot_pid (otasks s ?c)" READY]
        by (auto simp: t2_def switched_states_def t1(2))
    qed
  next
    case False
    then show ?thesis by (simp add: t2_def prev_def switched_states_def t1(2))
  qed
  then show ?thesis using sel by blast
qed

lemma switched_states_target:
  assumes "online_ok s" "i < otask_count s"
  shows "switched_states s i t (ot_pid (otasks s i)) = Some RUNNING"
  using assms by (auto simp: switched_states_def Let_def online_ok_def)

lemma switched_ok:
  assumes "online_ok s" "i < otask_count s"
  shows "online_ok (switched s i)"
  using assms unfolding online_ok_def by (auto simp: switched_sel)

lemma clear_ok: "online_ok s \<Longrightarrow> online_ok (clear_current s)"
  by (auto simp: online_ok_def)

lemma upd_osummary_ok:
  "online_ok s \<Longrightarrow> os_current_pid (h (osummary s)) = os_current_pid (osummary s) \<Longrightarrow> online_ok (upd_osummary s h)"
  by (auto simp: online_ok_def)

subsection \<open>The decision of a tick\<close>

text \<open>What the policies want: keep the current task, or switch to a task (\<open>NO_INDEX\<close>: to none).\<close>

datatype decision = Keep | Switch nat

definition pick :: "online_scheduler \<Rightarrow> process_table \<Rightarrow> nat" where
  "pick s t = (case os_policy (osummary s) of FCFS \<Rightarrow> online_pick_fcfs s t
     | RR \<Rightarrow> online_pick_rr s t (current_index s) | CFS_LITE \<Rightarrow> online_pick_cfs_lite s t | POLICY_COUNT \<Rightarrow> NO_INDEX)"

definition decide :: "online_scheduler \<Rightarrow> process_table \<Rightarrow> decision" where
  "decide s t =
     (if \<not> online_current_running s t then Switch (pick s t)
      else case os_policy (osummary s) of
          RR \<Rightarrow> if slice_used s \<ge> os_time_slice (osummary s) then Switch (pick s t) else Keep
        | CFS_LITE \<Rightarrow> if pick s t \<noteq> NO_INDEX \<and> pick s t \<noteq> current_index s then Switch (pick s t) else Keep
        | _ \<Rightarrow> Keep)"

lemma process_at_cong:
  assumes "otasks s' = otasks s" "otask_count s' = otask_count s" "table_bound s' = table_bound s"
  shows "online_process_at s' t = online_process_at s t"
  using assms by (auto simp: online_process_at_def online_index_valid_def fun_eq_iff)

lemma pick_cong:
  assumes "otasks s' = otasks s" "otask_count s' = otask_count s" "table_bound s' = table_bound s"
  shows "online_pick_fcfs s' t = online_pick_fcfs s t" "online_pick_rr s' t k = online_pick_rr s t k"
    and "current_index s' = current_index s \<Longrightarrow> online_pick_cfs_lite s' t = online_pick_cfs_lite s t"
  using assms process_at_cong [OF assms]
  by (simp_all add: online_pick_fcfs_def online_pick_rr_def online_pick_cfs_lite_def online_process_cfs_candidate_def
      cong: option.case_cong)

lemma scan_best_cong:
  "(\<And>i. i < n \<Longrightarrow> c i = c' i) \<Longrightarrow> scan_best c b n none = scan_best c' b n none"
  by (induction n) (auto simp: scan_best_Suc)

lemma pick_cfs_clear:
  assumes ok: "online_ok s" and nr: "\<not> online_current_running s t"
  shows "online_pick_cfs_lite (clear_current s) t = online_pick_cfs_lite s t"
proof -
  have "online_process_cfs_candidate (clear_current s) i t (online_process_at (clear_current s) t i) =
      online_process_cfs_candidate s i t (online_process_at s t i)" if "i < otask_count s" for i
  proof -
    have "i < otask_count (clear_current s)" "i \<noteq> NO_INDEX" using that ok by (auto simp: online_ok_def)
    then show ?thesis
      using candidate_iff [OF ok that, of t] candidate_iff [OF clear_ok [OF ok], of i t] nr that
      by (auto simp: current_running_iff [OF ok])
  qed
  then show ?thesis
    unfolding online_pick_cfs_lite_def clear_current_sel by (intro scan_best_cong)
qed

definition fcfs_choice :: "online_scheduler \<Rightarrow> process_table \<Rightarrow> nat \<Rightarrow> bool" where
  "fcfs_choice s t i \<longleftrightarrow> (if \<exists>j<otask_count s. st s t j = Some READY
    then i < otask_count s \<and> st s t i = Some READY \<and> (\<forall>j<i. st s t j \<noteq> Some READY)
    else i = NO_INDEX)"

lemma pick_fcfs_spec:
  assumes ok: "online_ok s"
  shows "fcfs_choice s t (online_pick_fcfs s t)"
proof -
  have e: "online_pick_fcfs s t = (case first_index (\<lambda>i. st s t i = Some READY) (otask_count s) of Some i \<Rightarrow> i | None \<Rightarrow> NO_INDEX)"
    unfolding online_pick_fcfs_def
    by (subst first_index_cong [of "otask_count s" _ "\<lambda>i. st s t i = Some READY"]) (simp_all add: runnable_iff [OF ok])
  show ?thesis
    unfolding e fcfs_choice_def by (auto simp: first_index_None_iff first_index_Some_iff split: option.splits)
qed

text \<open>The cyclic position of a task after the previous one.\<close>

definition rr_start :: "online_scheduler \<Rightarrow> nat" where
  "rr_start s = (if current_index s = NO_INDEX then 0 else (current_index s + 1) mod otask_count s)"

definition rr_choice :: "online_scheduler \<Rightarrow> process_table \<Rightarrow> nat \<Rightarrow> bool" where
  "rr_choice s t i \<longleftrightarrow> (if \<exists>j<otask_count s. st s t j = Some READY
    then i < otask_count s \<and> st s t i = Some READY \<and>
      (\<exists>k<otask_count s. i = (rr_start s + k) mod otask_count s \<and>
         (\<forall>j<k. st s t ((rr_start s + j) mod otask_count s) \<noteq> Some READY))
    else i = NO_INDEX)"

lemma pick_rr_spec:
  assumes ok: "online_ok s"
  shows "rr_choice s t (online_pick_rr s t (current_index s))"
proof (cases "otask_count s = 0")
  case True
  then show ?thesis by (simp add: online_pick_rr_def rr_choice_def)
next
  case False
  let ?n = "otask_count s"
  let ?P = "\<lambda>k. st s t ((rr_start s + k) mod ?n) = Some READY"
  have "first_index (\<lambda>k. online_process_runnable t (online_process_at s t ((rr_start s + k) mod ?n))) ?n = first_index ?P ?n"
    using False by (intro first_index_cong) (simp add: runnable_iff [OF ok])
  moreover have "online_pick_rr s t (current_index s) =
      (case first_index (\<lambda>k. online_process_runnable t (online_process_at s t ((rr_start s + k) mod ?n))) ?n of
         Some k \<Rightarrow> (rr_start s + k) mod ?n | None \<Rightarrow> NO_INDEX)"
    unfolding online_pick_rr_def rr_start_def Let_def using False by (simp only: if_False)
  ultimately have e: "online_pick_rr s t (current_index s) =
      (case first_index ?P ?n of Some k \<Rightarrow> (rr_start s + k) mod ?n | None \<Rightarrow> NO_INDEX)"
    by (simp only:)
  have all: "\<exists>k<?n. i = (rr_start s + k) mod ?n" if "i < ?n" for i
  proof -
    have "rr_start s \<le> ?n" using False by (auto simp: rr_start_def intro: less_imp_le)
    then have "(rr_start s + (i + ?n - rr_start s) mod ?n) mod ?n = (i + ?n) mod ?n"
      by (simp add: mod_simps)
    then show ?thesis using that False by (intro exI [of _ "(i + ?n - rr_start s) mod ?n"]) simp
  qed
  show ?thesis
  proof (cases "first_index ?P ?n")
    case None
    then have "\<not> (\<exists>i<?n. st s t i = Some READY)" using all by (auto simp: first_index_None_iff) 
    then show ?thesis using None e by (auto simp: rr_choice_def)
  next
    case (Some k)
    then have "k < ?n" "?P k" "\<forall>j<k. \<not> ?P j" by (auto simp: first_index_Some_iff)
    moreover have "\<exists>i<?n. st s t i = Some READY" using calculation(2) False by (intro exI conjI) auto
    moreover have "(rr_start s + k) mod ?n < ?n" using False by simp
    ultimately show ?thesis using Some e by (auto simp: rr_choice_def)
  qed
qed

definition cfs_candidate :: "online_scheduler \<Rightarrow> process_table \<Rightarrow> nat \<Rightarrow> bool" where
  "cfs_candidate s t i \<longleftrightarrow> i < otask_count s \<and>
     (st s t i = Some READY \<or> (i = current_index s \<and> st s t i = Some RUNNING))"

definition online_key :: "online_scheduler \<Rightarrow> nat \<Rightarrow> u32 \<times> u32" where
  "online_key s i = (ot_vruntime (otasks s i), ot_pid (otasks s i))"

definition cfs_choice :: "online_scheduler \<Rightarrow> process_table \<Rightarrow> nat \<Rightarrow> bool" where
  "cfs_choice s t i \<longleftrightarrow> (if \<exists>j. cfs_candidate s t j
    then cfs_candidate s t i \<and> (\<forall>j. cfs_candidate s t j \<longrightarrow> online_key s i \<le> online_key s j)
    else i = NO_INDEX)"

lemma pick_cfs_spec:
  assumes ok: "online_ok s"
  shows "cfs_choice s t (online_pick_cfs_lite s t)"
proof -
  let ?n = "otask_count s" let ?p = "online_pick_cfs_lite s t"
  have n: "?n \<le> NO_INDEX" using ok by (simp add: online_ok_def)
  have e: "?p = scan_best (cfs_candidate s t) (\<lambda>i best. ot_vruntime (otasks s i) < ot_vruntime (otasks s best) \<or>
          (ot_vruntime (otasks s i) = ot_vruntime (otasks s best) \<and> ot_pid (otasks s i) < ot_pid (otasks s best)))
       ?n NO_INDEX"
    unfolding online_pick_cfs_lite_def
    by (rule scan_best_cong) (simp add: candidate_iff [OF ok] cfs_candidate_def)
  show ?thesis
  proof (cases "\<exists>i. cfs_candidate s t i")
    case True
    then have "?p \<noteq> NO_INDEX" unfolding e using n by (subst scan_best_none_iff) (auto simp: cfs_candidate_def)
    then have "cfs_candidate s t ?p" unfolding e by (blast dest: scan_best_cand)
    moreover have "online_key s ?p \<le> online_key s j" if "cfs_candidate s t j" for j
      unfolding e
      by (rule scan_best_least(1) [where key = "online_key s", OF n])
        (use that in \<open>auto simp: online_key_def less_prod_def' cfs_candidate_def\<close>)
    ultimately show ?thesis using True by (auto simp: cfs_choice_def)
  next
    case False
    then have "?p = NO_INDEX" unfolding e using n by (subst scan_best_none_iff) auto
    then show ?thesis using False by (simp add: cfs_choice_def)
  qed
qed

lemma pick_cases:
  assumes ok: "online_ok s"
  obtains (none) "pick s t = NO_INDEX" | (task) "cfs_candidate s t (pick s t)"
proof -
  have "pick s t = NO_INDEX \<or> cfs_candidate s t (pick s t)"
  proof (cases "os_policy (osummary s)")
    case FCFS
    then show ?thesis
      using pick_fcfs_spec [OF ok, of t] by (auto simp: pick_def cfs_candidate_def fcfs_choice_def split: if_splits)
  next
    case RR
    then show ?thesis
      using pick_rr_spec [OF ok, of t] by (auto simp: pick_def cfs_candidate_def rr_choice_def split: if_splits)
  next
    case CFS_LITE
    then show ?thesis
      using pick_cfs_spec [OF ok, of t] by (auto simp: pick_def cfs_choice_def split: if_splits)
  next
    case POLICY_COUNT
    then show ?thesis by (simp add: pick_def)
  qed
  then show ?thesis using that by blast
qed

text \<open>The outcome of \<open>online_select\<close> on a pick.\<close>

definition selected :: "online_scheduler \<Rightarrow> nat \<Rightarrow> process_table \<Rightarrow> online_scheduler \<times> process_table \<Rightarrow> bool" where
  "selected s i t r \<longleftrightarrow> online_ok (fst r) \<and> otasks (fst r) = otasks s \<and> otask_count (fst r) = otask_count s \<and>
     os_ticks (osummary (fst r)) = os_ticks (osummary s) \<and> os_idle_ticks (osummary (fst r)) = os_idle_ticks (osummary s) \<and>
     os_policy (osummary (fst r)) = os_policy (osummary s) \<and>
     os_time_slice (osummary (fst r)) = os_time_slice (osummary s) \<and>
     current_index (fst r) = i \<and> slice_used (fst r) = 0 \<and>
     (if i = NO_INDEX then snd r = t
      else cfs_candidate s t i \<and> process_state_of (snd r) = switched_states s i t)"

lemma select_selected:
  assumes ok: "online_ok s" and i: "i = NO_INDEX \<or> cfs_candidate s t i"
  shows "\<exists>s' t'. online_select s t i = (True, s', t') \<and> selected s i t (s', t')"
proof (cases "i = NO_INDEX")
  case True
  then show ?thesis using select_none [OF ok, of t] clear_ok [OF ok] by (simp add: selected_def)
next
  case False
  then have i': "i < otask_count s" "cfs_candidate s t i" using i by (auto simp: cfs_candidate_def)
  then obtain t' where "online_select s t i = (True, switched s i, t')" "process_state_of t' = switched_states s i t"
    using select_task [OF ok, of i t] by (auto simp: cfs_candidate_def)
  then show ?thesis using switched_ok [OF ok i'(1)] False i'(2) by (simp add: selected_def)
qed

lemma prepare_spec:
  assumes ok: "online_ok s" and p: "os_policy (osummary s) \<noteq> POLICY_COUNT"
  shows "\<exists>s' t'. online_prepare_current s t = (True, s', t') \<and>
    (case decide s t of Keep \<Rightarrow> online_current_running s t \<and> s' = s \<and> t' = t | Switch i \<Rightarrow> selected s i t (s', t'))"
proof (cases "online_current_running s t")
  case False
  let ?s = "clear_current s"
  have same: "pick ?s t = pick s t" if "os_policy (osummary s) \<noteq> RR"
    using that pick_cong(1) [of ?s s t] pick_cfs_clear [OF ok False] by (auto simp: pick_def split: sched_policy.split)
  have nr: "\<not> (current_index s < otask_count s \<and> st s t (current_index s) = Some RUNNING)"
    using False by (simp add: current_running_iff [OF ok])
  have prep: "online_prepare_current s t = online_select ?s t (pick s t)"
    using False p same release_not_running [OF ok False] pick_cong(2) [of ?s s t]
    by (auto simp: online_prepare_current_def online_select_next_def pick_def split: sched_policy.split)
  have cand: "cfs_candidate ?s t i = cfs_candidate s t i" for i
    using nr ok by (auto simp: cfs_candidate_def online_ok_def)
  have ss: "switched_states ?s i t = switched_states s i t" for i
    using nr ok by (auto simp: switched_states_def Let_def online_ok_def)
  have "pick s t = NO_INDEX \<or> cfs_candidate ?s t (pick s t)"
    unfolding cand by (rule pick_cases [OF ok, of t]) simp_all
  then obtain s' t' where "online_select ?s t (pick s t) = (True, s', t')" "selected ?s (pick s t) t (s', t')"
    using select_selected [OF clear_ok [OF ok], of "pick s t" t] by blast
  then show ?thesis
    using False unfolding prep by (auto simp: decide_def selected_def cand ss split: if_splits)
next
  case True
  have "pick s t = NO_INDEX \<or> cfs_candidate s t (pick s t)"
    by (rule pick_cases [OF ok, of t]) simp_all
  then obtain s' t' where sel: "online_select s t (pick s t) = (True, s', t')" "selected s (pick s t) t (s', t')"
    using select_selected [OF ok, of "pick s t" t] by blast
  show ?thesis
  proof (cases "os_policy (osummary s)")
    case FCFS
    then show ?thesis using True by (simp add: online_prepare_current_def decide_def)
  next
    case RR
    let ?s = "upd_osummary s (\<lambda>m. m\<lparr>os_preempt_count := os_preempt_count m + 1\<rparr>)"
    have ok': "online_ok ?s" by (rule upd_osummary_ok [OF ok]) simp
    have pk: "online_pick_rr ?s t (current_index s) = pick s t"
      using pick_cong(2) [of ?s s t] RR by (simp add: pick_def)
    have "pick s t = NO_INDEX \<or> cfs_candidate ?s t (pick s t)"
      by (rule pick_cases [OF ok, of t]) (simp_all add: cfs_candidate_def)
    then obtain s'' t'' where "online_select ?s t (pick s t) = (True, s'', t'')" "selected ?s (pick s t) t (s'', t'')"
      using select_selected [OF ok', of "pick s t" t] by blast
    then show ?thesis
      using True RR pk
      by (auto simp: online_prepare_current_def online_select_next_def decide_def selected_def cfs_candidate_def
          switched_states_def Let_def)
  next
    case CFS_LITE
    then have "pick s t = online_pick_cfs_lite s t" by (simp add: pick_def)
    then show ?thesis
      using True CFS_LITE sel by (auto simp: online_prepare_current_def decide_def Let_def)
  next
    case POLICY_COUNT
    then show ?thesis using p by simp
  qed
qed

subsection \<open>One tick\<close>

definition online_ready :: "online_scheduler \<Rightarrow> bool" where
  "online_ready s \<longleftrightarrow> os_policy (osummary s) \<noteq> POLICY_COUNT \<and>
     (os_policy (osummary s) \<noteq> FCFS \<longrightarrow> os_time_slice (osummary s) \<noteq> 0)"

definition counted :: "online_scheduler \<Rightarrow> online_scheduler" where
  "counted s = upd_osummary s (\<lambda>m. m\<lparr>os_ticks := os_ticks m + 1\<rparr>)"

lemma counted_sel [simp]:
  "table_bound (counted s) = table_bound s" "otasks (counted s) = otasks s" "otask_count (counted s) = otask_count s"
  "current_index (counted s) = current_index s" "slice_used (counted s) = slice_used s"
  "os_policy (osummary (counted s)) = os_policy (osummary s)"
  "os_ticks (osummary (counted s)) = os_ticks (osummary s) + 1"
  "os_idle_ticks (osummary (counted s)) = os_idle_ticks (osummary s)"
  "os_time_slice (osummary (counted s)) = os_time_slice (osummary s)"
  by (simp_all add: counted_def)

lemma counted_ok: "online_ok s \<Longrightarrow> online_ok (counted s)"
  unfolding counted_def by (rule upd_osummary_ok) simp_all

lemma counted_running: "online_ok s \<Longrightarrow> online_current_running (counted s) t = online_current_running s t"
  by (simp add: current_running_iff counted_ok)

lemma counted_decide:
  assumes "online_ok s"
  shows "decide (counted s) t = decide s t"
proof -
  have "pick (counted s) t = pick s t"
    using pick_cong [of "counted s" s t] by (cases "os_policy (osummary s)") (simp_all add: pick_def)
  then show ?thesis
    using assms by (cases "os_policy (osummary s)") (simp_all add: decide_def counted_running)
qed

definition charge :: "online_task \<Rightarrow> online_task" where
  "charge k = k\<lparr>ot_run_ticks := ot_run_ticks k + 1, ot_vruntime := ot_vruntime k + 1\<rparr>"

lemma charge_pid [simp]: "ot_pid (charge k) = ot_pid k" "ot_used (charge k) = ot_used k"
  by (simp_all add: charge_def)

lemma charged_ok:
  assumes "online_ok s"
  shows "online_ok (s\<lparr>otasks := (otasks s)(i := charge (otasks s i)), slice_used := n\<rparr>)"
proof -
  let ?s = "s\<lparr>otasks := (otasks s)(i := charge (otasks s i)), slice_used := n\<rparr>"
  have "ot_pid (otasks ?s k) = ot_pid (otasks s k)" "ot_used (otasks ?s k) = ot_used (otasks s k)" for k by simp_all
  then show ?thesis using assms unfolding online_ok_def by simp
qed

text \<open>The effect of a tick, by the decision it takes.\<close>

definition tick_effect :: "online_scheduler \<Rightarrow> process_table \<Rightarrow> online_scheduler \<Rightarrow> process_table \<Rightarrow> bool" where
  "tick_effect s t s' t' \<longleftrightarrow> online_ok s' \<and> otask_count s' = otask_count s \<and>
     os_ticks (osummary s') = os_ticks (osummary s) + 1 \<and>
     os_policy (osummary s') = os_policy (osummary s) \<and> os_time_slice (osummary s') = os_time_slice (osummary s) \<and>
     (case (case decide s t of Keep \<Rightarrow> current_index s | Switch i \<Rightarrow> i) of i \<Rightarrow>
        current_index s' = i \<and>
        process_state_of t' = (if decide s t = Keep \<or> i = NO_INDEX then process_state_of t else switched_states s i t) \<and>
        (if i = NO_INDEX
         then otasks s' = otasks s \<and> os_idle_ticks (osummary s') = os_idle_ticks (osummary s) + 1
         else i < otask_count s \<and> process_state_of t' (ot_pid (otasks s i)) = Some RUNNING \<and>
              otasks s' = (otasks s)(i := charge (otasks s i)) \<and>
              os_idle_ticks (osummary s') = os_idle_ticks (osummary s)))"

lemma tick_spec:
  assumes ok: "online_ok s" and r: "online_ready s"
  shows "\<exists>s' t'. course_online_scheduler_tick s t = (True, s', t') \<and> tick_effect s t s' t'"
proof -
  let ?s1 = "counted s"
  have ok1: "online_ok ?s1" by (rule counted_ok [OF ok])
  have p: "os_policy (osummary ?s1) \<noteq> POLICY_COUNT" using r by (simp add: online_ready_def)
  obtain s2 t2 where prep: "online_prepare_current ?s1 t = (True, s2, t2)"
    and d: "case decide s t of Keep \<Rightarrow> online_current_running s t \<and> s2 = ?s1 \<and> t2 = t | Switch i \<Rightarrow> selected ?s1 i t (s2, t2)"
    using prepare_spec [OF ok1 p, of t] unfolding counted_running [OF ok] counted_decide [OF ok] by blast
  have ss: "switched_states ?s1 i t = switched_states s i t" for i by (simp add: switched_states_def Let_def)
  define i where "i = (case decide s t of Keep \<Rightarrow> current_index s | Switch i \<Rightarrow> i)"
  have s2: "online_ok s2" "otasks s2 = otasks s" "otask_count s2 = otask_count s" "current_index s2 = i"
    "os_ticks (osummary s2) = os_ticks (osummary s) + 1" "os_idle_ticks (osummary s2) = os_idle_ticks (osummary s)"
    "os_policy (osummary s2) = os_policy (osummary s)" "os_time_slice (osummary s2) = os_time_slice (osummary s)"
    using d ok1 by (auto simp: selected_def i_def split: decision.splits)
  have t2: "process_state_of t2 = (if decide s t = Keep \<or> i = NO_INDEX then process_state_of t else switched_states s i t)"
    using d by (auto simp: selected_def i_def ss split: decision.splits if_splits)
  have run: "online_current_running s2 t2 \<longleftrightarrow> i \<noteq> NO_INDEX"
  proof (cases "i = NO_INDEX")
    case True
    then show ?thesis using s2(1,3,4) by (simp add: current_running_iff [OF s2(1)]) (simp add: online_ok_def)
  next
    case False
    have "i < otask_count s \<and> st s t2 i = Some RUNNING"
    proof (cases "decide s t")
      case Keep
      then show ?thesis using d by (simp add: current_running_iff [OF ok] i_def)
    next
      case (Switch k)
      then have "k < otask_count s" using d False by (auto simp: selected_def i_def cfs_candidate_def split: if_splits)
      then show ?thesis using switched_states_target [OF ok, of k t] t2 False Switch by (simp add: i_def)
    qed
    then show ?thesis using False s2 by (simp add: current_running_iff [OF s2(1)])
  qed
  have guard: "\<not> (\<not> table_bound s \<or> os_policy (osummary s) = POLICY_COUNT \<or>
      (os_policy (osummary s) \<noteq> FCFS \<and> os_time_slice (osummary s) = 0))"
    using ok r by (auto simp: online_ok_def online_ready_def)
  show ?thesis
  proof (cases "i = NO_INDEX")
    case True
    define s3 where "s3 = upd_osummary s2 (\<lambda>m. m\<lparr>os_current_pid := 0, os_idle_ticks := os_idle_ticks m + 1\<rparr>)"
    have tick: "course_online_scheduler_tick s t = (True, s3, t2)"
      using guard prep run True by (simp add: course_online_scheduler_tick_def counted_def s3_def)
    have "online_ok s3" using s2(1,4) True by (auto simp: s3_def online_ok_def)
    then have "tick_effect s t s3 t2"
      using s2 t2 True by (simp add: tick_effect_def i_def [symmetric] s3_def)
    then show ?thesis using tick by blast
  next
    case False
    define s3 where "s3 = s2\<lparr>otasks := (otasks s2)(i := charge (otasks s2 i)), slice_used := slice_used s2 + 1\<rparr>"
    have tick: "course_online_scheduler_tick s t = (True, s3, t2)"
      using guard prep run False s2(4) by (simp add: course_online_scheduler_tick_def counted_def s3_def charge_def)
    have "i < otask_count s" "process_state_of t2 (ot_pid (otasks s i)) = Some RUNNING"
      using run False s2 by (simp_all add: current_running_iff [OF s2(1)])
    moreover have "online_ok s3" unfolding s3_def by (rule charged_ok [OF s2(1)])
    ultimately have "tick_effect s t s3 t2"
      using s2 t2 False by (simp add: tick_effect_def i_def [symmetric] s3_def)
    then show ?thesis using tick by blast
  qed
qed

subsection \<open>Configuration and registration\<close>

lemma bind_ok:
  assumes "otask_count s = 0"
  shows "online_ok (snd (course_online_scheduler_bind_process_table s))"
  using assms by (simp add: course_online_scheduler_bind_process_table_def online_ok_def)

lemma configure_ok: "online_ok s \<Longrightarrow> online_ok (snd (course_online_scheduler_configure s policy ts))"
  using clear_ok [of s] by (auto simp: course_online_scheduler_configure_def online_ok_def)

lemma add_process_ok: "online_ok s \<Longrightarrow> online_ok (snd (course_online_scheduler_add_process s t pid))"
  by (auto simp: course_online_scheduler_add_process_def online_ok_def list_ex_iff less_Suc_eq split: option.splits)

lemma add_process_result:
  assumes "online_ok s"
  shows "fst (course_online_scheduler_add_process s t pid) \<longleftrightarrow> pid \<noteq> 0 \<and> otask_count s < COURSE_SCHEDULER_MAX_TASKS \<and>
     (\<exists>x. process_state_of t pid = Some x \<and> x \<notin> {UNUSED, ZOMBIE, DEAD}) \<and> (\<forall>i<otask_count s. ot_pid (otasks s i) \<noteq> pid)"
  using assms find_used [of t pid]
  by (auto simp: course_online_scheduler_add_process_def online_ok_def list_ex_iff process_state_of_def not_le
      split: option.splits)

subsection \<open>The properties of a tick\<close>

text \<open>A tick of a bound and configured online scheduler always succeeds and is charged exactly once:
  the tick counter advances by one, and either the tick is idle, no task is current, no process
  changes and only the idle counter advances, or exactly one registered task is current and
  RUNNING and only its run and virtual-run counters advance.  The scheduler stays well formed.\<close>

theorem online_tick_accounting:
  assumes "online_ok s" "online_ready s"
  shows "\<exists>s' t'. course_online_scheduler_tick s t = (True, s', t') \<and> online_ok s' \<and>
     otask_count s' = otask_count s \<and> os_ticks (osummary s') = os_ticks (osummary s) + 1 \<and>
     (current_index s' = NO_INDEX \<and> process_state_of t' = process_state_of t \<and> otasks s' = otasks s \<and>
        os_idle_ticks (osummary s') = os_idle_ticks (osummary s) + 1 \<or>
      (\<exists>i<otask_count s. current_index s' = i \<and> process_state_of t' (ot_pid (otasks s i)) = Some RUNNING \<and>
        otasks s' = (otasks s)(i := (otasks s i)\<lparr>ot_run_ticks := ot_run_ticks (otasks s i) + 1,
          ot_vruntime := ot_vruntime (otasks s i) + 1\<rparr>) \<and>
        os_idle_ticks (osummary s') = os_idle_ticks (osummary s)))"
proof -
  obtain s' t' where tick: "course_online_scheduler_tick s t = (True, s', t')" "tick_effect s t s' t'"
    using tick_spec [OF assms] by blast
  show ?thesis
    by (intro exI [of _ s'] exI [of _ t'])
      (use tick in \<open>auto simp: tick_effect_def charge_def Let_def split: if_splits\<close>)
qed

text \<open>C12: each tick runs the task its policy prescribes.  FCFS keeps a running task and otherwise takes the
  first READY one; round robin keeps a running task within its time slice and otherwise takes the
  next READY one in cyclic order; CFS-lite takes a task with the least virtual run time (then
  pid) among the READY ones and the running one; and a tick that finds no running task is
  idle only when no registered process is READY.\<close>

theorem online_tick_choice:
  assumes "online_ok s" "online_ready s" "course_online_scheduler_tick s t = (ok, s', t')"
  shows "case os_policy (osummary s) of
       FCFS \<Rightarrow> if online_current_running s t then current_index s' = current_index s
         else fcfs_choice s t (current_index s')
     | RR \<Rightarrow> if online_current_running s t \<and> slice_used s < os_time_slice (osummary s)
         then current_index s' = current_index s else rr_choice s t (current_index s')
     | CFS_LITE \<Rightarrow> cfs_choice s t (current_index s')
     | POLICY_COUNT \<Rightarrow> False"
proof -
  have eff: "tick_effect s t s' t'" using tick_spec [OF assms(1,2), of t] assms(3) by auto
  define i where "i = (case decide s t of Keep \<Rightarrow> current_index s | Switch i \<Rightarrow> i)"
  have i: "current_index s' = i" using eff by (simp add: tick_effect_def i_def)
  show ?thesis
  proof (cases "os_policy (osummary s)")
    case FCFS
    then have "i = (if online_current_running s t then current_index s else online_pick_fcfs s t)"
      by (simp add: i_def decide_def pick_def)
    then show ?thesis using pick_fcfs_spec [OF assms(1), of t] FCFS i by simp
  next
    case RR
    then have "i = (if online_current_running s t \<and> slice_used s < os_time_slice (osummary s)
        then current_index s else online_pick_rr s t (current_index s))"
      by (auto simp: i_def decide_def pick_def not_le)
    then show ?thesis using pick_rr_spec [OF assms(1), of t] RR i by simp
  next
    case CFS_LITE
    have "cfs_candidate s t (current_index s)" if "online_current_running s t"
      using that by (simp add: current_running_iff [OF assms(1)] cfs_candidate_def)
    moreover have "\<not> cfs_candidate s t NO_INDEX" using assms(1) by (simp add: cfs_candidate_def online_ok_def)
    ultimately have "i = online_pick_cfs_lite s t"
      using CFS_LITE pick_cfs_spec [OF assms(1), of t]
      by (auto simp: i_def decide_def pick_def cfs_choice_def split: if_splits)
    then show ?thesis using pick_cfs_spec [OF assms(1), of t] CFS_LITE i by simp
  next
    case POLICY_COUNT
    then show ?thesis using assms(2) by (simp add: online_ready_def)
  qed
qed


subsection \<open>A lone round-robin task\<close>

fun online_ticks :: "nat \<Rightarrow> online_scheduler \<times> process_table \<Rightarrow> online_scheduler \<times> process_table" where
  "online_ticks 0 c = c"
| "online_ticks (Suc n) c = (case course_online_scheduler_tick (fst c) (snd c) of (_, c') \<Rightarrow> online_ticks n c')"

definition stalled :: "online_scheduler \<Rightarrow> process_table \<Rightarrow> bool" where
  "stalled s t \<longleftrightarrow> online_ok s \<and> online_ready s \<and> os_policy (osummary s) = RR \<and> current_index s = NO_INDEX \<and>
     (\<forall>i<otask_count s. st s t i \<noteq> Some READY)"

lemma rr_nothing_ready:
  assumes "online_ok s" "online_ready s" "os_policy (osummary s) = RR" "\<forall>i<otask_count s. st s t i \<noteq> Some READY"
    and "online_current_running s t \<longrightarrow> os_time_slice (osummary s) \<le> slice_used s"
  shows "\<exists>s' t'. course_online_scheduler_tick s t = (True, s', t') \<and> stalled s' t' \<and>
     process_state_of t' = process_state_of t \<and> otasks s' = otasks s \<and>
     os_idle_ticks (osummary s') = os_idle_ticks (osummary s) + 1"
proof -
  have "decide s t = Switch NO_INDEX"
    using assms(3-5) pick_rr_spec [OF assms(1), of t] by (auto simp: decide_def pick_def rr_choice_def)
  then show ?thesis
    using tick_spec [OF assms(1,2), of t] assms(2-4)
    by (auto simp: tick_effect_def stalled_def online_ready_def)
qed

lemma stalled_ticks:
  assumes "stalled s t"
  shows "stalled (fst (online_ticks n (s, t))) (snd (online_ticks n (s, t))) \<and>
     process_state_of (snd (online_ticks n (s, t))) = process_state_of t \<and>
     otasks (fst (online_ticks n (s, t))) = otasks s \<and>
     os_idle_ticks (osummary (fst (online_ticks n (s, t)))) = os_idle_ticks (osummary s) + of_nat n"
  using assms
proof (induction n arbitrary: s t)
  case 0
  then show ?case by simp
next
  case (Suc n)
  have "\<not> online_current_running s t"
    using Suc.prems by (auto simp: stalled_def current_running_iff) (simp add: online_ok_def)
  then obtain s1 t1 where 1: "course_online_scheduler_tick s t = (True, s1, t1)" "stalled s1 t1"
    "process_state_of t1 = process_state_of t" "otasks s1 = otasks s"
    "os_idle_ticks (osummary s1) = os_idle_ticks (osummary s) + 1"
    using rr_nothing_ready [of s t] Suc.prems by (auto simp: stalled_def)
  then show ?case using Suc.IH [OF 1(2)] by simp
qed

text \<open>C33: what the excluded case does.  When the time slice of the running round-robin task ends and no
  other registered task is READY, the scheduler forgets the task without making it READY: every
  later tick is idle, for ever, while the process stays RUNNING in the process table and is
  charged nothing.  A single runnable process is thus starved after its first time slice.\<close>

theorem rr_lone_task_starves:
  assumes "online_ok s" "online_ready s" "os_policy (osummary s) = RR" "online_current_running s t"
    and "os_time_slice (osummary s) \<le> slice_used s"
    and "\<forall>i<otask_count s. process_state_of t (ot_pid (otasks s i)) \<noteq> Some READY"
  shows "\<exists>s' t'. online_ticks (Suc n) (s, t) = (s', t') \<and> current_index s' = NO_INDEX \<and>
     process_state_of t' (ot_pid (otasks s (current_index s))) = Some RUNNING \<and> otasks s' = otasks s \<and>
     os_idle_ticks (osummary s') = os_idle_ticks (osummary s) + 1 + of_nat n"
proof -
  obtain s1 t1 where 1: "course_online_scheduler_tick s t = (True, s1, t1)" "stalled s1 t1"
    "process_state_of t1 = process_state_of t" "otasks s1 = otasks s"
    "os_idle_ticks (osummary s1) = os_idle_ticks (osummary s) + 1"
    using rr_nothing_ready [OF assms(1-3,6)] assms(5) by auto
  have "st s t (current_index s) = Some RUNNING" using assms(4) by (simp add: current_running_iff [OF assms(1)])
  then show ?thesis
    using stalled_ticks [OF 1(2), of n] 1
    by (intro exI [of _ "fst (online_ticks n (s1, t1))"] exI [of _ "snd (online_ticks n (s1, t1))"])
      (simp add: stalled_def)
qed

subsection \<open>Examples\<close>

definition example_table :: process_table where
  "example_table = snd (course_process_spawn (snd (course_process_spawn course_process_table_init 0 None)) 0 None)"

definition example_online :: "sched_policy \<Rightarrow> u32 \<Rightarrow> online_scheduler" where
  "example_online policy ts = snd (course_online_scheduler_add_process (snd (course_online_scheduler_configure
     (snd (course_online_scheduler_bind_process_table course_online_scheduler_init)) policy ts)) example_table 1)"

lemma example_online_ok: "online_ok (example_online policy ts)"
  unfolding example_online_def
  by (intro add_process_ok configure_ok bind_ok) (simp add: course_online_scheduler_init_def)


lemma example_ready: "online_ready (example_online RR 1)" "online_ready (example_online CFS_LITE 1)"
  unfolding online_ready_def by code_simp+


theorem online_tick_accounting_witness:
  "\<exists>s' t'. course_online_scheduler_tick (example_online RR 1) example_table = (True, s', t') \<and>
     os_ticks (osummary s') = os_ticks (osummary (example_online RR 1)) + 1"
  using online_tick_accounting [OF example_online_ok example_ready(1), of example_table] by blast

theorem online_tick_choice_witness:
  "\<exists>ok s' t'. course_online_scheduler_tick (example_online CFS_LITE 1) example_table = (ok, s', t') \<and>
     cfs_choice (example_online CFS_LITE 1) example_table (current_index s')"
proof -
  obtain ok s' t' where t: "course_online_scheduler_tick (example_online CFS_LITE 1) example_table = (ok, s', t')"
    by (metis surj_pair)
  moreover have "os_policy (osummary (example_online CFS_LITE 1)) = CFS_LITE" by code_simp
  ultimately show ?thesis
    using online_tick_choice [OF example_online_ok example_ready(2) t] by auto
qed


theorem rr_lone_task_starves_witness:
  "\<exists>s t s' t'. snd (course_online_scheduler_tick (example_online RR 1) example_table) = (s, t) \<and>
     online_ticks (Suc 4) (s, t) = (s', t') \<and> current_index s' = NO_INDEX \<and> process_state_of t' 1 = Some RUNNING"
proof -
  let ?r = "snd (course_online_scheduler_tick (example_online RR 1) example_table)"
  obtain s t where st: "course_online_scheduler_tick (example_online RR 1) example_table = (True, s, t)"
    and ok: "online_ok s" "online_ready s"
    using tick_spec [OF example_online_ok example_ready(1), of example_table] example_ready(1)
    by (auto simp: tick_effect_def online_ready_def)
  have "os_policy (osummary (fst ?r)) = RR \<and> online_current_running (fst ?r) (snd ?r) \<and>
    os_time_slice (osummary (fst ?r)) \<le> slice_used (fst ?r) \<and> otask_count (fst ?r) = 1 \<and> current_index (fst ?r) = 0 \<and>
    ot_pid (otasks (fst ?r) 0) = 1 \<and> process_state_of (snd ?r) 1 = Some RUNNING" by code_simp
  then show ?thesis
    using rr_lone_task_starves [OF ok, of t 4] st by (auto simp del: online_ticks.simps)
qed

text \<open>Reconfiguring while a task runs forgets it in the same way.\<close>

lemma reconfigure_forgets_runner:
  assumes "online_ok s" "online_current_running s t" "course_online_scheduler_configure s policy ts = (True, s')"
  shows "current_index s' = NO_INDEX \<and> st s' t (current_index s) = Some RUNNING"
  using assms by (auto simp: course_online_scheduler_configure_def current_running_iff split: if_splits)

end
