(* ===== verification/ConsoleInput.thy ===== *)
theory ConsoleInput
  imports Prelude
begin

text \<open>
  Line input of the kernel console (\<open>src/myCPU/guest/kernel/console_input.c\<close>): a ring buffer of 256
  bytes filled by the UART interrupt, and a line of at most 128 characters edited by polling.

  The UART is memory-mapped; what the code needs of it is a receive queue and a transmit log:
  \<open>rx_ready\<close> tells whether the queue is non-empty, \<open>getc\<close> takes its head, \<open>putc\<close> appends to the
  log.  Bytes that arrive while a loop drains the queue are simply a longer queue.  The line
  buffer is read as the string of its first \<open>length\<close> characters; the cell after them is NUL.
\<close>

abbreviation CONSOLE_INPUT_MAX_LINE :: nat where "CONSOLE_INPUT_MAX_LINE \<equiv> 128"
abbreviation CONSOLE_INPUT_RX_BUFFER_SIZE :: nat where "CONSOLE_INPUT_RX_BUFFER_SIZE \<equiv> 256"

datatype poll_result = CONSOLE_INPUT_NONE | CONSOLE_INPUT_READY | CONSOLE_INPUT_OVERFLOW

record uart =
  uart_rx :: "u8 list"
  uart_tx :: "u8 list"

record console_input =
  line_data :: "u8 carray"
  line_length :: nat
  line_overflow :: bool
  rx_buffer :: "u8 carray"
  rx_head :: nat
  rx_tail :: nat
  rx_count :: nat
  rx_overflow :: bool

definition console_putc :: "u8 \<Rightarrow> uart \<Rightarrow> uart" where
  "console_putc ch u = u\<lparr>uart_tx := uart_tx u @ [ch]\<rparr>"

fun console_puts :: "u8 list \<Rightarrow> uart \<Rightarrow> uart" where
  "console_puts [] u = u"
| "console_puts (c # cs) u = console_puts cs (console_putc c u)"

definition console_input_is_visible_ascii :: "u8 \<Rightarrow> bool" where
  "console_input_is_visible_ascii ch \<longleftrightarrow> ch \<ge> 0x20 \<and> ch \<le> 0x7e"

definition console_input_read_uart_byte :: "uart \<Rightarrow> (u8 \<times> uart) option" where
  "console_input_read_uart_byte u =
     (case uart_rx u of [] \<Rightarrow> None | c # cs \<Rightarrow> Some (c, u\<lparr>uart_rx := cs\<rparr>))"

definition console_input_reset_line :: "console_input \<Rightarrow> console_input" where
  "console_input_reset_line s = s\<lparr>line_data := (line_data s)(0 := 0), line_length := 0,
     line_overflow := False, rx_overflow := False\<rparr>"

definition console_input_reset_rx :: "console_input \<Rightarrow> console_input" where
  "console_input_reset_rx s = s\<lparr>rx_head := 0, rx_tail := 0, rx_count := 0, rx_overflow := False\<rparr>"

definition console_input_pop_interrupt_byte :: "console_input \<Rightarrow> (u8 \<times> console_input) option" where
  "console_input_pop_interrupt_byte s =
     (if rx_count s = 0 then None
      else Some (rx_buffer s (rx_head s),
                 s\<lparr>rx_head := (rx_head s + 1) mod CONSOLE_INPUT_RX_BUFFER_SIZE, rx_count := rx_count s - 1\<rparr>))"

definition console_input_read_next_byte :: "console_input \<Rightarrow> uart \<Rightarrow> (u8 \<times> console_input \<times> uart) option" where
  "console_input_read_next_byte s u =
     (case console_input_pop_interrupt_byte s of
        Some (c, s') \<Rightarrow> Some (c, s', u)
      | None \<Rightarrow> (case console_input_read_uart_byte u of None \<Rightarrow> None | Some (c, u') \<Rightarrow> Some (c, s, u')))"

definition console_input_accept_byte :: "console_input \<Rightarrow> u8 \<Rightarrow> uart \<Rightarrow> poll_result \<times> console_input \<times> uart" where
  "console_input_accept_byte s ch u =
     (if ch = 13 \<or> ch = 10
      then (let u' = console_puts [13, 10] u in
            if line_overflow s then (CONSOLE_INPUT_OVERFLOW, s, u')
            else (CONSOLE_INPUT_READY, s\<lparr>line_data := (line_data s)(line_length s := 0)\<rparr>, u'))
      else if ch = 8 \<or> ch = 0x7f
      then (if \<not> line_overflow s \<and> line_length s \<noteq> 0
            then (CONSOLE_INPUT_NONE, s\<lparr>line_length := line_length s - 1,
                    line_data := (line_data s)(line_length s - 1 := 0)\<rparr>, console_puts [8, 0x20, 8] u)
            else (CONSOLE_INPUT_NONE, s, u))
      else if \<not> console_input_is_visible_ascii ch then (CONSOLE_INPUT_NONE, s, u)
      else if line_overflow s then (CONSOLE_INPUT_NONE, s, u)
      else if line_length s \<ge> CONSOLE_INPUT_MAX_LINE
      then (CONSOLE_INPUT_NONE, s\<lparr>line_overflow := True\<rparr>, u)
      else (CONSOLE_INPUT_NONE, s\<lparr>line_data := (line_data s)(line_length s := ch, line_length s + 1 := 0),
              line_length := line_length s + 1\<rparr>, console_putc ch u))"

definition console_input_reset :: "console_input \<Rightarrow> console_input" where
  "console_input_reset s = console_input_reset_line s"

definition console_input_init :: "console_input \<Rightarrow> console_input" where
  "console_input_init s = console_input_reset (console_input_reset_rx s)"

fun read_raw_loop :: "nat \<Rightarrow> uart \<Rightarrow> u8 list \<times> uart" where
  "read_raw_loop 0 u = ([], u)"
| "read_raw_loop (Suc room) u =
     (case console_input_read_uart_byte u of
        None \<Rightarrow> ([], u)
      | Some (c, u') \<Rightarrow> (let (cs, u'') = read_raw_loop room u' in (c # cs, u'')))"

definition console_input_read_raw :: "nat \<Rightarrow> uart \<Rightarrow> u8 list \<times> uart" where
  "console_input_read_raw out_size u = (if out_size = 0 then ([], u) else read_raw_loop out_size u)"

definition console_input_push_interrupt_byte :: "console_input \<Rightarrow> u8 \<Rightarrow> bool \<times> console_input" where
  "console_input_push_interrupt_byte s ch =
     (if rx_count s \<ge> CONSOLE_INPUT_RX_BUFFER_SIZE then (False, s\<lparr>rx_overflow := True\<rparr>)
      else (True, s\<lparr>rx_buffer := (rx_buffer s)(rx_tail s := ch),
              rx_tail := (rx_tail s + 1) mod CONSOLE_INPUT_RX_BUFFER_SIZE, rx_count := rx_count s + 1\<rparr>))"

fun drain_bytes :: "u8 list \<Rightarrow> console_input \<Rightarrow> console_input" where
  "drain_bytes [] s = s"
| "drain_bytes (c # cs) s = drain_bytes cs (snd (console_input_push_interrupt_byte s c))"

definition console_input_drain_uart_rx_interrupt :: "console_input \<Rightarrow> uart \<Rightarrow> console_input \<times> uart" where
  "console_input_drain_uart_rx_interrupt s u = (drain_bytes (uart_rx u) s, u\<lparr>uart_rx := []\<rparr>)"

definition console_input_supervisor_external_post_handler ::
  "u32 \<Rightarrow> console_input option \<Rightarrow> uart \<Rightarrow> console_input option \<times> uart" where
  "console_input_supervisor_external_post_handler source_id context u =
     (if source_id \<noteq> 10 then (context, u)
      else case context of None \<Rightarrow> (None, u)
        | Some s \<Rightarrow> (case console_input_drain_uart_rx_interrupt s u of (s', u') \<Rightarrow> (Some s', u')))"

definition poll_body :: "console_input \<times> uart \<Rightarrow> (console_input \<times> uart) + (poll_result \<times> console_input \<times> uart)" where
  "poll_body c = (case c of (s, u) \<Rightarrow>
     (case console_input_read_next_byte s u of
        None \<Rightarrow> Inr (CONSOLE_INPUT_NONE, s, u)
      | Some (ch, s1, u1) \<Rightarrow>
          (case console_input_accept_byte s1 ch u1 of (r, s2, u2) \<Rightarrow>
             if r \<noteq> CONSOLE_INPUT_NONE then Inr (r, s2, u2) else Inl (s2, u2))))"

definition console_input_poll :: "console_input \<Rightarrow> uart \<Rightarrow> (poll_result \<times> console_input \<times> uart) option" where
  "console_input_poll s u =
     (if rx_overflow s then Some (CONSOLE_INPUT_OVERFLOW, s, u) else loop_until poll_body (s, u))"

subsection \<open>The receive buffer is a bounded queue\<close>

definition rx_items :: "console_input \<Rightarrow> u8 list" where
  "rx_items s = map (\<lambda>k. rx_buffer s ((rx_head s + k) mod CONSOLE_INPUT_RX_BUFFER_SIZE)) [0..<rx_count s]"

definition rx_wf :: "console_input \<Rightarrow> bool" where
  "rx_wf s \<longleftrightarrow> rx_head s < CONSOLE_INPUT_RX_BUFFER_SIZE \<and> rx_count s \<le> CONSOLE_INPUT_RX_BUFFER_SIZE \<and>
     rx_tail s = (rx_head s + rx_count s) mod CONSOLE_INPUT_RX_BUFFER_SIZE"

definition rx_push :: "u8 \<Rightarrow> console_input \<Rightarrow> console_input option" where
  "rx_push c s = (case console_input_push_interrupt_byte s c of (ok, s') \<Rightarrow> if ok then Some s' else None)"

lemma length_rx_items [simp]: "length (rx_items s) = rx_count s"
  by (simp add: rx_items_def)

lemma rx_items_cong:
  "rx_buffer s' = rx_buffer s \<Longrightarrow> rx_head s' = rx_head s \<Longrightarrow> rx_count s' = rx_count s \<Longrightarrow> rx_items s' = rx_items s"
  by (simp add: rx_items_def)

lemma rx_push_room:
  assumes "rx_wf s" "rx_count s < CONSOLE_INPUT_RX_BUFFER_SIZE"
  shows "\<exists>s'. rx_push c s = Some s' \<and> rx_wf s' \<and> rx_items s' = rx_items s @ [c]"
proof -
  let ?s = "snd (console_input_push_interrupt_byte s c)"
  have p: "rx_push c s = Some ?s" using assms by (simp add: rx_push_def console_input_push_interrupt_byte_def)
  have f: "rx_head ?s = rx_head s" "rx_count ?s = rx_count s + 1"
    "rx_buffer ?s = (rx_buffer s)((rx_head s + rx_count s) mod CONSOLE_INPUT_RX_BUFFER_SIZE := c)"
    "rx_tail ?s = (rx_head s + (rx_count s + 1)) mod CONSOLE_INPUT_RX_BUFFER_SIZE"
    using assms by (simp_all add: rx_wf_def console_input_push_interrupt_byte_def mod_Suc_eq)
  have "(rx_head s + k) mod 256 \<noteq> (rx_head s + rx_count s) mod 256" if "k < rx_count s" for k :: nat
  proof
    assume "(rx_head s + k) mod 256 = (rx_head s + rx_count s) mod 256"
    then have "k mod 256 = rx_count s mod 256" by (simp add: mod_add_cong nat_mod_eq_iff)
    then show False using that assms(2) by simp
  qed
  then have "rx_items ?s = rx_items s @ [c]" by (simp add: rx_items_def f)
  moreover have "rx_wf ?s" using assms by (simp add: rx_wf_def f)
  ultimately show ?thesis using p by blast
qed

lemma rx_pop_head:
  assumes "rx_wf s" "rx_items s = x # xs"
  shows "\<exists>s'. console_input_pop_interrupt_byte s = Some (x, s') \<and> rx_wf s' \<and> rx_items s' = xs"
proof -
  have n: "rx_count s = Suc (length xs)" using arg_cong [OF assms(2), of length] by simp
  let ?s = "s\<lparr>rx_head := (rx_head s + 1) mod CONSOLE_INPUT_RX_BUFFER_SIZE, rx_count := rx_count s - 1\<rparr>"
  have items: "rx_items s = rx_buffer s (rx_head s mod 256) # rx_items ?s"
    by (simp add: rx_items_def n upt_conv_Cons map_Suc_upt [symmetric] o_def mod_simps del: upt_Suc)
  have "rx_wf ?s" using assms(1) n by (simp add: rx_wf_def mod_simps)
  moreover have "console_input_pop_interrupt_byte s = Some (rx_buffer s (rx_head s), ?s)"
    by (simp add: console_input_pop_interrupt_byte_def n)
  ultimately show ?thesis using items assms by (simp add: rx_wf_def)
qed

interpretation rxq: bounded_fifo rx_wf rx_items CONSOLE_INPUT_RX_BUFFER_SIZE "\<lambda>_. True" rx_push console_input_pop_interrupt_byte
proof
  fix s x assume "rx_wf s" "length (rx_items s) < CONSOLE_INPUT_RX_BUFFER_SIZE"
  then show "\<exists>s'. rx_push x s = Some s' \<and> rx_wf s' \<and> rx_items s' = rx_items s @ [x]"
    by (intro rx_push_room) simp_all
next
  fix s x xs assume "rx_wf s" "rx_items s = x # xs"
  then show "\<exists>s'. console_input_pop_interrupt_byte s = Some (x, s') \<and> rx_wf s' \<and> rx_items s' = xs"
    by (rule rx_pop_head)
next
  fix s x assume "rx_wf s" "length (rx_items s) = CONSOLE_INPUT_RX_BUFFER_SIZE"
  then show "rx_push x s = None" by (simp add: rx_push_def console_input_push_interrupt_byte_def)
next
  fix s assume "rx_wf s" "rx_items s = []"
  then have "rx_count s = 0" using length_rx_items [of s] by simp
  then show "console_input_pop_interrupt_byte s = None" by (simp add: console_input_pop_interrupt_byte_def)
qed (simp add: rx_wf_def)

subsection \<open>The line editor\<close>

text \<open>The reference: a line is a list of characters with a mark for a line that was too long.\<close>

definition is_newline :: "u8 \<Rightarrow> bool" where "is_newline b \<longleftrightarrow> b = 13 \<or> b = 10"

definition edit_byte :: "u8 \<Rightarrow> u8 list \<times> bool \<Rightarrow> u8 list \<times> bool" where
  "edit_byte b l = (case l of (line, too_long) \<Rightarrow>
     if too_long then l
     else if b = 8 \<or> b = 0x7f then (butlast line, False)
     else if b < 0x20 \<or> b > 0x7e then l
     else if length line \<ge> CONSOLE_INPUT_MAX_LINE then (line, True)
     else (line @ [b], False))"

fun edit_line :: "u8 list \<Rightarrow> u8 list \<times> bool \<Rightarrow> poll_result \<times> (u8 list \<times> bool) \<times> u8 list" where
  "edit_line [] l = (CONSOLE_INPUT_NONE, l, [])"
| "edit_line (b # bs) l =
     (if is_newline b then (if snd l then CONSOLE_INPUT_OVERFLOW else CONSOLE_INPUT_READY, l, bs)
      else edit_line bs (edit_byte b l))"

definition line_of :: "console_input \<Rightarrow> u8 list \<times> bool" where
  "line_of s = (arr_list (line_data s) (line_length s), line_overflow s)"

definition line_wf :: "console_input \<Rightarrow> bool" where
  "line_wf s \<longleftrightarrow> line_length s \<le> CONSOLE_INPUT_MAX_LINE \<and> line_data s (line_length s) = 0"

lemma accept_byte_edits:
  assumes "line_wf s" "console_input_accept_byte s b u = (r, s', u')"
  shows "line_wf s'" "line_of s' = (if is_newline b then line_of s else edit_byte b (line_of s))"
    and "r = (if \<not> is_newline b then CONSOLE_INPUT_NONE
              else if line_overflow s then CONSOLE_INPUT_OVERFLOW else CONSOLE_INPUT_READY)"
    and "uart_rx u' = uart_rx u"
    and "rx_items s' = rx_items s" "rx_wf s' = rx_wf s" "rx_overflow s' = rx_overflow s" "rx_count s' = rx_count s"
proof -
  have bl: "arr_list (line_data s) (line_length s - 1) = butlast (arr_list (line_data s) (line_length s))"
    by (cases "line_length s") (simp_all add: arr_list_Suc)
  have conj: "line_wf s' \<and> line_of s' = (if is_newline b then line_of s else edit_byte b (line_of s)) \<and>
    r = (if \<not> is_newline b then CONSOLE_INPUT_NONE
         else if line_overflow s then CONSOLE_INPUT_OVERFLOW else CONSOLE_INPUT_READY) \<and>
    uart_rx u' = uart_rx u \<and>
    rx_head s' = rx_head s \<and> rx_tail s' = rx_tail s \<and> rx_count s' = rx_count s \<and> rx_buffer s' = rx_buffer s \<and>
    rx_overflow s' = rx_overflow s"
  proof -
    have vis: "(b < 0x20 \<or> b > 0x7e) \<longleftrightarrow> \<not> console_input_is_visible_ascii b"
      by (auto simp: console_input_is_visible_ascii_def)
    consider (newline) "is_newline b" | (erase) "\<not> is_newline b" "b = 8 \<or> b = 0x7f"
      | (other) "\<not> is_newline b" "b \<noteq> 8" "b \<noteq> 0x7f" by blast
    then show ?thesis
    proof cases
      case newline
      then show ?thesis using assms
        by (simp add: console_input_accept_byte_def is_newline_def line_wf_def line_of_def console_putc_def Let_def
            split: if_splits) fastforce+
    next
      case erase
      then show ?thesis using assms bl
        by (cases "\<not> line_overflow s \<and> line_length s \<noteq> 0")
          (auto simp: console_input_accept_byte_def is_newline_def line_wf_def line_of_def edit_byte_def console_putc_def)
    next
      case other
      then show ?thesis using assms unfolding edit_byte_def vis
        by (cases "line_overflow s"; cases "console_input_is_visible_ascii b"; cases "line_length s \<ge> CONSOLE_INPUT_MAX_LINE")
          (auto simp: console_input_accept_byte_def is_newline_def line_wf_def line_of_def console_putc_def arr_list_Suc)
    qed
  qed
  then show "line_wf s'" "line_of s' = (if is_newline b then line_of s else edit_byte b (line_of s))"
    "r = (if \<not> is_newline b then CONSOLE_INPUT_NONE
              else if line_overflow s then CONSOLE_INPUT_OVERFLOW else CONSOLE_INPUT_READY)"
    "uart_rx u' = uart_rx u"
    "rx_items s' = rx_items s" "rx_wf s' = rx_wf s" "rx_overflow s' = rx_overflow s" "rx_count s' = rx_count s"
    by (auto simp: rx_items_def rx_wf_def)
qed

text \<open>The bytes that are still to be read, in order: first the ring buffer, then the UART.\<close>

definition pending :: "console_input \<times> uart \<Rightarrow> u8 list" where
  "pending c = rx_items (fst c) @ uart_rx (snd c)"

lemma read_next_byte:
  assumes "rx_wf s"
  shows "case pending (s, u) of
      [] \<Rightarrow> console_input_read_next_byte s u = None
    | b # bs \<Rightarrow> \<exists>s' u'. console_input_read_next_byte s u = Some (b, s', u') \<and> pending (s', u') = bs \<and> rx_wf s' \<and>
        line_of s' = line_of s \<and> line_wf s' = line_wf s \<and> line_overflow s' = line_overflow s \<and>
        rx_overflow s' = rx_overflow s"
proof (cases "rx_items s")
  case Nil
  then have "console_input_pop_interrupt_byte s = None" using rxq.pop_empty assms by blast
  then show ?thesis
    using Nil assms
    by (cases "uart_rx u") (simp_all add: pending_def console_input_read_next_byte_def console_input_read_uart_byte_def)
next
  case (Cons b bs)
  then obtain s' where s': "console_input_pop_interrupt_byte s = Some (b, s')" "rx_wf s'" "rx_items s' = bs"
    using rxq.pop_head assms by blast
  have "line_data s' = line_data s \<and> line_length s' = line_length s \<and> line_overflow s' = line_overflow s \<and>
      rx_overflow s' = rx_overflow s"
    using s'(1) by (auto simp: console_input_pop_interrupt_byte_def split: if_splits)
  then show ?thesis
    using Cons s' by (simp add: pending_def console_input_read_next_byte_def line_of_def line_wf_def)
qed

definition editing :: "console_input \<times> uart \<Rightarrow> console_input \<times> uart \<Rightarrow> bool" where
  "editing c0 c \<longleftrightarrow> rx_wf (fst c) \<and> line_wf (fst c) \<and> rx_overflow (fst c) = rx_overflow (fst c0) \<and>
     edit_line (pending c) (line_of (fst c)) = edit_line (pending c0) (line_of (fst c0))"

lemma poll_body_edits:
  assumes "editing c0 c"
  shows "poll_body c = Inl c' \<Longrightarrow> editing c0 c' \<and> length (pending c') < length (pending c)"
    and "poll_body c = Inr (r, s', u') \<Longrightarrow> rx_wf s' \<and> line_wf s' \<and> rx_overflow s' = rx_overflow (fst c0) \<and>
      edit_line (pending c0) (line_of (fst c0)) = (r, line_of s', pending (s', u'))"
proof -
  obtain s u where c: "c = (s, u)" by (metis surj_pair)
  have wf: "rx_wf s" "line_wf s" using assms by (simp_all add: editing_def c)
  have "(poll_body c = Inl c' \<longrightarrow> editing c0 c' \<and> length (pending c') < length (pending c)) \<and>
    (poll_body c = Inr (r, s', u') \<longrightarrow> rx_wf s' \<and> line_wf s' \<and> rx_overflow s' = rx_overflow (fst c0) \<and>
      edit_line (pending c0) (line_of (fst c0)) = (r, line_of s', pending (s', u')))"
  proof (cases "pending (s, u)")
    case Nil
    then show ?thesis
      using read_next_byte [OF wf(1), of u] assms by (auto simp: poll_body_def c editing_def)
  next
    case (Cons b bs)
    then obtain s1 u1 where 1: "console_input_read_next_byte s u = Some (b, s1, u1)" "pending (s1, u1) = bs" "rx_wf s1"
      "line_of s1 = line_of s" "line_wf s1" "line_overflow s1 = line_overflow s" "rx_overflow s1 = rx_overflow s"
      using read_next_byte [OF wf(1), of u] wf(2) by auto
    obtain r2 s2 u2 where 2: "console_input_accept_byte s1 b u1 = (r2, s2, u2)" by (metis surj_pair)
    note acc = accept_byte_edits [OF 1(5) 2]
    have pend: "pending (s2, u2) = bs" using 1(2) acc(4,5) by (simp add: pending_def)
    have body: "poll_body c = (if r2 \<noteq> CONSOLE_INPUT_NONE then Inr (r2, s2, u2) else Inl (s2, u2))"
      by (simp add: poll_body_def c 1(1) 2)
    have "snd (line_of s) = line_overflow s" by (simp add: line_of_def)
    then have ed: "edit_line (pending c) (line_of s) =
        (if is_newline b then (r2, line_of s2, pending (s2, u2)) else edit_line (pending (s2, u2)) (line_of s2))"
      using acc(2,3) 1(4,6) by (simp add: c Cons pend)
    show ?thesis
      using assms acc 1 body ed by (auto simp: editing_def c pend Cons split: if_splits)
  qed
  then show "poll_body c = Inl c' \<Longrightarrow> editing c0 c' \<and> length (pending c') < length (pending c)"
    "poll_body c = Inr (r, s', u') \<Longrightarrow> rx_wf s' \<and> line_wf s' \<and> rx_overflow s' = rx_overflow (fst c0) \<and>
      edit_line (pending c0) (line_of (fst c0)) = (r, line_of s', pending (s', u'))" by blast+
qed

text \<open>C34: polling the console is the reference line editor.  On a well-formed input state that has lost no
  byte, \<open>console_input_poll\<close> returns, with the result, the line and the unread bytes of \<open>edit_line\<close> on
  the bytes of the ring buffer followed by those of the UART: a newline ends the line, backspace
  deletes the last character, other control characters are ignored, and from the 129th
  character on the line is reported as too long.  The line never leaves its buffer.\<close>

theorem console_poll_edits:
  assumes "rx_wf s" "line_wf s" "\<not> rx_overflow s"
  shows "\<exists>r s' u'. console_input_poll s u = Some (r, s', u') \<and>
     (r, line_of s', rx_items s' @ uart_rx u') = edit_line (rx_items s @ uart_rx u) (line_of s) \<and>
     rx_wf s' \<and> line_wf s' \<and> \<not> rx_overflow s'"
proof -
  have "\<exists>q. loop_until poll_body (s, u) = Some q \<and> (case q of (r, s', u') \<Rightarrow> rx_wf s' \<and> line_wf s' \<and> rx_overflow s' = rx_overflow s \<and>
      edit_line (pending (s, u)) (line_of s) = (r, line_of s', pending (s', u')))"
  proof (rule loop_until_total [where I = "editing (s, u)" and m = "\<lambda>c. length (pending c)"])
    show "editing (s, u) (s, u)" using assms by (simp add: editing_def)
  next
    fix c c' assume "editing (s, u) c" "poll_body c = Inl c'"
    then show "editing (s, u) c' \<and> length (pending c') < length (pending c)" by (rule poll_body_edits(1))
  next
    fix c q assume e: "editing (s, u) c" and b: "poll_body c = Inr q"
    obtain r s' u' where q: "q = (r, s', u')" by (metis surj_pair)
    show "case q of (r, s', u') \<Rightarrow> rx_wf s' \<and> line_wf s' \<and> rx_overflow s' = rx_overflow s \<and>
      edit_line (pending (s, u)) (line_of s) = (r, line_of s', pending (s', u'))"
      using poll_body_edits(2) [OF e b [unfolded q]] by (simp add: q)
  qed
  then obtain r s' u' where "loop_until poll_body (s, u) = Some (r, s', u')" "rx_wf s'" "line_wf s'"
    "rx_overflow s' = rx_overflow s" "edit_line (pending (s, u)) (line_of s) = (r, line_of s', pending (s', u'))" by auto
  then show ?thesis using assms(3) by (simp add: console_input_poll_def pending_def)
qed

lemma push_line: "line_of (snd (console_input_push_interrupt_byte s c)) = line_of s"
  "line_wf (snd (console_input_push_interrupt_byte s c)) = line_wf s"
  by (simp_all add: console_input_push_interrupt_byte_def line_of_def line_wf_def)

lemma push_full:
  assumes "rx_wf s" "rx_count s = CONSOLE_INPUT_RX_BUFFER_SIZE"
  shows "snd (console_input_push_interrupt_byte s c) = s\<lparr>rx_overflow := True\<rparr>"
  using assms by (simp add: console_input_push_interrupt_byte_def)

lemma push_room:
  assumes "rx_wf s" "rx_count s < CONSOLE_INPUT_RX_BUFFER_SIZE"
  shows "rx_wf (snd (console_input_push_interrupt_byte s c))"
    "rx_items (snd (console_input_push_interrupt_byte s c)) = rx_items s @ [c]"
    "rx_overflow (snd (console_input_push_interrupt_byte s c)) = rx_overflow s"
  using rx_push_room [OF assms, of c] assms(2)
  by (auto simp: rx_push_def console_input_push_interrupt_byte_def)

lemma drain_bytes_full:
  assumes "rx_wf s" "rx_count s = CONSOLE_INPUT_RX_BUFFER_SIZE"
  shows "drain_bytes bs s = (if bs = [] then s else s\<lparr>rx_overflow := True\<rparr>)"
  using assms
proof (induction bs arbitrary: s)
  case Nil
  then show ?case by simp
next
  case (Cons b bs)
  have "rx_wf (s\<lparr>rx_overflow := True\<rparr>)" "rx_count (s\<lparr>rx_overflow := True\<rparr>) = CONSOLE_INPUT_RX_BUFFER_SIZE"
    using Cons.prems by (simp_all add: rx_wf_def)
  then show ?case using Cons.IH [of "s\<lparr>rx_overflow := True\<rparr>"] push_full [OF Cons.prems] by simp
qed

text \<open>The receive interrupt keeps the bytes in order.  Draining the UART appends its bytes to the
  ring buffer, oldest first, as far as the 256 cells reach; the overflow mark is set exactly when a
  byte had to be dropped; the UART is empty afterwards and the line being edited is unchanged.\<close>

theorem console_drain_keeps_order:
  assumes "rx_wf s" "console_input_drain_uart_rx_interrupt s u = (s', u')"
  shows "rx_wf s' \<and> rx_items s' = take CONSOLE_INPUT_RX_BUFFER_SIZE (rx_items s @ uart_rx u) \<and>
     (rx_overflow s' \<longleftrightarrow> rx_overflow s \<or> CONSOLE_INPUT_RX_BUFFER_SIZE < rx_count s + length (uart_rx u)) \<and>
     uart_rx u' = [] \<and> line_of s' = line_of s"
proof -
  have "rx_wf (drain_bytes bs s) \<and> rx_items (drain_bytes bs s) = take CONSOLE_INPUT_RX_BUFFER_SIZE (rx_items s @ bs) \<and>
     (rx_overflow (drain_bytes bs s) \<longleftrightarrow> rx_overflow s \<or> CONSOLE_INPUT_RX_BUFFER_SIZE < rx_count s + length bs) \<and>
     line_of (drain_bytes bs s) = line_of s" for bs
    using assms(1)
  proof (induction bs arbitrary: s)
    case Nil
    then show ?case by (simp add: rx_wf_def)
  next
    case (Cons b bs)
    show ?case
    proof (cases "rx_count s < CONSOLE_INPUT_RX_BUFFER_SIZE")
      case True
      note push = push_room [OF Cons.prems True, of b]
      have "rx_count (snd (console_input_push_interrupt_byte s b)) = Suc (rx_count s)"
        using arg_cong [OF push(2), of length] by simp
      then show ?thesis using Cons.IH [OF push(1)] push push_line(1) [of s b] by simp
    next
      case False
      then have full: "rx_count s = CONSOLE_INPUT_RX_BUFFER_SIZE" using Cons.prems by (simp add: rx_wf_def)
      have "rx_items (s\<lparr>rx_overflow := True\<rparr>) = rx_items s" by (simp add: rx_items_def)
      moreover have "line_of (s\<lparr>rx_overflow := True\<rparr>) = line_of s" "rx_wf (s\<lparr>rx_overflow := True\<rparr>)"
        using Cons.prems by (simp_all add: line_of_def rx_wf_def)
      ultimately show ?thesis using drain_bytes_full [OF Cons.prems full, of "b # bs"] full by simp
    qed
  qed
  from this [of "uart_rx u"] show ?thesis
    using assms(2) by (auto simp: console_input_drain_uart_rx_interrupt_def)
qed

lemma console_init_wf: "rx_wf (console_input_init s) \<and> line_wf (console_input_init s) \<and> \<not> rx_overflow (console_input_init s)"
  by (simp add: console_input_init_def console_input_reset_def console_input_reset_line_def console_input_reset_rx_def
      rx_wf_def line_wf_def)

lemma reset_wf: "rx_wf s \<Longrightarrow> rx_wf (console_input_reset s) \<and> line_wf (console_input_reset s) \<and> line_of (console_input_reset s) = ([], False)"
  by (simp add: console_input_reset_def console_input_reset_line_def rx_wf_def line_wf_def line_of_def)

subsection \<open>Examples\<close>

definition fresh_console :: console_input where
  "fresh_console = console_input_init \<lparr>line_data = (\<lambda>_. 7), line_length = 5, line_overflow = True, rx_buffer = (\<lambda>_. 9),
     rx_head = 3, rx_tail = 1, rx_count = 2, rx_overflow = True\<rparr>"

theorem console_poll_edits_witness:
  "\<exists>s' u'. console_input_poll fresh_console \<lparr>uart_rx = [108, 115, 120, 8, 13, 97], uart_tx = []\<rparr> = Some (CONSOLE_INPUT_READY, s', u') \<and>
     line_of s' = ([108, 115], False) \<and> rx_items s' @ uart_rx u' = [97]"
proof -
  have wf: "rx_wf fresh_console" "line_wf fresh_console" "\<not> rx_overflow fresh_console"
    using console_init_wf by (simp_all add: fresh_console_def)
  have e: "edit_line (rx_items fresh_console @ [108, 115, 120, 8, 13, 97]) (line_of fresh_console) =
     (CONSOLE_INPUT_READY, ([108, 115], False), [97])" by code_simp
  show ?thesis
    using console_poll_edits [OF wf, of "\<lparr>uart_rx = [108, 115, 120, 8, 13, 97], uart_tx = []\<rparr>"] by (auto simp: e)
qed

theorem console_drain_keeps_order_witness:
  "\<exists>s' u'. console_input_drain_uart_rx_interrupt fresh_console \<lparr>uart_rx = [108, 115], uart_tx = []\<rparr> = (s', u') \<and>
     rx_items s' = [108, 115] \<and> \<not> rx_overflow s'"
proof -
  have wf: "rx_wf fresh_console" "\<not> rx_overflow fresh_console" using console_init_wf by (simp_all add: fresh_console_def)
  have "rx_count fresh_console = 0" by code_simp
  then have i: "rx_items fresh_console = []" "rx_count fresh_console = 0" by (simp_all add: rx_items_def)
  obtain s' u' where d: "console_input_drain_uart_rx_interrupt fresh_console \<lparr>uart_rx = [108, 115], uart_tx = []\<rparr> = (s', u')"
    by (metis surj_pair)
  show ?thesis using console_drain_keeps_order [OF wf(1) d] wf(2) i d by simp
qed

end
