(* ===== verification/CourseFs.thy ===== *)
theory CourseFs
  imports Prelude "HOL-Library.Char_ord" "HOL-Library.List_Lexorder"
begin

text \<open>
  The RAM file system of the course kernel (\<open>src/myCPU/guest/kernel/course_fs.c\<close>): 160 nodes, each a
  file with 64 KiB of backing storage or a directory whose children are kept sorted by name in
  an array, cut into leaves of four for a two-level binary search.

  A node index of -1 is \<open>None\<close>.  A name in a path (pointer and length) is the list of its
  characters.  The storage a C object points to (an injected one or the global default) is the
  field \<open>fs_data\<close>; two file systems over the same storage are not modelled.  Sizes are natural
  numbers: the code compares them by subtractions that cannot wrap.  The fields \<open>data_offset\<close> and
  \<open>data_capacity\<close> are written and never read by the code; they are kept.
\<close>

abbreviation COURSE_FS_MAX_NODES :: nat where "COURSE_FS_MAX_NODES \<equiv> 160"
abbreviation COURSE_FS_MAX_NAME :: nat where "COURSE_FS_MAX_NAME \<equiv> 32"
abbreviation COURSE_FS_MAX_DATA :: nat where "COURSE_FS_MAX_DATA \<equiv> 65536"
abbreviation COURSE_FS_BTREE_LEAF_CAPACITY :: nat where "COURSE_FS_BTREE_LEAF_CAPACITY \<equiv> 4"
abbreviation COURSE_FS_BTREE_MAX_LEAVES :: nat where "COURSE_FS_BTREE_MAX_LEAVES \<equiv> 40"

record fs_stats =
  file_creates :: u32
  dir_creates :: u32
  file_reads :: u32
  file_writes :: u32
  file_deletes :: u32
  dir_deletes :: u32
  path_resolves :: u32
  dir_index_lookups :: u32
  btree_compare_steps :: u32
  btree_internal_nodes :: u32
  btree_leaf_nodes :: u32
  open_calls :: u32
  close_calls :: u32
  seek_calls :: u32
  max_files :: u32
  max_file_size :: u32
  max_depth :: u32

record fs_node =
  n_used :: bool
  n_is_dir :: bool
  n_parent :: "nat option"
  n_name :: cstr
  n_data_offset :: nat
  n_data_capacity :: nat
  n_size :: nat
  n_dir_index :: "nat carray"
  n_dir_index_count :: nat
  n_leaf_starts :: "nat carray"
  n_leaf_counts :: "nat carray"
  n_leaf_count :: nat
  n_internal_count :: nat

type_synonym fs_storage = "nat \<Rightarrow> u8 carray"

record course_fs =
  fs_nodes :: "fs_node carray"
  fs_data :: fs_storage
  fs_counters :: fs_stats

definition upd_node :: "course_fs \<Rightarrow> nat \<Rightarrow> (fs_node \<Rightarrow> fs_node) \<Rightarrow> course_fs" where
  "upd_node fs i h = fs\<lparr>fs_nodes := (fs_nodes fs)(i := h (fs_nodes fs i))\<rparr>"

definition upd_counters :: "course_fs \<Rightarrow> (fs_stats \<Rightarrow> fs_stats) \<Rightarrow> course_fs" where
  "upd_counters fs h = fs\<lparr>fs_counters := h (fs_counters fs)\<rparr>"

subsection \<open>Strings and bytes\<close>

definition cstr_len :: "cstr option \<Rightarrow> nat" where
  "cstr_len v = (case v of None \<Rightarrow> 0 | Some s \<Rightarrow> length s)"

fun cmp_cstr_len :: "cstr \<Rightarrow> cstr \<Rightarrow> int" where
  "cmp_cstr_len [] [] = 0"
| "cmp_cstr_len [] (b # bs) = -1"
| "cmp_cstr_len (a # as) [] = 1"
| "cmp_cstr_len (a # as) (b # bs) = (if a < b then -1 else if a > b then 1 else cmp_cstr_len as bs)"

definition cmp_cstr :: "cstr \<Rightarrow> cstr \<Rightarrow> int" where
  "cmp_cstr a b = cmp_cstr_len a b"

definition copy_name :: "cstr \<Rightarrow> cstr" where
  "copy_name src = take (COURSE_FS_MAX_NAME - 1) src"

definition copy_bytes :: "u8 carray \<Rightarrow> nat \<Rightarrow> u8 list \<Rightarrow> u8 carray" where
  "copy_bytes dest off src = arr_write dest off src"

definition read_bytes :: "u8 carray \<Rightarrow> nat \<Rightarrow> nat \<Rightarrow> u8 list" where
  "read_bytes src off n = arr_read src off n"

definition zero_bytes :: "u8 carray \<Rightarrow> nat \<Rightarrow> nat \<Rightarrow> u8 carray" where
  "zero_bytes dest off n = arr_write dest off (replicate n 0)"

subsection \<open>Nodes\<close>

definition alloc_node :: "course_fs \<Rightarrow> nat option" where
  "alloc_node fs = first_index (\<lambda>i. \<not> n_used (fs_nodes fs i)) COURSE_FS_MAX_NODES"

definition node_has_children :: "course_fs \<Rightarrow> nat \<Rightarrow> bool" where
  "node_has_children fs k \<longleftrightarrow>
     list_ex (\<lambda>i. n_used (fs_nodes fs i) \<and> n_parent (fs_nodes fs i) = Some k) [0..<COURSE_FS_MAX_NODES]"

subsection \<open>The directory index\<close>

definition bump_compare :: "course_fs \<Rightarrow> course_fs" where
  "bump_compare fs = upd_counters fs (\<lambda>c. c\<lparr>btree_compare_steps := btree_compare_steps c + 1\<rparr>)"

function leaf_search :: "course_fs \<Rightarrow> nat \<Rightarrow> cstr \<Rightarrow> nat \<Rightarrow> nat \<Rightarrow> nat \<times> course_fs" where
  "leaf_search fs parent name leaf_low leaf_high =
     (if leaf_low < leaf_high
      then let node = fs_nodes fs parent;
               mid = leaf_low + (leaf_high - leaf_low) div 2;
               last_child_index = n_dir_index node (n_leaf_starts node mid + n_leaf_counts node mid - 1);
               cmp = cmp_cstr_len (n_name (fs_nodes fs last_child_index)) name;
               fs1 = bump_compare fs
           in if cmp < 0 then leaf_search fs1 parent name (mid + 1) leaf_high
              else leaf_search fs1 parent name leaf_low mid
      else (leaf_low, fs))"
  by pat_completeness auto
termination by (relation "measure (\<lambda>(_, _, _, l, h). h - l)") auto

function entry_search :: "course_fs \<Rightarrow> nat \<Rightarrow> cstr \<Rightarrow> nat \<Rightarrow> nat \<Rightarrow> nat option \<times> course_fs" where
  "entry_search fs parent name low high =
     (if low < high
      then let mid = low + (high - low) div 2;
               child_index = n_dir_index (fs_nodes fs parent) mid;
               cmp = cmp_cstr_len (n_name (fs_nodes fs child_index)) name;
               fs1 = bump_compare fs
           in if cmp = 0 then (Some child_index, fs1)
              else if cmp < 0 then entry_search fs1 parent name (mid + 1) high
              else entry_search fs1 parent name low mid
      else (None, fs))"
  by pat_completeness auto
termination by (relation "measure (\<lambda>(_, _, _, l, h). h - l)") auto

declare leaf_search.simps [simp del] entry_search.simps [simp del]

definition find_child :: "course_fs \<Rightarrow> nat \<Rightarrow> cstr \<Rightarrow> nat option \<times> course_fs" where
  "find_child fs parent name =
     (if parent \<ge> COURSE_FS_MAX_NODES \<or> name = [] \<or> \<not> n_used (fs_nodes fs parent) \<or> \<not> n_is_dir (fs_nodes fs parent)
      then (None, fs)
      else let node = fs_nodes fs parent;
               fs1 = upd_counters fs (\<lambda>c. c\<lparr>dir_index_lookups := dir_index_lookups c + 1\<rparr>)
           in if n_dir_index_count node = 0 then (None, fs1)
              else let (leaf, fs2) = leaf_search fs1 parent name 0 (n_leaf_count node) in
                if leaf \<ge> n_leaf_count node then (None, fs2)
                else let low = n_leaf_starts node leaf in
                  entry_search fs2 parent name low (low + n_leaf_counts node leaf))"

function build_leaves :: "nat \<Rightarrow> nat \<Rightarrow> nat \<Rightarrow> fs_node \<Rightarrow> fs_node" where
  "build_leaves n entry leaf node =
     (if entry < n \<and> leaf < COURSE_FS_BTREE_MAX_LEAVES
      then let count = (if n - entry > COURSE_FS_BTREE_LEAF_CAPACITY then COURSE_FS_BTREE_LEAF_CAPACITY else n - entry)
           in build_leaves n (entry + count) (leaf + 1)
                (node\<lparr>n_leaf_starts := (n_leaf_starts node)(leaf := entry),
                      n_leaf_counts := (n_leaf_counts node)(leaf := count),
                      n_leaf_count := n_leaf_count node + 1\<rparr>)
      else node)"
  by pat_completeness auto
termination by (relation "measure (\<lambda>(n, entry, _, _). n - entry)") auto

declare build_leaves.simps [simp del]

definition rebuild_child_btree :: "course_fs \<Rightarrow> nat \<Rightarrow> course_fs" where
  "rebuild_child_btree fs parent =
     (if parent \<ge> COURSE_FS_MAX_NODES \<or> \<not> n_used (fs_nodes fs parent) \<or> \<not> n_is_dir (fs_nodes fs parent) then fs
      else upd_node fs parent (\<lambda>node.
        let node1 = build_leaves (n_dir_index_count node) 0 0 (node\<lparr>n_leaf_count := 0, n_internal_count := 0\<rparr>)
        in if n_leaf_count node1 > 1 then node1\<lparr>n_internal_count := 1\<rparr> else node1))"

definition refresh_btree_stats :: "course_fs \<Rightarrow> course_fs" where
  "refresh_btree_stats fs =
     (let (leaves, internals) = fold (\<lambda>i (leaves, internals). let node = fs_nodes fs i in
             if n_used node \<and> n_is_dir node \<and> n_dir_index_count node > 0
             then (leaves + of_nat (n_leaf_count node), internals + of_nat (n_internal_count node))
             else (leaves, internals)) [0..<COURSE_FS_MAX_NODES] (0, 0)
      in upd_counters fs (\<lambda>c. c\<lparr>btree_internal_nodes := internals, btree_leaf_nodes := leaves\<rparr>))"

definition insert_position :: "course_fs \<Rightarrow> nat \<Rightarrow> nat \<Rightarrow> nat" where
  "insert_position fs parent child =
     (let node = fs_nodes fs parent in
      case first_index (\<lambda>pos. \<not> cmp_cstr (n_name (fs_nodes fs (n_dir_index node pos))) (n_name (fs_nodes fs child)) < 0)
             (n_dir_index_count node) of
        Some pos \<Rightarrow> pos | None \<Rightarrow> n_dir_index_count node)"

definition insert_child_index :: "course_fs \<Rightarrow> nat \<Rightarrow> nat \<Rightarrow> bool \<times> course_fs" where
  "insert_child_index fs parent child =
     (if parent \<ge> COURSE_FS_MAX_NODES \<or> child \<ge> COURSE_FS_MAX_NODES \<or>
         \<not> n_used (fs_nodes fs parent) \<or> \<not> n_is_dir (fs_nodes fs parent) \<or> \<not> n_used (fs_nodes fs child) \<or>
         n_dir_index_count (fs_nodes fs parent) \<ge> COURSE_FS_MAX_NODES
      then (False, fs)
      else let pos = insert_position fs parent child;
               fs1 = upd_node fs parent (\<lambda>node. node\<lparr>
                 n_dir_index := (shift_up (n_dir_index node) pos (n_dir_index_count node))(pos := child),
                 n_dir_index_count := n_dir_index_count node + 1\<rparr>)
           in (True, refresh_btree_stats (rebuild_child_btree fs1 parent)))"

definition remove_child_index :: "course_fs \<Rightarrow> nat option \<Rightarrow> nat \<Rightarrow> course_fs" where
  "remove_child_index fs parent child =
     (case parent of None \<Rightarrow> fs
      | Some p \<Rightarrow>
          if p \<ge> COURSE_FS_MAX_NODES \<or> \<not> n_used (fs_nodes fs p) \<or> \<not> n_is_dir (fs_nodes fs p) then fs
          else case first_index (\<lambda>i. n_dir_index (fs_nodes fs p) i = child) (n_dir_index_count (fs_nodes fs p)) of
              None \<Rightarrow> fs
            | Some i \<Rightarrow>
                let fs1 = upd_node fs p (\<lambda>node. node\<lparr>
                      n_dir_index := shift_down (n_dir_index node) (i + 1) (n_dir_index_count node),
                      n_dir_index_count := n_dir_index_count node - 1\<rparr>)
                in refresh_btree_stats (rebuild_child_btree fs1 p))"

subsection \<open>Paths\<close>

definition next_component :: "cstr \<Rightarrow> (cstr \<times> cstr) option" where
  "next_component cursor =
     (case dropWhile (\<lambda>c. c = CHR ''/'') cursor of
        [] \<Rightarrow> None
      | p \<Rightarrow> Some (takeWhile (\<lambda>c. c \<noteq> CHR ''/'') p, dropWhile (\<lambda>c. c \<noteq> CHR ''/'') p))"

lemma next_component_shorter:
  "next_component cursor = Some (name, rest) \<Longrightarrow> length rest < length cursor"
proof -
  assume a: "next_component cursor = Some (name, rest)"
  then obtain c cs where p: "dropWhile (\<lambda>c. c = CHR ''/'') cursor = c # cs"
    by (auto simp: next_component_def split: list.splits)
  then have "c \<noteq> CHR ''/''" using hd_dropWhile [of "\<lambda>c. c = CHR ''/''" cursor] by auto
  then have "length rest \<le> length cs"
    using a p length_dropWhile_le [of "\<lambda>c. c \<noteq> CHR ''/''" cs] by (simp add: next_component_def)
  moreover have "length (c # cs) \<le> length cursor"
    unfolding p [symmetric] by (rule length_dropWhile_le)
  ultimately show ?thesis by simp
qed

record resolved =
  r_node :: "nat option"
  r_parent :: "nat option"
  r_leaf :: "cstr option"

function resolve_loop :: "course_fs \<Rightarrow> nat \<Rightarrow> cstr \<Rightarrow> resolved \<times> course_fs" where
  "resolve_loop fs current cursor =
     (case next_component cursor of
        None \<Rightarrow> (\<lparr>r_node = Some current, r_parent = None, r_leaf = None\<rparr>, fs)
      | Some (name, rest) \<Rightarrow>
          (let (child, fs1) = find_child fs current name in
           if rest = [] then (\<lparr>r_node = child, r_parent = Some current, r_leaf = Some name\<rparr>, fs1)
           else case child of
               None \<Rightarrow> (\<lparr>r_node = None, r_parent = None, r_leaf = None\<rparr>, fs1)
             | Some c \<Rightarrow> if \<not> n_is_dir (fs_nodes fs1 c) then (\<lparr>r_node = None, r_parent = None, r_leaf = None\<rparr>, fs1)
                         else resolve_loop fs1 c rest))"
  by pat_completeness auto
termination by (relation "measure (\<lambda>(_, _, cursor). length cursor)") (auto dest: next_component_shorter)

declare resolve_loop.simps [simp del]

definition resolve_path :: "course_fs \<Rightarrow> cstr option \<Rightarrow> resolved \<times> course_fs" where
  "resolve_path fs path =
     (case path of
        None \<Rightarrow> (\<lparr>r_node = None, r_parent = None, r_leaf = None\<rparr>, fs)
      | Some p \<Rightarrow>
          if p = [] \<or> hd p \<noteq> CHR ''/'' then (\<lparr>r_node = None, r_parent = None, r_leaf = None\<rparr>, fs)
          else let fs1 = upd_counters fs (\<lambda>c. c\<lparr>path_resolves := path_resolves c + 1\<rparr>) in
            if tl p = [] then (\<lparr>r_node = Some 0, r_parent = None, r_leaf = Some p\<rparr>, fs1)
            else resolve_loop fs1 0 p)"

subsection \<open>Public operations\<close>

text \<open>Formatting keeps the contents of the storage and of the index arrays, as the code does.\<close>

definition course_fs_init_with_storage :: "course_fs \<Rightarrow> fs_storage option \<Rightarrow> fs_storage \<Rightarrow> course_fs" where
  "course_fs_init_with_storage fs storage default_storage = \<lparr>
     fs_nodes = (\<lambda>i. let node = (if i < COURSE_FS_MAX_NODES
         then (fs_nodes fs i)\<lparr>n_used := False, n_is_dir := False, n_parent := None, n_name := [],
                n_data_offset := i * COURSE_FS_MAX_DATA, n_data_capacity := COURSE_FS_MAX_DATA, n_size := 0,
                n_dir_index_count := 0, n_leaf_count := 0, n_internal_count := 0\<rparr>
         else fs_nodes fs i)
       in if i = 0 then node\<lparr>n_used := True, n_is_dir := True, n_parent := None, n_name := ''/''\<rparr> else node),
     fs_data = (case storage of Some s \<Rightarrow> s | None \<Rightarrow> default_storage),
     fs_counters = \<lparr>file_creates = 0, dir_creates = 0, file_reads = 0, file_writes = 0, file_deletes = 0,
       dir_deletes = 0, path_resolves = 0, dir_index_lookups = 0, btree_compare_steps = 0, btree_internal_nodes = 0,
       btree_leaf_nodes = 0, open_calls = 0, close_calls = 0, seek_calls = 0, max_files = 128,
       max_file_size = of_nat COURSE_FS_MAX_DATA, max_depth = 3\<rparr>\<rparr>"

definition course_fs_init :: "course_fs \<Rightarrow> fs_storage \<Rightarrow> course_fs" where
  "course_fs_init fs default_storage = course_fs_init_with_storage fs None default_storage"

definition course_fs_mkfs_with_storage :: "course_fs \<Rightarrow> fs_storage option \<Rightarrow> fs_storage \<Rightarrow> course_fs" where
  "course_fs_mkfs_with_storage fs storage default_storage = course_fs_init_with_storage fs storage default_storage"

definition course_fs_mkfs :: "course_fs \<Rightarrow> fs_storage \<Rightarrow> course_fs" where
  "course_fs_mkfs fs default_storage = course_fs_init_with_storage fs None default_storage"

definition course_fs_create :: "course_fs \<Rightarrow> cstr option \<Rightarrow> bool \<Rightarrow> bool \<times> course_fs" where
  "course_fs_create fs path directory =
     (let (r, fs1) = resolve_path fs path in
      case (r_node r, r_parent r, r_leaf r) of
        (None, Some parent, Some leaf) \<Rightarrow>
          if leaf = [] \<or> length leaf \<ge> COURSE_FS_MAX_NAME then (False, fs1)
          else (case alloc_node fs1 of
              None \<Rightarrow> (False, fs1)
            | Some k \<Rightarrow>
                (let fs2 = upd_node fs1 k (\<lambda>node. node\<lparr>n_used := True, n_is_dir := directory, n_parent := Some parent,
                       n_data_offset := k * COURSE_FS_MAX_DATA, n_data_capacity := COURSE_FS_MAX_DATA, n_size := 0,
                       n_dir_index_count := 0, n_name := copy_name leaf\<rparr>);
                     (ok, fs3) = insert_child_index fs2 parent k
                 in if \<not> ok
                    then (False, upd_node fs3 k (\<lambda>node. node\<lparr>n_used := False, n_is_dir := False, n_parent := None, n_name := []\<rparr>))
                    else (True, upd_counters fs3 (\<lambda>c. if directory then c\<lparr>dir_creates := dir_creates c + 1\<rparr>
                                                        else c\<lparr>file_creates := file_creates c + 1\<rparr>))))
      | _ \<Rightarrow> (False, fs1))"

definition course_fs_mkdir :: "course_fs \<Rightarrow> cstr option \<Rightarrow> bool \<times> course_fs" where
  "course_fs_mkdir fs path = course_fs_create fs path True"

definition course_fs_rmdir :: "course_fs \<Rightarrow> cstr option \<Rightarrow> bool \<times> course_fs" where
  "course_fs_rmdir fs path =
     (let (r, fs1) = resolve_path fs path in
      case r_node r of
        None \<Rightarrow> (False, fs1)
      | Some k \<Rightarrow>
          if k = 0 \<or> \<not> n_is_dir (fs_nodes fs1 k) \<or> node_has_children fs1 k then (False, fs1)
          else (True, upd_counters (upd_node (remove_child_index fs1 (n_parent (fs_nodes fs1 k)) k) k
                   (\<lambda>node. node\<lparr>n_used := False\<rparr>)) (\<lambda>c. c\<lparr>dir_deletes := dir_deletes c + 1\<rparr>)))"

definition course_fs_unlink :: "course_fs \<Rightarrow> cstr option \<Rightarrow> bool \<times> course_fs" where
  "course_fs_unlink fs path =
     (let (r, fs1) = resolve_path fs path in
      case r_node r of
        None \<Rightarrow> (False, fs1)
      | Some k \<Rightarrow>
          if k = 0 \<or> n_is_dir (fs_nodes fs1 k) then (False, fs1)
          else (True, upd_counters (upd_node (remove_child_index fs1 (n_parent (fs_nodes fs1 k)) k) k
                   (\<lambda>node. node\<lparr>n_used := False\<rparr>)) (\<lambda>c. c\<lparr>file_deletes := file_deletes c + 1\<rparr>)))"

definition course_fs_write :: "course_fs \<Rightarrow> cstr option \<Rightarrow> nat \<Rightarrow> u8 list option \<Rightarrow> bool \<times> course_fs" where
  "course_fs_write fs path offset data =
     (let (r, fs1) = resolve_path fs path in
      case (data, r_node r) of
        (Some bytes, Some k) \<Rightarrow>
          if n_is_dir (fs_nodes fs1 k) \<or> offset > COURSE_FS_MAX_DATA \<or> length bytes > COURSE_FS_MAX_DATA - offset
          then (False, fs1)
          else (let node_size = n_size (fs_nodes fs1 k);
                    cells = fs_data fs1 k;
                    cells1 = (if offset > node_size then zero_bytes cells node_size (offset - node_size) else cells);
                    cells2 = copy_bytes cells1 offset bytes;
                    fs2 = fs1\<lparr>fs_data := (fs_data fs1)(k := cells2)\<rparr>;
                    fs3 = (if offset + length bytes > node_size
                           then upd_node fs2 k (\<lambda>node. node\<lparr>n_size := offset + length bytes\<rparr>) else fs2)
                in (True, upd_counters fs3 (\<lambda>c. c\<lparr>file_writes := file_writes c + 1\<rparr>)))
      | _ \<Rightarrow> (False, fs1))"

definition course_fs_read :: "course_fs \<Rightarrow> cstr option \<Rightarrow> nat \<Rightarrow> nat \<Rightarrow> u8 list option \<times> course_fs" where
  "course_fs_read fs path offset len =
     (let (r, fs1) = resolve_path fs path in
      case r_node r of
        None \<Rightarrow> (None, fs1)
      | Some k \<Rightarrow>
          if n_is_dir (fs_nodes fs1 k) \<or> offset > n_size (fs_nodes fs1 k) \<or> len > n_size (fs_nodes fs1 k) - offset
          then (None, fs1)
          else (Some (read_bytes (fs_data fs1 k) offset len),
                upd_counters fs1 (\<lambda>c. c\<lparr>file_reads := file_reads c + 1\<rparr>)))"

definition course_fs_lookup :: "course_fs \<Rightarrow> cstr option \<Rightarrow> bool \<times> course_fs" where
  "course_fs_lookup fs path = (let (r, fs1) = resolve_path fs path in (r_node r \<noteq> None, fs1))"

definition course_fs_size :: "course_fs \<Rightarrow> cstr option \<Rightarrow> nat option \<times> course_fs" where
  "course_fs_size fs path =
     (let (r, fs1) = resolve_path fs path in
      case r_node r of
        None \<Rightarrow> (None, fs1)
      | Some k \<Rightarrow> if n_is_dir (fs_nodes fs1 k) then (None, fs1) else (Some (n_size (fs_nodes fs1 k)), fs1))"

text \<open>The names of the listed children, in index order; and the two passes over them.\<close>

definition listed_names :: "course_fs \<Rightarrow> nat \<Rightarrow> cstr list" where
  "listed_names fs k =
     map (\<lambda>i. n_name (fs_nodes fs i))
       (List.filter (\<lambda>i. n_used (fs_nodes fs i)) (arr_list (n_dir_index (fs_nodes fs k)) (n_dir_index_count (fs_nodes fs k))))"

fun listdir_required :: "cstr list \<Rightarrow> bool \<Rightarrow> nat \<Rightarrow> nat" where
  "listdir_required [] emitted required = required"
| "listdir_required (name # names) emitted required =
     listdir_required names True (required + length name + (if emitted then 1 else 0))"

fun listdir_emit :: "cstr list \<Rightarrow> bool \<Rightarrow> cstr \<Rightarrow> cstr" where
  "listdir_emit [] emitted out = out"
| "listdir_emit (name # names) emitted out =
     listdir_emit names True ((if emitted then out @ '' '' else out) @ name)"

text \<open>\<open>Some\<close> is the text written to the buffer, with the return value \<open>true\<close>.  \<open>None\<close> is \<open>false\<close>: the buffer is
  then untouched when the path is NULL or the size is 0, and holds the empty string otherwise, because its
  first byte is cleared before the path is resolved.\<close>

definition course_fs_listdir :: "course_fs \<Rightarrow> cstr option \<Rightarrow> nat \<Rightarrow> cstr option \<times> course_fs" where
  "course_fs_listdir fs path out_size =
     (if path = None \<or> out_size = 0 then (None, fs)
      else let (r, fs1) = resolve_path fs path in
        case r_node r of
          None \<Rightarrow> (None, fs1)
        | Some k \<Rightarrow>
            if \<not> n_is_dir (fs_nodes fs1 k) then (None, fs1)
            else if listdir_required (listed_names fs1 k) False 1 + 1 > out_size then (None, fs1)
            else (Some (listdir_emit (listed_names fs1 k) False [] @ [CHR 0x0A]), fs1))"

definition course_fs_stats :: "course_fs \<Rightarrow> fs_stats" where
  "course_fs_stats fs = fs_counters fs"

definition course_fs_record_open :: "course_fs \<Rightarrow> course_fs" where
  "course_fs_record_open fs = upd_counters fs (\<lambda>c. c\<lparr>open_calls := open_calls c + 1\<rparr>)"

definition course_fs_record_close :: "course_fs \<Rightarrow> course_fs" where
  "course_fs_record_close fs = upd_counters fs (\<lambda>c. c\<lparr>close_calls := close_calls c + 1\<rparr>)"

definition course_fs_record_seek :: "course_fs \<Rightarrow> course_fs" where
  "course_fs_record_seek fs = upd_counters fs (\<lambda>c. c\<lparr>seek_calls := seek_calls c + 1\<rparr>)"

end
