(* ===== verification/FsIndex.thy ===== *)
theory FsIndex
  imports CourseFs
begin

text \<open>
  The directory index: the two-level binary search of \<open>find_child\<close> is a search in the sorted list of
  the children, and the index stays well formed under insertion and removal.
\<close>

named_theorems fs_simps \<open>reading the fields of an updated file system\<close>

lemma upd_node_sel [fs_simps]:
  "fs_nodes (upd_node fs i h) = (fs_nodes fs)(i := h (fs_nodes fs i))"
  "fs_data (upd_node fs i h) = fs_data fs"
  "fs_counters (upd_node fs i h) = fs_counters fs"
  by (simp_all add: upd_node_def)

lemma upd_counters_sel [fs_simps]:
  "fs_nodes (upd_counters fs h) = fs_nodes fs"
  "fs_data (upd_counters fs h) = fs_data fs"
  "fs_counters (upd_counters fs h) = h (fs_counters fs)"
  by (simp_all add: upd_counters_def)

lemma bump_compare_sel [fs_simps]:
  "fs_nodes (bump_compare fs) = fs_nodes fs"
  "fs_data (bump_compare fs) = fs_data fs"
  "btree_compare_steps (fs_counters (bump_compare fs)) = btree_compare_steps (fs_counters fs) + 1"
  by (simp_all add: bump_compare_def fs_simps)

lemma cmp_cstr_len_zero [simp]: "cmp_cstr_len a b = 0 \<longleftrightarrow> a = b"
  by (induction a b rule: cmp_cstr_len.induct) auto

lemma cmp_cstr_len_less [simp]: "cmp_cstr_len a b < 0 \<longleftrightarrow> a < b"
  by (induction a b rule: cmp_cstr_len.induct) auto

text \<open>Two states that differ in their counters only.\<close>

definition same_store :: "course_fs \<Rightarrow> course_fs \<Rightarrow> bool" where
  "same_store fs fs' \<longleftrightarrow> fs_nodes fs' = fs_nodes fs \<and> fs_data fs' = fs_data fs"

lemma same_store_refl [simp]: "same_store fs fs"
  by (simp add: same_store_def)

lemma same_store_trans: "same_store a b \<Longrightarrow> same_store b c \<Longrightarrow> same_store a c"
  by (simp add: same_store_def)

lemma same_store_bump [simp]: "same_store fs (bump_compare fs)"
  by (simp add: same_store_def fs_simps)

abbreviation steps :: "course_fs \<Rightarrow> u32" where
  "steps fs \<equiv> btree_compare_steps (fs_counters fs)"

subsection \<open>The two binary searches\<close>

definition leaf_last_less :: "course_fs \<Rightarrow> nat \<Rightarrow> cstr \<Rightarrow> nat \<Rightarrow> bool" where
  "leaf_last_less fs parent name l =
     (n_name (fs_nodes fs (n_dir_index (fs_nodes fs parent)
        (n_leaf_starts (fs_nodes fs parent) l + n_leaf_counts (fs_nodes fs parent) l - 1))) < name)"

lemma leaf_last_less_cong: "fs_nodes fs' = fs_nodes fs \<Longrightarrow> leaf_last_less fs' = leaf_last_less fs"
  by (simp add: leaf_last_less_def fun_eq_iff)

lemma leaf_search_correct:
  assumes "\<forall>i j. i \<le> j \<and> j < n \<and> leaf_last_less fs parent name j \<longrightarrow> leaf_last_less fs parent name i"
    and "low \<le> high" "high \<le> n"
    and "\<forall>i<low. leaf_last_less fs parent name i" "\<forall>i. high \<le> i \<and> i < n \<longrightarrow> \<not> leaf_last_less fs parent name i"
    and "high - low < 2 ^ k"
  shows "\<exists>l fs' d. leaf_search fs parent name low high = (l, fs') \<and> l \<le> n \<and> same_store fs fs' \<and>
     (\<forall>i<l. leaf_last_less fs parent name i) \<and> (\<forall>i. l \<le> i \<and> i < n \<longrightarrow> \<not> leaf_last_less fs parent name i) \<and>
     steps fs' = steps fs + of_nat d \<and> d \<le> k"
  using assms
proof (induction k arbitrary: fs low high)
  case 0
  then have "leaf_search fs parent name low high = (low, fs)" by (subst leaf_search.simps) simp
  then show ?case using 0 by (intro exI [of _ low] exI [of _ fs] exI [of _ 0]) auto
next
  case (Suc k)
  let ?P = "leaf_last_less fs parent name"
  show ?case
  proof (cases "low < high")
    case False
    then have "leaf_search fs parent name low high = (low, fs)" by (subst leaf_search.simps) simp
    then show ?thesis using Suc.prems False by (intro exI [of _ low] exI [of _ fs] exI [of _ 0]) auto
  next
    case True
    define mid where "mid = low + (high - low) div 2"
    have mid: "low \<le> mid" "mid < high" using True by (auto simp: mid_def)
    let ?fs = "bump_compare fs"
    have P: "leaf_last_less ?fs parent name = ?P" using leaf_last_less_cong [of ?fs fs] by (simp add: fs_simps)
    obtain low' high' where s: "leaf_search fs parent name low high = leaf_search ?fs parent name low' high'"
      and r: "low' \<le> high'" "high' \<le> n" "\<forall>i<low'. ?P i" "\<forall>i. high' \<le> i \<and> i < n \<longrightarrow> \<not> ?P i" "high' - low' < 2 ^ k"
    proof (cases "?P mid")
      case True
      have "leaf_search fs parent name low high = leaf_search ?fs parent name (mid + 1) high"
        using True \<open>low < high\<close> by (subst leaf_search.simps) (simp add: Let_def mid_def leaf_last_less_def)
      moreover have "\<forall>i<mid + 1. ?P i" using True mid Suc.prems(3) Suc.prems(1) [THEN spec, THEN spec, of _ mid]
        by (auto simp: less_Suc_eq_le)
      moreover have "high - (mid + 1) < 2 ^ k" using Suc.prems(6) by (auto simp: mid_def)
      ultimately show ?thesis using that [of "mid + 1" high] mid Suc.prems(3,5) by simp
    next
      case False
      have "leaf_search fs parent name low high = leaf_search ?fs parent name low mid"
        using False \<open>low < high\<close> by (subst leaf_search.simps) (simp add: Let_def mid_def leaf_last_less_def)
      moreover have "\<forall>i. mid \<le> i \<and> i < n \<longrightarrow> \<not> ?P i" using False Suc.prems(1) by blast
      moreover have "mid - low < 2 ^ k" using Suc.prems(6) by (auto simp: mid_def)
      ultimately show ?thesis using that [of low mid] mid Suc.prems(3,4) by simp
    qed
    obtain l fs' d where "leaf_search ?fs parent name low' high' = (l, fs')" "l \<le> n" "same_store ?fs fs'"
      "\<forall>i<l. ?P i" "\<forall>i. l \<le> i \<and> i < n \<longrightarrow> \<not> ?P i" "steps fs' = steps ?fs + of_nat d" "d \<le> k"
      using Suc.IH [of ?fs low' high'] Suc.prems(1) r unfolding P by blast
    then show ?thesis
      unfolding s using same_store_trans [OF same_store_bump [of fs], of fs']
      by (intro exI [of _ l] exI [of _ fs'] exI [of _ "Suc d"]) (simp add: fs_simps)
  qed
qed

lemma find_append: "find P (xs @ ys) = (case find P xs of None \<Rightarrow> find P ys | Some x \<Rightarrow> Some x)"
  by (induction xs) auto

lemma entry_search_correct:
  assumes "sorted_wrt (<) (map (\<lambda>i. n_name (fs_nodes fs (n_dir_index (fs_nodes fs parent) i))) [low..<high])"
    and "high - low < 2 ^ k"
  shows "\<exists>fs' d. entry_search fs parent name low high =
       (map_option (n_dir_index (fs_nodes fs parent))
          (find (\<lambda>i. n_name (fs_nodes fs (n_dir_index (fs_nodes fs parent) i)) = name) [low..<high]), fs') \<and>
     same_store fs fs' \<and> steps fs' = steps fs + of_nat d \<and> d \<le> k"
  using assms
proof (induction k arbitrary: fs low high)
  case 0
  then have "entry_search fs parent name low high = (None, fs)" by (subst entry_search.simps) simp
  then show ?case using 0 by (intro exI [of _ fs] exI [of _ 0]) simp
next
  case (Suc k)
  define nm where "nm = (\<lambda>i. n_name (fs_nodes fs (n_dir_index (fs_nodes fs parent) i)))"
  let ?find = "\<lambda>l h. find (\<lambda>i. nm i = name) [l..<h]"
  let ?fs = "bump_compare fs"
  have sorted: "sorted_wrt (<) (map nm [low..<high])" using Suc.prems(1) by (simp add: nm_def)
  have less: "nm i < nm j" if "low \<le> i" "i < j" "j < high" for i j
    using sorted_wrt_nth_less [OF sorted, of "i - low" "j - low"] that by (simp add: add.commute)
  have IH: "\<exists>fs' d. entry_search ?fs parent name l h = (map_option (n_dir_index (fs_nodes fs parent)) (?find l h), fs') \<and>
      same_store fs fs' \<and> steps fs' = steps fs + of_nat (Suc d) \<and> d \<le> k"
    if r: "low \<le> l" "h \<le> high" "h - l < 2 ^ k" for l h
  proof -
    have "sorted_wrt (<) (map nm [l..<h])"
      unfolding sorted_wrt_map sorted_wrt_iff_nth_less using less r by simp
    then obtain fs' d where "entry_search ?fs parent name l h = (map_option (n_dir_index (fs_nodes fs parent)) (?find l h), fs')"
      "same_store ?fs fs'" "steps fs' = steps ?fs + of_nat d" "d \<le> k"
      using Suc.IH [of ?fs l h] r(3) by (auto simp: fs_simps nm_def)
    then show ?thesis
      using same_store_trans [OF same_store_bump [of fs], of fs'] by (intro exI [of _ fs'] exI [of _ d]) (simp add: fs_simps)
  qed
  show ?case
  proof (cases "low < high")
    case False
    then have "entry_search fs parent name low high = (None, fs)" by (subst entry_search.simps) simp
    then show ?thesis using False by (intro exI [of _ fs] exI [of _ 0]) simp
  next
    case True
    define mid where "mid = low + (high - low) div 2"
    have mid: "low \<le> mid" "mid < high" using True by (auto simp: mid_def)
    have len: "high - (mid + 1) < 2 ^ k" "mid - low < 2 ^ k" using Suc.prems(2) by (auto simp: mid_def)
    have split: "[low..<high] = [low..<mid] @ mid # [mid + 1..<high]"
      using mid upt_add_eq_append [of low mid "high - mid"] by (simp add: upt_conv_Cons)
    have step: "entry_search fs parent name low high =
      (if nm mid = name then (Some (n_dir_index (fs_nodes fs parent) mid), ?fs)
       else if nm mid < name then entry_search ?fs parent name (mid + 1) high
       else entry_search ?fs parent name low mid)"
      using True by (subst entry_search.simps) (simp add: Let_def mid_def nm_def)
    consider (eq) "nm mid = name" | (lt) "nm mid < name" | (gt) "name < nm mid" by (rule linorder_cases)
    then have "\<exists>fs' d. entry_search fs parent name low high = (map_option (n_dir_index (fs_nodes fs parent)) (?find low high), fs') \<and>
        same_store fs fs' \<and> steps fs' = steps fs + of_nat d \<and> d \<le> Suc k"
    proof cases
      case eq
      have "nm i \<noteq> name" if "low \<le> i" "i < mid" for i using less [OF that(1,2) mid(2)] eq by auto
      then have "?find low mid = None" by (auto simp: find_None_iff)
      then have "?find low high = Some mid" by (simp add: split find_append eq)
      then show ?thesis
        using eq unfolding step by (intro exI [of _ ?fs] exI [of _ 1]) (simp add: fs_simps)
    next
      case lt
      have "nm i \<noteq> name" if "low \<le> i" "i < mid" for i using less [OF that(1,2) mid(2)] lt by auto
      then have "?find low mid = None" by (auto simp: find_None_iff)
      then have "?find low high = ?find (mid + 1) high" using lt by (auto simp: split find_append)
      then show ?thesis using IH [of "mid + 1" high] len mid lt unfolding step by fastforce
    next
      case gt
      have "nm i \<noteq> name" if "mid < i" "i < high" for i using less [OF mid(1) that] gt by auto
      then have "?find (mid + 1) high = None" by (auto simp: find_None_iff Suc_le_eq)
      then have "?find low high = ?find low mid" using gt by (auto simp: split find_append split: option.splits)
      then show ?thesis using IH [of low mid] len mid gt unfolding step by fastforce
    qed
    then show ?thesis by (simp add: nm_def)
  qed
qed

lemma find_map: "find P (map f xs) = map_option f (find (\<lambda>x. P (f x)) xs)"
  by (induction xs) auto

subsection \<open>Directories\<close>

definition dir_items :: "course_fs \<Rightarrow> nat \<Rightarrow> nat list" where
  "dir_items fs p = arr_list (n_dir_index (fs_nodes fs p)) (n_dir_index_count (fs_nodes fs p))"

definition dir_names :: "course_fs \<Rightarrow> nat \<Rightarrow> cstr list" where
  "dir_names fs p = map (\<lambda>i. n_name (fs_nodes fs i)) (dir_items fs p)"

definition is_dir :: "course_fs \<Rightarrow> nat \<Rightarrow> bool" where
  "is_dir fs p \<longleftrightarrow> p < COURSE_FS_MAX_NODES \<and> n_used (fs_nodes fs p) \<and> n_is_dir (fs_nodes fs p)"

text \<open>The leaf table that \<open>rebuild_child_btree\<close> computes.\<close>

definition leaves_ok :: "fs_node \<Rightarrow> bool" where
  "leaves_ok node \<longleftrightarrow> n_leaf_count node = (n_dir_index_count node + 3) div 4 \<and>
     (\<forall>l<n_leaf_count node. n_leaf_starts node l = 4 * l \<and> n_leaf_counts node l = min 4 (n_dir_index_count node - 4 * l)) \<and>
     n_internal_count node = (if n_leaf_count node > 1 then 1 else 0)"

definition sorted_dir :: "course_fs \<Rightarrow> nat \<Rightarrow> bool" where
  "sorted_dir fs p \<longleftrightarrow> n_dir_index_count (fs_nodes fs p) \<le> COURSE_FS_MAX_NODES \<and>
     sorted_wrt (<) (dir_names fs p) \<and> (n_dir_index_count (fs_nodes fs p) \<noteq> 0 \<longrightarrow> leaves_ok (fs_nodes fs p))"

definition child :: "course_fs \<Rightarrow> nat \<Rightarrow> cstr \<Rightarrow> nat option" where
  "child fs p name =
     (if is_dir fs p \<and> name \<noteq> [] then find (\<lambda>i. n_name (fs_nodes fs i) = name) (dir_items fs p) else None)"

lemma find_child_correct:
  assumes "is_dir fs p \<Longrightarrow> sorted_dir fs p"
  shows "\<exists>fs' d. find_child fs p name = (child fs p name, fs') \<and> same_store fs fs' \<and>
     steps fs' = steps fs + of_nat d \<and> d \<le> 9"
proof (cases "is_dir fs p \<and> name \<noteq> [] \<and> n_dir_index_count (fs_nodes fs p) \<noteq> 0")
  case False
  then consider "\<not> is_dir fs p" | "name = []" | "is_dir fs p" "name \<noteq> []" "n_dir_index_count (fs_nodes fs p) = 0" by blast
  then show ?thesis
  proof cases
    case 3
    then show ?thesis
      by (intro exI [of _ "upd_counters fs (\<lambda>c. c\<lparr>dir_index_lookups := dir_index_lookups c + 1\<rparr>)"] exI [of _ 0])
        (simp add: find_child_def child_def dir_items_def is_dir_def same_store_def fs_simps)
  qed (auto simp: find_child_def child_def is_dir_def intro!: exI [of _ 0])
next
  case True
  let ?node = "fs_nodes fs p" let ?n = "n_dir_index_count ?node" let ?L = "n_leaf_count ?node"
  let ?fs = "upd_counters fs (\<lambda>c. c\<lparr>dir_index_lookups := dir_index_lookups c + 1\<rparr>)"
  define nm where "nm = (\<lambda>i. n_name (fs_nodes fs (n_dir_index ?node i)))"
  have ok: "?n \<le> 160" "leaves_ok ?node" "sorted_wrt (<) (map nm [0..<?n])"
    using assms True by (simp_all add: sorted_dir_def dir_names_def dir_items_def arr_list_def nm_def o_def)
  have less: "nm i < nm j" if "i < j" "j < ?n" for i j
    using sorted_wrt_nth_less [OF ok(3), of i j] that by simp
  have le: "nm i \<le> nm j" if "i \<le> j" "j < ?n" for i j
    using less [of i j] that by (cases "i = j") (auto intro: less_imp_le)
  have L: "?L = (?n + 3) div 4" and leaf: "\<And>l. l < ?L \<Longrightarrow> n_leaf_starts ?node l = 4 * l"
    "\<And>l. l < ?L \<Longrightarrow> n_leaf_counts ?node l = min 4 (?n - 4 * l)"
    using ok(2) by (simp_all add: leaves_ok_def)
  define lst where "lst l = 4 * l + min 4 (?n - 4 * l) - 1" for l
  have lst: "4 * l \<le> lst l" "lst l < ?n" if "l < ?L" for l using that L by (auto simp: lst_def min_def)
  have lst_mono: "lst i \<le> lst j" if "i \<le> j" "j < ?L" for i j using that L by (auto simp: lst_def min_def)
  have P: "leaf_last_less ?fs p name l \<longleftrightarrow> nm (lst l) < name" if "l < ?L" for l
    using that leaf by (simp add: leaf_last_less_def fs_simps nm_def lst_def)
  have mono: "\<forall>i j. i \<le> j \<and> j < ?L \<and> leaf_last_less ?fs p name j \<longrightarrow> leaf_last_less ?fs p name i"
  proof (intro allI impI)
    fix i j assume a: "i \<le> j \<and> j < ?L \<and> leaf_last_less ?fs p name j"
    then have "nm (lst j) < name" "lst i \<le> lst j" "lst j < ?n" using P lst_mono lst(2) by blast+
    then have "nm (lst i) < name" using le [of "lst i" "lst j"] by (blast intro: le_less_trans)
    then show "leaf_last_less ?fs p name i" using P [of i] a by simp
  qed
  have b: "\<forall>i<0. leaf_last_less ?fs p name i" "\<forall>i. ?L \<le> i \<and> i < ?L \<longrightarrow> \<not> leaf_last_less ?fs p name i" "?L - 0 < 2 ^ 6"
    using ok(1) L by auto
  obtain l fs2 d2 where s: "leaf_search ?fs p name 0 ?L = (l, fs2)" "l \<le> ?L" "same_store ?fs fs2"
    "\<forall>i<l. leaf_last_less ?fs p name i" "\<forall>i. l \<le> i \<and> i < ?L \<longrightarrow> \<not> leaf_last_less ?fs p name i"
    "steps fs2 = steps ?fs + of_nat d2" "d2 \<le> 6"
    using leaf_search_correct [OF mono le0 order_refl b] by blast
  have st: "same_store fs fs2" "steps fs2 = steps fs + of_nat d2"
    using s(3,6) by (simp_all add: same_store_def fs_simps)
  have before: "nm i < name" if "i < 4 * l" "i < ?n" for i
  proof -
    have "i div 4 < l" "i div 4 < ?L" using that s(2) L by auto
    then have "nm (lst (i div 4)) < name" "i \<le> lst (i div 4)" "lst (i div 4) < ?n"
      using s(4) P lst that by (auto simp: lst_def min_def)
    then show ?thesis using le by (metis order.strict_trans1)
  qed
  have all: "child fs p name = map_option (n_dir_index ?node) (find (\<lambda>i. nm i = name) [0..<?n])"
    using True by (simp add: child_def dir_items_def arr_list_def find_map nm_def)
  have fc: "find_child fs p name = (if l \<ge> ?L then (None, fs2)
     else entry_search fs2 p name (n_leaf_starts ?node l) (n_leaf_starts ?node l + n_leaf_counts ?node l))"
    using True s(1) st(1) by (simp add: find_child_def is_dir_def Let_def)
  show ?thesis
  proof (cases "l = ?L")
    case True
    have "nm i \<noteq> name" if "i < ?n" for i
    proof -
      have "i < 4 * l" using that unfolding True L by linarith
      then show ?thesis using before [of i] that by auto
    qed
    then have "find (\<lambda>i. nm i = name) [0..<?n] = None" by (auto simp: find_None_iff)
    then show ?thesis
      using fc True all st s(7) by (intro exI [of _ fs2] exI [of _ d2]) simp
  next
    case False
    then have l: "l < ?L" using s(2) by simp
    let ?h = "4 * l + min 4 (?n - 4 * l)"
    have h: "?h \<le> ?n" "4 * l \<le> ?h" using l L by (auto simp: min_def)
    have after: "nm i \<noteq> name" if "?h \<le> i" "i < ?n" for i
    proof -
      have "\<not> nm (lst l) < name" using s(5) P l by blast
      moreover have "lst l < ?h" using lst(1,2) [OF l] by (auto simp: lst_def)
      then have "nm (lst l) < nm i" using less [of "lst l" i] that by linarith
      ultimately show ?thesis by auto
    qed
    have split: "[0..<?n] = [0..<4 * l] @ [4 * l..<?h] @ [?h..<?n]"
      using h upt_add_eq_append [of 0 "4 * l" "?h - 4 * l"] upt_add_eq_append [of 0 ?h "?n - ?h"] by simp
    have none: "find (\<lambda>i. nm i = name) [0..<4 * l] = None" "find (\<lambda>i. nm i = name) [?h..<?n] = None"
      using before after h by (auto simp: find_None_iff dest: less_imp_neq)
    have seg: "find (\<lambda>i. nm i = name) [0..<?n] = find (\<lambda>i. nm i = name) [4 * l..<?h]"
      by (simp add: split find_append none split: option.split)
    have nodes2: "fs_nodes fs2 = fs_nodes fs" using st(1) by (simp add: same_store_def)
    have "sorted_wrt (<) (map nm [4 * l..<?h])"
      unfolding sorted_wrt_map sorted_wrt_iff_nth_less by (auto intro!: less)
    then have srt: "sorted_wrt (<) (map (\<lambda>i. n_name (fs_nodes fs2 (n_dir_index (fs_nodes fs2 p) i))) [4 * l..<?h])"
      by (simp add: nodes2 nm_def)
    have "?h - 4 * l < 2 ^ 3" by simp
    then obtain fs3 d3 where e: "entry_search fs2 p name (4 * l) ?h =
        (map_option (n_dir_index ?node) (find (\<lambda>i. nm i = name) [4 * l..<?h]), fs3)"
      "same_store fs2 fs3" "steps fs3 = steps fs2 + of_nat d3" "d3 \<le> 3"
      using entry_search_correct [OF srt, of 3 name] unfolding nodes2 nm_def by blast
    show ?thesis
      using fc e l all seg st s(7) leaf [OF l] same_store_trans [OF st(1) e(2)]
      by (intro exI [of _ fs3] exI [of _ "d2 + d3"]) simp
  qed
qed

subsection \<open>Rebuilding the leaf table\<close>

text \<open>Everything of a node but its leaf table.\<close>

definition core :: "fs_node \<Rightarrow> bool \<times> bool \<times> nat option \<times> cstr \<times> nat \<times> nat carray \<times> nat" where
  "core node = (n_used node, n_is_dir node, n_parent node, n_name node, n_size node, n_dir_index node,
     n_dir_index_count node)"

lemma core_eqD:
  assumes "core a = core b"
  shows "n_used a = n_used b" "n_is_dir a = n_is_dir b" "n_parent a = n_parent b" "n_name a = n_name b"
    "n_size a = n_size b" "n_dir_index a = n_dir_index b" "n_dir_index_count a = n_dir_index_count b"
  using assms by (simp_all add: core_def)

lemma build_leaves_correct:
  assumes "n \<le> 160" "entry = min n (4 * leaf)" "leaf \<le> (n + 3) div 4" "n_leaf_count node = leaf"
    and "\<forall>l<leaf. n_leaf_starts node l = 4 * l \<and> n_leaf_counts node l = min 4 (n - 4 * l)"
  shows "n_leaf_count (build_leaves n entry leaf node) = (n + 3) div 4 \<and>
     (\<forall>l<(n + 3) div 4. n_leaf_starts (build_leaves n entry leaf node) l = 4 * l \<and>
        n_leaf_counts (build_leaves n entry leaf node) l = min 4 (n - 4 * l)) \<and>
     core (build_leaves n entry leaf node) = core node \<and>
     n_internal_count (build_leaves n entry leaf node) = n_internal_count node"
  using assms
proof (induction n entry leaf node rule: build_leaves.induct)
  case (1 n entry leaf node)
  show ?case
  proof (cases "entry < n")
    case True
    then have leaf: "4 * leaf < n" "entry = 4 * leaf" "leaf < 40" using 1(2,3) by auto
    define count where "count = (if n - entry > 4 then 4 else n - entry)"
    define node' where "node' = node\<lparr>n_leaf_starts := (n_leaf_starts node)(leaf := entry),
                      n_leaf_counts := (n_leaf_counts node)(leaf := count), n_leaf_count := n_leaf_count node + 1\<rparr>"
    have step: "build_leaves n entry leaf node = build_leaves n (entry + count) (leaf + 1) node'"
      using True leaf by (subst build_leaves.simps) (simp add: Let_def count_def node'_def)
    have c: "count = min 4 (n - 4 * leaf)" using leaf by (simp add: count_def min_def)
    have pre: "entry + count = min n (4 * (leaf + 1))" "leaf + 1 \<le> (n + 3) div 4"
      "n_leaf_count node' = leaf + 1"
      "\<forall>l<leaf + 1. n_leaf_starts node' l = 4 * l \<and> n_leaf_counts node' l = min 4 (n - 4 * l)"
      using leaf 1(5,6) c by (auto simp: node'_def less_Suc_eq)
    have "core node' = core node" "n_internal_count node' = n_internal_count node"
      by (simp_all add: node'_def core_def)
    then show ?thesis
      using 1(1) [of count] True leaf(3) 1(2) pre unfolding step node'_def [symmetric] by (simp add: count_def node'_def)
  next
    case False
    then have "leaf = (n + 3) div 4" using 1(3,4) by auto
    then show ?thesis using False 1(5,6) by (subst (1 2 3 4 5) build_leaves.simps) simp
  qed
qed

lemma rebuild_correct:
  assumes "is_dir fs p" "n_dir_index_count (fs_nodes fs p) \<le> 160"
  shows "leaves_ok (fs_nodes (rebuild_child_btree fs p) p)"
    and "core (fs_nodes (rebuild_child_btree fs p) i) = core (fs_nodes fs i)"
    and "i \<noteq> p \<Longrightarrow> fs_nodes (rebuild_child_btree fs p) i = fs_nodes fs i"
    and "fs_data (rebuild_child_btree fs p) = fs_data fs" "fs_counters (rebuild_child_btree fs p) = fs_counters fs"
proof -
  let ?node = "fs_nodes fs p"
  define node1 where "node1 = build_leaves (n_dir_index_count ?node) 0 0 (?node\<lparr>n_leaf_count := 0, n_internal_count := 0\<rparr>)"
  have b: "n_leaf_count node1 = (n_dir_index_count ?node + 3) div 4"
    "\<forall>l<(n_dir_index_count ?node + 3) div 4. n_leaf_starts node1 l = 4 * l \<and> n_leaf_counts node1 l = min 4 (n_dir_index_count ?node - 4 * l)"
    "core node1 = core ?node" "n_internal_count node1 = 0"
    using build_leaves_correct [of "n_dir_index_count ?node" 0 0 "?node\<lparr>n_leaf_count := 0, n_internal_count := 0\<rparr>"] assms(2)
    by (simp_all add: node1_def core_def)
  define node2 where "node2 = (if n_leaf_count node1 > 1 then node1\<lparr>n_internal_count := 1\<rparr> else node1)"
  have r: "rebuild_child_btree fs p = upd_node fs p (\<lambda>_. node2)"
    using assms(1) by (simp add: rebuild_child_btree_def is_dir_def upd_node_def Let_def node2_def node1_def)
  have c: "core node2 = core ?node" using b(3) by (simp add: node2_def core_def)
  show "leaves_ok (fs_nodes (rebuild_child_btree fs p) p)"
    using b c by (auto simp: r fs_simps leaves_ok_def node2_def core_def)
  show "core (fs_nodes (rebuild_child_btree fs p) i) = core (fs_nodes fs i)"
    using c by (simp add: r fs_simps)
  show "i \<noteq> p \<Longrightarrow> fs_nodes (rebuild_child_btree fs p) i = fs_nodes fs i"
    "fs_data (rebuild_child_btree fs p) = fs_data fs" "fs_counters (rebuild_child_btree fs p) = fs_counters fs"
    by (simp_all add: r fs_simps)
qed

lemma refresh_sel [fs_simps]:
  "fs_nodes (refresh_btree_stats fs) = fs_nodes fs" "fs_data (refresh_btree_stats fs) = fs_data fs"
  by (simp_all add: refresh_btree_stats_def fs_simps split: prod.splits)

lemma dir_items_core: "core (fs_nodes fs' p) = core (fs_nodes fs p) \<Longrightarrow> dir_items fs' p = dir_items fs p"
  by (simp add: dir_items_def core_def)

lemma length_dir_items [simp]: "length (dir_items fs p) = n_dir_index_count (fs_nodes fs p)"
  by (simp add: dir_items_def)

subsection \<open>Insertion and removal\<close>

lemma dir_names_core:
  assumes "dir_items fs' p = dir_items fs p" "\<And>i. i \<in> set (dir_items fs p) \<Longrightarrow> n_name (fs_nodes fs' i) = n_name (fs_nodes fs i)"
  shows "dir_names fs' p = dir_names fs p"
  using assms by (simp add: dir_names_def)

lemma sorted_dir_distinct: "sorted_wrt (<) (dir_names fs p) \<Longrightarrow> distinct (dir_items fs p)"
  unfolding dir_names_def by (metis distinct_map strict_sorted_iff)

lemma sorted_insert_at:
  fixes xs :: "cstr list"
  assumes "sorted_wrt (<) xs" "x \<notin> set xs" "\<forall>i<k. xs ! i < x" "k < length xs \<longrightarrow> \<not> xs ! k < x" "k \<le> length xs"
  shows "sorted_wrt (<) (take k xs @ x # drop k xs)"
proof -
  have lt: "y < x" if "y \<in> set (take k xs)" for y
    using that assms(3) by (auto simp: in_set_conv_nth)
  have gt: "x < y" if y: "y \<in> set (drop k xs)" for y
  proof -
    obtain j where "j < length (drop k xs)" "drop k xs ! j = y" using y by (metis in_set_conv_nth)
    then have j: "k + j < length xs" "y = xs ! (k + j)" by simp_all
    have "x < xs ! k" using assms(2,4) j(1) by (metis add_lessD1 linorder_cases nth_mem)
    moreover have "xs ! k \<le> y"
      using sorted_wrt_nth_less [OF assms(1), of k "k + j"] j by (cases "j = 0") (auto intro: less_imp_le)
    ultimately show ?thesis by (rule less_le_trans)
  qed
  have "sorted_wrt (<) (take k xs @ drop k xs)" using assms(1) by simp
  then show ?thesis unfolding sorted_wrt_append using lt gt by auto
qed

lemma insert_child_correct:
  assumes dir: "is_dir fs p" "sorted_dir fs p" and room: "n_dir_index_count (fs_nodes fs p) < 160"
    and c: "c < 160" "n_used (fs_nodes fs c)" "n_name (fs_nodes fs c) \<notin> set (dir_names fs p)" "c \<noteq> p"
  shows "\<exists>fs'. insert_child_index fs p c = (True, fs') \<and> fs_data fs' = fs_data fs \<and>
     (\<forall>i. i \<noteq> p \<longrightarrow> fs_nodes fs' i = fs_nodes fs i) \<and>
     (\<exists>k. dir_items fs' p = take k (dir_items fs p) @ c # drop k (dir_items fs p)) \<and> sorted_dir fs' p \<and>
     n_used (fs_nodes fs' p) \<and> n_is_dir (fs_nodes fs' p) \<and> n_parent (fs_nodes fs' p) = n_parent (fs_nodes fs p) \<and>
     n_name (fs_nodes fs' p) = n_name (fs_nodes fs p) \<and> n_size (fs_nodes fs' p) = n_size (fs_nodes fs p)"
proof -
  let ?node = "fs_nodes fs p" let ?n = "n_dir_index_count ?node"
  define pos where "pos = insert_position fs p c"
  let ?nm = "\<lambda>k. n_name (fs_nodes fs (n_dir_index ?node k))"
  have pos: "pos \<le> ?n" "\<forall>i<pos. ?nm i < n_name (fs_nodes fs c)" "pos < ?n \<longrightarrow> \<not> ?nm pos < n_name (fs_nodes fs c)"
    unfolding pos_def insert_position_def Let_def cmp_cstr_def cmp_cstr_len_less
    by (auto simp: first_index_Some_iff first_index_None_iff split: option.splits)
  define fs1 where "fs1 = upd_node fs p (\<lambda>node. node\<lparr>
      n_dir_index := (shift_up (n_dir_index node) pos (n_dir_index_count node))(pos := c),
      n_dir_index_count := n_dir_index_count node + 1\<rparr>)"
  have dir1: "is_dir fs1 p" "n_dir_index_count (fs_nodes fs1 p) \<le> 160"
    using dir room by (simp_all add: is_dir_def fs1_def fs_simps)
  note reb = rebuild_correct [OF dir1]
  define fs' where "fs' = refresh_btree_stats (rebuild_child_btree fs1 p)"
  have ins: "insert_child_index fs p c = (True, fs')"
    using dir room c by (simp add: insert_child_index_def is_dir_def Let_def fs'_def fs1_def pos_def)
  have items1: "dir_items fs1 p = take pos (dir_items fs p) @ c # drop pos (dir_items fs p)"
    using arr_list_insert_at [OF pos(1), of "n_dir_index ?node" c] by (simp add: dir_items_def fs1_def fs_simps)
  have items: "dir_items fs' p = take pos (dir_items fs p) @ c # drop pos (dir_items fs p)"
    using dir_items_core [of fs' p fs1] reb(2) items1 by (simp add: fs'_def fs_simps)
  have core': "core (fs_nodes fs' p) = core (fs_nodes fs1 p)" using reb(2) by (simp add: fs'_def fs_simps)
  have other: "i \<noteq> p \<Longrightarrow> fs_nodes fs' i = fs_nodes fs i" for i
    using reb(3) [of i] by (simp add: fs'_def fs1_def fs_simps)
  have nm: "n_name (fs_nodes fs' i) = n_name (fs_nodes fs i)" for i
    using other [of i] core_eqD(4) [OF core'] by (cases "i = p") (simp_all add: fs1_def fs_simps)
  have names: "dir_names fs' p = take pos (dir_names fs p) @ n_name (fs_nodes fs c) # drop pos (dir_names fs p)"
    by (simp add: dir_names_def items nm take_map drop_map)
  have nth: "dir_names fs p ! i = ?nm i" if "i < ?n" for i
    using that by (simp add: dir_names_def dir_items_def)
  have len: "length (dir_names fs p) = ?n" by (simp add: dir_names_def)
  have "sorted_wrt (<) (dir_names fs' p)"
    unfolding names using dir(2) c(3) pos nth by (intro sorted_insert_at) (simp_all add: sorted_dir_def len)
  moreover have "leaves_ok (fs_nodes fs' p)" using reb(1) by (simp add: fs'_def fs_simps)
  ultimately have sd: "sorted_dir fs' p"
    using dir1(2) core_eqD(7) [OF core'] by (simp add: sorted_dir_def)
  show ?thesis
    using ins items other sd reb(4) core_eqD [OF core'] dir
    by (intro exI [of _ fs']) (auto simp: fs'_def fs1_def fs_simps is_dir_def)
qed

lemma remove_child_correct:
  assumes dir: "is_dir fs p" "sorted_dir fs p" and c: "c \<in> set (dir_items fs p)"
  shows "\<exists>fs'. remove_child_index fs (Some p) c = fs' \<and> fs_data fs' = fs_data fs \<and>
     (\<forall>i. i \<noteq> p \<longrightarrow> fs_nodes fs' i = fs_nodes fs i) \<and>
     dir_items fs' p = remove1 c (dir_items fs p) \<and> sorted_dir fs' p \<and>
     n_used (fs_nodes fs' p) \<and> n_is_dir (fs_nodes fs' p) \<and> n_parent (fs_nodes fs' p) = n_parent (fs_nodes fs p) \<and>
     n_name (fs_nodes fs' p) = n_name (fs_nodes fs p) \<and> n_size (fs_nodes fs' p) = n_size (fs_nodes fs p)"
proof -
  let ?node = "fs_nodes fs p" let ?n = "n_dir_index_count ?node"
  obtain k where k: "first_index (\<lambda>i. n_dir_index ?node i = c) ?n = Some k"
    using c by (cases "first_index (\<lambda>i. n_dir_index ?node i = c) ?n")
      (auto simp: first_index_None_iff dir_items_def set_arr_list)
  then have k': "k < ?n" "n_dir_index ?node k = c" "\<forall>j<k. n_dir_index ?node j \<noteq> c"
    by (auto simp: first_index_Some_iff)
  define fs1 where "fs1 = upd_node fs p (\<lambda>node. node\<lparr>
      n_dir_index := shift_down (n_dir_index node) (k + 1) (n_dir_index_count node),
      n_dir_index_count := n_dir_index_count node - 1\<rparr>)"
  have dir1: "is_dir fs1 p" "n_dir_index_count (fs_nodes fs1 p) \<le> 160"
    using dir by (auto simp: is_dir_def fs1_def fs_simps sorted_dir_def)
  note reb = rebuild_correct [OF dir1]
  define fs' where "fs' = refresh_btree_stats (rebuild_child_btree fs1 p)"
  have rem: "remove_child_index fs (Some p) c = fs'"
    using dir k by (simp add: remove_child_index_def is_dir_def Let_def fs'_def fs1_def)
  have split: "dir_items fs p = take k (dir_items fs p) @ c # drop (Suc k) (dir_items fs p)"
    using k'(1,2) id_take_nth_drop [of k "dir_items fs p"] by (simp add: dir_items_def)
  have "c \<notin> set (take k (dir_items fs p))"
    using k'(1,3) by (auto simp: dir_items_def in_set_conv_nth)
  then have "remove1 c (dir_items fs p) = take k (dir_items fs p) @ drop (Suc k) (dir_items fs p)"
    by (subst split) (simp add: remove1_append del: append_take_drop_id)
  moreover have "dir_items fs1 p = take k (dir_items fs p) @ drop (Suc k) (dir_items fs p)"
    using arr_list_remove_at [OF k'(1), of "n_dir_index ?node"] by (simp add: dir_items_def fs1_def fs_simps)
  ultimately have items: "dir_items fs' p = remove1 c (dir_items fs p)"
    using dir_items_core [of fs' p fs1] reb(2) by (simp add: fs'_def fs_simps)
  have core': "core (fs_nodes fs' p) = core (fs_nodes fs1 p)" using reb(2) by (simp add: fs'_def fs_simps)
  have other: "i \<noteq> p \<Longrightarrow> fs_nodes fs' i = fs_nodes fs i" for i
    using reb(3) [of i] by (simp add: fs'_def fs1_def fs_simps)
  have nm: "n_name (fs_nodes fs' i) = n_name (fs_nodes fs i)" for i
    using other [of i] core_eqD(4) [OF core'] by (cases "i = p") (simp_all add: fs1_def fs_simps)
  have sorted: "sorted_wrt (<) (dir_names fs p)" using dir(2) by (simp add: sorted_dir_def)
  have "remove1 c (dir_items fs p) = List.filter (\<lambda>i. c \<noteq> i) (dir_items fs p)"
    using sorted_dir_distinct [OF sorted] by (simp add: distinct_remove1_removeAll removeAll_filter_not_eq)
  then have "sorted_wrt (<) (dir_names fs' p)"
    using sorted by (simp add: dir_names_def items nm sorted_wrt_map sorted_wrt_filter)
  moreover have "leaves_ok (fs_nodes fs' p)" using reb(1) by (simp add: fs'_def fs_simps)
  ultimately have sd: "sorted_dir fs' p"
    using dir1(2) core_eqD(7) [OF core'] by (simp add: sorted_dir_def)
  show ?thesis
    using rem items other sd reb(4) core_eqD [OF core'] dir
    by (intro exI [of _ fs']) (auto simp: fs'_def fs1_def fs_simps is_dir_def)
qed

end
