(* ===== verification/FsTree.thy ===== *)
theory FsTree
  imports FsIndex
begin

text \<open>
  The file system as its users see it: a partial map from paths, as lists of names, to files and
  directories.  The invariant \<open>fs_wf\<close> holds after formatting and is kept by every operation; under
  it each operation is the expected operation on that map.
\<close>

subsection \<open>The invariant\<close>

definition child_ok :: "course_fs \<Rightarrow> nat \<Rightarrow> nat \<Rightarrow> bool" where
  "child_ok fs p c \<longleftrightarrow> 0 < c \<and> c < COURSE_FS_MAX_NODES \<and> n_used (fs_nodes fs c) \<and> n_parent (fs_nodes fs c) = Some p \<and>
     n_name (fs_nodes fs c) \<noteq> [] \<and> CHR ''/'' \<notin> set (n_name (fs_nodes fs c)) \<and>
     length (n_name (fs_nodes fs c)) < COURSE_FS_MAX_NAME"

definition dir_ok :: "course_fs \<Rightarrow> nat \<Rightarrow> bool" where
  "dir_ok fs p \<longleftrightarrow> sorted_dir fs p \<and> (\<forall>c\<in>set (dir_items fs p). child_ok fs p c)"

definition linked :: "course_fs \<Rightarrow> nat \<Rightarrow> bool" where
  "linked fs i \<longleftrightarrow> (\<exists>p. n_parent (fs_nodes fs i) = Some p \<and> is_dir fs p \<and> i \<in> set (dir_items fs p))"

definition fs_wf :: "course_fs \<Rightarrow> bool" where
  "fs_wf fs \<longleftrightarrow> is_dir fs 0 \<and> n_parent (fs_nodes fs 0) = None \<and> (\<forall>p. is_dir fs p \<longrightarrow> dir_ok fs p) \<and>
     (\<forall>i. 0 < i \<and> i < COURSE_FS_MAX_NODES \<and> n_used (fs_nodes fs i) \<longrightarrow> linked fs i) \<and>
     (\<forall>i<COURSE_FS_MAX_NODES. n_used (fs_nodes fs i) \<and> \<not> n_is_dir (fs_nodes fs i) \<longrightarrow>
        n_size (fs_nodes fs i) \<le> COURSE_FS_MAX_DATA)"

lemma fs_wf_same_store: "same_store fs fs' \<Longrightarrow> fs_wf fs' = fs_wf fs"
  unfolding fs_wf_def dir_ok_def child_ok_def linked_def is_dir_def sorted_dir_def dir_items_def dir_names_def same_store_def
  by simp

lemma wf_dir: "fs_wf fs \<Longrightarrow> is_dir fs p \<Longrightarrow> sorted_dir fs p"
  by (simp add: fs_wf_def dir_ok_def)

lemma child_same_store: "same_store fs fs' \<Longrightarrow> child fs' = child fs"
  by (simp add: child_def fun_eq_iff is_dir_def dir_items_def same_store_def)

lemma child_Some_iff:
  assumes "fs_wf fs"
  shows "child fs p name = Some c \<longleftrightarrow> is_dir fs p \<and> c \<in> set (dir_items fs p) \<and> n_name (fs_nodes fs c) = name"
proof
  assume "child fs p name = Some c"
  then show "is_dir fs p \<and> c \<in> set (dir_items fs p) \<and> n_name (fs_nodes fs c) = name"
    by (auto simp: child_def find_Some_iff split: if_splits)
next
  assume r: "is_dir fs p \<and> c \<in> set (dir_items fs p) \<and> n_name (fs_nodes fs c) = name"
  then have ok: "dir_ok fs p" using assms by (simp add: fs_wf_def)
  then have ne: "name \<noteq> []" and inj: "inj_on (\<lambda>i. n_name (fs_nodes fs i)) (set (dir_items fs p))"
    using r unfolding dir_ok_def child_ok_def sorted_dir_def dir_names_def
    by (auto simp: strict_sorted_iff distinct_map)
  obtain c' where c': "find (\<lambda>i. n_name (fs_nodes fs i) = name) (dir_items fs p) = Some c'"
    using r by (cases "find (\<lambda>i. n_name (fs_nodes fs i) = name) (dir_items fs p)") (auto simp: find_None_iff)
  then have "c' \<in> set (dir_items fs p)" "n_name (fs_nodes fs c') = name" by (auto simp: find_Some_iff)
  then have "c' = c" using r inj by (auto dest: inj_onD)
  then show "child fs p name = Some c" using c' r ne by (simp add: child_def)
qed

lemma child_facts:
  assumes "fs_wf fs" "child fs p name = Some c"
  shows "is_dir fs p" "c \<in> set (dir_items fs p)" "n_name (fs_nodes fs c) = name" "child_ok fs p c"
  using assms child_Some_iff [OF assms(1), of p name c] by (auto simp: fs_wf_def dir_ok_def)

lemma child_None_iff:
  assumes "fs_wf fs" "is_dir fs p"
  shows "child fs p name = None \<longleftrightarrow> name \<notin> set (dir_names fs p)"
proof -
  have "child fs p name = None \<longleftrightarrow> (\<forall>c. child fs p name \<noteq> Some c)" by (cases "child fs p name") auto
  then show ?thesis using assms by (auto simp: child_Some_iff dir_names_def)
qed

subsection \<open>Walking a path\<close>

fun walk :: "course_fs \<Rightarrow> nat \<Rightarrow> cstr list \<Rightarrow> nat option" where
  "walk fs p [] = Some p"
| "walk fs p (n # ns) = (case child fs p n of None \<Rightarrow> None | Some c \<Rightarrow> walk fs c ns)"

lemma walk_append: "walk fs p (ms @ ns) = (case walk fs p ms of None \<Rightarrow> None | Some q \<Rightarrow> walk fs q ns)"
  by (induction fs p ms rule: walk.induct) (auto split: option.split)

lemma walk_snoc: "walk fs p (ns @ [n]) = (case walk fs p ns of None \<Rightarrow> None | Some q \<Rightarrow> child fs q n)"
  by (simp add: walk_append split: option.split)

lemma walk_used:
  assumes "fs_wf fs" "walk fs 0 ns = Some k"
  shows "k < COURSE_FS_MAX_NODES" "n_used (fs_nodes fs k)" "ns \<noteq> [] \<longleftrightarrow> 0 < k"
proof -
  have "k < COURSE_FS_MAX_NODES \<and> n_used (fs_nodes fs k) \<and> (ns \<noteq> [] \<longleftrightarrow> 0 < k)"
  proof (cases ns rule: rev_exhaust)
    case Nil
    then show ?thesis using assms by (simp add: fs_wf_def is_dir_def)
  next
    case (snoc ms n)
    then show ?thesis
      using assms child_facts(4) [OF assms(1)] by (auto simp: walk_snoc child_ok_def split: option.splits)
  qed
  then show "k < COURSE_FS_MAX_NODES" "n_used (fs_nodes fs k)" "ns \<noteq> [] \<longleftrightarrow> 0 < k" by blast+
qed

lemma walk_inj:
  assumes wf: "fs_wf fs"
  shows "walk fs 0 ms = Some k \<Longrightarrow> walk fs 0 ns = Some k \<Longrightarrow> ms = ns"
proof (induction ms arbitrary: ns k rule: rev_induct)
  case Nil
  then show ?case using walk_used(3) [OF wf Nil(2)] by simp
next
  case (snoc m ms)
  then have "ns \<noteq> []" using walk_used(3) [OF wf] by (metis snoc_eq_iff_butlast)
  then obtain n ns' where ns: "ns = ns' @ [n]" by (cases ns rule: rev_exhaust) auto
  obtain p where p: "walk fs 0 ms = Some p" "child fs p m = Some k"
    using snoc.prems(1) by (auto simp: walk_snoc split: option.splits)
  obtain q where q: "walk fs 0 ns' = Some q" "child fs q n = Some k"
    using snoc.prems(2) by (auto simp: ns walk_snoc split: option.splits)
  have "p = q" "m = n"
    using child_facts(3,4) [OF wf p(2)] child_facts(3,4) [OF wf q(2)] by (auto simp: child_ok_def)
  then show ?case using snoc.IH [OF p(1), of ns'] q(1) by (simp add: ns)
qed

text \<open>One edge of the tree is added or removed: what that does to the paths.\<close>

lemma walk_change:
  assumes wf: "fs_wf fs" and ps: "walk fs 0 ps = Some p"
    and edge: "\<And>q x. q \<noteq> k \<Longrightarrow> child fs' q x = (if q = p \<and> x = nm then v else child fs q x)"
    and leaf: "\<And>x. child fs k x = None" "\<And>x. child fs' k x = None"
    and old: "(v = Some k \<and> walk fs 0 (ps @ [nm]) = None \<and> (\<forall>ms. walk fs 0 ms \<noteq> Some k)) \<or>
              (v = None \<and> walk fs 0 (ps @ [nm]) = Some k)"
  shows "walk fs' 0 ms = (if ms = ps @ [nm] then v else walk fs 0 ms)"
proof (induction ms rule: rev_induct)
  case Nil
  then show ?case by simp
next
  case (snoc x ms)
  show ?case
  proof (cases "ms = ps @ [nm]")
    case True
    have "walk fs' 0 ms = v" using snoc True by simp
    then have "walk fs' 0 (ms @ [x]) = None" using old leaf(2) by (auto simp: walk_snoc [of fs' 0 ms])
    moreover have "walk fs 0 (ms @ [x]) = None"
      using old leaf(1) unfolding True walk_snoc [of fs 0 "ps @ [nm]"] by auto
    ultimately show ?thesis using True by simp
  next
    case False
    then have IH: "walk fs' 0 ms = walk fs 0 ms" using snoc by simp
    show ?thesis
    proof (cases "walk fs 0 ms")
      case None
      then have "ms \<noteq> ps" using ps by auto
      then show ?thesis using IH None by (simp add: walk_snoc)
    next
      case (Some q)
      then have "q \<noteq> k" using old False walk_inj [OF wf] by blast
      moreover have "q = p \<longleftrightarrow> ms = ps" using Some ps walk_inj [OF wf] by auto
      ultimately show ?thesis using IH Some edge by (auto simp: walk_snoc)
    qed
  qed
qed

subsection \<open>Paths as text\<close>

fun split_slash :: "cstr \<Rightarrow> cstr list" where
  "split_slash [] = [[]]"
| "split_slash (c # cs) =
     (if c = CHR ''/'' then [] # split_slash cs
      else case split_slash cs of [] \<Rightarrow> [[c]] | x # xs \<Rightarrow> (c # x) # xs)"

definition path_names :: "cstr \<Rightarrow> cstr list" where
  "path_names s = List.filter (\<lambda>n. n \<noteq> []) (split_slash s)"

definition ends_in_slash :: "cstr \<Rightarrow> bool" where
  "ends_in_slash s \<longleftrightarrow> s \<noteq> [] \<and> last s = CHR ''/''"

lemma split_slash_no_slash: "CHR ''/'' \<notin> set n \<Longrightarrow> split_slash n = [n]"
  by (induction n) auto

lemma split_slash_append: "CHR ''/'' \<notin> set n \<Longrightarrow> split_slash (n @ CHR ''/'' # r) = n # split_slash r"
  by (induction n) auto

lemma path_names_drop: "path_names (dropWhile (\<lambda>c. c = CHR ''/'') s) = path_names s"
  by (induction s) (auto simp: path_names_def)

lemma next_component_None: "next_component s = None \<Longrightarrow> path_names s = []"
  using path_names_drop [of s] by (auto simp: next_component_def path_names_def split: list.splits)

lemma next_component_Some:
  assumes "next_component s = Some (n, r)"
  shows "path_names s = n # path_names r" "n \<noteq> []" "CHR ''/'' \<notin> set n" "r \<noteq> [] \<Longrightarrow> ends_in_slash r = ends_in_slash s"
    "r = [] \<Longrightarrow> \<not> ends_in_slash s"
proof -
  let ?p = "dropWhile (\<lambda>c. c = CHR ''/'') s"
  have p: "?p \<noteq> []" "n = takeWhile (\<lambda>c. c \<noteq> CHR ''/'') ?p" "r = dropWhile (\<lambda>c. c \<noteq> CHR ''/'') ?p"
    using assms by (cases ?p; simp add: next_component_def)+
  then have cat: "?p = n @ r" by simp
  have "hd ?p \<noteq> CHR ''/''" using hd_dropWhile [OF p(1)] by simp
  then show n: "n \<noteq> []" using p(1,2) by (cases ?p) auto
  show ns: "CHR ''/'' \<notin> set n" using p(2) by (auto dest: set_takeWhileD)
  have "path_names (n @ r) = n # path_names r"
  proof (cases r)
    case Nil
    then show ?thesis using n ns by (simp add: path_names_def split_slash_no_slash)
  next
    case (Cons c cs)
    have r: "dropWhile (\<lambda>c. c \<noteq> CHR ''/'') ?p = c # cs" using p(3) Cons by (rule trans [OF sym])
    then have "dropWhile (\<lambda>c. c \<noteq> CHR ''/'') ?p \<noteq> []" by (metis list.distinct(1))
    from hd_dropWhile [OF this] have "c = CHR ''/''" unfolding r by (metis list.sel(1))
    then show ?thesis using Cons n ns by (simp add: path_names_def split_slash_append)
  qed
  then show "path_names s = n # path_names r" using path_names_drop [of s] cat by simp
  obtain pre where s: "s = pre @ n @ r" by (metis cat takeWhile_dropWhile_id)
  show "r \<noteq> [] \<Longrightarrow> ends_in_slash r = ends_in_slash s" by (simp add: ends_in_slash_def s)
  have "last n \<noteq> CHR ''/''" using ns last_in_set [OF n] by metis
  then show "r = [] \<Longrightarrow> \<not> ends_in_slash s" using n by (simp add: ends_in_slash_def s)
qed

lemma path_names_Nil_slash: "path_names r = [] \<Longrightarrow> r \<noteq> [] \<Longrightarrow> ends_in_slash r"
proof (induction r)
  case Nil
  then show ?case by simp
next
  case (Cons c r)
  have "c = CHR ''/''" using Cons.prems(1) by (auto simp: path_names_def split: if_splits list.splits)
  then show ?case using Cons by (cases "r = []") (auto simp: ends_in_slash_def path_names_def)
qed

subsection \<open>Resolving a path\<close>

definition nothing :: resolved where
  "nothing = \<lparr>r_node = None, r_parent = None, r_leaf = None\<rparr>"

definition resolution :: "course_fs \<Rightarrow> nat \<Rightarrow> cstr list \<Rightarrow> bool \<Rightarrow> resolved" where
  "resolution fs cur ns slash =
     (if ns = [] then \<lparr>r_node = Some cur, r_parent = None, r_leaf = None\<rparr>
      else if slash
      then (case walk fs cur ns of None \<Rightarrow> nothing
            | Some k \<Rightarrow> if n_is_dir (fs_nodes fs k) then \<lparr>r_node = Some k, r_parent = None, r_leaf = None\<rparr> else nothing)
      else (case walk fs cur (butlast ns) of None \<Rightarrow> nothing
            | Some p \<Rightarrow> if n_is_dir (fs_nodes fs p)
                        then \<lparr>r_node = child fs p (last ns), r_parent = Some p, r_leaf = Some (last ns)\<rparr> else nothing))"

lemma walk_same_store: "same_store fs fs' \<Longrightarrow> walk fs' = walk fs"
proof -
  assume s: "same_store fs fs'"
  have "walk fs' p ns = walk fs p ns" for p ns
    by (induction ns arbitrary: p) (simp_all add: child_same_store [OF s] split: option.split)
  then show ?thesis by (simp add: fun_eq_iff)
qed

lemma resolution_same_store:
  assumes "same_store fs fs'"
  shows "resolution fs' = resolution fs"
proof -
  have "fs_nodes fs' = fs_nodes fs" using assms by (simp add: same_store_def)
  then show ?thesis
    by (simp only: fun_eq_iff resolution_def walk_same_store [OF assms] child_same_store [OF assms]) simp
qed

lemma walk_nondir:
  assumes "\<not> n_is_dir (fs_nodes fs c)" "ns \<noteq> []"
  shows "walk fs c ns = None"
  using assms by (cases ns) (auto simp: child_def is_dir_def)

lemma resolve_loop_correct:
  assumes "fs_wf fs" "is_dir fs cur"
  shows "\<exists>fs'. resolve_loop fs cur s = (resolution fs cur (path_names s) (ends_in_slash s), fs') \<and> same_store fs fs'"
  using assms
proof (induction "length s" arbitrary: fs cur s rule: less_induct)
  case less
  show ?case
  proof (cases "next_component s")
    case None
    then have "resolve_loop fs cur s = (\<lparr>r_node = Some cur, r_parent = None, r_leaf = None\<rparr>, fs)"
      by (subst resolve_loop.simps) simp
    then show ?thesis using next_component_None [OF None] by (auto simp: resolution_def)
  next
    case (Some a)
    then obtain n r where nr: "next_component s = Some (n, r)" by (cases a) auto
    note nc = next_component_Some [OF nr]
    obtain fs1 where f: "find_child fs cur n = (child fs cur n, fs1)" "same_store fs fs1"
      using find_child_correct [of fs cur n] wf_dir [OF less.prems] by blast
    have nodes: "fs_nodes fs1 = fs_nodes fs" using f(2) by (simp add: same_store_def)
    have step: "resolve_loop fs cur s = (if r = [] then (\<lparr>r_node = child fs cur n, r_parent = Some cur, r_leaf = Some n\<rparr>, fs1)
       else case child fs cur n of None \<Rightarrow> (nothing, fs1)
         | Some c \<Rightarrow> if \<not> n_is_dir (fs_nodes fs c) then (nothing, fs1) else resolve_loop fs1 c r)"
      using nr f(1) by (subst resolve_loop.simps) (simp add: nothing_def nodes split: option.split)
    show ?thesis
    proof (cases "r = []")
      case True
      then have "path_names r = []" by (simp add: path_names_def)
      then show ?thesis
        using True nc less.prems(2) step f(2) by (auto simp: resolution_def is_dir_def)
    next
      case False
      show ?thesis
      proof (cases "child fs cur n")
        case None
        have "resolution fs cur (path_names s) (ends_in_slash s) = nothing"
          using nc None path_names_Nil_slash [OF _ False] False
          by (auto simp: resolution_def split: option.split)
        then show ?thesis using step False None f(2) by auto
      next
        case (Some c)
        show ?thesis
        proof (cases "n_is_dir (fs_nodes fs c)")
          case True
          have c: "is_dir fs c"
            using child_facts(4) [OF less.prems(1) Some] True by (simp add: is_dir_def child_ok_def)
          have "length r < length s" by (rule next_component_shorter [OF nr])
          moreover have "fs_wf fs1" "is_dir fs1 c"
            using fs_wf_same_store [OF f(2)] less.prems(1) c by (simp_all add: is_dir_def nodes)
          ultimately obtain fs2 where 2: "resolve_loop fs1 c r = (resolution fs1 c (path_names r) (ends_in_slash r), fs2)"
            "same_store fs1 fs2" using less.hyps by blast
          have "resolution fs1 c (path_names r) (ends_in_slash r) = resolution fs cur (path_names s) (ends_in_slash s)"
            using nc False Some True path_names_Nil_slash [OF _ False] resolution_same_store [OF f(2)]
            by (cases "path_names r = []") (auto simp: resolution_def split: option.split)
          then show ?thesis using step False Some True 2 same_store_trans [OF f(2)] by auto
        next
          case nondir: False
          have "resolution fs cur (path_names s) (ends_in_slash s) = nothing"
            using nc Some nondir path_names_Nil_slash [OF _ False] False walk_nondir [OF nondir]
            by (cases "butlast (path_names r) = []") (auto simp: resolution_def split: option.split)
          then show ?thesis using step False Some nondir f(2) by auto
        qed
      qed
    qed
  qed
qed

definition absolute :: "cstr option \<Rightarrow> bool" where
  "absolute path \<longleftrightarrow> (\<exists>s. path = Some (CHR ''/'' # s))"

definition names_of :: "cstr option \<Rightarrow> cstr list" where
  "names_of path = (case path of None \<Rightarrow> [] | Some s \<Rightarrow> path_names s)"

definition wants_dir :: "cstr option \<Rightarrow> bool" where
  "wants_dir path \<longleftrightarrow> (\<exists>s. path = Some s \<and> ends_in_slash s)"

definition resolved_path :: "course_fs \<Rightarrow> cstr option \<Rightarrow> resolved" where
  "resolved_path fs path =
     (if \<not> absolute path then nothing
      else if path = Some ''/'' then \<lparr>r_node = Some 0, r_parent = None, r_leaf = path\<rparr>
      else resolution fs 0 (names_of path) (wants_dir path))"

lemma resolve_path_correct:
  assumes "fs_wf fs"
  shows "\<exists>fs'. resolve_path fs path = (resolved_path fs path, fs') \<and> same_store fs fs'"
proof (cases "absolute path")
  case False
  then show ?thesis
    by (auto simp: resolve_path_def resolved_path_def nothing_def absolute_def neq_Nil_conv split: option.split)
next
  case True
  then obtain s where path: "path = Some (CHR ''/'' # s)" by (auto simp: absolute_def)
  define fs1 where "fs1 = upd_counters fs (\<lambda>c. c\<lparr>path_resolves := path_resolves c + 1\<rparr>)"
  have s1: "same_store fs fs1" by (simp add: same_store_def fs1_def fs_simps)
  have "fs_wf fs1" "is_dir fs1 0"
    using fs_wf_same_store [OF s1] assms s1 by (simp_all add: fs_wf_def is_dir_def same_store_def)
  from resolve_loop_correct [OF this, of "CHR ''/'' # s"] obtain fs2 where
    "resolve_loop fs1 0 (CHR ''/'' # s) = (resolution fs 0 (names_of path) (wants_dir path), fs2)" "same_store fs fs2"
    using resolution_same_store [OF s1] same_store_trans [OF s1] by (auto simp: path names_of_def wants_dir_def)
  then show ?thesis
    using True s1 by (auto simp: path resolve_path_def resolved_path_def fs1_def [symmetric])
qed

text \<open>The two things the operations ask of a path: the node it names, and where it would be made.\<close>

definition node_at :: "course_fs \<Rightarrow> cstr option \<Rightarrow> nat option" where
  "node_at fs path =
     (if absolute path then
        case walk fs 0 (names_of path) of None \<Rightarrow> None
        | Some k \<Rightarrow> if wants_dir path \<and> \<not> n_is_dir (fs_nodes fs k) then None else Some k
      else None)"

definition can_make :: "course_fs \<Rightarrow> cstr option \<Rightarrow> nat \<Rightarrow> cstr \<Rightarrow> bool" where
  "can_make fs path p nm \<longleftrightarrow> absolute path \<and> \<not> wants_dir path \<and> names_of path \<noteq> [] \<and>
     walk fs 0 (butlast (names_of path)) = Some p \<and> is_dir fs p \<and> nm = last (names_of path) \<and>
     walk fs 0 (names_of path) = None"

lemma walk_last: "ns \<noteq> [] \<Longrightarrow> walk fs q ns = (case walk fs q (butlast ns) of None \<Rightarrow> None | Some p \<Rightarrow> child fs p (last ns))"
  using walk_snoc [of fs q "butlast ns" "last ns"] by simp

lemma child_nondir: "\<not> n_is_dir (fs_nodes fs p) \<Longrightarrow> child fs p nm = None"
  by (simp add: child_def is_dir_def)

lemma names_of_root: "names_of (Some ''/'') = []"
  by (simp add: names_of_def path_names_def)

lemma resolved_node:
  assumes "fs_wf fs"
  shows "r_node (resolved_path fs path) = node_at fs path"
proof -
  have "n_is_dir (fs_nodes fs 0)" using assms by (simp add: fs_wf_def is_dir_def)
  then show ?thesis
    by (auto simp: resolved_path_def node_at_def nothing_def resolution_def names_of_root walk_last child_nondir
        split: option.split)
qed

lemma resolved_make:
  assumes "fs_wf fs"
  shows "r_node (resolved_path fs path) = None \<and> r_parent (resolved_path fs path) = Some p \<and>
      r_leaf (resolved_path fs path) = Some nm \<longleftrightarrow> can_make fs path p nm"
proof (cases "absolute path \<and> names_of path \<noteq> [] \<and> \<not> wants_dir path")
  case False
  then show ?thesis by (auto simp: can_make_def resolved_path_def nothing_def resolution_def split: option.splits)
next
  case True
  then have r: "resolved_path fs path = (case walk fs 0 (butlast (names_of path)) of None \<Rightarrow> nothing
      | Some p \<Rightarrow> if n_is_dir (fs_nodes fs p)
        then \<lparr>r_node = child fs p (last (names_of path)), r_parent = Some p, r_leaf = Some (last (names_of path))\<rparr> else nothing)"
    using names_of_root by (auto simp: resolved_path_def resolution_def)
  show ?thesis
  proof (cases "walk fs 0 (butlast (names_of path))")
    case None
    then show ?thesis by (simp add: r nothing_def can_make_def)
  next
    case (Some q)
    then have "is_dir fs q \<longleftrightarrow> n_is_dir (fs_nodes fs q)" using walk_used [OF assms Some] by (simp add: is_dir_def)
    then show ?thesis using True Some by (auto simp: r nothing_def can_make_def walk_last)
  qed
qed

end
