(* ===== verification/FsEdges.thy ===== *)
theory FsEdges
  imports FsTree
begin

text \<open>
  The two changes of the tree, a new leaf and a removed leaf: both keep \<open>fs_wf\<close>, and both change
  the abstraction \<open>fs_abs\<close>, from paths to entries, at one path.
\<close>

subsection \<open>The abstraction\<close>

datatype entry = Dir | File "u8 list"

type_synonym tree = "cstr list \<Rightarrow> entry option"

definition entry_of :: "course_fs \<Rightarrow> nat \<Rightarrow> entry" where
  "entry_of fs k = (if n_is_dir (fs_nodes fs k) then Dir else File (arr_list (fs_data fs k) (n_size (fs_nodes fs k))))"

definition fs_abs :: "course_fs \<Rightarrow> tree" where
  "fs_abs fs ns = map_option (entry_of fs) (walk fs 0 ns)"

lemma fs_abs_same_store:
  assumes "same_store fs fs'"
  shows "fs_abs fs' = fs_abs fs"
proof -
  have "fs_nodes fs' = fs_nodes fs" "fs_data fs' = fs_data fs" using assms by (simp_all add: same_store_def)
  then have "entry_of fs' = entry_of fs" by (intro ext) (simp add: entry_of_def)
  then show ?thesis by (intro ext) (simp add: fs_abs_def walk_same_store [OF assms])
qed

lemma fs_abs_dir:
  assumes "fs_wf fs"
  shows "fs_abs fs ns = Some Dir \<longleftrightarrow> (\<exists>p. walk fs 0 ns = Some p \<and> is_dir fs p)"
  using walk_used [OF assms] by (auto simp: fs_abs_def entry_of_def is_dir_def)

subsection \<open>What is kept of the other nodes\<close>

definition meta :: "fs_node \<Rightarrow> bool \<times> bool \<times> nat option \<times> cstr \<times> nat" where
  "meta node = (n_used node, n_is_dir node, n_parent node, n_name node, n_size node)"

lemma node_meta_eqD:
  assumes "meta a = meta b"
  shows "n_used a = n_used b" "n_is_dir a = n_is_dir b" "n_parent a = n_parent b" "n_name a = n_name b" "n_size a = n_size b"
  using assms by (simp_all add: meta_def)

lemma child_ok_meta:
  "meta (fs_nodes fs' c) = meta (fs_nodes fs c) \<Longrightarrow> child_ok fs' q c = child_ok fs q c"
  by (simp add: child_ok_def meta_def)

lemma wf_child_ok: "fs_wf fs \<Longrightarrow> is_dir fs q \<Longrightarrow> c \<in> set (dir_items fs q) \<Longrightarrow> child_ok fs q c"
  by (simp add: fs_wf_def dir_ok_def)

lemma wf_linked:
  assumes "fs_wf fs" "0 < i" "i < COURSE_FS_MAX_NODES" "n_used (fs_nodes fs i)"
  obtains q where "n_parent (fs_nodes fs i) = Some q" "is_dir fs q" "i \<in> set (dir_items fs q)"
  using assms unfolding fs_wf_def linked_def by blast

lemma wf_root: "fs_wf fs \<Longrightarrow> is_dir fs 0" "fs_wf fs \<Longrightarrow> n_parent (fs_nodes fs 0) = None"
  by (simp_all add: fs_wf_def)

lemma dir_ok_same:
  assumes "dir_ok fs q" "fs_nodes fs' q = fs_nodes fs q"
    "\<And>c. c \<in> set (dir_items fs q) \<Longrightarrow> meta (fs_nodes fs' c) = meta (fs_nodes fs c)"
  shows "dir_ok fs' q"
proof -
  have items: "dir_items fs' q = dir_items fs q" using assms(2) by (simp add: dir_items_def)
  moreover have "dir_names fs' q = dir_names fs q"
    by (rule dir_names_core [OF items]) (use assms(3) in \<open>simp add: meta_def\<close>)
  ultimately have "sorted_dir fs' q" using assms(1) by (simp add: dir_ok_def sorted_dir_def assms(2))
  moreover have "child_ok fs' q c" if "c \<in> set (dir_items fs q)" for c
    using assms(1) that child_ok_meta [OF assms(3) [OF that]] by (simp add: dir_ok_def)
  ultimately show ?thesis by (simp add: dir_ok_def items)
qed

lemma wfI:
  assumes "is_dir fs 0" "n_parent (fs_nodes fs 0) = None" "\<And>q. is_dir fs q \<Longrightarrow> dir_ok fs q"
    "\<And>i. 0 < i \<Longrightarrow> i < COURSE_FS_MAX_NODES \<Longrightarrow> n_used (fs_nodes fs i) \<Longrightarrow> linked fs i"
    "\<And>i. i < COURSE_FS_MAX_NODES \<Longrightarrow> n_used (fs_nodes fs i) \<Longrightarrow> \<not> n_is_dir (fs_nodes fs i) \<Longrightarrow>
       n_size (fs_nodes fs i) \<le> COURSE_FS_MAX_DATA"
  shows "fs_wf fs"
  using assms by (simp add: fs_wf_def)

subsection \<open>What the two changes do to the abstraction\<close>

lemma fs_abs_change:
  assumes walks: "\<And>ms. walk fs' 0 ms = (if ms = path then v else walk fs 0 ms)"
    and entries: "\<And>c. c \<noteq> k \<Longrightarrow> entry_of fs' c = entry_of fs c"
    and others: "\<And>ms. ms \<noteq> path \<Longrightarrow> walk fs 0 ms \<noteq> Some k"
  shows "fs_abs fs' = (fs_abs fs)(path := map_option (entry_of fs') v)"
proof
  fix ms
  show "fs_abs fs' ms = ((fs_abs fs)(path := map_option (entry_of fs') v)) ms"
    using entries others [of ms] by (cases "walk fs 0 ms") (auto simp: fs_abs_def walks)
qed

lemma entry_of_meta:
  "meta (fs_nodes fs' c) = meta (fs_nodes fs c) \<Longrightarrow> fs_data fs' = fs_data fs \<Longrightarrow> entry_of fs' c = entry_of fs c"
  by (simp add: entry_of_def meta_def)

text \<open>Every used node is on a path from the root, so the nodes in use are counted by the paths.\<close>

definition no_orphans :: "course_fs \<Rightarrow> bool" where
  "no_orphans fs \<longleftrightarrow> (\<forall>i<COURSE_FS_MAX_NODES. n_used (fs_nodes fs i) \<longrightarrow> (\<exists>ns. walk fs 0 ns = Some i))"

lemma no_orphans_same_store:
  assumes "same_store fs fs'"
  shows "no_orphans fs' = no_orphans fs"
proof -
  have "fs_nodes fs' = fs_nodes fs" using assms by (simp add: same_store_def)
  then show ?thesis unfolding no_orphans_def walk_same_store [OF assms] by simp
qed

lemma used_nodes_count:
  assumes "fs_wf fs" "no_orphans fs"
  shows "card (dom (fs_abs fs)) = card {i. i < COURSE_FS_MAX_NODES \<and> n_used (fs_nodes fs i)}"
proof (rule bij_betw_same_card)
  show "bij_betw (\<lambda>ns. the (walk fs 0 ns)) (dom (fs_abs fs)) {i. i < COURSE_FS_MAX_NODES \<and> n_used (fs_nodes fs i)}"
  proof (rule bij_betwI')
    show "(the (walk fs 0 ms) = the (walk fs 0 ns)) = (ms = ns)" if "ms \<in> dom (fs_abs fs)" "ns \<in> dom (fs_abs fs)" for ms ns
      using that walk_inj [OF assms(1), of ms _ ns] by (auto simp: fs_abs_def)
    show "the (walk fs 0 ns) \<in> {i. i < COURSE_FS_MAX_NODES \<and> n_used (fs_nodes fs i)}" if "ns \<in> dom (fs_abs fs)" for ns
      using that walk_used(1,2) [OF assms(1)] by (auto simp: fs_abs_def)
    show "\<exists>ns\<in>dom (fs_abs fs). i = the (walk fs 0 ns)" if "i \<in> {i. i < COURSE_FS_MAX_NODES \<and> n_used (fs_nodes fs i)}" for i
      using that assms(2) by (force simp: no_orphans_def fs_abs_def)
  qed
qed

lemma alloc_node_iff:
  assumes "fs_wf fs" "no_orphans fs"
  shows "alloc_node fs \<noteq> None \<longleftrightarrow> card (dom (fs_abs fs)) < COURSE_FS_MAX_NODES"
proof -
  let ?U = "{i. i < COURSE_FS_MAX_NODES \<and> n_used (fs_nodes fs i)}"
  have sub: "?U \<subseteq> {..<COURSE_FS_MAX_NODES}" by auto
  have "alloc_node fs \<noteq> None \<longleftrightarrow> ?U \<noteq> {..<COURSE_FS_MAX_NODES}"
    unfolding alloc_node_def first_index_None_iff by blast
  also have "\<dots> \<longleftrightarrow> card ?U < COURSE_FS_MAX_NODES"
  proof
    assume "?U \<noteq> {..<COURSE_FS_MAX_NODES}"
    then have "card ?U < card {..<COURSE_FS_MAX_NODES}" using sub by (intro psubset_card_mono) blast+
    then show "card ?U < COURSE_FS_MAX_NODES" by simp
  next
    assume "card ?U < COURSE_FS_MAX_NODES"
    then show "?U \<noteq> {..<COURSE_FS_MAX_NODES}" by (metis card_lessThan less_irrefl)
  qed
  finally show ?thesis using used_nodes_count [OF assms] by simp
qed

subsection \<open>A new leaf\<close>

text \<open>Node \<open>k\<close>, unused before, is now the empty child \<open>nm\<close> of the directory \<open>p\<close>; nothing else changed.\<close>

definition new_leaf :: "course_fs \<Rightarrow> course_fs \<Rightarrow> nat \<Rightarrow> nat \<Rightarrow> cstr \<Rightarrow> bool" where
  "new_leaf fs fs' p k nm \<longleftrightarrow>
     is_dir fs p \<and> k < COURSE_FS_MAX_NODES \<and> \<not> n_used (fs_nodes fs k) \<and> (\<forall>i. i \<noteq> p \<and> i \<noteq> k \<longrightarrow> fs_nodes fs' i = fs_nodes fs i) \<and>
     meta (fs_nodes fs' p) = meta (fs_nodes fs p) \<and> sorted_dir fs' p \<and>
     set (dir_items fs' p) = insert k (set (dir_items fs p)) \<and>
     n_used (fs_nodes fs' k) \<and> n_parent (fs_nodes fs' k) = Some p \<and> n_name (fs_nodes fs' k) = nm \<and>
     n_dir_index_count (fs_nodes fs' k) = 0 \<and> n_size (fs_nodes fs' k) = 0 \<and>
     nm \<noteq> [] \<and> CHR ''/'' \<notin> set nm \<and> length nm < COURSE_FS_MAX_NAME \<and> child fs p nm = None"

lemma new_leaf_facts:
  assumes wf: "fs_wf fs" and new: "new_leaf fs fs' p k nm"
  shows "k \<noteq> p" "k \<noteq> 0" "\<And>i. i \<noteq> k \<Longrightarrow> meta (fs_nodes fs' i) = meta (fs_nodes fs i)"
    "\<And>q. q \<noteq> k \<Longrightarrow> is_dir fs' q = is_dir fs q" "dir_items fs' k = []"
    "\<And>q. q \<noteq> p \<Longrightarrow> q \<noteq> k \<Longrightarrow> dir_items fs' q = dir_items fs q"
    "\<And>q c. is_dir fs q \<Longrightarrow> c \<in> set (dir_items fs q) \<Longrightarrow> c \<noteq> k" "child_ok fs' p k"
proof -
  note n = new [unfolded new_leaf_def]
  show kp: "k \<noteq> p" using n by (auto simp: is_dir_def)
  show k0: "k \<noteq> 0" using n wf_root(1) [OF wf] by (metis is_dir_def)
  show meta: "meta (fs_nodes fs' i) = meta (fs_nodes fs i)" if "i \<noteq> k" for i
    using that n by (cases "i = p") auto
  show "is_dir fs' q = is_dir fs q" if "q \<noteq> k" for q using node_meta_eqD [OF meta [OF that]] by (simp add: is_dir_def)
  show "dir_items fs' k = []" using n by (simp add: dir_items_def)
  show "dir_items fs' q = dir_items fs q" if "q \<noteq> p" "q \<noteq> k" for q using n that by (simp add: dir_items_def)
  show "c \<noteq> k" if "is_dir fs q" "c \<in> set (dir_items fs q)" for q c
    using wf_child_ok [OF wf that] n by (auto simp: child_ok_def)
  show "child_ok fs' p k" using k0 n by (simp add: child_ok_def)
qed

lemma new_leaf_wf:
  assumes wf: "fs_wf fs" and new: "new_leaf fs fs' p k nm"
  shows "fs_wf fs'"
proof (rule wfI)
  note n = new [unfolded new_leaf_def] and nf = new_leaf_facts [OF wf new]
  note md = node_meta_eqD [OF nf(3)]
  show "is_dir fs' 0" "n_parent (fs_nodes fs' 0) = None" using wf_root [OF wf] nf(2,4) md(3) by auto
  show "dir_ok fs' q" if q: "is_dir fs' q" for q
  proof -
    consider "q = k" | "q = p" | "q \<noteq> k" "q \<noteq> p" by blast
    then show ?thesis
    proof cases
      case 1
      then show ?thesis using n nf(5) by (simp add: dir_ok_def sorted_dir_def dir_names_def)
    next
      case 2
      have p: "is_dir fs p" using n by blast
      have "child_ok fs' p c" if "c \<in> set (dir_items fs p)" for c
        using wf_child_ok [OF wf p that] child_ok_meta [OF nf(3) [OF nf(7) [OF p that]]] by simp
      then show ?thesis using 2 n nf(8) by (auto simp: dir_ok_def)
    next
      case 3
      then have qd: "is_dir fs q" using q nf(4) by simp
      then have "dir_ok fs q" using wf by (simp add: fs_wf_def)
      then show ?thesis using dir_ok_same [of fs q fs'] n 3 nf(3) nf(7) [OF qd] by blast
    qed
  qed
  show "linked fs' i" if i: "0 < i" "i < COURSE_FS_MAX_NODES" "n_used (fs_nodes fs' i)" for i
  proof (cases "i = k")
    case True
    then show ?thesis using n nf(1,4) by (auto simp: linked_def)
  next
    case False
    then have "n_used (fs_nodes fs i)" using md(1) i(3) by simp
    then obtain q where q: "n_parent (fs_nodes fs i) = Some q" "is_dir fs q" "i \<in> set (dir_items fs q)"
      using wf_linked [OF wf i(1,2)] by blast
    have "q \<noteq> k" using q(2) n by (auto simp: is_dir_def)
    then show ?thesis using q nf(4) md(3) [OF False] n nf(6) by (cases "q = p") (auto simp: linked_def)
  qed
  show "n_size (fs_nodes fs' i) \<le> COURSE_FS_MAX_DATA"
    if "i < COURSE_FS_MAX_NODES" "n_used (fs_nodes fs' i)" "\<not> n_is_dir (fs_nodes fs' i)" for i
    using that md [of i] n wf by (cases "i = k") (auto simp: fs_wf_def)
qed

lemma new_leaf_child:
  assumes wf: "fs_wf fs" and new: "new_leaf fs fs' p k nm" and q: "q \<noteq> k"
  shows "child fs' q x = (if q = p \<and> x = nm then Some k else child fs q x)"
proof -
  note n = new [unfolded new_leaf_def] and nf = new_leaf_facts [OF wf new]
  note md = node_meta_eqD [OF nf(3)] and ch = child_Some_iff [OF new_leaf_wf [OF wf new]] child_Some_iff [OF wf]
  show ?thesis
  proof (cases "q = p \<and> x = nm")
    case True
    then show ?thesis using ch(1) n nf(4) [OF q] by auto
  next
    case False
    have "child fs' q x = Some c \<longleftrightarrow> child fs q x = Some c" for c
    proof (cases "is_dir fs q")
      case False
      then show ?thesis using nf(4) [OF q] by (simp add: child_def)
    next
      case True
      have "n_name (fs_nodes fs' c) = n_name (fs_nodes fs c)" if "c \<in> set (dir_items fs q)"
        using md(4) nf(7) [OF True that] by simp
      then show ?thesis
        using True nf(4) [OF q] False nf(6) [OF _ q] n nf(7) [OF True] unfolding ch by (cases "q = p") auto
    qed
    then show ?thesis using False by (metis not_Some_eq)
  qed
qed

lemma new_leaf_walk:
  assumes wf: "fs_wf fs" and new: "new_leaf fs fs' p k nm" and ps: "walk fs 0 ps = Some p"
  shows "walk fs' 0 ms = (if ms = ps @ [nm] then Some k else walk fs 0 ms)" "walk fs 0 ms \<noteq> Some k"
    "walk fs 0 (ps @ [nm]) = None"
proof -
  note n = new [unfolded new_leaf_def] and nf = new_leaf_facts [OF wf new]
  have unused: "walk fs 0 ms \<noteq> Some k" for ms using walk_used(2) [OF wf] n by blast
  have leaf: "child fs k x = None" "child fs' k x = None" for x using n nf(5) by (simp_all add: child_def is_dir_def)
  show none: "walk fs 0 (ps @ [nm]) = None" using n ps by (simp add: walk_snoc)
  show "walk fs' 0 ms = (if ms = ps @ [nm] then Some k else walk fs 0 ms)"
    by (rule walk_change [OF wf ps new_leaf_child [OF wf new] leaf]) (use none unused in auto)
  show "walk fs 0 ms \<noteq> Some k" by (rule unused)
qed

lemma new_leaf_abs:
  assumes wf: "fs_wf fs" and new: "new_leaf fs fs' p k nm" and ps: "walk fs 0 ps = Some p" and d: "fs_data fs' = fs_data fs"
  shows "fs_abs fs' = (fs_abs fs)(ps @ [nm] \<mapsto> entry_of fs' k)"
proof -
  note walks = new_leaf_walk [OF wf new ps]
  have "entry_of fs' c = entry_of fs c" if "c \<noteq> k" for c
    by (rule entry_of_meta [OF new_leaf_facts(3) [OF wf new that] d])
  from fs_abs_change [OF walks(1) this] walks(2) show ?thesis by simp
qed

lemma new_leaf_no_orphans:
  assumes wf: "fs_wf fs" and new: "new_leaf fs fs' p k nm" and ps: "walk fs 0 ps = Some p" and no: "no_orphans fs"
  shows "no_orphans fs'"
  unfolding no_orphans_def
proof (intro allI impI)
  note walks = new_leaf_walk [OF wf new ps]
  fix i assume i: "i < COURSE_FS_MAX_NODES" "n_used (fs_nodes fs' i)"
  show "\<exists>ns. walk fs' 0 ns = Some i"
  proof (cases "i = k")
    case True
    then show ?thesis using walks(1) by auto
  next
    case False
    then have "n_used (fs_nodes fs i)" using i(2) node_meta_eqD(1) [OF new_leaf_facts(3) [OF wf new False]] by simp
    then obtain ns where ns: "walk fs 0 ns = Some i" using no i(1) by (auto simp: no_orphans_def)
    then have "walk fs' 0 ns = Some i" using walks(1,3) by auto
    then show ?thesis by blast
  qed
qed

subsection \<open>A removed leaf\<close>

text \<open>Node \<open>k\<close>, a child of the directory \<open>p\<close> and the parent of none, is now free; nothing else changed.\<close>

definition gone_leaf :: "course_fs \<Rightarrow> course_fs \<Rightarrow> nat \<Rightarrow> nat \<Rightarrow> bool" where
  "gone_leaf fs fs' p k \<longleftrightarrow>
     is_dir fs p \<and> k \<in> set (dir_items fs p) \<and>
     (\<forall>i<COURSE_FS_MAX_NODES. n_used (fs_nodes fs i) \<longrightarrow> n_parent (fs_nodes fs i) \<noteq> Some k) \<and>
     (\<forall>i. i \<noteq> p \<and> i \<noteq> k \<longrightarrow> fs_nodes fs' i = fs_nodes fs i) \<and> meta (fs_nodes fs' p) = meta (fs_nodes fs p) \<and>
     dir_items fs' p = remove1 k (dir_items fs p) \<and> sorted_dir fs' p \<and> \<not> n_used (fs_nodes fs' k)"

lemma gone_leaf_facts:
  assumes wf: "fs_wf fs" and gone: "gone_leaf fs fs' p k"
  shows "k \<noteq> p" "k \<noteq> 0" "\<And>i. i \<noteq> k \<Longrightarrow> meta (fs_nodes fs' i) = meta (fs_nodes fs i)" "\<not> is_dir fs' k"
    "\<And>q. q \<noteq> k \<Longrightarrow> is_dir fs' q = is_dir fs q" "set (dir_items fs' p) = set (dir_items fs p) - {k}"
    "\<And>q. q \<noteq> p \<Longrightarrow> q \<noteq> k \<Longrightarrow> dir_items fs' q = dir_items fs q"
    "\<And>q. is_dir fs q \<Longrightarrow> k \<in> set (dir_items fs q) \<Longrightarrow> q = p" "child fs k x = None"
proof -
  note g = gone [unfolded gone_leaf_def]
  have p: "is_dir fs p" and k: "k \<in> set (dir_items fs p)" using g by blast+
  have kok: "child_ok fs p k" by (rule wf_child_ok [OF wf p k])
  then show "k \<noteq> p" "k \<noteq> 0" using g by (auto simp: child_ok_def)
  show meta: "meta (fs_nodes fs' i) = meta (fs_nodes fs i)" if "i \<noteq> k" for i
    using that g by (cases "i = p") auto
  show "\<not> is_dir fs' k" using g by (simp add: is_dir_def)
  show "is_dir fs' q = is_dir fs q" if "q \<noteq> k" for q using node_meta_eqD [OF meta [OF that]] by (simp add: is_dir_def)
  have "distinct (dir_items fs p)" using sorted_dir_distinct wf_dir [OF wf p] by (simp add: sorted_dir_def)
  then show "set (dir_items fs' p) = set (dir_items fs p) - {k}" using g set_remove1_eq by metis
  show "dir_items fs' q = dir_items fs q" if "q \<noteq> p" "q \<noteq> k" for q using g that by (simp add: dir_items_def)
  show "q = p" if "is_dir fs q" "k \<in> set (dir_items fs q)" for q
    using wf_child_ok [OF wf that] kok by (simp add: child_ok_def)
  show "child fs k x = None"
  proof (cases "child fs k x")
    case (Some c)
    then have "child_ok fs k c" by (rule child_facts(4) [OF wf])
    then show ?thesis using g by (auto simp: child_ok_def)
  qed simp
qed

lemma gone_leaf_wf:
  assumes wf: "fs_wf fs" and gone: "gone_leaf fs fs' p k"
  shows "fs_wf fs'"
proof (rule wfI)
  note g = gone [unfolded gone_leaf_def] and gf = gone_leaf_facts [OF wf gone]
  note md = node_meta_eqD [OF gf(3)]
  have p: "is_dir fs p" using g by blast
  show "is_dir fs' 0" "n_parent (fs_nodes fs' 0) = None" using wf_root [OF wf] gf(2,5) md(3) by auto
  show "dir_ok fs' q" if q: "is_dir fs' q" for q
  proof (cases "q = p")
    case True
    have "child_ok fs' p c" if "c \<in> set (dir_items fs p)" "c \<noteq> k" for c
      using wf_child_ok [OF wf p that(1)] child_ok_meta [OF gf(3) [OF that(2)]] by simp
    then show ?thesis using True g gf(6) by (auto simp: dir_ok_def)
  next
    case False
    have qk: "q \<noteq> k" using q gf(4) by auto
    then have qd: "is_dir fs q" using q gf(5) by simp
    then have "dir_ok fs q" using wf by (simp add: fs_wf_def)
    moreover have "meta (fs_nodes fs' c) = meta (fs_nodes fs c)" if "c \<in> set (dir_items fs q)" for c
      using gf(3) [of c] gf(8) [OF qd] False that by auto
    moreover have "fs_nodes fs' q = fs_nodes fs q" using g False qk by blast
    ultimately show ?thesis using dir_ok_same by blast
  qed
  show "linked fs' i" if i: "0 < i" "i < COURSE_FS_MAX_NODES" "n_used (fs_nodes fs' i)" for i
  proof -
    have ik: "i \<noteq> k" using i g by auto
    then have u: "n_used (fs_nodes fs i)" using md(1) i(3) by simp
    then obtain q where q: "n_parent (fs_nodes fs i) = Some q" "is_dir fs q" "i \<in> set (dir_items fs q)"
      using wf_linked [OF wf i(1,2)] by blast
    then have "q \<noteq> k" using g i(2) u by auto
    then show ?thesis using q gf(5,6,7) md(3) [OF ik] ik by (cases "q = p") (auto simp: linked_def)
  qed
  show "n_size (fs_nodes fs' i) \<le> COURSE_FS_MAX_DATA"
    if "i < COURSE_FS_MAX_NODES" "n_used (fs_nodes fs' i)" "\<not> n_is_dir (fs_nodes fs' i)" for i
    using that md [of i] g wf by (cases "i = k") (auto simp: fs_wf_def)
qed

lemma gone_leaf_child:
  assumes wf: "fs_wf fs" and gone: "gone_leaf fs fs' p k" and q: "q \<noteq> k"
  shows "child fs' q x = (if q = p \<and> x = n_name (fs_nodes fs k) then None else child fs q x)"
proof -
  note g = gone [unfolded gone_leaf_def] and gf = gone_leaf_facts [OF wf gone]
  note md = node_meta_eqD [OF gf(3)] and ch = child_Some_iff [OF gone_leaf_wf [OF wf gone]] child_Some_iff [OF wf]
  have "child fs' q x = Some c \<longleftrightarrow> child fs q x = Some c \<and> c \<noteq> k" for c
  proof (cases "is_dir fs q")
    case False
    then show ?thesis using gf(5) [OF q] by (simp add: child_def)
  next
    case True
    have mem: "c \<in> set (dir_items fs' q) \<longleftrightarrow> c \<in> set (dir_items fs q) \<and> c \<noteq> k"
      using gf(6) gf(8) [OF True] gf(7) [OF _ q] by (cases "q = p") auto
    show ?thesis unfolding ch mem using True gf(5) [OF q] md(4) [of c] by fastforce
  qed
  moreover have "child fs q x = Some k \<longleftrightarrow> q = p \<and> x = n_name (fs_nodes fs k)"
    unfolding ch using gf(8) g by blast
  ultimately show ?thesis by (metis not_Some_eq)
qed

lemma gone_leaf_walk:
  assumes wf: "fs_wf fs" and gone: "gone_leaf fs fs' p k" and ns: "walk fs 0 ns = Some k"
  shows "walk fs' 0 ms = (if ms = ns then None else walk fs 0 ms)"
proof -
  note g = gone [unfolded gone_leaf_def] and gf = gone_leaf_facts [OF wf gone]
  obtain ps nm where snoc: "ns = ps @ [nm]" using walk_used(3) [OF wf ns] gf(2) by (cases ns rule: rev_exhaust) auto
  then obtain q where q: "walk fs 0 ps = Some q" "child fs q nm = Some k" using ns by (auto simp: walk_snoc split: option.splits)
  then have qp: "q = p" "n_name (fs_nodes fs k) = nm" using child_facts [OF wf q(2)] gf(8) by auto
  have leaf: "child fs k x = None" "child fs' k x = None" for x
    using gone_leaf_facts(9) [OF wf gone] gf(4) by (simp_all add: child_def)
  have edge: "child fs' q x = (if q = p \<and> x = nm then None else child fs q x)" if "q \<noteq> k" for q x
    using gone_leaf_child [OF wf gone that] qp(2) by simp
  have ps: "walk fs 0 ps = Some p" using q qp by simp
  have "walk fs' 0 ms = (if ms = ps @ [nm] then None else walk fs 0 ms)"
    by (rule walk_change [OF wf ps edge leaf]) (use ns snoc in auto)
  then show ?thesis by (simp add: snoc)
qed

lemma gone_leaf_abs:
  assumes wf: "fs_wf fs" and gone: "gone_leaf fs fs' p k" and ns: "walk fs 0 ns = Some k" and d: "fs_data fs' = fs_data fs"
  shows "fs_abs fs' = (fs_abs fs)(ns := None)"
proof -
  have "entry_of fs' c = entry_of fs c" if "c \<noteq> k" for c
    by (rule entry_of_meta [OF gone_leaf_facts(3) [OF wf gone that] d])
  from fs_abs_change [OF gone_leaf_walk [OF wf gone ns] this] show ?thesis using walk_inj [OF wf _ ns] by auto
qed

lemma gone_leaf_no_orphans:
  assumes wf: "fs_wf fs" and gone: "gone_leaf fs fs' p k" and ns: "walk fs 0 ns = Some k" and no: "no_orphans fs"
  shows "no_orphans fs'"
  unfolding no_orphans_def
proof (intro allI impI)
  fix i assume i: "i < COURSE_FS_MAX_NODES" "n_used (fs_nodes fs' i)"
  then have ik: "i \<noteq> k" using gone by (auto simp: gone_leaf_def)
  then have "n_used (fs_nodes fs i)" using i(2) node_meta_eqD(1) [OF gone_leaf_facts(3) [OF wf gone ik]] by simp
  then obtain ms where ms: "walk fs 0 ms = Some i" using no i(1) by (auto simp: no_orphans_def)
  then have "walk fs' 0 ms = Some i" using gone_leaf_walk [OF wf gone ns, of ms] ns ik by auto
  then show "\<exists>ns. walk fs' 0 ns = Some i" by blast
qed

end
