(* ===== verification/FsSpec.thy ===== *)
theory FsSpec
  imports FsEdges
begin

text \<open>
  The operations on the map from paths to entries that specify \<open>course_fs.c\<close>, and creation: the code
  creates exactly when the specification says so, and changes the map at the created path only.
\<close>

subsection \<open>The abstract operations\<close>

definition lookup_tree :: "tree \<Rightarrow> cstr option \<Rightarrow> entry option" where
  "lookup_tree m path =
     (if absolute path then
        case m (names_of path) of Some (File bs) \<Rightarrow> if wants_dir path then None else Some (File bs) | e \<Rightarrow> e
      else None)"

definition creatable :: "tree \<Rightarrow> cstr option \<Rightarrow> bool" where
  "creatable m path \<longleftrightarrow> absolute path \<and> \<not> wants_dir path \<and> names_of path \<noteq> [] \<and>
     m (butlast (names_of path)) = Some Dir \<and> m (names_of path) = None \<and> length (last (names_of path)) < COURSE_FS_MAX_NAME"

definition splice :: "u8 list \<Rightarrow> nat \<Rightarrow> u8 list \<Rightarrow> u8 list" where
  "splice bs off d = take off (bs @ replicate (off - length bs) 0) @ d @ drop (off + length d) bs"

lemma lookup_node:
  assumes "fs_wf fs"
  shows "lookup_tree (fs_abs fs) path = map_option (entry_of fs) (node_at fs path)"
  by (auto simp: lookup_tree_def node_at_def fs_abs_def entry_of_def split: option.split)

lemma path_names_ok: "n \<in> set (path_names s) \<Longrightarrow> n \<noteq> [] \<and> CHR ''/'' \<notin> set n"
proof -
  have "CHR ''/'' \<notin> set n" if "n \<in> set (split_slash s)" for n
    using that
  proof (induction s arbitrary: n)
    case Nil
    then show ?case by simp
  next
    case (Cons c cs)
    show ?case
    proof (cases "c = CHR ''/''")
      case True
      then show ?thesis using Cons by auto
    next
      case False
      show ?thesis
      proof (cases "split_slash cs")
        case Nil
        then show ?thesis using Cons.prems False by auto
      next
        case (Cons x xs)
        then have "n = c # x \<or> n \<in> set xs" using Cons.prems False by auto
        then show ?thesis using Cons Cons.IH [of x] Cons.IH [of n] False by auto
      qed
    qed
  qed
  then show "n \<in> set (path_names s) \<Longrightarrow> n \<noteq> [] \<and> CHR ''/'' \<notin> set n" by (auto simp: path_names_def)
qed

lemma can_make_iff:
  assumes "fs_wf fs"
  shows "(\<exists>p nm. can_make fs path p nm \<and> length nm < COURSE_FS_MAX_NAME) \<longleftrightarrow> creatable (fs_abs fs) path"
  using fs_abs_dir [OF assms] by (auto simp: can_make_def creatable_def fs_abs_def)

lemma can_make_name:
  assumes "can_make fs path p nm"
  shows "nm \<noteq> []" "CHR ''/'' \<notin> set nm" "names_of path = butlast (names_of path) @ [nm]"
proof -
  have "nm \<in> set (names_of path)" using assms by (auto simp: can_make_def)
  then show "nm \<noteq> []" "CHR ''/'' \<notin> set nm" using path_names_ok by (auto simp: names_of_def split: option.splits)
  show "names_of path = butlast (names_of path) @ [nm]" using assms by (auto simp: can_make_def)
qed

subsection \<open>Creation\<close>

lemma alloc_same_store: "same_store fs fs' \<Longrightarrow> alloc_node fs' = alloc_node fs"
  by (simp add: alloc_node_def same_store_def)

lemma create_fails:
  assumes wf: "fs_wf fs"
    and no: "\<And>p nm k. can_make fs path p nm \<Longrightarrow> length nm < COURSE_FS_MAX_NAME \<Longrightarrow> alloc_node fs \<noteq> Some k"
  shows "\<exists>fs1. course_fs_create fs path directory = (False, fs1) \<and> same_store fs fs1"
proof -
  obtain fs1 where r: "resolve_path fs path = (resolved_path fs path, fs1)" and s: "same_store fs fs1"
    using resolve_path_correct [OF wf] by blast
  let ?r = "resolved_path fs path"
  show ?thesis
  proof (cases "\<exists>p nm. r_node ?r = None \<and> r_parent ?r = Some p \<and> r_leaf ?r = Some nm")
    case True
    then obtain p nm where f: "r_node ?r = None" "r_parent ?r = Some p" "r_leaf ?r = Some nm" by blast
    then have "can_make fs path p nm" using resolved_make [OF wf] by blast
    then have "length nm < COURSE_FS_MAX_NAME \<Longrightarrow> alloc_node fs1 = None"
      using no alloc_same_store [OF s] by (metis option.exhaust)
    then show ?thesis using r s f by (auto simp: course_fs_create_def)
  next
    case False
    then show ?thesis using r s by (auto simp: course_fs_create_def split: option.splits)
  qed
qed

lemma room_for_child:
  assumes wf: "fs_wf fs" and p: "is_dir fs p" and k: "k < COURSE_FS_MAX_NODES" "\<not> n_used (fs_nodes fs k)"
  shows "n_dir_index_count (fs_nodes fs p) < 160"
proof -
  have "c < 160 \<and> c \<noteq> k" if "c \<in> set (dir_items fs p)" for c
    using wf_child_ok [OF wf p that] k by (auto simp: child_ok_def)
  then have "set (dir_items fs p) \<subset> {..<160}" using k(1) by auto
  then have "card (set (dir_items fs p)) < card {..<160::nat}" by (intro psubset_card_mono) auto
  moreover have "distinct (dir_items fs p)" using sorted_dir_distinct wf_dir [OF wf p] by (simp add: sorted_dir_def)
  ultimately show ?thesis using distinct_card by fastforce
qed

lemma create_succeeds:
  assumes wf: "fs_wf fs" and can: "can_make fs path p nm" "length nm < COURSE_FS_MAX_NAME" and al: "alloc_node fs = Some k"
  shows "\<exists>fs'. course_fs_create fs path directory = (True, fs') \<and> fs_wf fs' \<and>
    fs_abs fs' = (fs_abs fs)(names_of path \<mapsto> (if directory then Dir else File [])) \<and> (no_orphans fs \<longrightarrow> no_orphans fs')"
proof -
  obtain fs1 where r: "resolve_path fs path = (resolved_path fs path, fs1)" and s: "same_store fs fs1"
    using resolve_path_correct [OF wf] by blast
  have res: "r_node (resolved_path fs path) = None" "r_parent (resolved_path fs path) = Some p"
    "r_leaf (resolved_path fs path) = Some nm" using resolved_make [OF wf, of path p nm] can by auto
  note nm = can_make_name [OF can(1)]
  have wf1: "fs_wf fs1" using fs_wf_same_store [OF s] wf by simp
  have nodes1: "fs_nodes fs1 = fs_nodes fs" "fs_data fs1 = fs_data fs" using s by (simp_all add: same_store_def)
  have k: "k < COURSE_FS_MAX_NODES" "\<not> n_used (fs_nodes fs k)"
    using al by (auto simp: alloc_node_def first_index_Some_iff)
  have p: "walk fs 0 (butlast (names_of path)) = Some p" "is_dir fs p" "walk fs 0 (names_of path) = None"
    using can by (auto simp: can_make_def)
  have ch: "child fs p nm = None" using walk_snoc [of fs 0 "butlast (names_of path)" nm] nm(3) p by simp
  have kp: "k \<noteq> p" using k p(2) by (auto simp: is_dir_def)
  define h where "h = (\<lambda>node::fs_node. node\<lparr>n_used := True, n_is_dir := directory, n_parent := Some p,
                       n_data_offset := k * COURSE_FS_MAX_DATA, n_data_capacity := COURSE_FS_MAX_DATA, n_size := 0,
                       n_dir_index_count := 0, n_name := copy_name nm\<rparr>)"
  define fs2 where "fs2 = upd_node fs1 k h"
  have cn: "copy_name nm = nm" using can(2) by (simp add: copy_name_def)
  have same2: "fs_nodes fs2 i = fs_nodes fs i" if "i \<noteq> k" for i using that by (simp add: fs2_def fs_simps nodes1)
  have nk: "c \<noteq> k" if "c \<in> set (dir_items fs p)" for c
    using wf_child_ok [OF wf p(2) that] k by (auto simp: child_ok_def)
  have items2: "dir_items fs2 p = dir_items fs p" using same2 kp by (simp add: dir_items_def)
  have names2: "dir_names fs2 p = dir_names fs p"
    by (rule dir_names_core [OF items2]) (use same2 nk in auto)
  have sd: "sorted_dir fs p" by (rule wf_dir [OF wf p(2)])
  then have sd2: "is_dir fs2 p" "sorted_dir fs2 p"
    using p(2) names2 same2 [OF kp [symmetric]] by (simp_all add: is_dir_def sorted_dir_def)
  have "n_dir_index_count (fs_nodes fs p) < 160" by (rule room_for_child [OF wf p(2) k])
  then have room: "n_dir_index_count (fs_nodes fs2 p) < 160"
    using same2 [OF kp [symmetric]] by simp
  have node2: "n_used (fs_nodes fs2 k)" "n_name (fs_nodes fs2 k) = nm" by (simp_all add: fs2_def fs_simps h_def cn)
  have "n_name (fs_nodes fs2 k) \<notin> set (dir_names fs2 p)" using child_None_iff [OF wf p(2)] ch by (simp add: node2 names2)
  from insert_child_correct [OF sd2 room k(1) node2(1) this kp] obtain fs3 j where
    i3: "insert_child_index fs2 p k = (True, fs3)" and d3: "fs_data fs3 = fs_data fs2"
    and o3: "\<And>i. i \<noteq> p \<Longrightarrow> fs_nodes fs3 i = fs_nodes fs2 i"
    and j3: "dir_items fs3 p = take j (dir_items fs2 p) @ k # drop j (dir_items fs2 p)" "sorted_dir fs3 p"
    and m3: "meta (fs_nodes fs3 p) = meta (fs_nodes fs2 p)"
    using sd2(1) by (auto simp: meta_def is_dir_def)
  define fs' where "fs' = upd_counters fs3 (\<lambda>c. if directory then c\<lparr>dir_creates := dir_creates c + 1\<rparr>
                                                        else c\<lparr>file_creates := file_creates c + 1\<rparr>)"
  have run: "course_fs_create fs path directory = (True, fs')"
    using nm(1) can(2) alloc_same_store [OF s] al i3
    by (simp add: course_fs_create_def r res fs'_def h_def fs2_def)
  have s3: "same_store fs3 fs'" by (simp add: same_store_def fs'_def fs_simps)
  have new: "new_leaf fs fs3 p k nm"
    unfolding new_leaf_def
  proof (intro conjI allI impI)
    show "set (dir_items fs3 p) = insert k (set (dir_items fs p))"
      unfolding j3(1) items2 by (metis Un_insert_right append_take_drop_id list.simps(15) set_append)
  qed (use p(2) k o3 [OF kp] o3 same2 m3 kp j3(2) nm(1,2) can(2) ch in \<open>simp_all add: fs2_def fs_simps h_def cn\<close>)
  have dir: "n_is_dir (fs_nodes fs3 k) = directory" "n_size (fs_nodes fs3 k) = 0"
    using o3 [OF kp] by (simp_all add: fs2_def fs_simps h_def cn)
  have "fs_data fs3 = fs_data fs" by (simp add: d3 fs2_def fs_simps nodes1)
  from new_leaf_abs [OF wf new p(1) this] have "fs_abs fs3 = (fs_abs fs)(names_of path \<mapsto> entry_of fs3 k)"
    using nm(3) by simp
  then have "fs_abs fs' = (fs_abs fs)(names_of path \<mapsto> (if directory then Dir else File []))"
    using fs_abs_same_store [OF s3] dir by (simp add: entry_of_def)
  moreover have "fs_wf fs'" using fs_wf_same_store [OF s3] new_leaf_wf [OF wf new] by simp
  moreover have "no_orphans fs \<longrightarrow> no_orphans fs'"
    using new_leaf_no_orphans [OF wf new p(1)] no_orphans_same_store [OF s3] by simp
  ultimately show ?thesis using run by blast
qed

end
