(* ===== verification/FsStore.thy ===== *)
theory FsStore
  imports FsSpec
begin

text \<open>
  Removal, writing, reading, formatting and listing: each is one operation on the map from paths to
  entries, with the exact condition under which it succeeds.
\<close>

subsection \<open>Removal\<close>

lemma remove_node:
  fixes h :: "fs_stats \<Rightarrow> fs_stats"
  assumes wf: "fs_wf fs" and s: "same_store fs fs1" and ns: "walk fs 0 ns = Some k" and k0: "k \<noteq> 0"
    and leaf: "\<And>i. i < COURSE_FS_MAX_NODES \<Longrightarrow> n_used (fs_nodes fs i) \<Longrightarrow> n_parent (fs_nodes fs i) \<noteq> Some k"
  defines "fs' \<equiv> upd_counters (upd_node (remove_child_index fs1 (n_parent (fs_nodes fs1 k)) k) k (\<lambda>node. node\<lparr>n_used := False\<rparr>)) h"
  shows "fs_wf fs'" "fs_abs fs' = (fs_abs fs)(ns := None)" "no_orphans fs \<Longrightarrow> no_orphans fs'"
proof -
  have nodes1: "fs_nodes fs1 = fs_nodes fs" "fs_data fs1 = fs_data fs" using s by (simp_all add: same_store_def)
  have k: "0 < k" "k < COURSE_FS_MAX_NODES" "n_used (fs_nodes fs k)" using walk_used [OF wf ns] k0 by auto
  then obtain p where p: "n_parent (fs_nodes fs k) = Some p" "is_dir fs p" "k \<in> set (dir_items fs p)"
    using wf_linked [OF wf] by blast
  have p1: "is_dir fs1 p" "sorted_dir fs1 p" "k \<in> set (dir_items fs1 p)"
    using p wf_dir [OF wf p(2)] by (simp_all add: is_dir_def sorted_dir_def dir_items_def dir_names_def nodes1)
  from remove_child_correct [OF p1] obtain fs2 where r2: "remove_child_index fs1 (Some p) k = fs2" "fs_data fs2 = fs_data fs1"
    "\<And>i. i \<noteq> p \<Longrightarrow> fs_nodes fs2 i = fs_nodes fs1 i" "dir_items fs2 p = remove1 k (dir_items fs1 p)" "sorted_dir fs2 p"
    "meta (fs_nodes fs2 p) = meta (fs_nodes fs1 p)"
    using p1(1) by (auto simp: meta_def is_dir_def)
  have kp: "k \<noteq> p" using leaf [OF k(2,3)] p(1) by auto
  have fs': "fs' = upd_counters (upd_node fs2 k (\<lambda>node. node\<lparr>n_used := False\<rparr>)) h" by (simp add: fs'_def nodes1 p(1) r2(1))
  have n': "fs_nodes fs' i = fs_nodes fs2 i" if "i \<noteq> k" for i using that by (simp add: fs' fs_simps)
  have items': "dir_items fs' p = dir_items fs2 p" using n' kp by (simp add: dir_items_def)
  have "dir_names fs' p = dir_names fs2 p"
    by (rule dir_names_core [OF items']) (auto simp: fs' fs_simps)
  then have "sorted_dir fs' p" using r2(5) n' kp by (simp add: sorted_dir_def)
  moreover have "dir_items fs1 p = dir_items fs p" by (simp add: dir_items_def nodes1)
  ultimately have gone: "gone_leaf fs fs' p k"
    using p leaf n' r2 kp items' by (auto simp: gone_leaf_def nodes1 fs' fs_simps)
  show "fs_wf fs'" by (rule gone_leaf_wf [OF wf gone])
  have "fs_data fs' = fs_data fs" by (simp add: fs' fs_simps r2(2) nodes1)
  then show "fs_abs fs' = (fs_abs fs)(ns := None)" by (rule gone_leaf_abs [OF wf gone ns])
  show "no_orphans fs \<Longrightarrow> no_orphans fs'" by (rule gone_leaf_no_orphans [OF wf gone ns])
qed

lemma file_has_no_children:
  assumes "fs_wf fs" "\<not> n_is_dir (fs_nodes fs k)" "i < COURSE_FS_MAX_NODES" "n_used (fs_nodes fs i)"
  shows "n_parent (fs_nodes fs i) \<noteq> Some k"
proof (cases "i = 0")
  case True
  then show ?thesis using wf_root [OF assms(1)] by simp
next
  case False
  then obtain q where "n_parent (fs_nodes fs i) = Some q" "is_dir fs q" using wf_linked [OF assms(1), of i] assms(3,4) by auto
  then show ?thesis using assms(2) by (auto simp: is_dir_def)
qed

lemma node_has_children_iff:
  assumes "fs_wf fs" "walk fs 0 ns = Some k" "n_is_dir (fs_nodes fs k)"
  shows "node_has_children fs k \<longleftrightarrow> (\<exists>n. fs_abs fs (ns @ [n]) \<noteq> None)"
proof
  assume "node_has_children fs k"
  then obtain i where i: "i < COURSE_FS_MAX_NODES" "n_used (fs_nodes fs i)" "n_parent (fs_nodes fs i) = Some k"
    by (auto simp: node_has_children_def list_ex_iff)
  then have "i \<noteq> 0" using wf_root [OF assms(1)] by (intro notI) simp
  then obtain q where "n_parent (fs_nodes fs i) = Some q" "is_dir fs q" "i \<in> set (dir_items fs q)"
    using wf_linked [OF assms(1), of i] i by auto
  then have "child fs k (n_name (fs_nodes fs i)) = Some i" using i(3) child_Some_iff [OF assms(1)] by simp
  then show "\<exists>n. fs_abs fs (ns @ [n]) \<noteq> None"
    using assms(2) by (intro exI [of _ "n_name (fs_nodes fs i)"]) (simp add: fs_abs_def walk_snoc)
next
  assume "\<exists>n. fs_abs fs (ns @ [n]) \<noteq> None"
  then obtain n c where "child fs k n = Some c" using assms(2) by (auto simp: fs_abs_def walk_snoc)
  then have "child_ok fs k c" by (rule child_facts(4) [OF assms(1)])
  then show "node_has_children fs k" by (auto simp: node_has_children_def list_ex_iff child_ok_def)
qed

lemma lookup_dir:
  assumes "fs_wf fs"
  shows "lookup_tree (fs_abs fs) path = Some Dir \<longleftrightarrow>
    (\<exists>k. node_at fs path = Some k \<and> walk fs 0 (names_of path) = Some k \<and> n_is_dir (fs_nodes fs k))"
  unfolding lookup_node [OF assms] by (auto simp: node_at_def entry_of_def split: option.splits if_splits)

lemma lookup_file:
  assumes "fs_wf fs"
  shows "lookup_tree (fs_abs fs) path = Some (File bs) \<longleftrightarrow>
    (\<exists>k. node_at fs path = Some k \<and> walk fs 0 (names_of path) = Some k \<and> \<not> n_is_dir (fs_nodes fs k) \<and>
         bs = arr_list (fs_data fs k) (n_size (fs_nodes fs k)))"
  unfolding lookup_node [OF assms] by (auto simp: node_at_def entry_of_def split: option.splits if_splits)

lemma file_not_root: "fs_wf fs \<Longrightarrow> \<not> n_is_dir (fs_nodes fs k) \<Longrightarrow> k \<noteq> 0"
  using wf_root(1) by (metis is_dir_def)

lemma unlink_correct:
  assumes wf: "fs_wf fs"
  shows "\<exists>ok fs'. course_fs_unlink fs path = (ok, fs') \<and> fs_wf fs' \<and>
     (ok \<longleftrightarrow> (\<exists>bs. lookup_tree (fs_abs fs) path = Some (File bs))) \<and>
     fs_abs fs' = (if ok then (fs_abs fs)(names_of path := None) else fs_abs fs) \<and> (no_orphans fs \<longrightarrow> no_orphans fs')"
proof -
  obtain fs1 where r: "resolve_path fs path = (resolved_path fs path, fs1)" and s: "same_store fs fs1"
    using resolve_path_correct [OF wf] by blast
  have nodes1: "fs_nodes fs1 = fs_nodes fs" using s by (simp add: same_store_def)
  note keep = fs_wf_same_store [OF s] fs_abs_same_store [OF s] no_orphans_same_store [OF s]
  show ?thesis
  proof (cases "\<exists>bs. lookup_tree (fs_abs fs) path = Some (File bs)")
    case True
    then obtain k where k: "node_at fs path = Some k" "walk fs 0 (names_of path) = Some k" "\<not> n_is_dir (fs_nodes fs k)"
      using lookup_file [OF wf] by blast
    note rm = remove_node [OF wf s k(2) file_not_root [OF wf k(3)] file_has_no_children [OF wf k(3)]]
    show ?thesis using True k r rm file_not_root [OF wf k(3)]
      by (auto simp: course_fs_unlink_def resolved_node [OF wf] nodes1)
  next
    case False
    then have "node_at fs path = None \<or> (\<exists>k. node_at fs path = Some k \<and> n_is_dir (fs_nodes fs k))"
      unfolding lookup_node [OF wf] entry_of_def by (cases "node_at fs path") (auto split: if_splits)
    then have "course_fs_unlink fs path = (False, fs1)" using r by (auto simp: course_fs_unlink_def resolved_node [OF wf] nodes1)
    then show ?thesis using False keep wf by auto
  qed
qed

lemma rmdir_correct:
  assumes wf: "fs_wf fs"
  shows "\<exists>ok fs'. course_fs_rmdir fs path = (ok, fs') \<and> fs_wf fs' \<and>
     (ok \<longleftrightarrow> lookup_tree (fs_abs fs) path = Some Dir \<and> names_of path \<noteq> [] \<and> (\<forall>n. fs_abs fs (names_of path @ [n]) = None)) \<and>
     fs_abs fs' = (if ok then (fs_abs fs)(names_of path := None) else fs_abs fs) \<and> (no_orphans fs \<longrightarrow> no_orphans fs')"
proof -
  obtain fs1 where r: "resolve_path fs path = (resolved_path fs path, fs1)" and s: "same_store fs fs1"
    using resolve_path_correct [OF wf] by blast
  have nodes1: "fs_nodes fs1 = fs_nodes fs" using s by (simp add: same_store_def)
  then have nh: "node_has_children fs1 = node_has_children fs" by (simp add: fun_eq_iff node_has_children_def)
  note keep = fs_wf_same_store [OF s] fs_abs_same_store [OF s] no_orphans_same_store [OF s]
  show ?thesis
  proof (cases "lookup_tree (fs_abs fs) path = Some Dir")
    case True
    then obtain k where k: "node_at fs path = Some k" "walk fs 0 (names_of path) = Some k" "n_is_dir (fs_nodes fs k)"
      using lookup_dir [OF wf] by blast
    have k0: "k \<noteq> 0 \<longleftrightarrow> names_of path \<noteq> []" using walk_used(3) [OF wf k(2)] by auto
    note ch = node_has_children_iff [OF wf k(2,3)]
    show ?thesis
    proof (cases "k \<noteq> 0 \<and> \<not> node_has_children fs k")
      case ok: True
      then have leaf: "i < COURSE_FS_MAX_NODES \<Longrightarrow> n_used (fs_nodes fs i) \<Longrightarrow> n_parent (fs_nodes fs i) \<noteq> Some k" for i
        by (auto simp: node_has_children_def list_ex_iff)
      from ok have "k \<noteq> 0" by blast
      note rm = remove_node [OF wf s k(2) this leaf]
      show ?thesis using True k r rm ok k0 ch nh by (auto simp: course_fs_rmdir_def resolved_node [OF wf] nodes1)
    next
      case False
      then have "course_fs_rmdir fs path = (False, fs1)" using k r nh by (auto simp: course_fs_rmdir_def resolved_node [OF wf] nodes1)
      then show ?thesis using False k0 ch keep wf by auto
    qed
  next
    case False
    then have "node_at fs path = None \<or> (\<exists>k. node_at fs path = Some k \<and> \<not> n_is_dir (fs_nodes fs k))"
      unfolding lookup_node [OF wf] entry_of_def by (cases "node_at fs path") (auto split: if_splits)
    then have "course_fs_rmdir fs path = (False, fs1)" using r by (auto simp: course_fs_rmdir_def resolved_node [OF wf] nodes1)
    then show ?thesis using False keep wf by auto
  qed
qed

subsection \<open>Writing and reading\<close>

lemma length_splice: "length (splice bs off d) = max (length bs) (off + length d)"
  by (simp add: splice_def)

lemma nth_splice:
  assumes "i < max (length bs) (off + length d)"
  shows "splice bs off d ! i =
    (if i < off then (if i < length bs then bs ! i else 0) else if i < off + length d then d ! (i - off) else bs ! i)"
proof -
  define t where "t = take off (bs @ replicate (off - length bs) (0::u8))"
  have t: "length t = off" "\<And>j. j < off \<Longrightarrow> t ! j = (if j < length bs then bs ! j else 0)"
    by (simp_all add: t_def nth_append)
  have sp: "splice bs off d = t @ d @ drop (off + length d) bs" by (simp add: splice_def t_def)
  consider "i < off" | "off \<le> i" "i < off + length d" | "off + length d \<le> i" "i < length bs" using assms by linarith
  then show ?thesis by cases (simp_all add: sp nth_append t less_diff_conv2)
qed

lemma splice_cells:
  assumes "cells' = copy_bytes (if off > n then zero_bytes cells n (off - n) else cells) off d"
  shows "arr_list cells' (max n (off + length d)) = splice (arr_list cells n) off d"
proof (rule nth_equalityI)
  fix i assume "i < length (arr_list cells' (max n (off + length d)))"
  then have i: "i < max n (off + length d)" by simp
  have "cells' i = (if i < off then (if i < n then cells i else 0) else if i < off + length d then d ! (i - off) else cells i)"
    by (simp add: assms copy_bytes_def zero_bytes_def arr_write_def)
  then show "arr_list cells' (max n (off + length d)) ! i = splice (arr_list cells n) off d ! i"
    using i by (simp add: nth_splice)
qed (simp add: length_splice)

text \<open>Only the bytes and the size of one file differ.\<close>

definition file_set :: "course_fs \<Rightarrow> course_fs \<Rightarrow> nat \<Rightarrow> u8 list \<Rightarrow> bool" where
  "file_set fs fs' k bs \<longleftrightarrow>
     fs_nodes fs' = (fs_nodes fs)(k := (fs_nodes fs k)\<lparr>n_size := length bs\<rparr>) \<and>
     (\<forall>i. i \<noteq> k \<longrightarrow> fs_data fs' i = fs_data fs i) \<and> arr_list (fs_data fs' k) (length bs) = bs"

lemma file_set_sel:
  assumes "file_set fs fs' k bs"
  shows "n_used (fs_nodes fs' i) = n_used (fs_nodes fs i)" "n_is_dir (fs_nodes fs' i) = n_is_dir (fs_nodes fs i)"
    "n_parent (fs_nodes fs' i) = n_parent (fs_nodes fs i)" "n_name (fs_nodes fs' i) = n_name (fs_nodes fs i)"
    "n_size (fs_nodes fs' i) = (if i = k then length bs else n_size (fs_nodes fs i))"
    "n_dir_index (fs_nodes fs' i) = n_dir_index (fs_nodes fs i)" "dir_items fs' i = dir_items fs i"
    "n_dir_index_count (fs_nodes fs' i) = n_dir_index_count (fs_nodes fs i)"
    "leaves_ok (fs_nodes fs' i) = leaves_ok (fs_nodes fs i)"
  using assms by (simp_all add: file_set_def dir_items_def leaves_ok_def)

lemma file_set_wf:
  assumes "fs_wf fs" "file_set fs fs' k bs" "length bs \<le> COURSE_FS_MAX_DATA"
  shows "fs_wf fs'"
proof -
  note sel = file_set_sel [OF assms(2)]
  have dir: "is_dir fs' q = is_dir fs q" for q by (simp add: is_dir_def sel)
  moreover have "dir_ok fs' q = dir_ok fs q" for q by (simp add: dir_ok_def sorted_dir_def dir_names_def child_ok_def sel)
  moreover have "linked fs' i = linked fs i" for i by (simp add: linked_def dir sel)
  ultimately show ?thesis using assms(1,3) by (intro wfI) (simp_all add: fs_wf_def sel)
qed

lemma file_set_walk:
  assumes "file_set fs fs' k bs"
  shows "walk fs' p ns = walk fs p ns"
proof -
  have "child fs' p x = child fs p x" for p x by (simp add: child_def is_dir_def file_set_sel [OF assms])
  then show ?thesis by (induction ns arbitrary: p) (simp_all split: option.split)
qed

lemma file_set_no_orphans: "file_set fs fs' k bs \<Longrightarrow> no_orphans fs \<Longrightarrow> no_orphans fs'"
  by (simp add: no_orphans_def file_set_walk file_set_sel)

lemma file_set_abs:
  assumes wf: "fs_wf fs" and f: "file_set fs fs' k bs" and ns: "walk fs 0 ns = Some k" "\<not> n_is_dir (fs_nodes fs k)"
  shows "fs_abs fs' = (fs_abs fs)(ns \<mapsto> File bs)"
proof -
  have "walk fs' 0 ms = (if ms = ns then Some k else walk fs 0 ms)" for ms using file_set_walk [OF f] ns by simp
  moreover have "entry_of fs' c = entry_of fs c" if "c \<noteq> k" for c
    using that f by (simp add: entry_of_def file_set_def)
  moreover have "walk fs 0 ms \<noteq> Some k" if "ms \<noteq> ns" for ms using that walk_inj [OF wf _ ns(1)] by blast
  ultimately have "fs_abs fs' = (fs_abs fs)(ns := map_option (entry_of fs') (Some k))" by (rule fs_abs_change)
  then show ?thesis using f ns(2) by (simp add: entry_of_def file_set_def)
qed

definition write_spec :: "tree \<Rightarrow> cstr option \<Rightarrow> nat \<Rightarrow> u8 list option \<Rightarrow> tree option" where
  "write_spec m path off data =
     (case (data, lookup_tree m path) of
        (Some d, Some (File bs)) \<Rightarrow>
          if off + length d \<le> COURSE_FS_MAX_DATA then Some (m(names_of path \<mapsto> File (splice bs off d))) else None
      | _ \<Rightarrow> None)"

lemma write_spec_SomeD:
  assumes "write_spec m path off data = Some m'"
  obtains d bs where "data = Some d" "lookup_tree m path = Some (File bs)" "off + length d \<le> COURSE_FS_MAX_DATA"
    "m' = m(names_of path \<mapsto> File (splice bs off d))"
  using assms by (auto simp: write_spec_def split: option.splits entry.splits if_splits)

definition read_spec :: "tree \<Rightarrow> cstr option \<Rightarrow> nat \<Rightarrow> nat \<Rightarrow> u8 list option" where
  "read_spec m path off len =
     (case lookup_tree m path of
        Some (File bs) \<Rightarrow> if off + len \<le> length bs then Some (take len (drop off bs)) else None
      | _ \<Rightarrow> None)"

lemma write_correct:
  assumes wf: "fs_wf fs"
  shows "\<exists>ok fs'. course_fs_write fs path off data = (ok, fs') \<and> fs_wf fs' \<and>
     (case write_spec (fs_abs fs) path off data of None \<Rightarrow> \<not> ok \<and> fs_abs fs' = fs_abs fs | Some m \<Rightarrow> ok \<and> fs_abs fs' = m) \<and>
     (no_orphans fs \<longrightarrow> no_orphans fs')"
proof -
  obtain fs1 where r: "resolve_path fs path = (resolved_path fs path, fs1)" and s: "same_store fs fs1"
    using resolve_path_correct [OF wf] by blast
  have nodes1: "fs_nodes fs1 = fs_nodes fs" "fs_data fs1 = fs_data fs" using s by (simp_all add: same_store_def)
  note keep = fs_wf_same_store [OF s] fs_abs_same_store [OF s] no_orphans_same_store [OF s]
  show ?thesis
  proof (cases "write_spec (fs_abs fs) path off data")
    case None
    have "course_fs_write fs path off data = (False, fs1)"
    proof (cases "node_at fs path")
      case (Some k)
      then have "data = None \<or> n_is_dir (fs_nodes fs k) \<or> (\<exists>d. data = Some d \<and> COURSE_FS_MAX_DATA < off + length d)"
        using None unfolding write_spec_def lookup_node [OF wf] by (auto simp: entry_of_def split: option.splits if_splits)
      then show ?thesis using r Some by (auto simp: course_fs_write_def resolved_node [OF wf] nodes1 split: option.split)
    qed (use r in \<open>auto simp: course_fs_write_def resolved_node [OF wf] split: option.split\<close>)
    then show ?thesis using None keep wf by auto
  next
    case (Some m)
    then obtain d bs where d: "data = Some d" "lookup_tree (fs_abs fs) path = Some (File bs)" "off + length d \<le> COURSE_FS_MAX_DATA"
      and m: "m = (fs_abs fs)(names_of path \<mapsto> File (splice bs off d))"
      by (rule write_spec_SomeD)
    obtain k where k: "node_at fs path = Some k" "walk fs 0 (names_of path) = Some k" "\<not> n_is_dir (fs_nodes fs k)"
      and bs: "bs = arr_list (fs_data fs k) (n_size (fs_nodes fs k))" using d(2) lookup_file [OF wf] by blast
    let ?n = "n_size (fs_nodes fs k)"
    have "?n \<le> COURSE_FS_MAX_DATA" using wf walk_used [OF wf k(2)] k(3) by (simp add: fs_wf_def)
    then have len: "length (splice bs off d) \<le> COURSE_FS_MAX_DATA" using d(3) by (simp add: length_splice bs)
    obtain ok fs' where w: "course_fs_write fs path off data = (ok, fs')" by (cases "course_fs_write fs path off data")
    then have "ok" "file_set fs fs' k (splice bs off d)"
      using r k d(1,3) splice_cells [OF refl, where off = off and n = ?n and cells = "fs_data fs k" and d = d]
      by (auto simp: course_fs_write_def resolved_node [OF wf] nodes1 file_set_def fs_simps length_splice bs Let_def
          split: if_splits)
    then show ?thesis using w Some m file_set_wf [OF wf _ len] file_set_abs [OF wf _ k(2,3)] file_set_no_orphans by auto
  qed
qed

lemma read_correct:
  assumes wf: "fs_wf fs"
  shows "\<exists>fs'. course_fs_read fs path off len = (read_spec (fs_abs fs) path off len, fs') \<and> same_store fs fs'"
proof -
  obtain fs1 where r: "resolve_path fs path = (resolved_path fs path, fs1)" and s: "same_store fs fs1"
    using resolve_path_correct [OF wf] by blast
  have nodes1: "fs_nodes fs1 = fs_nodes fs" "fs_data fs1 = fs_data fs" using s by (simp_all add: same_store_def)
  have cells: "read_bytes a o' n = take n (drop o' (arr_list a sz))" if "o' + n \<le> sz" for a :: "u8 carray" and o' n sz
    using that by (intro nth_equalityI) (auto simp: read_bytes_def)
  show ?thesis
  proof (cases "node_at fs path")
    case None
    then show ?thesis using r s by (simp add: course_fs_read_def resolved_node [OF wf] read_spec_def lookup_node [OF wf])
  next
    case (Some k)
    then show ?thesis using r s cells
      by (auto simp: course_fs_read_def resolved_node [OF wf] read_spec_def lookup_node [OF wf] entry_of_def nodes1
          same_store_def fs_simps)
  qed
qed

lemma fs_write_law:
  assumes "fs_wf fs" "course_fs_write fs path off data = (ok, fs')"
  shows "fs_wf fs'" "ok \<longleftrightarrow> write_spec (fs_abs fs) path off data \<noteq> None"
    "ok \<Longrightarrow> write_spec (fs_abs fs) path off data = Some (fs_abs fs')" "\<not> ok \<Longrightarrow> fs_abs fs' = fs_abs fs"
  using write_correct [OF assms(1), of path off data] assms(2) by (auto split: option.splits)

lemma fs_read_law:
  assumes "fs_wf fs" "course_fs_read fs path off len = (r, fs')"
  shows "fs_wf fs'" "r = read_spec (fs_abs fs) path off len" "fs_abs fs' = fs_abs fs"
  using read_correct [OF assms(1), of path off len] assms fs_wf_same_store fs_abs_same_store by auto

lemma create_law:
  assumes wf: "fs_wf fs" and run: "course_fs_create fs path directory = (ok, fs')"
  shows "fs_wf fs'" "ok \<longleftrightarrow> creatable (fs_abs fs) path \<and> alloc_node fs \<noteq> None"
    "fs_abs fs' = (if ok then (fs_abs fs)(names_of path \<mapsto> (if directory then Dir else File [])) else fs_abs fs)"
    "no_orphans fs \<Longrightarrow> no_orphans fs'"
proof -
  have "fs_wf fs' \<and> (ok \<longleftrightarrow> creatable (fs_abs fs) path \<and> alloc_node fs \<noteq> None) \<and>
    fs_abs fs' = (if ok then (fs_abs fs)(names_of path \<mapsto> (if directory then Dir else File [])) else fs_abs fs) \<and>
    (no_orphans fs \<longrightarrow> no_orphans fs')"
  proof (cases "creatable (fs_abs fs) path \<and> alloc_node fs \<noteq> None")
    case True
    then obtain p nm k where "can_make fs path p nm" "length nm < COURSE_FS_MAX_NAME" "alloc_node fs = Some k"
      using can_make_iff [OF wf] by blast
    then show ?thesis using create_succeeds [OF wf, of path p nm k directory] run True by auto
  next
    case False
    have no: "alloc_node fs \<noteq> Some k" if "can_make fs path p nm" "length nm < COURSE_FS_MAX_NAME" for p nm k
      using False can_make_iff [OF wf, of path] that by auto
    obtain fs1 where "course_fs_create fs path directory = (False, fs1)" "same_store fs fs1"
      using create_fails [OF wf, of path directory] no by blast
    then show ?thesis using run False wf fs_wf_same_store fs_abs_same_store no_orphans_same_store by auto
  qed
  then show "fs_wf fs'" "ok \<longleftrightarrow> creatable (fs_abs fs) path \<and> alloc_node fs \<noteq> None"
    "fs_abs fs' = (if ok then (fs_abs fs)(names_of path \<mapsto> (if directory then Dir else File [])) else fs_abs fs)"
    "no_orphans fs \<Longrightarrow> no_orphans fs'" by blast+
qed

subsection \<open>Formatting\<close>

lemma init_correct:
  "fs_wf (course_fs_init_with_storage fs storage d)" "fs_abs (course_fs_init_with_storage fs storage d) = [[] \<mapsto> Dir]"
  "no_orphans (course_fs_init_with_storage fs storage d)"
proof -
  let ?fs = "course_fs_init_with_storage fs storage d"
  have sel: "n_used (fs_nodes ?fs i) = (i = 0)" "n_dir_index_count (fs_nodes ?fs i) = 0" if "i < COURSE_FS_MAX_NODES" for i
    using that by (auto simp: course_fs_init_with_storage_def Let_def)
  have root: "is_dir ?fs 0" "n_parent (fs_nodes ?fs 0) = None" "n_is_dir (fs_nodes ?fs 0)"
    by (auto simp: course_fs_init_with_storage_def Let_def is_dir_def)
  have dir: "p = 0" if "is_dir ?fs p" for p using that sel(1) [of p] unfolding is_dir_def by blast
  have items: "dir_items ?fs 0 = []" using sel(2) by (simp add: dir_items_def)
  show "fs_wf ?fs"
  proof (rule wfI)
    fix q assume "is_dir ?fs q"
    then have "q = 0" by (rule dir)
    then show "dir_ok ?fs q" using items sel(2) [of 0] by (simp add: dir_ok_def sorted_dir_def dir_names_def)
  qed (use root sel in \<open>auto simp: is_dir_def\<close>)
  have "child ?fs 0 x = None" for x by (simp add: child_def items)
  then have walks: "walk ?fs 0 ns = (if ns = [] then Some 0 else None)" for ns by (cases ns) auto
  then show "no_orphans ?fs" using sel(1) by (simp add: no_orphans_def)
  from walks show "fs_abs ?fs = [[] \<mapsto> Dir]" using root(3) by (auto simp: fs_abs_def entry_of_def fun_eq_iff)
qed

subsection \<open>Listing\<close>

fun joined :: "cstr list \<Rightarrow> cstr" where
  "joined [] = []"
| "joined [n] = n"
| "joined (n # ns) = n @ '' '' @ joined ns"

lemma joined_Cons: "joined (n # ns) = n @ (if ns = [] then [] else '' '' @ joined ns)"
  by (cases ns) auto

lemma listdir_emit_True: "listdir_emit ns True out = (if ns = [] then out else out @ '' '' @ joined ns)"
  by (induction ns arbitrary: out) (simp_all add: joined_Cons)

lemma listdir_emit_joined: "listdir_emit ns False [] = joined ns"
  by (cases ns) (simp_all add: joined_Cons listdir_emit_True)

lemma listdir_required_True: "listdir_required ns True r = (if ns = [] then r else r + 1 + length (joined ns))"
  by (induction ns arbitrary: r) (simp_all add: joined_Cons)

lemma listdir_required_joined: "listdir_required ns False r = r + length (joined ns)"
  by (cases ns) (simp_all add: joined_Cons listdir_required_True)

lemma listed_names_sorted:
  assumes wf: "fs_wf fs" and ns: "walk fs 0 ns = Some k" "n_is_dir (fs_nodes fs k)"
  shows "listed_names fs k = sorted_list_of_set {n. fs_abs fs (ns @ [n]) \<noteq> None}"
proof -
  have k: "is_dir fs k" using walk_used [OF wf ns(1)] ns(2) by (simp add: is_dir_def)
  have "List.filter (\<lambda>i. n_used (fs_nodes fs i)) (dir_items fs k) = dir_items fs k"
    using wf_child_ok [OF wf k] by (simp add: filter_id_conv child_ok_def)
  then have names: "listed_names fs k = dir_names fs k"
    by (simp add: listed_names_def dir_names_def dir_items_def [symmetric])
  have "sorted (dir_names fs k)" "distinct (dir_names fs k)"
    using wf_dir [OF wf k] by (auto simp: sorted_dir_def strict_sorted_iff)
  then have "dir_names fs k = sorted_list_of_set (set (dir_names fs k))"
    by (rule sorted_list_of_set.idem_if_sorted_distinct [symmetric])
  also have "set (dir_names fs k) = {n. fs_abs fs (ns @ [n]) \<noteq> None}"
    using child_None_iff [OF wf k] by (auto simp: fs_abs_def walk_snoc ns(1))
  finally show ?thesis by (simp add: names)
qed

lemma listdir_correct:
  assumes wf: "fs_wf fs"
  shows "\<exists>fs'. course_fs_listdir fs path out_size =
     (if lookup_tree (fs_abs fs) path = Some Dir
      then (let text = joined (sorted_list_of_set {n. fs_abs fs (names_of path @ [n]) \<noteq> None}) @ [CHR 0x0A]
            in if length text + 1 \<le> out_size then Some text else None)
      else None, fs') \<and> same_store fs fs'"
proof -
  obtain fs1 where r: "resolve_path fs path = (resolved_path fs path, fs1)" and s: "same_store fs fs1"
    using resolve_path_correct [OF wf] by blast
  have nodes1: "fs_nodes fs1 = fs_nodes fs" using s by (simp add: same_store_def)
  then have ln: "listed_names fs1 k = listed_names fs k" for k by (simp add: listed_names_def)
  have none: "lookup_tree (fs_abs fs) None = None" by (simp add: lookup_tree_def absolute_def)
  show ?thesis
  proof (cases "lookup_tree (fs_abs fs) path = Some Dir")
    case True
    then obtain k where k: "node_at fs path = Some k" "walk fs 0 (names_of path) = Some k" "n_is_dir (fs_nodes fs k)"
      using lookup_dir [OF wf] by blast
    have "path \<noteq> None" using True none by (metis option.distinct(1))
    then show ?thesis using True k r s listed_names_sorted [OF wf k(2,3)]
      by (auto simp: course_fs_listdir_def resolved_node [OF wf] nodes1 ln listdir_required_joined listdir_emit_joined Let_def)
  next
    case False
    then have "node_at fs path = None \<or> (\<exists>k. node_at fs path = Some k \<and> \<not> n_is_dir (fs_nodes fs k))"
      unfolding lookup_node [OF wf] entry_of_def by (cases "node_at fs path") (auto split: if_splits)
    then have "course_fs_listdir fs path out_size = (None, if path = None \<or> out_size = 0 then fs else fs1)"
      using r by (auto simp: course_fs_listdir_def resolved_node [OF wf] nodes1)
    then show ?thesis using False s by auto
  qed
qed

end
