(* ===== verification/FsContract.thy ===== *)
theory FsContract
  imports FsStore
begin

text \<open>
  The contract of the file system with its callers (the descriptor table, the system calls, the
  shell), as the locale \<open>file_store\<close>, its interpretation on the model of \<open>course_fs.c\<close>, and the
  properties of the file system.
\<close>

subsection \<open>The contract\<close>

locale file_store =
  fixes inv :: "'s \<Rightarrow> bool" and view :: "'s \<Rightarrow> tree"
    and create :: "'s \<Rightarrow> cstr option \<Rightarrow> bool \<Rightarrow> bool \<times> 's"
    and remove :: "'s \<Rightarrow> cstr option \<Rightarrow> bool \<times> 's"
    and put :: "'s \<Rightarrow> cstr option \<Rightarrow> nat \<Rightarrow> u8 list option \<Rightarrow> bool \<times> 's"
    and get :: "'s \<Rightarrow> cstr option \<Rightarrow> nat \<Rightarrow> nat \<Rightarrow> u8 list option \<times> 's"
  assumes create_inv: "inv s \<Longrightarrow> create s path d = (ok, s') \<Longrightarrow> inv s'"
    and create_view: "inv s \<Longrightarrow> create s path d = (True, s') \<Longrightarrow>
      view s' = (view s)(names_of path \<mapsto> (if d then Dir else File [])) \<and> creatable (view s) path"
    and remove_inv: "inv s \<Longrightarrow> remove s path = (ok, s') \<Longrightarrow> inv s'"
    and remove_view: "inv s \<Longrightarrow> remove s path = (True, s') \<Longrightarrow> view s' = (view s)(names_of path := None)"
    and put_inv: "inv s \<Longrightarrow> put s path off data = (ok, s') \<Longrightarrow> inv s'"
    and put_view: "inv s \<Longrightarrow> put s path off data = (True, s') \<Longrightarrow> write_spec (view s) path off data = Some (view s')"
    and get_value: "inv s \<Longrightarrow> fst (get s path off len) = read_spec (view s) path off len"
begin

lemma put_get:
  assumes "inv s" "put s path off (Some d) = (True, s')" "absolute p2" "\<not> wants_dir p2" "names_of p2 = names_of path"
  shows "fst (get s' p2 off (length d)) = Some d"
proof -
  obtain bs where l: "lookup_tree (view s) path = Some (File bs)" and v: "view s' = (view s)(names_of path \<mapsto> File (splice bs off d))"
    using write_spec_SomeD [OF put_view [OF assms(1,2)]] by auto
  have "lookup_tree (view s') p2 = Some (File (splice bs off d))" using assms(3-5) by (simp add: lookup_tree_def v)
  moreover have "take (length d) (drop off (splice bs off d)) = d"
    by (intro nth_equalityI) (auto simp: length_splice nth_splice)
  ultimately show ?thesis
    using get_value [OF put_inv [OF assms(1,2)]] by (simp add: read_spec_def length_splice)
qed

lemma put_get_other:
  assumes "inv s" "put s path off data = (True, s')" "names_of p2 \<noteq> names_of path"
  shows "fst (get s' p2 o2 n2) = fst (get s p2 o2 n2)"
proof -
  obtain e where "view s' = (view s)(names_of path \<mapsto> e)"
    using write_spec_SomeD [OF put_view [OF assms(1,2)]] by metis
  then have "lookup_tree (view s') p2 = lookup_tree (view s) p2" using assms(3) by (simp add: lookup_tree_def)
  then show ?thesis using get_value [OF put_inv [OF assms(1,2)]] get_value [OF assms(1)] by (simp add: read_spec_def)
qed

lemma create_get:
  assumes "inv s" "create s path False = (True, s')"
  shows "fst (get s' path 0 0) = Some []" "n > 0 \<Longrightarrow> fst (get s' path off n) = None"
proof -
  have "lookup_tree (view s') path = Some (File [])"
    using create_view [OF assms] by (auto simp: lookup_tree_def creatable_def)
  then show "fst (get s' path 0 0) = Some []" "n > 0 \<Longrightarrow> fst (get s' path off n) = None"
    using get_value [OF create_inv [OF assms]] by (simp_all add: read_spec_def)
qed

lemma remove_get:
  assumes "inv s" "remove s path = (True, s')" "names_of p2 = names_of path"
  shows "fst (get s' p2 off n) = None"
  using get_value [OF remove_inv [OF assms(1,2)]] remove_view [OF assms(1,2)] assms(3)
  by (simp add: read_spec_def lookup_tree_def)

end

subsection \<open>The model of the code keeps the contract\<close>

definition fs_inv :: "course_fs \<Rightarrow> bool" where
  "fs_inv fs \<longleftrightarrow> fs_wf fs \<and> no_orphans fs"

definition create_spec :: "tree \<Rightarrow> cstr option \<Rightarrow> bool \<Rightarrow> tree option" where
  "create_spec m path directory =
     (if creatable m path \<and> card (dom m) < COURSE_FS_MAX_NODES
      then Some (m(names_of path \<mapsto> (if directory then Dir else File []))) else None)"

definition unlink_spec :: "tree \<Rightarrow> cstr option \<Rightarrow> tree option" where
  "unlink_spec m path =
     (case lookup_tree m path of Some (File bs) \<Rightarrow> Some (m(names_of path := None)) | _ \<Rightarrow> None)"

definition rmdir_spec :: "tree \<Rightarrow> cstr option \<Rightarrow> tree option" where
  "rmdir_spec m path =
     (if lookup_tree m path = Some Dir \<and> names_of path \<noteq> [] \<and> (\<forall>n. m (names_of path @ [n]) = None)
      then Some (m(names_of path := None)) else None)"

definition listdir_spec :: "tree \<Rightarrow> cstr option \<Rightarrow> nat \<Rightarrow> cstr option" where
  "listdir_spec m path out_size =
     (if lookup_tree m path = Some Dir
      then (let text = joined (sorted_list_of_set {n. m (names_of path @ [n]) \<noteq> None}) @ [CHR 0x0A]
            in if length text + 1 \<le> out_size then Some text else None)
      else None)"

definition size_spec :: "tree \<Rightarrow> cstr option \<Rightarrow> nat option" where
  "size_spec m path = (case lookup_tree m path of Some (File bs) \<Rightarrow> Some (length bs) | _ \<Rightarrow> None)"

text \<open>A change that may fail: the flag says whether the specification allows it, and a refused call changes nothing.\<close>

definition obeys :: "course_fs \<Rightarrow> bool \<times> course_fs \<Rightarrow> tree option \<Rightarrow> bool" where
  "obeys fs r spec \<longleftrightarrow> fs_inv (snd r) \<and> fst r = (spec \<noteq> None) \<and> fs_abs (snd r) = (case spec of None \<Rightarrow> fs_abs fs | Some m \<Rightarrow> m)"

lemma create_obeys:
  assumes "fs_inv fs"
  shows "obeys fs (course_fs_create fs path d) (create_spec (fs_abs fs) path d)"
proof -
  obtain ok fs' where r: "course_fs_create fs path d = (ok, fs')" by (cases "course_fs_create fs path d")
  then show ?thesis using create_law [of fs path d ok fs'] alloc_node_iff [of fs] assms
    by (auto simp: obeys_def fs_inv_def create_spec_def)
qed

lemma unlink_obeys:
  assumes "fs_inv fs"
  shows "obeys fs (course_fs_unlink fs path) (unlink_spec (fs_abs fs) path)"
proof -
  have wf: "fs_wf fs" "no_orphans fs" using assms by (simp_all add: fs_inv_def)
  show ?thesis using unlink_correct [OF wf(1), of path] wf(2)
    by (auto simp: obeys_def fs_inv_def unlink_spec_def split: option.split entry.split)
qed

lemma rmdir_obeys:
  assumes "fs_inv fs"
  shows "obeys fs (course_fs_rmdir fs path) (rmdir_spec (fs_abs fs) path)"
proof -
  have wf: "fs_wf fs" "no_orphans fs" using assms by (simp_all add: fs_inv_def)
  obtain ok fs' where "course_fs_rmdir fs path = (ok, fs')" "fs_wf fs'" "no_orphans fs'" "ok \<longleftrightarrow> rmdir_spec (fs_abs fs) path \<noteq> None"
    "fs_abs fs' = (if ok then (fs_abs fs)(names_of path := None) else fs_abs fs)"
    using rmdir_correct [OF wf(1), of path] wf(2) by (auto simp: rmdir_spec_def)
  then show ?thesis by (auto simp: obeys_def fs_inv_def rmdir_spec_def split: if_splits)
qed

lemma write_obeys:
  assumes "fs_inv fs"
  shows "obeys fs (course_fs_write fs path off data) (write_spec (fs_abs fs) path off data)"
proof -
  have wf: "fs_wf fs" "no_orphans fs" using assms by (simp_all add: fs_inv_def)
  show ?thesis using write_correct [OF wf(1), of path off data] wf(2)
    by (auto simp: obeys_def fs_inv_def split: option.splits)
qed

lemma fs_inv_same_store: "same_store fs fs' \<Longrightarrow> fs_inv fs' = fs_inv fs"
  by (simp add: fs_inv_def fs_wf_same_store no_orphans_same_store)

lemma obeysD:
  assumes "obeys fs (ok, fs') spec"
  shows "fs_inv fs'" "ok \<Longrightarrow> spec = Some (fs_abs fs')" "\<not> ok \<Longrightarrow> spec = None \<and> fs_abs fs' = fs_abs fs"
  using assms by (auto simp: obeys_def)

interpretation cfs: file_store fs_inv fs_abs course_fs_create course_fs_unlink course_fs_write course_fs_read
proof unfold_locales
  fix s s' path d ok off data len
  assume inv: "fs_inv s"
  note c = create_obeys [OF inv, of path d] and u = unlink_obeys [OF inv, of path] and w = write_obeys [OF inv, of path off data]
  show "course_fs_create s path d = (ok, s') \<Longrightarrow> fs_inv s'" using c obeysD by metis
  show "course_fs_create s path d = (True, s') \<Longrightarrow>
      fs_abs s' = (fs_abs s)(names_of path \<mapsto> (if d then Dir else File [])) \<and> creatable (fs_abs s) path"
    using c obeysD(2) [of s True s' "create_spec (fs_abs s) path d"] by (auto simp: create_spec_def split: if_splits)
  show "course_fs_unlink s path = (ok, s') \<Longrightarrow> fs_inv s'" using u obeysD by metis
  show "course_fs_unlink s path = (True, s') \<Longrightarrow> fs_abs s' = (fs_abs s)(names_of path := None)"
    using u obeysD(2) [of s True s' "unlink_spec (fs_abs s) path"]
    by (auto simp: unlink_spec_def split: option.splits entry.splits)
  show "course_fs_write s path off data = (ok, s') \<Longrightarrow> fs_inv s'" using w obeysD by metis
  show "course_fs_write s path off data = (True, s') \<Longrightarrow> write_spec (fs_abs s) path off data = Some (fs_abs s')"
    using w obeysD(2) [of s True s'] by simp
  show "fst (course_fs_read s path off len) = read_spec (fs_abs s) path off len"
    using read_correct [of s path off len] inv by (auto simp: fs_inv_def)
qed

subsection \<open>Runs of operations\<close>

datatype fs_op =
  Create "cstr option" bool | Mkdir "cstr option" | Unlink "cstr option" | Rmdir "cstr option"
| Write "cstr option" nat "u8 list option" | Read "cstr option" nat nat
| Lookup "cstr option" | Size "cstr option" | Listdir "cstr option" nat | Format

datatype fs_result = Done bool | Bytes "u8 list option" | Length "nat option" | Text "cstr option"

fun run_op :: "course_fs \<Rightarrow> fs_op \<Rightarrow> fs_result \<times> course_fs" where
  "run_op fs (Create path d) = map_prod Done id (course_fs_create fs path d)"
| "run_op fs (Mkdir path) = map_prod Done id (course_fs_mkdir fs path)"
| "run_op fs (Unlink path) = map_prod Done id (course_fs_unlink fs path)"
| "run_op fs (Rmdir path) = map_prod Done id (course_fs_rmdir fs path)"
| "run_op fs (Write path off data) = map_prod Done id (course_fs_write fs path off data)"
| "run_op fs (Read path off len) = map_prod Bytes id (course_fs_read fs path off len)"
| "run_op fs (Lookup path) = map_prod Done id (course_fs_lookup fs path)"
| "run_op fs (Size path) = map_prod Length id (course_fs_size fs path)"
| "run_op fs (Listdir path n) = map_prod Text id (course_fs_listdir fs path n)"
| "run_op fs Format = (Done True, course_fs_mkfs_with_storage fs (Some (fs_data fs)) (fs_data fs))"

definition attempt :: "tree \<Rightarrow> tree option \<Rightarrow> fs_result \<times> tree" where
  "attempt m r = (case r of None \<Rightarrow> (Done False, m) | Some m' \<Rightarrow> (Done True, m'))"

fun tree_op :: "tree \<Rightarrow> fs_op \<Rightarrow> fs_result \<times> tree" where
  "tree_op m (Create path d) = attempt m (create_spec m path d)"
| "tree_op m (Mkdir path) = attempt m (create_spec m path True)"
| "tree_op m (Unlink path) = attempt m (unlink_spec m path)"
| "tree_op m (Rmdir path) = attempt m (rmdir_spec m path)"
| "tree_op m (Write path off data) = attempt m (write_spec m path off data)"
| "tree_op m (Read path off len) = (Bytes (read_spec m path off len), m)"
| "tree_op m (Lookup path) = (Done (lookup_tree m path \<noteq> None), m)"
| "tree_op m (Size path) = (Length (size_spec m path), m)"
| "tree_op m (Listdir path n) = (Text (listdir_spec m path n), m)"
| "tree_op m Format = (Done True, [[] \<mapsto> Dir])"

fun run_all :: "('s \<Rightarrow> 'o \<Rightarrow> 'r \<times> 's) \<Rightarrow> 's \<Rightarrow> 'o list \<Rightarrow> 'r list \<times> 's" where
  "run_all f s [] = ([], s)"
| "run_all f s (x # xs) = (let (r, s1) = f s x; (rs, s2) = run_all f s1 xs in (r # rs, s2))"

lemma lookup_correct:
  assumes wf: "fs_wf fs"
  shows "\<exists>fs'. course_fs_lookup fs path = (lookup_tree (fs_abs fs) path \<noteq> None, fs') \<and> same_store fs fs'"
  using resolve_path_correct [OF wf, of path] by (auto simp: course_fs_lookup_def resolved_node [OF wf] lookup_node [OF wf])

lemma size_correct:
  assumes wf: "fs_wf fs"
  shows "\<exists>fs'. course_fs_size fs path = (size_spec (fs_abs fs) path, fs') \<and> same_store fs fs'"
proof -
  obtain fs1 where r: "resolve_path fs path = (resolved_path fs path, fs1)" and s: "same_store fs fs1"
    using resolve_path_correct [OF wf] by blast
  then show ?thesis
    by (cases "node_at fs path")
      (auto simp: course_fs_size_def size_spec_def resolved_node [OF wf] lookup_node [OF wf] entry_of_def same_store_def)
qed

lemma attempt_obeys:
  "obeys fs r spec \<Longrightarrow> attempt (fs_abs fs) spec = (Done (fst r), fs_abs (snd r)) \<and> fs_inv (snd r)"
  by (auto simp: attempt_def obeys_def split: option.split)

lemma run_op_refines:
  assumes inv: "fs_inv fs"
  shows "tree_op (fs_abs fs) op = map_prod id fs_abs (run_op fs op) \<and> fs_inv (snd (run_op fs op))"
proof -
  have wf: "fs_wf fs" using inv by (simp add: fs_inv_def)
  note same = fs_inv_same_store fs_abs_same_store inv
  show ?thesis
  proof (cases op)
    case (Create path d)
    then show ?thesis using attempt_obeys [OF create_obeys [OF inv]] by (simp add: map_prod_def split_beta)
  next
    case (Mkdir path)
    then show ?thesis using attempt_obeys [OF create_obeys [OF inv]]
      by (simp add: course_fs_mkdir_def map_prod_def split_beta)
  next
    case (Unlink path)
    then show ?thesis using attempt_obeys [OF unlink_obeys [OF inv]] by (simp add: map_prod_def split_beta)
  next
    case (Rmdir path)
    then show ?thesis using attempt_obeys [OF rmdir_obeys [OF inv]] by (simp add: map_prod_def split_beta)
  next
    case (Write path off data)
    then show ?thesis using attempt_obeys [OF write_obeys [OF inv]] by (simp add: map_prod_def split_beta)
  next
    case (Read path off len)
    then show ?thesis using read_correct [OF wf, of path off len] same by auto
  next
    case (Lookup path)
    then show ?thesis using lookup_correct [OF wf, of path] same by auto
  next
    case (Size path)
    then show ?thesis using size_correct [OF wf, of path] same by auto
  next
    case (Listdir path n)
    then show ?thesis using listdir_correct [OF wf, of path n] same unfolding listdir_spec_def [symmetric] by auto
  next
    case Format
    then show ?thesis by (simp add: course_fs_mkfs_with_storage_def init_correct fs_inv_def)
  qed
qed

lemma run_all_refines:
  assumes "fs_inv fs"
  shows "run_all tree_op (fs_abs fs) ops = map_prod id fs_abs (run_all run_op fs ops) \<and> fs_inv (snd (run_all run_op fs ops))"
  using assms
proof (induction ops arbitrary: fs)
  case Nil
  then show ?case by simp
next
  case (Cons op ops)
  obtain r fs1 where 1: "run_op fs op = (r, fs1)" by (cases "run_op fs op")
  have s: "tree_op (fs_abs fs) op = (r, fs_abs fs1)" "fs_inv fs1" using run_op_refines [OF Cons.prems, of op] 1 by auto
  obtain rs fs2 where 2: "run_all run_op fs1 ops = (rs, fs2)" by (cases "run_all run_op fs1 ops")
  show ?case using Cons.IH [OF s(2)] 1 2 s(1) by simp
qed

lemma mkfs_inv:
  "fs_inv (course_fs_mkfs_with_storage fs storage d)" "fs_abs (course_fs_mkfs_with_storage fs storage d) = [[] \<mapsto> Dir]"
  by (simp_all add: course_fs_mkfs_with_storage_def init_correct fs_inv_def)

end
