(* ===== verification/CourseFd.thy ===== *)
theory CourseFd
  imports FsContract
begin

text \<open>
  The descriptor table (\<open>src/myCPU/guest/kernel/course_fd.c\<close>): one process's open files over the RAM file
  system and the read-only procfs, each descriptor with its own offset.

  The table points to the file system it uses; both are passed and returned.  The procfs pointer is
  an argument: \<open>None\<close> for NULL, otherwise the text \<open>procfs_read\<close> produces for a path and a buffer size
  in the present state of the file system, or \<open>None\<close> when it refuses.  An offset is a natural number:
  it only grows up to the size of a file.  Error codes are the values of \<open>fd_error\<close>, numbered by
  \<open>fd_error_code\<close> as in the header.
\<close>

abbreviation COURSE_FD_MAX_OPEN :: nat where "COURSE_FD_MAX_OPEN \<equiv> 16"
abbreviation COURSE_FD_MAX_PATH :: nat where "COURSE_FD_MAX_PATH \<equiv> 96"
abbreviation COURSE_FD_OPEN_READ :: u32 where "COURSE_FD_OPEN_READ \<equiv> 1"
abbreviation COURSE_FD_OPEN_WRITE :: u32 where "COURSE_FD_OPEN_WRITE \<equiv> 2"
abbreviation COURSE_FD_OPEN_CREATE :: u32 where "COURSE_FD_OPEN_CREATE \<equiv> 4"
abbreviation PROC_TEXT_SIZE :: nat where "PROC_TEXT_SIZE \<equiv> 512"

datatype fd_error = FD_BAD_FD | FD_NO_SLOT | FD_NO_SUCH_FILE | FD_PERMISSION_DENIED | FD_INVALID_PATH

fun fd_error_code :: "fd_error \<Rightarrow> int" where
  "fd_error_code FD_BAD_FD = -1"
| "fd_error_code FD_NO_SLOT = -2"
| "fd_error_code FD_NO_SUCH_FILE = -3"
| "fd_error_code FD_PERMISSION_DENIED = -4"
| "fd_error_code FD_INVALID_PATH = -5"

datatype fd_kind = KIND_UNUSED | KIND_STDIO | KIND_FILE | KIND_PROC

record fd_entry =
  fe_kind :: fd_kind
  fe_flags :: u32
  fe_offset :: nat
  fe_path :: cstr

record fd_table =
  ft_cwd :: cstr
  ft_entries :: "fd_entry carray"

type_synonym proc_reader = "course_fs \<Rightarrow> cstr \<Rightarrow> nat \<Rightarrow> cstr option"

definition upd_entry :: "fd_table \<Rightarrow> nat \<Rightarrow> (fd_entry \<Rightarrow> fd_entry) \<Rightarrow> fd_table" where
  "upd_entry t i h = t\<lparr>ft_entries := (ft_entries t)(i := h (ft_entries t i))\<rparr>"

subsection \<open>Strings\<close>

definition str_len :: "cstr option \<Rightarrow> nat" where
  "str_len v = (case v of None \<Rightarrow> 0 | Some s \<Rightarrow> length s)"

fun str_eq_prefix_loop :: "cstr \<Rightarrow> cstr \<Rightarrow> bool" where
  "str_eq_prefix_loop value [] = True"
| "str_eq_prefix_loop [] (p # ps) = False"
| "str_eq_prefix_loop (v # vs) (p # ps) = (if v \<noteq> p then False else str_eq_prefix_loop vs ps)"

definition str_eq_prefix :: "cstr option \<Rightarrow> cstr option \<Rightarrow> bool" where
  "str_eq_prefix value pre = (case (value, pre) of (Some v, Some p) \<Rightarrow> str_eq_prefix_loop v p | _ \<Rightarrow> False)"

text \<open>The loop that appends a relative path: it stops at the end of the path or one byte before the end
  of the buffer, and returns what is left of the path.\<close>

fun append_path :: "nat \<Rightarrow> cstr \<Rightarrow> cstr \<Rightarrow> cstr \<times> cstr" where
  "append_path out_size out [] = (out, [])"
| "append_path out_size out (c # cs) =
     (if length out + 1 < out_size then append_path out_size (out @ [c]) cs else (out, c # cs))"

subsection \<open>The table\<close>

definition find_free_fd :: "fd_table \<Rightarrow> nat option" where
  "find_free_fd t = map_option (\<lambda>i. 3 + i) (first_index (\<lambda>i. fe_kind (ft_entries t (3 + i)) = KIND_UNUSED) (COURSE_FD_MAX_OPEN - 3))"

definition fd_entry_at :: "fd_table \<Rightarrow> int \<Rightarrow> nat option" where
  "fd_entry_at t fd =
     (if fd < 0 \<or> fd \<ge> int COURSE_FD_MAX_OPEN \<or> fe_kind (ft_entries t (nat fd)) = KIND_UNUSED then None else Some (nat fd))"

definition is_proc_path :: "cstr \<Rightarrow> bool" where
  "is_proc_path path = str_eq_prefix (Some path) (Some ''/proc/'')"

definition course_fd_table_init :: "fd_table \<Rightarrow> fd_table" where
  "course_fd_table_init t = \<lparr>ft_cwd = copy_str COURSE_FD_MAX_PATH (Some ''/''),
     ft_entries = (\<lambda>i. if i \<ge> COURSE_FD_MAX_OPEN then ft_entries t i
       else \<lparr>fe_kind = (if i < 3 then KIND_STDIO else KIND_UNUSED),
             fe_flags = (if i = 0 then COURSE_FD_OPEN_READ else if i = 1 \<or> i = 2 then COURSE_FD_OPEN_WRITE else 0),
             fe_offset = 0, fe_path = []\<rparr>)\<rparr>"

definition course_fd_resolve_path :: "fd_table \<Rightarrow> cstr option \<Rightarrow> nat \<Rightarrow> fd_error + cstr" where
  "course_fd_resolve_path t path out_size =
     (case path of
        None \<Rightarrow> Inl FD_INVALID_PATH
      | Some p \<Rightarrow>
          if out_size = 0 then Inl FD_INVALID_PATH
          else if p \<noteq> [] \<and> hd p = CHR ''/'' then Inr (copy_str out_size (Some p))
          else let out = copy_str out_size (Some (ft_cwd t)) in
            if out = [] \<or> hd out \<noteq> CHR ''/'' then Inl FD_INVALID_PATH
            else let out1 = (if 1 < length out \<and> length out + 1 < out_size then out @ ''/'' else out);
                     (out2, rest) = append_path out_size out1 p
                 in if rest = [] then Inr out2 else Inl FD_INVALID_PATH)"

definition course_fd_open ::
  "fd_table \<Rightarrow> course_fs \<Rightarrow> cstr option \<Rightarrow> u32 \<Rightarrow> (fd_error + nat) \<times> fd_table \<times> course_fs" where
  "course_fd_open t fs path flags =
     (case course_fd_resolve_path t path COURSE_FD_MAX_PATH of
        Inl _ \<Rightarrow> (Inl FD_INVALID_PATH, t, fs)
      | Inr p \<Rightarrow>
          (case find_free_fd t of
             None \<Rightarrow> (Inl FD_NO_SLOT, t, fs)
           | Some fd \<Rightarrow>
               if is_proc_path p then
                 (if flags AND COURSE_FD_OPEN_WRITE \<noteq> 0 then (Inl FD_PERMISSION_DENIED, t, fs)
                  else (Inr fd, upd_entry t fd (\<lambda>e. \<lparr>fe_kind = KIND_PROC, fe_flags = COURSE_FD_OPEN_READ, fe_offset = 0,
                          fe_path = copy_str COURSE_FD_MAX_PATH (Some p)\<rparr>), course_fs_record_open fs))
               else let (found, fs1) = course_fs_lookup fs (Some p);
                        (usable, fs2) = (if found then (True, fs1)
                                         else if flags AND COURSE_FD_OPEN_CREATE = 0 then (False, fs1)
                                         else course_fs_create fs1 (Some p) False)
                    in if \<not> usable then (Inl FD_NO_SUCH_FILE, t, fs2)
                       else (Inr fd, upd_entry t fd (\<lambda>e. \<lparr>fe_kind = KIND_FILE, fe_flags = flags, fe_offset = 0,
                               fe_path = copy_str COURSE_FD_MAX_PATH (Some p)\<rparr>), course_fs_record_open fs2)))"

definition course_fd_close :: "fd_table \<Rightarrow> course_fs \<Rightarrow> int \<Rightarrow> fd_error option \<times> fd_table \<times> course_fs" where
  "course_fd_close t fs fd =
     (case fd_entry_at t fd of
        None \<Rightarrow> (Some FD_BAD_FD, t, fs)
      | Some i \<Rightarrow>
          if fd < 3 then (Some FD_BAD_FD, t, fs)
          else (None, upd_entry t i (\<lambda>e. \<lparr>fe_kind = KIND_UNUSED, fe_flags = 0, fe_offset = 0, fe_path = []\<rparr>),
                course_fs_record_close fs))"

text \<open>The output buffer is given or NULL; the bytes that are copied into it are the result.\<close>

definition course_fd_read ::
  "proc_reader option \<Rightarrow> fd_table \<Rightarrow> course_fs \<Rightarrow> int \<Rightarrow> bool \<Rightarrow> nat \<Rightarrow> (fd_error + u8 list) \<times> fd_table \<times> course_fs" where
  "course_fd_read proc t fs fd out_given len =
     (case fd_entry_at t fd of
        None \<Rightarrow> (Inl FD_BAD_FD, t, fs)
      | Some i \<Rightarrow>
          let e = ft_entries t i in
          if \<not> out_given then (Inl FD_BAD_FD, t, fs)
          else if fe_flags e AND COURSE_FD_OPEN_READ = 0 then (Inl FD_PERMISSION_DENIED, t, fs)
          else if fe_kind e = KIND_FILE then
            (case course_fs_size fs (Some (fe_path e)) of
               (None, fs1) \<Rightarrow> (Inl FD_NO_SUCH_FILE, t, fs1)
             | (Some file_size, fs1) \<Rightarrow>
                 if fe_offset e \<ge> file_size then (Inr [], t, fs1)
                 else let n = (if len > file_size - fe_offset e then file_size - fe_offset e else len) in
                   (case course_fs_read fs1 (Some (fe_path e)) (fe_offset e) n of
                      (None, fs2) \<Rightarrow> (Inl FD_NO_SUCH_FILE, t, fs2)
                    | (Some bs, fs2) \<Rightarrow> (Inr bs, upd_entry t i (\<lambda>e. e\<lparr>fe_offset := fe_offset e + n\<rparr>), fs2)))
          else if fe_kind e = KIND_PROC then
            (case (case proc of None \<Rightarrow> None | Some reader \<Rightarrow> reader fs (fe_path e) PROC_TEXT_SIZE) of
               None \<Rightarrow> (Inl FD_NO_SUCH_FILE, t, fs)
             | Some text \<Rightarrow>
                 let available = length text in
                 if fe_offset e > available then (Inr [], t, fs)
                 else let n = (if len > available - fe_offset e then available - fe_offset e else len)
                      in (Inr (map of_char (take n (drop (fe_offset e) text))),
                          upd_entry t i (\<lambda>e. e\<lparr>fe_offset := fe_offset e + n\<rparr>), fs))
          else (Inl FD_BAD_FD, t, fs))"

definition course_fd_write ::
  "fd_table \<Rightarrow> course_fs \<Rightarrow> int \<Rightarrow> u8 list option \<Rightarrow> (fd_error + nat) \<times> fd_table \<times> course_fs" where
  "course_fd_write t fs fd data =
     (case (fd_entry_at t fd, data) of
        (Some i, Some bytes) \<Rightarrow>
          let e = ft_entries t i in
          if fe_flags e AND COURSE_FD_OPEN_WRITE = 0 \<or> fe_kind e = KIND_PROC then (Inl FD_PERMISSION_DENIED, t, fs)
          else if fe_kind e \<noteq> KIND_FILE then (Inl FD_NO_SUCH_FILE, t, fs)
          else (case course_fs_write fs (Some (fe_path e)) (fe_offset e) (Some bytes) of
               (False, fs1) \<Rightarrow> (Inl FD_NO_SUCH_FILE, t, fs1)
             | (True, fs1) \<Rightarrow> (Inr (length bytes), upd_entry t i (\<lambda>e. e\<lparr>fe_offset := fe_offset e + length bytes\<rparr>), fs1))
      | _ \<Rightarrow> (Inl FD_BAD_FD, t, fs))"

definition course_fd_seek :: "fd_table \<Rightarrow> course_fs \<Rightarrow> int \<Rightarrow> nat \<Rightarrow> fd_error option \<times> fd_table \<times> course_fs" where
  "course_fd_seek t fs fd offset =
     (case fd_entry_at t fd of
        None \<Rightarrow> (Some FD_BAD_FD, t, fs)
      | Some i \<Rightarrow>
          if fe_kind (ft_entries t i) \<noteq> KIND_FILE then (Some FD_PERMISSION_DENIED, t, fs)
          else (None, upd_entry t i (\<lambda>e. e\<lparr>fe_offset := offset\<rparr>), course_fs_record_seek fs))"

definition course_fd_set_cwd :: "fd_table \<Rightarrow> course_fs \<Rightarrow> cstr option \<Rightarrow> fd_error option \<times> fd_table \<times> course_fs" where
  "course_fd_set_cwd t fs cwd =
     (case course_fd_resolve_path t cwd COURSE_FD_MAX_PATH of
        Inl _ \<Rightarrow> (Some FD_INVALID_PATH, t, fs)
      | Inr p \<Rightarrow>
          (case course_fs_lookup fs (Some p) of
             (False, fs1) \<Rightarrow> (Some FD_INVALID_PATH, t, fs1)
           | (True, fs1) \<Rightarrow> (None, t\<lparr>ft_cwd := copy_str COURSE_FD_MAX_PATH (Some p)\<rparr>, fs1)))"

definition course_fd_cwd :: "fd_table option \<Rightarrow> cstr" where
  "course_fd_cwd t = (case t of None \<Rightarrow> [] | Some table \<Rightarrow> ft_cwd table)"

end
