(* ===== verification/FdStreams.thy ===== *)
theory FdStreams
  imports CourseFd
begin

text \<open>
  The descriptor table over the file system: what a descriptor may be (\<open>fd_ok\<close>), and a descriptor on a
  file as a cursor in the bytes of the file, through the contract of the file system.
\<close>

subsection \<open>Well-typed descriptors\<close>

fun entry_ok :: "nat \<Rightarrow> fd_entry \<Rightarrow> bool" where
  "entry_ok i e =
     (case fe_kind e of
        KIND_UNUSED \<Rightarrow> 3 \<le> i \<and> fe_flags e = 0 \<and> fe_offset e = 0 \<and> fe_path e = []
      | KIND_STDIO \<Rightarrow> i < 3 \<and> fe_flags e = (if i = 0 then COURSE_FD_OPEN_READ else COURSE_FD_OPEN_WRITE) \<and> fe_path e = []
      | KIND_FILE \<Rightarrow> 3 \<le> i \<and> absolute (Some (fe_path e)) \<and> length (fe_path e) < COURSE_FD_MAX_PATH \<and> \<not> is_proc_path (fe_path e)
      | KIND_PROC \<Rightarrow> 3 \<le> i \<and> fe_flags e = COURSE_FD_OPEN_READ \<and> length (fe_path e) < COURSE_FD_MAX_PATH \<and> is_proc_path (fe_path e))"

definition fd_ok :: "fd_table \<Rightarrow> bool" where
  "fd_ok t \<longleftrightarrow> absolute (Some (ft_cwd t)) \<and> length (ft_cwd t) < COURSE_FD_MAX_PATH \<and>
     (\<forall>i<COURSE_FD_MAX_OPEN. entry_ok i (ft_entries t i))"

lemma absolute_iff: "absolute (Some p) \<longleftrightarrow> p \<noteq> [] \<and> hd p = CHR ''/''"
  by (cases p) (auto simp: absolute_def)

lemma absolute_take: "absolute (Some p) \<Longrightarrow> 0 < n \<Longrightarrow> absolute (Some (take n p))"
  by (cases p) (auto simp: absolute_def take_Cons split: nat.split)

lemma append_path_correct:
  "append_path n out p = (out @ take (n - 1 - length out) p, drop (n - 1 - length out) p)"
proof (induction n out p rule: append_path.induct)
  case (2 n out c cs)
  show ?case
  proof (cases "length out + 1 < n")
    case True
    then have "n - 1 - length out = Suc (n - 1 - length (out @ [c]))" by simp
    then show ?thesis using 2 True by simp
  qed simp
qed simp

lemma resolve_path_ok:
  assumes "fd_ok t" "course_fd_resolve_path t path n = Inr p" "1 < n"
  shows "absolute (Some p)" "length p < n"
proof -
  have "absolute (Some p) \<and> length p < n"
    using assms
    by (auto simp: course_fd_resolve_path_def append_path_correct copy_str_Some absolute_iff Let_def hd_append hd_take
        split: option.splits if_splits)
  then show "absolute (Some p)" "length p < n" by blast+
qed

lemma upd_entry_ok:
  assumes "fd_ok t" "entry_ok i (h (ft_entries t i))"
  shows "fd_ok (upd_entry t i h)"
  using assms by (simp add: fd_ok_def upd_entry_def del: entry_ok.simps)

lemma fd_entry_at_Some: "fd_entry_at t fd = Some i \<longleftrightarrow> fd = int i \<and> i < COURSE_FD_MAX_OPEN \<and> fe_kind (ft_entries t i) \<noteq> KIND_UNUSED"
  by (auto simp: fd_entry_at_def)

lemma find_free_fd_Some:
  assumes "find_free_fd t = Some fd"
  shows "3 \<le> fd" "fd < COURSE_FD_MAX_OPEN" "fe_kind (ft_entries t fd) = KIND_UNUSED"
    "\<And>j. 3 \<le> j \<Longrightarrow> j < fd \<Longrightarrow> fe_kind (ft_entries t j) \<noteq> KIND_UNUSED"
proof -
  obtain i where i: "fd = 3 + i" "first_index (\<lambda>i. fe_kind (ft_entries t (3 + i)) = KIND_UNUSED) (COURSE_FD_MAX_OPEN - 3) = Some i"
    using assms by (auto simp: find_free_fd_def)
  then show "3 \<le> fd" "fd < COURSE_FD_MAX_OPEN" "fe_kind (ft_entries t fd) = KIND_UNUSED"
    by (auto simp: first_index_Some_iff)
  show "fe_kind (ft_entries t j) \<noteq> KIND_UNUSED" if "3 \<le> j" "j < fd" for j
    using i that unfolding first_index_Some_iff by (metis le_add_diff_inverse nat_add_left_cancel_less)
qed

lemma table_init_ok: "fd_ok (course_fd_table_init t)"
  by (auto simp: fd_ok_def course_fd_table_init_def absolute_iff copy_str_Some)

lemma record_same_store:
  "same_store fs (course_fs_record_open fs)" "same_store fs (course_fs_record_close fs)" "same_store fs (course_fs_record_seek fs)"
  by (simp_all add: same_store_def course_fs_record_open_def course_fs_record_close_def course_fs_record_seek_def fs_simps)

lemmas fs_inv_record = record_same_store [THEN fs_inv_same_store]
lemmas fs_abs_record = record_same_store [THEN fs_abs_same_store]

subsection \<open>Each call keeps the table and the file system well formed\<close>

lemma lookup_inv:
  assumes "fs_inv fs" "course_fs_lookup fs path = (found, fs')"
  shows "fs_inv fs'" "found \<longleftrightarrow> lookup_tree (fs_abs fs) path \<noteq> None" "fs_abs fs' = fs_abs fs" "same_store fs fs'"
  using lookup_correct [of fs path] assms fs_inv_same_store fs_abs_same_store by (auto simp: fs_inv_def)

lemma open_keeps:
  assumes "fd_ok t" "fs_inv fs" "course_fd_open t fs path flags = (r, t', fs')"
  shows "fd_ok t' \<and> fs_inv fs'"
proof (cases "course_fd_resolve_path t path COURSE_FD_MAX_PATH")
  case (Inl e)
  then show ?thesis using assms by (simp add: course_fd_open_def)
next
  case (Inr p)
  note p = resolve_path_ok [OF assms(1) Inr]
  show ?thesis
  proof (cases "find_free_fd t")
    case None
    then show ?thesis using assms Inr by (simp add: course_fd_open_def)
  next
    case (Some fd)
    note fd = find_free_fd_Some [OF Some]
    obtain found fs1 where l: "course_fs_lookup fs (Some p) = (found, fs1)" by (cases "course_fs_lookup fs (Some p)")
    obtain ok fs2 where c: "course_fs_create fs1 (Some p) False = (ok, fs2)" by (cases "course_fs_create fs1 (Some p) False")
    have inv1: "fs_inv fs1" by (rule lookup_inv(1) [OF assms(2) l])
    have inv2: "fs_inv fs2" by (rule cfs.create_inv [OF inv1 c])
    show ?thesis
      using assms Inr Some l c inv1 inv2 p fd fs_inv_record
      by (auto simp: course_fd_open_def Let_def copy_str_Some intro!: upd_entry_ok split: if_splits)
  qed
qed

lemma read_keeps:
  assumes "fd_ok t" "fs_inv fs" "course_fd_read proc t fs fd out n = (r, t', fs')"
  shows "fd_ok t' \<and> fs_inv fs'"
proof (cases "fd_entry_at t fd")
  case None
  then show ?thesis using assms by (simp add: course_fd_read_def)
next
  case (Some i)
  let ?e = "ft_entries t i"
  have ok: "entry_ok i ?e" using Some assms(1) by (auto simp: fd_entry_at_Some fd_ok_def)
  have keep: "fd_ok (upd_entry t i (\<lambda>e. e\<lparr>fe_offset := g e\<rparr>))" if "fe_kind ?e = KIND_FILE \<or> fe_kind ?e = KIND_PROC" for g
    using that by (intro upd_entry_ok [OF assms(1)]) (use ok in auto)
  have wf: "fs_wf fs" using assms(2) by (simp add: fs_inv_def)
  obtain sz fs1 where s: "course_fs_size fs (Some (fe_path ?e)) = (sz, fs1)" and s1: "same_store fs fs1"
    using size_correct [OF wf] by blast
  have inv1: "fs_inv fs1" using fs_inv_same_store [OF s1] assms(2) by simp
  have inv2: "fs_inv fs2" if "course_fs_read fs1 path off k = (b, fs2)" for path off k b fs2
    using read_correct [of fs1 path off k] inv1 that fs_inv_same_store by (auto simp: fs_inv_def)
  show ?thesis
    using assms(3) Some s inv1 inv2 keep assms(1,2)
    by (auto simp: course_fd_read_def Let_def split: option.splits if_splits prod.splits)
qed

lemma write_keeps:
  assumes "fd_ok t" "fs_inv fs" "course_fd_write t fs fd data = (r, t', fs')"
  shows "fd_ok t' \<and> fs_inv fs'"
proof (cases "fd_entry_at t fd")
  case None
  then show ?thesis using assms by (simp add: course_fd_write_def)
next
  case (Some i)
  let ?e = "ft_entries t i"
  have ok: "entry_ok i ?e" using Some assms(1) by (auto simp: fd_entry_at_Some fd_ok_def)
  have keep: "fd_ok (upd_entry t i (\<lambda>e. e\<lparr>fe_offset := g e\<rparr>))" if "fe_kind ?e = KIND_FILE" for g
    using that by (intro upd_entry_ok [OF assms(1)]) (use ok in auto)
  have "fs_inv fs1" if "course_fs_write fs path off d = (b, fs1)" for path off d b fs1
    using cfs.put_inv [OF assms(2) that] .
  then show ?thesis
    using assms Some keep by (auto simp: course_fd_write_def Let_def split: option.splits if_splits prod.splits bool.splits)
qed

lemma other_keeps:
  assumes "fd_ok t" "fs_inv fs"
  shows "course_fd_close t fs fd = (r, t', fs') \<Longrightarrow> fd_ok t' \<and> fs_inv fs'"
    and "course_fd_seek t fs fd off = (r, t', fs') \<Longrightarrow> fd_ok t' \<and> fs_inv fs'"
    and "course_fd_set_cwd t fs path = (r, t', fs') \<Longrightarrow> fd_ok t' \<and> fs_inv fs'"
proof -
  show "course_fd_close t fs fd = (r, t', fs') \<Longrightarrow> fd_ok t' \<and> fs_inv fs'"
    using assms fs_inv_record
    by (auto simp: course_fd_close_def fd_entry_at_Some intro!: upd_entry_ok split: option.splits if_splits)
  show "fd_ok t' \<and> fs_inv fs'" if "course_fd_seek t fs fd off = (r, t', fs')"
  proof (cases "fd_entry_at t fd")
    case None
    then show ?thesis using that assms by (simp add: course_fd_seek_def)
  next
    case (Some i)
    have "entry_ok i (ft_entries t i)" using Some assms(1) by (auto simp: fd_entry_at_Some fd_ok_def)
    then show ?thesis
      using that Some assms fs_inv_record by (auto simp: course_fd_seek_def intro!: upd_entry_ok split: if_splits)
  qed
  show "fd_ok t' \<and> fs_inv fs'" if "course_fd_set_cwd t fs path = (r, t', fs')"
  proof (cases "course_fd_resolve_path t path COURSE_FD_MAX_PATH")
    case (Inl e)
    then show ?thesis using that assms by (simp add: course_fd_set_cwd_def)
  next
    case (Inr p)
    note p = resolve_path_ok [OF assms(1) Inr]
    obtain found fs1 where l: "course_fs_lookup fs (Some p) = (found, fs1)" by (cases "course_fs_lookup fs (Some p)")
    then show ?thesis
      using that Inr p assms lookup_inv(1) [OF assms(2) l]
      by (auto simp: course_fd_set_cwd_def fd_ok_def copy_str_Some simp del: entry_ok.simps split: bool.splits)
  qed
qed

subsection \<open>A descriptor on a file is a cursor\<close>

lemma fd_read_file:
  assumes inv: "fs_inv fs" and i: "i < COURSE_FD_MAX_OPEN" "fe_kind (ft_entries t i) = KIND_FILE"
    "fe_flags (ft_entries t i) AND COURSE_FD_OPEN_READ \<noteq> 0"
    and l: "lookup_tree (fs_abs fs) (Some (fe_path (ft_entries t i))) = Some (File bs)"
  shows "\<exists>fs'. course_fd_read proc t fs (int i) True n =
      (let got = take n (drop (fe_offset (ft_entries t i)) bs)
       in (Inr got, upd_entry t i (\<lambda>e. e\<lparr>fe_offset := fe_offset e + length got\<rparr>), fs')) \<and> same_store fs fs'"
proof -
  let ?e = "ft_entries t i"
  have at: "fd_entry_at t (int i) = Some i" using i by (simp add: fd_entry_at_Some)
  have wf: "fs_wf fs" using inv by (simp add: fs_inv_def)
  obtain fs1 where s: "course_fs_size fs (Some (fe_path ?e)) = (Some (length bs), fs1)" and s1: "same_store fs fs1"
    using size_correct [OF wf, of "Some (fe_path ?e)"] l by (auto simp: size_spec_def)
  have wf1: "fs_wf fs1" using fs_wf_same_store [OF s1] wf by simp
  show ?thesis
  proof (cases "fe_offset ?e \<ge> length bs")
    case True
    have "upd_entry t i (\<lambda>e. e) = t" by (simp add: upd_entry_def)
    then show ?thesis using True at i s s1 by (auto simp: course_fd_read_def Let_def)
  next
    case False
    define k where "k = (if n > length bs - fe_offset ?e then length bs - fe_offset ?e else n)"
    have k: "take k (drop (fe_offset ?e) bs) = take n (drop (fe_offset ?e) bs)" "length (take n (drop (fe_offset ?e) bs)) = k"
      "fe_offset ?e + k \<le> length bs" using False by (auto simp: k_def)
    obtain fs2 where r: "course_fs_read fs1 (Some (fe_path ?e)) (fe_offset ?e) k = (Some (take k (drop (fe_offset ?e) bs)), fs2)"
      and s2: "same_store fs1 fs2"
      using read_correct [OF wf1, of "Some (fe_path ?e)" "fe_offset ?e" k] l k(3) fs_abs_same_store [OF s1]
      by (auto simp: read_spec_def)
    have "course_fd_read proc t fs (int i) True n =
        (Inr (take k (drop (fe_offset ?e) bs)), upd_entry t i (\<lambda>e. e\<lparr>fe_offset := fe_offset e + k\<rparr>), fs2)"
      using False at i s r by (simp add: course_fd_read_def Let_def k_def [symmetric])
    then show ?thesis using k same_store_trans [OF s1 s2] by auto
  qed
qed

lemma fd_write_file:
  assumes inv: "fs_inv fs" and w: "course_fd_write t fs (int i) (Some d) = (Inr n, t', fs')"
  shows "i < COURSE_FD_MAX_OPEN" "n = length d" "t' = upd_entry t i (\<lambda>e. e\<lparr>fe_offset := fe_offset e + length d\<rparr>)"
    "fe_kind (ft_entries t i) = KIND_FILE"
    "course_fs_write fs (Some (fe_path (ft_entries t i))) (fe_offset (ft_entries t i)) (Some d) = (True, fs')"
    "fs_inv fs'"
proof -
  let ?e = "ft_entries t i"
  have at: "fd_entry_at t (int i) = Some i" using w by (auto simp: course_fd_write_def fd_entry_at_def split: if_splits)
  then show "i < COURSE_FD_MAX_OPEN" by (simp add: fd_entry_at_Some)
  obtain ok fs1 where c: "course_fs_write fs (Some (fe_path ?e)) (fe_offset ?e) (Some d) = (ok, fs1)"
    by (cases "course_fs_write fs (Some (fe_path ?e)) (fe_offset ?e) (Some d)")
  have r: "n = length d \<and> t' = upd_entry t i (\<lambda>e. e\<lparr>fe_offset := fe_offset e + length d\<rparr>) \<and> fe_kind ?e = KIND_FILE \<and> ok \<and> fs1 = fs'"
    using w at c by (cases ok) (auto simp: course_fd_write_def Let_def split: if_splits)
  then show "n = length d" "t' = upd_entry t i (\<lambda>e. e\<lparr>fe_offset := fe_offset e + length d\<rparr>)" "fe_kind ?e = KIND_FILE"
    "course_fs_write fs (Some (fe_path ?e)) (fe_offset ?e) (Some d) = (True, fs')" using c by auto
  then show "fs_inv fs'" using cfs.put_inv [OF inv] by blast
qed

text \<open>Reading in chunks until an error.\<close>

fun read_chunks :: "proc_reader option \<Rightarrow> fd_table \<Rightarrow> course_fs \<Rightarrow> int \<Rightarrow> nat list \<Rightarrow> u8 list \<times> fd_table \<times> course_fs" where
  "read_chunks proc t fs fd [] = ([], t, fs)"
| "read_chunks proc t fs fd (n # ns) =
     (case course_fd_read proc t fs fd True n of
        (Inl e, t1, fs1) \<Rightarrow> ([], t1, fs1)
      | (Inr got, t1, fs1) \<Rightarrow> (let (rest, t2, fs2) = read_chunks proc t1 fs1 fd ns in (got @ rest, t2, fs2)))"

lemma take_chunks: "take a xs @ take b (drop (length (take a xs)) xs) = take (a + b) xs"
proof (cases "a \<le> length xs")
  case True
  then show ?thesis by (simp add: take_add min_def)
qed simp

lemma read_chunks_stream:
  assumes "fs_inv fs" "i < COURSE_FD_MAX_OPEN" "fe_kind (ft_entries t i) = KIND_FILE"
    "fe_flags (ft_entries t i) AND COURSE_FD_OPEN_READ \<noteq> 0"
    "lookup_tree (fs_abs fs) (Some (fe_path (ft_entries t i))) = Some (File bs)"
  shows "fst (read_chunks proc t fs (int i) ns) = take (sum_list ns) (drop (fe_offset (ft_entries t i)) bs)"
  using assms
proof (induction ns arbitrary: t fs)
  case Nil
  then show ?case by simp
next
  case (Cons n ns)
  let ?off = "fe_offset (ft_entries t i)"
  define got where "got = take n (drop ?off bs)"
  define t1 where "t1 = upd_entry t i (\<lambda>e. e\<lparr>fe_offset := fe_offset e + length got\<rparr>)"
  obtain fs1 where r: "course_fd_read proc t fs (int i) True n = (Inr got, t1, fs1)" and s: "same_store fs fs1"
    using fd_read_file [OF Cons.prems] by (auto simp: got_def t1_def)
  have e1: "ft_entries t1 i = (ft_entries t i)\<lparr>fe_offset := ?off + length got\<rparr>" by (simp add: t1_def upd_entry_def)
  have "fst (read_chunks proc t1 fs1 (int i) ns) = take (sum_list ns) (drop (?off + length got) bs)"
    using Cons.IH [of fs1 t1] Cons.prems e1 fs_inv_same_store [OF s] fs_abs_same_store [OF s] by simp
  moreover have "got @ take (sum_list ns) (drop (?off + length got) bs) = take (n + sum_list ns) (drop ?off bs)"
    using take_chunks [of n "drop ?off bs" "sum_list ns"] by (simp add: got_def add.commute)
  ultimately show ?case using r by (simp add: split_beta)
qed

text \<open>An absolute path that does not fit the buffer is cut, not refused: the descriptor is opened on another path.\<close>

lemma open_cuts_long_paths:
  assumes "absolute (Some p)"
  shows "course_fd_open t fs (Some p) flags = course_fd_open t fs (Some (take 95 p)) flags"
  using assms absolute_take [OF assms, of 95]
  by (simp add: course_fd_open_def course_fd_resolve_path_def absolute_iff copy_str_Some)

subsection \<open>Runs of calls\<close>

datatype fd_call =
  Open_call "cstr option" u32 | Close_call int | Read_call int bool nat | Write_call int "u8 list option"
| Seek_call int nat | Cwd_call "cstr option"

fun run_fd :: "proc_reader option \<Rightarrow> fd_table \<times> course_fs \<Rightarrow> fd_call \<Rightarrow> fd_table \<times> course_fs" where
  "run_fd proc (t, fs) (Open_call path flags) = snd (course_fd_open t fs path flags)"
| "run_fd proc (t, fs) (Close_call fd) = snd (course_fd_close t fs fd)"
| "run_fd proc (t, fs) (Read_call fd out n) = snd (course_fd_read proc t fs fd out n)"
| "run_fd proc (t, fs) (Write_call fd data) = snd (course_fd_write t fs fd data)"
| "run_fd proc (t, fs) (Seek_call fd off) = snd (course_fd_seek t fs fd off)"
| "run_fd proc (t, fs) (Cwd_call path) = snd (course_fd_set_cwd t fs path)"

lemma run_fd_keeps:
  assumes "fd_ok (fst s)" "fs_inv (snd s)"
  shows "fd_ok (fst (run_fd proc s c)) \<and> fs_inv (snd (run_fd proc s c))"
proof -
  obtain t fs where s: "s = (t, fs)" by (cases s)
  have ok: "fd_ok t" "fs_inv fs" using assms by (simp_all add: s)
  show ?thesis
  proof (cases c)
    case (Open_call path flags)
    then show ?thesis using open_keeps [OF ok, of path flags] by (cases "course_fd_open t fs path flags") (auto simp: s)
  next
    case (Close_call fd)
    then show ?thesis using other_keeps(1) [OF ok, of fd] by (cases "course_fd_close t fs fd") (auto simp: s)
  next
    case (Read_call fd out n)
    then show ?thesis using read_keeps [OF ok, of proc fd out n] by (cases "course_fd_read proc t fs fd out n") (auto simp: s)
  next
    case (Write_call fd data)
    then show ?thesis using write_keeps [OF ok, of fd data] by (cases "course_fd_write t fs fd data") (auto simp: s)
  next
    case (Seek_call fd off)
    then show ?thesis using other_keeps(2) [OF ok, of fd off] by (cases "course_fd_seek t fs fd off") (auto simp: s)
  next
    case (Cwd_call path)
    then show ?thesis using other_keeps(3) [OF ok, of path] by (cases "course_fd_set_cwd t fs path") (auto simp: s)
  qed
qed

end
