(* ===== verification/FsProperties.thy ===== *)
theory FsProperties
  imports FsContract
begin

text \<open>The properties of the file system of \<open>course_fs.c\<close>, and the file system of their witnesses.\<close>

definition blank_fs :: course_fs where
  "blank_fs = \<lparr>fs_nodes = (\<lambda>_. \<lparr>n_used = False, n_is_dir = False, n_parent = None, n_name = [], n_data_offset = 0,
       n_data_capacity = 0, n_size = 0, n_dir_index = (\<lambda>_. 0), n_dir_index_count = 0, n_leaf_starts = (\<lambda>_. 0),
       n_leaf_counts = (\<lambda>_. 0), n_leaf_count = 0, n_internal_count = 0\<rparr>),
     fs_data = (\<lambda>_ _. 0), fs_counters = \<lparr>file_creates = 0, dir_creates = 0, file_reads = 0, file_writes = 0,
       file_deletes = 0, dir_deletes = 0, path_resolves = 0, dir_index_lookups = 0, btree_compare_steps = 0,
       btree_internal_nodes = 0, btree_leaf_nodes = 0, open_calls = 0, close_calls = 0, seek_calls = 0,
       max_files = 0, max_file_size = 0, max_depth = 0\<rparr>\<rparr>"

definition fresh_fs :: course_fs where
  "fresh_fs = course_fs_mkfs_with_storage blank_fs None (\<lambda>_ _. 255)"

definition sample_ops :: "fs_op list" where
  "sample_ops = [Mkdir (Some ''/d''), Create (Some ''/d/f'') False, Write (Some ''/d//f'') 2 (Some [7, 8])]"

definition sample_fs :: course_fs where
  "sample_fs = snd (run_all run_op fresh_fs sample_ops)"

lemma fresh_inv: "fs_inv fresh_fs" "fs_abs fresh_fs = [[] \<mapsto> Dir]"
  by (simp_all add: fresh_fs_def mkfs_inv)

lemma path_facts:
  "names_of (Some ''/d'') = [''d'']" "names_of (Some ''/d/f'') = [''d'', ''f'']" "names_of (Some ''/d//f'') = [''d'', ''f'']"
  "names_of (Some ''/d/'') = [''d'']" "names_of (Some ''/d/g'') = [''d'', ''g'']" 
  "absolute (Some ''/d'')" "absolute (Some ''/d/f'')" "absolute (Some ''/d//f'')" "absolute (Some ''/d/'')" "absolute (Some ''/d/g'')"
  "\<not> wants_dir (Some ''/d'')" "\<not> wants_dir (Some ''/d/f'')" "\<not> wants_dir (Some ''/d//f'')" "wants_dir (Some ''/d/'')"
  "\<not> wants_dir (Some ''/d/g'')"
  by (simp_all add: names_of_def path_names_def absolute_def wants_dir_def ends_in_slash_def)

lemma sample_trace:
  "run_all tree_op [[] \<mapsto> Dir] sample_ops =
     ([Done True, Done True, Done True], [[] \<mapsto> Dir, [''d''] \<mapsto> Dir, [''d'', ''f''] \<mapsto> File [0, 0, 7, 8]])"
  by (simp add: sample_ops_def attempt_def create_spec_def creatable_def write_spec_def lookup_tree_def splice_def path_facts
      numeral_2_eq_2)

lemma sample_facts:
  "fs_inv sample_fs" "fs_abs sample_fs = [[] \<mapsto> Dir, [''d''] \<mapsto> Dir, [''d'', ''f''] \<mapsto> File [0, 0, 7, 8]]"
proof -
  note r = run_all_refines [OF fresh_inv(1), of sample_ops, unfolded fresh_inv(2) sample_trace, folded sample_fs_def]
  show "fs_inv sample_fs" using r by blast
  from r have "snd (map_prod id fs_abs (run_all run_op fresh_fs sample_ops)) = [[] \<mapsto> Dir, [''d''] \<mapsto> Dir, [''d'', ''f''] \<mapsto> File [0, 0, 7, 8]]"
    by (metis snd_conv)
  then show "fs_abs sample_fs = [[] \<mapsto> Dir, [''d''] \<mapsto> Dir, [''d'', ''f''] \<mapsto> File [0, 0, 7, 8]]"
    by (simp add: sample_fs_def)
qed

subsection \<open>The properties\<close>

text \<open>C4: Refinement: on a freshly formatted file system, any sequence of calls (create, mkdir, unlink, rmdir,
  write, read, lookup, size, listdir, reformat) returns call by call what the same calls return on
  the plain map from paths to entries that starts with the root directory only.\<close>

theorem fs_refines_path_map:
  "fst (run_all run_op (course_fs_mkfs_with_storage fs storage d) ops) = fst (run_all tree_op [[] \<mapsto> Dir] ops)"
  using run_all_refines [OF mkfs_inv(1) [of fs storage d], of ops] unfolding mkfs_inv(2) by simp

text \<open>C18: Invariant: after formatting and any sequence of calls the tables are well formed: every used node but the
  root is listed by the directory it names as its parent and is reachable from the root, the listed
  children of a directory are strictly sorted by name with non-empty names of fewer than 32 characters
  without a slash, the leaf table cuts them into leaves of four, and no file is larger than 64 KiB.\<close>

theorem fs_stays_well_formed:
  "fs_wf (snd (run_all run_op (course_fs_mkfs_with_storage fs storage d) ops)) \<and>
   no_orphans (snd (run_all run_op (course_fs_mkfs_with_storage fs storage d) ops))"
  using run_all_refines [OF mkfs_inv(1) [of fs storage d], of ops] by (simp add: fs_inv_def)

text \<open>C35: Equivalence: the two-level binary search \<open>find_child\<close> finds exactly the child a linear search of the
  directory by name finds, changes only counters, and compares names at most nine times.\<close>

theorem find_child_is_linear_search:
  assumes "fs_wf fs"
  shows "\<exists>fs' d. find_child fs p name =
      (if is_dir fs p \<and> name \<noteq> [] then find (\<lambda>i. n_name (fs_nodes fs i) = name) (dir_items fs p) else None, fs') \<and>
    same_store fs fs' \<and> steps fs' = steps fs + of_nat d \<and> d \<le> 9"
  using find_child_correct [OF wf_dir [OF assms], of p name] unfolding child_def .

theorem find_child_is_linear_search_witness:
  "\<exists>fs' d. find_child sample_fs 0 ''d'' =
      (if is_dir sample_fs 0 \<and> ''d'' \<noteq> [] then find (\<lambda>i. n_name (fs_nodes sample_fs i) = ''d'') (dir_items sample_fs 0) else None, fs') \<and>
    same_store sample_fs fs' \<and> steps fs' = steps sample_fs + of_nat d \<and> d \<le> 9"
  by (rule find_child_is_linear_search) (use sample_facts(1) in \<open>simp add: fs_inv_def\<close>)

text \<open>Creation succeeds exactly when the path is absolute, names something, does not end in a slash, its parent
  is a directory, nothing has the path yet, the last name has fewer than 32 characters and fewer than
  160 entries exist; it then adds one empty file or directory at that path, and otherwise changes no entry.\<close>

theorem fs_create_exact:
  assumes "fs_inv fs" "course_fs_create fs path directory = (ok, fs')"
  shows "fs_inv fs' \<and>
    (ok \<longleftrightarrow> absolute path \<and> \<not> wants_dir path \<and> names_of path \<noteq> [] \<and> fs_abs fs (butlast (names_of path)) = Some Dir \<and>
       fs_abs fs (names_of path) = None \<and> length (last (names_of path)) < COURSE_FS_MAX_NAME \<and>
       card (dom (fs_abs fs)) < COURSE_FS_MAX_NODES) \<and>
    fs_abs fs' = (if ok then (fs_abs fs)(names_of path \<mapsto> (if directory then Dir else File [])) else fs_abs fs)"
  using create_obeys [OF assms(1), of path directory] unfolding assms(2)
  by (auto simp: obeys_def create_spec_def creatable_def)

theorem fs_create_exact_witness:
  "fst (course_fs_create sample_fs (Some ''/d/g'') False) \<and> \<not> fst (course_fs_create sample_fs (Some ''/d'') False) \<and>
   fs_abs (snd (course_fs_create sample_fs (Some ''/d/g'') False)) [''d'', ''g''] = Some (File [])"
  using fs_create_exact [OF sample_facts(1) prod.collapse [symmetric], of "Some ''/d/g''" False]
    fs_create_exact [OF sample_facts(1) prod.collapse [symmetric], of "Some ''/d''" False]
  by (simp add: sample_facts(2) path_facts)

text \<open>Write errors: a write is refused, and no entry changes, exactly when the data pointer is missing, the path
  does not name a file (or names it with a trailing slash), or the write would end past 64 KiB; otherwise
  it puts the bytes at the offset, filling a gap after the old end with zeros, and changes no other entry.\<close>

theorem fs_write_errors:
  assumes "fs_inv fs" "course_fs_write fs path off data = (ok, fs')"
  shows "(\<not> ok \<longleftrightarrow> data = None \<or> (\<nexists>bs. lookup_tree (fs_abs fs) path = Some (File bs)) \<or>
        (\<exists>d. data = Some d \<and> COURSE_FS_MAX_DATA < off + length d)) \<and>
    (\<not> ok \<longrightarrow> fs_abs fs' = fs_abs fs) \<and>
    (\<forall>d bs. ok \<and> data = Some d \<and> lookup_tree (fs_abs fs) path = Some (File bs) \<longrightarrow>
       fs_abs fs' = (fs_abs fs)(names_of path \<mapsto> File (take off (bs @ replicate (off - length bs) 0) @ d @ drop (off + length d) bs)))"
  using write_obeys [OF assms(1), of path off data] unfolding assms(2) splice_def [symmetric]
  by (auto simp: obeys_def write_spec_def split: option.splits entry.splits if_splits)

theorem fs_write_errors_witness:
  "fs_abs (snd (course_fs_write sample_fs (Some ''/d/f'') 5 (Some [9]))) [''d'', ''f''] = Some (File [0, 0, 7, 8, 0, 9]) \<and>
   \<not> fst (course_fs_write sample_fs (Some ''/d'') 0 (Some [9])) \<and>
   \<not> fst (course_fs_write sample_fs (Some ''/d/f'') 65536 (Some [9]))"
proof -
  note w = fs_write_errors [OF sample_facts(1) prod.collapse [symmetric]]
  have "lookup_tree (fs_abs sample_fs) (Some ''/d/f'') = Some (File [0, 0, 7, 8])" "lookup_tree (fs_abs sample_fs) (Some ''/d'') = Some Dir"
    by (simp_all add: sample_facts(2) lookup_tree_def path_facts)
  then show ?thesis
    using w [of "Some ''/d/f''" 5 "Some [9]"] w [of "Some ''/d''" 0 "Some [9]"] w [of "Some ''/d/f''" 65536 "Some [9]"]
    by (simp add: path_facts)
qed

text \<open>C36: Round trip: after a successful write, reading the same number of bytes at the same offset through any
  spelling of the path returns the bytes written, and every read of another path returns what it returned before.\<close>

theorem fs_read_after_write:
  assumes "fs_inv fs" "course_fs_write fs path off (Some d) = (True, fs')" "absolute path2" "\<not> wants_dir path2"
    "names_of path2 = names_of path"
  shows "fst (course_fs_read fs' path2 off (length d)) = Some d \<and>
    (\<forall>path3 off3 n. names_of path3 \<noteq> names_of path \<longrightarrow> fst (course_fs_read fs' path3 off3 n) = fst (course_fs_read fs path3 off3 n))"
  using cfs.put_get [OF assms] cfs.put_get_other [OF assms(1,2)] by blast

theorem fs_read_after_write_witness:
  "fst (course_fs_read (snd (course_fs_write sample_fs (Some ''/d/f'') 1 (Some [9, 9]))) (Some ''/d//f'') 1 2) = Some [9, 9]"
proof -
  have "lookup_tree (fs_abs sample_fs) (Some ''/d/f'') = Some (File [0, 0, 7, 8])" by (simp add: sample_facts(2) lookup_tree_def path_facts)
  then have "fst (course_fs_write sample_fs (Some ''/d/f'') 1 (Some [9, 9]))"
    using write_obeys [OF sample_facts(1), of "Some ''/d/f''" 1 "Some [9, 9]"] by (simp add: obeys_def write_spec_def)
  then obtain fs' where w: "course_fs_write sample_fs (Some ''/d/f'') 1 (Some [9, 9]) = (True, fs')"
    by (cases "course_fs_write sample_fs (Some ''/d/f'') 1 (Some [9, 9])") auto
  show ?thesis using fs_read_after_write [OF sample_facts(1) w, of "Some ''/d//f''"] w
    by (simp add: path_facts numeral_2_eq_2)
qed

end
