(* ===== verification/FdProperties.thy ===== *)
theory FdProperties
  imports FdStreams FsProperties
begin

text \<open>The properties of the descriptor table of \<open>course_fd.c\<close> over the file system.\<close>

definition sample_table :: fd_table where
  "sample_table = upd_entry (course_fd_table_init \<lparr>ft_cwd = [], ft_entries = (\<lambda>_. \<lparr>fe_kind = KIND_UNUSED, fe_flags = 0,
     fe_offset = 0, fe_path = []\<rparr>)\<rparr>) 3 (\<lambda>e. \<lparr>fe_kind = KIND_FILE, fe_flags = 3, fe_offset = 1, fe_path = ''/d/f''\<rparr>)"

lemma sample_entry: "ft_entries sample_table 3 = \<lparr>fe_kind = KIND_FILE, fe_flags = 3, fe_offset = 1, fe_path = ''/d/f''\<rparr>"
  by (simp add: sample_table_def upd_entry_def)

lemma sample_write:
  "\<exists>t1 fs1. course_fd_write sample_table sample_fs 3 (Some [9, 9, 5]) = (Inr 3, t1, fs1)"
proof -
  have "lookup_tree (fs_abs sample_fs) (Some ''/d/f'') = Some (File [0, 0, 7, 8])" by (simp add: sample_facts(2) lookup_tree_def path_facts)
  then have "fst (course_fs_write sample_fs (Some ''/d/f'') 1 (Some [9, 9, 5]))"
    using write_obeys [OF sample_facts(1), of "Some ''/d/f''" 1 "Some [9, 9, 5]"] by (simp add: obeys_def write_spec_def)
  then obtain fs1 where "course_fs_write sample_fs (Some ''/d/f'') 1 (Some [9, 9, 5]) = (True, fs1)"
    by (cases "course_fs_write sample_fs (Some ''/d/f'') 1 (Some [9, 9, 5])") auto
  moreover have "fd_entry_at sample_table 3 = Some 3" by (simp add: fd_entry_at_def sample_entry)
  ultimately show ?thesis by (simp add: course_fd_write_def sample_entry)
qed

text \<open>C37: Typing: from the initial table over a formatted file system, every sequence of open, close, read, write,
  seek and change-directory calls, with any arguments, leaves a well-typed table: descriptors 0, 1 and 2
  are the standard streams with their direction, every other descriptor is unused and cleared, or a
  file with an absolute path outside \<open>/proc/\<close>, or a procfs node that is read-only; every path fits its
  buffer, the working directory is absolute, and the file system under it stays well formed.\<close>

theorem fd_tables_stay_typed:
  "let (t', fs') = foldl (run_fd proc) (course_fd_table_init t, course_fs_mkfs_with_storage fs storage d) calls
   in fd_ok t' \<and> fs_inv fs'"
proof -
  have "fd_ok (fst (foldl (run_fd proc) s calls)) \<and> fs_inv (snd (foldl (run_fd proc) s calls))"
    if "fd_ok (fst s)" "fs_inv (snd s)" for s
    using that
  proof (induction calls arbitrary: s)
    case (Cons c calls)
    then show ?case using run_fd_keeps [OF Cons.prems, of proc c] by simp
  qed simp
  from this [of "(course_fd_table_init t, course_fs_mkfs_with_storage fs storage d)"] show ?thesis
    by (simp add: table_init_ok mkfs_inv split_beta)
qed

text \<open>Round trip through a descriptor: what a successful write puts into a file is what comes back when the
  descriptor is set back to where the write began and read in chunks of any sizes that add up to the
  length, and the write reported the whole length.\<close>

theorem fd_write_seek_read:
  assumes "fs_inv fs" "course_fd_write t fs (int i) (Some d) = (Inr n, t1, fs1)"
    "fe_flags (ft_entries t i) AND COURSE_FD_OPEN_READ \<noteq> 0"
    "course_fd_seek t1 fs1 (int i) (fe_offset (ft_entries t i)) = (None, t2, fs2)" "sum_list ns = length d"
  shows "n = length d \<and> fst (read_chunks proc t2 fs2 (int i) ns) = d"
proof -
  let ?e = "ft_entries t i"
  note w = fd_write_file [OF assms(1,2)]
  have at: "fd_entry_at t1 (int i) = Some i" using w(1,3,4) by (simp add: fd_entry_at_Some upd_entry_def)
  then have t2: "ft_entries t2 i = ?e" "fs2 = course_fs_record_seek fs1"
    using assms(4) w(3,4) by (auto simp: course_fd_seek_def upd_entry_def split: if_splits)
  have inv2: "fs_inv fs2" "fs_abs fs2 = fs_abs fs1" using w(6) by (simp_all add: t2 fs_inv_record fs_abs_record)
  obtain bs where l: "lookup_tree (fs_abs fs) (Some (fe_path ?e)) = Some (File bs)"
    and v: "fs_abs fs1 = (fs_abs fs)(names_of (Some (fe_path ?e)) \<mapsto> File (splice bs (fe_offset ?e) d))"
    using write_spec_SomeD [OF cfs.put_view [OF assms(1) w(5)]] by auto
  have "lookup_tree (fs_abs fs2) (Some (fe_path (ft_entries t2 i))) = Some (File (splice bs (fe_offset ?e) d))"
    using l by (auto simp: inv2(2) v t2(1) lookup_tree_def split: if_splits option.splits entry.splits)
  from read_chunks_stream [OF inv2(1) w(1) _ _ this] have
    "fst (read_chunks proc t2 fs2 (int i) ns) = take (length d) (drop (fe_offset ?e) (splice bs (fe_offset ?e) d))"
    using w(4) assms(3,5) by (simp add: t2)
  also have "\<dots> = d" by (intro nth_equalityI) (auto simp: length_splice nth_splice)
  finally show ?thesis using w(2) by simp
qed

theorem fd_write_seek_read_witness:
  "let (r1, t1, fs1) = course_fd_write sample_table sample_fs 3 (Some [9, 9, 5]); (r2, t2, fs2) = course_fd_seek t1 fs1 3 1
   in fst (read_chunks None t2 fs2 3 [1, 2]) = [9, 9, 5]"
proof -
  obtain t1 fs1 where w: "course_fd_write sample_table sample_fs (int 3) (Some [9, 9, 5]) = (Inr 3, t1, fs1)"
    using sample_write by auto
  have "fd_entry_at t1 3 = Some 3" using fd_write_file(3) [OF sample_facts(1) w]
    by (simp add: fd_entry_at_def upd_entry_def sample_entry)
  moreover have "fe_kind (ft_entries t1 3) = KIND_FILE" using fd_write_file(3) [OF sample_facts(1) w]
    by (simp add: upd_entry_def sample_entry)
  ultimately obtain t2 fs2 where s: "course_fd_seek t1 fs1 (int 3) (fe_offset (ft_entries sample_table 3)) = (None, t2, fs2)"
    by (simp add: course_fd_seek_def)
  have "fst (read_chunks None t2 fs2 (int 3) [1, 2]) = [9, 9, 5]"
    using fd_write_seek_read [OF sample_facts(1) w _ s, of "[1, 2]" None] by (simp add: sample_entry)
  then show ?thesis using w s by (simp add: sample_entry)
qed

end
