(* ===== verification/CourseSyscall.thy ===== *)
theory CourseSyscall
  imports CourseProcess CourseFd
begin

text \<open>
  The course system calls (\<open>src/myCPU/guest/kernel/course_syscall.c\<close>) and their libc wrappers
  (\<open>course_libc.c\<close>): the dispatcher checks the user pointers against the sandbox of the process, forwards to
  the descriptor table and the process table, and counts calls and failures.

  The state \<open>sys_world\<close> is the system-call context with what its pointers reach: the user memory, byte by byte,
  the descriptor table with its file system, and the process table (\<open>None\<close> where the pointer is NULL).
  Pointers are 64-bit words; lengths are natural numbers (a sandbox that fills the whole address
  space is not modelled).  A result is the integer the call returns, negative for an error.  The
  procfs reader is a parameter, as in \<open>CourseFd\<close>.
\<close>

abbreviation COURSE_SYSCALL_IO_BUFFER_SIZE :: nat where "COURSE_SYSCALL_IO_BUFFER_SIZE \<equiv> 256"
abbreviation COURSE_SYSCALL_COUNT :: u32 where "COURSE_SYSCALL_COUNT \<equiv> 13"

abbreviation SYSCALL_OK :: int where "SYSCALL_OK \<equiv> 0"
abbreviation ERR_INVALID_SYSCALL :: int where "ERR_INVALID_SYSCALL \<equiv> -1"
abbreviation ERR_BAD_USER_POINTER :: int where "ERR_BAD_USER_POINTER \<equiv> -2"
abbreviation ERR_BAD_FD :: int where "ERR_BAD_FD \<equiv> -3"
abbreviation ERR_NO_SUCH_FILE :: int where "ERR_NO_SUCH_FILE \<equiv> -4"
abbreviation SYSCALL_NO_CHILD :: int where "SYSCALL_NO_CHILD \<equiv> -5"
abbreviation ERR_NO_MEMORY :: int where "ERR_NO_MEMORY \<equiv> -6"

record syscall_stats =
  total_calls :: u32
  calls :: "u32 carray"
  failures :: u32
  last_error :: int

record io_buffer =
  io_bytes :: "u8 carray"
  io_size :: nat

record course_syscall =
  sc_pid :: u32
  sc_user_base :: u64
  sc_user_size :: u64
  sc_exited :: bool
  sc_exit_code :: i32
  sc_stdout :: io_buffer
  sc_stderr :: io_buffer
  sc_stats :: syscall_stats

record sys_world =
  w_sys :: course_syscall
  w_mem :: "nat \<Rightarrow> u8"
  w_fds :: "(fd_table \<times> course_fs) option"
  w_procs :: "process_table option"

subsection \<open>Buffers and counters\<close>

definition clear_buffer :: "u8 carray \<Rightarrow> nat \<Rightarrow> u8 carray" where
  "clear_buffer buffer n = (\<lambda>i. if i < n then 0 else buffer i)"

definition record_call :: "course_syscall \<Rightarrow> u32 \<Rightarrow> course_syscall" where
  "record_call s number =
     (let st = sc_stats s; st1 = st\<lparr>total_calls := total_calls st + 1\<rparr>
      in s\<lparr>sc_stats := if number < COURSE_SYSCALL_COUNT
                        then st1\<lparr>calls := (calls st1)(unat number := calls st1 (unat number) + 1)\<rparr> else st1\<rparr>)"

definition record_result :: "course_syscall \<Rightarrow> int \<Rightarrow> course_syscall" where
  "record_result s r =
     (let st = (sc_stats s)\<lparr>last_error := (if r < 0 then r else SYSCALL_OK)\<rparr>
      in s\<lparr>sc_stats := if r < 0 then st\<lparr>failures := failures st + 1\<rparr> else st\<rparr>)"

definition append_to_buffer :: "io_buffer \<Rightarrow> u8 list \<Rightarrow> io_buffer option" where
  "append_to_buffer b data =
     (if io_size b \<ge> COURSE_SYSCALL_IO_BUFFER_SIZE \<or> length data \<ge> COURSE_SYSCALL_IO_BUFFER_SIZE - io_size b then None
      else let used = io_size b + length data
           in Some \<lparr>io_bytes = (arr_write (io_bytes b) (io_size b) data)(used := 0), io_size = used\<rparr>)"

subsection \<open>User memory\<close>

definition course_syscall_user_range_valid :: "course_syscall \<Rightarrow> u64 \<Rightarrow> nat \<Rightarrow> bool" where
  "course_syscall_user_range_valid s user_ptr n =
     (if user_ptr < sc_user_base s then False
      else if n = 0 then True
      else if sc_user_size s = 0 \<or> user_ptr - sc_user_base s > sc_user_size s then False
      else n \<le> unat (sc_user_size s - (user_ptr - sc_user_base s)))"

definition read_user :: "sys_world \<Rightarrow> u64 \<Rightarrow> nat \<Rightarrow> u8 list" where
  "read_user w ptr n = map (\<lambda>i. w_mem w (unat ptr + i)) [0..<n]"

definition write_user :: "sys_world \<Rightarrow> u64 \<Rightarrow> u8 list \<Rightarrow> sys_world" where
  "write_user w ptr bytes = w\<lparr>w_mem := arr_write (w_mem w) (unat ptr) bytes\<rparr>"

function user_string_scan :: "sys_world \<Rightarrow> u64 \<Rightarrow> nat \<Rightarrow> nat option" where
  "user_string_scan w ptr i =
     (if i < 2 ^ 64 \<and> course_syscall_user_range_valid (w_sys w) ptr (i + 1)
      then if w_mem w (unat ptr + i) = 0 then Some i else user_string_scan w ptr (i + 1)
      else None)"
  by pat_completeness auto
termination by (relation "measure (\<lambda>(w, ptr, i). 2 ^ 64 - i)") auto

declare user_string_scan.simps [simp del]

text \<open>The length of a user string that ends inside the sandbox, if there is one.\<close>

definition user_string_valid :: "sys_world \<Rightarrow> u64 \<Rightarrow> nat option" where
  "user_string_valid w ptr =
     (if ptr = 0 \<or> \<not> course_syscall_user_range_valid (w_sys w) ptr 1 then None else user_string_scan w ptr 0)"

definition user_string :: "sys_world \<Rightarrow> u64 \<Rightarrow> nat \<Rightarrow> cstr" where
  "user_string w ptr n = map (\<lambda>b. char_of (unat b)) (read_user w ptr n)"

subsection \<open>The handlers\<close>

definition c_int :: "u64 \<Rightarrow> int" where
  "c_int v = sint (ucast v :: 32 word)"

definition fd_status :: "fd_error option \<Rightarrow> int" where
  "fd_status r = (case r of None \<Rightarrow> 0 | Some e \<Rightarrow> fd_error_code e)"

definition dispatch_write :: "sys_world \<Rightarrow> u64 \<Rightarrow> u64 \<Rightarrow> nat \<Rightarrow> int \<times> sys_world" where
  "dispatch_write w fd user_ptr n =
     (if \<not> course_syscall_user_range_valid (w_sys w) user_ptr n then (ERR_BAD_USER_POINTER, w)
      else if fd = 1 then
        (case (if user_ptr = 0 then None else append_to_buffer (sc_stdout (w_sys w)) (read_user w user_ptr n)) of
           None \<Rightarrow> (ERR_NO_MEMORY, w)
         | Some b \<Rightarrow> (int n, w\<lparr>w_sys := (w_sys w)\<lparr>sc_stdout := b\<rparr>\<rparr>))
      else if fd = 2 then
        (case (if user_ptr = 0 then None else append_to_buffer (sc_stderr (w_sys w)) (read_user w user_ptr n)) of
           None \<Rightarrow> (ERR_NO_MEMORY, w)
         | Some b \<Rightarrow> (int n, w\<lparr>w_sys := (w_sys w)\<lparr>sc_stderr := b\<rparr>\<rparr>))
      else (ERR_BAD_FD, w))"

definition dispatch_read :: "proc_reader option \<Rightarrow> sys_world \<Rightarrow> u64 \<Rightarrow> u64 \<Rightarrow> nat \<Rightarrow> int \<times> sys_world" where
  "dispatch_read proc w fd user_ptr n =
     (case w_fds w of
        None \<Rightarrow> (ERR_BAD_FD, w)
      | Some (t, fs) \<Rightarrow>
          if \<not> course_syscall_user_range_valid (w_sys w) user_ptr n then (ERR_BAD_USER_POINTER, w)
          else (case course_fd_read proc t fs (c_int fd) (user_ptr \<noteq> 0) n of
               (Inl e, t1, fs1) \<Rightarrow> (fd_error_code e, w\<lparr>w_fds := Some (t1, fs1)\<rparr>)
             | (Inr bytes, t1, fs1) \<Rightarrow> (int (length bytes), write_user (w\<lparr>w_fds := Some (t1, fs1)\<rparr>) user_ptr bytes)))"

definition dispatch_open :: "sys_world \<Rightarrow> u64 \<Rightarrow> u32 \<Rightarrow> int \<times> sys_world" where
  "dispatch_open w path_ptr flags =
     (case w_fds w of
        None \<Rightarrow> (ERR_BAD_FD, w)
      | Some (t, fs) \<Rightarrow>
          (case user_string_valid w path_ptr of
             None \<Rightarrow> (ERR_BAD_USER_POINTER, w)
           | Some n \<Rightarrow>
               (case course_fd_open t fs (Some (user_string w path_ptr n)) flags of
                  (Inl e, t1, fs1) \<Rightarrow> (fd_error_code e, w\<lparr>w_fds := Some (t1, fs1)\<rparr>)
                | (Inr fd, t1, fs1) \<Rightarrow> (int fd, w\<lparr>w_fds := Some (t1, fs1)\<rparr>))))"

definition dispatch_close :: "sys_world \<Rightarrow> u64 \<Rightarrow> int \<times> sys_world" where
  "dispatch_close w fd =
     (case w_fds w of
        None \<Rightarrow> (ERR_BAD_FD, w)
      | Some (t, fs) \<Rightarrow> (case course_fd_close t fs (c_int fd) of (r, t1, fs1) \<Rightarrow> (fd_status r, w\<lparr>w_fds := Some (t1, fs1)\<rparr>)))"

definition dispatch_seek :: "sys_world \<Rightarrow> u64 \<Rightarrow> nat \<Rightarrow> int \<times> sys_world" where
  "dispatch_seek w fd offset =
     (case w_fds w of
        None \<Rightarrow> (ERR_BAD_FD, w)
      | Some (t, fs) \<Rightarrow> (case course_fd_seek t fs (c_int fd) offset of (r, t1, fs1) \<Rightarrow> (fd_status r, w\<lparr>w_fds := Some (t1, fs1)\<rparr>)))"

definition dispatch_fork :: "sys_world \<Rightarrow> u64 \<Rightarrow> int \<times> sys_world" where
  "dispatch_fork w child_name_ptr =
     (case w_procs w of
        None \<Rightarrow> (ERR_NO_MEMORY, w)
      | Some t \<Rightarrow>
          if child_name_ptr \<noteq> 0 \<and> user_string_valid w child_name_ptr = None then (ERR_BAD_USER_POINTER, w)
          else let name = (if child_name_ptr \<noteq> 0
                           then user_string w child_name_ptr (the (user_string_valid w child_name_ptr)) else ''child'')
               in (case course_process_fork t (sc_pid (w_sys w)) (Some name) of
                     (None, t1) \<Rightarrow> (ERR_NO_MEMORY, w\<lparr>w_procs := Some t1\<rparr>)
                   | (Some c, t1) \<Rightarrow> (uint (p_pid (processes t1 c)), w\<lparr>w_procs := Some t1\<rparr>)))"

definition dispatch_exec :: "sys_world \<Rightarrow> u64 \<Rightarrow> u64 \<Rightarrow> int \<times> sys_world" where
  "dispatch_exec w program_ptr argv_ptr =
     (case w_procs w of
        None \<Rightarrow> (ERR_NO_MEMORY, w)
      | Some t \<Rightarrow>
          (case user_string_valid w program_ptr of
             None \<Rightarrow> (ERR_BAD_USER_POINTER, w)
           | Some n \<Rightarrow>
               if argv_ptr \<noteq> 0 \<and> user_string_valid w argv_ptr = None then (ERR_BAD_USER_POINTER, w)
               else let argv = (if argv_ptr \<noteq> 0 then user_string w argv_ptr (the (user_string_valid w argv_ptr)) else []);
                        (r, t1) = course_process_exec t (sc_pid (w_sys w)) (Some (user_string w program_ptr n)) (Some argv);
                        w1 = w\<lparr>w_procs := Some t1\<rparr>
                    in if r = PROCESS_OK then (SYSCALL_OK, w1)
                       else if r = ERR_NO_SUCH_PROGRAM \<or> r = ERR_BAD_ELF then (ERR_NO_SUCH_FILE, w1)
                       else (ERR_NO_MEMORY, w1)))"

text \<open>The common end of wait and waitpid: the status goes to the user if a pointer was given.\<close>

definition finish_wait :: "sys_world \<Rightarrow> u64 \<Rightarrow> process_result \<times> i32 option \<times> process_table \<Rightarrow> int \<times> sys_world" where
  "finish_wait w status_ptr r =
     (case r of (res, status, t1) \<Rightarrow>
        let w1 = w\<lparr>w_procs := Some t1\<rparr> in
        if res \<noteq> PROCESS_OK then (SYSCALL_NO_CHILD, w1)
        else if status_ptr \<noteq> 0
        then (SYSCALL_OK, write_user w1 status_ptr (to_le 4 (case status of Some c \<Rightarrow> c | None \<Rightarrow> 0)))
        else (SYSCALL_OK, w1))"

definition dispatch_waitpid :: "sys_world \<Rightarrow> u32 \<Rightarrow> u64 \<Rightarrow> int \<times> sys_world" where
  "dispatch_waitpid w child_pid status_ptr =
     (case w_procs w of
        None \<Rightarrow> (SYSCALL_NO_CHILD, w)
      | Some t \<Rightarrow>
          if status_ptr \<noteq> 0 \<and> \<not> course_syscall_user_range_valid (w_sys w) status_ptr 4 then (ERR_BAD_USER_POINTER, w)
          else finish_wait w status_ptr (course_process_waitpid t (sc_pid (w_sys w)) child_pid))"

definition dispatch_wait :: "sys_world \<Rightarrow> u64 \<Rightarrow> int \<times> sys_world" where
  "dispatch_wait w status_ptr =
     (case w_procs w of
        None \<Rightarrow> (SYSCALL_NO_CHILD, w)
      | Some t \<Rightarrow>
          if status_ptr \<noteq> 0 \<and> \<not> course_syscall_user_range_valid (w_sys w) status_ptr 4 then (ERR_BAD_USER_POINTER, w)
          else finish_wait w status_ptr (course_process_wait t (sc_pid (w_sys w))))"

definition dispatch_exit :: "sys_world \<Rightarrow> i32 \<Rightarrow> int \<times> sys_world" where
  "dispatch_exit w exit_code =
     (let w1 = w\<lparr>w_sys := (w_sys w)\<lparr>sc_exited := True, sc_exit_code := exit_code\<rparr>\<rparr> in
      case w_procs w of
        None \<Rightarrow> (SYSCALL_OK, w1)
      | Some t \<Rightarrow>
          (case course_process_exit t (sc_pid (w_sys w)) exit_code of
             (False, t1) \<Rightarrow> (SYSCALL_NO_CHILD, w1\<lparr>w_procs := Some t1\<rparr>)
           | (True, t1) \<Rightarrow> (SYSCALL_OK, w1\<lparr>w_procs := Some t1\<rparr>)))"

subsection \<open>The dispatcher\<close>

definition course_syscall_init :: "course_syscall \<Rightarrow> u32 \<Rightarrow> u64 \<Rightarrow> u64 \<Rightarrow> course_syscall" where
  "course_syscall_init s pid user_base user_size = \<lparr>sc_pid = pid, sc_user_base = user_base, sc_user_size = user_size,
     sc_exited = False, sc_exit_code = 0,
     sc_stdout = \<lparr>io_bytes = clear_buffer (io_bytes (sc_stdout s)) COURSE_SYSCALL_IO_BUFFER_SIZE, io_size = 0\<rparr>,
     sc_stderr = \<lparr>io_bytes = clear_buffer (io_bytes (sc_stderr s)) COURSE_SYSCALL_IO_BUFFER_SIZE, io_size = 0\<rparr>,
     sc_stats = \<lparr>total_calls = 0, calls = (\<lambda>i. if i < unat COURSE_SYSCALL_COUNT then 0 else calls (sc_stats s) i),
                 failures = 0, last_error = SYSCALL_OK\<rparr>\<rparr>"

definition syscall_body :: "proc_reader option \<Rightarrow> sys_world \<Rightarrow> u32 \<Rightarrow> u64 \<Rightarrow> u64 \<Rightarrow> u64 \<Rightarrow> int \<times> sys_world" where
  "syscall_body proc w number arg0 arg1 arg2 =
     (if number = 0 then dispatch_read proc w arg0 arg1 (unat arg2)
      else if number = 1 then dispatch_write w arg0 arg1 (unat arg2)
      else if number = 2 then dispatch_open w arg0 (ucast arg1)
      else if number = 3 then dispatch_close w arg0
      else if number = 4 then dispatch_seek w arg0 (unat arg1)
      else if number = 5 then dispatch_exit w (ucast arg0)
      else if number = 6 then dispatch_fork w arg0
      else if number = 7 then dispatch_exec w arg0 arg1
      else if number = 8 then dispatch_wait w arg0
      else if number = 9 then dispatch_waitpid w (ucast arg0) arg1
      else if number = 10 then (uint (sc_pid (w_sys w)), w)
      else (ERR_INVALID_SYSCALL, w))"

definition course_syscall_dispatch ::
  "proc_reader option \<Rightarrow> sys_world \<Rightarrow> u32 \<Rightarrow> u64 \<Rightarrow> u64 \<Rightarrow> u64 \<Rightarrow> u64 \<Rightarrow> int \<times> sys_world" where
  "course_syscall_dispatch proc w number arg0 arg1 arg2 arg3 =
     (let w1 = w\<lparr>w_sys := record_call (w_sys w) number\<rparr>;
          (r, w2) = syscall_body proc w1 number arg0 arg1 arg2
      in (r, w2\<lparr>w_sys := record_result (w_sys w2) r\<rparr>))"

definition course_syscall_stats :: "course_syscall \<Rightarrow> syscall_stats" where
  "course_syscall_stats s = sc_stats s"

definition course_syscall_attach_fd_table :: "sys_world \<Rightarrow> (fd_table \<times> course_fs) option \<Rightarrow> bool \<times> sys_world" where
  "course_syscall_attach_fd_table w fds = (case fds of None \<Rightarrow> (False, w) | Some t \<Rightarrow> (True, w\<lparr>w_fds := Some t\<rparr>))"

definition course_syscall_attach_process_table :: "sys_world \<Rightarrow> process_table option \<Rightarrow> bool \<times> sys_world" where
  "course_syscall_attach_process_table w procs = (case procs of None \<Rightarrow> (False, w) | Some t \<Rightarrow> (True, w\<lparr>w_procs := Some t\<rparr>))"

definition buffer_text :: "io_buffer \<Rightarrow> cstr" where
  "buffer_text b = map (\<lambda>c. char_of (unat c)) (takeWhile (\<lambda>c. c \<noteq> 0) (arr_list (io_bytes b) COURSE_SYSCALL_IO_BUFFER_SIZE))"

definition course_syscall_stdout_equals :: "course_syscall \<Rightarrow> cstr option \<Rightarrow> bool" where
  "course_syscall_stdout_equals s expected = str_eq (Some (buffer_text (sc_stdout s))) expected"

definition course_syscall_stderr_equals :: "course_syscall \<Rightarrow> cstr option \<Rightarrow> bool" where
  "course_syscall_stderr_equals s expected = str_eq (Some (buffer_text (sc_stderr s))) expected"

definition course_syscall_exited :: "course_syscall \<Rightarrow> bool" where
  "course_syscall_exited s = sc_exited s"

definition course_syscall_exit_code :: "course_syscall \<Rightarrow> i32" where
  "course_syscall_exit_code s = sc_exit_code s"

definition course_syscall_name :: "u32 \<Rightarrow> cstr" where
  "course_syscall_name number =
     (if number = 0 then ''read'' else if number = 1 then ''write'' else if number = 2 then ''open''
      else if number = 3 then ''close'' else if number = 4 then ''seek'' else if number = 5 then ''exit''
      else if number = 6 then ''fork'' else if number = 7 then ''exec'' else if number = 8 then ''wait''
      else if number = 9 then ''waitpid'' else if number = 10 then ''getpid'' else if number = 11 then ''ps''
      else if number = 12 then ''kill'' else ''invalid'')"

end
