(* ===== verification/CourseLibc.thy ===== *)
theory CourseLibc
  imports CourseSyscall
begin

text \<open>
  The libc wrappers (\<open>src/myCPU/guest/kernel/course_libc.c\<close>): each turns its C arguments into the arguments
  of the dispatcher.  The libc object is what its pointer reaches, \<open>None\<close> for NULL.
\<close>

type_synonym course_libc = "sys_world option"

definition course_libc_init :: "course_libc \<Rightarrow> sys_world option \<Rightarrow> course_libc" where
  "course_libc_init libc syscalls = syscalls"

definition libc_call :: "proc_reader option \<Rightarrow> course_libc \<Rightarrow> u32 \<Rightarrow> u64 \<Rightarrow> u64 \<Rightarrow> u64 \<Rightarrow> int \<times> course_libc" where
  "libc_call proc libc number arg0 arg1 arg2 =
     (case libc of
        None \<Rightarrow> (ERR_INVALID_SYSCALL, None)
      | Some w \<Rightarrow> (case course_syscall_dispatch proc w number arg0 arg1 arg2 0 of (r, w1) \<Rightarrow> (r, Some w1)))"

definition course_libc_read :: "proc_reader option \<Rightarrow> course_libc \<Rightarrow> i32 \<Rightarrow> u64 \<Rightarrow> u64 \<Rightarrow> int \<times> course_libc" where
  "course_libc_read proc libc fd out n = libc_call proc libc 0 (scast fd) out n"

definition course_libc_write :: "proc_reader option \<Rightarrow> course_libc \<Rightarrow> i32 \<Rightarrow> u64 \<Rightarrow> u64 \<Rightarrow> int \<times> course_libc" where
  "course_libc_write proc libc fd data n = libc_call proc libc 1 (scast fd) data n"

definition course_libc_open :: "proc_reader option \<Rightarrow> course_libc \<Rightarrow> u64 \<Rightarrow> u32 \<Rightarrow> int \<times> course_libc" where
  "course_libc_open proc libc path flags = libc_call proc libc 2 path (ucast flags) 0"

definition course_libc_close :: "proc_reader option \<Rightarrow> course_libc \<Rightarrow> i32 \<Rightarrow> int \<times> course_libc" where
  "course_libc_close proc libc fd = libc_call proc libc 3 (scast fd) 0 0"

definition course_libc_seek :: "proc_reader option \<Rightarrow> course_libc \<Rightarrow> i32 \<Rightarrow> u64 \<Rightarrow> int \<times> course_libc" where
  "course_libc_seek proc libc fd offset = libc_call proc libc 4 (scast fd) offset 0"

definition course_libc_exit :: "proc_reader option \<Rightarrow> course_libc \<Rightarrow> i32 \<Rightarrow> int \<times> course_libc" where
  "course_libc_exit proc libc code = libc_call proc libc 5 (scast code) 0 0"

definition course_libc_fork :: "proc_reader option \<Rightarrow> course_libc \<Rightarrow> u64 \<Rightarrow> int \<times> course_libc" where
  "course_libc_fork proc libc child_name = libc_call proc libc 6 child_name 0 0"

definition course_libc_exec :: "proc_reader option \<Rightarrow> course_libc \<Rightarrow> u64 \<Rightarrow> u64 \<Rightarrow> int \<times> course_libc" where
  "course_libc_exec proc libc program_name argv = libc_call proc libc 7 program_name argv 0"

definition course_libc_waitpid :: "proc_reader option \<Rightarrow> course_libc \<Rightarrow> i32 \<Rightarrow> u64 \<Rightarrow> int \<times> course_libc" where
  "course_libc_waitpid proc libc child_pid out_status = libc_call proc libc 9 (scast child_pid) out_status 0"

end
