(* ===== verification/SyscallSandbox.thy ===== *)
theory SyscallSandbox
  imports CourseLibc
begin

text \<open>
  The system calls see and change no user memory outside the sandbox of the process, and they count
  every call and every failure.
\<close>

subsection \<open>The sandbox\<close>

definition in_box :: "course_syscall \<Rightarrow> nat \<Rightarrow> bool" where
  "in_box s a \<longleftrightarrow> unat (sc_user_base s) \<le> a \<and> a < unat (sc_user_base s) + unat (sc_user_size s)"

lemma user_range_valid_iff:
  "course_syscall_user_range_valid s p n \<longleftrightarrow>
     sc_user_base s \<le> p \<and> (n = 0 \<or> unat p + n \<le> unat (sc_user_base s) + unat (sc_user_size s))"
proof (cases "sc_user_base s \<le> p")
  case True
  then have d: "unat (p - sc_user_base s) = unat p - unat (sc_user_base s)" by (simp add: unat_sub)
  have le: "unat (sc_user_base s) \<le> unat p" using True by (simp add: word_le_nat_alt)
  show ?thesis
  proof (cases "p - sc_user_base s \<le> sc_user_size s")
    case small: True
    then have "unat (sc_user_size s - (p - sc_user_base s)) = unat (sc_user_size s) - (unat p - unat (sc_user_base s))"
      "unat p - unat (sc_user_base s) \<le> unat (sc_user_size s)"
      by (simp_all add: unat_sub d word_le_nat_alt)
    moreover have "sc_user_size s = 0 \<longleftrightarrow> unat (sc_user_size s) = 0" by (simp add: unat_eq_0)
    ultimately show ?thesis using True small le by (auto simp: course_syscall_user_range_valid_def not_less)
  next
    case False
    then have "unat (sc_user_size s) < unat p - unat (sc_user_base s)" by (simp add: word_le_nat_alt d)
    then show ?thesis using True False by (auto simp: course_syscall_user_range_valid_def)
  qed
next
  case False
  then show ?thesis by (simp add: course_syscall_user_range_valid_def not_le)
qed

lemma range_in_box:
  "course_syscall_user_range_valid s p n \<Longrightarrow> i < n \<Longrightarrow> in_box s (unat p + i)"
  by (auto simp: user_range_valid_iff in_box_def word_le_nat_alt)

lemma range_valid_mono:
  "course_syscall_user_range_valid s p n \<Longrightarrow> m \<le> n \<Longrightarrow> course_syscall_user_range_valid s p m"
  by (auto simp: user_range_valid_iff)

text \<open>Two worlds that differ at most in the user memory outside the sandbox.\<close>

definition alike :: "sys_world \<Rightarrow> sys_world \<Rightarrow> bool" where
  "alike w v \<longleftrightarrow> w_sys v = w_sys w \<and> w_fds v = w_fds w \<and> w_procs v = w_procs w \<and>
     (\<forall>a. in_box (w_sys w) a \<longrightarrow> w_mem v a = w_mem w a)"

definition box_kept :: "sys_world \<Rightarrow> sys_world \<Rightarrow> bool" where
  "box_kept w w' \<longleftrightarrow> in_box (w_sys w') = in_box (w_sys w) \<and> (\<forall>a. \<not> in_box (w_sys w) a \<longrightarrow> w_mem w' a = w_mem w a)"

definition confined :: "(sys_world \<Rightarrow> int \<times> sys_world) \<Rightarrow> bool" where
  "confined f \<longleftrightarrow> (\<forall>w v. alike w v \<longrightarrow>
     fst (f v) = fst (f w) \<and> alike (snd (f w)) (snd (f v)) \<and> box_kept w (snd (f w)) \<and> box_kept v (snd (f v)))"

lemma alike_read_user:
  "alike w v \<Longrightarrow> course_syscall_user_range_valid (w_sys w) p n \<Longrightarrow> read_user v p n = read_user w p n"
  by (auto simp: read_user_def alike_def dest: range_in_box)

lemma alike_string_scan: "alike w v \<Longrightarrow> user_string_scan v p i = user_string_scan w p i"
proof (induction w p i rule: user_string_scan.induct)
  case (1 w p i)
  show ?case
  proof (cases "i < 2 ^ 64 \<and> course_syscall_user_range_valid (w_sys w) p (i + 1)")
    case True
    then have "w_mem v (unat p + i) = w_mem w (unat p + i)"
      using 1(2) range_in_box [of "w_sys w" p "i + 1" i] by (simp add: alike_def)
    then show ?thesis using 1 True by (simp add: user_string_scan.simps [of v p i] user_string_scan.simps [of w p i] alike_def)
  next
    case False
    moreover have "w_sys v = w_sys w" using 1(2) by (simp add: alike_def)
    ultimately show ?thesis by (auto simp: user_string_scan.simps [of v p i] user_string_scan.simps [of w p i])
  qed
qed

lemma scan_range: "user_string_scan w p i = Some n \<Longrightarrow> course_syscall_user_range_valid (w_sys w) p (n + 1)"
proof (induction w p i rule: user_string_scan.induct)
  case (1 w p i)
  then show ?case by (simp add: user_string_scan.simps [of w p i] split: if_splits)
qed

lemma alike_string:
  assumes "alike w v"
  shows "user_string_valid v p = user_string_valid w p"
    and "user_string_valid w p = Some n \<Longrightarrow> user_string v p n = user_string w p n"
proof -
  show "user_string_valid v p = user_string_valid w p"
    using assms alike_string_scan [OF assms] by (simp add: user_string_valid_def alike_def)
  assume "user_string_valid w p = Some n"
  then have "course_syscall_user_range_valid (w_sys w) p n"
    using scan_range range_valid_mono by (force simp: user_string_valid_def split: if_splits)
  then show "user_string v p n = user_string w p n" using alike_read_user [OF assms] by (simp add: user_string_def)
qed

lemma alike_write_user:
  assumes "alike w v" "course_syscall_user_range_valid (w_sys w) p (length bs)"
  shows "alike (write_user w p bs) (write_user v p bs)" "box_kept w (write_user w p bs)" "box_kept v (write_user v p bs)"
proof -
  have "\<not> (unat p \<le> a \<and> a < unat p + length bs)" if "\<not> in_box (w_sys w) a" for a
  proof
    assume "unat p \<le> a \<and> a < unat p + length bs"
    then have "unat p \<le> a" "a - unat p < length bs" by linarith+
    then show False using that range_in_box [OF assms(2), of "a - unat p"] by simp
  qed
  then show "alike (write_user w p bs) (write_user v p bs)" "box_kept w (write_user w p bs)" "box_kept v (write_user v p bs)"
    using assms(1) by (auto simp: alike_def box_kept_def write_user_def arr_write_def)
qed

subsection \<open>Every handler stays inside\<close>

lemma confinedI:
  assumes "\<And>w v. alike w v \<Longrightarrow>
     fst (f v) = fst (f w) \<and> alike (snd (f w)) (snd (f v)) \<and> box_kept w (snd (f w)) \<and> box_kept v (snd (f v))"
  shows "confined f"
  using assms by (simp add: confined_def)

lemma fd_read_length:
  assumes "course_fd_read proc t fs fd out n = (Inr bs, t', fs')"
  shows "length bs \<le> n"
proof -
  have "length b = k" if "course_fs_read fs path off k = (Some b, fs1)" for fs path off k b fs1
    using that by (auto simp: course_fs_read_def read_bytes_def Let_def split: prod.splits option.splits if_splits)
  then show ?thesis using assms
    by (auto simp: course_fd_read_def Let_def split: option.splits if_splits prod.splits)
qed

lemma read_confined: "confined (\<lambda>w. dispatch_read proc w fd p n)"
proof (rule confinedI)
  fix w v assume a: "alike w v"
  then have eq: "w_sys v = w_sys w" "w_fds v = w_fds w" by (simp_all add: alike_def)
  show "fst (dispatch_read proc v fd p n) = fst (dispatch_read proc w fd p n) \<and>
      alike (snd (dispatch_read proc w fd p n)) (snd (dispatch_read proc v fd p n)) \<and>
      box_kept w (snd (dispatch_read proc w fd p n)) \<and> box_kept v (snd (dispatch_read proc v fd p n))"
  proof (cases "w_fds w")
    case None
    then show ?thesis using a eq by (simp add: dispatch_read_def box_kept_def)
  next
    case (Some tf)
    obtain t fs where tf: "tf = (t, fs)" by (cases tf)
    obtain r t1 fs1 where rd: "course_fd_read proc t fs (c_int fd) (p \<noteq> 0) n = (r, t1, fs1)"
      by (cases "course_fd_read proc t fs (c_int fd) (p \<noteq> 0) n")
    have a1: "alike (w\<lparr>w_fds := f\<rparr>) (v\<lparr>w_fds := f\<rparr>)" for f using a by (simp add: alike_def)
    show ?thesis
    proof (cases "course_syscall_user_range_valid (w_sys w) p n")
      case False
      then show ?thesis using Some tf a eq by (simp add: dispatch_read_def box_kept_def)
    next
      case True
      show ?thesis
      proof (cases r)
        case (Inl e)
        then show ?thesis using Some tf a1 eq rd True by (simp add: dispatch_read_def box_kept_def)
      next
        case (Inr bs)
        then have "course_syscall_user_range_valid (w_sys (w\<lparr>w_fds := Some (t1, fs1)\<rparr>)) p (length bs)"
          using fd_read_length rd range_valid_mono [OF True] by simp
        note wr = alike_write_user [OF a1 this]
        show ?thesis using Some tf eq rd True Inr wr by (simp add: dispatch_read_def box_kept_def)
      qed
    qed
  qed
qed

lemma write_confined: "confined (\<lambda>w. dispatch_write w fd p n)"
proof (rule confinedI)
  fix w v assume a: "alike w v"
  then have eq: "w_sys v = w_sys w" by (simp add: alike_def)
  have up: "alike (w\<lparr>w_sys := (w_sys w)\<lparr>sc_stdout := b\<rparr>\<rparr>) (v\<lparr>w_sys := (w_sys w)\<lparr>sc_stdout := b\<rparr>\<rparr>)"
    "alike (w\<lparr>w_sys := (w_sys w)\<lparr>sc_stderr := b\<rparr>\<rparr>) (v\<lparr>w_sys := (w_sys w)\<lparr>sc_stderr := b\<rparr>\<rparr>)" for b
    using a by (auto simp: alike_def in_box_def)
  have box: "in_box ((w_sys w)\<lparr>sc_stdout := b\<rparr>) = in_box (w_sys w)" "in_box ((w_sys w)\<lparr>sc_stderr := b\<rparr>) = in_box (w_sys w)" for b
    by (simp_all add: in_box_def fun_eq_iff)
  show "fst (dispatch_write v fd p n) = fst (dispatch_write w fd p n) \<and>
      alike (snd (dispatch_write w fd p n)) (snd (dispatch_write v fd p n)) \<and>
      box_kept w (snd (dispatch_write w fd p n)) \<and> box_kept v (snd (dispatch_write v fd p n))"
  proof (cases "course_syscall_user_range_valid (w_sys w) p n")
    case False
    then show ?thesis using a eq by (simp add: dispatch_write_def box_kept_def)
  next
    case True
    then show ?thesis using a eq alike_read_user [OF a True] up box
      by (auto simp: dispatch_write_def box_kept_def split: option.split)
  qed
qed

lemma fd_confined:
  "confined (\<lambda>w. dispatch_open w p flags)" "confined (\<lambda>w. dispatch_close w fd)" "confined (\<lambda>w. dispatch_seek w fd off)"
proof -
  show "confined (\<lambda>w. dispatch_open w p flags)"
  proof (rule confinedI)
    fix w v assume a: "alike w v"
    then have eq: "w_fds v = w_fds w" and up: "alike (w\<lparr>w_fds := f\<rparr>) (v\<lparr>w_fds := f\<rparr>)" for f by (simp_all add: alike_def)
    show "fst (dispatch_open v p flags) = fst (dispatch_open w p flags) \<and>
        alike (snd (dispatch_open w p flags)) (snd (dispatch_open v p flags)) \<and>
        box_kept w (snd (dispatch_open w p flags)) \<and> box_kept v (snd (dispatch_open v p flags))"
      using a up alike_string [OF a]
      by (cases "user_string_valid w p") (auto simp: dispatch_open_def eq box_kept_def split: option.split prod.split sum.split)
  qed
  show "confined (\<lambda>w. dispatch_close w fd)" "confined (\<lambda>w. dispatch_seek w fd off)"
    by (rule confinedI; auto simp: dispatch_close_def dispatch_seek_def alike_def box_kept_def split: option.split prod.split)+
qed

lemma process_confined:
  "confined (\<lambda>w. dispatch_fork w p)" "confined (\<lambda>w. dispatch_exec w p q)" "confined (\<lambda>w. dispatch_exit w code)"
proof -
  show "confined (\<lambda>w. dispatch_fork w p)"
  proof (rule confinedI)
    fix w v assume a: "alike w v"
    then have eq: "w_procs v = w_procs w" "w_sys v = w_sys w" and up: "alike (w\<lparr>w_procs := f\<rparr>) (v\<lparr>w_procs := f\<rparr>)" for f
      by (simp_all add: alike_def)
    show "fst (dispatch_fork v p) = fst (dispatch_fork w p) \<and> alike (snd (dispatch_fork w p)) (snd (dispatch_fork v p)) \<and>
        box_kept w (snd (dispatch_fork w p)) \<and> box_kept v (snd (dispatch_fork v p))"
      using a up alike_string [OF a]
      by (cases "user_string_valid w p") (auto simp: dispatch_fork_def eq box_kept_def Let_def split: option.split prod.split)
  qed
  show "confined (\<lambda>w. dispatch_exec w p q)"
  proof (rule confinedI)
    fix w v assume a: "alike w v"
    then have eq: "w_procs v = w_procs w" "w_sys v = w_sys w" and up: "alike (w\<lparr>w_procs := f\<rparr>) (v\<lparr>w_procs := f\<rparr>)" for f
      by (simp_all add: alike_def)
    show "fst (dispatch_exec v p q) = fst (dispatch_exec w p q) \<and> alike (snd (dispatch_exec w p q)) (snd (dispatch_exec v p q)) \<and>
        box_kept w (snd (dispatch_exec w p q)) \<and> box_kept v (snd (dispatch_exec v p q))"
      using a up alike_string [OF a]
      by (cases "user_string_valid w p"; cases "user_string_valid w q")
        (auto simp: dispatch_exec_def eq box_kept_def Let_def split: option.split prod.split)
  qed
  show "confined (\<lambda>w. dispatch_exit w code)"
    by (rule confinedI; auto simp: dispatch_exit_def alike_def box_kept_def in_box_def Let_def split: option.split prod.split bool.split)
qed

lemma finish_wait_confined:
  assumes a: "alike w v" and p: "p \<noteq> 0 \<Longrightarrow> course_syscall_user_range_valid (w_sys w) p 4"
  shows "fst (finish_wait v p r) = fst (finish_wait w p r) \<and> alike (snd (finish_wait w p r)) (snd (finish_wait v p r)) \<and>
    box_kept w (snd (finish_wait w p r)) \<and> box_kept v (snd (finish_wait v p r))"
proof -
  obtain res st t where r: "r = (res, st, t)" by (cases r)
  have a1: "alike (w\<lparr>w_procs := Some t\<rparr>) (v\<lparr>w_procs := Some t\<rparr>)" using a by (simp add: alike_def)
  show ?thesis
  proof (cases "res = PROCESS_OK \<and> p \<noteq> 0")
    case True
    then have "course_syscall_user_range_valid (w_sys (w\<lparr>w_procs := Some t\<rparr>)) p (length (to_le 4 c))" for c :: i32
      using p by (simp add: to_le_def)
    note wr = alike_write_user [OF a1 this]
    show ?thesis using True wr by (simp add: finish_wait_def r Let_def box_kept_def)
  next
    case False
    then show ?thesis using a1 by (auto simp: finish_wait_def r Let_def box_kept_def)
  qed
qed

lemma wait_confined: "confined (\<lambda>w. dispatch_waitpid w cpid p)" "confined (\<lambda>w. dispatch_wait w p)"
proof -
  have "fst (dispatch_waitpid v cpid p) = fst (dispatch_waitpid w cpid p) \<and>
      alike (snd (dispatch_waitpid w cpid p)) (snd (dispatch_waitpid v cpid p)) \<and>
      box_kept w (snd (dispatch_waitpid w cpid p)) \<and> box_kept v (snd (dispatch_waitpid v cpid p))" if a: "alike w v" for w v
  proof (cases "w_procs w = None \<or> p \<noteq> 0 \<and> \<not> course_syscall_user_range_valid (w_sys w) p 4")
    case True
    then show ?thesis using a by (auto simp: dispatch_waitpid_def box_kept_def alike_def split: option.split)
  next
    case False
    then obtain t where t: "w_procs w = Some t" "w_procs v = Some t" "w_sys v = w_sys w" using a by (auto simp: alike_def)
    from False have ok: "\<not> (p \<noteq> 0 \<and> \<not> course_syscall_user_range_valid (w_sys w) p 4)" by blast
    then have runs: "dispatch_waitpid w cpid p = finish_wait w p (course_process_waitpid t (sc_pid (w_sys w)) cpid)"
      "dispatch_waitpid v cpid p = finish_wait v p (course_process_waitpid t (sc_pid (w_sys w)) cpid)"
      unfolding dispatch_waitpid_def t by (simp_all only: option.case if_not_P not_False_eq_True)
    from ok have "p \<noteq> 0 \<Longrightarrow> course_syscall_user_range_valid (w_sys w) p 4" by blast
    then show ?thesis unfolding runs by (rule finish_wait_confined [OF a])
  qed
  then show "confined (\<lambda>w. dispatch_waitpid w cpid p)" by (rule confinedI)
  have "fst (dispatch_wait v p) = fst (dispatch_wait w p) \<and>
      alike (snd (dispatch_wait w p)) (snd (dispatch_wait v p)) \<and>
      box_kept w (snd (dispatch_wait w p)) \<and> box_kept v (snd (dispatch_wait v p))" if a: "alike w v" for w v
  proof (cases "w_procs w = None \<or> p \<noteq> 0 \<and> \<not> course_syscall_user_range_valid (w_sys w) p 4")
    case True
    then show ?thesis using a by (auto simp: dispatch_wait_def box_kept_def alike_def split: option.split)
  next
    case False
    then obtain t where t: "w_procs w = Some t" "w_procs v = Some t" "w_sys v = w_sys w" using a by (auto simp: alike_def)
    from False have ok: "\<not> (p \<noteq> 0 \<and> \<not> course_syscall_user_range_valid (w_sys w) p 4)" by blast
    then have runs: "dispatch_wait w p = finish_wait w p (course_process_wait t (sc_pid (w_sys w)))"
      "dispatch_wait v p = finish_wait v p (course_process_wait t (sc_pid (w_sys w)))"
      unfolding dispatch_wait_def t by (simp_all only: option.case if_not_P not_False_eq_True)
    from ok have "p \<noteq> 0 \<Longrightarrow> course_syscall_user_range_valid (w_sys w) p 4" by blast
    then show ?thesis unfolding runs by (rule finish_wait_confined [OF a])
  qed
  then show "confined (\<lambda>w. dispatch_wait w p)" by (rule confinedI)
qed

lemma confined_if: "confined f \<Longrightarrow> confined g \<Longrightarrow> confined (\<lambda>w. if b then f w else g w)"
  by (cases b) simp_all

lemma body_confined: "confined (\<lambda>w. syscall_body proc w number a0 a1 a2)"
proof -
  have const: "confined (\<lambda>w. (g w, w))" if "\<And>w v. alike w v \<Longrightarrow> g v = g w" for g :: "sys_world \<Rightarrow> int"
    using that by (auto simp: confined_def box_kept_def)
  have "confined (\<lambda>w. (uint (sc_pid (w_sys w)), w))" "confined (\<lambda>w. (ERR_INVALID_SYSCALL, w))"
    by (rule const; simp add: alike_def)+
  then show ?thesis
    unfolding syscall_body_def
    by (intro confined_if read_confined write_confined fd_confined process_confined wait_confined) assumption+
qed

lemma record_box: "in_box (record_call s number) = in_box s" "in_box (record_result s r) = in_box s"
  by (auto simp: in_box_def fun_eq_iff record_call_def record_result_def Let_def)

lemma dispatch_confined: "confined (\<lambda>w. course_syscall_dispatch proc w number a0 a1 a2 a3)"
proof (rule confinedI)
  fix w v assume a: "alike w v"
  let ?w = "w\<lparr>w_sys := record_call (w_sys w) number\<rparr>" and ?v = "v\<lparr>w_sys := record_call (w_sys v) number\<rparr>"
  have "alike ?w ?v" using a by (simp add: alike_def record_box)
  then have b: "fst (syscall_body proc ?v number a0 a1 a2) = fst (syscall_body proc ?w number a0 a1 a2) \<and>
      alike (snd (syscall_body proc ?w number a0 a1 a2)) (snd (syscall_body proc ?v number a0 a1 a2)) \<and>
      box_kept ?w (snd (syscall_body proc ?w number a0 a1 a2)) \<and> box_kept ?v (snd (syscall_body proc ?v number a0 a1 a2))"
    using body_confined [of proc number a0 a1 a2] unfolding confined_def by blast
  obtain r w2 v2 where "syscall_body proc ?w number a0 a1 a2 = (r, w2)" "syscall_body proc ?v number a0 a1 a2 = (r, v2)"
    using b by (metis prod.collapse)
  then show "fst (course_syscall_dispatch proc v number a0 a1 a2 a3) = fst (course_syscall_dispatch proc w number a0 a1 a2 a3) \<and>
      alike (snd (course_syscall_dispatch proc w number a0 a1 a2 a3)) (snd (course_syscall_dispatch proc v number a0 a1 a2 a3)) \<and>
      box_kept w (snd (course_syscall_dispatch proc w number a0 a1 a2 a3)) \<and>
      box_kept v (snd (course_syscall_dispatch proc v number a0 a1 a2 a3))"
    using b a by (auto simp: course_syscall_dispatch_def alike_def box_kept_def record_box)
qed

subsection \<open>Counting\<close>

lemma handler_stats:
  "sc_stats (w_sys (snd (dispatch_read proc w fd p n))) = sc_stats (w_sys w)"
  "sc_stats (w_sys (snd (dispatch_write w fd p n))) = sc_stats (w_sys w)"
  "sc_stats (w_sys (snd (dispatch_open w p flags))) = sc_stats (w_sys w)"
  "sc_stats (w_sys (snd (dispatch_close w fd))) = sc_stats (w_sys w)"
  "sc_stats (w_sys (snd (dispatch_seek w fd off))) = sc_stats (w_sys w)"
  "sc_stats (w_sys (snd (dispatch_exit w code))) = sc_stats (w_sys w)"
  "sc_stats (w_sys (snd (dispatch_fork w p))) = sc_stats (w_sys w)"
  "sc_stats (w_sys (snd (finish_wait w p r))) = sc_stats (w_sys w)"
  by (simp_all add: dispatch_read_def dispatch_write_def dispatch_open_def dispatch_close_def dispatch_seek_def
      dispatch_exit_def dispatch_fork_def finish_wait_def write_user_def Let_def split: option.split prod.split sum.split bool.split)

lemma handler_stats_exec:
  "sc_stats (w_sys (snd (dispatch_exec w p q))) = sc_stats (w_sys w)"
  "sc_stats (w_sys (snd (dispatch_waitpid w cpid p))) = sc_stats (w_sys w)"
  "sc_stats (w_sys (snd (dispatch_wait w p))) = sc_stats (w_sys w)"
  by (simp_all add: dispatch_exec_def dispatch_wait_def dispatch_waitpid_def handler_stats Let_def split: option.split prod.split)

lemma body_stats: "sc_stats (w_sys (snd (syscall_body proc w number a0 a1 a2))) = sc_stats (w_sys w)"
  by (simp add: syscall_body_def handler_stats handler_stats_exec)

text \<open>The error codes of the descriptor table reach the user as they are, although the two numberings differ:
  reading a descriptor that is not open reports \<open>ERR_INVALID_SYSCALL\<close>, a file that has vanished \<open>ERR_BAD_FD\<close>.\<close>

lemma fd_errors_not_converted:
  assumes "w_fds w = Some (t, fs)" "course_syscall_user_range_valid (w_sys w) p n"
    "course_fd_read proc t fs (c_int fd) (p \<noteq> 0) n = (Inl e, t1, fs1)"
  shows "fst (dispatch_read proc w fd p n) = fd_error_code e"
    "e = FD_BAD_FD \<Longrightarrow> fst (dispatch_read proc w fd p n) = ERR_INVALID_SYSCALL"
    "e = FD_NO_SUCH_FILE \<Longrightarrow> fst (dispatch_read proc w fd p n) = ERR_BAD_FD"
    "e = FD_PERMISSION_DENIED \<Longrightarrow> fst (dispatch_read proc w fd p n) = ERR_NO_SUCH_FILE"
  using assms by (simp_all add: dispatch_read_def)

subsection \<open>The properties\<close>

definition sample_world :: sys_world where
  "sample_world = \<lparr>w_sys = course_syscall_init \<lparr>sc_pid = 0, sc_user_base = 0, sc_user_size = 0, sc_exited = True, sc_exit_code = 1,
       sc_stdout = \<lparr>io_bytes = (\<lambda>_. 0), io_size = 0\<rparr>, sc_stderr = \<lparr>io_bytes = (\<lambda>_. 0), io_size = 0\<rparr>,
       sc_stats = \<lparr>total_calls = 5, calls = (\<lambda>_. 1), failures = 2, last_error = 0\<rparr>\<rparr> 7 0x1000 16,
     w_mem = (\<lambda>_. 65), w_fds = None, w_procs = None\<rparr>"

text \<open>C38: Confinement: a system call neither reads nor writes user memory outside the sandbox of the process: in two
  worlds that agree on everything but that memory every call with any arguments returns the same result
  and has the same effects, and it leaves every byte outside the sandbox as it was.\<close>

theorem syscall_confined:
  assumes "w_sys v = w_sys w" "w_fds v = w_fds w" "w_procs v = w_procs w"
    "\<And>a. in_box (w_sys w) a \<Longrightarrow> w_mem v a = w_mem w a"
  shows "let (r, w') = course_syscall_dispatch proc w number arg0 arg1 arg2 arg3;
             (r2, v') = course_syscall_dispatch proc v number arg0 arg1 arg2 arg3
         in r2 = r \<and> w_sys v' = w_sys w' \<and> w_fds v' = w_fds w' \<and> w_procs v' = w_procs w' \<and>
            (\<forall>a. if in_box (w_sys w) a then w_mem v' a = w_mem w' a else w_mem w' a = w_mem w a \<and> w_mem v' a = w_mem v a)"
proof -
  let ?f = "\<lambda>w. course_syscall_dispatch proc w number arg0 arg1 arg2 arg3"
  have "alike w v" using assms by (simp add: alike_def)
  then have "fst (?f v) = fst (?f w)" "alike (snd (?f w)) (snd (?f v))" "box_kept w (snd (?f w))" "box_kept v (snd (?f v))"
    using dispatch_confined [of proc number arg0 arg1 arg2 arg3] unfolding confined_def by blast+
  then show ?thesis by (auto simp: alike_def box_kept_def split_beta assms(1))
qed

theorem syscall_confined_witness:
  "let (r, w') = course_syscall_dispatch None sample_world 1 1 0x1000 3 0;
       (r2, v') = course_syscall_dispatch None (sample_world\<lparr>w_mem := (\<lambda>a. if a < 0x1000 then 0 else 65)\<rparr>) 1 1 0x1000 3 0
   in r2 = r \<and> w_sys v' = w_sys w' \<and> w_fds v' = w_fds w' \<and> w_procs v' = w_procs w' \<and>
      (\<forall>a. if in_box (w_sys sample_world) a then w_mem v' a = w_mem w' a
           else w_mem w' a = w_mem sample_world a \<and>
                w_mem v' a = w_mem (sample_world\<lparr>w_mem := (\<lambda>a. if a < 0x1000 then 0 else 65)\<rparr>) a)"
proof -
  let ?v = "sample_world\<lparr>w_mem := (\<lambda>a. if a < 0x1000 then 0 else 65)\<rparr>"
  have "w_mem ?v a = w_mem sample_world a" if "in_box (w_sys sample_world) a" for a
    using that by (simp add: sample_world_def in_box_def course_syscall_init_def)
  then show ?thesis by (intro syscall_confined) simp_all
qed

text \<open>C39: Error accounting: every call is counted once in total and once under its number (for the thirteen known
  numbers), a negative result is counted as a failure and recorded as the last error, a non-negative one
  clears the last error, and every number without a handler, ps and kill included, is refused with
  ERR_INVALID_SYSCALL and changes neither memory nor tables.\<close>

theorem syscall_error_accounting:
  assumes "course_syscall_dispatch proc w number arg0 arg1 arg2 arg3 = (r, w')"
  shows "total_calls (sc_stats (w_sys w')) = total_calls (sc_stats (w_sys w)) + 1 \<and>
    calls (sc_stats (w_sys w')) = (if number < COURSE_SYSCALL_COUNT
      then (calls (sc_stats (w_sys w)))(unat number := calls (sc_stats (w_sys w)) (unat number) + 1) else calls (sc_stats (w_sys w))) \<and>
    failures (sc_stats (w_sys w')) = failures (sc_stats (w_sys w)) + (if r < 0 then 1 else 0) \<and>
    last_error (sc_stats (w_sys w')) = (if r < 0 then r else SYSCALL_OK) \<and>
    (10 < number \<longrightarrow> r = ERR_INVALID_SYSCALL \<and> w_mem w' = w_mem w \<and> w_fds w' = w_fds w \<and> w_procs w' = w_procs w)"
proof -
  let ?w = "w\<lparr>w_sys := record_call (w_sys w) number\<rparr>"
  obtain w2 where b: "syscall_body proc ?w number arg0 arg1 arg2 = (r, w2)" and w': "w' = w2\<lparr>w_sys := record_result (w_sys w2) r\<rparr>"
    using assms by (auto simp: course_syscall_dispatch_def split: prod.splits)
  have st: "sc_stats (w_sys w2) = sc_stats (record_call (w_sys w) number)"
    using body_stats [of proc ?w number arg0 arg1 arg2] b by simp
  have "r = ERR_INVALID_SYSCALL \<and> w2 = ?w" if "10 < number"
  proof -
    have "number \<noteq> 0" "number \<noteq> 1" "number \<noteq> 2" "number \<noteq> 3" "number \<noteq> 4" "number \<noteq> 5" "number \<noteq> 6" "number \<noteq> 7"
      "number \<noteq> 8" "number \<noteq> 9" "number \<noteq> 10" using that by auto
    then show ?thesis using b by (simp add: syscall_body_def)
  qed
  then show ?thesis by (auto simp: w' st record_result_def record_call_def Let_def)
qed

theorem syscall_error_accounting_witness:
  "fst (course_syscall_dispatch None sample_world 12 0 0 0 0) = ERR_INVALID_SYSCALL \<and>
   failures (sc_stats (w_sys (snd (course_syscall_dispatch None sample_world 12 0 0 0 0)))) = 1 \<and>
   calls (sc_stats (w_sys (snd (course_syscall_dispatch None sample_world 12 0 0 0 0)))) 12 = 1"
  using syscall_error_accounting [OF prod.collapse [symmetric], where proc = None and w = sample_world and number = 12
      and ?arg0.0 = 0 and ?arg1.0 = 0 and ?arg2.0 = 0 and ?arg3.0 = 0]
  by (simp add: sample_world_def course_syscall_init_def)

end
