(* ===== verification/L1Cache.thy ===== *)
theory L1Cache
  imports BusDma Mmu
begin

text \<open>
  The simulator's L1 data cache (\<open>src/mem/simple_l1_cache.cpp\<close>): write-through, no allocation on a store
  miss, least recently used replacement, bypassed for everything but RAM.  It is off by default.  Counters
  and the use clock are 64-bit words.
\<close>

record l1_line =
  ln_valid :: bool
  ln_base :: u64
  ln_last_used :: u64
  ln_bytes :: "u8 carray"

record l1_stats =
  st_loads :: u64
  st_stores :: u64
  st_hits :: u64
  st_misses :: u64
  st_evictions :: u64
  st_bypasses :: u64
  st_write_through_stores :: u64

record l1_cache =
  l1_enabled :: bool
  l1_line_size :: u64
  l1_capacity :: nat
  l1_lines :: "l1_line list"
  l1_stats_of :: l1_stats
  l1_use_clock :: u64

definition zero_stats :: l1_stats where
  "zero_stats = \<lparr>st_loads = 0, st_stores = 0, st_hits = 0, st_misses = 0, st_evictions = 0, st_bypasses = 0,
     st_write_through_stores = 0\<rparr>"

definition l1_create :: "bool \<Rightarrow> u64 \<Rightarrow> nat \<Rightarrow> l1_cache" where
  "l1_create enabled line_size capacity =
     \<lparr>l1_enabled = enabled, l1_line_size = (if line_size = 0 then 64 else line_size), l1_capacity = capacity,
      l1_lines = replicate capacity \<lparr>ln_valid = False, ln_base = 0, ln_last_used = 0, ln_bytes = (\<lambda>_. 0)\<rparr>,
      l1_stats_of = zero_stats, l1_use_clock = 0\<rparr>"

definition l1_clear :: "l1_cache \<Rightarrow> l1_cache" where
  "l1_clear c = c\<lparr>l1_stats_of := zero_stats, l1_use_clock := 0,
     l1_lines := map (\<lambda>_. \<lparr>ln_valid = False, ln_base = 0, ln_last_used = 0, ln_bytes = (\<lambda>_. 0)\<rparr>) (l1_lines c)\<rparr>"

definition l1_set_enabled :: "l1_cache \<Rightarrow> bool \<Rightarrow> l1_cache" where
  "l1_set_enabled c enabled = c\<lparr>l1_enabled := enabled\<rparr>"

definition valid_size :: "int \<Rightarrow> bool" where
  "valid_size n \<longleftrightarrow> n = 1 \<or> n = 2 \<or> n = 4 \<or> n = 8"

definition line_base :: "l1_cache \<Rightarrow> u64 \<Rightarrow> u64" where
  "line_base c addr = addr - (addr mod l1_line_size c)"

definition line_offset :: "l1_cache \<Rightarrow> u64 \<Rightarrow> u64" where
  "line_offset c addr = addr - line_base c addr"

definition access_fits_one_line :: "l1_cache \<Rightarrow> u64 \<Rightarrow> int \<Rightarrow> bool" where
  "access_fits_one_line c addr n \<longleftrightarrow> line_offset c addr + word_of_int n \<le> l1_line_size c"

text \<open>A span that the cache may not hold.\<close>

definition uncachable_span :: "span_info \<Rightarrow> bool" where
  "uncachable_span s \<longleftrightarrow> \<not> si_ok s \<or> ri_kind (si_region s) \<noteq> Region_Ram \<or> \<not> ri_cacheable (si_region s) \<or>
     ri_has_side_effect (si_region s)"

definition should_bypass :: "l1_cache \<Rightarrow> 'd bus \<Rightarrow> u64 \<Rightarrow> int \<Rightarrow> bool" where
  "should_bypass c b addr n =
     (if \<not> l1_enabled c \<or> l1_capacity c = 0 \<or> \<not> valid_size n \<or> \<not> access_fits_one_line c addr n then True
      else if uncachable_span (describe_span b addr (word_of_int n)) then True
      else uncachable_span (describe_span b (line_base c addr) (l1_line_size c)))"

definition find_line :: "l1_cache \<Rightarrow> u64 \<Rightarrow> nat option" where
  "find_line c base =
     first_index (\<lambda>i. ln_valid (l1_lines c ! i) \<and> ln_base (l1_lines c ! i) = base) (length (l1_lines c))"

text \<open>\<open>std::min_element\<close>: the first line with the least use stamp.\<close>

definition lru_line :: "l1_line list \<Rightarrow> nat" where
  "lru_line ls = foldl (\<lambda>best i. if ln_last_used (ls ! i) < ln_last_used (ls ! best) then i else best) 0 [1..<length ls]"

definition select_victim :: "l1_cache \<Rightarrow> nat \<times> l1_cache" where
  "select_victim c =
     (case first_index (\<lambda>i. \<not> ln_valid (l1_lines c ! i)) (length (l1_lines c)) of
        Some i \<Rightarrow> (i, c)
      | None \<Rightarrow> (lru_line (l1_lines c),
                 c\<lparr>l1_stats_of := (l1_stats_of c)\<lparr>st_evictions := st_evictions (l1_stats_of c) + 1\<rparr>\<rparr>))"

definition set_line :: "l1_cache \<Rightarrow> nat \<Rightarrow> l1_line \<Rightarrow> l1_cache" where
  "set_line c i ln = c\<lparr>l1_lines := (l1_lines c)[i := ln]\<rparr>"

definition touch :: "l1_cache \<Rightarrow> nat \<Rightarrow> l1_cache" where
  "touch c i =
     (let c1 = c\<lparr>l1_use_clock := l1_use_clock c + 1\<rparr> in
      set_line c1 i ((l1_lines c1 ! i)\<lparr>ln_last_used := l1_use_clock c1\<rparr>))"

text \<open>The refill loop, from byte \<open>i\<close> on with \<open>k\<close> bytes to go.\<close>

fun refill_bytes :: "'d bus \<Rightarrow> u64 \<Rightarrow> nat \<Rightarrow> nat \<Rightarrow> u8 carray \<Rightarrow> bool \<times> u8 carray \<times> 'd bus" where
  "refill_bytes b base i 0 bytes = (True, bytes, b)"
| "refill_bytes b base i (Suc k) bytes =
     (case bus_load b (base + of_nat i) 1 of
        (None, b1) \<Rightarrow> (False, bytes, b1)
      | (Some byte, b1) \<Rightarrow> refill_bytes b1 base (Suc i) k (bytes(i := ucast (byte AND 0xFF))))"

definition refill_line :: "l1_cache \<Rightarrow> 'd bus \<Rightarrow> u64 \<Rightarrow> nat option \<times> l1_cache \<times> 'd bus" where
  "refill_line c b base =
     (case select_victim c of (i, c1) \<Rightarrow>
      let victim = (l1_lines c1 ! i)\<lparr>ln_valid := False, ln_base := base, ln_bytes := (\<lambda>_. 0)\<rparr> in
      case refill_bytes b base 0 (unat (l1_line_size c1)) (ln_bytes victim) of
        (False, bytes, b1) \<Rightarrow> (None, set_line c1 i (victim\<lparr>ln_bytes := bytes\<rparr>), b1)
      | (True, bytes, b1) \<Rightarrow>
          (Some i, touch (set_line c1 i (victim\<lparr>ln_bytes := bytes, ln_valid := True\<rparr>)) i, b1))"

definition read_line_value :: "l1_line \<Rightarrow> u64 \<Rightarrow> int \<Rightarrow> u64" where
  "read_line_value ln offset n =
     foldl (\<lambda>value i. value OR push_bit (i * 8) (ucast (ln_bytes ln (unat (offset + of_nat i))))) 0 [0..<nat n]"

definition write_line_value :: "l1_line \<Rightarrow> u64 \<Rightarrow> u64 \<Rightarrow> int \<Rightarrow> l1_line" where
  "write_line_value ln offset value n =
     ln\<lparr>ln_bytes := foldl (\<lambda>bytes i. bytes(unat (offset + of_nat i) := ucast (drop_bit (i * 8) value AND 0xFF)))
                       (ln_bytes ln) [0..<nat n]\<rparr>"

definition invalidate_range :: "l1_cache \<Rightarrow> u64 \<Rightarrow> u64 \<Rightarrow> l1_cache" where
  "invalidate_range c addr n =
     (if n = 0 then c
      else let access_end = (if n > - 1 - addr then - 1 else addr + n) in
        c\<lparr>l1_lines := map (\<lambda>ln. if ln_valid ln \<and> addr < ln_base ln + l1_line_size c \<and> ln_base ln < access_end
                                then ln\<lparr>ln_valid := False\<rparr> else ln) (l1_lines c)\<rparr>)"

definition count :: "(l1_stats \<Rightarrow> l1_stats) \<Rightarrow> l1_cache \<Rightarrow> l1_cache" where
  "count f c = c\<lparr>l1_stats_of := f (l1_stats_of c)\<rparr>"

definition l1_load :: "l1_cache \<Rightarrow> 'd bus \<Rightarrow> u64 \<Rightarrow> int \<Rightarrow> u64 option \<times> l1_cache \<times> 'd bus" where
  "l1_load c0 b addr n =
     (let c = count (\<lambda>s. s\<lparr>st_loads := st_loads s + 1\<rparr>) c0 in
      if should_bypass c b addr n then
        (let c1 = count (\<lambda>s. s\<lparr>st_bypasses := st_bypasses s + 1\<rparr>) c in
         case bus_load b addr n of (v, b1) \<Rightarrow> (v, c1, b1))
      else case find_line c (line_base c addr) of
        Some i \<Rightarrow>
          (let c1 = touch (count (\<lambda>s. s\<lparr>st_hits := st_hits s + 1\<rparr>) c) i in
           (Some (read_line_value (l1_lines c1 ! i) (line_offset c1 addr) n), c1, b))
      | None \<Rightarrow>
          (let c1 = count (\<lambda>s. s\<lparr>st_misses := st_misses s + 1\<rparr>) c in
           case refill_line c1 b (line_base c addr) of
             (None, c2, b1) \<Rightarrow> (None, c2, b1)
           | (Some i, c2, b1) \<Rightarrow> (Some (read_line_value (l1_lines c2 ! i) (line_offset c2 addr) n), c2, b1)))"

definition l1_store :: "l1_cache \<Rightarrow> 'd bus \<Rightarrow> u64 \<Rightarrow> u64 \<Rightarrow> int \<Rightarrow> bool \<times> l1_cache \<times> 'd bus" where
  "l1_store c0 b addr value n =
     (let c = count (\<lambda>s. s\<lparr>st_stores := st_stores s + 1\<rparr>) c0 in
      if should_bypass c b addr n then
        (let c1 = count (\<lambda>s. s\<lparr>st_bypasses := st_bypasses s + 1\<rparr>) c in
         case bus_store b addr value n of
           (False, b1) \<Rightarrow> (False, c1, b1)
         | (True, b1) \<Rightarrow> (True, invalidate_range c1 addr (word_of_int n), b1))
      else
        let line = find_line c (line_base c addr);
            c1 = (if line \<noteq> None then count (\<lambda>s. s\<lparr>st_hits := st_hits s + 1\<rparr>) c
                  else count (\<lambda>s. s\<lparr>st_misses := st_misses s + 1\<rparr>) c) in
        case bus_store b addr value n of
          (False, b1) \<Rightarrow> (False, c1, b1)
        | (True, b1) \<Rightarrow>
            let c2 = count (\<lambda>s. s\<lparr>st_write_through_stores := st_write_through_stores s + 1\<rparr>) c1 in
            (case line of
               None \<Rightarrow> (True, c2, b1)
             | Some i \<Rightarrow>
                 let c3 = touch c2 i in
                 (True, set_line c3 i (write_line_value (l1_lines c3 ! i) (line_offset c3 addr) value n), b1)))"

text \<open>The data accesses of the MMU (\<open>try_data_load\<close>, \<open>try_data_store\<close> of \<open>address_space.cpp\<close>).\<close>

definition try_data_load :: "l1_cache option \<Rightarrow> 'd bus \<Rightarrow> u64 \<Rightarrow> int \<Rightarrow> u64 option \<times> l1_cache option \<times> 'd bus" where
  "try_data_load cache b paddr n =
     (case cache of
        Some c \<Rightarrow>
          if l1_enabled c then (case l1_load c b paddr n of (v, c1, b1) \<Rightarrow> (v, Some c1, b1))
          else (case bus_load b paddr n of (v, b1) \<Rightarrow> (v, cache, b1))
      | None \<Rightarrow> (case bus_load b paddr n of (v, b1) \<Rightarrow> (v, cache, b1)))"

definition try_data_store :: "l1_cache option \<Rightarrow> 'd bus \<Rightarrow> u64 \<Rightarrow> u64 \<Rightarrow> int \<Rightarrow> bool \<times> l1_cache option \<times> 'd bus" where
  "try_data_store cache b paddr value n =
     (case cache of
        Some c \<Rightarrow>
          if l1_enabled c then (case l1_store c b paddr value n of (ok, c1, b1) \<Rightarrow> (ok, Some c1, b1))
          else (case bus_store b paddr value n of (ok, b1) \<Rightarrow> (ok, cache, b1))
      | None \<Rightarrow> (case bus_store b paddr value n of (ok, b1) \<Rightarrow> (ok, cache, b1)))"

end
