(* ===== verification/L1Coherence.thy ===== *)
theory L1Coherence
  imports L1Cache
begin

text \<open>
  The L1 data cache is transparent to the accesses that go through it: its valid lines are copies of
  RAM, so cached loads and stores give what the bus gives.  Writes to RAM that do not go through it
  leave stale lines.
\<close>

subsection \<open>Values of a line\<close>

lemma from_le_snoc: "from_le (bs @ [x]) = (from_le bs OR push_bit (8 * length bs) (ucast x) :: u64)"
proof (induction bs)
  case (Cons b bs)
  then show ?case by (simp add: or.assoc push_bit_or push_bit_push_bit)
qed simp

lemma read_line_le:
  "read_line_value ln off n = from_le (map (\<lambda>i. ln_bytes ln (unat (off + of_nat i))) [0..<nat n])"
proof -
  have "foldl (\<lambda>value i. value OR push_bit (i * 8) (ucast (f i))) 0 [0..<k] = (from_le (map f [0..<k]) :: u64)" for f k
    by (induction k) (simp_all add: from_le_snoc mult.commute)
  then show ?thesis by (simp add: read_line_value_def)
qed

lemma write_bytes:
  fixes off :: u64
  assumes "unat off + k \<le> 2 ^ 63"
  shows "foldl (\<lambda>bytes i. bytes(unat (off + of_nat i) := g i)) bs [0..<k] j =
    (if unat off \<le> j \<and> j < unat off + k then g (j - unat off) else bs j)"
  using assms
proof (induction k)
  case (Suc k)
  have "unat (off + of_nat k) = unat off + k" using Suc.prems by (simp add: unat_word_ariths unat_of_nat)
  then show ?case using Suc by (auto simp: less_Suc_eq)
qed auto

subsection \<open>Coherence\<close>

definition line_ok :: "l1_cache \<Rightarrow> memory \<Rightarrow> l1_line \<Rightarrow> bool" where
  "line_ok c m ln \<longleftrightarrow> (ln_valid ln \<longrightarrow>
     mem_in_ram (ln_base ln) (unat (l1_line_size c)) \<and> unat (ln_base ln) mod unat (l1_line_size c) = 0 \<and>
     (\<forall>i < unat (l1_line_size c). ln_bytes ln i = ram_byte m (ln_base ln + of_nat i)))"

definition coherent :: "l1_cache \<Rightarrow> memory \<Rightarrow> bool" where
  "coherent c m \<longleftrightarrow> l1_line_size c \<noteq> 0 \<and> length (l1_lines c) = l1_capacity c \<and>
     (\<forall>ln \<in> set (l1_lines c). line_ok c m ln) \<and>
     (\<forall>i < length (l1_lines c). \<forall>j < length (l1_lines c). ln_valid (l1_lines c ! i) \<longrightarrow> ln_valid (l1_lines c ! j) \<longrightarrow>
        ln_base (l1_lines c ! i) = ln_base (l1_lines c ! j) \<longrightarrow> i = j)"

definition mmio_devices :: "'d bus \<Rightarrow> bool" where
  "mmio_devices b \<longleftrightarrow> (\<forall>d \<in> set (bus_devices b). ri_kind (dev_region d) \<noteq> Region_Ram)"

lemma count_simps [simp]:
  "l1_lines (count f c) = l1_lines c" "l1_line_size (count f c) = l1_line_size c"
  "l1_capacity (count f c) = l1_capacity c" "l1_enabled (count f c) = l1_enabled c"
  by (simp_all add: count_def)

lemma same_shape_simps [simp]:
  "line_base (count f c) = line_base c" "line_offset (count f c) = line_offset c"
  "find_line (count f c) = find_line c" "should_bypass (count f c) = should_bypass c"
  by (intro ext, simp add: line_base_def line_offset_def find_line_def should_bypass_def
      access_fits_one_line_def)+

lemma coherent_count [simp]: "coherent (count f c) m = coherent c m"
  by (simp add: coherent_def line_ok_def)

lemma set_line_simps [simp]:
  "l1_line_size (set_line c i ln) = l1_line_size c" "l1_capacity (set_line c i ln) = l1_capacity c"
  "l1_enabled (set_line c i ln) = l1_enabled c" "l1_lines (set_line c i ln) = (l1_lines c)[i := ln]"
  by (simp_all add: set_line_def)

lemma touch_simps [simp]:
  "l1_line_size (touch c i) = l1_line_size c" "l1_capacity (touch c i) = l1_capacity c"
  "l1_enabled (touch c i) = l1_enabled c" "length (l1_lines (touch c i)) = length (l1_lines c)"
  by (simp_all add: touch_def Let_def)

lemma touch_lines: "i < length (l1_lines c) \<Longrightarrow>
    l1_lines (touch c i) ! j = (if j = i then (l1_lines c ! i)\<lparr>ln_last_used := l1_use_clock c + 1\<rparr> else l1_lines c ! j)"
  by (auto simp: touch_def Let_def)

lemma coherent_iff:
  "coherent c m \<longleftrightarrow> l1_line_size c \<noteq> 0 \<and> length (l1_lines c) = l1_capacity c \<and>
     (\<forall>i < length (l1_lines c). line_ok c m (l1_lines c ! i)) \<and>
     (\<forall>i < length (l1_lines c). \<forall>j < length (l1_lines c). ln_valid (l1_lines c ! i) \<longrightarrow> ln_valid (l1_lines c ! j) \<longrightarrow>
        ln_base (l1_lines c ! i) = ln_base (l1_lines c ! j) \<longrightarrow> i = j)"
  by (simp add: coherent_def all_set_conv_all_nth)

text \<open>A cache whose lines agree with those of a coherent one but for the use stamps.\<close>

lemma coherent_like:
  assumes "coherent c m" "l1_line_size c' = l1_line_size c" "l1_capacity c' = l1_capacity c"
    "length (l1_lines c') = length (l1_lines c)"
    and same: "\<And>i. i < length (l1_lines c) \<Longrightarrow> ln_valid (l1_lines c' ! i) \<Longrightarrow>
       ln_valid (l1_lines c ! i) \<and> ln_base (l1_lines c' ! i) = ln_base (l1_lines c ! i)"
    and ok: "\<And>i. i < length (l1_lines c) \<Longrightarrow> ln_valid (l1_lines c' ! i) \<Longrightarrow> line_ok c m (l1_lines c ! i) \<Longrightarrow>
       line_ok c' m' (l1_lines c' ! i)"
  shows "coherent c' m'"
  unfolding coherent_iff
proof (intro conjI allI impI)
  show "l1_line_size c' \<noteq> 0" "length (l1_lines c') = l1_capacity c'" using assms(1-4) by (simp_all add: coherent_iff)
  fix i assume i: "i < length (l1_lines c')"
  then have i': "i < length (l1_lines c)" using assms(4) by simp
  have "line_ok c m (l1_lines c ! i)" using assms(1) i' by (simp add: coherent_iff)
  then show "line_ok c' m' (l1_lines c' ! i)"
    using ok [OF i'] by (cases "ln_valid (l1_lines c' ! i)") (auto simp: line_ok_def)
  fix j assume j: "j < length (l1_lines c')"
    and v: "ln_valid (l1_lines c' ! i)" "ln_valid (l1_lines c' ! j)" "ln_base (l1_lines c' ! i) = ln_base (l1_lines c' ! j)"
  have j': "j < length (l1_lines c)" using j assms(4) by simp
  show "i = j" using assms(1) same [OF i' v(1)] same [OF j' v(2)] v(3) i' j' unfolding coherent_iff by metis
qed

lemma coherent_touch: "coherent c m \<Longrightarrow> i < length (l1_lines c) \<Longrightarrow> coherent (touch c i) m"
  by (rule coherent_like [of c m]) (auto simp: touch_lines line_ok_def)

subsection \<open>Cached accesses\<close>

lemma span_ram:
  assumes "mmio_devices b" "\<not> uncachable_span (describe_span b addr n)"
  shows "ram_contains addr n"
proof (rule ccontr)
  assume "\<not> ram_contains addr n"
  then obtain i where "i < length (bus_devices b)" "ri_kind (dev_region (bus_devices b ! i)) = Region_Ram"
    using assms(2) by (auto simp: uncachable_span_def describe_span_def Let_def dest: first_index_SomeD
        split: if_splits option.splits)
  then show False using assms(1) by (auto simp: mmio_devices_def)
qed

lemma cached_access:
  assumes "mmio_devices b" "\<not> should_bypass c b addr n" "l1_line_size c \<noteq> 0"
  shows "0 < n" "n \<le> 8" "mem_in_ram addr (nat n)" "mem_in_ram (line_base c addr) (unat (l1_line_size c))"
    "unat (line_base c addr) mod unat (l1_line_size c) = 0"
    "unat addr = unat (line_base c addr) + unat (line_offset c addr)"
    "unat (line_offset c addr) + nat n \<le> unat (l1_line_size c)"
proof -
  have b: "valid_size n" "access_fits_one_line c addr n" "ram_contains addr (word_of_int n)"
      "ram_contains (line_base c addr) (l1_line_size c)"
    using assms(2) span_ram [OF assms(1)] by (auto simp: should_bypass_def split: if_splits)
  show n: "0 < n" "n \<le> 8" using b(1) by (auto simp: valid_size_def)
  have u: "unat (word_of_int n :: u64) = nat n" using n by (intro unat_of_size) simp_all
  show "mem_in_ram addr (nat n)" using b(3) u by (simp add: ram_contains_iff)
  show r: "mem_in_ram (line_base c addr) (unat (l1_line_size c))" using b(4) by (simp add: ram_contains_iff)
  have off: "line_offset c addr = addr mod l1_line_size c" by (simp add: line_offset_def line_base_def)
  have "addr mod l1_line_size c \<le> addr" by (simp add: word_le_nat_alt unat_mod_distrib)
  then have ub: "unat (line_base c addr) = unat addr - unat addr mod unat (l1_line_size c)"
    by (simp add: line_base_def unat_sub unat_mod_distrib)
  then show "unat (line_base c addr) mod unat (l1_line_size c) = 0" by simp
  show "unat addr = unat (line_base c addr) + unat (line_offset c addr)"
    unfolding off ub by (simp add: unat_mod_distrib)
  have "0 < unat (l1_line_size c)" using assms(3) by (simp add: unat_gt_0)
  then have lt: "unat (line_offset c addr) < unat (l1_line_size c)" by (simp add: off unat_mod_distrib)
  have "unat (l1_line_size c) \<le> 2 ^ 32" using r by (simp add: mem_in_ram_def)
  then have "unat (line_offset c addr + word_of_int n) = unat (line_offset c addr) + nat n"
    using lt n u by (simp add: unat_word_ariths)
  then show "unat (line_offset c addr) + nat n \<le> unat (l1_line_size c)"
    using b(2) by (simp add: access_fits_one_line_def word_le_nat_alt)
qed

lemma line_value:
  assumes ok: "line_ok c m ln" "ln_valid ln" "ln_base ln = line_base c addr"
    and a: "0 < n" "n \<le> 8" "mem_in_ram addr (nat n)"
      "unat addr = unat (line_base c addr) + unat (line_offset c addr)"
      "unat (line_offset c addr) + nat n \<le> unat (l1_line_size c)"
  shows "read_line_value ln (line_offset c addr) n = mem_read m addr n"
proof -
  have "ln_bytes ln (unat (line_offset c addr + of_nat i)) = ram_byte m (addr + of_nat i)" if "i < nat n" for i
  proof -
    have r: "mem_in_ram (line_base c addr) (unat (l1_line_size c))" using ok by (simp add: line_ok_def)
    have lt: "unat (line_offset c addr) + i < unat (l1_line_size c)" using a(5) that by simp
    have u: "unat (line_offset c addr + of_nat i) = unat (line_offset c addr) + i"
      using lt r by (simp add: unat_word_ariths unat_of_nat mem_in_ram_def)
    have e: "line_base c addr + of_nat (unat (line_offset c addr) + i) = addr + of_nat i"
      by (simp add: line_offset_def)
    have "\<forall>j < unat (l1_line_size c). ln_bytes ln j = ram_byte m (line_base c addr + of_nat j)"
      using ok by (simp add: line_ok_def)
    then have "ln_bytes ln (unat (line_offset c addr) + i) = ram_byte m (line_base c addr + of_nat (unat (line_offset c addr) + i))"
      using lt by blast
    then show ?thesis by (simp only: e u)
  qed
  then have "map (\<lambda>i. ln_bytes ln (unat (line_offset c addr + of_nat i))) [0..<nat n] =
      map (\<lambda>i. ram_byte m (addr + of_nat i)) [0..<nat n]" by simp
  moreover have "mem_read m addr n = from_le (map (\<lambda>i. ram_byte m (addr + of_nat i)) [0..<nat n])"
    by (rule mem_read_bytes) (use a(1,2,3) in simp_all)
  ultimately show ?thesis unfolding read_line_le by (simp only:)
qed

lemma find_line_Some:
  assumes "coherent c m" "find_line c base = Some i"
  shows "i < length (l1_lines c)" "ln_valid (l1_lines c ! i)" "ln_base (l1_lines c ! i) = base"
    "line_ok c m (l1_lines c ! i)"
proof -
  show i: "i < length (l1_lines c)" "ln_valid (l1_lines c ! i)" "ln_base (l1_lines c ! i) = base"
    using assms(2) by (auto simp: find_line_def dest: first_index_SomeD)
  show "line_ok c m (l1_lines c ! i)" using assms(1) i(1) by (simp add: coherent_iff)
qed

lemma byte_mask: "(ucast (w AND 0xFF :: u64) :: u8) = ucast w"
proof -
  have m: "(0xFF :: u64) = mask 8" by (simp add: mask_eq_exp_minus_1)
  show ?thesis unfolding m by (rule bit_word_eqI) (auto simp: bit_ucast_iff bit_and_iff bit_mask_iff)
qed

lemma byte_word: "(ucast (ucast x :: u64) :: u8) = x"
  by (rule bit_word_eqI) (auto simp: bit_ucast_iff)

lemma refill_bytes_ram:
  assumes "mem_in_ram base N" "i + k \<le> N"
  shows "refill_bytes b base i k bytes =
    (True, (\<lambda>j. if i \<le> j \<and> j < i + k then ram_byte (bus_ram b) (base + of_nat j) else bytes j), b)"
  using assms(2)
proof (induction k arbitrary: i bytes)
  case (Suc k)
  have a: "mem_in_ram (base + of_nat i) (nat 1)" using byte_address(2) [OF assms(1), of i] Suc.prems by simp
  have "mem_read (bus_ram b) (base + of_nat i) 1 = ucast (ram_byte (bus_ram b) (base + of_nat i))"
    using mem_read_bytes [OF _ _ a] by simp
  then have ld: "bus_load b (base + of_nat i) 1 = (Some (ucast (ram_byte (bus_ram b) (base + of_nat i))), b)"
    using bus_load_in_ram [OF _ _ a, of b] by simp
  show ?case using Suc.IH [of "Suc i"] Suc.prems by (auto simp: ld byte_mask byte_word intro!: ext)
qed (auto intro!: ext)

lemma lru_less: "ls \<noteq> [] \<Longrightarrow> lru_line ls < length ls"
proof -
  have "foldl (\<lambda>best i. if ln_last_used (ls ! i) < ln_last_used (ls ! best) then i else best) k is < n"
    if "k < n" "\<forall>i \<in> set is. i < n" for k n "is"
    using that by (induction "is" arbitrary: k) auto
  then show "ls \<noteq> [] \<Longrightarrow> lru_line ls < length ls" by (simp add: lru_line_def)
qed

lemma select_victim_spec:
  assumes "select_victim c = (i, c1)" "l1_lines c \<noteq> []"
  shows "i < length (l1_lines c)" "l1_lines c1 = l1_lines c" "l1_line_size c1 = l1_line_size c"
    "l1_capacity c1 = l1_capacity c" "l1_enabled c1 = l1_enabled c" "coherent c1 m = coherent c m"
  using assms lru_less [OF assms(2)]
  by (auto simp: select_victim_def coherent_def line_ok_def split: option.splits dest: first_index_SomeD)

lemma refill_line_spec:
  assumes co: "coherent c (bus_ram b)" and base: "mem_in_ram base (unat (l1_line_size c))"
      "unat base mod unat (l1_line_size c) = 0"
    and miss: "find_line c base = None" and cap: "l1_capacity c \<noteq> 0"
  obtains i c' where "refill_line c b base = (Some i, c', b)" "coherent c' (bus_ram b)" "i < length (l1_lines c')"
    "ln_valid (l1_lines c' ! i)" "ln_base (l1_lines c' ! i) = base" "l1_line_size c' = l1_line_size c"
    "l1_capacity c' = l1_capacity c" "l1_enabled c' = l1_enabled c"
proof -
  have ne: "l1_lines c \<noteq> []" using co cap by (auto simp: coherent_iff)
  obtain i c1 where sv: "select_victim c = (i, c1)" by fastforce
  note s = select_victim_spec [OF sv ne]
  let ?N = "unat (l1_line_size c)"
  let ?bytes = "\<lambda>j. if j < ?N then ram_byte (bus_ram b) (base + of_nat j) else 0"
  define ln where "ln = (l1_lines c ! i)\<lparr>ln_base := base, ln_bytes := ?bytes, ln_valid := True\<rparr>"
  define c2 where "c2 = set_line c1 i ln"
  have r: "refill_line c b base = (Some i, touch c2 i, b)"
    using refill_bytes_ram [OF base(1), of 0 ?N b "\<lambda>_. 0"]
    by (simp add: refill_line_def sv s(2,3) Let_def c2_def ln_def)
  have len: "length (l1_lines c2) = length (l1_lines c)" "i < length (l1_lines c2)" using s(1,2) by (simp_all add: c2_def)
  have other: "\<not> (ln_valid (l1_lines c ! j) \<and> ln_base (l1_lines c ! j) = base)" if "j < length (l1_lines c)" for j
    using miss that by (simp add: find_line_def first_index_None_iff)
  have lines: "l1_lines c2 ! j = (if j = i then ln else l1_lines c ! j)" if "j < length (l1_lines c)" for j
    using that s(1,2) by (simp add: c2_def nth_list_update)
  have "coherent c2 (bus_ram b)"
    unfolding coherent_iff len(1)
  proof (intro conjI allI impI)
    show "l1_line_size c2 \<noteq> 0" "length (l1_lines c) = l1_capacity c2"
      using co s(3,4) by (simp_all add: c2_def coherent_iff)
    show "line_ok c2 (bus_ram b) (l1_lines c2 ! j)" if "j < length (l1_lines c)" for j
    proof (cases "j = i")
      case True
      then show ?thesis using base that by (simp add: lines) (simp add: line_ok_def ln_def c2_def s(3))
    next
      case False
      then show ?thesis using co that by (simp add: lines) (simp add: coherent_iff line_ok_def c2_def s(3))
    qed
    fix j k assume jk: "j < length (l1_lines c)" "k < length (l1_lines c)" "ln_valid (l1_lines c2 ! j)"
      "ln_valid (l1_lines c2 ! k)" "ln_base (l1_lines c2 ! j) = ln_base (l1_lines c2 ! k)"
    show "j = k"
      using jk other [OF jk(1)] other [OF jk(2)] co unfolding coherent_iff
      by (cases "j = i"; cases "k = i") (auto simp: lines ln_def)
  qed
  then have "coherent (touch c2 i) (bus_ram b)" by (rule coherent_touch [OF _ len(2)])
  moreover have "l1_lines (touch c2 i) ! i = ln\<lparr>ln_last_used := l1_use_clock c2 + 1\<rparr>"
    using len s(1,2) by (simp add: touch_lines c2_def)
  ultimately show thesis using that [OF r] len s by (simp add: ln_def c2_def)
qed

lemma l1_load_transparent:
  assumes co: "coherent c (bus_ram b)" and mmio: "mmio_devices b" and q: "quiet_at b addr" and r: "l1_load c b addr n = (v, c', b')"
  shows "bus_load b addr n = (v, b')" "coherent c' (bus_ram b')"
proof -
  let ?P = "bus_load b addr n = (v, b') \<and> coherent c' (bus_ram b')"
  have ls: "l1_line_size c \<noteq> 0" using co by (simp add: coherent_iff)
  have ?P
  proof (cases "should_bypass c b addr n")
    case True
    obtain v1 b1 where ld: "bus_load b addr n = (v1, b1)" by fastforce
    have "bus_ram b1 = bus_ram b" by (rule quiet_load [OF q ld])
    then show ?thesis using r True ld co by (auto simp: l1_load_def)
  next
    case False
    note a = cached_access [OF mmio False ls]
    have ld: "bus_load b addr n = (Some (mem_read (bus_ram b) addr n), b)"
      using a(1,2,3) by (intro bus_load_in_ram) simp_all
    define hit where "hit = count (\<lambda>s. s\<lparr>st_hits := st_hits s + 1\<rparr>) (count (\<lambda>s. s\<lparr>st_loads := st_loads s + 1\<rparr>) c)"
    define mis where "mis = count (\<lambda>s. s\<lparr>st_misses := st_misses s + 1\<rparr>) (count (\<lambda>s. s\<lparr>st_loads := st_loads s + 1\<rparr>) c)"
    show ?thesis
    proof (cases "find_line c (line_base c addr)")
      case (Some i)
      note f = find_line_Some [OF co Some]
      have co1: "coherent (touch hit i) (bus_ram b)" using co f(1) by (intro coherent_touch) (simp_all add: hit_def)
      have len: "i < length (l1_lines hit)" using f(1) by (simp add: hit_def)
      define ln where "ln = l1_lines (touch hit i) ! i"
      have ln: "ln_valid ln" "ln_base ln = line_base c addr" "line_ok c (bus_ram b) ln"
        unfolding ln_def touch_lines [OF len] using f(2,3,4) by (simp_all add: hit_def line_ok_def)
      have rv: "read_line_value ln (line_offset c addr) n = mem_read (bus_ram b) addr n"
        by (rule line_value [OF ln(3,1,2) a(1,2,3,6,7)])
      have "line_offset (touch hit i) addr = line_offset c addr"
        by (simp add: line_offset_def line_base_def) (simp add: hit_def)
      then have "v = Some (mem_read (bus_ram b) addr n) \<and> c' = touch hit i \<and> b' = b"
        using r False Some rv by (auto simp: l1_load_def hit_def [symmetric] ln_def Let_def)
      then show ?thesis using ld co1 by simp
    next
      case None
      have co1: "coherent mis (bus_ram b)" "find_line mis (line_base c addr) = None" "l1_capacity mis \<noteq> 0"
        using co None False by (simp_all add: mis_def should_bypass_def split: if_splits)
      have sz: "l1_line_size mis = l1_line_size c" by (simp add: mis_def)
      obtain i c2 where rf: "refill_line mis b (line_base c addr) = (Some i, c2, b)" "coherent c2 (bus_ram b)"
          "i < length (l1_lines c2)" "ln_valid (l1_lines c2 ! i)" "ln_base (l1_lines c2 ! i) = line_base c addr"
          "l1_line_size c2 = l1_line_size c"
        using refill_line_spec [OF co1(1) _ _ co1(2,3)] a(4,5) unfolding sz by metis
      have lo: "line_ok c (bus_ram b) (l1_lines c2 ! i)"
        using rf(2,3,6) by (simp add: coherent_iff line_ok_def)
      have rv: "read_line_value (l1_lines c2 ! i) (line_offset c addr) n = mem_read (bus_ram b) addr n"
        by (rule line_value [OF lo rf(4,5) a(1,2,3,6,7)])
      have "line_offset c2 addr = line_offset c addr" by (simp add: line_offset_def line_base_def rf(6))
      then have "v = Some (mem_read (bus_ram b) addr n) \<and> c' = c2 \<and> b' = b"
        using r False None rf(1) rv by (auto simp: l1_load_def mis_def [symmetric] Let_def)
      then show ?thesis using ld rf(2) by simp
    qed
  qed
  then show "bus_load b addr n = (v, b')" "coherent c' (bus_ram b')" by blast+
qed

subsection \<open>Stores\<close>

lemma disjoint_line_ok:
  assumes ok: "line_ok c m ln" and a: "0 < n" "n < 2 ^ 31" "mem_in_ram a (nat n)"
    and apart: "ln_valid ln \<Longrightarrow> unat (ln_base ln) + unat (l1_line_size c) \<le> unat a \<or> unat a + nat n \<le> unat (ln_base ln)"
  shows "line_ok c (mem_write m a v n) ln"
  unfolding line_ok_def
proof (intro impI conjI allI)
  assume v: "ln_valid ln"
  then show r: "mem_in_ram (ln_base ln) (unat (l1_line_size c))" "unat (ln_base ln) mod unat (l1_line_size c) = 0"
    using ok by (simp_all add: line_ok_def)
  fix i assume i: "i < unat (l1_line_size c)"
  have "ram_byte (mem_write m a v n) (ln_base ln + of_nat i) = ram_byte m (ln_base ln + of_nat i)"
    using ram_byte_mem_write [OF _ a(2,3) byte_address(2) [OF r(1) i]] byte_address(1) [OF r(1) i] a(1) apart [OF v] i
    by auto
  then show "ln_bytes ln i = ram_byte (mem_write m a v n) (ln_base ln + of_nat i)"
    using ok v i by (simp add: line_ok_def)
qed

lemma invalidate_range_shape [simp]:
  "l1_line_size (invalidate_range c a n) = l1_line_size c" "l1_capacity (invalidate_range c a n) = l1_capacity c"
  "length (l1_lines (invalidate_range c a n)) = length (l1_lines c)"
  by (simp_all add: invalidate_range_def Let_def)

lemma invalidate_range_line:
  assumes "j < length (l1_lines c)" "ln_valid (l1_lines (invalidate_range c a n) ! j)"
  shows "l1_lines (invalidate_range c a n) ! j = l1_lines c ! j \<and>
    (n \<noteq> 0 \<longrightarrow> \<not> (a < ln_base (l1_lines c ! j) + l1_line_size c \<and>
       ln_base (l1_lines c ! j) < (if n > - 1 - a then - 1 else a + n)))"
  using assms by (auto simp: invalidate_range_def Let_def split: if_splits)

lemma coherent_invalidate: "coherent c m \<Longrightarrow> coherent (invalidate_range c a n) m"
  by (rule coherent_like [of c m]) (auto dest: invalidate_range_line simp: line_ok_def)

lemma coherent_invalidate_write:
  assumes co: "coherent c m" and a: "0 < n" "n < 2 ^ 31" "mem_in_ram a (nat n)"
  shows "coherent (invalidate_range c a (word_of_int n)) (mem_write m a v n)"
proof (rule coherent_like [OF co])
  fix j assume j: "j < length (l1_lines c)" "ln_valid (l1_lines (invalidate_range c a (word_of_int n)) ! j)"
  note iv = invalidate_range_line [OF j]
  show "ln_valid (l1_lines c ! j) \<and>
      ln_base (l1_lines (invalidate_range c a (word_of_int n)) ! j) = ln_base (l1_lines c ! j)"
    using iv j(2) by simp
  assume ok: "line_ok c m (l1_lines c ! j)"
  let ?ln = "l1_lines c ! j"
  have val: "ln_valid ?ln" using iv j(2) by simp
  then have r: "mem_in_ram (ln_base ?ln) (unat (l1_line_size c))" using ok by (simp add: line_ok_def)
  have u: "unat (word_of_int n :: u64) = nat n" using a(1,2) by (simp add: unat_of_size)
  then have n0: "(word_of_int n :: u64) \<noteq> 0" using a(1) by (metis nat_0_iff not_le unsigned_0)
  have e: "unat (a + word_of_int n) = unat a + nat n" "unat (ln_base ?ln + l1_line_size c) = unat (ln_base ?ln) + unat (l1_line_size c)"
    using a(3) r u by (simp_all add: unat_word_ariths mem_in_ram_def)
  have "a \<le> - 1" by simp
  then have "unat (- 1 - a) = unat (- 1 :: u64) - unat a" by (rule unat_sub)
  then have "unat (- 1 - a) = 2 ^ 64 - 1 - unat a" by (simp add: unsigned_minus_1_eq_mask mask_eq_exp_minus_1)
  moreover have "unat a + nat n \<le> 2281701376" using a(3) by (simp add: mem_in_ram_def)
  ultimately have "nat n \<le> unat (- 1 - a)" by simp
  then have "\<not> word_of_int n > - 1 - a" using u by (simp add: word_less_nat_alt not_less)
  then have "\<not> (a < ln_base ?ln + l1_line_size c \<and> ln_base ?ln < a + word_of_int n)" using iv n0 by simp
  then have "unat (ln_base ?ln) + unat (l1_line_size c) \<le> unat a \<or> unat a + nat n \<le> unat (ln_base ?ln)"
    using e by (simp add: word_less_nat_alt not_less)
  from disjoint_line_ok [OF ok a this]
  show "line_ok (invalidate_range c a (word_of_int n)) (mem_write m a v n) (l1_lines (invalidate_range c a (word_of_int n)) ! j)"
    using iv by (simp add: line_ok_def)
qed simp_all

text \<open>Two distinct aligned lines do not overlap.\<close>

lemma aligned_apart_lines:
  fixes x y k :: nat
  assumes "x mod k = 0" "y mod k = 0" "x \<noteq> y"
  shows "x + k \<le> y \<or> y + k \<le> x"
proof -
  obtain p q where "x = k * p" "y = k * q" using assms(1,2) by (auto elim!: dvdE simp: mod_eq_0_iff_dvd)
  moreover from this have "p < q \<or> q < p" using assms(3) by auto
  then have "k * p + k \<le> k * q \<or> k * q + k \<le> k * p"
    by (metis Suc_leI mult_Suc_right mult_le_mono2 add.commute)
  ultimately show ?thesis by simp
qed

lemma written_line_ok:
  assumes ok: "line_ok c m ln" "ln_valid ln" "ln_base ln = line_base c addr"
    and a: "0 < n" "n \<le> 8" "mem_in_ram addr (nat n)"
      "unat addr = unat (line_base c addr) + unat (line_offset c addr)"
      "unat (line_offset c addr) + nat n \<le> unat (l1_line_size c)"
  shows "line_ok c (mem_write m addr v n) (write_line_value ln (line_offset c addr) v n)"
  unfolding line_ok_def
proof (intro impI conjI allI)
  show r: "mem_in_ram (ln_base (write_line_value ln (line_offset c addr) v n)) (unat (l1_line_size c))"
    "unat (ln_base (write_line_value ln (line_offset c addr) v n)) mod unat (l1_line_size c) = 0"
    using ok by (simp_all add: line_ok_def write_line_value_def)
  have base: "ln_base (write_line_value ln (line_offset c addr) v n) = line_base c addr"
    using ok(3) by (simp add: write_line_value_def)
  note r1 = r(1) [unfolded base]
  fix i assume i: "i < unat (l1_line_size c)"
  note b = byte_address [OF r1 i]
  have bound: "unat (line_offset c addr) + nat n \<le> 2 ^ 63" using a(5) r1 by (simp add: mem_in_ram_def)
  have "ln_bytes (write_line_value ln (line_offset c addr) v n) i =
      (if unat (line_offset c addr) \<le> i \<and> i < unat (line_offset c addr) + nat n
       then ucast (drop_bit ((i - unat (line_offset c addr)) * 8) v) else ln_bytes ln i)"
    by (simp add: write_line_value_def write_bytes [OF bound] byte_mask)
  moreover have "ram_byte (mem_write m addr v n) (line_base c addr + of_nat i) =
      (if unat (line_offset c addr) \<le> i \<and> i < unat (line_offset c addr) + nat n
       then ucast (drop_bit ((i - unat (line_offset c addr)) * 8) v) else ram_byte m (line_base c addr + of_nat i))"
    using ram_byte_mem_write [OF _ _ a(3) b(2), of m v] a(1,2,4) b(1) by (simp add: mult.commute)
  moreover have "ln_bytes ln i = ram_byte m (line_base c addr + of_nat i)" using ok i by (simp add: line_ok_def)
  ultimately show "ln_bytes (write_line_value ln (line_offset c addr) v n) i =
      ram_byte (mem_write m addr v n) (ln_base (write_line_value ln (line_offset c addr) v n) + of_nat i)"
    by (simp add: base)
qed

lemma bus_store_cases:
  assumes "bus_store b addr v n = (ok, b')" "n < 2 ^ 31" "quiet_at b addr"
  obtains "bus_ram b' = bus_ram b" | "ok" "0 < n" "mem_in_ram addr (nat n)" "bus_ram b' = mem_write (bus_ram b) addr v n"
proof (cases "find_device b addr n = Some To_Ram")
  case True
  then have "0 < n" "ram_contains addr (word_of_int n)" by (auto simp: find_device_def split: if_splits)
  then have "mem_in_ram addr (nat n)" using assms(2) by (simp add: ram_contains_iff unat_of_size)
  then show thesis using that(2) assms(1) True \<open>0 < n\<close> by (auto simp: bus_store_def)
next
  case False
  then show thesis using that(1) quiet_store [OF assms(3,1)] by blast
qed

lemma l1_store_transparent:
  assumes co: "coherent c (bus_ram b)" and mmio: "mmio_devices b" and n: "n < 2 ^ 31"
    and q: "quiet_at b addr" and r: "l1_store c b addr v n = (ok, c', b')"
  shows "bus_store b addr v n = (ok, b')" "coherent c' (bus_ram b')"
proof -
  let ?P = "bus_store b addr v n = (ok, b') \<and> coherent c' (bus_ram b')"
  have ls: "l1_line_size c \<noteq> 0" using co by (simp add: coherent_iff)
  have ?P
  proof (cases "should_bypass c b addr n")
    case True
    obtain k b1 where st: "bus_store b addr v n = (k, b1)" by fastforce
    define c1 where "c1 = count (\<lambda>s. s\<lparr>st_bypasses := st_bypasses s + 1\<rparr>) (count (\<lambda>s. s\<lparr>st_stores := st_stores s + 1\<rparr>) c)"
    have co1: "coherent c1 (bus_ram b)" using co by (simp add: c1_def)
    have r': "ok = k" "b' = b1" "c' = (if k then invalidate_range c1 addr (word_of_int n) else c1)"
      using r True st by (auto simp: l1_store_def c1_def Let_def split: bool.splits)
    show ?thesis
    proof (cases rule: bus_store_cases [OF st n q])
      case 1
      then show ?thesis using r' st co1 coherent_invalidate [OF co1] by simp
    next
      case 2
      then show ?thesis using r' st coherent_invalidate_write [OF co1 2(2) n 2(3)] by simp
    qed
  next
    case False
    note a = cached_access [OF mmio False ls]
    let ?m = "mem_write (bus_ram b) addr v n"
    have st: "bus_store b addr v n = (True, b\<lparr>bus_ram := ?m\<rparr>)"
      using a(1,2,3) by (intro bus_store_in_ram) simp_all
    have apart: "line_ok c ?m (l1_lines c ! j)"
      if j: "j < length (l1_lines c)" and ne: "ln_valid (l1_lines c ! j) \<Longrightarrow> ln_base (l1_lines c ! j) \<noteq> line_base c addr" for j
    proof (rule disjoint_line_ok [OF _ a(1) n a(3)])
      show okj: "line_ok c (bus_ram b) (l1_lines c ! j)" using co j by (simp add: coherent_iff)
      assume val: "ln_valid (l1_lines c ! j)"
      then have "unat (ln_base (l1_lines c ! j)) \<noteq> unat (line_base c addr)" using ne by (simp add: word_unat_eq_iff)
      moreover have "unat (ln_base (l1_lines c ! j)) mod unat (l1_line_size c) = 0" using okj val by (simp add: line_ok_def)
      ultimately have "unat (ln_base (l1_lines c ! j)) + unat (l1_line_size c) \<le> unat (line_base c addr) \<or>
          unat (line_base c addr) + unat (l1_line_size c) \<le> unat (ln_base (l1_lines c ! j))"
        using a(5) by (intro aligned_apart_lines)
      then show "unat (ln_base (l1_lines c ! j)) + unat (l1_line_size c) \<le> unat addr \<or>
          unat addr + nat n \<le> unat (ln_base (l1_lines c ! j))"
        using a(6,7) by linarith
    qed
    show ?thesis
    proof (cases "find_line c (line_base c addr)")
      case None
      have "coherent c ?m"
      proof (rule coherent_like [OF co])
        fix j assume "j < length (l1_lines c)" "ln_valid (l1_lines c ! j)"
        then show "line_ok c ?m (l1_lines c ! j)" using None apart by (simp add: find_line_def first_index_None_iff)
      qed simp_all
      then show ?thesis using r False None st by (auto simp: l1_store_def Let_def)
    next
      case (Some i)
      note f = find_line_Some [OF co Some]
      define c2 where "c2 = count (\<lambda>s. s\<lparr>st_write_through_stores := st_write_through_stores s + 1\<rparr>)
        (count (\<lambda>s. s\<lparr>st_hits := st_hits s + 1\<rparr>) (count (\<lambda>s. s\<lparr>st_stores := st_stores s + 1\<rparr>) c))"
      have len: "i < length (l1_lines c2)" and sz: "l1_line_size c2 = l1_line_size c" "l1_lines c2 = l1_lines c"
        using f(1) by (simp_all add: c2_def)
      define ln where "ln = (l1_lines c ! i)\<lparr>ln_last_used := l1_use_clock c2 + 1\<rparr>"
      have ti: "l1_lines (touch c2 i) ! i = ln" using len by (simp add: touch_lines ln_def sz)
      define c4 where "c4 = set_line (touch c2 i) i (write_line_value ln (line_offset c addr) v n)"
      have off: "line_offset (touch c2 i) addr = line_offset c addr"
        by (simp add: line_offset_def line_base_def sz)
      have c': "ok" "b' = b\<lparr>bus_ram := ?m\<rparr>" "c' = c4"
        using r False Some st by (auto simp: l1_store_def Let_def c2_def [symmetric] ti off c4_def)
      have lnok: "line_ok c (bus_ram b) ln" "ln_valid ln" "ln_base ln = line_base c addr"
        using f by (simp_all add: ln_def line_ok_def)
      note wr = written_line_ok [OF lnok a(1,2,3,6,7), of v]
      have l4: "l1_lines c4 ! j = (if j = i then write_line_value ln (line_offset c addr) v n else l1_lines c ! j)"
        if "j < length (l1_lines c)" for j
        using that len by (simp add: c4_def nth_list_update touch_lines sz)
      have "coherent c4 ?m"
      proof (rule coherent_like [OF co])
        show "l1_line_size c4 = l1_line_size c" "l1_capacity c4 = l1_capacity c" "length (l1_lines c4) = length (l1_lines c)"
          by (simp_all add: c4_def sz) (simp add: c2_def)
        fix j assume j: "j < length (l1_lines c)" "ln_valid (l1_lines c4 ! j)"
        show "ln_valid (l1_lines c ! j) \<and> ln_base (l1_lines c4 ! j) = ln_base (l1_lines c ! j)"
          using j f(2,3) lnok(2,3) by (auto simp: l4 write_line_value_def)
        show "line_ok c4 ?m (l1_lines c4 ! j)"
        proof (cases "j = i")
          case True
          then show ?thesis using wr j by (simp add: l4 line_ok_def) (simp add: c4_def sz)
        next
          case False
          then have "ln_base (l1_lines c ! j) \<noteq> line_base c addr" if "ln_valid (l1_lines c ! j)"
            using co j(1) f(1,2,3) that unfolding coherent_iff by metis
          then show ?thesis using apart [OF j(1)] False j by (simp add: l4 line_ok_def) (simp add: c4_def sz)
        qed
      qed
      then show ?thesis using c' st by simp
    qed
  qed
  then show "bus_store b addr v n = (ok, b')" "coherent c' (bus_ram b')" by blast+
qed

end
