(* ===== verification/DmaSpec.thy ===== *)
theory DmaSpec
  imports L1Coherence
begin

text \<open>
  DMA transfers move exactly the bytes of their span in RAM and touch no device register; what they
  write, like the accessed bits that the page walker writes, does not reach the L1 data cache.
\<close>

lemma dma_read_loop_ram:
  assumes "mem_in_ram addr N" "i + k \<le> N"
  shows "dma_read_loop b To_Ram addr i k bytes =
    (True, bytes @ map (\<lambda>j. ram_byte (bus_ram b) (addr + of_nat j)) [i..<i + k], b)"
  using assms(2)
proof (induction k arbitrary: i bytes)
  case (Suc k)
  have a: "mem_in_ram (addr + of_nat i) (nat 1)" using byte_address(2) [OF assms(1), of i] Suc.prems by simp
  have "mem_read (bus_ram b) (addr + of_nat i) 1 = ucast (ram_byte (bus_ram b) (addr + of_nat i))"
    using mem_read_bytes [OF _ _ a] by simp
  moreover have "[i..<i + Suc k] = i # [Suc i..<Suc i + k]" by (simp add: upt_conv_Cons del: upt_Suc)
  ultimately show ?case using Suc.IH [of "Suc i"] Suc.prems
    by (simp add: target_load_def byte_mask byte_word del: upt_Suc)
qed simp

definition bytes_written :: "memory \<Rightarrow> u64 \<Rightarrow> u8 list \<Rightarrow> nat \<Rightarrow> nat \<Rightarrow> memory \<Rightarrow> bool" where
  "bytes_written m addr data i k m' \<longleftrightarrow>
     (\<forall>x. mem_in_ram x 1 \<longrightarrow> ram_byte m' x =
        (if unat addr + i \<le> unat x \<and> unat x < unat addr + i + k then data ! (unat x - unat addr) else ram_byte m x))"

lemma dma_write_loop_ram:
  assumes "mem_in_ram addr N" "i + k \<le> N"
  shows "\<exists>m'. dma_write_loop b To_Ram addr data i k = (True, i + k, b\<lparr>bus_ram := m'\<rparr>) \<and>
    bytes_written (bus_ram b) addr data i k m'"
  using assms(2)
proof (induction k arbitrary: i b)
  case 0
  show ?case by (rule exI [of _ "bus_ram b"]) (auto simp: bytes_written_def)
next
  case (Suc k)
  let ?a = "addr + of_nat i" let ?m = "mem_write (bus_ram b) ?a (ucast (data ! i)) 1"
  have a: "mem_in_ram ?a (nat 1)" "unat ?a = unat addr + i" using byte_address [OF assms(1), of i] Suc.prems by simp_all
  have one: "ram_byte ?m x = (if unat x = unat addr + i then data ! i else ram_byte (bus_ram b) x)" if "mem_in_ram x 1" for x
    using ram_byte_mem_write [OF _ _ a(1) that, of "bus_ram b" "ucast (data ! i)"] a(2) by (auto simp: byte_word)
  obtain m' where m': "dma_write_loop (b\<lparr>bus_ram := ?m\<rparr>) To_Ram addr data (Suc i) k = (True, Suc i + k, b\<lparr>bus_ram := m'\<rparr>)"
      "bytes_written ?m addr data (Suc i) k m'"
    using Suc.IH [of "Suc i" "b\<lparr>bus_ram := ?m\<rparr>"] Suc.prems by auto
  have "bytes_written (bus_ram b) addr data i (Suc k) m'"
    unfolding bytes_written_def
  proof (intro allI impI)
    fix x assume x: "mem_in_ram x 1"
    show "ram_byte m' x = (if unat addr + i \<le> unat x \<and> unat x < unat addr + i + Suc k
        then data ! (unat x - unat addr) else ram_byte (bus_ram b) x)"
    proof (cases "unat x = unat addr + i")
      case True
      then show ?thesis using m'(2) x one [OF x] by (simp add: bytes_written_def)
    next
      case False
      then have "unat addr + i \<le> unat x \<and> unat x < unat addr + i + Suc k \<longleftrightarrow>
          unat addr + Suc i \<le> unat x \<and> unat x < unat addr + Suc i + k" by auto
      then show ?thesis using m'(2) x one [OF x] False by (simp add: bytes_written_def)
    qed
  qed
  then show ?case using m'(1) by (intro exI [of _ m']) (simp add: target_store_def)
qed

definition side_effect_devices :: "'d bus \<Rightarrow> bool" where
  "side_effect_devices b \<longleftrightarrow> (\<forall>d \<in> set (bus_devices b). ri_has_side_effect (dev_region d))"

lemma span_in_ram:
  assumes "ram_contains addr n"
  shows "describe_span b addr n = \<lparr>si_ok = True, si_region = ram_region\<rparr>" "find_device b addr 1 = Some To_Ram"
proof -
  have "n \<noteq> 0" "mem_in_ram addr (unat n)" using assms by (simp_all add: ram_contains_iff)
  moreover from this have "0 < unat n" by (simp add: unat_gt_0)
  ultimately have "ram_contains addr 1" by (simp add: ram_contains_iff mem_in_ram_def)
  then show "find_device b addr 1 = Some To_Ram" by (simp add: find_device_def)
  then show "describe_span b addr n = \<lparr>si_ok = True, si_region = ram_region\<rparr>"
    using assms \<open>n \<noteq> 0\<close> by (simp add: describe_span_def describe_region_def target_region_def ram_region_def)
qed

lemma dma_prepare_ram:
  assumes "ram_contains (tx_addr tx) (tx_size tx)" "tx_initiator tx = Some name" "name \<noteq> []" "\<not> data_null"
  shows "dma_prepare b tx data_null = Inr (make_dma_result, ram_region, To_Ram)"
proof -
  have "tx_size tx \<noteq> 0" using assms(1) by (simp add: ram_contains_iff)
  then show ?thesis using assms(2-4) span_in_ram [OF assms(1), of b]
    by (simp add: dma_prepare_def validate_dma_request_def ram_region_def)
qed

lemma dma_prepare_other:
  assumes "\<not> ram_contains (tx_addr tx) (tx_size tx)" "side_effect_devices b" "tx_size tx \<noteq> 0"
  obtains r where "dma_prepare b tx data_null = Inl r" "\<not> dr_ok r" "dr_transferred r = 0"
    "dr_fault r \<in> {Dma_InvalidArguments, Dma_Unmapped, Dma_SpanCrossesRegionBoundary, Dma_SideEffectRegion}"
proof -
  let ?s = "describe_span b (tx_addr tx) (tx_size tx)"
  have se: "ri_has_side_effect (si_region ?s)" if "si_ok ?s"
  proof -
    have "\<exists>i < length (bus_devices b). si_region ?s = dev_region (bus_devices b ! i)"
      using that assms(1) by (auto simp: describe_span_def Let_def dest: first_index_SomeD split: if_splits option.splits)
    then obtain i where "i < length (bus_devices b)" "si_region ?s = dev_region (bus_devices b ! i)" by blast
    then show ?thesis using assms(2) by (simp add: side_effect_devices_def)
  qed
  have "\<exists>r. dma_prepare b tx data_null = Inl r \<and> \<not> dr_ok r \<and> dr_transferred r = 0 \<and>
      dr_fault r \<in> {Dma_InvalidArguments, Dma_Unmapped, Dma_SpanCrossesRegionBoundary, Dma_SideEffectRegion}"
    using se assms(3)
    by (cases "si_ok ?s") (auto simp: dma_prepare_def validate_dma_request_def make_dma_result_def fail_dma_result_def Let_def)
  then show thesis using that by blast
qed

text \<open>C9: DMA is exact and confined to RAM.  With the machine's devices, whose registers have side
  effects, a transfer whose whole span lies in RAM succeeds: a write stores exactly its bytes there and
  changes no other byte and no device, and a read returns the bytes of its span, so it reads back what
  was written.  Any other transfer fails before the first byte, with one of the faults for bad
  arguments, unmapped or split spans or registers, and changes nothing.\<close>

theorem dma_moves_exactly_its_bytes:
  assumes "side_effect_devices b" "tx_initiator tx = Some name" "name \<noteq> []" "tx_size tx \<noteq> 0"
    and "length data = unat (tx_size tx)"
  shows "case dma_write b tx (Some data) of (r, b') \<Rightarrow>
    if ram_contains (tx_addr tx) (tx_size tx)
    then dma_complete tx r \<and> dr_fault r = Dma_None \<and> bus_devices b' = bus_devices b \<and> bus_heap b' = bus_heap b \<and>
         bytes_written (bus_ram b) (tx_addr tx) data 0 (length data) (bus_ram b') \<and>
         (case dma_read b' tx False of (r', bytes, b'') \<Rightarrow> dma_complete tx r' \<and> bytes = data \<and> b'' = b')
    else \<not> dr_ok r \<and> dr_transferred r = 0 \<and> b' = b \<and> dma_read b tx False = (r, [], b) \<and>
         dr_fault r \<in> {Dma_InvalidArguments, Dma_Unmapped, Dma_SpanCrossesRegionBoundary, Dma_SideEffectRegion}"
proof (cases "ram_contains (tx_addr tx) (tx_size tx)")
  case True
  have ram: "mem_in_ram (tx_addr tx) (unat (tx_size tx))" using True by (simp add: ram_contains_iff)
  have pr: "dma_prepare x tx False = Inr (make_dma_result, ram_region, To_Ram)" for x :: "'a bus"
    by (rule dma_prepare_ram [OF True assms(2,3)]) simp
  obtain m' where w: "dma_write_loop b To_Ram (tx_addr tx) data 0 (unat (tx_size tx)) = (True, unat (tx_size tx), b\<lparr>bus_ram := m'\<rparr>)"
      and bw: "bytes_written (bus_ram b) (tx_addr tx) data 0 (unat (tx_size tx)) m'"
    using dma_write_loop_ram [OF ram, of 0 "unat (tx_size tx)" b data] by auto
  let ?b = "b\<lparr>bus_ram := m'\<rparr>"
  have "map (\<lambda>j. ram_byte m' (tx_addr tx + of_nat j)) [0..<unat (tx_size tx)] = data"
  proof (rule nth_equalityI)
    fix j assume "j < length (map (\<lambda>j. ram_byte m' (tx_addr tx + of_nat j)) [0..<unat (tx_size tx)])"
    then have j: "j < unat (tx_size tx)" by simp
    then show "map (\<lambda>j. ram_byte m' (tx_addr tx + of_nat j)) [0..<unat (tx_size tx)] ! j = data ! j"
      using bw byte_address [OF ram j] by (simp add: bytes_written_def)
  qed (use assms(5) in simp)
  then have rd: "dma_read_loop ?b To_Ram (tx_addr tx) 0 (unat (tx_size tx)) [] = (True, data, ?b)"
    using dma_read_loop_ram [OF ram, of 0 "unat (tx_size tx)" ?b "[]"] by simp
  have r1: "dma_write b tx (Some data) = (make_dma_result\<lparr>dr_ok := True, dr_fault := Dma_None,
      dr_transferred := unat (tx_size tx), dr_region := ram_region\<rparr>, ?b)" by (simp add: dma_write_def pr w)
  have r2: "dma_read ?b tx False = (make_dma_result\<lparr>dr_ok := True, dr_fault := Dma_None,
      dr_transferred := length data, dr_region := ram_region\<rparr>, data, ?b)" by (simp add: dma_read_def pr rd)
  show ?thesis using True bw assms(5) by (simp add: r1 r2 dma_complete_def)
next
  case False
  obtain r where "dma_prepare b tx False = Inl r" "\<not> dr_ok r" "dr_transferred r = 0"
    "dr_fault r \<in> {Dma_InvalidArguments, Dma_Unmapped, Dma_SpanCrossesRegionBoundary, Dma_SideEffectRegion}"
    by (rule dma_prepare_other [OF False assms(1,4)])
  then show ?thesis using False by (simp add: dma_write_def dma_read_def)
qed

theorem dma_moves_exactly_its_bytes_witness:
  "\<exists>r (b' :: unit bus). dma_write (bus_create \<lparr>mem_data = \<lambda>_. 0\<rparr> ())
       \<lparr>tx_initiator = Some ''blk'', tx_addr = 0x80001000, tx_size = 2, tx_burst = True\<rparr> (Some [1, 2]) = (r, b') \<and>
     dr_ok r \<and> ram_byte (bus_ram b') 0x80001001 = 2 \<and> ram_byte (bus_ram b') 0x80001002 = 0"
proof -
  let ?b = "bus_create \<lparr>mem_data = \<lambda>_. 0\<rparr> () :: unit bus"
  let ?tx = "\<lparr>tx_initiator = Some ''blk'', tx_addr = 0x80001000, tx_size = 2, tx_burst = True\<rparr>"
  have devs: "side_effect_devices ?b" by (simp add: side_effect_devices_def bus_create_def)
  obtain r b' where w: "dma_write ?b ?tx (Some [1, 2]) = (r, b')" by fastforce
  have c: "ram_contains 0x80001000 2" by (simp add: ram_contains_iff mem_in_ram_def)
  have "dma_complete ?tx r \<and> bytes_written (bus_ram ?b) 0x80001000 [1, 2] 0 (Suc (Suc 0)) (bus_ram b')"
    using dma_moves_exactly_its_bytes [OF devs, of ?tx "''blk''" "[1, 2]"] c
    by (simp add: w)
  moreover have "ram_byte (bus_ram ?b) x = 0" for x by (simp add: bus_create_def ram_byte_def)
  ultimately show ?thesis
    by (intro exI [of _ r] exI [of _ b']) (simp add: w bytes_written_def dma_complete_def mem_in_ram_def)
qed

subsection \<open>The L1 cache\<close>

lemma bus_ops_mmio:
  "mmio_devices b \<Longrightarrow> bus_load b a n = (v, b') \<Longrightarrow> mmio_devices b'"
  "mmio_devices b \<Longrightarrow> bus_store b a w n = (ok, b') \<Longrightarrow> mmio_devices b'"
  using bus_ops_devices by (metis mmio_devices_def)+

text \<open>A sequence of data accesses, with or without a cache bound.\<close>

datatype data_op = Data_Load u64 int | Data_Store u64 u64 int

fun data_step :: "l1_cache option \<Rightarrow> 'd bus \<Rightarrow> data_op \<Rightarrow> (u64 option + bool) \<times> l1_cache option \<times> 'd bus" where
  "data_step c b (Data_Load a n) = (case try_data_load c b a n of (v, c', b') \<Rightarrow> (Inl v, c', b'))"
| "data_step c b (Data_Store a v n) = (case try_data_store c b a v n of (ok, c', b') \<Rightarrow> (Inr ok, c', b'))"

fun data_run :: "l1_cache option \<Rightarrow> 'd bus \<Rightarrow> data_op list \<Rightarrow> (u64 option + bool) list \<times> l1_cache option \<times> 'd bus" where
  "data_run c b [] = ([], c, b)"
| "data_run c b (a # as) =
     (case data_step c b a of (r, c1, b1) \<Rightarrow>
      case data_run c1 b1 as of (rs, c2, b2) \<Rightarrow> (r # rs, c2, b2))"

fun op_size :: "data_op \<Rightarrow> int" where
  "op_size (Data_Load a n) = n"
| "op_size (Data_Store a v n) = n"

fun op_addr :: "data_op \<Rightarrow> u64" where
  "op_addr (Data_Load a n) = a"
| "op_addr (Data_Store a v n) = a"

lemma l1_enabled_kept:
  "l1_load c b a n = (v, c', b') \<Longrightarrow> l1_enabled c' = l1_enabled c"
  "l1_store c b a w n = (ok, c', b') \<Longrightarrow> l1_enabled c' = l1_enabled c"
proof -
  have "l1_enabled c2 = l1_enabled c1" if "refill_line c1 b base = (i, c2, b1)" for c1 i c2 base b1
    using that by (auto simp: refill_line_def select_victim_def Let_def split: prod.splits bool.splits option.splits)
  then show "l1_load c b a n = (v, c', b') \<Longrightarrow> l1_enabled c' = l1_enabled c"
    by (auto simp: l1_load_def Let_def split: prod.splits if_splits option.splits)
  have "l1_enabled (invalidate_range c1 x y) = l1_enabled c1" for c1 x y
    by (simp add: invalidate_range_def Let_def)
  then show "l1_store c b a w n = (ok, c', b') \<Longrightarrow> l1_enabled c' = l1_enabled c"
    by (auto simp: l1_store_def Let_def split: prod.splits if_splits option.splits bool.splits)
qed

lemma data_step_transparent:
  assumes "l1_enabled c" "coherent c (bus_ram b)" "mmio_devices b" "op_size a < 2 ^ 31" "quiet_at b (op_addr a)"
  obtains r c' b' where "data_step (Some c) b a = (r, Some c', b')" "data_step None b a = (r, None, b')"
    "l1_enabled c'" "coherent c' (bus_ram b')" "mmio_devices b'" "bus_devices b' = bus_devices b"
proof (cases a)
  case (Data_Load addr n)
  obtain v c' b' where l: "l1_load c b addr n = (v, c', b')" by (metis prod.exhaust)
  have q: "quiet_at b addr" using assms(5) Data_Load by simp
  note t = l1_load_transparent [OF assms(2,3) q l]
  show thesis
    by (rule that [of "Inl v" c' b'])
      (use Data_Load assms(1) l t bus_ops_mmio(1) [OF assms(3) t(1)] bus_ops_devices(1) [OF t(1)] l1_enabled_kept(1) [OF l] in
        \<open>simp_all add: try_data_load_def\<close>)
next
  case (Data_Store addr w n)
  obtain ok c' b' where l: "l1_store c b addr w n = (ok, c', b')" by (metis prod.exhaust)
  have n: "n < 2 ^ 31" using assms(4) Data_Store by simp
  have q: "quiet_at b addr" using assms(5) Data_Store by simp
  note t = l1_store_transparent [OF assms(2,3) n q l]
  show thesis
    by (rule that [of "Inr ok" c' b'])
      (use Data_Store assms(1) l t bus_ops_mmio(2) [OF assms(3) t(1)] bus_ops_devices(2) [OF t(1)] l1_enabled_kept(2) [OF l] in
        \<open>simp_all add: try_data_store_def\<close>)
qed

text \<open>C8: the L1 data cache is transparent as long as no device does DMA.  Enabled and coherent, on a bus where
  only RAM has RAM's region kind, it answers every sequence of data loads and stores, aligned or not, in RAM
  or on device registers whose accesses leave RAM alone (so not a virtio queue notification and not the
  doorbell of the AI accelerator), with results, RAM and device states equal to those of the bus without a
  cache, and stays coherent.  The excluded accesses are those of \<open>device_dma_leaves_stale_line\<close> below, where
  it fails.\<close>

theorem l1_cache_transparent:
  assumes "l1_enabled c" "coherent c (bus_ram b)" "mmio_devices b" "\<forall>a \<in> set accesses. op_size a < 2 ^ 31"
    and "\<forall>a \<in> set accesses. \<forall>d \<in> set (bus_devices b). device_contains d (op_addr a) 1 \<longrightarrow> keeps_ram d (op_addr a)"
  shows "\<exists>rs c' b'. data_run (Some c) b accesses = (rs, Some c', b') \<and> data_run None b accesses = (rs, None, b') \<and>
           l1_enabled c' \<and> coherent c' (bus_ram b')"
  using assms
proof (induction accesses arbitrary: c b)
  case (Cons a as)
  obtain r c' b' where s: "data_step (Some c) b a = (r, Some c', b')" "data_step None b a = (r, None, b')"
    "l1_enabled c'" "coherent c' (bus_ram b')" "mmio_devices b'" "bus_devices b' = bus_devices b"
    using data_step_transparent [OF Cons.prems(1-3), of a] Cons.prems(4,5) by (auto simp: quiet_at_def)
  obtain rs c2 b2 where "data_run (Some c') b' as = (rs, Some c2, b2)" "data_run None b' as = (rs, None, b2)"
    "l1_enabled c2" "coherent c2 (bus_ram b2)"
    using Cons.IH [OF s(3-5)] Cons.prems(4,5) s(6) by auto
  then show ?case using s(1,2) by simp
qed auto

lemma l1_create_coherent: "coherent (l1_create e ls cap) m"
  by (auto simp: coherent_def l1_create_def line_ok_def)

text \<open>Two devices for the witness and the counterexample: one keeps the last value stored, the other also writes
  the byte 9 to 0x80000010 when its doorbell at offset 0 is stored to.\<close>

definition latch_device :: "u64 device" where
  "latch_device = \<lparr>dev_base = 0x10000000, dev_size = 0x1000, dev_load = (\<lambda>w a n. (Some (fst w), w)),
     dev_store = (\<lambda>w a v n. (True, v, snd w)), dev_region = mmio_region, dev_peek_events = (\<lambda>_. no_events),
     dev_tick = (\<lambda>w. (no_events, w))\<rparr>"

definition doorbell_device :: "u64 device" where
  "doorbell_device = latch_device\<lparr>dev_store := (\<lambda>w a v n. (True, v, mem_write (snd w) 0x80000010 9 1))\<rparr>"

definition device_bus :: "u64 device \<Rightarrow> u64 bus" where
  "device_bus d = (bus_create \<lparr>mem_data = \<lambda>_. 5\<rparr> 0)\<lparr>bus_devices := [d]\<rparr>"

lemma device_bus_simps [simp]:
  "bus_ram (device_bus d) = \<lparr>mem_data = \<lambda>_. 5\<rparr>" "bus_devices (device_bus d) = [d]" "bus_heap (device_bus d) = 0"
  by (simp_all add: device_bus_def bus_create_def)

lemma latch_keeps_ram: "keeps_ram latch_device a"
  by (simp add: keeps_ram_def latch_device_def)

theorem l1_cache_transparent_witness:
  "\<exists>rs c' b'. data_run (Some (l1_create True 64 4)) (device_bus latch_device)
       [Data_Load 0x80000010 8, Data_Store 0x10000000 7 4, Data_Load 0x8000003E 4] = (rs, Some c', b') \<and>
     data_run None (device_bus latch_device)
       [Data_Load 0x80000010 8, Data_Store 0x10000000 7 4, Data_Load 0x8000003E 4] = (rs, None, b')"
proof -
  let ?c = "l1_create True 64 4" and ?b = "device_bus latch_device"
  have "l1_enabled ?c" "mmio_devices ?b" by (simp_all add: l1_create_def mmio_devices_def latch_device_def mmio_region_def)
  from l1_cache_transparent [OF this(1) l1_create_coherent this(2),
      of "[Data_Load 0x80000010 8, Data_Store 0x10000000 7 4, Data_Load 0x8000003E 4]"]
  show ?thesis by (auto simp: latch_keeps_ram simp del: data_run.simps)
qed

text \<open>Not transparent: writes that bypass the cache.  The page walker's update of an accessed bit in a
  cached table, and a DMA write into a cached buffer, leave the old bytes in the cache, because neither
  calls \<open>invalidate_range\<close>; the next cached load returns them.\<close>

lemma stale_hit:
  assumes "coherent c m" "mmio_devices b" "\<not> should_bypass c b addr n" "find_line c (line_base c addr) = Some i"
  shows "fst (l1_load c b addr n) = Some (mem_read m addr n)"
proof -
  have ls: "l1_line_size c \<noteq> 0" using assms(1) by (simp add: coherent_iff)
  note a = cached_access [OF assms(2,3) ls] and f = find_line_Some [OF assms(1,4)]
  define hit where "hit = count (\<lambda>s. s\<lparr>st_hits := st_hits s + 1\<rparr>) (count (\<lambda>s. s\<lparr>st_loads := st_loads s + 1\<rparr>) c)"
  have len: "i < length (l1_lines hit)" using f(1) by (simp add: hit_def)
  define ln where "ln = l1_lines (touch hit i) ! i"
  have ln: "ln_valid ln" "ln_base ln = line_base c addr" "line_ok c m ln"
    unfolding ln_def touch_lines [OF len] using f(2,3,4) by (simp_all add: hit_def line_ok_def)
  have "read_line_value ln (line_offset c addr) n = mem_read m addr n"
    by (rule line_value [OF ln(3,1,2) a(1,2,3,6,7)])
  moreover have "line_offset (touch hit i) addr = line_offset c addr"
    by (simp add: line_offset_def line_base_def) (simp add: hit_def)
  ultimately show ?thesis using assms(3,4) by (simp add: l1_load_def hit_def [symmetric] ln_def Let_def)
qed

lemma pte_update_leaves_stale_line:
  assumes "coherent c (bus_ram b)" "mmio_devices b" "ram_word slot" "pte = load64 (bus_ram b) slot"
    and "update_pte_access_bits b slot pte ty v = (pte', None, b')" "pte' \<noteq> pte"
    and "\<not> should_bypass c b' slot 8" "find_line c (line_base c slot) = Some i"
  shows "fst (bus_load b' slot 8) = Some pte'" "fst (l1_load c b' slot 8) = Some pte"
proof -
  have b': "b' = b\<lparr>bus_ram := store64 (bus_ram b) slot pte'\<rparr>"
    using assms(5,6) by (auto simp: update_pte_access_bits_def Let_def bus_store_word [OF assms(3)] split: if_splits)
  show "fst (bus_load b' slot 8) = Some pte'"
    by (simp add: bus_load_word [OF assms(3)] b' load64_store64 [OF assms(3,3)])
  have "mmio_devices b'" using assms(2) by (simp add: b' mmio_devices_def)
  from stale_hit [OF assms(1) this assms(7,8)] show "fst (l1_load c b' slot 8) = Some pte"
    by (simp add: assms(4) load64_def)
qed

text \<open>The accesses that the property leaves out: a store to a register whose device then writes RAM by DMA, as
  \<open>QUEUE_NOTIFY\<close> does.  The bus has the new bytes, the next cached load returns the old ones.\<close>

lemma bypass_store_keeps_line:
  assumes "should_bypass c b reg n" "bus_store b reg v n = (True, b')" "find_line c base = Some i" "coherent c m"
    and "\<not> (reg < base + l1_line_size c \<and> base < (if word_of_int n > - 1 - reg then - 1 else reg + word_of_int n))"
  obtains c' where "l1_store c b reg v n = (True, c', b')" "coherent c' m" "find_line c' base = Some i"
    "l1_line_size c' = l1_line_size c" "l1_enabled c' = l1_enabled c" "l1_capacity c' = l1_capacity c"
proof -
  define c1 where "c1 = count (\<lambda>s. s\<lparr>st_bypasses := st_bypasses s + 1\<rparr>) (count (\<lambda>s. s\<lparr>st_stores := st_stores s + 1\<rparr>) c)"
  let ?c = "invalidate_range c1 reg (word_of_int n)"
  have st: "l1_store c b reg v n = (True, ?c, b')" using assms(1,2) by (simp add: l1_store_def c1_def)
  have co: "coherent ?c m" using assms(4) by (intro coherent_invalidate) (simp add: c1_def)
  have f1: "find_line c1 base = Some i" using assms(3) by (simp add: c1_def)
  have ln: "i < length (l1_lines c1)" "ln_valid (l1_lines c1 ! i)" "ln_base (l1_lines c1 ! i) = base"
    using f1 by (auto simp: find_line_def dest: first_index_SomeD)
  have keep: "l1_lines ?c ! i = l1_lines c1 ! i"
    using ln assms(5) by (auto simp: invalidate_range_def Let_def c1_def)
  have val: "ln_valid (l1_lines c1 ! j) \<and> ln_base (l1_lines ?c ! j) = ln_base (l1_lines c1 ! j)"
    if "j < length (l1_lines c1)" "ln_valid (l1_lines ?c ! j)" for j
    using invalidate_range_line [OF that] that by simp
  have "find_line ?c base = Some i"
    unfolding find_line_def first_index_Some_iff
  proof (intro conjI allI impI)
    show "i < length (l1_lines ?c)" using ln by simp
    show "ln_valid (l1_lines ?c ! i)" "ln_base (l1_lines ?c ! i) = base" using keep ln by simp_all
    fix j assume "j < i"
    moreover from this have "\<not> (ln_valid (l1_lines c1 ! j) \<and> ln_base (l1_lines c1 ! j) = base)"
      using f1 by (auto simp: find_line_def first_index_Some_iff)
    ultimately show "\<not> (ln_valid (l1_lines ?c ! j) \<and> ln_base (l1_lines ?c ! j) = base)"
      using val [of j] ln(1) by auto
  qed
  then show thesis using that [OF st co] by (simp add: c1_def invalidate_range_def Let_def)
qed

lemma device_dma_leaves_stale_line:
  assumes "coherent c (bus_ram b)" "mmio_devices b" "\<not> should_bypass c b a n" "find_line c (line_base c a) = Some i"
    and "should_bypass c b reg k" "bus_store b reg v k = (True, b')"
    and "\<not> (reg < line_base c a + l1_line_size c \<and>
       line_base c a < (if word_of_int k > - 1 - reg then - 1 else reg + word_of_int k))"
  obtains c' where "l1_store c b reg v k = (True, c', b')"
    "fst (l1_load c' b' a n) = Some (mem_read (bus_ram b) a n)"
    "fst (bus_load b' a n) = Some (mem_read (bus_ram b') a n)"
proof -
  obtain c' where c': "l1_store c b reg v k = (True, c', b')" "coherent c' (bus_ram b)"
      "find_line c' (line_base c a) = Some i" "l1_line_size c' = l1_line_size c" "l1_enabled c' = l1_enabled c"
      "l1_capacity c' = l1_capacity c"
    by (rule bypass_store_keeps_line [OF assms(5,6,4,1,7)])
  have devs: "bus_devices b' = bus_devices b" by (rule bus_ops_devices(2) [OF assms(6)])
  then have mm: "mmio_devices b'" using assms(2) by (simp add: mmio_devices_def)
  have lb: "line_base c' = line_base c" using c'(4) by (simp add: line_base_def fun_eq_iff)
  have fd: "find_device b' x m = find_device b x m" for x m by (simp add: find_device_def devs)
  have tr: "target_region b' = target_region b" unfolding target_region_def devs by (rule refl)
  have ds: "describe_span b' x m = describe_span b x m" for x m
    unfolding describe_span_def describe_region_def tr fd devs by (rule refl)
  have "should_bypass c' b' a n = should_bypass c b a n"
    unfolding should_bypass_def access_fits_one_line_def line_offset_def lb ds c'(4-6) by (rule refl)
  then have by': "\<not> should_bypass c' b' a n" using assms(3) by simp
  have "l1_line_size c \<noteq> 0" using assms(1) by (simp add: coherent_iff)
  note ca = cached_access [OF assms(2,3) this]
  have "fst (bus_load b' a n) = Some (mem_read (bus_ram b') a n)"
    using bus_load_in_ram [of n a b'] ca(1-3) by simp
  moreover have "fst (l1_load c' b' a n) = Some (mem_read (bus_ram b) a n)"
    by (rule stale_hit [OF c'(2) mm by']) (simp add: lb c'(3))
  ultimately show thesis using that c'(1) by blast
qed

lemma doorbell_stale:
  "fst (data_run (Some (l1_create True 8 1)) (device_bus doorbell_device)
     [Data_Load 0x80000010 1, Data_Store 0x10000000 1 4, Data_Load 0x80000010 1]) = [Inl (Some 5), Inr True, Inl (Some 5)]"
  "fst (data_run None (device_bus doorbell_device)
     [Data_Load 0x80000010 1, Data_Store 0x10000000 1 4, Data_Load 0x80000010 1]) = [Inl (Some 5), Inr True, Inl (Some 9)]"
  by code_simp+

end
