(* ===== verification/Spec2Isabelle.thy ===== *)
theory Spec2Isabelle
  imports UserProgram IntegerSpec DecodeFormats EarlyHeap Pmm CourseMemory ProcessLifecycle CourseSync SchedulerPolicies OnlineTicks ConsoleInput FdProperties SyscallSandbox TrapProperties MmuIsolation DmaSpec
begin

text \<open>
  A verification library for the C sources of the teaching computer: the simulator's RAM and
  instruction decoder (\<open>src/myCPU/src\<close>) and the course kernel (\<open>src/myCPU/guest/kernel\<close>).
\<close>

end
